(* ===== verification/Prelude.thy ===== *)
theory Prelude
  imports Complex_Main "HOL-Library.Word" "HOL-Library.AList" "HOL-Library.Sublist"
begin

section \<open>Shared types, automation and generic lemmas\<close>

text \<open>
  What every component theory uses: the exceptions of the C++ code as a datatype, the result
  type of an operation that may throw, the sequencing of such operations, and the collections of
  facts that carry the component proofs (\<open>codec_simps\<close> for encoders and decoders,
  \<open>step_simps\<close> for the operations of the stateful components).
\<close>

named_theorems codec_simps
named_theorems step_simps

text \<open>Bytes in memory (\<open>std::vector<char>\<close>) and \<open>std::string\<close> are both lists of \<open>char\<close>.\<close>

type_synonym bytes = "char list"

text \<open>A \<open>double\<close> is an exact rational: rounding is not modelled.\<close>

type_synonym double = rat

text \<open>Time points of \<open>steady_clock\<close>, in nanoseconds since its epoch.\<close>

type_synonym time_point = int

datatype exn =
    Invalid_argument string
  | Out_of_range string
  | Runtime_error string
  | Json_parse_error string
  | Json_type_error string
  | Json_out_of_range string

text \<open>\<open>std::exception::what()\<close>.\<close>

fun exn_what :: "exn \<Rightarrow> string" where
  "exn_what (Invalid_argument m) = m"
| "exn_what (Out_of_range m) = m"
| "exn_what (Runtime_error m) = m"
| "exn_what (Json_parse_error m) = m"
| "exn_what (Json_type_error m) = m"
| "exn_what (Json_out_of_range m) = m"

type_synonym 'a res = "exn + 'a"

text \<open>Sequencing: the first exception thrown leaves the rest of the statements unexecuted.\<close>

definition res_bind :: "'a res \<Rightarrow> ('a \<Rightarrow> 'b res) \<Rightarrow> 'b res" where
  "res_bind m f = (case m of Inl e \<Rightarrow> Inl e | Inr x \<Rightarrow> f x)"

lemma res_bind_Inr [simp]: "res_bind (Inr x) f = f x"
  by (simp add: res_bind_def)

lemma res_bind_Inl [simp]: "res_bind (Inl e) f = Inl e"
  by (simp add: res_bind_def)

lemma res_bind_eq_Inr: "res_bind m f = Inr y \<longleftrightarrow> (\<exists>x. m = Inr x \<and> f x = Inr y)"
  by (cases m) auto

lemma res_bind_eq_Inl: "res_bind m f = Inl e \<longleftrightarrow> m = Inl e \<or> (\<exists>x. m = Inr x \<and> f x = Inl e)"
  by (cases m) auto

text \<open>A block of statements that update one object, each of which may throw.\<close>

fun run_all :: "('s \<Rightarrow> 's res) list \<Rightarrow> 's \<Rightarrow> 's res" where
  "run_all [] s = Inr s"
| "run_all (f # fs) s = res_bind (f s) (run_all fs)"

lemma run_all_append: "run_all (fs @ gs) s = res_bind (run_all fs s) (run_all gs)"
proof (induction fs arbitrary: s)
  case Nil
  then show ?case by simp
next
  case (Cons f fs)
  then show ?case by (cases "f s") auto
qed

lemma run_all_invariant:
  assumes "run_all fs s = Inr t" and "P s"
    and "\<And>f a b. f \<in> set fs \<Longrightarrow> P a \<Longrightarrow> f a = Inr b \<Longrightarrow> P b"
  shows "P t"
  using assms
proof (induction fs arbitrary: s)
  case Nil
  then show ?case by simp
next
  case (Cons f fs)
  from Cons.prems(1) obtain u where u: "f s = Inr u" "run_all fs u = Inr t"
    by (auto simp: res_bind_eq_Inr)
  with Cons.prems(2,3) have "P u" by auto
  with u(2) show ?case
    using Cons.IH [of u] Cons.prems(3) by (meson list.set_intros(2))
qed

subsection \<open>Generic facts on lists and maps\<close>

lemma take_drop_prefix: "take (length xs) (xs @ ys) = xs" "drop (length xs) (xs @ ys) = ys"
  by simp_all

lemma map_of_update_other: "k \<noteq> k' \<Longrightarrow> map_of (AList.update k v m) k' = map_of m k'"
  by (simp add: update_conv')

lemma map_of_update_same: "map_of (AList.update k v m) k = Some v"
  by (simp add: update_conv')

lemma map_of_delete_other: "k \<noteq> k' \<Longrightarrow> map_of (AList.delete k m) k' = map_of m k'"
  by (simp add: delete_conv')

lemma map_of_delete_same: "map_of (AList.delete k m) k = None"
  by (simp add: delete_conv')

lemmas alist_lookup = map_of_update_other map_of_update_same map_of_delete_other map_of_delete_same

lemma foldl_invariant:
  assumes "P s" and "\<And>a x. x \<in> set xs \<Longrightarrow> P a \<Longrightarrow> P (f a x)"
  shows "P (foldl f s xs)"
  using assms by (induction xs arbitrary: s) auto

end
