(* ===== verification/CppStd.thy ===== *)
theory CppStd
  imports Prelude
begin

section \<open>The parts of the C++ standard library the program relies on\<close>

text \<open>
  Decimal printing (\<open>std::to_string\<close>), decimal scanning (\<open>std::stoi\<close>, \<open>std::stoll\<close>),
  character classes of the C locale, and searching in strings (\<open>std::string::find\<close>), as
  executable functions. The central fact is that scanning what was printed gives the number
  back (\<open>scan_int_show_int\<close>): printing and scanning command-line options and log lines
  rests on it.
\<close>

definition digit_char :: "nat \<Rightarrow> char" where
  "digit_char d = char_of (48 + d)"

definition is_digit :: "char \<Rightarrow> bool" where
  "is_digit c \<longleftrightarrow> 48 \<le> (of_char c :: nat) \<and> (of_char c :: nat) \<le> 57"

definition is_space :: "char \<Rightarrow> bool" where
  "is_space c \<longleftrightarrow> (of_char c :: nat) = 32 \<or> (9 \<le> (of_char c :: nat) \<and> (of_char c :: nat) \<le> 13)"

definition to_upper_char :: "char \<Rightarrow> char" where
  "to_upper_char c =
     (let n = (of_char c :: nat) in if 97 \<le> n \<and> n \<le> 122 then char_of (n - 32) else c)"

definition digit_val :: "char \<Rightarrow> nat" where
  "digit_val c = (of_char c :: nat) - 48"

text \<open>\<open>std::to_string\<close> on unsigned and signed integers.\<close>

fun show_nat :: "nat \<Rightarrow> string" where
  "show_nat n = (if n < 10 then [digit_char n] else show_nat (n div 10) @ [digit_char (n mod 10)])"

declare show_nat.simps [simp del]

definition show_int :: "int \<Rightarrow> string" where
  "show_int i = (if i < 0 then CHR ''-'' # show_nat (nat (- i)) else show_nat (nat i))"

definition show_bool :: "bool \<Rightarrow> string" where
  "show_bool b = (if b then ''true'' else ''false'')"

subsection \<open>Scanning integers\<close>

text \<open>
  \<open>strtol\<close> in base 10: leading white space, an optional sign, then the longest run of digits;
  \<open>None\<close> when there is no digit. The second component is the number of characters read.
\<close>

definition nat_of_digits :: "string \<Rightarrow> nat" where
  "nat_of_digits ds = foldl (\<lambda>a c. 10 * a + digit_val c) 0 ds"

definition scan_digits :: "string \<Rightarrow> (nat \<times> nat) option" where
  "scan_digits s =
     (let ds = takeWhile is_digit s
      in if ds = [] then None else Some (nat_of_digits ds, length ds))"

definition scan_signed :: "string \<Rightarrow> (int \<times> nat) option" where
  "scan_signed s =
     (case s of
        [] \<Rightarrow> None
      | c # cs \<Rightarrow>
          if c = CHR ''-'' then map_option (\<lambda>(v, n). (- int v, Suc n)) (scan_digits cs)
          else if c = CHR ''+'' then map_option (\<lambda>(v, n). (int v, Suc n)) (scan_digits cs)
          else map_option (\<lambda>(v, n). (int v, n)) (scan_digits s))"

definition scan_int :: "string \<Rightarrow> (int \<times> nat) option" where
  "scan_int s =
     (let sp = takeWhile is_space s
      in map_option (\<lambda>(v, n). (v, length sp + n)) (scan_signed (drop (length sp) s)))"

definition INT_MIN :: int where "INT_MIN = - (2 ^ 31)"
definition INT_MAX :: int where "INT_MAX = 2 ^ 31 - 1"
definition LLONG_MIN :: int where "LLONG_MIN = - (2 ^ 63)"
definition LLONG_MAX :: int where "LLONG_MAX = 2 ^ 63 - 1"

text \<open>\<open>std::stoi(s, &used)\<close> and \<open>std::stoll(s)\<close>.\<close>

definition stoi_pos :: "string \<Rightarrow> (int \<times> nat) res" where
  "stoi_pos s =
     (case scan_int s of
        None \<Rightarrow> Inl (Invalid_argument ''stoi'')
      | Some (v, n) \<Rightarrow>
          if INT_MIN \<le> v \<and> v \<le> INT_MAX then Inr (v, n) else Inl (Out_of_range ''stoi''))"

definition stoi :: "string \<Rightarrow> int res" where
  "stoi s = res_bind (stoi_pos s) (\<lambda>(v, n). Inr v)"

definition stoll :: "string \<Rightarrow> int res" where
  "stoll s =
     (case scan_int s of
        None \<Rightarrow> Inl (Invalid_argument ''stoll'')
      | Some (v, n) \<Rightarrow>
          if LLONG_MIN \<le> v \<and> v \<le> LLONG_MAX then Inr v else Inl (Out_of_range ''stoll''))"

subsection \<open>Searching\<close>

fun find_sub :: "string \<Rightarrow> string \<Rightarrow> nat option" where
  "find_sub pat [] = (if pat = [] then Some 0 else None)"
| "find_sub pat (c # cs) =
     (if prefix pat (c # cs) then Some 0 else map_option Suc (find_sub pat cs))"

text \<open>\<open>s.find(pat, start)\<close>, with \<open>npos\<close> as \<open>None\<close>.\<close>

definition find_from :: "string \<Rightarrow> string \<Rightarrow> nat \<Rightarrow> nat option" where
  "find_from s pat start =
     (if length s < start then None
      else map_option (\<lambda>n. start + n) (find_sub pat (drop start s)))"

definition contains_sub :: "string \<Rightarrow> string \<Rightarrow> bool" where
  "contains_sub s pat \<longleftrightarrow> find_sub pat s \<noteq> None"

text \<open>\<open>s.substr(pos, n)\<close> for \<open>pos \<le> s.size()\<close>.\<close>

definition substr :: "string \<Rightarrow> nat \<Rightarrow> nat \<Rightarrow> string" where
  "substr s pos n = take n (drop pos s)"

subsection \<open>Printing and scanning are inverse\<close>

lemma of_char_digit_char: "d < 10 \<Longrightarrow> (of_char (digit_char d) :: nat) = 48 + d"
  by (simp add: digit_char_def)

lemma is_digit_digit_char [simp]: "d < 10 \<Longrightarrow> is_digit (digit_char d)"
  by (simp add: is_digit_def of_char_digit_char)

lemma digit_val_digit_char [simp]: "d < 10 \<Longrightarrow> digit_val (digit_char d) = d"
  by (simp add: digit_val_def of_char_digit_char)

lemma show_nat_nonempty [simp]: "show_nat n \<noteq> []"
  by (subst show_nat.simps) simp

lemma show_nat_digits: "c \<in> set (show_nat n) \<Longrightarrow> is_digit c"
proof (induction n rule: show_nat.induct)
  case (1 n)
  then show ?case by (subst (asm) show_nat.simps) (auto split: if_splits)
qed

lemma takeWhile_show_nat:
  "takeWhile is_digit (show_nat n @ s) = show_nat n @ takeWhile is_digit s"
  by (simp add: show_nat_digits)

lemma takeWhile_show_nat_all [simp]: "takeWhile is_digit (show_nat n) = show_nat n"
  using takeWhile_show_nat [of n "[]"] by simp

lemma nat_of_digits_snoc: "nat_of_digits (ds @ [c]) = 10 * nat_of_digits ds + digit_val c"
  by (simp add: nat_of_digits_def)

lemma nat_of_digits_show_nat [simp]: "nat_of_digits (show_nat n) = n"
proof (induction n rule: show_nat.induct)
  case (1 n)
  show ?case
  proof (cases "n < 10")
    case True
    then show ?thesis by (subst show_nat.simps) (simp add: nat_of_digits_def)
  next
    case False
    with 1 show ?thesis by (subst show_nat.simps) (simp add: nat_of_digits_snoc)
  qed
qed

lemma inj_show_nat: "show_nat m = show_nat n \<Longrightarrow> m = n"
  by (metis nat_of_digits_show_nat)

lemma scan_digits_show_nat:
  "(s = [] \<or> \<not> is_digit (hd s)) \<Longrightarrow>
   scan_digits (show_nat n @ s) = Some (n, length (show_nat n))"
  using takeWhile_show_nat [of n s] by (cases s) (auto simp: scan_digits_def Let_def)

lemma hd_show_nat: "is_digit (hd (show_nat n))"
  by (rule show_nat_digits [OF hd_in_set]) simp

lemma not_digit_sign: "\<not> is_digit (CHR ''-'')" "\<not> is_digit (CHR ''+'')"
  by (simp_all add: is_digit_def)

lemma digit_not_space: "is_digit c \<Longrightarrow> \<not> is_space c"
  by (auto simp: is_digit_def is_space_def)

lemma scan_signed_show_int:
  assumes "s = [] \<or> \<not> is_digit (hd s)"
  shows "scan_signed (show_int i @ s) = Some (i, length (show_int i))"
proof (cases "i < 0")
  case True
  with assms show ?thesis
    by (simp add: show_int_def scan_signed_def scan_digits_show_nat)
next
  case False
  obtain c cs where s: "show_nat (nat i) = c # cs" by (cases "show_nat (nat i)") auto
  with hd_show_nat [of "nat i"] have "is_digit c" by simp
  then have "c \<noteq> CHR ''-''" "c \<noteq> CHR ''+''" using not_digit_sign by auto
  with False s show ?thesis
    using scan_digits_show_nat [OF assms, of "nat i"]
    by (simp add: show_int_def scan_signed_def)
qed

lemma takeWhile_space_show_int: "takeWhile is_space (show_int i @ s) = []"
proof -
  obtain c cs where s: "show_int i = c # cs"
    by (cases "show_int i") (auto simp: show_int_def split: if_splits)
  have "\<not> is_space c"
  proof (cases "i < 0")
    case True
    with s show ?thesis by (auto simp: show_int_def is_space_def)
  next
    case False
    with s hd_show_nat [of "nat i"] show ?thesis
      by (auto simp: show_int_def dest: digit_not_space)
  qed
  with s show ?thesis by simp
qed

lemma scan_int_show_int:
  assumes "s = [] \<or> \<not> is_digit (hd s)"
  shows "scan_int (show_int i @ s) = Some (i, length (show_int i))"
  using scan_signed_show_int [OF assms]
  by (simp add: scan_int_def takeWhile_space_show_int)

lemma scan_int_show_int_whole: "scan_int (show_int i) = Some (i, length (show_int i))"
  using scan_int_show_int [of "[]" i] by simp

lemma stoi_show_int: "INT_MIN \<le> i \<Longrightarrow> i \<le> INT_MAX \<Longrightarrow> stoi (show_int i) = Inr i"
  by (simp add: stoi_def stoi_pos_def scan_int_show_int_whole)

lemma stoll_show_int: "LLONG_MIN \<le> i \<Longrightarrow> i \<le> LLONG_MAX \<Longrightarrow> stoll (show_int i) = Inr i"
  by (simp add: stoll_def scan_int_show_int_whole)

lemma inj_show_int: "show_int i = show_int j \<Longrightarrow> i = j"
  by (metis scan_int_show_int_whole option.inject prod.inject)

lemma show_int_nonempty [simp]: "show_int i \<noteq> []"
  by (simp add: show_int_def)

subsection \<open>Facts on searching\<close>

lemma find_sub_Some:
  "find_sub pat s = Some n \<Longrightarrow> n \<le> length s \<and> prefix pat (drop n s)"
proof (induction pat s arbitrary: n rule: find_sub.induct)
  case (1 pat)
  then show ?case by (auto split: if_splits)
next
  case (2 pat c cs)
  then show ?case by (auto split: if_splits)
qed

lemma find_sub_least:
  "find_sub pat s = Some n \<Longrightarrow> m < n \<Longrightarrow> \<not> prefix pat (drop m s)"
proof (induction pat s arbitrary: n m rule: find_sub.induct)
  case (1 pat)
  then show ?case by (auto split: if_splits)
next
  case (2 pat c cs)
  then show ?case by (cases m) (auto split: if_splits)
qed

lemma find_sub_append: "find_sub pat (pat @ s) = Some 0"
proof (cases "pat @ s")
  case Nil
  then show ?thesis by simp
next
  case (Cons a as)
  then have "prefix pat (a # as)" by (metis prefixI)
  with Cons show ?thesis by simp
qed

lemma find_sub_None: "find_sub pat s = None \<Longrightarrow> \<not> prefix pat (drop n s)"
proof (induction pat s arbitrary: n rule: find_sub.induct)
  case (1 pat)
  then show ?case by (auto split: if_splits)
next
  case (2 pat c cs)
  then show ?case by (cases n) (auto split: if_splits)
qed

lemma contains_sub_append: "contains_sub (a @ pat @ b) pat"
proof -
  have "prefix pat (drop (length a) (a @ pat @ b))" by simp
  then show ?thesis unfolding contains_sub_def by (metis find_sub_None)
qed

end
