(* ===== verification/Json.thy ===== *)
theory Json
  imports CppStd "HOL-Library.Char_ord" "HOL-Library.List_Lexorder"
begin

section \<open>JSON values, as the program uses nlohmann::json\<close>

text \<open>
  The value type of the vendored library and the accessors the program calls on it, with the
  conversions and exceptions its source gives them. Integers are one constructor: the library
  tells \<open>number_integer\<close> and \<open>number_unsigned\<close> apart only in storage, and compares and
  converts them alike. An object is a \<open>std::map\<close>: an association list that \<open>map_put\<close> keeps sorted
  by key, in the byte order of \<open>std::string\<close>. Text to value and back (\<open>json::parse\<close>, \<open>dump\<close>)
  are parameters of the definitions that call them; the theories \<open>JsonLexer\<close>, \<open>JsonParser\<close> and
  \<open>JsonDump\<close> model the library's own. The locale
  \<open>json_codec\<close> is the interface of every \<open>to_json\<close>/\<open>from_json\<close> pair of the program.
\<close>

datatype json =
    JNull
  | JBool bool
  | JInt int
  | JFloat double
  | JString string
  | JArray "json list"
  | JObject "(string \<times> json) list"

fun type_name :: "json \<Rightarrow> string" where
  "type_name JNull = ''null''"
| "type_name (JObject _) = ''object''"
| "type_name (JArray _) = ''array''"
| "type_name (JString _) = ''string''"
| "type_name (JBool _) = ''boolean''"
| "type_name (JInt _) = ''number''"
| "type_name (JFloat _) = ''number''"

fun is_object :: "json \<Rightarrow> bool" where
  "is_object (JObject _) = True"
| "is_object _ = False"

fun is_string :: "json \<Rightarrow> bool" where
  "is_string (JString _) = True"
| "is_string _ = False"

fun is_boolean :: "json \<Rightarrow> bool" where
  "is_boolean (JBool _) = True"
| "is_boolean _ = False"

fun is_number_integer :: "json \<Rightarrow> bool" where
  "is_number_integer (JInt _) = True"
| "is_number_integer _ = False"

fun is_number :: "json \<Rightarrow> bool" where
  "is_number (JInt _) = True"
| "is_number (JFloat _) = True"
| "is_number _ = False"

definition json_err :: "string \<Rightarrow> nat \<Rightarrow> string" where
  "json_err ename n = ''[json.exception.'' @ ename @ ''.'' @ show_nat n @ ''] ''"

definition quoted :: "string \<Rightarrow> string" where
  "quoted s = CHR 0x27 # s @ [CHR 0x27]"

definition type_error_302 :: "string \<Rightarrow> json \<Rightarrow> exn" where
  "type_error_302 want j = Json_type_error
     (json_err ''type_error'' 302 @ ''type must be '' @ want @ '', but is '' @ type_name j)"

subsection \<open>Objects\<close>

text \<open>
  \<open>operator[](key) = v\<close> and \<open>emplace(key, v)\<close> of \<open>std::map\<close>, and an object built from an
  initializer list of pairs, the first of two with the same key winning.
\<close>

fun map_put :: "string \<Rightarrow> json \<Rightarrow> (string \<times> json) list \<Rightarrow> (string \<times> json) list" where
  "map_put k v [] = [(k, v)]"
| "map_put k v ((k', v') # m) =
     (if k < k' then (k, v) # (k', v') # m
      else if k = k' then (k, v) # m
      else (k', v') # map_put k v m)"

definition map_emplace :: "string \<Rightarrow> json \<Rightarrow> (string \<times> json) list \<Rightarrow> (string \<times> json) list" where
  "map_emplace k v m = (if map_of m k = None then map_put k v m else m)"

definition json_object :: "(string \<times> json) list \<Rightarrow> json" where
  "json_object ps = JObject (foldl (\<lambda>m (k, v). map_emplace k v m) [] ps)"

lemma map_of_put: "map_of (map_put k v m) = (map_of m)(k \<mapsto> v)"
  by (induction m) auto

definition sorted_keys :: "(string \<times> json) list \<Rightarrow> bool" where
  "sorted_keys m \<longleftrightarrow> sorted_wrt (<) (map fst m)"

lemma set_map_put: "fst ` set (map_put k v m) = insert k (fst ` set m)"
proof (induction m)
  case Nil
  then show ?case by simp
next
  case (Cons p m)
  then show ?case by (cases p) (auto simp: insert_commute)
qed

lemma sorted_keys_put: "sorted_keys m \<Longrightarrow> sorted_keys (map_put k v m)"
proof (induction m)
  case Nil
  then show ?case by (simp add: sorted_keys_def)
next
  case (Cons p m)
  obtain k' v' where p: "p = (k', v')" by (cases p)
  have IH: "sorted_keys (map_put k v m)" and lt: "\<forall>x\<in>fst ` set m. k' < x"
    using Cons by (auto simp: sorted_keys_def p)
  show ?case
  proof (cases "k < k'")
    case True
    with Cons.prems lt show ?thesis by (auto simp: p sorted_keys_def)
  next
    case False
    then have "k \<noteq> k' \<Longrightarrow> k' < k" by auto
    then have "k \<noteq> k' \<Longrightarrow> \<forall>x\<in>fst ` set (map_put k v m). k' < x" using lt by (simp add: set_map_put)
    with False IH Cons.prems show ?thesis by (auto simp: p sorted_keys_def)
  qed
qed

lemma sorted_keys_emplace: "sorted_keys m \<Longrightarrow> sorted_keys (map_emplace k v m)"
  by (simp add: map_emplace_def sorted_keys_put)

text \<open>A key above those in the map goes to its end.\<close>

lemma map_put_last: "\<forall>k'\<in>fst ` set m. k' < k \<Longrightarrow> map_put k v m = m @ [(k, v)]"
  by (induction m) auto

lemma map_of_emplace: "map_of (map_emplace k v m) k' =
   (case map_of m k' of Some x \<Rightarrow> Some x | None \<Rightarrow> if k' = k then Some v else None)"
  by (auto simp: map_emplace_def map_of_put split: option.split)

lemma map_of_emplace_all: "map_of (foldl (\<lambda>m (k, v). map_emplace k v m) m ps) k =
   (case map_of m k of Some x \<Rightarrow> Some x | None \<Rightarrow> map_of ps k)"
  by (induction ps arbitrary: m) (auto simp: map_of_emplace split: option.split)

lemma sorted_keys_emplace_all:
  "sorted_keys m \<Longrightarrow> sorted_keys (foldl (\<lambda>m (k, v). map_emplace k v m) m ps)"
  by (induction ps arbitrary: m) (auto simp: sorted_keys_emplace)

lemma is_object_json_object [simp]: "is_object (json_object ps)"
  by (simp add: json_object_def)

subsection \<open>Access\<close>

text \<open>\<open>find(key)\<close> on an object, \<open>contains\<close> and \<open>at\<close>.\<close>

fun json_find :: "string \<Rightarrow> json \<Rightarrow> json option" where
  "json_find k (JObject m) = map_of m k"
| "json_find k _ = None"

definition json_contains :: "string \<Rightarrow> json \<Rightarrow> bool" where
  "json_contains k j \<longleftrightarrow> json_find k j \<noteq> None"

definition json_at :: "string \<Rightarrow> json \<Rightarrow> json res" where
  "json_at k j =
     (if \<not> is_object j
      then Inl (Json_type_error (json_err ''type_error'' 304 @ ''cannot use at() with '' @ type_name j))
      else (case json_find k j of
              None \<Rightarrow> Inl (Json_out_of_range (json_err ''out_of_range'' 403 @ ''key '' @ quoted k @ '' not found''))
            | Some v \<Rightarrow> Inr v))"

text \<open>\<open>root[key] = v\<close> on an object or on a null value; on another one, where it throws, it is not used.\<close>

fun json_set :: "string \<Rightarrow> json \<Rightarrow> json \<Rightarrow> json" where
  "json_set k v (JObject m) = JObject (map_put k v m)"
| "json_set k v _ = JObject [(k, v)]"

subsection \<open>Conversions\<close>

text \<open>\<open>static_cast\<close> to a signed type of \<open>w\<close> bits, and from a \<open>double\<close> (towards zero).\<close>

definition cast_signed :: "nat \<Rightarrow> int \<Rightarrow> int" where
  "cast_signed w i = (i + 2 ^ (w - 1)) mod 2 ^ w - 2 ^ (w - 1)"

definition trunc_double :: "double \<Rightarrow> int" where
  "trunc_double r = (if r < 0 then \<lceil>r\<rceil> else \<lfloor>r\<rfloor>)"

text \<open>
  \<open>from_json\<close> for arithmetic types other than those of the library (\<open>int\<close>, and \<open>long long\<close> where
  \<open>int64_t\<close> is \<open>long\<close>): a boolean converts too.
\<close>

fun get_signed :: "nat \<Rightarrow> json \<Rightarrow> int res" where
  "get_signed w (JInt i) = Inr (cast_signed w i)"
| "get_signed w (JFloat r) = Inr (cast_signed w (trunc_double r))"
| "get_signed w (JBool b) = Inr (if b then 1 else 0)"
| "get_signed w j = Inl (type_error_302 ''number'' j)"

abbreviation get_int :: "json \<Rightarrow> int res" where
  "get_int \<equiv> get_signed 32"

abbreviation get_llong :: "json \<Rightarrow> int res" where
  "get_llong \<equiv> get_signed 64"

fun get_double :: "json \<Rightarrow> double res" where
  "get_double (JInt i) = Inr (of_int i)"
| "get_double (JFloat r) = Inr r"
| "get_double j = Inl (type_error_302 ''number'' j)"

fun get_bool :: "json \<Rightarrow> bool res" where
  "get_bool (JBool b) = Inr b"
| "get_bool j = Inl (type_error_302 ''boolean'' j)"

fun get_string :: "json \<Rightarrow> string res" where
  "get_string (JString s) = Inr s"
| "get_string j = Inl (type_error_302 ''string'' j)"

text \<open>\<open>j.value(key, fallback)\<close>.\<close>

definition json_value :: "(json \<Rightarrow> 'a res) \<Rightarrow> string \<Rightarrow> 'a \<Rightarrow> json \<Rightarrow> 'a res" where
  "json_value get k d j =
     (if \<not> is_object j
      then Inl (Json_type_error (json_err ''type_error'' 306 @ ''cannot use value() with '' @ type_name j))
      else (case json_find k j of None \<Rightarrow> Inr d | Some v \<Rightarrow> get v))"

text \<open>
  One statement of a \<open>from_json\<close>: \<open>j.at(key).get_to(field)\<close>, and the same behind
  \<open>if (j.contains(key))\<close>; \<open>upd\<close> writes the field and may throw.
\<close>

definition at_get :: "string \<Rightarrow> (json \<Rightarrow> 'v res) \<Rightarrow> ('v \<Rightarrow> 's \<Rightarrow> 's res) \<Rightarrow> json \<Rightarrow> 's \<Rightarrow> 's res" where
  "at_get k get upd j s = res_bind (json_at k j) (\<lambda>v. res_bind (get v) (\<lambda>x. upd x s))"

definition opt_get :: "string \<Rightarrow> (json \<Rightarrow> 'v res) \<Rightarrow> ('v \<Rightarrow> 's \<Rightarrow> 's res) \<Rightarrow> json \<Rightarrow> 's \<Rightarrow> 's res" where
  "opt_get k get upd j s = (if json_contains k j then at_get k get upd j s else Inr s)"

definition assign :: "('v \<Rightarrow> 's \<Rightarrow> 's) \<Rightarrow> 'v \<Rightarrow> 's \<Rightarrow> 's res" where
  "assign f x s = Inr (f x s)"

lemma assign_simp [codec_simps]: "assign f x s = Inr (f x s)"
  by (simp add: assign_def)

lemma json_at_object [codec_simps]:
  "json_at k (JObject m) =
     (case map_of m k of
        None \<Rightarrow> Inl (Json_out_of_range (json_err ''out_of_range'' 403 @ ''key '' @ quoted k @ '' not found''))
      | Some v \<Rightarrow> Inr v)"
  by (simp add: json_at_def)

lemma json_contains_object [codec_simps]: "json_contains k (JObject m) \<longleftrightarrow> map_of m k \<noteq> None"
  by (simp add: json_contains_def)

lemma json_value_object [codec_simps]:
  "json_value get k d (JObject m) = (case map_of m k of None \<Rightarrow> Inr d | Some v \<Rightarrow> get v)"
  by (simp add: json_value_def)

lemma json_find_json_object [simp]: "json_find k (json_object ps) = map_of ps k"
  by (simp add: json_object_def map_of_emplace_all)

lemma json_at_json_object [codec_simps]:
  "json_at k (json_object ps) =
     (case map_of ps k of
        None \<Rightarrow> Inl (Json_out_of_range (json_err ''out_of_range'' 403 @ ''key '' @ quoted k @ '' not found''))
      | Some v \<Rightarrow> Inr v)"
  by (simp add: json_at_def)

lemma json_contains_json_object [codec_simps]:
  "json_contains k (json_object ps) \<longleftrightarrow> map_of ps k \<noteq> None"
  by (simp add: json_contains_def)

lemma json_value_json_object [codec_simps]:
  "json_value get k d (json_object ps) = (case map_of ps k of None \<Rightarrow> Inr d | Some v \<Rightarrow> get v)"
  by (simp add: json_value_def)

lemmas [codec_simps] = at_get_def opt_get_def

lemma json_find_set: "json_find k' (json_set k v j) =
   (if k' = k then Some v else if is_object j then json_find k' j else None)"
  by (cases j) (auto simp: map_of_put)

lemma is_object_set [simp]: "is_object (json_set k v j)"
  by (cases j) auto

lemma cast_signed_id: "0 < w \<Longrightarrow> - (2 ^ (w - 1)) \<le> i \<Longrightarrow> i < 2 ^ (w - 1) \<Longrightarrow> cast_signed w i = i"
  by (cases w) (simp_all add: cast_signed_def)

lemma cast_signed_range:
  assumes "0 < w"
  shows "- (2 ^ (w - 1)) \<le> cast_signed w i \<and> cast_signed w i < 2 ^ (w - 1)"
proof -
  obtain v where w: "w = Suc v" using assms by (cases w) auto
  have "0 \<le> (i + 2 ^ v) mod 2 ^ w" and "(i + 2 ^ v) mod 2 ^ w < 2 ^ w" by simp_all
  with w show ?thesis by (simp add: cast_signed_def)
qed

definition int_range :: "int \<Rightarrow> bool" where
  "int_range i \<longleftrightarrow> INT_MIN \<le> i \<and> i \<le> INT_MAX"

definition llong_range :: "int \<Rightarrow> bool" where
  "llong_range i \<longleftrightarrow> LLONG_MIN \<le> i \<and> i \<le> LLONG_MAX"

lemma get_int_id [codec_simps]: "int_range i \<Longrightarrow> get_int (JInt i) = Inr i"
  by (simp add: cast_signed_id int_range_def INT_MIN_def INT_MAX_def)

lemma get_llong_id [codec_simps]: "llong_range i \<Longrightarrow> get_llong (JInt i) = Inr i"
  by (simp add: cast_signed_id llong_range_def LLONG_MIN_def LLONG_MAX_def)

lemma int_less_le: "(i :: int) < k \<longleftrightarrow> i \<le> k - 1"
  by linarith

lemma get_int_range: "get_int j = Inr i \<Longrightarrow> int_range i"
  using cast_signed_range [of 32]
  by (cases j) (auto simp: int_range_def INT_MIN_def INT_MAX_def int_less_le split: if_splits)

lemma get_llong_range: "get_llong j = Inr i \<Longrightarrow> llong_range i"
  using cast_signed_range [of 64]
  by (cases j) (auto simp: llong_range_def LLONG_MIN_def LLONG_MAX_def int_less_le split: if_splits)

lemma int_imp_llong_range: "int_range i \<Longrightarrow> llong_range i"
  by (simp add: int_range_def llong_range_def INT_MIN_def INT_MAX_def LLONG_MIN_def LLONG_MAX_def)

subsection \<open>The codec interface\<close>

text \<open>
  \<open>json::parse\<close> gives a value or throws; \<open>decode_with\<close> is \<open>json::parse(text).get<T>()\<close>.
\<close>

type_synonym json_parser = "string \<Rightarrow> json res"

type_synonym json_printer = "json \<Rightarrow> string"

definition decode_with :: "json_parser \<Rightarrow> (json \<Rightarrow> 'a res) \<Rightarrow> string \<Rightarrow> 'a res" where
  "decode_with parse dec s = res_bind (parse s) dec"

locale json_codec =
  fixes enc :: "'a \<Rightarrow> json"
    and dec :: "json \<Rightarrow> 'a res"
    and valid :: "'a \<Rightarrow> bool"
  assumes dec_enc: "valid x \<Longrightarrow> dec (enc x) = Inr x"
begin

lemma enc_inj: "valid x \<Longrightarrow> valid y \<Longrightarrow> enc x = enc y \<Longrightarrow> x = y"
  by (metis dec_enc sum.inject(2))

lemma wire_roundtrip:
  assumes "valid x" and "parse (dump (enc x)) = Inr (enc x)"
  shows "decode_with parse dec (dump (enc x)) = Inr x"
  using assms by (simp add: decode_with_def dec_enc)

lemma dump_inj:
  assumes "valid x" and "valid y" and "dump (enc x) = dump (enc y)"
    and "parse (dump (enc x)) = Inr (enc x)" and "parse (dump (enc y)) = Inr (enc y)"
  shows "x = y"
  using assms by (metis enc_inj sum.inject(2))

end

end
