(* ===== verification/Protocol.thy ===== *)
theory Protocol
  imports Json
begin

section \<open>The wire protocol: message types, statistics, packet headers, checksums\<close>

text \<open>
  \<open>MyIperf/include/myiperf/Protocol.h\<close>. A header is laid out as the packed struct is in the
  memory of a little-endian host: 17 bytes. \<open>MessageType\<close> is an enum over one byte: a header
  copied from the network may hold a byte that is no enumerator, which \<open>OTHER_TYPE\<close> carries.
\<close>

subsection \<open>Message types\<close>

datatype MessageType =
    CONFIG_HANDSHAKE | CONFIG_ACK | DATA_PACKET | STATS_EXCHANGE | STATS_ACK
  | TEST_FIN | CLIENT_READY | SHUTDOWN_ACK | OTHER_TYPE "8 word"

fun byte_of_type :: "MessageType \<Rightarrow> 8 word" where
  "byte_of_type CONFIG_HANDSHAKE = 0"
| "byte_of_type CONFIG_ACK = 1"
| "byte_of_type DATA_PACKET = 2"
| "byte_of_type STATS_EXCHANGE = 3"
| "byte_of_type STATS_ACK = 4"
| "byte_of_type TEST_FIN = 5"
| "byte_of_type CLIENT_READY = 6"
| "byte_of_type SHUTDOWN_ACK = 7"
| "byte_of_type (OTHER_TYPE b) = b"

definition type_of_byte :: "8 word \<Rightarrow> MessageType" where
  "type_of_byte b =
     (if b = 0 then CONFIG_HANDSHAKE else if b = 1 then CONFIG_ACK
      else if b = 2 then DATA_PACKET else if b = 3 then STATS_EXCHANGE
      else if b = 4 then STATS_ACK else if b = 5 then TEST_FIN
      else if b = 6 then CLIENT_READY else if b = 7 then SHUTDOWN_ACK
      else OTHER_TYPE b)"

definition canonical_type :: "MessageType \<Rightarrow> bool" where
  "canonical_type t \<longleftrightarrow> type_of_byte (byte_of_type t) = t"

lemma byte_of_type_of_byte [simp]: "byte_of_type (type_of_byte b) = b"
  by (simp add: type_of_byte_def)

lemma canonical_type_of_byte [simp]: "canonical_type (type_of_byte b)"
  by (simp add: canonical_type_def)

lemma canonical_enumerators [simp]:
  "canonical_type CONFIG_HANDSHAKE" "canonical_type CONFIG_ACK" "canonical_type DATA_PACKET"
  "canonical_type STATS_EXCHANGE" "canonical_type STATS_ACK" "canonical_type TEST_FIN"
  "canonical_type CLIENT_READY" "canonical_type SHUTDOWN_ACK"
  by (simp_all add: canonical_type_def type_of_byte_def)

subsection \<open>Test statistics\<close>

record TestStats =
  totalBytesSent :: int
  totalPacketsSent :: int
  totalBytesReceived :: int
  totalPacketsReceived :: int
  failedChecksumCount :: int
  sequenceErrorCount :: int
  contentMismatchCount :: int
  duration :: double
  throughputMbps :: double

definition zeroStats :: TestStats where
  "zeroStats = \<lparr>totalBytesSent = 0, totalPacketsSent = 0, totalBytesReceived = 0,
     totalPacketsReceived = 0, failedChecksumCount = 0, sequenceErrorCount = 0,
     contentMismatchCount = 0, duration = 0, throughputMbps = 0\<rparr>"

definition TestStats_to_json :: "TestStats \<Rightarrow> json" where
  "TestStats_to_json s = json_object
     [(''totalBytesSent'', JInt (totalBytesSent s)),
      (''totalPacketsSent'', JInt (totalPacketsSent s)),
      (''totalBytesReceived'', JInt (totalBytesReceived s)),
      (''totalPacketsReceived'', JInt (totalPacketsReceived s)),
      (''failedChecksumCount'', JInt (failedChecksumCount s)),
      (''sequenceErrorCount'', JInt (sequenceErrorCount s)),
      (''contentMismatchCount'', JInt (contentMismatchCount s)),
      (''duration'', JFloat (duration s)),
      (''throughputMbps'', JFloat (throughputMbps s))]"

definition TestStats_from_json :: "json \<Rightarrow> TestStats res" where
  "TestStats_from_json j = run_all
     [at_get ''totalBytesSent'' get_llong (assign (\<lambda>x s. s\<lparr>totalBytesSent := x\<rparr>)) j,
      at_get ''totalPacketsSent'' get_llong (assign (\<lambda>x s. s\<lparr>totalPacketsSent := x\<rparr>)) j,
      at_get ''totalBytesReceived'' get_llong (assign (\<lambda>x s. s\<lparr>totalBytesReceived := x\<rparr>)) j,
      at_get ''totalPacketsReceived'' get_llong (assign (\<lambda>x s. s\<lparr>totalPacketsReceived := x\<rparr>)) j,
      at_get ''failedChecksumCount'' get_llong (assign (\<lambda>x s. s\<lparr>failedChecksumCount := x\<rparr>)) j,
      at_get ''sequenceErrorCount'' get_llong (assign (\<lambda>x s. s\<lparr>sequenceErrorCount := x\<rparr>)) j,
      at_get ''contentMismatchCount'' get_llong (assign (\<lambda>x s. s\<lparr>contentMismatchCount := x\<rparr>)) j,
      at_get ''duration'' get_double (assign (\<lambda>x s. s\<lparr>duration := x\<rparr>)) j,
      at_get ''throughputMbps'' get_double (assign (\<lambda>x s. s\<lparr>throughputMbps := x\<rparr>)) j]
     zeroStats"

text \<open>Counters fit \<open>long long\<close>, as the struct's fields do by type.\<close>

definition stats_in_range :: "TestStats \<Rightarrow> bool" where
  "stats_in_range s \<longleftrightarrow>
     llong_range (totalBytesSent s) \<and> llong_range (totalPacketsSent s) \<and>
     llong_range (totalBytesReceived s) \<and> llong_range (totalPacketsReceived s) \<and>
     llong_range (failedChecksumCount s) \<and> llong_range (sequenceErrorCount s) \<and>
     llong_range (contentMismatchCount s)"

interpretation stats_codec: json_codec TestStats_to_json TestStats_from_json stats_in_range
proof unfold_locales
  fix s assume "stats_in_range s"
  then show "TestStats_from_json (TestStats_to_json s) = Inr s"
    by (simp add: stats_in_range_def TestStats_from_json_def TestStats_to_json_def codec_simps
        del: get_signed.simps)
qed

subsection \<open>Little-endian bytes\<close>

fun le_encode :: "nat \<Rightarrow> nat \<Rightarrow> bytes" where
  "le_encode 0 v = []"
| "le_encode (Suc k) v = char_of v # le_encode k (v div 256)"

fun le_decode :: "bytes \<Rightarrow> nat" where
  "le_decode [] = 0"
| "le_decode (c # cs) = of_char c + 256 * le_decode cs"

lemma length_le_encode [simp]: "length (le_encode k v) = k"
  by (induction k arbitrary: v) auto

lemma le_decode_encode: "le_decode (le_encode k v) = v mod 256 ^ k"
proof (induction k arbitrary: v)
  case 0
  then show ?case by simp
next
  case (Suc k)
  then show ?case by (simp add: mod_mult2_eq)
qed

lemma le_decode_bound: "le_decode bs < 256 ^ length bs"
proof (induction bs)
  case Nil
  then show ?case by simp
next
  case (Cons c cs)
  have "(of_char c :: nat) < 256" by simp
  with Cons have "of_char c + 256 * le_decode cs < 256 * 256 ^ length cs" by linarith
  then show ?case by simp
qed

lemma char_of_of_char_add: "char_of (of_char c + 256 * n :: nat) = c"
  by (metis char_of_char char_of_mod_256 mod_mult_self2)

lemma le_encode_decode: "le_encode (length bs) (le_decode bs) = bs"
  by (induction bs) (simp_all add: char_of_of_char_add)

subsection \<open>Packet headers\<close>

record PacketHeader =
  startCode :: "16 word"
  senderId :: "8 word"
  receiverId :: "8 word"
  messageType :: MessageType
  packetCounter :: "32 word"
  payloadSize :: "32 word"
  checksum :: "32 word"

definition PROTOCOL_START_CODE :: "16 word" where
  "PROTOCOL_START_CODE = 0xABCD"

definition sizeof_PacketHeader :: nat where
  "sizeof_PacketHeader = 17"

text \<open>\<open>memcpy(packet, &header, sizeof(PacketHeader))\<close> and back.\<close>

definition encode_header :: "PacketHeader \<Rightarrow> bytes" where
  "encode_header h =
     le_encode 2 (unat (startCode h)) @ le_encode 1 (unat (senderId h)) @
     le_encode 1 (unat (receiverId h)) @ le_encode 1 (unat (byte_of_type (messageType h))) @
     le_encode 4 (unat (packetCounter h)) @ le_encode 4 (unat (payloadSize h)) @
     le_encode 4 (unat (checksum h))"

definition decode_header :: "bytes \<Rightarrow> PacketHeader" where
  "decode_header bs =
     \<lparr>startCode = word_of_nat (le_decode (take 2 bs)),
      senderId = word_of_nat (le_decode (take 1 (drop 2 bs))),
      receiverId = word_of_nat (le_decode (take 1 (drop 3 bs))),
      messageType = type_of_byte (word_of_nat (le_decode (take 1 (drop 4 bs)))),
      packetCounter = word_of_nat (le_decode (take 4 (drop 5 bs))),
      payloadSize = word_of_nat (le_decode (take 4 (drop 9 bs))),
      checksum = word_of_nat (le_decode (take 4 (drop 13 bs)))\<rparr>"

lemma length_encode_header [simp]: "length (encode_header h) = sizeof_PacketHeader"
  by (simp add: encode_header_def sizeof_PacketHeader_def)

lemma unat_mod_width: "unat (w :: 16 word) mod 256 ^ 2 = unat w"
  "unat (b :: 8 word) mod 256 = unat b" "unat (v :: 32 word) mod 256 ^ 4 = unat v"
proof -
  have "unat w < 2 ^ 16" and "unat b < 2 ^ 8" and "unat v < 2 ^ 32"
    by (rule order_less_le_trans [OF unsigned_less], simp)+
  then show "unat w mod 256 ^ 2 = unat w" "unat b mod 256 = unat b" "unat v mod 256 ^ 4 = unat v"
    by simp_all
qed

lemma decode_encode_header:
  assumes "canonical_type (messageType h)"
  shows "decode_header (encode_header h @ rest) = h"
  using assms
  by (simp add: decode_header_def encode_header_def le_decode_encode unat_mod_width
      canonical_type_def del: le_encode.simps power_numeral)

subsection \<open>Checksums\<close>

definition calculateChecksum :: "bytes \<Rightarrow> 32 word" where
  "calculateChecksum d = foldl (\<lambda>sum c. sum + word_of_nat (of_char c)) 0 d"

definition verifyPacket :: "PacketHeader \<Rightarrow> bytes \<Rightarrow> bool" where
  "verifyPacket h payload =
     (if startCode h \<noteq> PROTOCOL_START_CODE then False
      else checksum h = calculateChecksum (take (unat (payloadSize h)) payload))"

lemma checksum_foldl: "foldl (\<lambda>sum c. sum + word_of_nat (of_char c)) a d = a + calculateChecksum d"
  unfolding calculateChecksum_def by (induction d rule: rev_induct) (simp_all add: add.assoc)

lemma checksum_Nil [simp]: "calculateChecksum [] = 0"
  by (simp add: calculateChecksum_def)

lemma checksum_Cons: "calculateChecksum (c # d) = word_of_nat (of_char c) + calculateChecksum d"
  using checksum_foldl [of "word_of_nat (of_char c)" d] by (simp add: calculateChecksum_def)

lemma checksum_append: "calculateChecksum (a @ b) = calculateChecksum a + calculateChecksum b"
  by (induction a) (simp_all add: checksum_Cons add.assoc)

lemma checksum_sum:
  "calculateChecksum d = word_of_nat (sum_list (map (of_char :: char \<Rightarrow> nat) d))"
  by (induction d) (simp_all add: checksum_Cons)

lemma word_of_byte_inj:
  assumes "(word_of_nat (of_char c) :: 32 word) = word_of_nat (of_char e)"
  shows "c = e"
proof -
  have "unat (word_of_nat (of_char x) :: 32 word) = of_char x" for x :: char
  proof -
    have "(of_char x :: nat) < 256" by simp
    then have "(of_char x :: nat) < 4294967296" by linarith
    then show ?thesis by (simp add: unat_of_nat)
  qed
  with assms have "(of_char c :: nat) = of_char e" by metis
  then show ?thesis by simp
qed

text \<open>The checksum is a sum: permuting a payload keeps it, changing one byte does not.\<close>

lemma checksum_one_byte:
  assumes "i < length d" and "d ! i \<noteq> c"
  shows "calculateChecksum (d[i := c]) \<noteq> calculateChecksum d"
proof
  assume eq: "calculateChecksum (d[i := c]) = calculateChecksum d"
  have "d = take i d @ d ! i # drop (Suc i) d" using assms(1) by (rule id_take_nth_drop)
  moreover have "d[i := c] = take i d @ c # drop (Suc i) d"
    using assms(1) by (rule upd_conv_take_nth_drop)
  ultimately have "calculateChecksum (take i d @ c # drop (Suc i) d) =
      calculateChecksum (take i d @ d ! i # drop (Suc i) d)"
    using eq by metis
  then have "(word_of_nat (of_char c) :: 32 word) = word_of_nat (of_char (d ! i))"
    by (simp add: checksum_append checksum_Cons)
  then show False using assms(2) word_of_byte_inj by blast
qed

subsection \<open>The deterministic payload\<close>

definition resize_with :: "nat \<Rightarrow> char \<Rightarrow> string \<Rightarrow> string" where
  "resize_with n c s = take n s @ replicate (n - length s) c"

definition buildExpectedPayload :: "32 word \<Rightarrow> nat \<Rightarrow> string" where
  "buildExpectedPayload counter n =
     (let payload = ''Packet '' @ show_nat (unat counter)
      in if length payload < n then resize_with n (CHR ''.'') payload
         else resize_with n (CHR 0x00) payload)"

lemma length_resize_with [simp]: "length (resize_with n c s) = n"
  by (simp add: resize_with_def)

lemma length_buildExpectedPayload [simp]: "length (buildExpectedPayload k n) = n"
  by (simp add: buildExpectedPayload_def Let_def)

lemma not_digit_dot: "\<not> is_digit (CHR ''.'')"
  by (simp add: is_digit_def)

text \<open>When the payload holds the whole number, the counter can be read back from it.\<close>

lemma takeWhile_expected_payload:
  assumes "length (''Packet '' @ show_nat (unat k)) \<le> n"
  shows "takeWhile is_digit (drop 7 (buildExpectedPayload k n)) = show_nat (unat k)"
proof -
  have "buildExpectedPayload k n =
      ''Packet '' @ show_nat (unat k) @ replicate (n - length (''Packet '' @ show_nat (unat k))) (CHR ''.'')"
    using assms by (auto simp: buildExpectedPayload_def resize_with_def Let_def)
  moreover have "takeWhile is_digit (replicate m (CHR ''.'')) = []" for m
    by (cases m) (simp_all add: not_digit_dot)
  ultimately show ?thesis by (simp add: takeWhile_show_nat del: takeWhile_append takeWhile_append2)
qed

lemma buildExpectedPayload_inj:
  assumes "length (''Packet '' @ show_nat (unat k)) \<le> n"
    and "length (''Packet '' @ show_nat (unat l)) \<le> n"
    and "buildExpectedPayload k n = buildExpectedPayload l n"
  shows "k = l"
  by (metis assms takeWhile_expected_payload inj_show_nat unsigned_word_eqI)

end
