(* ===== verification/Config.thy ===== *)
theory Config
  imports Protocol
begin

section \<open>Test configuration\<close>

text \<open>
  \<open>MyIperf/include/myiperf/Config.h\<close>, \<open>MyIperf/src/myiperf/Config.cpp\<close> and
  \<open>ConfigParser.cpp\<close>: the settings of a run, the setters with their range checks as throwing
  operations, and the JSON form that the client sends in its handshake. \<open>config_valid\<close> is what
  the setters guarantee; every way to build a configuration keeps it.
\<close>

datatype TestMode = CLIENT | SERVER

record Config =
  packetSize :: int
  numPackets :: int
  sendIntervalMs :: int
  protocol :: string
  targetIP :: string
  port :: int
  mode :: TestMode
  saveLogs :: bool
  handshakeTimeoutMs :: int

definition default_Config :: Config where
  "default_Config = \<lparr>packetSize = 1024, numPackets = 0, sendIntervalMs = 0, protocol = ''TCP'',
     targetIP = ''127.0.0.1'', port = 5201, mode = CLIENT, saveLogs = False,
     handshakeTimeoutMs = 5000\<rparr>"

definition setPacketSize :: "int \<Rightarrow> Config \<Rightarrow> Config res" where
  "setPacketSize n c =
     (if n \<le> 0 then Inl (Invalid_argument ''Error: Packet size must be a positive integer.'')
      else Inr (c\<lparr>packetSize := n\<rparr>))"

definition setNumPackets :: "int \<Rightarrow> Config \<Rightarrow> Config res" where
  "setNumPackets n c =
     (if n < 0 then Inl (Invalid_argument ''Error: numPackets must be >= 0.'')
      else Inr (c\<lparr>numPackets := n\<rparr>))"

definition setSendIntervalMs :: "int \<Rightarrow> Config \<Rightarrow> Config res" where
  "setSendIntervalMs n c =
     (if n < 0 then Inl (Invalid_argument ''Error: sendIntervalMs must be >= 0.'')
      else Inr (c\<lparr>sendIntervalMs := n\<rparr>))"

definition setProtocol :: "string \<Rightarrow> Config \<Rightarrow> Config res" where
  "setProtocol p c =
     (if p \<noteq> ''TCP''
      then Inl (Invalid_argument (''Error: Unsupported protocol specified. Only '' @ quoted ''TCP'' @ '' is supported.''))
      else Inr (c\<lparr>protocol := p\<rparr>))"

definition setTargetIP :: "string \<Rightarrow> Config \<Rightarrow> Config res" where
  "setTargetIP ip c = Inr (c\<lparr>targetIP := ip\<rparr>)"

definition setPort :: "int \<Rightarrow> Config \<Rightarrow> Config res" where
  "setPort p c =
     (if p \<le> 0 \<or> p > 65535
      then Inl (Invalid_argument ''Error: Port number must be between 1 and 65535.'')
      else Inr (c\<lparr>port := p\<rparr>))"

definition setMode :: "TestMode \<Rightarrow> Config \<Rightarrow> Config res" where
  "setMode m c = Inr (c\<lparr>mode := m\<rparr>)"

definition setSaveLogs :: "bool \<Rightarrow> Config \<Rightarrow> Config res" where
  "setSaveLogs b c = Inr (c\<lparr>saveLogs := b\<rparr>)"

definition setHandshakeTimeoutMs :: "int \<Rightarrow> Config \<Rightarrow> Config res" where
  "setHandshakeTimeoutMs n c =
     (if n \<le> 0 then Inl (Invalid_argument ''Error: handshakeTimeoutMs must be > 0.'')
      else Inr (c\<lparr>handshakeTimeoutMs := n\<rparr>))"

lemmas setter_defs = setPacketSize_def setNumPackets_def setSendIntervalMs_def setProtocol_def
  setTargetIP_def setPort_def setMode_def setSaveLogs_def setHandshakeTimeoutMs_def

subsection \<open>JSON form\<close>

definition mode_string :: "TestMode \<Rightarrow> string" where
  "mode_string m = (if m = CLIENT then ''CLIENT'' else ''SERVER'')"

definition Config_toJson :: "Config \<Rightarrow> json" where
  "Config_toJson c = json_object
     [(''packetSize'', JInt (packetSize c)),
      (''numPackets'', JInt (numPackets c)),
      (''sendIntervalMs'', JInt (sendIntervalMs c)),
      (''protocol'', JString (protocol c)),
      (''targetIP'', JString (targetIP c)),
      (''port'', JInt (port c)),
      (''mode'', JString (mode_string (mode c))),
      (''saveLogs'', JBool (saveLogs c)),
      (''handshakeTimeoutMs'', JInt (handshakeTimeoutMs c))]"

definition set_mode_string :: "string \<Rightarrow> Config \<Rightarrow> Config res" where
  "set_mode_string s c =
     (if s = ''CLIENT'' then setMode CLIENT c
      else if s = ''SERVER'' then setMode SERVER c
      else Inl (Invalid_argument (''Error: Invalid mode in configuration file: '' @ s)))"

definition Config_fromJson :: "json \<Rightarrow> Config res" where
  "Config_fromJson j = run_all
     [opt_get ''packetSize'' get_int setPacketSize j,
      opt_get ''numPackets'' get_int setNumPackets j,
      opt_get ''sendIntervalMs'' get_int setSendIntervalMs j,
      opt_get ''protocol'' get_string setProtocol j,
      opt_get ''targetIP'' get_string setTargetIP j,
      opt_get ''port'' get_int setPort j,
      opt_get ''saveLogs'' get_bool setSaveLogs j,
      opt_get ''handshakeTimeoutMs'' get_int setHandshakeTimeoutMs j,
      opt_get ''mode'' get_string set_mode_string j]
     default_Config"

subsection \<open>What the setters guarantee\<close>

definition config_valid :: "Config \<Rightarrow> bool" where
  "config_valid c \<longleftrightarrow>
     0 < packetSize c \<and> packetSize c \<le> INT_MAX \<and>
     0 \<le> numPackets c \<and> numPackets c \<le> INT_MAX \<and>
     0 \<le> sendIntervalMs c \<and> sendIntervalMs c \<le> INT_MAX \<and>
     protocol c = ''TCP'' \<and> 0 < port c \<and> port c \<le> 65535 \<and>
     0 < handshakeTimeoutMs c \<and> handshakeTimeoutMs c \<le> INT_MAX"

lemma default_Config_valid [simp]: "config_valid default_Config"
  by (simp add: config_valid_def default_Config_def INT_MAX_def)

lemma set_mode_string_mode_string [codec_simps]:
  "set_mode_string (mode_string m) c = Inr (c\<lparr>mode := m\<rparr>)"
  by (cases m) (simp_all add: set_mode_string_def mode_string_def setMode_def)

lemma int_setters_valid:
  assumes "config_valid c" and "int_range n"
  shows "setPacketSize n c = Inr c' \<Longrightarrow> config_valid c'"
    and "setNumPackets n c = Inr c' \<Longrightarrow> config_valid c'"
    and "setSendIntervalMs n c = Inr c' \<Longrightarrow> config_valid c'"
    and "setPort n c = Inr c' \<Longrightarrow> config_valid c'"
    and "setHandshakeTimeoutMs n c = Inr c' \<Longrightarrow> config_valid c'"
  using assms by (auto simp: setter_defs config_valid_def int_range_def split: if_splits)

lemma other_setters_valid:
  assumes "config_valid c"
  shows "setProtocol s c = Inr c' \<Longrightarrow> config_valid c'"
    and "setTargetIP s c = Inr c' \<Longrightarrow> config_valid c'"
    and "setMode m c = Inr c' \<Longrightarrow> config_valid c'"
    and "setSaveLogs b c = Inr c' \<Longrightarrow> config_valid c'"
    and "set_mode_string s c = Inr c' \<Longrightarrow> config_valid c'"
  using assms by (auto simp: setter_defs set_mode_string_def config_valid_def split: if_splits)

lemma opt_get_valid:
  assumes "opt_get k get upd j c = Inr c'" and "config_valid c"
    and "\<And>x c1 c2. get (the (json_find k j)) = Inr x \<Longrightarrow> upd x c1 = Inr c2 \<Longrightarrow>
        config_valid c1 \<Longrightarrow> config_valid c2"
  shows "config_valid c'"
  using assms
  by (auto simp: opt_get_def at_get_def json_at_def res_bind_eq_Inr split: if_splits option.splits)

lemma Config_fromJson_valid_step:
  assumes "f \<in> set
     [opt_get ''packetSize'' get_int setPacketSize j,
      opt_get ''numPackets'' get_int setNumPackets j,
      opt_get ''sendIntervalMs'' get_int setSendIntervalMs j,
      opt_get ''protocol'' get_string setProtocol j,
      opt_get ''targetIP'' get_string setTargetIP j,
      opt_get ''port'' get_int setPort j,
      opt_get ''saveLogs'' get_bool setSaveLogs j,
      opt_get ''handshakeTimeoutMs'' get_int setHandshakeTimeoutMs j,
      opt_get ''mode'' get_string set_mode_string j]"
    and "config_valid a" and "f a = Inr b"
  shows "config_valid b"
  using assms
  by (auto elim!: opt_get_valid dest: get_int_range intro: int_setters_valid other_setters_valid
      simp del: get_signed.simps)

lemma fromJson_valid: "Config_fromJson j = Inr c \<Longrightarrow> config_valid c"
  unfolding Config_fromJson_def
  by (rule run_all_invariant) (auto intro: Config_fromJson_valid_step)

text \<open>C15: whatever JSON a configuration is read from, and whatever a peer sends in its handshake,
  \<open>Config::fromJson\<close> either throws or yields a configuration within the documented ranges.\<close>

theorem Config_fromJson_valid:
  assumes "Config_fromJson j = Inr c"
  shows "config_valid c"
  using assms by (rule fromJson_valid)

lemma Config_fromJson_valid_witness:
  "Config_fromJson (JObject [(''port'', JInt 80)]) = Inr (default_Config\<lparr>port := 80\<rparr>) \<and>
   config_valid (default_Config\<lparr>port := 80\<rparr>)"
proof -
  have "Config_fromJson (JObject [(''port'', JInt 80)]) = Inr (default_Config\<lparr>port := 80\<rparr>)"
    by (simp add: Config_fromJson_def codec_simps setPort_def cast_signed_def)
  with Config_fromJson_valid show ?thesis by blast
qed

lemma Config_fromJson_toJson:
  assumes "config_valid c"
  shows "Config_fromJson (Config_toJson c) = Inr c"
proof -
  have "int_range (packetSize c)" "int_range (numPackets c)" "int_range (sendIntervalMs c)"
    "int_range (port c)" "int_range (handshakeTimeoutMs c)"
    using assms by (auto simp: config_valid_def int_range_def INT_MIN_def INT_MAX_def)
  with assms show ?thesis
    by (simp add: Config_fromJson_def Config_toJson_def codec_simps config_valid_def setter_defs
        default_Config_def del: get_signed.simps)
qed

interpretation config_codec: json_codec Config_toJson Config_fromJson config_valid
  by unfold_locales (rule Config_fromJson_toJson)

text \<open>The configuration a client sends in its handshake is the one the server reads back,
  through the JSON printer and parser.\<close>

theorem config_handshake_roundtrip:
  assumes "config_valid c" and "parse (dump (Config_toJson c)) = Inr (Config_toJson c)"
  shows "decode_with parse Config_fromJson (dump (Config_toJson c)) = Inr c"
  using assms by (rule config_codec.wire_roundtrip)

lemma config_handshake_roundtrip_witness:
  "decode_with (\<lambda>s. Inr (Config_toJson default_Config)) Config_fromJson
     ((\<lambda>j. ''{}'') (Config_toJson default_Config)) = Inr default_Config"
  by (rule config_handshake_roundtrip) simp_all

subsection \<open>Loading a configuration file\<close>

text \<open>
  \<open>ConfigParser::load\<close>: \<open>contents\<close> is the text of the file, \<open>None\<close> when it cannot be opened.
  The configuration is replaced only when everything succeeds.
\<close>

record ConfigParser =
  filepath :: string
  configData :: Config

definition ConfigParser_load :: "json_parser \<Rightarrow> string option \<Rightarrow> ConfigParser \<Rightarrow> bool \<times> ConfigParser" where
  "ConfigParser_load parse contents p =
     (case contents of
        None \<Rightarrow> (False, p)
      | Some s \<Rightarrow>
          (case res_bind (parse s) Config_fromJson of
             Inr c \<Rightarrow> (True, p\<lparr>configData := c\<rparr>)
           | Inl e \<Rightarrow> (False, p)))"

lemma ConfigParser_load_True:
  "ConfigParser_load parse contents p = (True, p') \<Longrightarrow> config_valid (configData p')"
  by (auto simp: ConfigParser_load_def res_bind_eq_Inr split: option.splits sum.splits
      dest!: fromJson_valid)

lemma ConfigParser_load_False: "ConfigParser_load parse contents p = (False, p') \<Longrightarrow> p' = p"
  by (auto simp: ConfigParser_load_def split: option.splits sum.splits)

end
