(* ===== verification/StreamParser.thy ===== *)
theory StreamParser
  imports Protocol
begin

section \<open>Framing: from a TCP byte stream to packets\<close>

text \<open>
  \<open>MyIperf/src/myiperf/PacketStreamParser.cpp\<close>: the receive buffer, \<open>append\<close> and the loop of
  \<open>drainPackets\<close>, which takes complete packets off the front, drops one byte where no packet
  starts, and clears the buffer at a header with an oversized payload. The main facts: as long as
  no oversized header is met, how TCP cuts the stream into chunks does not matter
  (\<open>feed_chunks\<close>), and a stream of well-formed packets is parsed into exactly these packets
  (\<open>drain_stream\<close>). The loop terminates since every round shortens the buffer.
\<close>

record ParsedPacket =
  pkt_header :: PacketHeader
  pkt_payload :: bytes
  pkt_totalPacketSize :: nat

record PacketParseResult =
  res_packets :: "ParsedPacket list"
  res_checksumFailures :: nat

record PacketStreamParser =
  maxPayloadSize :: nat
  buffer :: bytes
  consecutiveFailures :: nat

definition MAX_CONSECUTIVE_FAILURES :: nat where
  "MAX_CONSECUTIVE_FAILURES = 100"

definition new_PacketStreamParser :: "nat \<Rightarrow> PacketStreamParser" where
  "new_PacketStreamParser m = \<lparr>maxPayloadSize = m, buffer = [], consecutiveFailures = 0\<rparr>"

definition parser_reset :: "PacketStreamParser \<Rightarrow> PacketStreamParser" where
  "parser_reset p = p\<lparr>buffer := [], consecutiveFailures := 0\<rparr>"

definition parser_append :: "bytes \<Rightarrow> nat \<Rightarrow> PacketStreamParser \<Rightarrow> PacketStreamParser" where
  "parser_append d n p = p\<lparr>buffer := buffer p @ take n d\<rparr>"

text \<open>After a byte is dropped: at the limit the thread yields and the count restarts.\<close>

definition count_failure :: "nat \<Rightarrow> nat" where
  "count_failure cf = (if Suc cf \<ge> MAX_CONSECUTIVE_FAILURES then 0 else Suc cf)"

text \<open>
  The loop, on the buffer and the failure count: the packets and the number of checksum failures
  it adds to the result, the bytes left in the buffer, the failure count.
\<close>

function drain_loop :: "nat \<Rightarrow> bytes \<Rightarrow> nat \<Rightarrow> ParsedPacket list \<times> nat \<times> bytes \<times> nat" where
  "drain_loop maxP buf cf =
     (if length buf < sizeof_PacketHeader then ([], 0, buf, cf)
      else let header = decode_header buf in
        if unat (payloadSize header) > maxP then ([], 0, [], cf)
        else let total = sizeof_PacketHeader + unat (payloadSize header) in
          if length buf < total then ([], 0, buf, cf)
          else if startCode header \<noteq> PROTOCOL_START_CODE
          then drain_loop maxP (tl buf) (count_failure cf)
          else if \<not> verifyPacket header (drop sizeof_PacketHeader buf)
          then (case drain_loop maxP (tl buf) (count_failure cf) of
                  (ps, f, b, c) \<Rightarrow> (ps, Suc f, b, c))
          else (case drain_loop maxP (drop total buf) 0 of
                  (ps, f, b, c) \<Rightarrow>
                    (\<lparr>pkt_header = header,
                      pkt_payload = take (unat (payloadSize header)) (drop sizeof_PacketHeader buf),
                      pkt_totalPacketSize = total\<rparr> # ps, f, b, c)))"
  by pat_completeness auto
termination
  by (relation "measure (\<lambda>(m, buf, cf). length buf)") (auto simp: sizeof_PacketHeader_def)

declare drain_loop.simps [simp del]

definition drainPackets :: "PacketStreamParser \<Rightarrow> PacketParseResult \<times> PacketStreamParser" where
  "drainPackets p =
     (case drain_loop (maxPayloadSize p) (buffer p) (consecutiveFailures p) of
        (ps, f, b, c) \<Rightarrow>
          (\<lparr>res_packets = ps, res_checksumFailures = f\<rparr>,
           p\<lparr>buffer := b, consecutiveFailures := c\<rparr>))"

subsection \<open>Oversized headers, and independence of chunk boundaries\<close>

text \<open>Whether the loop meets a header whose payload size exceeds the limit.\<close>

function drain_clears :: "nat \<Rightarrow> bytes \<Rightarrow> bool" where
  "drain_clears maxP buf =
     (if length buf < sizeof_PacketHeader then False
      else let header = decode_header buf;
               total = sizeof_PacketHeader + unat (payloadSize header) in
        if unat (payloadSize header) > maxP then True
        else if length buf < total then False
        else if verifyPacket header (drop sizeof_PacketHeader buf)
        then drain_clears maxP (drop total buf)
        else drain_clears maxP (tl buf))"
  by pat_completeness auto
termination
  by (relation "measure (\<lambda>(m, buf). length buf)") (auto simp: sizeof_PacketHeader_def Let_def)

declare drain_clears.simps [simp del]

definition join_drain ::
  "ParsedPacket list \<times> nat \<times> bytes \<times> nat \<Rightarrow> ParsedPacket list \<times> nat \<times> bytes \<times> nat \<Rightarrow>
   ParsedPacket list \<times> nat \<times> bytes \<times> nat" where
  "join_drain r1 r2 =
     (case r1 of (ps1, f1, _, _) \<Rightarrow> case r2 of (ps2, f2, b, c) \<Rightarrow> (ps1 @ ps2, f1 + f2, b, c))"

lemma decode_header_append:
  "sizeof_PacketHeader \<le> length a \<Longrightarrow> decode_header (a @ c) = decode_header a"
  by (simp add: decode_header_def sizeof_PacketHeader_def)

lemma verifyPacket_append:
  "unat (payloadSize h) \<le> length p \<Longrightarrow> verifyPacket h (p @ c) = verifyPacket h p"
  by (simp add: verifyPacket_def)

lemma verifyPacket_start: "startCode h \<noteq> PROTOCOL_START_CODE \<Longrightarrow> \<not> verifyPacket h p"
  by (simp add: verifyPacket_def)

lemma tl_append_header: "\<not> length a < sizeof_PacketHeader \<Longrightarrow> tl (a @ c) = tl a @ c"
  by (cases a) (auto simp: sizeof_PacketHeader_def)

lemma drain_loop_append:
  assumes "\<not> drain_clears maxP a"
  shows "drain_loop maxP (a @ c) cf =
     (case drain_loop maxP a cf of (ps, f, b, k) \<Rightarrow>
        join_drain (ps, f, b, k) (drain_loop maxP (b @ c) k))"
  using assms
proof (induction maxP a cf rule: drain_loop.induct)
  case (1 maxP a cf)
  define h where "h = decode_header a"
  define total where "total = sizeof_PacketHeader + unat (payloadSize h)"
  note defs = h_def total_def
  show ?case
  proof (cases "length a < sizeof_PacketHeader \<or> length a < total")
    case True
    have "\<not> (\<not> length a < sizeof_PacketHeader \<and> maxP < unat (payloadSize h))"
      using "1.prems" by (subst (asm) drain_clears.simps) (auto simp: defs Let_def)
    with True have "drain_loop maxP a cf = ([], 0, a, cf)"
      by (subst drain_loop.simps) (auto simp: defs Let_def)
    then show ?thesis by (simp add: join_drain_def split: prod.splits)
  next
    case False
    then have big: "\<not> length a < sizeof_PacketHeader" "\<not> length a < total" by auto
    have hc: "decode_header (a @ c) = h"
      using big by (simp add: decode_header_append defs)
    have vc: "verifyPacket h (drop sizeof_PacketHeader (a @ c)) =
        verifyPacket h (drop sizeof_PacketHeader a)"
      using big by (simp add: verifyPacket_append total_def)
    have ok: "\<not> maxP < unat (payloadSize h)"
      using "1.prems" big by (subst (asm) drain_clears.simps) (auto simp: defs Let_def)
    consider (start) "startCode h \<noteq> PROTOCOL_START_CODE"
      | (sum) "startCode h = PROTOCOL_START_CODE" "\<not> verifyPacket h (drop sizeof_PacketHeader a)"
      | (good) "startCode h = PROTOCOL_START_CODE" "verifyPacket h (drop sizeof_PacketHeader a)"
      by blast
    then show ?thesis
    proof cases
      case start
      have "\<not> drain_clears maxP (tl a)"
        using "1.prems" big ok start
        by (subst (asm) drain_clears.simps) (simp add: defs Let_def verifyPacket_start)
      with 1 big ok start have IH: "drain_loop maxP (tl a @ c) (count_failure cf) =
         (case drain_loop maxP (tl a) (count_failure cf) of (ps, f, b, k) \<Rightarrow>
            join_drain (ps, f, b, k) (drain_loop maxP (b @ c) k))"
        by (simp add: defs)
      show ?thesis
        using big ok start IH
        by (simp add: drain_loop.simps [of maxP "a @ c"] drain_loop.simps [of maxP a] hc
            tl_append_header flip: h_def total_def)
    next
      case sum
      have "\<not> drain_clears maxP (tl a)"
        using "1.prems" big ok sum
        by (subst (asm) drain_clears.simps) (simp add: defs Let_def)
      with 1 big ok sum have IH: "drain_loop maxP (tl a @ c) (count_failure cf) =
         (case drain_loop maxP (tl a) (count_failure cf) of (ps, f, b, k) \<Rightarrow>
            join_drain (ps, f, b, k) (drain_loop maxP (b @ c) k))"
        by (simp add: defs)
      show ?thesis
        using big ok sum IH vc
        by (simp add: drain_loop.simps [of maxP "a @ c"] drain_loop.simps [of maxP a] hc
            tl_append_header flip: h_def total_def)
          (auto simp: total_def join_drain_def split: prod.splits)
    next
      case good
      have "\<not> drain_clears maxP (drop total a)"
        using "1.prems" big ok good
        by (subst (asm) drain_clears.simps) (simp add: defs Let_def)
      with 1 big ok good have IH: "drain_loop maxP (drop total a @ c) 0 =
         (case drain_loop maxP (drop total a) 0 of (ps, f, b, k) \<Rightarrow>
            join_drain (ps, f, b, k) (drain_loop maxP (b @ c) k))"
        by (simp add: defs)
      show ?thesis
        using big ok good IH vc
        by (simp add: drain_loop.simps [of maxP "a @ c"] drain_loop.simps [of maxP a] hc
            flip: h_def total_def)
          (auto simp: total_def join_drain_def split: prod.splits)
    qed
  qed
qed

text \<open>What the session does with the chunks it receives: \<open>append\<close>, then \<open>drainPackets\<close>.\<close>

fun feed :: "bytes list \<Rightarrow> PacketStreamParser \<Rightarrow> ParsedPacket list \<times> nat \<times> PacketStreamParser" where
  "feed [] p = ([], 0, p)"
| "feed (c # cs) p =
     (case drainPackets (parser_append c (length c) p) of (r, p') \<Rightarrow>
       case feed cs p' of (ps, f, p'') \<Rightarrow>
         (res_packets r @ ps, res_checksumFailures r + f, p''))"

definition drain_all :: "bytes \<Rightarrow> PacketStreamParser \<Rightarrow> ParsedPacket list \<times> nat \<times> PacketStreamParser" where
  "drain_all d p = (case drainPackets (parser_append d (length d) p) of (r, p') \<Rightarrow>
      (res_packets r, res_checksumFailures r, p'))"

lemma drain_clears_prefix: "drain_clears maxP a \<Longrightarrow> drain_clears maxP (a @ c)"
proof (induction maxP a rule: drain_clears.induct)
  case (1 maxP a)
  define h where "h = decode_header a"
  define total where "total = sizeof_PacketHeader + unat (payloadSize h)"
  note defs = h_def total_def
  have big: "\<not> length a < sizeof_PacketHeader"
    using "1.prems" by (subst (asm) drain_clears.simps) (auto split: if_splits)
  then have hc: "decode_header (a @ c) = h" by (simp add: decode_header_append defs)
  show ?case
  proof (cases "unat (payloadSize h) > maxP")
    case True
    then show ?thesis using big by (subst drain_clears.simps) (simp add: Let_def hc)
  next
    case False
    then have total: "\<not> length a < total"
      using "1.prems" big by (subst (asm) drain_clears.simps) (auto simp: defs Let_def split: if_splits)
    have vc: "verifyPacket h (drop sizeof_PacketHeader (a @ c)) =
        verifyPacket h (drop sizeof_PacketHeader a)"
      using big total by (simp add: verifyPacket_append total_def)
    show ?thesis
    proof (cases "verifyPacket h (drop sizeof_PacketHeader a)")
      case True
      with "1.prems" big False total have "drain_clears maxP (drop total a)"
        by (subst (asm) drain_clears.simps) (simp add: defs Let_def)
      with 1 big False total True have "drain_clears maxP (drop total a @ c)"
        by (simp add: defs)
      then show ?thesis using big False total True vc
        by (subst drain_clears.simps) (simp add: Let_def hc flip: total_def)
    next
      case bad: False
      with "1.prems" big False total have "drain_clears maxP (tl a)"
        by (subst (asm) drain_clears.simps) (simp add: defs Let_def)
      with 1 big False total bad have "drain_clears maxP (tl a @ c)"
        by (simp add: defs)
      then show ?thesis using big False total bad vc
        by (subst drain_clears.simps) (simp add: Let_def hc tl_append_header flip: total_def)
    qed
  qed
qed

lemma drain_clears_after:
  assumes "\<not> drain_clears maxP a"
  shows "drain_clears maxP (a @ c) \<longleftrightarrow>
     (case drain_loop maxP a cf of (ps, f, b, k) \<Rightarrow> drain_clears maxP (b @ c))"
  using assms
proof (induction maxP a cf rule: drain_loop.induct)
  case (1 maxP a cf)
  define h where "h = decode_header a"
  define total where "total = sizeof_PacketHeader + unat (payloadSize h)"
  note defs = h_def total_def
  show ?case
  proof (cases "length a < sizeof_PacketHeader \<or> length a < total")
    case True
    have "\<not> (\<not> length a < sizeof_PacketHeader \<and> maxP < unat (payloadSize h))"
      using "1.prems" by (subst (asm) drain_clears.simps) (auto simp: defs Let_def)
    with True have "drain_loop maxP a cf = ([], 0, a, cf)"
      by (subst drain_loop.simps) (auto simp: defs Let_def)
    then show ?thesis by simp
  next
    case False
    then have big: "\<not> length a < sizeof_PacketHeader" "\<not> length a < total" by auto
    have hc: "decode_header (a @ c) = h"
      using big by (simp add: decode_header_append defs)
    have vc: "verifyPacket h (drop sizeof_PacketHeader (a @ c)) =
        verifyPacket h (drop sizeof_PacketHeader a)"
      using big by (simp add: verifyPacket_append total_def)
    have ok: "\<not> maxP < unat (payloadSize h)"
      using "1.prems" big by (subst (asm) drain_clears.simps) (auto simp: defs Let_def)
    consider (start) "startCode h \<noteq> PROTOCOL_START_CODE"
      | (sum) "startCode h = PROTOCOL_START_CODE" "\<not> verifyPacket h (drop sizeof_PacketHeader a)"
      | (good) "startCode h = PROTOCOL_START_CODE" "verifyPacket h (drop sizeof_PacketHeader a)"
      by blast
    then show ?thesis
    proof cases
      case start
      then have bad: "\<not> verifyPacket h x" for x by (simp add: verifyPacket_start)
      have "\<not> drain_clears maxP (tl a)"
        using "1.prems" big ok bad
        by (subst (asm) drain_clears.simps) (simp add: defs Let_def)
      with 1 big ok start have IH: "drain_clears maxP (tl a @ c) \<longleftrightarrow>
          (case drain_loop maxP (tl a) (count_failure cf) of (ps, f, b, k) \<Rightarrow> drain_clears maxP (b @ c))"
        by (simp add: defs)
      show ?thesis
        using big ok start IH bad
        by (simp add: drain_clears.simps [of maxP "a @ c"] drain_loop.simps [of maxP a] hc
            tl_append_header flip: h_def total_def)
    next
      case sum
      have "\<not> drain_clears maxP (tl a)"
        using "1.prems" big ok sum
        by (subst (asm) drain_clears.simps) (simp add: defs Let_def)
      with 1 big ok sum have IH: "drain_clears maxP (tl a @ c) \<longleftrightarrow>
          (case drain_loop maxP (tl a) (count_failure cf) of (ps, f, b, k) \<Rightarrow> drain_clears maxP (b @ c))"
        by (simp add: defs)
      show ?thesis
        using big ok sum IH vc
        by (simp add: drain_clears.simps [of maxP "a @ c"] drain_loop.simps [of maxP a] hc
            tl_append_header flip: h_def total_def) (auto simp: total_def split: prod.splits)
    next
      case good
      have "\<not> drain_clears maxP (drop total a)"
        using "1.prems" big ok good
        by (subst (asm) drain_clears.simps) (simp add: defs Let_def)
      with 1 big ok good have IH: "drain_clears maxP (drop total a @ c) \<longleftrightarrow>
          (case drain_loop maxP (drop total a) 0 of (ps, f, b, k) \<Rightarrow> drain_clears maxP (b @ c))"
        by (simp add: defs)
      show ?thesis
        using big ok good IH vc
        by (simp add: drain_clears.simps [of maxP "a @ c"] drain_loop.simps [of maxP a] hc
            flip: h_def total_def) (auto simp: total_def split: prod.splits)
    qed
  qed
qed

lemma drain_all_eq:
  "drain_all d p =
     (case drain_loop (maxPayloadSize p) (buffer p @ d) (consecutiveFailures p) of (ps, f, b, c) \<Rightarrow>
        (ps, f, p\<lparr>buffer := b, consecutiveFailures := c\<rparr>))"
  by (simp add: drain_all_def drainPackets_def parser_append_def split: prod.splits)

lemma feed_Cons:
  "feed (c # cs) p = (case drain_all c p of (ps, f, p') \<Rightarrow>
      case feed cs p' of (qs, g, p'') \<Rightarrow> (ps @ qs, f + g, p''))"
  by (simp add: drain_all_def split: prod.splits)

lemma feed_chunks_lemma:
  assumes "\<not> drain_clears (maxPayloadSize p) (buffer p @ concat (c # cs))"
  shows "feed (c # cs) p = drain_all (concat (c # cs)) p"
  using assms
proof (induction cs arbitrary: c p)
  case Nil
  then show ?case by (simp add: drain_all_def split: prod.splits)
next
  case (Cons d ds)
  let ?M = "maxPayloadSize p" and ?rest = "concat (d # ds)"
  obtain ps f b k where r: "drain_loop ?M (buffer p @ c) (consecutiveFailures p) = (ps, f, b, k)"
    by (metis prod_cases4)
  have nc: "\<not> drain_clears ?M (buffer p @ c)" and all: "\<not> drain_clears ?M ((buffer p @ c) @ ?rest)"
    using Cons.prems drain_clears_prefix [of ?M "buffer p @ c" ?rest] by auto
  from all drain_clears_after [OF nc, of ?rest "consecutiveFailures p"] r
  have "\<not> drain_clears ?M (b @ ?rest)" by simp
  then have "feed (d # ds) (p\<lparr>buffer := b, consecutiveFailures := k\<rparr>) =
      drain_all ?rest (p\<lparr>buffer := b, consecutiveFailures := k\<rparr>)"
    by (intro Cons.IH) simp
  moreover have "feed (c # d # ds) p =
      (case feed (d # ds) (p\<lparr>buffer := b, consecutiveFailures := k\<rparr>) of (qs, g, p'') \<Rightarrow>
        (ps @ qs, f + g, p''))"
    using r by (subst feed_Cons) (simp add: drain_all_eq)
  ultimately show ?case
    using drain_loop_append [OF nc, of ?rest "consecutiveFailures p"] r
    by (simp add: drain_all_eq join_drain_def split: prod.splits)
qed

text \<open>
  how TCP cuts the stream into chunks makes no difference: reading the chunks one by one gives
  the packets, the checksum failures and the parser state that reading the whole stream at once
  gives, provided the stream holds no header with an oversized payload.
\<close>

theorem feed_chunks:
  assumes "\<not> drain_clears (maxPayloadSize p) (buffer p @ concat (c # cs))"
  shows "feed (c # cs) p = drain_all (concat (c # cs)) p"
  using assms by (rule feed_chunks_lemma)

subsection \<open>Streams of well-formed packets\<close>

text \<open>A packet as \<open>createPacket\<close> and \<open>sendControlPacket\<close> build it: header and payload.\<close>

definition packet_wf :: "nat \<Rightarrow> PacketHeader \<Rightarrow> bytes \<Rightarrow> bool" where
  "packet_wf maxP h payload \<longleftrightarrow>
     startCode h = PROTOCOL_START_CODE \<and> canonical_type (messageType h) \<and>
     unat (payloadSize h) = length payload \<and> length payload \<le> maxP \<and>
     checksum h = calculateChecksum payload"

definition stream_of :: "(PacketHeader \<times> bytes) list \<Rightarrow> bytes" where
  "stream_of ps = concat (map (\<lambda>(h, d). encode_header h @ d) ps)"

definition parsed :: "PacketHeader \<times> bytes \<Rightarrow> ParsedPacket" where
  "parsed pk = (case pk of (h, d) \<Rightarrow>
     \<lparr>pkt_header = h, pkt_payload = d, pkt_totalPacketSize = sizeof_PacketHeader + length d\<rparr>)"

lemma stream_of_simps [simp]:
  "stream_of [] = []" "stream_of ((h, d) # ps) = encode_header h @ d @ stream_of ps"
  "stream_of (ps @ qs) = stream_of ps @ stream_of qs"
  by (simp_all add: stream_of_def)

lemma drain_loop_packet:
  assumes "packet_wf maxP h d"
  shows "drain_loop maxP (encode_header h @ d @ rest) cf =
    (case drain_loop maxP rest 0 of (ps, f, b, c) \<Rightarrow> (parsed (h, d) # ps, f, b, c))"
  using assms
  by (subst drain_loop.simps)
    (simp add: packet_wf_def decode_encode_header verifyPacket_def parsed_def Let_def)

lemma drain_clears_packet:
  assumes "packet_wf maxP h d"
  shows "drain_clears maxP (encode_header h @ d @ rest) = drain_clears maxP rest"
  using assms
  by (subst drain_clears.simps)
    (simp add: packet_wf_def decode_encode_header verifyPacket_def Let_def)

lemma drain_loop_stream:
  assumes "\<forall>(h, d) \<in> set ps. packet_wf maxP h d"
  shows "drain_loop maxP (stream_of ps @ rest) cf =
    (case drain_loop maxP rest (if ps = [] then cf else 0) of (qs, f, b, c) \<Rightarrow>
       (map parsed ps @ qs, f, b, c))"
  using assms
proof (induction ps arbitrary: cf)
  case Nil
  then show ?case by (simp split: prod.splits)
next
  case (Cons pk ps)
  then show ?case by (cases pk) (simp add: drain_loop_packet split: prod.splits)
qed

lemma drain_clears_stream:
  assumes "\<forall>(h, d) \<in> set ps. packet_wf maxP h d"
  shows "drain_clears maxP (stream_of ps @ rest) = drain_clears maxP rest"
  using assms by (induction ps) (auto simp: drain_clears_packet)

lemma drain_loop_short: "length b < sizeof_PacketHeader \<Longrightarrow> drain_loop maxP b cf = ([], 0, b, cf)"
  by (subst drain_loop.simps) simp

lemma drain_clears_short: "length b < sizeof_PacketHeader \<Longrightarrow> \<not> drain_clears maxP b"
  by (subst drain_clears.simps) simp

lemma drain_loop_Nil [simp]: "drain_loop maxP [] cf = ([], 0, [], cf)"
  by (simp add: drain_loop_short sizeof_PacketHeader_def)

lemma drain_clears_Nil [simp]: "\<not> drain_clears maxP []"
  by (simp add: drain_clears_short sizeof_PacketHeader_def)

lemma parser_recovers_stream_lemma:
  assumes "\<forall>(h, d) \<in> set ps. packet_wf maxP h d" and "concat chunks = stream_of ps"
  shows "\<exists>p'. feed chunks (new_PacketStreamParser maxP) = (map parsed ps, 0, p') \<and>
    buffer p' = [] \<and> maxPayloadSize p' = maxP"
proof (cases chunks)
  case Nil
  with assms(2) have "ps = []"
    by (cases ps) (auto simp: encode_header_def)
  with Nil show ?thesis by (simp add: new_PacketStreamParser_def)
next
  case (Cons c cs)
  have "\<not> drain_clears maxP (stream_of ps)"
    using drain_clears_stream [OF assms(1), of "[]"] by simp
  with Cons assms(2) have "feed chunks (new_PacketStreamParser maxP) =
      drain_all (stream_of ps) (new_PacketStreamParser maxP)"
    using feed_chunks_lemma [of "new_PacketStreamParser maxP" c cs]
    by (simp add: new_PacketStreamParser_def)
  then show ?thesis
    using drain_loop_stream [OF assms(1), of "[]"]
    by (simp add: drain_all_eq new_PacketStreamParser_def)
qed

text \<open>
  C8: a stream of well-formed packets, cut into chunks in any way, is parsed by a fresh parser into
  exactly these packets in their order, with no checksum failure, and the buffer ends up empty.
\<close>

theorem parser_recovers_stream:
  assumes "\<forall>(h, d) \<in> set ps. packet_wf maxP h d" and "concat chunks = stream_of ps"
  shows "\<exists>p'. feed chunks (new_PacketStreamParser maxP) = (map parsed ps, 0, p') \<and>
    buffer p' = [] \<and> maxPayloadSize p' = maxP"
  using assms by (rule parser_recovers_stream_lemma)

text \<open>A concrete packet, for the examples.\<close>

definition data_packet :: "bytes \<Rightarrow> PacketHeader \<times> bytes" where
  "data_packet d =
     (\<lparr>startCode = PROTOCOL_START_CODE, senderId = 1, receiverId = 2, messageType = DATA_PACKET,
       packetCounter = 0, payloadSize = word_of_nat (length d), checksum = calculateChecksum d\<rparr>, d)"

lemma data_packet_wf:
  "length d < 2 ^ 32 \<Longrightarrow> length d \<le> maxP \<Longrightarrow> case data_packet d of (h, p) \<Rightarrow> packet_wf maxP h p"
  by (auto simp: data_packet_def packet_wf_def unat_of_nat)

theorem feed_chunks_witness:
  "feed [take 5 (stream_of [data_packet ''hi'']), drop 5 (stream_of [data_packet ''hi''])]
     (new_PacketStreamParser 131072) =
   drain_all (stream_of [data_packet ''hi'']) (new_PacketStreamParser 131072)"
proof -
  have "\<forall>(h, d) \<in> set [data_packet ''hi'']. packet_wf 131072 h d"
    using data_packet_wf [of "''hi''" 131072] by simp
  from drain_clears_stream [OF this, of "[]"]
  have "\<not> drain_clears 131072 (stream_of [data_packet ''hi''])" by simp
  then show ?thesis
    using feed_chunks [of "new_PacketStreamParser 131072" "take 5 (stream_of [data_packet ''hi''])"
        "[drop 5 (stream_of [data_packet ''hi''])]"]
    by (simp add: new_PacketStreamParser_def)
qed

theorem parser_recovers_stream_witness:
  "\<exists>p'. feed [take 5 (stream_of [data_packet ''hi'']), drop 5 (stream_of [data_packet ''hi''])]
      (new_PacketStreamParser 131072) = ([parsed (data_packet ''hi'')], 0, p') \<and>
    buffer p' = [] \<and> maxPayloadSize p' = 131072"
proof -
  have "\<forall>(h, d) \<in> set [data_packet ''hi'']. packet_wf 131072 h d"
    using data_packet_wf [of "''hi''" 131072] by simp
  from parser_recovers_stream [OF this, of "[take 5 (stream_of [data_packet ''hi'']),
      drop 5 (stream_of [data_packet ''hi''])]"]
  show ?thesis by simp
qed

subsection \<open>Resynchronisation\<close>

lemma decode_payloadSize:
  "payloadSize (decode_header bs) = word_of_nat (le_decode (take 4 (drop 9 bs)))"
  by (simp add: decode_header_def)

text \<open>
  A stray byte in front of a packet shifts the payload size by one byte: the loop then reads the
  low bytes of the payload size times 256 plus the top byte of the counter.
\<close>

lemma le_encode_4: "le_encode 4 v = le_encode 3 v @ [char_of (v div 2 ^ 24)]"
proof -
  have "le_encode (Suc (Suc (Suc (Suc 0)))) v =
      le_encode (Suc (Suc (Suc 0))) v @ [char_of (v div 2 ^ 24)]"
    by (simp flip: div_mult2_eq)
  moreover have "4 = Suc (Suc (Suc (Suc (0 :: nat))))" "3 = Suc (Suc (Suc (0 :: nat)))" by simp_all
  ultimately show ?thesis by metis
qed

lemma misaligned_size:
  assumes "unat (payloadSize h) < 2 ^ 24"
  shows "unat (payloadSize (decode_header (x # encode_header h @ d))) =
    unat (packetCounter h) div 2 ^ 24 + 256 * unat (payloadSize h)"
proof -
  let ?c = "unat (packetCounter h)" and ?n = "unat (payloadSize h)"
  have "?c < 2 ^ 32" by (rule order_less_le_trans [OF unsigned_less]) simp
  then have c: "?c div 2 ^ 24 < 256" by (simp add: div_less_iff_less_mult)
  have "take 4 (drop 9 (x # encode_header h @ d)) = char_of (?c div 2 ^ 24) # le_encode 3 ?n"
    by (simp add: encode_header_def le_encode_4 del: le_encode.simps)
  then have "le_decode (take 4 (drop 9 (x # encode_header h @ d))) =
      ?c div 2 ^ 24 + 256 * ?n"
    using c assms by (simp add: le_decode_encode del: le_encode.simps)
  moreover have "?c div 2 ^ 24 + 256 * ?n < 2 ^ LENGTH(32)" using c assms by simp
  ultimately show ?thesis
    by (simp only: decode_payloadSize unat_of_nat mod_less)
qed

text \<open>
  one stray byte in front of a well-formed packet whose payload is longer than 1/256 of the
  limit loses the whole buffer, this packet and all that follow it included: the size check comes
  before the start-code check, so the buffer is cleared rather than moved on by one byte.
\<close>

theorem stray_byte_clears_buffer:
  assumes "packet_wf maxP h d" and "length d < 2 ^ 24" and "maxP < 256 * length d"
  shows "drain_loop maxP (x # encode_header h @ d @ rest) cf = ([], 0, [], cf)"
proof -
  have "unat (payloadSize (decode_header (x # encode_header h @ d @ rest))) > maxP"
    using misaligned_size [of h x "d @ rest"] assms by (simp add: packet_wf_def)
  moreover have "\<not> length (x # encode_header h @ d @ rest) < sizeof_PacketHeader" by simp
  ultimately show ?thesis by (subst drain_loop.simps) (simp add: Let_def)
qed

theorem stray_byte_clears_buffer_witness:
  "drain_loop 131072 (CHR ''x'' # encode_header (fst (data_packet (replicate 1000 (CHR ''.'')))) @
     replicate 1000 (CHR ''.'') @ []) 0 = ([], 0, [], 0)"
proof -
  let ?d = "replicate 1000 (CHR ''.'')"
  have "packet_wf 131072 (fst (data_packet ?d)) ?d"
    using data_packet_wf [of ?d 131072] by (simp add: data_packet_def)
  then show ?thesis by (rule stray_byte_clears_buffer) simp_all
qed

end
