(* ===== verification/ReceiveStats.thy ===== *)
theory ReceiveStats
  imports StreamParser
begin

section \<open>Statistics of the receiving side\<close>

text \<open>
  \<open>MyIperf/src/myiperf/PacketReceiveStats.cpp\<close>: the counters behind the mutex, one operation per
  method. The reading of the clock is an argument. The main facts: what the counters are after any
  list of packets (\<open>on_packets_*\<close>), that no sequence error means the counters 0, 1, 2, ... were
  received (\<open>no_sequence_errors_iff\<close>), and that a gap counts once (\<open>gap_counts_once\<close>).
\<close>

record ReceiveStats =
  rs_startTime :: time_point
  rs_endTime :: time_point
  rs_totalBytesReceived :: int
  rs_totalPacketsReceived :: int
  rs_failedChecksumCount :: int
  rs_sequenceErrorCount :: int
  rs_contentMismatchCount :: int
  rs_expectedPacketCounter :: "32 word"

definition rs_reset :: "time_point \<Rightarrow> ReceiveStats" where
  "rs_reset now = \<lparr>rs_startTime = now, rs_endTime = now, rs_totalBytesReceived = 0,
     rs_totalPacketsReceived = 0, rs_failedChecksumCount = 0, rs_sequenceErrorCount = 0,
     rs_contentMismatchCount = 0, rs_expectedPacketCounter = 0\<rparr>"

definition content_mismatch :: "ParsedPacket \<Rightarrow> bool" where
  "content_mismatch packet =
     (let expected = buildExpectedPayload (packetCounter (pkt_header packet))
                       (unat (payloadSize (pkt_header packet)))
      in length expected = length (pkt_payload packet) \<and> pkt_payload packet \<noteq> expected)"

definition onDataPacket :: "time_point \<Rightarrow> ParsedPacket \<Rightarrow> ReceiveStats \<Rightarrow> ReceiveStats" where
  "onDataPacket now packet s =
     (let counter = packetCounter (pkt_header packet);
          s = (if content_mismatch packet
               then s\<lparr>rs_contentMismatchCount := rs_contentMismatchCount s + 1\<rparr> else s);
          s = s\<lparr>rs_endTime := now,
                rs_totalBytesReceived := rs_totalBytesReceived s + int (pkt_totalPacketSize packet),
                rs_totalPacketsReceived := rs_totalPacketsReceived s + 1\<rparr>;
          s = (if counter \<noteq> rs_expectedPacketCounter s
               then s\<lparr>rs_sequenceErrorCount := rs_sequenceErrorCount s + 1,
                      rs_expectedPacketCounter := counter\<rparr> else s)
      in s\<lparr>rs_expectedPacketCounter := rs_expectedPacketCounter s + 1\<rparr>)"

definition onChecksumFailure :: "ReceiveStats \<Rightarrow> ReceiveStats" where
  "onChecksumFailure s = s\<lparr>rs_failedChecksumCount := rs_failedChecksumCount s + 1\<rparr>"

definition seconds_between :: "time_point \<Rightarrow> time_point \<Rightarrow> double" where
  "seconds_between a b = of_int (b - a) / 1000000000"

definition throughput_of :: "int \<Rightarrow> double \<Rightarrow> double" where
  "throughput_of n dur = of_int n * 8 / dur / 1000000"

definition rs_snapshot :: "ReceiveStats \<Rightarrow> TestStats" where
  "rs_snapshot s =
     (let stats = zeroStats\<lparr>totalPacketsReceived := rs_totalPacketsReceived s,
            failedChecksumCount := rs_failedChecksumCount s,
            sequenceErrorCount := rs_sequenceErrorCount s,
            contentMismatchCount := rs_contentMismatchCount s,
            totalBytesReceived := rs_totalBytesReceived s\<rparr>
      in if rs_endTime s > rs_startTime s
         then let stats = stats\<lparr>duration := seconds_between (rs_startTime s) (rs_endTime s)\<rparr>
              in if duration stats > 0
                 then stats\<lparr>throughputMbps :=
                        throughput_of (totalBytesReceived stats) (duration stats)\<rparr>
                 else stats
         else stats)"

subsection \<open>Counters after a list of packets\<close>

definition on_packets :: "(time_point \<times> ParsedPacket) list \<Rightarrow> ReceiveStats \<Rightarrow> ReceiveStats" where
  "on_packets ps s = foldl (\<lambda>s (now, p). onDataPacket now p s) s ps"

lemma on_packets_simps [simp]:
  "on_packets [] s = s"
  "on_packets ((t, p) # ps) s = on_packets ps (onDataPacket t p s)"
  by (simp_all add: on_packets_def)

lemma on_packets_append: "on_packets (ps @ qs) s = on_packets qs (on_packets ps s)"
  by (simp add: on_packets_def)

lemma onDataPacket_fields [simp]:
  "rs_startTime (onDataPacket t p s) = rs_startTime s"
  "rs_endTime (onDataPacket t p s) = t"
  "rs_failedChecksumCount (onDataPacket t p s) = rs_failedChecksumCount s"
  "rs_totalPacketsReceived (onDataPacket t p s) = rs_totalPacketsReceived s + 1"
  "rs_totalBytesReceived (onDataPacket t p s) =
     rs_totalBytesReceived s + int (pkt_totalPacketSize p)"
  "rs_contentMismatchCount (onDataPacket t p s) =
     rs_contentMismatchCount s + (if content_mismatch p then 1 else 0)"
  "rs_expectedPacketCounter (onDataPacket t p s) = packetCounter (pkt_header p) + 1"
  "rs_sequenceErrorCount (onDataPacket t p s) = rs_sequenceErrorCount s +
     (if packetCounter (pkt_header p) \<noteq> rs_expectedPacketCounter s then 1 else 0)"
  by (simp_all add: onDataPacket_def Let_def)

definition counters :: "(time_point \<times> ParsedPacket) list \<Rightarrow> (32 word) list" where
  "counters ps = map (\<lambda>(t, p). packetCounter (pkt_header p)) ps"

lemma counters_simps [simp]:
  "counters [] = []" "counters ((t, p) # ps) = packetCounter (pkt_header p) # counters ps"
  "counters (ps @ qs) = counters ps @ counters qs"
  by (simp_all add: counters_def)

text \<open>The number of places where a list of counters does not continue from \<open>e\<close>.\<close>

fun seq_breaks :: "32 word \<Rightarrow> (32 word) list \<Rightarrow> nat" where
  "seq_breaks e [] = 0"
| "seq_breaks e (k # ks) = (if k \<noteq> e then 1 else 0) + seq_breaks (k + 1) ks"

lemma on_packets_packets:
  "rs_totalPacketsReceived (on_packets ps s) = rs_totalPacketsReceived s + int (length ps)"
  by (induction ps arbitrary: s) auto

lemma on_packets_bytes:
  "rs_totalBytesReceived (on_packets ps s) =
     rs_totalBytesReceived s + int (sum_list (map (\<lambda>(t, p). pkt_totalPacketSize p) ps))"
  by (induction ps arbitrary: s) auto

lemma on_packets_mismatches:
  "rs_contentMismatchCount (on_packets ps s) =
     rs_contentMismatchCount s + int (length (filter (\<lambda>(t, p). content_mismatch p) ps))"
  by (induction ps arbitrary: s) auto

lemma on_packets_sequence:
  "rs_sequenceErrorCount (on_packets ps s) =
     rs_sequenceErrorCount s + int (seq_breaks (rs_expectedPacketCounter s) (counters ps))"
  by (induction ps arbitrary: s) auto

lemma on_packets_failures [simp]:
  "rs_failedChecksumCount (on_packets ps s) = rs_failedChecksumCount s"
  "rs_startTime (on_packets ps s) = rs_startTime s"
  by (induction ps arbitrary: s) auto

lemma rs_reset_fields [simp]:
  "rs_startTime (rs_reset t) = t" "rs_endTime (rs_reset t) = t"
  "rs_totalBytesReceived (rs_reset t) = 0" "rs_totalPacketsReceived (rs_reset t) = 0"
  "rs_failedChecksumCount (rs_reset t) = 0" "rs_sequenceErrorCount (rs_reset t) = 0"
  "rs_contentMismatchCount (rs_reset t) = 0" "rs_expectedPacketCounter (rs_reset t) = 0"
  by (simp_all add: rs_reset_def)

lemma rs_snapshot_fields [simp]:
  "totalPacketsReceived (rs_snapshot s) = rs_totalPacketsReceived s"
  "totalBytesReceived (rs_snapshot s) = rs_totalBytesReceived s"
  "failedChecksumCount (rs_snapshot s) = rs_failedChecksumCount s"
  "sequenceErrorCount (rs_snapshot s) = rs_sequenceErrorCount s"
  "contentMismatchCount (rs_snapshot s) = rs_contentMismatchCount s"
  "totalBytesSent (rs_snapshot s) = 0" "totalPacketsSent (rs_snapshot s) = 0"
  by (simp_all add: rs_snapshot_def zeroStats_def Let_def)

subsection \<open>Sequence errors\<close>

lemma seq_breaks_0_iff:
  "seq_breaks e ks = 0 \<longleftrightarrow> ks = map (\<lambda>i. e + word_of_nat i) [0..<length ks]"
proof (induction ks arbitrary: e)
  case Nil
  then show ?case by simp
next
  case (Cons k ks)
  have "map (\<lambda>i. e + word_of_nat i) [0..<length (k # ks)] =
      e # map (\<lambda>i. (e + 1) + word_of_nat i) [0..<length ks]"
    by (simp add: upt_conv_Cons add_ac flip: map_Suc_upt del: upt_Suc)
  then show ?case using Cons by auto
qed

lemma seq_breaks_append:
  "seq_breaks e (ks @ ls) = seq_breaks e ks + seq_breaks (if ks = [] then e else last ks + 1) ls"
  by (induction ks arbitrary: e) auto

lemma seq_breaks_run [simp]:
  "seq_breaks e (map (\<lambda>i. e + word_of_nat i) [0..<n]) = 0"
  by (simp add: seq_breaks_0_iff)

text \<open>
  From a reset, the sequence error count stays 0 exactly when the packet counters received are
  0, 1, 2, ... in this order.
\<close>

theorem no_sequence_errors_iff:
  "sequenceErrorCount (rs_snapshot (on_packets ps (rs_reset t))) = 0 \<longleftrightarrow>
     counters ps = map word_of_nat [0..<length ps]"
  by (simp add: on_packets_sequence seq_breaks_0_iff) (simp add: counters_def)

text \<open>
  When a run of packets is missing from an otherwise perfect stream (the counters 0..a-1, then
  b, b+1, ...), one sequence error is counted, however many packets are missing.
\<close>

theorem gap_counts_once:
  assumes "counters ps = map word_of_nat ([0..<a] @ [b..<c])" and "a < b" "b < c" "b < 2 ^ 32"
  shows "sequenceErrorCount (rs_snapshot (on_packets ps (rs_reset t))) = 1"
proof -
  have "[b..<c] = b # [Suc b..<c]" using assms(3) by (simp add: upt_conv_Cons)
  moreover have "map word_of_nat [Suc b..<c] =
      map (\<lambda>i. (word_of_nat b + 1 :: 32 word) + word_of_nat i) [0..<c - Suc b]"
    by (rule nth_equalityI) (simp_all add: add_ac)
  moreover have "(if a = 0 then 0 else word_of_nat (a - 1) + 1) = (word_of_nat a :: 32 word)"
    by (cases a) (simp_all add: add_ac)
  moreover have "(word_of_nat b :: 32 word) \<noteq> word_of_nat a"
    using assms(2,4) by (simp add: word_unat_eq_iff unat_of_nat)
  ultimately show ?thesis
    using seq_breaks_run [of 0 a] assms(1)
    by (cases "a = 0") (simp_all add: on_packets_sequence seq_breaks_append last_map)
qed

text \<open>A data packet without a payload, by its counter.\<close>

definition counter_packet :: "nat \<Rightarrow> time_point \<times> ParsedPacket" where
  "counter_packet k =
     (0, \<lparr>pkt_header = \<lparr>startCode = PROTOCOL_START_CODE, senderId = 1, receiverId = 2,
            messageType = DATA_PACKET, packetCounter = word_of_nat k, payloadSize = 0, checksum = 0\<rparr>,
          pkt_payload = [], pkt_totalPacketSize = 17\<rparr>)"

theorem gap_counts_once_witness:
  "sequenceErrorCount (rs_snapshot (on_packets
     (map counter_packet [0, 1, 5, 6]) (rs_reset 0))) = 1"
  by (rule gap_counts_once [of _ 2 5 7])
     (simp_all add: counters_def counter_packet_def upt_rec)

end
