(* ===== verification/Generator.thy ===== *)
theory Generator
  imports Config ReceiveStats
begin

section \<open>The packet generator\<close>

text \<open>
  \<open>MyIperf/src/myiperf/PacketGenerator.cpp\<close>. The coroutine \<open>sendPackets\<close> is cut at its two
  suspension points, the \<open>co_await\<close> of a send and the one of the delay: \<open>gen_start\<close>,
  \<open>gen_after_send\<close> and \<open>gen_after_delay\<close> run it to the next one and say what it waits for. The
  main facts: each packet is well-formed with the content the receiver expects (\<open>createPacket_wf\<close>),
  and a run whose sends succeed sends exactly \<open>numPackets\<close> packets (\<open>generator_run\<close>).
\<close>

record Generator =
  gen_running :: bool
  gen_totalBytesSent :: int
  gen_totalPacketsSent :: int
  gen_config :: Config
  gen_packetCounter :: "32 word"
  gen_startTime :: time_point
  gen_endTime :: time_point
  gen_lastStats :: TestStats

definition new_Generator :: Generator where
  "new_Generator = \<lparr>gen_running = False, gen_totalBytesSent = 0, gen_totalPacketsSent = 0,
     gen_config = default_Config, gen_packetCounter = 0, gen_startTime = 0, gen_endTime = 0,
     gen_lastStats = zeroStats\<rparr>"

definition gen_stop :: "time_point \<Rightarrow> Generator \<Rightarrow> Generator" where
  "gen_stop now g = g\<lparr>gen_running := False, gen_endTime := now\<rparr>"

definition mode_byte :: "TestMode \<Rightarrow> 8 word" where
  "mode_byte m = (if m = CLIENT then 0 else 1)"

definition data_header :: "Config \<Rightarrow> 32 word \<Rightarrow> nat \<Rightarrow> bytes \<Rightarrow> PacketHeader" where
  "data_header cfg counter n payload =
     \<lparr>startCode = PROTOCOL_START_CODE,
      senderId = mode_byte (mode cfg),
      receiverId = mode_byte (if mode cfg = CLIENT then SERVER else CLIENT),
      messageType = DATA_PACKET,
      packetCounter = counter,
      payloadSize = word_of_nat n,
      checksum = calculateChecksum payload\<rparr>"

definition createPacket :: "Generator \<Rightarrow> bytes \<times> Generator" where
  "createPacket g =
     (let psize = nat (packetSize (gen_config g)) in
      if psize < sizeof_PacketHeader then ([], g)
      else let n = psize - sizeof_PacketHeader;
               payload = buildExpectedPayload (gen_packetCounter g) n;
               header = data_header (gen_config g) (gen_packetCounter g) n payload
           in (encode_header header @ payload,
               g\<lparr>gen_packetCounter := gen_packetCounter g + 1\<rparr>))"

definition shouldContinueSending :: "Generator \<Rightarrow> bool" where
  "shouldContinueSending g =
     (if numPackets (gen_config g) = 0 then True
      else sint (gen_packetCounter g) < numPackets (gen_config g))"

definition gen_getStats :: "Generator \<Rightarrow> TestStats" where
  "gen_getStats g =
     (let stats = zeroStats\<lparr>totalBytesSent := gen_totalBytesSent g,
            totalPacketsSent := gen_totalPacketsSent g\<rparr>
      in if gen_endTime g > gen_startTime g
         then let stats = stats\<lparr>duration := seconds_between (gen_startTime g) (gen_endTime g)\<rparr>
              in if duration stats > 0
                 then stats\<lparr>throughputMbps := throughput_of (totalBytesSent stats) (duration stats)\<rparr>
                 else stats
         else stats)"

definition saveLastStats :: "TestStats \<Rightarrow> Generator \<Rightarrow> Generator" where
  "saveLastStats s g = g\<lparr>gen_lastStats := s\<rparr>"

definition gen_resetStats :: "time_point \<Rightarrow> Generator \<Rightarrow> Generator" where
  "gen_resetStats now g = g\<lparr>gen_totalBytesSent := 0, gen_totalPacketsSent := 0,
     gen_packetCounter := 0, gen_startTime := now, gen_endTime := 0\<rparr>"

subsection \<open>The coroutine\<close>

datatype gen_wait = AwaitSend bytes | AwaitDelay int | GenFinished

definition gen_finish :: "time_point \<Rightarrow> Generator \<Rightarrow> gen_wait \<times> Generator" where
  "gen_finish now g =
     (GenFinished, if gen_running g then g\<lparr>gen_running := False, gen_endTime := now\<rparr> else g)"

definition gen_loop :: "time_point \<Rightarrow> Generator \<Rightarrow> gen_wait \<times> Generator" where
  "gen_loop now g =
     (if gen_running g \<and> shouldContinueSending g
      then case createPacket g of (packet, g') \<Rightarrow>
             if packet = [] then gen_finish now g' else (AwaitSend packet, g')
      else gen_finish now g)"

definition gen_start :: "Config \<Rightarrow> time_point \<Rightarrow> Generator \<Rightarrow> gen_wait \<times> Generator" where
  "gen_start cfg now g =
     gen_loop now (g\<lparr>gen_config := cfg, gen_running := True, gen_totalBytesSent := 0,
       gen_totalPacketsSent := 0, gen_packetCounter := 0, gen_startTime := now,
       gen_lastStats := zeroStats\<rparr>)"

definition gen_after_wait :: "time_point \<Rightarrow> Generator \<Rightarrow> gen_wait \<times> Generator" where
  "gen_after_wait now g = (if \<not> gen_running g then gen_finish now g else gen_loop now g)"

definition gen_after_send :: "time_point \<Rightarrow> nat \<Rightarrow> Generator \<Rightarrow> gen_wait \<times> Generator" where
  "gen_after_send now bytesSent g =
     (if bytesSent > 0
      then let g = g\<lparr>gen_totalBytesSent := gen_totalBytesSent g + int bytesSent,
                     gen_totalPacketsSent := gen_totalPacketsSent g + 1\<rparr>
           in if sendIntervalMs (gen_config g) > 0
              then (AwaitDelay (sendIntervalMs (gen_config g)), g)
              else gen_after_wait now g
      else gen_finish now g)"

definition gen_after_delay :: "time_point \<Rightarrow> Generator \<Rightarrow> gen_wait \<times> Generator" where
  "gen_after_delay now g = gen_after_wait now g"

text \<open>
  Run the coroutine with a network that reports \<open>sent packet\<close> bytes for a packet, and clock readings
  taken from a list; the packets sent, in order. The bound \<open>fuel\<close> counts resumptions.
\<close>

fun gen_run :: "nat \<Rightarrow> (bytes \<Rightarrow> nat) \<Rightarrow> (nat \<Rightarrow> time_point) \<Rightarrow> gen_wait \<times> Generator \<Rightarrow>
    (bytes list \<times> Generator) option" where
  "gen_run fuel sent clock (GenFinished, g) = Some ([], g)"
| "gen_run 0 sent clock (AwaitSend p, g) = None"
| "gen_run 0 sent clock (AwaitDelay d, g) = None"
| "gen_run (Suc k) sent clock (AwaitSend p, g) =
     (case gen_run k sent clock (gen_after_send (clock k) (sent p) g) of
        None \<Rightarrow> None | Some (ps, g') \<Rightarrow> Some (p # ps, g'))"
| "gen_run (Suc k) sent clock (AwaitDelay d, g) = gen_run k sent clock (gen_after_delay (clock k) g)"

subsection \<open>Packets\<close>

text \<open>The \<open>i\<close>-th packet of a run with configuration \<open>cfg\<close>.\<close>

definition payload_len :: "Config \<Rightarrow> nat" where
  "payload_len cfg = nat (packetSize cfg) - sizeof_PacketHeader"

definition generated :: "Config \<Rightarrow> nat \<Rightarrow> PacketHeader \<times> bytes" where
  "generated cfg i =
     (let payload = buildExpectedPayload (word_of_nat i) (payload_len cfg)
      in (data_header cfg (word_of_nat i) (payload_len cfg) payload, payload))"

lemma createPacket_generated:
  assumes "nat (packetSize (gen_config g)) \<ge> sizeof_PacketHeader"
    and "gen_packetCounter g = word_of_nat i"
  shows "createPacket g = (stream_of [generated (gen_config g) i],
    g\<lparr>gen_packetCounter := word_of_nat (Suc i)\<rparr>)"
  using assms by (simp add: createPacket_def generated_def payload_len_def Let_def add_ac)

text \<open>Packet sizes for which a packet can be sent and is accepted by the peer's parser.\<close>

definition sendable :: "nat \<Rightarrow> Config \<Rightarrow> bool" where
  "sendable maxP cfg \<longleftrightarrow> int sizeof_PacketHeader \<le> packetSize cfg \<and>
     packetSize cfg \<le> int (sizeof_PacketHeader + maxP) \<and> maxP < 2 ^ 32"

lemma sendableD:
  assumes "sendable maxP cfg"
  shows "sizeof_PacketHeader \<le> nat (packetSize cfg)" "payload_len cfg \<le> maxP"
    "sizeof_PacketHeader + payload_len cfg = nat (packetSize cfg)" "payload_len cfg < 2 ^ 32"
  using assms by (auto simp: sendable_def payload_len_def)

lemma generated_wf:
  assumes "sendable maxP cfg"
  shows "case generated cfg i of (h, d) \<Rightarrow> packet_wf maxP h d"
  using sendableD [OF assms]
  by (simp add: generated_def packet_wf_def data_header_def unat_of_nat Let_def)

lemma generated_content:
  assumes "sendable maxP cfg"
  shows "\<not> content_mismatch (parsed (generated cfg i))"
    and "packetCounter (pkt_header (parsed (generated cfg i))) = word_of_nat i"
    and "messageType (pkt_header (parsed (generated cfg i))) = DATA_PACKET"
    and "pkt_totalPacketSize (parsed (generated cfg i)) = nat (packetSize cfg)"
  using sendableD [OF assms]
  by (simp_all add: generated_def parsed_def content_mismatch_def data_header_def unat_of_nat
      Let_def)

subsection \<open>A whole run\<close>

lemma sint_small: "i < 2 ^ 31 \<Longrightarrow> sint (word_of_nat i :: 32 word) = int i"
  by (simp add: signed_of_nat signed_take_bit_int_eq_self)

lemma gen_loop_send:
  assumes "sendable maxP cfg" "gen_config g = cfg" "gen_running g"
    and "gen_packetCounter g = word_of_nat i" "int i < numPackets cfg" "numPackets cfg < 2 ^ 31"
  shows "gen_loop now g = (AwaitSend (stream_of [generated cfg i]),
    g\<lparr>gen_packetCounter := word_of_nat (Suc i)\<rparr>)"
proof -
  have "shouldContinueSending g" using assms sint_small [of i] by (simp add: shouldContinueSending_def)
  moreover have "stream_of [generated cfg i] \<noteq> []"
    by (cases "generated cfg i") (simp add: encode_header_def)
  moreover have "createPacket g = (stream_of [generated cfg i],
      g\<lparr>gen_packetCounter := word_of_nat (Suc i)\<rparr>)"
    using createPacket_generated [of g i] sendableD(1) [OF assms(1)] assms(2,4) by simp
  ultimately show ?thesis using assms(3) by (simp add: gen_loop_def)
qed

lemma gen_loop_done:
  assumes "gen_config g = cfg" "gen_running g" "gen_packetCounter g = word_of_nat i"
    and "int i = numPackets cfg" "0 < numPackets cfg" "numPackets cfg < 2 ^ 31"
  shows "gen_loop now g = (GenFinished, g\<lparr>gen_running := False, gen_endTime := now\<rparr>)"
proof -
  have "\<not> shouldContinueSending g" using assms sint_small [of i] by (simp add: shouldContinueSending_def)
  then show ?thesis using assms(2) by (simp add: gen_loop_def gen_finish_def)
qed

definition run_stats :: "Config \<Rightarrow> nat \<Rightarrow> Generator \<Rightarrow> bool" where
  "run_stats cfg i g \<longleftrightarrow> gen_config g = cfg \<and> gen_totalPacketsSent g = int i \<and>
     gen_totalBytesSent g = int i * packetSize cfg"

lemma length_generated:
  "sendable maxP cfg \<Longrightarrow> int (length (stream_of [generated cfg i])) = packetSize cfg"
  by (auto simp: generated_def Let_def sendable_def payload_len_def of_nat_diff nat_le_iff le_nat_iff)

lemma gen_run_loop:
  assumes "sendable maxP cfg" "0 < numPackets cfg" "numPackets cfg < 2 ^ 31"
    and "\<And>p. sent p = length p"
    and "run_stats cfg i g" "gen_running g" "gen_packetCounter g = word_of_nat i"
    and "i + n = nat (numPackets cfg)" "2 * n \<le> fuel"
  shows "\<exists>g'. gen_run fuel sent clock (gen_loop now g) =
      Some (map (\<lambda>i. stream_of [generated cfg i]) [i..<i + n], g') \<and>
    run_stats cfg (i + n) g' \<and> \<not> gen_running g' \<and> gen_startTime g' = gen_startTime g"
  using assms(5-9)
proof (induction n arbitrary: i g fuel now)
  case 0
  with assms(2,3) gen_loop_done [of g cfg i now] show ?case by (auto simp: run_stats_def)
next
  case (Suc n)
  let ?p = "stream_of [generated cfg i]"
  let ?g1 = "g\<lparr>gen_packetCounter := word_of_nat (Suc i),
     gen_totalBytesSent := gen_totalBytesSent g + packetSize cfg,
     gen_totalPacketsSent := gen_totalPacketsSent g + 1\<rparr>"
  have cfg: "gen_config g = cfg" using Suc.prems by (simp add: run_stats_def)
  have send: "gen_loop now g = (AwaitSend ?p, g\<lparr>gen_packetCounter := word_of_nat (Suc i)\<rparr>)"
    using Suc.prems assms(2,3) cfg by (intro gen_loop_send [OF assms(1)]) auto
  have pos: "length ?p > 0" using length_generated [OF assms(1), of i] assms(1)
    by (auto simp: sendable_def sizeof_PacketHeader_def)
  have after: "gen_after_send t (sent ?p) (g\<lparr>gen_packetCounter := word_of_nat (Suc i)\<rparr>) =
      (if sendIntervalMs cfg > 0 then (AwaitDelay (sendIntervalMs cfg), ?g1) else gen_loop t ?g1)" for t
    using length_generated [OF assms(1), of i] pos Suc.prems cfg assms(4) [of ?p]
    by (simp add: gen_after_send_def gen_after_wait_def Let_def)
  have stats: "run_stats cfg (Suc i) ?g1"
    using Suc.prems(1) by (simp add: run_stats_def algebra_simps)
  obtain k where fuel: "fuel = Suc (Suc k)" "2 * n \<le> k"
    using Suc.prems(5) by (intro that [of "fuel - 2"]) auto
  have IH: "\<exists>g'. gen_run m sent clock (gen_loop t ?g1) =
      Some (map (\<lambda>i. stream_of [generated cfg i]) [Suc i..<Suc i + n], g') \<and>
    run_stats cfg (Suc i + n) g' \<and> \<not> gen_running g' \<and> gen_startTime g' = gen_startTime g"
    if "2 * n \<le> m" for m t
    using Suc.IH [of "Suc i" ?g1 m t] Suc.prems stats that by (simp del: upt_Suc)
  have delay: "gen_after_delay t ?g1 = gen_loop t ?g1" for t
    using Suc.prems by (simp add: gen_after_delay_def gen_after_wait_def)
  define d m where "d = sendIntervalMs cfg" and "m = (if d > 0 then k else Suc k)"
  then have "2 * n \<le> m" using fuel by simp
  from IH [OF this, of "clock m"] obtain g' where g':
    "gen_run m sent clock (gen_loop (clock m) ?g1) =
      Some (map (\<lambda>i. stream_of [generated cfg i]) [Suc i..<Suc i + n], g')"
    "run_stats cfg (Suc i + n) g'" "\<not> gen_running g'" "gen_startTime g' = gen_startTime g"
    by blast
  have "gen_run fuel sent clock (gen_loop now g) =
      (case gen_run m sent clock (gen_loop (clock m) ?g1) of
         None \<Rightarrow> None | Some (ps, g') \<Rightarrow> Some (?p # ps, g'))"
    unfolding send fuel(1) gen_run.simps after m_def d_def
    by (cases "sendIntervalMs cfg > 0") (simp_all add: delay del: of_nat_Suc)
  with g' have "gen_run fuel sent clock (gen_loop now g) =
      Some (map (\<lambda>i. stream_of [generated cfg i]) [i..<i + Suc n], g')"
    by (simp add: upt_conv_Cons del: upt_Suc)
  then show ?case using g' by auto
qed

text \<open>
  a generator whose sends are accepted in full sends exactly \<open>numPackets\<close> packets, numbered from
  0, and ends with these totals; two resumptions per packet are enough.
\<close>

theorem generator_run:
  assumes "sendable maxP cfg" and "0 < numPackets cfg" "numPackets cfg < 2 ^ 31"
    and "2 * nat (numPackets cfg) \<le> fuel"
  shows "\<exists>g'. gen_run fuel length clock (gen_start cfg now g) =
      Some (map (\<lambda>i. stream_of [generated cfg i]) [0..<nat (numPackets cfg)], g') \<and>
    totalPacketsSent (gen_getStats g') = numPackets cfg \<and>
    totalBytesSent (gen_getStats g') = numPackets cfg * packetSize cfg \<and> \<not> gen_running g'"
proof -
  let ?g = "g\<lparr>gen_config := cfg, gen_running := True, gen_totalBytesSent := 0,
       gen_totalPacketsSent := 0, gen_packetCounter := 0, gen_startTime := now,
       gen_lastStats := zeroStats\<rparr>"
  from gen_run_loop [OF assms(1-3), of length 0 ?g "nat (numPackets cfg)" fuel clock now] assms(2,4)
  obtain g' where "gen_run fuel length clock (gen_loop now ?g) =
      Some (map (\<lambda>i. stream_of [generated cfg i]) [0..<nat (numPackets cfg)], g')"
    "run_stats cfg (nat (numPackets cfg)) g'" "\<not> gen_running g'"
    by (auto simp: run_stats_def)
  then show ?thesis using assms(2)
    by (simp add: gen_start_def gen_getStats_def run_stats_def Let_def)
qed

theorem generator_run_witness:
  "\<exists>g'. gen_run 6 length (\<lambda>k. 0) (gen_start (default_Config\<lparr>numPackets := 3\<rparr>) 5 new_Generator) =
      Some (map (\<lambda>i. stream_of [generated (default_Config\<lparr>numPackets := 3\<rparr>) i]) [0..<3], g') \<and>
    totalPacketsSent (gen_getStats g') = 3 \<and> totalBytesSent (gen_getStats g') = 3072"
proof -
  have "sendable 131072 (default_Config\<lparr>numPackets := 3\<rparr>)"
    by (simp add: sendable_def default_Config_def sizeof_PacketHeader_def)
  from generator_run [OF this, of 6 "\<lambda>k. 0" 5 new_Generator] show ?thesis
    by (auto simp: default_Config_def)
qed

end
