(* ===== verification/ControlProtocol.thy ===== *)
theory ControlProtocol
  imports StreamParser
begin

section \<open>Control messages\<close>

text \<open>
  \<open>MyIperf/src/myiperf/ControlProtocol.cpp\<close>: names of message types, JSON payloads, the lines
  written about a phase, and the packet \<open>sendControlPacket\<close> puts on the wire. Parsing and printing
  of JSON text are the parameters \<open>parse\<close> and \<open>dump\<close>.
\<close>

definition messageTypeToString :: "MessageType \<Rightarrow> string" where
  "messageTypeToString t =
     (case t of
        CONFIG_HANDSHAKE \<Rightarrow> ''CONFIG_HANDSHAKE''
      | CONFIG_ACK \<Rightarrow> ''CONFIG_ACK''
      | DATA_PACKET \<Rightarrow> ''DATA_PACKET''
      | STATS_EXCHANGE \<Rightarrow> ''STATS_EXCHANGE''
      | STATS_ACK \<Rightarrow> ''STATS_ACK''
      | TEST_FIN \<Rightarrow> ''TEST_FIN''
      | CLIENT_READY \<Rightarrow> ''CLIENT_READY''
      | SHUTDOWN_ACK \<Rightarrow> ''SHUTDOWN_ACK''
      | OTHER_TYPE b \<Rightarrow> ''UNKNOWN'')"

definition parseJsonPayload :: "json_parser \<Rightarrow> bytes \<Rightarrow> json res" where
  "parseJsonPayload parse payload = parse payload"

definition parseStatsPayload :: "json_parser \<Rightarrow> bytes \<Rightarrow> TestStats res" where
  "parseStatsPayload parse payload = res_bind (parseJsonPayload parse payload) TestStats_from_json"

definition statsToPayload :: "json_printer \<Rightarrow> TestStats \<Rightarrow> bytes" where
  "statsToPayload dump s = dump (TestStats_to_json s)"

subsection \<open>Log lines\<close>

text \<open>
  \<open>std::fixed << std::setprecision(2)\<close>: the value in hundredths, rounded to nearest with ties to
  even.
\<close>

definition round_half_even :: "rat \<Rightarrow> int" where
  "round_half_even x =
     (let f = floor x; d = x - of_int f
      in if d < 1 / 2 then f
         else if d > 1 / 2 then f + 1
         else if even f then f else f + 1)"

definition show_fixed2 :: "double \<Rightarrow> string" where
  "show_fixed2 x =
     (let c = round_half_even (100 * abs x)
      in (if x < 0 then ''-'' else []) @ show_nat (nat (c div 100)) @ ''.'' @
         [digit_char (nat (c div 10 mod 10)), digit_char (nat (c mod 10))])"

definition newline :: string where
  "newline = [CHR 0x0A]"

text \<open>\<open>std::fixed\<close> with precision \<open>p\<close>.\<close>

definition show_fixed :: "nat \<Rightarrow> double \<Rightarrow> string" where
  "show_fixed p x =
     (let c = round_half_even (10 ^ p * \<bar>x\<bar>)
      in (if x < 0 then ''-'' else []) @ show_nat (nat (c div 10 ^ p)) @
         (if p = 0 then [] else ''.'' @ map (\<lambda>i. digit_char (nat (c div 10 ^ i mod 10))) (rev [0..<p])))"

definition formatStatsForLogging :: "TestStats \<Rightarrow> string" where
  "formatStatsForLogging s =
     newline @ ''    - Total Bytes Sent:     '' @ show_int (totalBytesSent s) @
     newline @ ''    - Total Packets Sent:   '' @ show_int (totalPacketsSent s) @
     newline @ ''    - Total Bytes Received: '' @ show_int (totalBytesReceived s) @
     newline @ ''    - Total Packets Received: '' @ show_int (totalPacketsReceived s) @
     newline @ ''    - Duration:             '' @ show_fixed2 (duration s) @ '' s'' @
     newline @ ''    - Throughput:           '' @ show_fixed2 (throughputMbps s) @ '' Mbps'' @
     newline @ ''    - Sequence Errors:      '' @ show_int (sequenceErrorCount s) @
     newline @ ''    - Failed Checksums:     '' @ show_int (failedChecksumCount s) @
     newline @ ''    - Content Mismatches:   '' @ show_int (contentMismatchCount s)"

definition logPhaseSummary ::
  "string \<Rightarrow> string \<Rightarrow> TestStats \<Rightarrow> string \<Rightarrow> TestStats \<Rightarrow> string list" where
  "logPhaseSummary title firstLabel firstStats secondLabel secondStats =
     [''--- '' @ title @ '' ---'',
      firstLabel @ '':'' @ formatStatsForLogging firstStats,
      secondLabel @ '':'' @ formatStatsForLogging secondStats,
      ''----------------------------'']"

subsection \<open>Packets\<close>

definition control_header :: "MessageType \<Rightarrow> bytes \<Rightarrow> PacketHeader" where
  "control_header type payload =
     \<lparr>startCode = PROTOCOL_START_CODE, senderId = 0, receiverId = 0, messageType = type,
      packetCounter = 0, payloadSize = word_of_nat (length payload),
      checksum = calculateChecksum payload\<rparr>"

definition sendControlPacket :: "MessageType \<Rightarrow> bytes \<Rightarrow> bytes" where
  "sendControlPacket type payload = encode_header (control_header type payload) @ payload"

lemma control_packet_wf:
  assumes "canonical_type type" "length payload \<le> maxP" "maxP < 2 ^ 32"
  shows "packet_wf maxP (control_header type payload) payload"
  using assms by (simp add: packet_wf_def control_header_def unat_of_nat)

lemma sendControlPacket_stream:
  "sendControlPacket type payload = stream_of [(control_header type payload, payload)]"
  by (simp add: sendControlPacket_def)

text \<open>
  statistics sent in a control packet come back: the peer's parser cuts the packet out of the
  stream, whatever follows it, and \<open>parseStatsPayload\<close> gives the statistics that were sent, when
  the JSON text fits the payload limit and the JSON library parses what it printed.
\<close>

theorem stats_packet_roundtrip:
  assumes "stats_in_range s" and "parse (dump (TestStats_to_json s)) = Inr (TestStats_to_json s)"
    and "canonical_type type" and "length (statsToPayload dump s) \<le> maxP" and "maxP < 2 ^ 32"
  shows "\<exists>pk. drain_loop maxP (sendControlPacket type (statsToPayload dump s) @ rest) cf =
      (case drain_loop maxP rest 0 of (ps, f, b, c) \<Rightarrow> (pk # ps, f, b, c)) \<and>
    messageType (pkt_header pk) = type \<and> parseStatsPayload parse (pkt_payload pk) = Inr s"
proof -
  let ?d = "statsToPayload dump s"
  have "packet_wf maxP (control_header type ?d) ?d"
    using assms(3-5) by (rule control_packet_wf)
  from drain_loop_packet [OF this]
  have "drain_loop maxP (sendControlPacket type ?d @ rest) cf =
      (case drain_loop maxP rest 0 of (ps, f, b, c) \<Rightarrow>
        (parsed (control_header type ?d, ?d) # ps, f, b, c))"
    by (simp add: sendControlPacket_def)
  moreover have "parseStatsPayload parse ?d = Inr s"
    using assms(2) stats_codec.dec_enc [OF assms(1)]
    by (simp add: parseStatsPayload_def parseJsonPayload_def statsToPayload_def)
  ultimately show ?thesis
    by (intro exI [of _ "parsed (control_header type ?d, ?d)"])
      (simp add: parsed_def control_header_def)
qed

theorem stats_packet_roundtrip_witness:
  "\<exists>pk. drain_loop 100 (sendControlPacket STATS_EXCHANGE
       (statsToPayload (\<lambda>j. ''{}'') zeroStats) @ []) 0 =
      (case drain_loop 100 [] 0 of (ps, f, b, c) \<Rightarrow> (pk # ps, f, b, c)) \<and>
    messageType (pkt_header pk) = STATS_EXCHANGE \<and>
    parseStatsPayload (\<lambda>t. Inr (TestStats_to_json zeroStats)) (pkt_payload pk) = Inr zeroStats"
  by (rule stats_packet_roundtrip)
    (simp_all add: stats_in_range_def zeroStats_def statsToPayload_def llong_range_def
      LLONG_MIN_def LLONG_MAX_def)

end
