(* ===== verification/Fifo.thy ===== *)
theory Fifo
  imports Prelude
begin

section \<open>The queue interface\<close>

text \<open>
  Several components hand values from one thread to another through a \<open>std::queue\<close> under a mutex:
  the message bus, the result-event sink and the logger. They share this contract: \<open>push\<close> adds at
  the end of the contents, \<open>pop\<close> takes the front. Each interprets the locale on its own state and
  inherits \<open>run_fifo\<close>: over any sequence of operations, what was pushed is what was popped, in
  the same order, followed by what is still inside.
\<close>

datatype 'm queue_op = Push 'm | Pop

locale fifo =
  fixes push :: "'m \<Rightarrow> 'q \<Rightarrow> 'q"
    and pop :: "'q \<Rightarrow> ('m \<times> 'q) option"
    and contents :: "'q \<Rightarrow> 'm list"
  assumes contents_push: "contents (push m q) = contents q @ [m]"
    and pop_None: "pop q = None \<longleftrightarrow> contents q = []"
    and pop_Some: "pop q = Some (m, q') \<Longrightarrow> contents q = m # contents q'"
begin

text \<open>Run the operations: the values popped, and the final state. A pop of nothing does nothing.\<close>

fun run :: "'m queue_op list \<Rightarrow> 'q \<Rightarrow> 'm list \<times> 'q" where
  "run [] q = ([], q)"
| "run (Push m # ops) q = run ops (push m q)"
| "run (Pop # ops) q =
     (case pop q of
        None \<Rightarrow> run ops q
      | Some (m, q') \<Rightarrow> (case run ops q' of (ms, q'') \<Rightarrow> (m # ms, q'')))"

fun pushed :: "'m queue_op list \<Rightarrow> 'm list" where
  "pushed [] = []"
| "pushed (Push m # ops) = m # pushed ops"
| "pushed (Pop # ops) = pushed ops"

lemma run_fifo: "run ops q = (ms, q') \<Longrightarrow> contents q @ pushed ops = ms @ contents q'"
proof (induction ops arbitrary: q ms)
  case Nil
  then show ?case by simp
next
  case (Cons op ops)
  show ?case
  proof (cases op)
    case (Push m)
    then show ?thesis using Cons.IH [of "push m q" ms] Cons.prems by (simp add: contents_push)
  next
    case Pop
    show ?thesis
    proof (cases "pop q")
      case None
      then show ?thesis using Pop Cons.IH [of q ms] Cons.prems by simp
    next
      case (Some mq)
      obtain m q1 where mq: "mq = (m, q1)" by (cases mq)
      obtain ms1 where "run ops q1 = (ms1, q')" "ms = m # ms1"
        using Pop Some mq Cons.prems by (auto split: prod.splits)
      then show ?thesis using Pop Some mq Cons.IH [of q1 ms1] pop_Some by simp
    qed
  qed
qed

lemma pop_push_empty: "contents q = [] \<Longrightarrow> \<exists>q'. pop (push m q) = Some (m, q') \<and> contents q' = []"
proof -
  assume "contents q = []"
  then have c: "contents (push m q) = [m]" by (simp add: contents_push)
  then obtain x q' where "pop (push m q) = Some (x, q')"
    using pop_None [of "push m q"] by (cases "pop (push m q)") auto
  with pop_Some [OF this] c show ?thesis by simp
qed

end

end
