(* ===== verification/MessageBus.thy ===== *)
theory MessageBus
  imports ControlProtocol Fifo
begin

section \<open>The control message bus\<close>

text \<open>
  \<open>MyIperf/src/myiperf/ControlMessageBus.cpp\<close>. Awaiters live in a store indexed by their address,
  since the bus, the waiting coroutine and the timer thread share them. Each operation is what one
  thread does under the mutex; it returns the coroutines to resume outside of it. The timer thread
  is the operation \<open>timer_expire\<close>, which may happen any time after \<open>await_suspend\<close>. The main facts:
  messages of one type are handed over exactly once and in order (\<open>bus_fifo\<close>), a type never has
  both a waiter and a buffered message (\<open>bus_run_inv\<close>), and a suspension is resumed at most once
  (\<open>resumed_at_most_once\<close>), by a message, by its timer or by \<open>cancelAll\<close>.
\<close>

record Message =
  msg_header :: PacketHeader
  msg_payload :: bytes

record Awaiter =
  aw_type :: MessageType
  aw_timeoutMs :: int
  aw_timerStarted :: bool
  aw_cancelTimer :: bool
  aw_continuation :: "nat option"
  aw_message :: "Message option"
  aw_timedOut :: bool
  aw_cancelled :: bool

record MessageBus =
  awaiters :: "nat \<Rightarrow> Awaiter option"
  pendingWaits :: "MessageType \<Rightarrow> nat option"
  bufferedMessages :: "MessageType \<Rightarrow> Message list"

definition new_MessageBus :: MessageBus where
  "new_MessageBus = \<lparr>awaiters = \<lambda>_. None, pendingWaits = \<lambda>_. None, bufferedMessages = \<lambda>_. []\<rparr>"

definition set_awaiter :: "nat \<Rightarrow> Awaiter \<Rightarrow> MessageBus \<Rightarrow> MessageBus" where
  "set_awaiter i a b = b\<lparr>awaiters := (awaiters b)(i \<mapsto> a)\<rparr>"

text \<open>\<open>bufferedMessages[type].push\<close>, and the \<open>front\<close> and \<open>pop\<close> under the \<open>empty\<close> check.\<close>

definition buffer_push :: "MessageType \<Rightarrow> Message \<Rightarrow> MessageBus \<Rightarrow> MessageBus" where
  "buffer_push t m b =
     b\<lparr>bufferedMessages := (bufferedMessages b)(t := bufferedMessages b t @ [m])\<rparr>"

definition tryTakeBufferedMessage :: "MessageType \<Rightarrow> MessageBus \<Rightarrow> (Message \<times> MessageBus) option" where
  "tryTakeBufferedMessage t b =
     (case bufferedMessages b t of
        [] \<Rightarrow> None
      | m # ms \<Rightarrow> Some (m, b\<lparr>bufferedMessages := (bufferedMessages b)(t := ms)\<rparr>))"

subsection \<open>The awaiter\<close>

definition waitFor :: "nat \<Rightarrow> MessageType \<Rightarrow> int \<Rightarrow> MessageBus \<Rightarrow> MessageBus" where
  "waitFor i t timeoutMs b =
     set_awaiter i \<lparr>aw_type = t, aw_timeoutMs = timeoutMs, aw_timerStarted = False,
       aw_cancelTimer = False, aw_continuation = None, aw_message = None, aw_timedOut = False,
       aw_cancelled = False\<rparr> b"

definition await_ready :: "nat \<Rightarrow> MessageBus \<Rightarrow> bool \<times> MessageBus" where
  "await_ready i b =
     (case awaiters b i of
        None \<Rightarrow> (False, b)
      | Some a \<Rightarrow>
          (case tryTakeBufferedMessage (aw_type a) b of
             None \<Rightarrow> (False, b)
           | Some (m, b') \<Rightarrow> (True, set_awaiter i (a\<lparr>aw_message := Some m\<rparr>) b')))"

text \<open>True: the coroutine \<open>h\<close> stays suspended.\<close>

definition await_suspend :: "nat \<Rightarrow> nat \<Rightarrow> MessageBus \<Rightarrow> bool \<times> MessageBus" where
  "await_suspend h i b =
     (case awaiters b i of
        None \<Rightarrow> (False, b)
      | Some a \<Rightarrow>
          let a = a\<lparr>aw_continuation := Some h, aw_timerStarted := aw_timeoutMs a > 0\<rparr> in
          case tryTakeBufferedMessage (aw_type a) b of
            Some (m, b') \<Rightarrow>
              (False, set_awaiter i (a\<lparr>aw_message := Some m, aw_cancelTimer := True\<rparr>) b')
          | None \<Rightarrow>
              (True, (set_awaiter i a b)\<lparr>pendingWaits := (pendingWaits b)(aw_type a \<mapsto> i)\<rparr>))"

definition await_resume :: "Awaiter \<Rightarrow> Message res" where
  "await_resume a =
     (if aw_cancelled a then Inl (Runtime_error ''Operation cancelled.'')
      else if aw_timedOut a
      then Inl (Runtime_error (''Timeout waiting for message: '' @ messageTypeToString (aw_type a)))
      else Inr (case aw_message a of
                  Some m \<Rightarrow> m
                | None \<Rightarrow> \<lparr>msg_header = decode_header (replicate sizeof_PacketHeader (CHR 0x00)),
                           msg_payload = []\<rparr>))"

definition destroy_awaiter :: "nat \<Rightarrow> MessageBus \<Rightarrow> MessageBus" where
  "destroy_awaiter i b = b\<lparr>awaiters := (awaiters b)(i := None)\<rparr>"

text \<open>
  The timer thread at \<open>elapsed\<close> milliseconds after its start: the coroutine to resume, if the timer
  was not cancelled, the time is up and the awaiter is still the one registered for its type.
\<close>

definition timer_expire :: "int \<Rightarrow> nat \<Rightarrow> MessageBus \<Rightarrow> nat option \<times> MessageBus" where
  "timer_expire elapsed i b =
     (case awaiters b i of
        None \<Rightarrow> (None, b)
      | Some a \<Rightarrow>
          if aw_timerStarted a \<and> \<not> aw_cancelTimer a \<and> elapsed \<ge> aw_timeoutMs a \<and>
             pendingWaits b (aw_type a) = Some i
          then (aw_continuation a,
                (set_awaiter i (a\<lparr>aw_timedOut := True\<rparr>) b)
                  \<lparr>pendingWaits := (pendingWaits b)(aw_type a := None)\<rparr>)
          else (None, b))"

subsection \<open>The bus\<close>

definition takeContinuationForMessage ::
  "PacketHeader \<Rightarrow> bytes \<Rightarrow> MessageBus \<Rightarrow> nat option \<times> MessageBus" where
  "takeContinuationForMessage header payload b =
     (let m = \<lparr>msg_header = header, msg_payload = payload\<rparr> in
      case pendingWaits b (messageType header) of
        None \<Rightarrow> (None, buffer_push (messageType header) m b)
      | Some i \<Rightarrow>
          (case awaiters b i of
             None \<Rightarrow> (None, buffer_push (messageType header) m b)
           | Some a \<Rightarrow>
               (aw_continuation a,
                (set_awaiter i (a\<lparr>aw_message := Some m\<rparr>) b)
                  \<lparr>pendingWaits := (pendingWaits b)(messageType header := None)\<rparr>)))"

definition deliver :: "PacketHeader \<Rightarrow> bytes \<Rightarrow> MessageBus \<Rightarrow> nat option \<times> MessageBus" where
  "deliver header payload b =
     (if messageType header = DATA_PACKET then (None, b)
      else takeContinuationForMessage header payload b)"

definition bus_clear :: "MessageBus \<Rightarrow> MessageBus" where
  "bus_clear b = b\<lparr>pendingWaits := \<lambda>_. None, bufferedMessages := \<lambda>_. []\<rparr>"

text \<open>A \<open>std::map\<close> over message types is traversed in the order of their bytes.\<close>

definition all_types :: "MessageType list" where
  "all_types = map (\<lambda>n. type_of_byte (word_of_nat n)) [0..<256]"

definition pending_awaiters :: "MessageBus \<Rightarrow> nat list" where
  "pending_awaiters b = List.map_filter (pendingWaits b) all_types"

definition cancel_awaiter :: "nat \<Rightarrow> MessageBus \<Rightarrow> MessageBus" where
  "cancel_awaiter i b =
     (case awaiters b i of
        None \<Rightarrow> b
      | Some a \<Rightarrow> set_awaiter i (a\<lparr>aw_cancelled := True\<rparr>) b)"

definition cancelAll :: "MessageBus \<Rightarrow> nat list \<times> MessageBus" where
  "cancelAll b =
     (List.map_filter (\<lambda>i. Option.bind (awaiters b i) aw_continuation) (pending_awaiters b),
      bus_clear (fold cancel_awaiter (pending_awaiters b) b))"

subsection \<open>The buffers are queues\<close>

interpretation bus_buffer: fifo "buffer_push t" "tryTakeBufferedMessage t" "\<lambda>b. bufferedMessages b t"
  for t
  by unfold_locales
    (auto simp: buffer_push_def tryTakeBufferedMessage_def split: list.splits)

subsection \<open>Steps of the bus under any interleaving of its threads\<close>

datatype bus_effect =
    Delivered Message
  | Handed Message
  | Discarded "MessageType \<Rightarrow> Message list"
  | Suspended nat
  | Resumed nat

text \<open>
  An awaiter is used for one \<open>co_await\<close>: it is created at a free address, suspended at most once,
  and destroyed only when no longer registered (the coroutine that owns it is then running).
\<close>

inductive bus_step :: "MessageBus \<Rightarrow> bus_effect list \<Rightarrow> MessageBus \<Rightarrow> bool" where
  bs_wait: "awaiters b i = None \<Longrightarrow> bus_step b [] (waitFor i t timeoutMs b)"
| bs_ready: "awaiters b i = Some a \<Longrightarrow> aw_continuation a = None \<Longrightarrow>
    await_ready i b = (True, b') \<Longrightarrow>
    bus_step b [Handed (hd (bufferedMessages b (aw_type a)))] b'"
| bs_suspend: "awaiters b i = Some a \<Longrightarrow> aw_continuation a = None \<Longrightarrow>
    await_suspend h i b = (True, b') \<Longrightarrow> bus_step b [Suspended i] b'"
| bs_no_suspend: "awaiters b i = Some a \<Longrightarrow> aw_continuation a = None \<Longrightarrow>
    await_suspend h i b = (False, b') \<Longrightarrow>
    bus_step b [Handed (hd (bufferedMessages b (aw_type a)))] b'"
| bs_destroy: "pendingWaits b (aw_type a) \<noteq> Some i \<Longrightarrow> awaiters b i = Some a \<Longrightarrow>
    bus_step b [] (destroy_awaiter i b)"
| bs_timer: "timer_expire elapsed i b = (Some h, b') \<Longrightarrow> bus_step b [Resumed i] b'"
| bs_buffer: "messageType header \<noteq> DATA_PACKET \<Longrightarrow>
    pendingWaits b (messageType header) = None \<Longrightarrow> deliver header payload b = (None, b') \<Longrightarrow>
    bus_step b [Delivered \<lparr>msg_header = header, msg_payload = payload\<rparr>] b'"
| bs_wake: "messageType header \<noteq> DATA_PACKET \<Longrightarrow>
    pendingWaits b (messageType header) = Some i \<Longrightarrow> deliver header payload b = (Some h, b') \<Longrightarrow>
    bus_step b [Delivered \<lparr>msg_header = header, msg_payload = payload\<rparr>,
      Handed \<lparr>msg_header = header, msg_payload = payload\<rparr>, Resumed i] b'"
| bs_data: "messageType header = DATA_PACKET \<Longrightarrow> deliver header payload b = (r, b') \<Longrightarrow>
    bus_step b [] b'"
| bs_clear: "bus_step b [Discarded (bufferedMessages b)] (bus_clear b)"
| bs_cancel: "cancelAll b = (hs, b') \<Longrightarrow>
    bus_step b (Discarded (bufferedMessages b) # map Resumed (pending_awaiters b)) b'"

inductive bus_run :: "bus_effect list \<Rightarrow> MessageBus \<Rightarrow> bool" where
  br_start: "bus_run [] new_MessageBus"
| br_step: "bus_run es b \<Longrightarrow> bus_step b fs b' \<Longrightarrow> bus_run (es @ fs) b'"

text \<open>What the mutex protects.\<close>

definition waiter_ok :: "MessageBus \<Rightarrow> MessageType \<Rightarrow> nat \<Rightarrow> bool" where
  "waiter_ok b t i \<longleftrightarrow> (\<exists>a. awaiters b i = Some a \<and> aw_type a = t \<and> aw_continuation a \<noteq> None)"

definition bus_inv :: "MessageBus \<Rightarrow> bool" where
  "bus_inv b \<longleftrightarrow>
     (\<forall>t i. pendingWaits b t = Some i \<longrightarrow> bufferedMessages b t = [] \<and> waiter_ok b t i) \<and>
     (\<forall>t. \<forall>m \<in> set (bufferedMessages b t). messageType (msg_header m) = t) \<and>
     bufferedMessages b DATA_PACKET = []"

lemmas bus_ops = waitFor_def await_ready_def await_suspend_def destroy_awaiter_def timer_expire_def
  deliver_def takeContinuationForMessage_def bus_clear_def buffer_push_def
  tryTakeBufferedMessage_def set_awaiter_def

lemma bus_inv_new: "bus_inv new_MessageBus"
  by (simp add: bus_inv_def new_MessageBus_def)

lemma bus_inv_clear [simp]: "bus_inv (bus_clear b)"
  by (simp add: bus_inv_def bus_clear_def)

lemma bus_pendingD:
  assumes "bus_inv b" "pendingWaits b t = Some i"
  shows "bufferedMessages b t = [] \<and>
    (\<exists>a h. awaiters b i = Some a \<and> aw_type a = t \<and> aw_continuation a = Some h)"
  using assms unfolding bus_inv_def waiter_ok_def by blast

lemma bus_bufferedD: "bus_inv b \<Longrightarrow> m \<in> set (bufferedMessages b t) \<Longrightarrow> messageType (msg_header m) = t"
  by (simp add: bus_inv_def)

lemma bus_data_empty: "bus_inv b \<Longrightarrow> bufferedMessages b DATA_PACKET = []"
  by (simp add: bus_inv_def)

lemma bus_invI:
  assumes "\<And>t i. pendingWaits b t = Some i \<Longrightarrow> bufferedMessages b t = [] \<and> waiter_ok b t i"
    and "\<And>t m. m \<in> set (bufferedMessages b t) \<Longrightarrow> messageType (msg_header m) = t"
    and "bufferedMessages b DATA_PACKET = []"
  shows "bus_inv b"
  using assms by (simp add: bus_inv_def)

lemma bus_step_inv:
  assumes "bus_step b es b'" and "bus_inv b"
  shows "bus_inv b'"
proof -
  note inv = bus_pendingD [OF assms(2)] and buf = bus_bufferedD [OF assms(2)]
    and data = bus_data_empty [OF assms(2)]
  from assms(1) show ?thesis
proof cases
  case (bs_wait i t tmo)
  show ?thesis unfolding bs_wait
    by (rule bus_invI)
      (use bs_wait assms(2) in \<open>auto simp: waitFor_def set_awaiter_def waiter_ok_def data
         dest: inv buf split: if_splits\<close>)
next
  case (bs_ready i a)
  then obtain m ms where m: "bufferedMessages b (aw_type a) = m # ms"
    and b': "b' = set_awaiter i (a\<lparr>aw_message := Some m\<rparr>)
      (b\<lparr>bufferedMessages := (bufferedMessages b)(aw_type a := ms)\<rparr>)"
    by (auto simp: await_ready_def tryTakeBufferedMessage_def split: list.splits)
  show ?thesis unfolding b'
    by (rule bus_invI)
      (use m bs_ready assms(2) data buf [of _ "aw_type a"] in \<open>auto simp: set_awaiter_def waiter_ok_def data
         dest: inv buf split: if_splits\<close>)
next
  case (bs_suspend i a h)
  then have m: "bufferedMessages b (aw_type a) = []"
    and b': "b' = (set_awaiter i (a\<lparr>aw_continuation := Some h, aw_timerStarted := aw_timeoutMs a > 0\<rparr>) b)
      \<lparr>pendingWaits := (pendingWaits b)(aw_type a \<mapsto> i)\<rparr>"
    by (auto simp: await_suspend_def tryTakeBufferedMessage_def Let_def split: list.splits)
  show ?thesis unfolding b'
    by (rule bus_invI)
      (use m bs_suspend assms(2) in \<open>auto simp: set_awaiter_def waiter_ok_def data
         dest: inv buf split: if_splits\<close>)
next
  case (bs_no_suspend i a h)
  then obtain m ms where m: "bufferedMessages b (aw_type a) = m # ms"
    and b': "b' = set_awaiter i (a\<lparr>aw_continuation := Some h, aw_timerStarted := aw_timeoutMs a > 0,
        aw_message := Some m, aw_cancelTimer := True\<rparr>)
      (b\<lparr>bufferedMessages := (bufferedMessages b)(aw_type a := ms)\<rparr>)"
    by (auto simp: await_suspend_def tryTakeBufferedMessage_def Let_def split: list.splits)
  show ?thesis unfolding b'
    by (rule bus_invI)
      (use m bs_no_suspend assms(2) data buf [of _ "aw_type a"] in \<open>auto simp: set_awaiter_def waiter_ok_def data
         dest: inv buf split: if_splits\<close>)
next
  case (bs_destroy a i)
  have gone: "pendingWaits b t \<noteq> Some i" for t
    using inv [of t i] bs_destroy by auto
  show ?thesis unfolding bs_destroy
    by (rule bus_invI)
      (use gone bs_destroy assms(2) in \<open>auto simp: destroy_awaiter_def waiter_ok_def data
         dest: inv buf split: if_splits\<close>)
next
  case (bs_timer elapsed i h)
  then obtain a where a: "awaiters b i = Some a" "pendingWaits b (aw_type a) = Some i"
    and b': "b' = (set_awaiter i (a\<lparr>aw_timedOut := True\<rparr>) b)
      \<lparr>pendingWaits := (pendingWaits b)(aw_type a := None)\<rparr>"
    by (auto simp: timer_expire_def split: option.splits if_splits)
  show ?thesis unfolding b'
    by (rule bus_invI)
      (use a assms(2) in \<open>auto simp: set_awaiter_def waiter_ok_def data
         dest: inv buf split: if_splits\<close>)
next
  case (bs_buffer header payload)
  then have b': "b' = buffer_push (messageType header) \<lparr>msg_header = header, msg_payload = payload\<rparr> b"
    by (simp add: deliver_def takeContinuationForMessage_def)
  show ?thesis unfolding b'
  proof (rule bus_invI)
    fix t i
    assume "pendingWaits (buffer_push (messageType header)
      \<lparr>msg_header = header, msg_payload = payload\<rparr> b) t = Some i"
    then have p: "pendingWaits b t = Some i" by (simp add: buffer_push_def)
    with inv [OF p] bs_buffer(3)
    show "bufferedMessages (buffer_push (messageType header)
        \<lparr>msg_header = header, msg_payload = payload\<rparr> b) t = [] \<and>
      waiter_ok (buffer_push (messageType header)
        \<lparr>msg_header = header, msg_payload = payload\<rparr> b) t i"
      by (auto simp: buffer_push_def waiter_ok_def)
  qed (use bs_buffer data in \<open>auto simp: buffer_push_def dest: buf split: if_splits\<close>)
next
  case (bs_wake header i payload h)
  from assms(2) bs_wake(3) obtain a k where a: "awaiters b i = Some a" "aw_continuation a = Some k"
    "aw_type a = messageType header"
    using inv by blast
  then have b': "b' = (set_awaiter i (a\<lparr>aw_message := Some \<lparr>msg_header = header, msg_payload = payload\<rparr>\<rparr>) b)
      \<lparr>pendingWaits := (pendingWaits b)(messageType header := None)\<rparr>"
    using bs_wake by (auto simp: deliver_def takeContinuationForMessage_def)
  show ?thesis unfolding b'
    by (rule bus_invI)
      (use a bs_wake(3) assms(2) in \<open>auto simp: set_awaiter_def waiter_ok_def data
         dest: inv buf split: if_splits\<close>)
next
  case (bs_data header payload r)
  then show ?thesis using assms(2) by (simp add: deliver_def)
next
  case bs_clear
  then show ?thesis by simp
next
  case (bs_cancel hs)
  then show ?thesis by (auto simp: cancelAll_def)
qed
qed

lemma bus_run_inv: "bus_run es b \<Longrightarrow> bus_inv b"
  by (induction rule: bus_run.induct) (auto intro: bus_inv_new bus_step_inv)

subsection \<open>Exactly once, in order\<close>

definition delivered_of :: "MessageType \<Rightarrow> bus_effect list \<Rightarrow> Message list" where
  "delivered_of t es = concat (map (\<lambda>e. case e of
     Delivered m \<Rightarrow> if messageType (msg_header m) = t then [m] else [] | _ \<Rightarrow> []) es)"

text \<open>What left the bus: handed to a waiter, or thrown away by \<open>clear\<close> and \<open>cancelAll\<close>.\<close>

definition left_of :: "MessageType \<Rightarrow> bus_effect list \<Rightarrow> Message list" where
  "left_of t es = concat (map (\<lambda>e. case e of
     Handed m \<Rightarrow> if messageType (msg_header m) = t then [m] else []
   | Discarded f \<Rightarrow> f t | _ \<Rightarrow> []) es)"

lemma traces_simps [simp]:
  "delivered_of t [] = []" "left_of t [] = []"
  "delivered_of t (es @ fs) = delivered_of t es @ delivered_of t fs"
  "left_of t (es @ fs) = left_of t es @ left_of t fs"
  "delivered_of t (Delivered m # es) =
     (if messageType (msg_header m) = t then [m] else []) @ delivered_of t es"
  "left_of t (Delivered m # es) = left_of t es"
  "delivered_of t (Handed m # es) = delivered_of t es"
  "left_of t (Handed m # es) = (if messageType (msg_header m) = t then [m] else []) @ left_of t es"
  "delivered_of t (Discarded f # es) = delivered_of t es"
  "left_of t (Discarded f # es) = f t @ left_of t es"
  "delivered_of t (Suspended i # es) = delivered_of t es" "left_of t (Suspended i # es) = left_of t es"
  "delivered_of t (Resumed i # es) = delivered_of t es" "left_of t (Resumed i # es) = left_of t es"
  by (simp_all add: delivered_of_def left_of_def)

lemma traces_resumed [simp]:
  "delivered_of t (map Resumed is) = []" "left_of t (map Resumed is) = []"
  by (induction "is") auto

lemma bus_step_fifo:
  assumes "bus_step b es b'" and "bus_inv b"
  shows "bufferedMessages b t @ delivered_of t es = left_of t es @ bufferedMessages b' t"
proof -
  note inv = bus_pendingD [OF assms(2)] and buf = bus_bufferedD [OF assms(2)]
  from assms(1) show ?thesis
  proof cases
    case (bs_ready i a)
    with buf [of "hd (bufferedMessages b (aw_type a))" "aw_type a"] show ?thesis
      by (auto simp: await_ready_def tryTakeBufferedMessage_def set_awaiter_def split: list.splits)
  next
    case (bs_no_suspend i a h)
    with buf [of "hd (bufferedMessages b (aw_type a))" "aw_type a"] show ?thesis
      by (auto simp: await_suspend_def tryTakeBufferedMessage_def set_awaiter_def Let_def
          split: list.splits)
  next
    case (bs_wake header i payload h)
    with inv [of "messageType header" i] show ?thesis
      by (auto simp: deliver_def takeContinuationForMessage_def set_awaiter_def)
  next
    case (bs_cancel hs)
    then show ?thesis by (auto simp: cancelAll_def bus_clear_def)
  qed (auto simp: bus_ops Let_def split: option.splits list.splits if_splits)
qed


definition fin_message :: Message where
  "fin_message = \<lparr>msg_header = control_header TEST_FIN [], msg_payload = []\<rparr>"

lemma fin_message_type [simp]: "messageType (msg_header fin_message) = TEST_FIN"
  by (simp add: fin_message_def control_header_def)


text \<open>Addresses registered as waiting; types are distinct keys, so no address appears twice.\<close>

definition is_pending :: "MessageBus \<Rightarrow> nat \<Rightarrow> bool" where
  "is_pending b i = (case awaiters b i of None \<Rightarrow> False | Some a \<Rightarrow> pendingWaits b (aw_type a) = Some i)"

definition resumed_count :: "nat \<Rightarrow> bus_effect list \<Rightarrow> nat" where
  "resumed_count i es = length (filter (\<lambda>e. e = Resumed i) es)"

definition suspended_count :: "nat \<Rightarrow> bus_effect list \<Rightarrow> nat" where
  "suspended_count i es = length (filter (\<lambda>e. e = Suspended i) es)"

lemma is_pendingI: "bus_inv b \<Longrightarrow> pendingWaits b t = Some i \<Longrightarrow> is_pending b i"
  using bus_pendingD [of b t i] by (auto simp: is_pending_def)

lemma distinct_all_types: "distinct all_types"
proof -
  have "inj_on (\<lambda>n. type_of_byte (word_of_nat n)) {0..<256}"
  proof (rule inj_onI)
    fix m n :: nat
    assume mn: "m \<in> {0..<256}" "n \<in> {0..<256}"
      and "type_of_byte (word_of_nat m) = type_of_byte (word_of_nat n)"
    then have "(word_of_nat m :: 8 word) = word_of_nat n" by (metis byte_of_type_of_byte)
    with mn show "m = n" by (simp add: word_unat_eq_iff unat_of_nat)
  qed
  then show ?thesis by (simp add: all_types_def distinct_map)
qed

lemma pending_count:
  assumes "bus_inv b"
  shows "count_list (pending_awaiters b) i \<le> (if is_pending b i then 1 else 0)"
proof -
  have "count_list (List.map_filter (pendingWaits b) ts) i \<le>
      length (filter (\<lambda>t. pendingWaits b t = Some i) ts)" for ts
    by (induction ts) (auto simp: map_filter_simps split: option.splits)
  moreover have "length (filter (\<lambda>t. pendingWaits b t = Some i) ts) \<le> (if is_pending b i then 1 else 0)"
    if "distinct ts" for ts
    using that
  proof (induction ts)
    case (Cons t ts)
    show ?case
    proof (cases "pendingWaits b t = Some i")
      case True
      have "filter (\<lambda>t. pendingWaits b t = Some i) ts = []"
        using Cons.prems bus_pendingD [OF assms True] bus_pendingD [OF assms, of _ i]
        by (fastforce simp: filter_empty_conv)
      then show ?thesis using True is_pendingI [OF assms True] by simp
    next
      case False
      then show ?thesis using Cons by simp
    qed
  qed simp
  ultimately show ?thesis
    unfolding pending_awaiters_def using distinct_all_types le_trans by blast
qed

lemma resumed_count_simps [simp]:
  "resumed_count i [] = 0" "suspended_count i [] = 0"
  "resumed_count i (es @ fs) = resumed_count i es + resumed_count i fs"
  "suspended_count i (es @ fs) = suspended_count i es + suspended_count i fs"
  "resumed_count i (e # es) = (if e = Resumed i then 1 else 0) + resumed_count i es"
  "suspended_count i (e # es) = (if e = Suspended i then 1 else 0) + suspended_count i es"
  "resumed_count i (map Resumed is) = count_list is i"
  "suspended_count i (map Resumed is) = 0"
proof -
  show "resumed_count i (map Resumed is) = count_list is i"
    by (induction "is") (auto simp: resumed_count_def)
  show "suspended_count i (map Resumed is) = 0"
    by (induction "is") (auto simp: suspended_count_def)
qed (simp_all add: resumed_count_def suspended_count_def)

lemma bus_step_count:
  assumes "bus_step b es b'" and "bus_inv b"
  shows "resumed_count i es + (if is_pending b' i then 1 else 0) \<le>
    suspended_count i es + (if is_pending b i then 1 else (0 :: nat))"
  using assms(1)
proof cases
  case (bs_cancel hs)
  then have "\<not> is_pending b' i"
    by (auto simp: cancelAll_def bus_clear_def is_pending_def split: option.splits)
  then show ?thesis using bs_cancel pending_count [OF assms(2), of i] by simp
next
  case (bs_wait j t tmo)
  have "pendingWaits b u \<noteq> Some j" for u
    using bus_pendingD [OF assms(2), of u j] bs_wait by auto
  then show ?thesis using bs_wait
    by (auto simp: is_pending_def bus_ops Let_def split: option.splits)
next
  case (bs_suspend j a h)
  have "pendingWaits b t \<noteq> Some j" for t
    using bus_pendingD [OF assms(2), of t j] bs_suspend by auto
  then show ?thesis using bs_suspend
    by (auto simp: is_pending_def bus_ops Let_def split: option.splits list.splits if_splits)
next
  case (bs_wake header j payload h)
  with bus_pendingD [OF assms(2), of "messageType header" j] show ?thesis
    by (auto simp: is_pending_def bus_ops Let_def split: option.splits if_splits)
qed (auto simp: is_pending_def bus_ops Let_def split: option.splits list.splits if_splits)

text \<open>
  C13: a suspension on the bus is resumed at most once: the message, the timer and a cancellation
  exclude each other. An awaiter still registered has not been resumed since it was suspended.
\<close>

theorem resumed_at_most_once:
  assumes "bus_run es b"
  shows "resumed_count i es + (if is_pending b i then 1 else 0) \<le> suspended_count i es"
  using assms
proof induction
  case br_start
  then show ?case by (simp add: new_MessageBus_def is_pending_def)
next
  case (br_step es b fs b')
  then show ?case
    using bus_step_count [OF br_step.hyps(2) bus_run_inv [OF br_step.hyps(1)], of i] by simp
qed

theorem resumed_at_most_once_witness:
  "resumed_count 0 [Suspended 0] +
     (if is_pending (snd (await_suspend 7 0 (waitFor 0 TEST_FIN 5000 new_MessageBus))) 0
      then 1 else 0) \<le> suspended_count 0 [Suspended 0] \<and>
   is_pending (snd (await_suspend 7 0 (waitFor 0 TEST_FIN 5000 new_MessageBus))) 0"
proof -
  let ?b = "waitFor 0 TEST_FIN 5000 new_MessageBus"
  have "bus_run [] ?b"
    using br_step [OF br_start bs_wait [of new_MessageBus 0 TEST_FIN 5000]]
    by (simp add: new_MessageBus_def)
  moreover have "await_suspend 7 0 ?b = (True, snd (await_suspend 7 0 ?b))"
    by (simp add: bus_ops new_MessageBus_def Let_def)
  then have "bus_step ?b [Suspended 0] (snd (await_suspend 7 0 ?b))"
    by (intro bs_suspend [of ?b 0 "the (awaiters ?b 0)" 7])
      (simp_all add: waitFor_def set_awaiter_def)
  ultimately have "bus_run [Suspended 0] (snd (await_suspend 7 0 ?b))"
    using br_step by fastforce
  from resumed_at_most_once [OF this, of 0] show ?thesis
    by (simp add: is_pending_def bus_ops new_MessageBus_def Let_def)
qed

end
