(* ===== verification/Receiver.thy ===== *)
theory Receiver
  imports Generator MessageBus
begin

section \<open>The receive loop and the dispatcher\<close>

text \<open>
  \<open>MyIperf/src/myiperf/PacketReceiver.cpp\<close> and \<open>PacketDispatcher.cpp\<close>. Delivering a control packet
  resumes the session inside of \<open>dispatch\<close>, and the session may touch the receiver: so \<open>dispatch\<close>
  and the receive step work on the state \<open>'s\<close> of a whole node, with the accessors of its receiver
  and the \<open>deliver\<close> of its bus as arguments. The main fact puts generator, parser, dispatcher and
  statistics together: \<open>receive_data_stream\<close>.
\<close>

record PacketReceiver =
  rcv_running :: bool
  rcv_parser :: PacketStreamParser
  rcv_stats :: ReceiveStats
  rcv_dispatcher :: bool

definition RECEIVE_BUFFER_SIZE :: nat where
  "RECEIVE_BUFFER_SIZE = 65536"

definition new_PacketReceiver :: "time_point \<Rightarrow> PacketReceiver" where
  "new_PacketReceiver now =
     \<lparr>rcv_running = False, rcv_parser = new_PacketStreamParser (RECEIVE_BUFFER_SIZE * 2),
      rcv_stats = rs_reset now, rcv_dispatcher = False\<rparr>"

text \<open>True: the receive coroutine is started, and asks the network for bytes.\<close>

definition receiver_start :: "time_point \<Rightarrow> PacketReceiver \<Rightarrow> bool \<times> PacketReceiver" where
  "receiver_start now r =
     (if rcv_running r then (False, r)
      else (True, r\<lparr>rcv_parser := parser_reset (rcv_parser r), rcv_stats := rs_reset now,
                     rcv_dispatcher := True, rcv_running := True\<rparr>))"

definition receiver_stop :: "PacketReceiver \<Rightarrow> PacketReceiver" where
  "receiver_stop r = r\<lparr>rcv_running := False\<rparr>"

definition receiver_getStats :: "PacketReceiver \<Rightarrow> TestStats" where
  "receiver_getStats r = rs_snapshot (rcv_stats r)"

definition receiver_resetStats :: "time_point \<Rightarrow> PacketReceiver \<Rightarrow> PacketReceiver" where
  "receiver_resetStats now r = r\<lparr>rcv_stats := rs_reset now\<rparr>"

definition receiver_onDataPacket :: "time_point \<Rightarrow> ParsedPacket \<Rightarrow> PacketReceiver \<Rightarrow> PacketReceiver" where
  "receiver_onDataPacket now p r = r\<lparr>rcv_stats := onDataPacket now p (rcv_stats r)\<rparr>"

type_synonym 's deliverer = "PacketHeader \<Rightarrow> bytes \<Rightarrow> 's \<Rightarrow> 's"
type_synonym 's receiver_upd = "(PacketReceiver \<Rightarrow> PacketReceiver) \<Rightarrow> 's \<Rightarrow> 's"

definition dispatch_one ::
  "'s receiver_upd \<Rightarrow> 's deliverer \<Rightarrow> time_point \<Rightarrow> ParsedPacket \<Rightarrow> 's \<Rightarrow> 's" where
  "dispatch_one upd deliv now packet s =
     (if messageType (pkt_header packet) = DATA_PACKET
      then upd (receiver_onDataPacket now packet) s
      else deliv (pkt_header packet) (pkt_payload packet) s)"

definition dispatch ::
  "'s receiver_upd \<Rightarrow> 's deliverer \<Rightarrow> time_point \<Rightarrow> ParsedPacket list \<Rightarrow> 's \<Rightarrow> 's" where
  "dispatch upd deliv now packets s = fold (dispatch_one upd deliv now) packets s"

text \<open>
  One round of \<open>receiverLoop\<close>, from the completion of a receive to the next one: \<open>n\<close> bytes of
  \<open>data\<close> have arrived, none when the peer has closed. True: the loop goes on and receives again.
\<close>

definition receiver_round ::
  "('s \<Rightarrow> PacketReceiver) \<Rightarrow> 's receiver_upd \<Rightarrow> 's deliverer \<Rightarrow> time_point \<Rightarrow> bytes \<Rightarrow> nat \<Rightarrow> 's \<Rightarrow>
   bool \<times> 's" where
  "receiver_round get upd deliv now data n s =
     (let s = (if n = 0 then s
               else upd (\<lambda>r. r\<lparr>rcv_parser := parser_append data n (rcv_parser r)\<rparr>) s);
          (res, parser') = drainPackets (rcv_parser (get s));
          s = upd (\<lambda>r. r\<lparr>rcv_parser := parser'\<rparr>) s;
          s = upd (\<lambda>r. r\<lparr>rcv_stats :=
                 (onChecksumFailure ^^ res_checksumFailures res) (rcv_stats r)\<rparr>) s;
          s = (if rcv_dispatcher (get s) then dispatch upd deliv now (res_packets res) s else s)
      in if n = 0 then (False, upd receiver_stop s) else (rcv_running (get s), s))"

text \<open>A receiver with a bus that only collects what is delivered.\<close>

type_synonym collecting = "PacketReceiver \<times> Message list"

definition collect_upd :: "collecting receiver_upd" where
  "collect_upd f s = (f (fst s), snd s)"

definition collect_deliver :: "collecting deliverer" where
  "collect_deliver h d s = (fst s, snd s @ [\<lparr>msg_header = h, msg_payload = d\<rparr>])"

fun receive_chunks :: "(time_point \<times> bytes) list \<Rightarrow> collecting \<Rightarrow> collecting" where
  "receive_chunks [] s = s"
| "receive_chunks ((now, c) # cs) s =
     receive_chunks cs (snd (receiver_round fst collect_upd collect_deliver now c (length c) s))"

subsection \<open>From the generator to the statistics\<close>

text \<open>What the statistics and the bus see of a list of packets.\<close>

definition data_packets :: "ParsedPacket list \<Rightarrow> ParsedPacket list" where
  "data_packets ps = filter (\<lambda>p. messageType (pkt_header p) = DATA_PACKET) ps"

definition control_messages :: "ParsedPacket list \<Rightarrow> Message list" where
  "control_messages ps = map (\<lambda>p. \<lparr>msg_header = pkt_header p, msg_payload = pkt_payload p\<rparr>)
     (filter (\<lambda>p. messageType (pkt_header p) \<noteq> DATA_PACKET) ps)"

lemma dispatch_collect:
  "dispatch collect_upd collect_deliver now ps (r, ms) =
     (r\<lparr>rcv_stats := on_packets (map (\<lambda>p. (now, p)) (data_packets ps)) (rcv_stats r)\<rparr>,
      ms @ control_messages ps)"
  by (induction ps arbitrary: r ms)
    (auto simp: dispatch_def dispatch_one_def collect_upd_def collect_deliver_def
      receiver_onDataPacket_def data_packets_def control_messages_def)

lemma round_collect:
  assumes "rcv_dispatcher r"
    and "drainPackets (if c = [] then rcv_parser r else parser_append c (length c) (rcv_parser r)) =
      (\<lparr>res_packets = ps, res_checksumFailures = 0\<rparr>, p')"
  shows "snd (receiver_round fst collect_upd collect_deliver now c (length c) (r, ms)) =
     (r\<lparr>rcv_parser := p', rcv_running := rcv_running r \<and> c \<noteq> [],
        rcv_stats := on_packets (map (\<lambda>p. (now, p)) (data_packets ps)) (rcv_stats r)\<rparr>,
      ms @ control_messages ps)"
  using assms
  by (auto simp: receiver_round_def collect_upd_def dispatch_collect
      receiver_stop_def Let_def split: prod.splits if_splits)

lemma packets_append [simp]:
  "data_packets (ps @ qs) = data_packets ps @ data_packets qs"
  "control_messages (ps @ qs) = control_messages ps @ control_messages qs"
  by (simp_all add: data_packets_def control_messages_def)

lemma data_packets_map:
  "data_packets (map parsed ps) =
     map parsed (filter (\<lambda>p. messageType (pkt_header (parsed p)) = DATA_PACKET) ps)"
  by (simp add: data_packets_def filter_map o_def)

lemma receive_chunks_feed:
  assumes "rcv_dispatcher r" "rcv_running r" "\<forall>(t, c) \<in> set cs. c \<noteq> []"
    and "feed (map snd cs) (rcv_parser r) = (ps, 0, p')"
  shows "\<exists>ts. map snd ts = data_packets ps \<and>
    receive_chunks cs (r, ms) =
      (r\<lparr>rcv_parser := p', rcv_stats := on_packets ts (rcv_stats r)\<rparr>, ms @ control_messages ps)"
  using assms
proof (induction cs arbitrary: r ms ps)
  case Nil
  then show ?case by (intro exI [of _ "[]"]) (simp add: data_packets_def control_messages_def)
next
  case (Cons tc cs)
  obtain t c where tc: "tc = (t, c)" by (cases tc)
  obtain qs f q where first: "drainPackets (parser_append c (length c) (rcv_parser r)) =
      (\<lparr>res_packets = qs, res_checksumFailures = f\<rparr>, q)"
    by (metis PacketParseResult.cases prod.exhaust)
  obtain rs g where rest: "feed (map snd cs) q = (rs, g, p')" and ps: "ps = qs @ rs" and "f + g = 0"
    using Cons.prems(4) tc first by (auto split: prod.splits)
  then have "f = 0" "g = 0" by simp_all
  let ?r = "r\<lparr>rcv_parser := q, rcv_stats := on_packets (map (\<lambda>p. (t, p)) (data_packets qs)) (rcv_stats r)\<rparr>"
  have step: "snd (receiver_round fst collect_upd collect_deliver t c (length c) (r, ms)) =
      (?r, ms @ control_messages qs)"
    using round_collect [of r c qs q t ms] Cons.prems(1,2,3) tc first \<open>f = 0\<close> by simp
  have "\<exists>ts. map snd ts = data_packets rs \<and>
      receive_chunks cs (?r, ms @ control_messages qs) =
        (?r\<lparr>rcv_parser := p', rcv_stats := on_packets ts (rcv_stats ?r)\<rparr>,
         (ms @ control_messages qs) @ control_messages rs)"
    using Cons.prems(1-3) rest \<open>g = 0\<close> by (intro Cons.IH) auto
  then obtain ts where ts: "map snd ts = data_packets rs"
    "receive_chunks cs (?r, ms @ control_messages qs) =
        (?r\<lparr>rcv_parser := p', rcv_stats := on_packets ts (rcv_stats ?r)\<rparr>,
         (ms @ control_messages qs) @ control_messages rs)" by blast
  then show ?case using tc step ps
    by (intro exI [of _ "map (\<lambda>p. (t, p)) (data_packets qs) @ ts"])
      (simp add: on_packets_append o_def)
qed

text \<open>A started receiver with statistics reset at \<open>t0\<close>.\<close>

definition fresh_receiver :: "time_point \<Rightarrow> PacketReceiver" where
  "fresh_receiver t0 = snd (receiver_start t0 (new_PacketReceiver t0))"

lemma fresh_receiver_fields [simp]:
  "rcv_running (fresh_receiver t0)" "rcv_dispatcher (fresh_receiver t0)"
  "rcv_stats (fresh_receiver t0) = rs_reset t0"
  "rcv_parser (fresh_receiver t0) = new_PacketStreamParser 131072"
  by (simp_all add: fresh_receiver_def receiver_start_def new_PacketReceiver_def parser_reset_def
      new_PacketStreamParser_def RECEIVE_BUFFER_SIZE_def)

text \<open>The stream of one phase: the generated packets, then TEST_FIN.\<close>

definition phase_packets :: "Config \<Rightarrow> nat \<Rightarrow> (PacketHeader \<times> bytes) list" where
  "phase_packets cfg n = map (generated cfg) [0..<n] @ [(control_header TEST_FIN [], [])]"

lemma phase_packets_wf:
  assumes "sendable maxP cfg"
  shows "\<forall>(h, d) \<in> set (phase_packets cfg n). packet_wf maxP h d"
  using generated_wf [OF assms] control_packet_wf [of TEST_FIN "[]" maxP] assms
  by (auto simp: phase_packets_def sendable_def)

lemma phase_packets_parsed:
  assumes "sendable maxP cfg"
  shows "data_packets (map parsed (phase_packets cfg n)) = map (\<lambda>i. parsed (generated cfg i)) [0..<n]"
    and "control_messages (map parsed (phase_packets cfg n)) = [fin_message]"
proof -
  have "parsed (control_header TEST_FIN [], []) =
      \<lparr>pkt_header = control_header TEST_FIN [], pkt_payload = [], pkt_totalPacketSize = 17\<rparr>"
    by (simp add: parsed_def sizeof_PacketHeader_def)
  then show "data_packets (map parsed (phase_packets cfg n)) = map (\<lambda>i. parsed (generated cfg i)) [0..<n]"
    "control_messages (map parsed (phase_packets cfg n)) = [fin_message]"
    using generated_content(3) [OF assms]
    by (simp_all add: data_packets_def control_messages_def phase_packets_def filter_map o_def
        fin_message_def control_header_def filter_id_conv)
qed

lemma stats_of_generated:
  assumes "sendable maxP cfg" "map snd ts = map (\<lambda>i. parsed (generated cfg i)) [0..<n]"
  shows "let s = rs_snapshot (on_packets ts (rs_reset t0)) in
    totalPacketsReceived s = int n \<and> totalBytesReceived s = int n * packetSize cfg \<and>
    sequenceErrorCount s = 0 \<and> contentMismatchCount s = 0 \<and> failedChecksumCount s = 0"
proof -
  have n: "length ts = n" using arg_cong [OF assms(2), of length] by simp
  have "counters ts = map (\<lambda>p. packetCounter (pkt_header p)) (map snd ts)"
    by (simp add: counters_def case_prod_unfold)
  then have "counters ts = map word_of_nat [0..<length ts]"
    using assms n generated_content(2) [OF assms(1)] by simp
  moreover have "sum_list (map (\<lambda>(t, p). pkt_totalPacketSize p) ts) = n * nat (packetSize cfg)"
  proof -
    have "map (\<lambda>(t, p). pkt_totalPacketSize p) ts = map pkt_totalPacketSize (map snd ts)"
      by (simp add: case_prod_unfold)
    then show ?thesis using assms generated_content(4) [OF assms(1)]
      by (simp add: o_def sum_list_triv)
  qed
  moreover have "filter (\<lambda>(t, p). content_mismatch p) ts = []"
  proof -
    have "\<not> content_mismatch p" if "p \<in> set (map snd ts)" for p
      using that generated_content(1) [OF assms(1)] unfolding assms(2) by auto
    then show ?thesis by (force simp: filter_empty_conv)
  qed
  ultimately show ?thesis using assms(1) n
    by (simp add: on_packets_packets on_packets_bytes on_packets_mismatches on_packets_sequence
        seq_breaks_0_iff sendable_def Let_def)
qed

text \<open>
  C7: whatever the sizes in which TCP delivers the stream of a phase, the receiver counts exactly
  the packets and bytes that were generated, with no checksum, sequence or content error, and hands
  the bus one TEST_FIN after them.
\<close>

theorem receive_data_stream:
  assumes "sendable 131072 cfg" and "\<forall>(t, c) \<in> set cs. c \<noteq> []"
    and "concat (map snd cs) = stream_of (phase_packets cfg n)"
  shows "\<exists>r. receive_chunks cs (fresh_receiver t0, []) = (r, [fin_message]) \<and>
    totalPacketsReceived (receiver_getStats r) = int n \<and>
    totalBytesReceived (receiver_getStats r) = int n * packetSize cfg \<and>
    sequenceErrorCount (receiver_getStats r) = 0 \<and>
    contentMismatchCount (receiver_getStats r) = 0 \<and>
    failedChecksumCount (receiver_getStats r) = 0"
proof -
  let ?ps = "map parsed (phase_packets cfg n)"
  obtain p' where p': "feed (map snd cs) (new_PacketStreamParser 131072) = (?ps, 0, p')"
    using parser_recovers_stream_lemma [OF phase_packets_wf [OF assms(1)] assms(3)] by blast
  then obtain ts where ts: "map snd ts = data_packets ?ps"
    "receive_chunks cs (fresh_receiver t0, []) =
      ((fresh_receiver t0)\<lparr>rcv_parser := p', rcv_stats := on_packets ts (rs_reset t0)\<rparr>,
       [] @ control_messages ?ps)"
    using receive_chunks_feed [of "fresh_receiver t0" cs ?ps p' "[]"] assms(2) by auto
  have "map snd ts = map (\<lambda>i. parsed (generated cfg i)) [0..<n]"
    using ts(1) phase_packets_parsed(1) [OF assms(1)] by simp
  from stats_of_generated [OF assms(1) this, of t0] ts(2) phase_packets_parsed(2) [OF assms(1)]
  show ?thesis by (simp add: receiver_getStats_def Let_def)
qed

theorem receive_data_stream_witness:
  "\<exists>r. receive_chunks [(1, stream_of (phase_packets default_Config 2))] (fresh_receiver 0, []) =
      (r, [fin_message]) \<and>
    totalPacketsReceived (receiver_getStats r) = 2 \<and>
    totalBytesReceived (receiver_getStats r) = 2048"
proof -
  have "sendable 131072 default_Config"
    by (simp add: sendable_def default_Config_def sizeof_PacketHeader_def)
  moreover have "stream_of (phase_packets default_Config 2) \<noteq> []"
    by (simp add: phase_packets_def encode_header_def)
  ultimately show ?thesis
    using receive_data_stream [of default_Config "[(1, stream_of (phase_packets default_Config 2))]" 2 0]
    by (auto simp: default_Config_def)
qed

end
