(* ===== verification/Session.thy ===== *)
theory Session
  imports Receiver
begin

section \<open>The client and server sessions\<close>

text \<open>
  \<open>MyIperf/src/myiperf/ClientTestSession.cpp\<close>, \<open>ServerTestSession.cpp\<close>, \<open>ControlChannel.cpp\<close> and
  \<open>TestController::runTestCoroutine\<close>. A node holds what a \<open>TestController\<close> shares with its session:
  configuration, generator, receiver, bus, the statistics of both phases. A session is a coroutine:
  it runs until it waits for the network, for a message on the bus or for a delay (\<open>nd_wait\<close>), and
  \<open>nd_point\<close> says where it continues. One definition is the code between two suspension points; they
  stand in reverse order since each ends with the next wait. Everything a node does happens on the
  network backend's event thread, except timers; one definition runs without interruption. Within
  one step the clock shows one value, \<open>now\<close>.
\<close>

datatype CtlState =
    IDLE | INITIALIZING | CONNECTING | SENDING_CONFIG | WAITING_FOR_ACK | ACCEPTING
  | WAITING_FOR_CONFIG | RUNNING_TEST | FINISHING | EXCHANGING_STATS | WAITING_FOR_CLIENT_READY
  | RUNNING_SERVER_TEST | WAITING_FOR_SERVER_FIN | SERVER_TEST_FINISHING | EXCHANGING_SERVER_STATS
  | WAITING_FOR_SHUTDOWN_ACK | FINISHED | ERRORED

datatype session_point =
    C_Connected | C_ConfigSent | C_GotConfigAck | C_Generating | C_Fin1Sent | C_GotFin1
  | C_Stats1Sent | C_GotStatsAck1 | C_ReadySent | C_GotFin2 | C_Stats2Sent | C_GotStatsAck2
  | C_ShutdownSent
  | S_Accepted | S_GotConfig | S_ConfigAckSent | S_GotFin1 | S_Fin1Sent | S_GotStats1
  | S_StatsAck1Sent | S_GotReady | S_Generating | S_Fin2Sent | S_GotStats2 | S_StatsAck2Sent
  | S_GotShutdown

datatype session_wait =
    W_Idle
  | W_Connect string int
  | W_Accept
  | W_Send bytes
  | W_Message MessageType
  | W_Delay int
  | W_Done "string option"

record Node =
  nd_state :: CtlState
  nd_config :: Config
  nd_generator :: Generator
  nd_receiver :: PacketReceiver
  nd_receiving :: bool
  nd_bus :: MessageBus
  nd_awaiter :: nat
  nd_clientStatsPhase1 :: TestStats
  nd_serverStatsPhase1 :: TestStats
  nd_clientStatsPhase2 :: TestStats
  nd_serverStatsPhase2 :: TestStats
  nd_phases :: "nat list"
  nd_wait :: session_wait
  nd_point :: session_point

definition transitionTo :: "CtlState \<Rightarrow> Node \<Rightarrow> Node" where
  "transitionTo s nd = nd\<lparr>nd_state := s\<rparr>"

definition notifyPhaseComplete :: "nat \<Rightarrow> Node \<Rightarrow> Node" where
  "notifyPhaseComplete k nd = nd\<lparr>nd_phases := nd_phases nd @ [k]\<rparr>"

text \<open>The end of \<open>runTestCoroutine\<close>: with the text of an exception that left the session, or none.\<close>

definition session_throw :: "exn \<Rightarrow> Node \<Rightarrow> Node" where
  "session_throw e nd = (transitionTo ERRORED nd)\<lparr>nd_wait := W_Done (Some (exn_what e))\<rparr>"

definition session_end :: "Node \<Rightarrow> Node" where
  "session_end nd = (transitionTo FINISHED nd)\<lparr>nd_wait := W_Done None\<rparr>"

definition session_fail :: "string \<Rightarrow> Node \<Rightarrow> Node" where
  "session_fail msg nd = session_throw (Runtime_error msg) (transitionTo ERRORED nd)"

definition await_point :: "session_wait \<Rightarrow> session_point \<Rightarrow> Node \<Rightarrow> Node" where
  "await_point w pt nd = nd\<lparr>nd_wait := w, nd_point := pt\<rparr>"

text \<open>\<open>ControlChannel::send\<close>.\<close>

definition control_send :: "MessageType \<Rightarrow> bytes \<Rightarrow> session_point \<Rightarrow> Node \<Rightarrow> Node" where
  "control_send t payload pt nd = await_point (W_Send (sendControlPacket t payload)) pt nd"

text \<open>
  \<open>co_await control.waitFor(t, timeoutMs)\<close>, followed by \<open>k\<close>: a fresh awaiter, then its \<open>await_ready\<close>,
  \<open>await_suspend\<close> and \<open>await_resume\<close>. The session is the only coroutine on the bus; its handle is 0.
\<close>

definition control_wait ::
  "MessageType \<Rightarrow> int \<Rightarrow> session_point \<Rightarrow> (Message \<Rightarrow> Node \<Rightarrow> Node) \<Rightarrow> Node \<Rightarrow> Node" where
  "control_wait t timeoutMs pt k nd =
     (let i = Suc (nd_awaiter nd);
          resumed = (\<lambda>b. case awaiters b i of
              None \<Rightarrow> nd
            | Some a \<Rightarrow>
                let nd = nd\<lparr>nd_awaiter := i, nd_bus := destroy_awaiter i b\<rparr> in
                case await_resume a of Inl e \<Rightarrow> session_throw e nd | Inr m \<Rightarrow> k m nd)
      in case await_ready i (waitFor i t timeoutMs (nd_bus nd)) of
           (True, b) \<Rightarrow> resumed b
         | (False, b) \<Rightarrow>
             (case await_suspend 0 i b of
                (True, b) \<Rightarrow> await_point (W_Message t) pt (nd\<lparr>nd_awaiter := i, nd_bus := b\<rparr>)
              | (False, b) \<Rightarrow> resumed b))"

definition DEFAULT_TIMEOUT :: int where
  "DEFAULT_TIMEOUT = 5000"

text \<open>A parse that throws ends the session; otherwise the value is stored.\<close>

definition store_stats ::
  "TestStats res \<Rightarrow> (TestStats \<Rightarrow> Node \<Rightarrow> Node) \<Rightarrow> (Node \<Rightarrow> Node) \<Rightarrow> Node \<Rightarrow> Node" where
  "store_stats r store k nd =
     (case r of Inl e \<Rightarrow> session_throw e nd | Inr s \<Rightarrow> k (store s nd))"

text \<open>Where the generator's coroutine stands decides what the session waits for.\<close>

definition generate ::
  "session_point \<Rightarrow> (Node \<Rightarrow> Node) \<Rightarrow> gen_wait \<times> Generator \<Rightarrow> Node \<Rightarrow> Node" where
  "generate pt k wg nd =
     (case wg of (w, g) \<Rightarrow>
        let nd = nd\<lparr>nd_generator := g\<rparr> in
        case w of
          AwaitSend p \<Rightarrow> await_point (W_Send p) pt nd
        | AwaitDelay d \<Rightarrow> await_point (W_Delay d) pt nd
        | GenFinished \<Rightarrow> k nd)"

subsection \<open>Client\<close>

definition client_shutdown_sent :: "Node \<Rightarrow> Node" where
  "client_shutdown_sent nd = session_end nd"

definition client_got_ack2 :: "json_parser \<Rightarrow> Message \<Rightarrow> Node \<Rightarrow> Node" where
  "client_got_ack2 parse m nd =
     store_stats (parseStatsPayload parse (msg_payload m)) (\<lambda>s nd. nd\<lparr>nd_serverStatsPhase2 := s\<rparr>)
       (\<lambda>nd. control_send SHUTDOWN_ACK [] C_ShutdownSent (notifyPhaseComplete 2 nd)) nd"

definition client_stats2_sent :: "json_parser \<Rightarrow> Node \<Rightarrow> Node" where
  "client_stats2_sent parse nd =
     control_wait STATS_ACK DEFAULT_TIMEOUT C_GotStatsAck2 (client_got_ack2 parse) nd"

definition client_got_fin2 :: "json_printer \<Rightarrow> Message \<Rightarrow> Node \<Rightarrow> Node" where
  "client_got_fin2 dump m nd =
     (let nd = transitionTo EXCHANGING_SERVER_STATS nd;
          nd = nd\<lparr>nd_clientStatsPhase2 := receiver_getStats (nd_receiver nd)\<rparr>
      in control_send STATS_EXCHANGE (statsToPayload dump (nd_clientStatsPhase2 nd)) C_Stats2Sent nd)"

definition client_ready_sent :: "json_printer \<Rightarrow> time_point \<Rightarrow> Node \<Rightarrow> Node" where
  "client_ready_sent dump now nd =
     (let nd = transitionTo WAITING_FOR_SERVER_FIN nd;
          nd = nd\<lparr>nd_receiver := receiver_resetStats now (nd_receiver nd)\<rparr>
      in control_wait TEST_FIN DEFAULT_TIMEOUT C_GotFin2 (client_got_fin2 dump) nd)"

definition client_got_ack1 :: "json_parser \<Rightarrow> Message \<Rightarrow> Node \<Rightarrow> Node" where
  "client_got_ack1 parse m nd =
     store_stats (parseStatsPayload parse (msg_payload m)) (\<lambda>s nd. nd\<lparr>nd_serverStatsPhase1 := s\<rparr>)
       (\<lambda>nd. let nd = nd\<lparr>nd_clientStatsPhase1 := gen_lastStats (nd_generator nd)\<rparr>
             in control_send CLIENT_READY [] C_ReadySent (notifyPhaseComplete 1 nd)) nd"

definition client_stats1_sent :: "json_parser \<Rightarrow> Node \<Rightarrow> Node" where
  "client_stats1_sent parse nd =
     control_wait STATS_ACK DEFAULT_TIMEOUT C_GotStatsAck1 (client_got_ack1 parse) nd"

definition client_got_fin1 :: "json_printer \<Rightarrow> Message \<Rightarrow> Node \<Rightarrow> Node" where
  "client_got_fin1 dump m nd =
     (let clientStats = gen_getStats (nd_generator nd);
          nd = nd\<lparr>nd_generator := saveLastStats clientStats (nd_generator nd)\<rparr>
      in control_send STATS_EXCHANGE (statsToPayload dump clientStats) C_Stats1Sent nd)"

definition client_fin1_sent :: "json_printer \<Rightarrow> Node \<Rightarrow> Node" where
  "client_fin1_sent dump nd =
     control_wait TEST_FIN DEFAULT_TIMEOUT C_GotFin1 (client_got_fin1 dump)
       (transitionTo EXCHANGING_STATS nd)"

definition client_generated :: "Node \<Rightarrow> Node" where
  "client_generated nd = control_send TEST_FIN [] C_Fin1Sent (transitionTo FINISHING nd)"

definition client_got_config_ack :: "time_point \<Rightarrow> Message \<Rightarrow> Node \<Rightarrow> Node" where
  "client_got_config_ack now m nd =
     (let nd = transitionTo RUNNING_TEST nd
      in generate C_Generating client_generated
           (gen_start (nd_config nd) now (nd_generator nd)) nd)"

definition client_config_sent :: "time_point \<Rightarrow> Node \<Rightarrow> Node" where
  "client_config_sent now nd =
     control_wait CONFIG_ACK (handshakeTimeoutMs (nd_config nd)) C_GotConfigAck
       (client_got_config_ack now) (transitionTo WAITING_FOR_ACK nd)"

definition start_receiver :: "time_point \<Rightarrow> Node \<Rightarrow> Node" where
  "start_receiver now nd =
     (case receiver_start now (nd_receiver nd) of (started, r) \<Rightarrow>
        nd\<lparr>nd_receiver := r, nd_receiving := started \<or> nd_receiving nd\<rparr>)"

definition client_connected :: "json_printer \<Rightarrow> time_point \<Rightarrow> bool \<Rightarrow> Node \<Rightarrow> Node" where
  "client_connected dump now success nd =
     (if \<not> success then session_fail ''Error: Failed to connect to server'' nd
      else let nd = transitionTo SENDING_CONFIG (start_receiver now nd)
           in control_send CONFIG_HANDSHAKE (dump (Config_toJson (nd_config nd))) C_ConfigSent nd)"

definition client_run :: "bool \<Rightarrow> Node \<Rightarrow> Node" where
  "client_run initialized nd =
     (let nd = transitionTo CONNECTING nd
      in if \<not> initialized then session_fail ''Error: Client init failed'' nd
         else await_point (W_Connect (targetIP (nd_config nd)) (port (nd_config nd))) C_Connected nd)"

subsection \<open>Server\<close>

definition server_got_shutdown :: "Message \<Rightarrow> Node \<Rightarrow> Node" where
  "server_got_shutdown m nd = session_end nd"

definition server_ack2_sent :: "Node \<Rightarrow> Node" where
  "server_ack2_sent nd =
     control_wait SHUTDOWN_ACK DEFAULT_TIMEOUT S_GotShutdown server_got_shutdown nd"

definition server_got_stats2 :: "json_parser \<Rightarrow> json_printer \<Rightarrow> Message \<Rightarrow> Node \<Rightarrow> Node" where
  "server_got_stats2 parse dump m nd =
     store_stats (parseStatsPayload parse (msg_payload m)) (\<lambda>s nd. nd\<lparr>nd_clientStatsPhase2 := s\<rparr>)
       (\<lambda>nd. let nd = nd\<lparr>nd_serverStatsPhase2 := gen_getStats (nd_generator nd)\<rparr>;
                 nd = transitionTo WAITING_FOR_SHUTDOWN_ACK (notifyPhaseComplete 2 nd)
             in control_send STATS_ACK (statsToPayload dump (nd_serverStatsPhase2 nd))
                  S_StatsAck2Sent nd) nd"

definition server_fin2_sent :: "json_parser \<Rightarrow> json_printer \<Rightarrow> Node \<Rightarrow> Node" where
  "server_fin2_sent parse dump nd =
     control_wait STATS_EXCHANGE DEFAULT_TIMEOUT S_GotStats2 (server_got_stats2 parse dump) nd"

definition server_generated :: "Node \<Rightarrow> Node" where
  "server_generated nd = control_send TEST_FIN [] S_Fin2Sent (transitionTo SERVER_TEST_FINISHING nd)"

definition server_got_ready :: "time_point \<Rightarrow> Message \<Rightarrow> Node \<Rightarrow> Node" where
  "server_got_ready now m nd =
     (let nd = transitionTo RUNNING_SERVER_TEST nd;
          nd = nd\<lparr>nd_generator := gen_resetStats now (nd_generator nd)\<rparr>
      in generate S_Generating server_generated
           (gen_start (nd_config nd) now (nd_generator nd)) nd)"

definition server_ack1_sent :: "time_point \<Rightarrow> Node \<Rightarrow> Node" where
  "server_ack1_sent now nd =
     control_wait CLIENT_READY DEFAULT_TIMEOUT S_GotReady (server_got_ready now) nd"

definition server_got_stats1 :: "json_parser \<Rightarrow> json_printer \<Rightarrow> Message \<Rightarrow> Node \<Rightarrow> Node" where
  "server_got_stats1 parse dump m nd =
     store_stats (parseStatsPayload parse (msg_payload m)) (\<lambda>s nd. nd\<lparr>nd_clientStatsPhase1 := s\<rparr>)
       (\<lambda>nd. let nd = nd\<lparr>nd_serverStatsPhase1 := receiver_getStats (nd_receiver nd)\<rparr>;
                 nd = transitionTo WAITING_FOR_CLIENT_READY (notifyPhaseComplete 1 nd)
             in control_send STATS_ACK (statsToPayload dump (nd_serverStatsPhase1 nd))
                  S_StatsAck1Sent nd) nd"

definition server_fin1_sent :: "json_parser \<Rightarrow> json_printer \<Rightarrow> Node \<Rightarrow> Node" where
  "server_fin1_sent parse dump nd =
     control_wait STATS_EXCHANGE DEFAULT_TIMEOUT S_GotStats1 (server_got_stats1 parse dump) nd"

definition server_got_fin1 :: "Message \<Rightarrow> Node \<Rightarrow> Node" where
  "server_got_fin1 m nd = control_send TEST_FIN [] S_Fin1Sent (transitionTo FINISHING nd)"

definition server_config_ack_sent :: "time_point \<Rightarrow> Node \<Rightarrow> Node" where
  "server_config_ack_sent now nd =
     (let nd = transitionTo RUNNING_TEST nd;
          nd = nd\<lparr>nd_receiver := receiver_resetStats now (nd_receiver nd)\<rparr>
      in control_wait TEST_FIN DEFAULT_TIMEOUT S_GotFin1 server_got_fin1 nd)"

definition server_got_config :: "json_parser \<Rightarrow> Message \<Rightarrow> Node \<Rightarrow> Node" where
  "server_got_config parse m nd =
     (case res_bind (res_bind (parseJsonPayload parse (msg_payload m)) Config_fromJson)
             (setMode SERVER) of
        Inl e \<Rightarrow> session_throw e nd
      | Inr c \<Rightarrow> control_send CONFIG_ACK [] S_ConfigAckSent (nd\<lparr>nd_config := c\<rparr>))"

definition server_accepted :: "json_parser \<Rightarrow> time_point \<Rightarrow> bool \<Rightarrow> Node \<Rightarrow> Node" where
  "server_accepted parse now success nd =
     (if \<not> success then session_fail ''Error: Accept failed'' nd
      else control_wait CONFIG_HANDSHAKE DEFAULT_TIMEOUT S_GotConfig (server_got_config parse)
             (transitionTo WAITING_FOR_CONFIG (start_receiver now nd)))"

definition server_run :: "bool \<Rightarrow> Node \<Rightarrow> Node" where
  "server_run prepared nd =
     (if \<not> prepared then session_fail ''Error: Server init failed'' nd
      else await_point W_Accept S_Accepted (transitionTo ACCEPTING nd))"

subsection \<open>Resuming a session\<close>

text \<open>A message has arrived for the session: the code after its \<open>waitFor\<close>.\<close>

definition session_message ::
  "json_parser \<Rightarrow> json_printer \<Rightarrow> time_point \<Rightarrow> Message \<Rightarrow> Node \<Rightarrow> Node" where
  "session_message parse dump now m nd =
     (case nd_point nd of
        C_GotConfigAck \<Rightarrow> client_got_config_ack now m nd
      | C_GotFin1 \<Rightarrow> client_got_fin1 dump m nd
      | C_GotStatsAck1 \<Rightarrow> client_got_ack1 parse m nd
      | C_GotFin2 \<Rightarrow> client_got_fin2 dump m nd
      | C_GotStatsAck2 \<Rightarrow> client_got_ack2 parse m nd
      | S_GotConfig \<Rightarrow> server_got_config parse m nd
      | S_GotFin1 \<Rightarrow> server_got_fin1 m nd
      | S_GotStats1 \<Rightarrow> server_got_stats1 parse dump m nd
      | S_GotReady \<Rightarrow> server_got_ready now m nd
      | S_GotStats2 \<Rightarrow> server_got_stats2 parse dump m nd
      | S_GotShutdown \<Rightarrow> server_got_shutdown m nd
      | _ \<Rightarrow> nd)"

text \<open>The bus resumes the session: \<open>await_resume\<close>, then the code after it.\<close>

definition session_resume ::
  "json_parser \<Rightarrow> json_printer \<Rightarrow> time_point \<Rightarrow> Node \<Rightarrow> Node" where
  "session_resume parse dump now nd =
     (case awaiters (nd_bus nd) (nd_awaiter nd) of
        None \<Rightarrow> nd
      | Some a \<Rightarrow>
          let nd = nd\<lparr>nd_bus := destroy_awaiter (nd_awaiter nd) (nd_bus nd)\<rparr> in
          case await_resume a of
            Inl e \<Rightarrow> session_throw e nd
          | Inr m \<Rightarrow> session_message parse dump now m nd)"

text \<open>The network has sent \<open>n\<close> bytes of what the session waited to send.\<close>

definition session_sent ::
  "json_parser \<Rightarrow> json_printer \<Rightarrow> time_point \<Rightarrow> nat \<Rightarrow> Node \<Rightarrow> Node" where
  "session_sent parse dump now n nd =
     (case nd_point nd of
        C_ConfigSent \<Rightarrow> client_config_sent now nd
      | C_Generating \<Rightarrow>
          generate C_Generating client_generated (gen_after_send now n (nd_generator nd)) nd
      | C_Fin1Sent \<Rightarrow> client_fin1_sent dump nd
      | C_Stats1Sent \<Rightarrow> client_stats1_sent parse nd
      | C_ReadySent \<Rightarrow> client_ready_sent dump now nd
      | C_Stats2Sent \<Rightarrow> client_stats2_sent parse nd
      | C_ShutdownSent \<Rightarrow> client_shutdown_sent nd
      | S_ConfigAckSent \<Rightarrow> server_config_ack_sent now nd
      | S_Fin1Sent \<Rightarrow> server_fin1_sent parse dump nd
      | S_StatsAck1Sent \<Rightarrow> server_ack1_sent now nd
      | S_Generating \<Rightarrow>
          generate S_Generating server_generated (gen_after_send now n (nd_generator nd)) nd
      | S_Fin2Sent \<Rightarrow> server_fin2_sent parse dump nd
      | S_StatsAck2Sent \<Rightarrow> server_ack2_sent nd
      | _ \<Rightarrow> nd)"

definition session_delayed :: "time_point \<Rightarrow> Node \<Rightarrow> Node" where
  "session_delayed now nd =
     (case nd_point nd of
        C_Generating \<Rightarrow> generate C_Generating client_generated (gen_after_delay now (nd_generator nd)) nd
      | S_Generating \<Rightarrow> generate S_Generating server_generated (gen_after_delay now (nd_generator nd)) nd
      | _ \<Rightarrow> nd)"

subsection \<open>What happens to a node\<close>

definition upd_receiver :: "Node receiver_upd" where
  "upd_receiver f nd = nd\<lparr>nd_receiver := f (nd_receiver nd)\<rparr>"

definition node_deliver :: "json_parser \<Rightarrow> json_printer \<Rightarrow> time_point \<Rightarrow> Node deliverer" where
  "node_deliver parse dump now h d nd =
     (case deliver h d (nd_bus nd) of (c, b) \<Rightarrow>
        let nd = nd\<lparr>nd_bus := b\<rparr> in
        case c of None \<Rightarrow> nd | Some _ \<Rightarrow> session_resume parse dump now nd)"

definition node_receive ::
  "json_parser \<Rightarrow> json_printer \<Rightarrow> time_point \<Rightarrow> bytes \<Rightarrow> nat \<Rightarrow> Node \<Rightarrow> Node" where
  "node_receive parse dump now data n nd =
     (case receiver_round nd_receiver upd_receiver (node_deliver parse dump now) now data n nd of
        (again, nd) \<Rightarrow> nd\<lparr>nd_receiving := again\<rparr>)"

definition node_timer :: "json_parser \<Rightarrow> json_printer \<Rightarrow> time_point \<Rightarrow> int \<Rightarrow> Node \<Rightarrow> Node" where
  "node_timer parse dump now elapsed nd =
     (case timer_expire elapsed (nd_awaiter nd) (nd_bus nd) of (c, b) \<Rightarrow>
        let nd = nd\<lparr>nd_bus := b\<rparr> in
        case c of None \<Rightarrow> nd | Some _ \<Rightarrow> session_resume parse dump now nd)"

definition node_cancel :: "json_parser \<Rightarrow> json_printer \<Rightarrow> time_point \<Rightarrow> Node \<Rightarrow> Node" where
  "node_cancel parse dump now nd =
     (case cancelAll (nd_bus nd) of (hs, b) \<Rightarrow>
        fold (\<lambda>_. session_resume parse dump now) hs (nd\<lparr>nd_bus := b\<rparr>))"

end
