(* ===== verification/SessionFacts.thy ===== *)
theory SessionFacts
  imports Session
begin

section \<open>Sessions and the bus\<close>

text \<open>
  How the code of a session between two suspension points meets the bus. A node's bus is either idle
  (\<open>idle_bus\<close>) or holds the one awaiter of the session (\<open>waiting_bus\<close>). The facts \<open>control_wait_*\<close> and
  \<open>node_deliver_*\<close> give the operations on these two forms, and from them: a message is received the
  same way whether it arrives before or after the session asks for it (\<open>arrival_order\<close>), and the
  default timeout ends every phase that lasts longer (\<open>phase_timeout\<close>).
\<close>

definition idle_bus :: "(MessageType \<Rightarrow> Message list) \<Rightarrow> MessageBus" where
  "idle_bus f = \<lparr>awaiters = \<lambda>_. None, pendingWaits = \<lambda>_. None, bufferedMessages = f\<rparr>"

definition waiting_awaiter :: "MessageType \<Rightarrow> int \<Rightarrow> Awaiter" where
  "waiting_awaiter t timeoutMs =
     \<lparr>aw_type = t, aw_timeoutMs = timeoutMs, aw_timerStarted = timeoutMs > 0,
      aw_cancelTimer = False, aw_continuation = Some 0, aw_message = None, aw_timedOut = False,
      aw_cancelled = False\<rparr>"

definition waiting_bus ::
  "nat \<Rightarrow> MessageType \<Rightarrow> int \<Rightarrow> (MessageType \<Rightarrow> Message list) \<Rightarrow> MessageBus" where
  "waiting_bus i t timeoutMs f =
     \<lparr>awaiters = [i \<mapsto> waiting_awaiter t timeoutMs], pendingWaits = [t \<mapsto> i], bufferedMessages = f\<rparr>"

lemma bufferedMessages_forms [simp]:
  "bufferedMessages (idle_bus f) = f" "bufferedMessages (waiting_bus i t tmo f) = f"
  by (simp_all add: idle_bus_def waiting_bus_def)

lemma control_wait_buffered:
  assumes "nd_bus nd = idle_bus f" "f t = m # ms"
  shows "control_wait t tmo pt k nd =
    k m (nd\<lparr>nd_awaiter := Suc (nd_awaiter nd), nd_bus := idle_bus (f(t := ms))\<rparr>)"
  using assms
  by (simp add: control_wait_def bus_ops idle_bus_def await_resume_def Let_def)

lemma control_wait_suspends:
  assumes "nd_bus nd = idle_bus f" "f t = []"
  shows "control_wait t tmo pt k nd = await_point (W_Message t) pt
    (nd\<lparr>nd_awaiter := Suc (nd_awaiter nd), nd_bus := waiting_bus (Suc (nd_awaiter nd)) t tmo f\<rparr>)"
  using assms
  by (simp add: control_wait_def bus_ops idle_bus_def waiting_bus_def waiting_awaiter_def Let_def)

lemma node_deliver_idle:
  assumes "nd_bus nd = idle_bus f" "messageType h \<noteq> DATA_PACKET"
  shows "node_deliver parse dump now h d nd =
    nd\<lparr>nd_bus := idle_bus (f(messageType h := f (messageType h) @ [\<lparr>msg_header = h, msg_payload = d\<rparr>]))\<rparr>"
  using assms by (simp add: node_deliver_def bus_ops idle_bus_def Let_def)

lemma node_deliver_other:
  assumes "nd_bus nd = waiting_bus i t tmo f" "messageType h \<noteq> DATA_PACKET" "messageType h \<noteq> t"
  shows "node_deliver parse dump now h d nd =
    nd\<lparr>nd_bus := waiting_bus i t tmo
      (f(messageType h := f (messageType h) @ [\<lparr>msg_header = h, msg_payload = d\<rparr>]))\<rparr>"
  using assms by (simp add: node_deliver_def bus_ops waiting_bus_def Let_def)

lemma node_deliver_awaited:
  assumes "nd_bus nd = waiting_bus (nd_awaiter nd) t tmo f" "t \<noteq> DATA_PACKET" "messageType h = t"
  shows "node_deliver parse dump now h d nd =
    session_message parse dump now \<lparr>msg_header = h, msg_payload = d\<rparr> (nd\<lparr>nd_bus := idle_bus f\<rparr>)"
  using assms
  by (simp add: node_deliver_def session_resume_def bus_ops waiting_bus_def waiting_awaiter_def
      idle_bus_def await_resume_def Let_def)

lemma node_timer_awaited:
  assumes "nd_bus nd = waiting_bus (nd_awaiter nd) t tmo f" "tmo > 0" "elapsed \<ge> tmo"
  shows "node_timer parse dump now elapsed nd =
    session_throw (Runtime_error (''Timeout waiting for message: '' @ messageTypeToString t))
      (nd\<lparr>nd_bus := idle_bus f\<rparr>)"
  using assms
  by (simp add: node_timer_def session_resume_def bus_ops waiting_bus_def waiting_awaiter_def
      idle_bus_def await_resume_def Let_def)

lemma node_timer_early:
  assumes "nd_bus nd = waiting_bus (nd_awaiter nd) t tmo f" "elapsed < tmo"
  shows "node_timer parse dump now elapsed nd = nd"
  using assms
  by (simp add: node_timer_def bus_ops waiting_bus_def waiting_awaiter_def Let_def)

lemma node_timer_idle:
  assumes "nd_bus nd = idle_bus f"
  shows "node_timer parse dump now elapsed nd = nd"
  using assms by (simp add: node_timer_def bus_ops idle_bus_def Let_def)

lemma bus_inv_forms:
  "bus_inv (waiting_bus i t tmo f) \<Longrightarrow> f t = []"
  by (auto simp: bus_inv_def waiting_bus_def)

lemma same_bus: "nd_bus nd = b \<Longrightarrow> nd\<lparr>nd_awaiter := i, nd_bus := b\<rparr> = nd\<lparr>nd_awaiter := i\<rparr>"
  by (cases nd) simp

text \<open>
  the order of a message's arrival and of the session's wait for it makes no difference: in both
  orders the code after the wait runs on the same message, the same bus and the same node, up to the
  record of what was waited for.
\<close>

theorem arrival_order:
  assumes "nd_bus nd = idle_bus f" and "f t = []" and "messageType h = t" "t \<noteq> DATA_PACKET"
    and "\<And>n. nd_point n = pt \<Longrightarrow>
      session_message parse dump now \<lparr>msg_header = h, msg_payload = d\<rparr> n =
        k \<lparr>msg_header = h, msg_payload = d\<rparr> n"
  shows "node_deliver parse dump now h d (control_wait t tmo pt k nd) =
      k \<lparr>msg_header = h, msg_payload = d\<rparr>
        (await_point (W_Message t) pt (nd\<lparr>nd_awaiter := Suc (nd_awaiter nd)\<rparr>)) \<and>
    control_wait t tmo pt k (node_deliver parse dump now h d nd) =
      k \<lparr>msg_header = h, msg_payload = d\<rparr> (nd\<lparr>nd_awaiter := Suc (nd_awaiter nd)\<rparr>)"
proof
  let ?m = "\<lparr>msg_header = h, msg_payload = d\<rparr>"
  let ?w = "control_wait t tmo pt k nd"
  have w: "?w = await_point (W_Message t) pt (nd\<lparr>nd_awaiter := Suc (nd_awaiter nd),
      nd_bus := waiting_bus (Suc (nd_awaiter nd)) t tmo f\<rparr>)"
    using assms(1,2) by (rule control_wait_suspends)
  have "node_deliver parse dump now h d ?w =
      session_message parse dump now ?m (?w\<lparr>nd_bus := idle_bus f\<rparr>)"
    by (rule node_deliver_awaited) (simp_all add: w await_point_def assms(3,4))
  also have "\<dots> = k ?m (?w\<lparr>nd_bus := idle_bus f\<rparr>)"
    by (rule assms(5)) (simp add: w await_point_def)
  also have "?w\<lparr>nd_bus := idle_bus f\<rparr> =
      await_point (W_Message t) pt (nd\<lparr>nd_awaiter := Suc (nd_awaiter nd)\<rparr>)"
    using assms(1) by (simp add: w await_point_def)
  finally show "node_deliver parse dump now h d ?w =
      k ?m (await_point (W_Message t) pt (nd\<lparr>nd_awaiter := Suc (nd_awaiter nd)\<rparr>))" .
  have "node_deliver parse dump now h d nd = nd\<lparr>nd_bus := idle_bus (f(t := [?m]))\<rparr>"
    using node_deliver_idle [OF assms(1), of h parse dump now d] assms(2-4) by simp
  then have "control_wait t tmo pt k (node_deliver parse dump now h d nd) =
      k ?m (nd\<lparr>nd_bus := idle_bus (f(t := [?m]))\<rparr>
        \<lparr>nd_awaiter := Suc (nd_awaiter nd), nd_bus := idle_bus ((f(t := [?m]))(t := []))\<rparr>)"
    by (simp add: control_wait_buffered [of _ "f(t := [?m])" t ?m "[]"])
  also have "(f(t := [?m]))(t := []) = f" using assms(2) by (simp add: fun_upd_idem)
  finally show "control_wait t tmo pt k (node_deliver parse dump now h d nd) =
      k ?m (nd\<lparr>nd_awaiter := Suc (nd_awaiter nd)\<rparr>)"
    using same_bus [OF assms(1)] by simp
qed

text \<open>The node of a controller after \<open>reset\<close>, with a configuration.\<close>

definition new_Node :: "Config \<Rightarrow> time_point \<Rightarrow> Node" where
  "new_Node cfg now =
     \<lparr>nd_state = IDLE, nd_config = cfg, nd_generator = gen_resetStats now new_Generator,
      nd_receiver = new_PacketReceiver now, nd_receiving = False, nd_bus = idle_bus (\<lambda>_. []),
      nd_awaiter = 0, nd_clientStatsPhase1 = zeroStats, nd_serverStatsPhase1 = zeroStats,
      nd_clientStatsPhase2 = zeroStats, nd_serverStatsPhase2 = zeroStats, nd_phases = [],
      nd_wait = W_Idle, nd_point = C_Connected\<rparr>"

theorem arrival_order_witness:
  "node_deliver (\<lambda>_. Inl (Json_parse_error [])) (\<lambda>_. []) 7 (control_header TEST_FIN []) []
      (control_wait TEST_FIN 5000 S_GotFin1 server_got_fin1 (new_Node default_Config 0)) =
    server_got_fin1 fin_message
      (await_point (W_Message TEST_FIN) S_GotFin1 ((new_Node default_Config 0)\<lparr>nd_awaiter := 1\<rparr>)) \<and>
   control_wait TEST_FIN 5000 S_GotFin1 server_got_fin1
      (node_deliver (\<lambda>_. Inl (Json_parse_error [])) (\<lambda>_. []) 7 (control_header TEST_FIN []) []
        (new_Node default_Config 0)) =
    server_got_fin1 fin_message ((new_Node default_Config 0)\<lparr>nd_awaiter := 1\<rparr>)"
  using arrival_order [of "new_Node default_Config 0" "\<lambda>_. []" TEST_FIN "control_header TEST_FIN []"
      S_GotFin1 "\<lambda>_. Inl (Json_parse_error [])" "\<lambda>_. []" 7 "[]" server_got_fin1 5000]
  by (simp add: new_Node_def control_header_def session_message_def fin_message_def)

subsection \<open>The default timeout bounds the length of a phase\<close>

lemma dispatch_data:
  assumes "\<forall>p \<in> set ps. messageType (pkt_header p) = DATA_PACKET"
  shows "dispatch upd_receiver (node_deliver parse dump now') now ps nd =
    nd\<lparr>nd_receiver := fold (receiver_onDataPacket now) ps (nd_receiver nd)\<rparr>"
  using assms
  by (induction ps arbitrary: nd) (auto simp: dispatch_def dispatch_one_def upd_receiver_def)

text \<open>
  C14: the server's wait for the end of phase 1 has the default timeout of 5000 ms, counted from the
  start of the phase: if TEST_FIN has not arrived by then, the test ends in ERRORED, even while data
  packets keep arriving. The same holds for the client's wait in phase 2.
\<close>

theorem phase_timeout:
  assumes "nd_bus nd = idle_bus (\<lambda>_. [])" and "elapsed \<ge> 5000"
    and "\<forall>p \<in> set ps. messageType (pkt_header p) = DATA_PACKET"
    and "start = server_config_ack_sent now nd \<or> start = client_ready_sent dump now nd"
  shows "let nd' = node_timer parse dump now'' elapsed
             (dispatch upd_receiver (node_deliver parse dump now') now' ps start)
    in nd_state nd' = ERRORED \<and>
       nd_wait nd' = W_Done (Some ''Timeout waiting for message: TEST_FIN'')"
proof -
  have "\<exists>i. nd_awaiter start = i \<and> nd_bus start = waiting_bus i TEST_FIN 5000 (\<lambda>_. [])"
    using assms(4,1)
    by (auto simp: server_config_ack_sent_def client_ready_sent_def transitionTo_def
        control_wait_suspends [where f = "\<lambda>_. []"] await_point_def DEFAULT_TIMEOUT_def Let_def)
  then have "nd_bus (dispatch upd_receiver (node_deliver parse dump now') now' ps start) =
      waiting_bus (nd_awaiter (dispatch upd_receiver (node_deliver parse dump now') now' ps start))
        TEST_FIN 5000 (\<lambda>_. [])"
    using dispatch_data [OF assms(3)] by simp
  from node_timer_awaited [OF this, of elapsed] assms(2) show ?thesis
    by (simp add: session_throw_def transitionTo_def messageTypeToString_def Let_def)
qed

theorem phase_timeout_witness:
  "let nd' = node_timer (\<lambda>_. Inl (Json_parse_error [])) (\<lambda>_. []) 9 6000
         (dispatch upd_receiver (node_deliver (\<lambda>_. Inl (Json_parse_error [])) (\<lambda>_. []) 8) 8
            [parsed (generated default_Config 0)]
            (server_config_ack_sent 7 (new_Node default_Config 0)))
   in nd_state nd' = ERRORED \<and>
      nd_wait nd' = W_Done (Some ''Timeout waiting for message: TEST_FIN'')"
proof -
  have "sendable 131072 default_Config"
    by (simp add: sendable_def default_Config_def sizeof_PacketHeader_def)
  then have "\<forall>p \<in> set [parsed (generated default_Config 0)]. messageType (pkt_header p) = DATA_PACKET"
    using generated_content(3) by simp
  then show ?thesis
    by (intro phase_timeout [where nd = "new_Node default_Config 0" and now = 7]) (simp_all add: new_Node_def)
qed

end
