(* ===== verification/Wire.thy ===== *)
theory Wire
  imports SessionFacts
begin

section \<open>Packets in flight\<close>

text \<open>
  Between a sending node and a receiving one the bytes of a stream of packets are partly in the
  receiver's parser and partly in the channel. \<open>wire\<close> says which packets are in flight; receiving a
  chunk of the channel dispatches some of them and leaves the others in flight (\<open>node_receive_wire\<close>),
  so properties of the protocol can be shown packet by packet.
\<close>

lemma drain_loop_partial:
  assumes "b @ rest = stream_of pkts" and "\<forall>(h, d) \<in> set pkts. packet_wf maxP h d"
  shows "\<exists>k b' cf'. drain_loop maxP b cf = (map parsed (take k pkts), 0, b', cf') \<and>
    b' @ rest = stream_of (drop k pkts) \<and> (drop k pkts \<noteq> [] \<longrightarrow> rest \<noteq> [])"
  using assms
proof (induction pkts arbitrary: b cf)
  case Nil
  then show ?case by (intro exI [of _ 0] exI [of _ "[]"] exI [of _ cf]) simp
next
  case (Cons pk pkts)
  obtain h d where pk: "pk = (h, d)" by (cases pk)
  with Cons.prems have wf: "packet_wf maxP h d" by simp
  show ?case
  proof (cases "length b < sizeof_PacketHeader + length d")
    case True
    have "drain_loop maxP b cf = ([], 0, b, cf)"
    proof (cases "length b < sizeof_PacketHeader")
      case False
      have "take sizeof_PacketHeader (b @ rest) = encode_header h"
        using Cons.prems(1) pk by simp
      then have "take sizeof_PacketHeader b = encode_header h" using False by simp
      then have "b = encode_header h @ drop sizeof_PacketHeader b"
        by (metis append_take_drop_id)
      then have "decode_header b = h"
        using decode_encode_header wf by (metis packet_wf_def)
      then show ?thesis using False True wf
        by (subst drain_loop.simps) (simp add: packet_wf_def Let_def)
    qed (rule drain_loop_short)
    moreover have "rest \<noteq> []"
    proof
      assume "rest = []"
      then have "length b = length (stream_of (pk # pkts))" using Cons.prems(1) by simp
      then show False using True pk by simp
    qed
    ultimately show ?thesis
      using Cons.prems(1) by (intro exI [of _ 0] exI [of _ b] exI [of _ cf]) simp
  next
    case False
    let ?n = "sizeof_PacketHeader + length d"
    have "take ?n (b @ rest) = encode_header h @ d" "drop ?n (b @ rest) = stream_of pkts"
      using Cons.prems(1) pk by simp_all
    then have b: "b = encode_header h @ d @ drop ?n b" and r: "drop ?n b @ rest = stream_of pkts"
      using False by (metis append_assoc append_take_drop_id diff_is_0_eq' linorder_not_less take_0 take_append append_Nil2,
          simp)
    from Cons.IH [OF r, of 0] Cons.prems(2) obtain k b' cf' where IH:
      "drain_loop maxP (drop ?n b) 0 = (map parsed (take k pkts), 0, b', cf')"
      "b' @ rest = stream_of (drop k pkts)" "drop k pkts \<noteq> [] \<longrightarrow> rest \<noteq> []" by auto
    have "drain_loop maxP b cf = (parsed pk # map parsed (take k pkts), 0, b', cf')"
      using drain_loop_packet [OF wf, of "drop ?n b" cf] IH(1) pk b by simp
    then show ?thesis using IH
      by (intro exI [of _ "Suc k"] exI [of _ b'] exI [of _ cf']) simp
  qed
qed

definition wire :: "Node \<Rightarrow> bytes \<Rightarrow> (PacketHeader \<times> bytes) list \<Rightarrow> bool" where
  "wire nd ch pkts \<longleftrightarrow>
     maxPayloadSize (rcv_parser (nd_receiver nd)) = 131072 \<and>
     buffer (rcv_parser (nd_receiver nd)) @ ch = stream_of pkts \<and>
     (pkts \<noteq> [] \<longrightarrow> ch \<noteq> []) \<and>
     (\<forall>(h, d) \<in> set pkts. packet_wf 131072 h d)"

definition dispatch_to :: "json_parser \<Rightarrow> json_printer \<Rightarrow> time_point \<Rightarrow> (PacketHeader \<times> bytes) list \<Rightarrow>
    Node \<Rightarrow> Node" where
  "dispatch_to parse dump now pkts nd =
     dispatch upd_receiver (node_deliver parse dump now) now (map parsed pkts) nd"

lemma dispatch_to_simps:
  "dispatch_to parse dump now [] nd = nd"
  "dispatch_to parse dump now (pk # pkts) nd =
     dispatch_to parse dump now pkts
       (dispatch_one upd_receiver (node_deliver parse dump now) now (parsed pk) nd)"
  by (simp_all add: dispatch_to_def dispatch_def)

subsection \<open>Sessions do not touch the parser\<close>

definition rcv_core :: "Node \<Rightarrow> PacketStreamParser \<times> bool \<times> bool \<times> bool" where
  "rcv_core nd = (rcv_parser (nd_receiver nd), rcv_running (nd_receiver nd),
     rcv_dispatcher (nd_receiver nd), nd_receiving nd)"

lemma rcv_core_upd [simp]:
  "rcv_core (nd\<lparr>nd_bus := b\<rparr>) = rcv_core nd"
  "rcv_core (nd\<lparr>nd_awaiter := i\<rparr>) = rcv_core nd"
  "rcv_core (nd\<lparr>nd_generator := g\<rparr>) = rcv_core nd"
  "rcv_core (nd\<lparr>nd_state := st\<rparr>) = rcv_core nd"
  "rcv_core (nd\<lparr>nd_config := c\<rparr>) = rcv_core nd"
  "rcv_core (nd\<lparr>nd_wait := w\<rparr>) = rcv_core nd"
  "rcv_core (nd\<lparr>nd_point := pt\<rparr>) = rcv_core nd"
  "rcv_core (nd\<lparr>nd_phases := ps\<rparr>) = rcv_core nd"
  "rcv_core (nd\<lparr>nd_clientStatsPhase1 := s\<rparr>) = rcv_core nd"
  "rcv_core (nd\<lparr>nd_serverStatsPhase1 := s\<rparr>) = rcv_core nd"
  "rcv_core (nd\<lparr>nd_clientStatsPhase2 := s\<rparr>) = rcv_core nd"
  "rcv_core (nd\<lparr>nd_serverStatsPhase2 := s\<rparr>) = rcv_core nd"
  "rcv_core (nd\<lparr>nd_receiver := receiver_resetStats now (nd_receiver nd)\<rparr>) = rcv_core nd"
  "rcv_core (nd\<lparr>nd_receiver := receiver_onDataPacket now p (nd_receiver nd)\<rparr>) = rcv_core nd"
  by (simp_all add: rcv_core_def receiver_resetStats_def receiver_onDataPacket_def)

lemma rcv_core_basic [simp]:
  "rcv_core (transitionTo st nd) = rcv_core nd"
  "rcv_core (notifyPhaseComplete k nd) = rcv_core nd"
  "rcv_core (session_throw e nd) = rcv_core nd"
  "rcv_core (session_end nd) = rcv_core nd"
  "rcv_core (await_point w pt nd) = rcv_core nd"
  "rcv_core (control_send t d pt nd) = rcv_core nd"
  by (simp_all add: transitionTo_def notifyPhaseComplete_def session_throw_def session_end_def
      await_point_def control_send_def)

lemma rcv_core_control_wait:
  assumes "\<And>m n. rcv_core (k m n) = rcv_core n"
  shows "rcv_core (control_wait t tmo pt k nd) = rcv_core nd"
  using assms by (simp add: control_wait_def Let_def split: option.splits sum.splits prod.splits bool.splits)

lemma rcv_core_store_stats:
  assumes "\<And>n. rcv_core (k n) = rcv_core n" "\<And>s n. rcv_core (store s n) = rcv_core n"
  shows "rcv_core (store_stats r store k nd) = rcv_core nd"
  using assms by (simp add: store_stats_def split: sum.splits)

lemma rcv_core_generate:
  assumes "\<And>n. rcv_core (k n) = rcv_core n"
  shows "rcv_core (generate pt k wg nd) = rcv_core nd"
  using assms by (simp add: generate_def Let_def split: prod.splits gen_wait.splits)

lemma rcv_core_message [simp]: "rcv_core (session_message parse dump now m nd) = rcv_core nd"
  by (simp add: session_message_def client_got_config_ack_def client_got_fin1_def
      client_got_ack1_def client_got_fin2_def client_got_ack2_def server_got_config_def
      server_got_fin1_def server_got_stats1_def server_got_ready_def server_got_stats2_def
      server_got_shutdown_def client_generated_def server_generated_def
      rcv_core_store_stats rcv_core_generate Let_def
      split: session_point.splits sum.splits)

lemma rcv_core_resume [simp]: "rcv_core (session_resume parse dump now nd) = rcv_core nd"
  by (simp add: session_resume_def Let_def split: option.splits sum.splits)

lemma rcv_core_deliver [simp]: "rcv_core (node_deliver parse dump now h d nd) = rcv_core nd"
  by (simp add: node_deliver_def Let_def split: prod.splits option.splits)

lemma rcv_core_dispatch [simp]: "rcv_core (dispatch_to parse dump now pkts nd) = rcv_core nd"
  by (induction pkts arbitrary: nd)
    (simp_all add: dispatch_to_simps dispatch_one_def upd_receiver_def)

lemma rcv_core_wire:
  "rcv_core nd' = rcv_core nd \<Longrightarrow> wire nd' ch pkts = wire nd ch pkts"
  by (simp add: wire_def rcv_core_def)

text \<open>Receiving a chunk: some of the packets in flight are dispatched, the others stay.\<close>

lemma node_receive_wire:
  assumes "wire nd (chunk @ rest) pkts" "chunk \<noteq> []"
    and "rcv_running (nd_receiver nd)" "rcv_dispatcher (nd_receiver nd)" "nd_receiving nd"
  shows "\<exists>k p. node_receive parse dump now chunk (length chunk) nd =
      dispatch_to parse dump now (take k pkts)
        (nd\<lparr>nd_receiver := (nd_receiver nd)\<lparr>rcv_parser := p\<rparr>\<rparr>) \<and>
    wire (nd\<lparr>nd_receiver := (nd_receiver nd)\<lparr>rcv_parser := p\<rparr>\<rparr>) rest (drop k pkts)"
proof -
  let ?q = "rcv_parser (nd_receiver nd)"
  let ?b = "buffer ?q @ chunk"
  have maxp: "maxPayloadSize ?q = 131072" and stream: "?b @ rest = stream_of pkts"
    and wf: "\<forall>(h, d) \<in> set pkts. packet_wf 131072 h d"
    using assms(1) by (auto simp: wire_def)
  obtain k b' cf' where d: "drain_loop 131072 ?b (consecutiveFailures ?q) =
      (map parsed (take k pkts), 0, b', cf')"
    "b' @ rest = stream_of (drop k pkts)" "drop k pkts \<noteq> [] \<longrightarrow> rest \<noteq> []"
    using drain_loop_partial [OF stream wf] by blast
  let ?p = "?q\<lparr>buffer := b', consecutiveFailures := cf'\<rparr>"
  let ?nd = "nd\<lparr>nd_receiver := (nd_receiver nd)\<lparr>rcv_parser := ?p\<rparr>\<rparr>"
  have drain: "drainPackets (parser_append chunk (length chunk) ?q) =
      (\<lparr>res_packets = map parsed (take k pkts), res_checksumFailures = 0\<rparr>, ?p)"
    using d(1) maxp by (simp add: drainPackets_def parser_append_def)
  have core: "rcv_core (dispatch_to parse dump now (take k pkts) ?nd) = rcv_core ?nd" by simp
  then have run: "rcv_running (nd_receiver (dispatch_to parse dump now (take k pkts) ?nd))"
    "nd_receiving (dispatch_to parse dump now (take k pkts) ?nd)"
    using assms(3,5) by (simp_all add: rcv_core_def)
  have "node_receive parse dump now chunk (length chunk) nd =
      (dispatch_to parse dump now (take k pkts) ?nd)\<lparr>nd_receiving := True\<rparr>"
    using assms(2,4) drain run(1)
    by (simp add: node_receive_def receiver_round_def upd_receiver_def dispatch_to_def Let_def
        del: map_map)
  also have "\<dots> = dispatch_to parse dump now (take k pkts) ?nd" using run(2) by simp
  finally have "node_receive parse dump now chunk (length chunk) nd =
      dispatch_to parse dump now (take k pkts) ?nd" .
  moreover have "wire ?nd rest (drop k pkts)"
    using d(2,3) wf maxp by (auto simp: wire_def dest: in_set_dropD)
  ultimately show ?thesis by blast
qed

lemma wire_send:
  assumes "wire nd ch pkts" "packet_wf 131072 h d"
  shows "wire nd (ch @ encode_header h @ d) (pkts @ [(h, d)])"
  using assms by (simp add: wire_def encode_header_def flip: append_assoc)

end
