(* ===== verification/System.thy ===== *)
theory System
  imports Wire
begin

section \<open>A client and a server together\<close>

text \<open>
  A run of the test: a client node and a server node with one byte channel in each direction, in an
  environment without failures. Each step is one event of one node: a connection made, a send
  completed (the backend runs the callback on the thread that sent, so bytes and callback are one
  event), a delay over, a chunk of any size received. The order of the events is arbitrary.
\<close>

record System =
  sy_client :: Node
  sy_server :: Node
  sy_c2s :: bytes
  sy_s2c :: bytes

definition sys_init :: "Config \<Rightarrow> Config \<Rightarrow> time_point \<Rightarrow> System" where
  "sys_init cfg scfg now =
     \<lparr>sy_client = client_run True (new_Node cfg now),
      sy_server = server_run True (new_Node scfg now), sy_c2s = [], sy_s2c = []\<rparr>"

inductive sys_step ::
  "json_parser \<Rightarrow> json_printer \<Rightarrow> time_point set \<Rightarrow> System \<Rightarrow> System \<Rightarrow> bool"
  for parse :: json_parser and dump :: json_printer and clock :: "time_point set" where
  st_connect: "now \<in> clock \<Longrightarrow> nd_wait (sy_client s) = W_Connect ip p \<Longrightarrow>
    sys_step parse dump clock s (s\<lparr>sy_client := client_connected dump now True (sy_client s)\<rparr>)"
| st_accept: "now \<in> clock \<Longrightarrow> nd_wait (sy_server s) = W_Accept \<Longrightarrow>
    sys_step parse dump clock s (s\<lparr>sy_server := server_accepted parse now True (sy_server s)\<rparr>)"
| st_client_send: "now \<in> clock \<Longrightarrow> nd_wait (sy_client s) = W_Send packet \<Longrightarrow>
    sys_step parse dump clock s
      (s\<lparr>sy_client := session_sent parse dump now (length packet) (sy_client s),
         sy_c2s := sy_c2s s @ packet\<rparr>)"
| st_server_send: "now \<in> clock \<Longrightarrow> nd_wait (sy_server s) = W_Send packet \<Longrightarrow>
    sys_step parse dump clock s
      (s\<lparr>sy_server := session_sent parse dump now (length packet) (sy_server s),
         sy_s2c := sy_s2c s @ packet\<rparr>)"
| st_client_delay: "now \<in> clock \<Longrightarrow> nd_wait (sy_client s) = W_Delay d \<Longrightarrow>
    sys_step parse dump clock s (s\<lparr>sy_client := session_delayed now (sy_client s)\<rparr>)"
| st_server_delay: "now \<in> clock \<Longrightarrow> nd_wait (sy_server s) = W_Delay d \<Longrightarrow>
    sys_step parse dump clock s (s\<lparr>sy_server := session_delayed now (sy_server s)\<rparr>)"
| st_client_receive: "now \<in> clock \<Longrightarrow> nd_receiving (sy_client s) \<Longrightarrow>
    sy_s2c s = chunk @ rest \<Longrightarrow> chunk \<noteq> [] \<Longrightarrow> length chunk \<le> RECEIVE_BUFFER_SIZE \<Longrightarrow>
    sys_step parse dump clock s
      (s\<lparr>sy_client := node_receive parse dump now chunk (length chunk) (sy_client s),
         sy_s2c := rest\<rparr>)"
| st_server_receive: "now \<in> clock \<Longrightarrow> nd_receiving (sy_server s) \<Longrightarrow>
    sy_c2s s = chunk @ rest \<Longrightarrow> chunk \<noteq> [] \<Longrightarrow> length chunk \<le> RECEIVE_BUFFER_SIZE \<Longrightarrow>
    sys_step parse dump clock s
      (s\<lparr>sy_server := node_receive parse dump now chunk (length chunk) (sy_server s),
         sy_c2s := rest\<rparr>)"

subsection \<open>What the run is to give\<close>

definition sender_stats :: "Config \<Rightarrow> TestStats \<Rightarrow> bool" where
  "sender_stats cfg s \<longleftrightarrow> totalPacketsSent s = numPackets cfg \<and>
     totalBytesSent s = numPackets cfg * packetSize cfg \<and> totalPacketsReceived s = 0 \<and>
     totalBytesReceived s = 0 \<and> failedChecksumCount s = 0 \<and> sequenceErrorCount s = 0 \<and>
     contentMismatchCount s = 0"

definition receiver_stats :: "Config \<Rightarrow> TestStats \<Rightarrow> bool" where
  "receiver_stats cfg s \<longleftrightarrow> totalPacketsReceived s = numPackets cfg \<and>
     totalBytesReceived s = numPackets cfg * packetSize cfg \<and> totalPacketsSent s = 0 \<and>
     totalBytesSent s = 0 \<and> failedChecksumCount s = 0 \<and> sequenceErrorCount s = 0 \<and>
     contentMismatchCount s = 0"

definition timed :: "time_point set \<Rightarrow> TestStats \<Rightarrow> bool" where
  "timed clock s \<longleftrightarrow> (duration s = 0 \<and> throughputMbps s = 0) \<or>
     (\<exists>a \<in> clock. \<exists>b \<in> clock. a < b \<and> duration s = seconds_between a b \<and>
        throughputMbps s = throughput_of (totalBytesSent s + totalBytesReceived s) (duration s))"

text \<open>
  What the run relies on: a valid configuration with a positive packet count and a size that the
  parser takes, and a JSON library that reads back what it printed, in at most 128 KiB, for the
  values exchanged.
\<close>

definition codec_ok :: "json_parser \<Rightarrow> json_printer \<Rightarrow> json \<Rightarrow> bool" where
  "codec_ok parse dump j \<longleftrightarrow> parse (dump j) = Inr j \<and> length (dump j) \<le> 131072"

definition run_ok :: "json_parser \<Rightarrow> json_printer \<Rightarrow> time_point set \<Rightarrow> Config \<Rightarrow> bool" where
  "run_ok parse dump clock cfg \<longleftrightarrow>
     config_valid cfg \<and> sendable 131072 cfg \<and> 0 < numPackets cfg \<and> numPackets cfg < 2 ^ 31 \<and>
     codec_ok parse dump (Config_toJson cfg) \<and>
     (\<forall>s. (sender_stats cfg s \<or> receiver_stats cfg s) \<and> timed clock s \<longrightarrow>
        codec_ok parse dump (TestStats_to_json s))"

text \<open>
  Both nodes have finished, with the client's configuration and the same four statistics, which
  count all packets and bytes.
\<close>

definition run_complete :: "Config \<Rightarrow> System \<Rightarrow> bool" where
  "run_complete cfg s \<longleftrightarrow>
     (let c = sy_client s; v = sy_server s in
      nd_state c = FINISHED \<and> nd_wait c = W_Done None \<and> nd_phases c = [1, 2] \<and>
      nd_state v = FINISHED \<and> nd_wait v = W_Done None \<and> nd_phases v = [1, 2] \<and>
      nd_config c = cfg \<and> nd_config v = cfg\<lparr>mode := SERVER\<rparr> \<and>
      nd_clientStatsPhase1 c = nd_clientStatsPhase1 v \<and> sender_stats cfg (nd_clientStatsPhase1 c) \<and>
      nd_serverStatsPhase1 c = nd_serverStatsPhase1 v \<and> receiver_stats cfg (nd_serverStatsPhase1 c) \<and>
      nd_clientStatsPhase2 c = nd_clientStatsPhase2 v \<and> receiver_stats cfg (nd_clientStatsPhase2 c) \<and>
      nd_serverStatsPhase2 c = nd_serverStatsPhase2 v \<and> sender_stats cfg (nd_serverStatsPhase2 c))"

subsection \<open>The nodes at their suspension points\<close>

definition quiet :: "Node \<Rightarrow> bool" where
  "quiet nd \<longleftrightarrow> nd_bus nd = idle_bus (\<lambda>_. [])"

definition live :: "Node \<Rightarrow> bool" where
  "live nd \<longleftrightarrow> nd_receiving nd \<and> rcv_running (nd_receiver nd) \<and> rcv_dispatcher (nd_receiver nd)"

definition awaits :: "MessageType \<Rightarrow> session_point \<Rightarrow> Node \<Rightarrow> bool" where
  "awaits t pt nd \<longleftrightarrow> live nd \<and> nd_wait nd = W_Message t \<and> nd_point nd = pt \<and>
     (\<exists>tmo. nd_bus nd = waiting_bus (nd_awaiter nd) t tmo (\<lambda>_. []))"

definition sends :: "MessageType \<Rightarrow> bytes \<Rightarrow> session_point \<Rightarrow> Node \<Rightarrow> bool" where
  "sends t d pt nd \<longleftrightarrow> live nd \<and> quiet nd \<and> nd_wait nd = W_Send (sendControlPacket t d) \<and>
     nd_point nd = pt"

definition cp :: "MessageType \<Rightarrow> bytes \<Rightarrow> PacketHeader \<times> bytes" where
  "cp t d = (control_header t d, d)"

text \<open>The statistics of the receiver, after the first \<open>n\<close> packets of a run.\<close>

definition counted :: "time_point set \<Rightarrow> Config \<Rightarrow> nat \<Rightarrow> Node \<Rightarrow> bool" where
  "counted clock cfg n nd \<longleftrightarrow> (\<exists>ts t0. map snd ts = map (\<lambda>i. parsed (generated cfg i)) [0..<n] \<and>
     t0 \<in> clock \<and> fst ` set ts \<subseteq> clock \<and> rcv_stats (nd_receiver nd) = on_packets ts (rs_reset t0))"

definition gen_times :: "time_point set \<Rightarrow> Generator \<Rightarrow> bool" where
  "gen_times clock g \<longleftrightarrow> gen_startTime g \<in> clock"

definition gen_done :: "time_point set \<Rightarrow> Config \<Rightarrow> Node \<Rightarrow> bool" where
  "gen_done clock cfg nd \<longleftrightarrow> run_stats cfg (nat (numPackets cfg)) (nd_generator nd) \<and>
     gen_startTime (nd_generator nd) \<in> clock \<and> gen_endTime (nd_generator nd) \<in> clock"

text \<open>Generating, before the send of packet \<open>i\<close>, or in the delay before it.\<close>

definition gen_at :: "time_point set \<Rightarrow> Config \<Rightarrow> session_point \<Rightarrow> nat \<Rightarrow> bool \<Rightarrow> Node \<Rightarrow> bool" where
  "gen_at clock cfg pt i delayed nd \<longleftrightarrow> live nd \<and> quiet nd \<and> nd_point nd = pt \<and>
     run_stats cfg i (nd_generator nd) \<and> gen_running (nd_generator nd) \<and>
     gen_startTime (nd_generator nd) \<in> clock \<and> i \<le> nat (numPackets cfg) \<and>
     (if delayed then nd_wait nd = W_Delay (sendIntervalMs cfg) \<and>
        gen_packetCounter (nd_generator nd) = word_of_nat i
      else i < nat (numPackets cfg) \<and> nd_wait nd = W_Send (stream_of [generated cfg i]) \<and>
        gen_packetCounter (nd_generator nd) = word_of_nat (Suc i))"

text \<open>What a session has recorded so far.\<close>

definition rec0 :: "Config \<Rightarrow> Node \<Rightarrow> bool" where
  "rec0 cfg nd \<longleftrightarrow> nd_config nd = cfg \<and> nd_phases nd = []"

definition rec1 :: "Config \<Rightarrow> TestStats \<Rightarrow> TestStats \<Rightarrow> Node \<Rightarrow> bool" where
  "rec1 cfg a b nd \<longleftrightarrow> nd_config nd = cfg \<and> nd_phases nd = [1] \<and>
     nd_clientStatsPhase1 nd = a \<and> nd_serverStatsPhase1 nd = b"

definition rec2 :: "Config \<Rightarrow> TestStats \<Rightarrow> TestStats \<Rightarrow> TestStats \<Rightarrow> TestStats \<Rightarrow> Node \<Rightarrow> bool" where
  "rec2 cfg a b c d nd \<longleftrightarrow> nd_config nd = cfg \<and> nd_phases nd = [1, 2] \<and>
     nd_clientStatsPhase1 nd = a \<and> nd_serverStatsPhase1 nd = b \<and>
     nd_clientStatsPhase2 nd = c \<and> nd_serverStatsPhase2 nd = d"

definition offline :: "session_wait \<Rightarrow> session_point \<Rightarrow> Node \<Rightarrow> bool" where
  "offline w pt nd \<longleftrightarrow> quiet nd \<and> nd_wait nd = w \<and> nd_point nd = pt \<and> nd_phases nd = [] \<and>
     \<not> nd_receiving nd \<and> \<not> rcv_running (nd_receiver nd) \<and>
     buffer (rcv_parser (nd_receiver nd)) = []"

definition server_waits_config :: "Node \<Rightarrow> bool" where
  "server_waits_config nd \<longleftrightarrow> awaits CONFIG_HANDSHAKE S_GotConfig nd \<and> nd_phases nd = []"

subsection \<open>The joint states of a run\<close>

definition scfg_of :: "Config \<Rightarrow> Config" where
  "scfg_of cfg = cfg\<lparr>mode := SERVER\<rparr>"

abbreviation data_run :: "Config \<Rightarrow> nat \<Rightarrow> nat \<Rightarrow> (PacketHeader \<times> bytes) list" where
  "data_run cfg j i \<equiv> map (generated cfg) [j..<i]"

abbreviation stats_msg :: "json_printer \<Rightarrow> MessageType \<Rightarrow> TestStats \<Rightarrow> PacketHeader \<times> bytes" where
  "stats_msg dump t s \<equiv> cp t (statsToPayload dump s)"

definition good_sender :: "time_point set \<Rightarrow> Config \<Rightarrow> TestStats \<Rightarrow> bool" where
  "good_sender clock cfg s \<longleftrightarrow> sender_stats cfg s \<and> timed clock s"

definition good_receiver :: "time_point set \<Rightarrow> Config \<Rightarrow> TestStats \<Rightarrow> bool" where
  "good_receiver clock cfg s \<longleftrightarrow> receiver_stats cfg s \<and> timed clock s"

text \<open>
  \<open>shape r C S q1 q2\<close>: the suspension points of client \<open>C\<close> and server \<open>S\<close> with what they have
  recorded, the packets in flight to the server (\<open>q1\<close>) and to the client (\<open>q2\<close>), and a rank \<open>r\<close>
  that bounds the sends and delays still to come.
\<close>

inductive shape ::
  "json_printer \<Rightarrow> time_point set \<Rightarrow> Config \<Rightarrow> nat \<Rightarrow> Node \<Rightarrow> Node \<Rightarrow>
   (PacketHeader \<times> bytes) list \<Rightarrow> (PacketHeader \<times> bytes) list \<Rightarrow> bool"
  for dump :: json_printer and clock :: "time_point set" and cfg :: Config where
  sh_connect: "offline (W_Connect (targetIP cfg) (port cfg)) C_Connected C \<Longrightarrow> nd_config C = cfg \<Longrightarrow>
    offline W_Accept S_Accepted S \<and> a = 1 \<or> server_waits_config S \<and> a = 0 \<Longrightarrow>
    shape dump clock cfg (13 + 4 * nat (numPackets cfg) + a) C S [] []"
| sh_config_sending: "sends CONFIG_HANDSHAKE (dump (Config_toJson cfg)) C_ConfigSent C \<Longrightarrow>
    rec0 cfg C \<Longrightarrow> offline W_Accept S_Accepted S \<and> a = 1 \<or> server_waits_config S \<and> a = 0 \<Longrightarrow>
    shape dump clock cfg (12 + 4 * nat (numPackets cfg) + a) C S [] []"
| sh_config_sent: "awaits CONFIG_ACK C_GotConfigAck C \<Longrightarrow> rec0 cfg C \<Longrightarrow>
    offline W_Accept S_Accepted S \<and> a = 1 \<or> server_waits_config S \<and> a = 0 \<Longrightarrow>
    shape dump clock cfg (11 + 4 * nat (numPackets cfg) + a) C S
      [cp CONFIG_HANDSHAKE (dump (Config_toJson cfg))] []"
| sh_ack_sending: "awaits CONFIG_ACK C_GotConfigAck C \<Longrightarrow> rec0 cfg C \<Longrightarrow>
    sends CONFIG_ACK [] S_ConfigAckSent S \<Longrightarrow> rec0 (scfg_of cfg) S \<Longrightarrow>
    shape dump clock cfg (11 + 4 * nat (numPackets cfg)) C S [] []"
| sh_ack_sent: "awaits CONFIG_ACK C_GotConfigAck C \<Longrightarrow> rec0 cfg C \<Longrightarrow>
    awaits TEST_FIN S_GotFin1 S \<Longrightarrow> rec0 (scfg_of cfg) S \<Longrightarrow> counted clock cfg 0 S \<Longrightarrow>
    shape dump clock cfg (10 + 4 * nat (numPackets cfg)) C S [] [cp CONFIG_ACK []]"
| sh_gen1: "gen_at clock cfg C_Generating i delayed C \<Longrightarrow> rec0 cfg C \<Longrightarrow>
    awaits TEST_FIN S_GotFin1 S \<Longrightarrow> rec0 (scfg_of cfg) S \<Longrightarrow> counted clock cfg j S \<Longrightarrow> j \<le> i \<Longrightarrow>
    r = 9 + 2 * nat (numPackets cfg) + 2 * (nat (numPackets cfg) - i) + (if delayed then 1 else 0) \<Longrightarrow>
    shape dump clock cfg r C S (data_run cfg j i) []"
| sh_fin1_sending: "sends TEST_FIN [] C_Fin1Sent C \<Longrightarrow> rec0 cfg C \<Longrightarrow> gen_done clock cfg C \<Longrightarrow>
    awaits TEST_FIN S_GotFin1 S \<Longrightarrow> rec0 (scfg_of cfg) S \<Longrightarrow> counted clock cfg j S \<Longrightarrow>
    j \<le> nat (numPackets cfg) \<Longrightarrow>
    shape dump clock cfg (9 + 2 * nat (numPackets cfg)) C S (data_run cfg j (nat (numPackets cfg))) []"
| sh_fin1_sent: "awaits TEST_FIN C_GotFin1 C \<Longrightarrow> rec0 cfg C \<Longrightarrow> gen_done clock cfg C \<Longrightarrow>
    awaits TEST_FIN S_GotFin1 S \<Longrightarrow> rec0 (scfg_of cfg) S \<Longrightarrow> counted clock cfg j S \<Longrightarrow>
    j \<le> nat (numPackets cfg) \<Longrightarrow>
    shape dump clock cfg (8 + 2 * nat (numPackets cfg)) C S
      (data_run cfg j (nat (numPackets cfg)) @ [cp TEST_FIN []]) []"
| sh_fin1_reply: "awaits TEST_FIN C_GotFin1 C \<Longrightarrow> rec0 cfg C \<Longrightarrow> gen_done clock cfg C \<Longrightarrow>
    sends TEST_FIN [] S_Fin1Sent S \<Longrightarrow> rec0 (scfg_of cfg) S \<Longrightarrow>
    counted clock cfg (nat (numPackets cfg)) S \<Longrightarrow>
    shape dump clock cfg (8 + 2 * nat (numPackets cfg)) C S [] []"
| sh_fin1_replied: "awaits TEST_FIN C_GotFin1 C \<Longrightarrow> rec0 cfg C \<Longrightarrow> gen_done clock cfg C \<Longrightarrow>
    awaits STATS_EXCHANGE S_GotStats1 S \<Longrightarrow> rec0 (scfg_of cfg) S \<Longrightarrow>
    counted clock cfg (nat (numPackets cfg)) S \<Longrightarrow>
    shape dump clock cfg (7 + 2 * nat (numPackets cfg)) C S [] [cp TEST_FIN []]"
| sh_stats1_sending: "sends STATS_EXCHANGE (statsToPayload dump a) C_Stats1Sent C \<Longrightarrow> rec0 cfg C \<Longrightarrow>
    gen_lastStats (nd_generator C) = a \<Longrightarrow> good_sender clock cfg a \<Longrightarrow>
    awaits STATS_EXCHANGE S_GotStats1 S \<Longrightarrow> rec0 (scfg_of cfg) S \<Longrightarrow>
    counted clock cfg (nat (numPackets cfg)) S \<Longrightarrow>
    shape dump clock cfg (7 + 2 * nat (numPackets cfg)) C S [] []"
| sh_stats1_sent: "awaits STATS_ACK C_GotStatsAck1 C \<Longrightarrow> rec0 cfg C \<Longrightarrow>
    gen_lastStats (nd_generator C) = a \<Longrightarrow> good_sender clock cfg a \<Longrightarrow>
    awaits STATS_EXCHANGE S_GotStats1 S \<Longrightarrow> rec0 (scfg_of cfg) S \<Longrightarrow>
    counted clock cfg (nat (numPackets cfg)) S \<Longrightarrow>
    shape dump clock cfg (6 + 2 * nat (numPackets cfg)) C S [stats_msg dump STATS_EXCHANGE a] []"
| sh_ack1_sending: "awaits STATS_ACK C_GotStatsAck1 C \<Longrightarrow> rec0 cfg C \<Longrightarrow>
    gen_lastStats (nd_generator C) = a \<Longrightarrow> good_sender clock cfg a \<Longrightarrow>
    good_receiver clock cfg b \<Longrightarrow>
    sends STATS_ACK (statsToPayload dump b) S_StatsAck1Sent S \<Longrightarrow> rec1 (scfg_of cfg) a b S \<Longrightarrow>
    shape dump clock cfg (6 + 2 * nat (numPackets cfg)) C S [] []"
| sh_ack1_sent: "awaits STATS_ACK C_GotStatsAck1 C \<Longrightarrow> rec0 cfg C \<Longrightarrow>
    gen_lastStats (nd_generator C) = a \<Longrightarrow> good_sender clock cfg a \<Longrightarrow>
    good_receiver clock cfg b \<Longrightarrow>
    awaits CLIENT_READY S_GotReady S \<Longrightarrow> rec1 (scfg_of cfg) a b S \<Longrightarrow>
    shape dump clock cfg (5 + 2 * nat (numPackets cfg)) C S [] [stats_msg dump STATS_ACK b]"
| sh_ready_sending: "sends CLIENT_READY [] C_ReadySent C \<Longrightarrow> rec1 cfg a b C \<Longrightarrow>
    good_sender clock cfg a \<Longrightarrow> good_receiver clock cfg b \<Longrightarrow>
    awaits CLIENT_READY S_GotReady S \<Longrightarrow> rec1 (scfg_of cfg) a b S \<Longrightarrow>
    shape dump clock cfg (5 + 2 * nat (numPackets cfg)) C S [] []"
| sh_ready_sent: "awaits TEST_FIN C_GotFin2 C \<Longrightarrow> rec1 cfg a b C \<Longrightarrow>
    counted clock (scfg_of cfg) 0 C \<Longrightarrow>
    good_sender clock cfg a \<Longrightarrow> good_receiver clock cfg b \<Longrightarrow>
    awaits CLIENT_READY S_GotReady S \<Longrightarrow> rec1 (scfg_of cfg) a b S \<Longrightarrow>
    shape dump clock cfg (4 + 2 * nat (numPackets cfg)) C S [cp CLIENT_READY []] []"
| sh_gen2: "awaits TEST_FIN C_GotFin2 C \<Longrightarrow> rec1 cfg a b C \<Longrightarrow> counted clock (scfg_of cfg) j C \<Longrightarrow>
    good_sender clock cfg a \<Longrightarrow> good_receiver clock cfg b \<Longrightarrow>
    gen_at clock (scfg_of cfg) S_Generating i delayed S \<Longrightarrow> rec1 (scfg_of cfg) a b S \<Longrightarrow> j \<le> i \<Longrightarrow>
    r = 4 + 2 * (nat (numPackets cfg) - i) + (if delayed then 1 else 0) \<Longrightarrow>
    shape dump clock cfg r C S [] (data_run (scfg_of cfg) j i)"
| sh_fin2_sending: "awaits TEST_FIN C_GotFin2 C \<Longrightarrow> rec1 cfg a b C \<Longrightarrow>
    counted clock (scfg_of cfg) j C \<Longrightarrow> j \<le> nat (numPackets cfg) \<Longrightarrow>
    good_sender clock cfg a \<Longrightarrow> good_receiver clock cfg b \<Longrightarrow>
    sends TEST_FIN [] S_Fin2Sent S \<Longrightarrow> rec1 (scfg_of cfg) a b S \<Longrightarrow> gen_done clock (scfg_of cfg) S \<Longrightarrow>
    shape dump clock cfg 4 C S [] (data_run (scfg_of cfg) j (nat (numPackets cfg)))"
| sh_fin2_sent: "awaits TEST_FIN C_GotFin2 C \<Longrightarrow> rec1 cfg a b C \<Longrightarrow>
    counted clock (scfg_of cfg) j C \<Longrightarrow> j \<le> nat (numPackets cfg) \<Longrightarrow>
    good_sender clock cfg a \<Longrightarrow> good_receiver clock cfg b \<Longrightarrow>
    awaits STATS_EXCHANGE S_GotStats2 S \<Longrightarrow> rec1 (scfg_of cfg) a b S \<Longrightarrow>
    gen_done clock (scfg_of cfg) S \<Longrightarrow>
    shape dump clock cfg 3 C S []
      (data_run (scfg_of cfg) j (nat (numPackets cfg)) @ [cp TEST_FIN []])"
| sh_stats2_sending: "sends STATS_EXCHANGE (statsToPayload dump c) C_Stats2Sent C \<Longrightarrow> rec1 cfg a b C \<Longrightarrow>
    nd_clientStatsPhase2 C = c \<Longrightarrow> good_receiver clock cfg c \<Longrightarrow>
    good_sender clock cfg a \<Longrightarrow> good_receiver clock cfg b \<Longrightarrow>
    awaits STATS_EXCHANGE S_GotStats2 S \<Longrightarrow> rec1 (scfg_of cfg) a b S \<Longrightarrow>
    gen_done clock (scfg_of cfg) S \<Longrightarrow>
    shape dump clock cfg 3 C S [] []"
| sh_stats2_sent: "awaits STATS_ACK C_GotStatsAck2 C \<Longrightarrow> rec1 cfg a b C \<Longrightarrow>
    nd_clientStatsPhase2 C = c \<Longrightarrow> good_receiver clock cfg c \<Longrightarrow>
    good_sender clock cfg a \<Longrightarrow> good_receiver clock cfg b \<Longrightarrow>
    awaits STATS_EXCHANGE S_GotStats2 S \<Longrightarrow> rec1 (scfg_of cfg) a b S \<Longrightarrow>
    gen_done clock (scfg_of cfg) S \<Longrightarrow>
    shape dump clock cfg 2 C S [stats_msg dump STATS_EXCHANGE c] []"
| sh_ack2_sending: "awaits STATS_ACK C_GotStatsAck2 C \<Longrightarrow> rec1 cfg a b C \<Longrightarrow>
    nd_clientStatsPhase2 C = c \<Longrightarrow> good_receiver clock cfg c \<Longrightarrow> good_sender clock cfg d \<Longrightarrow>
    good_sender clock cfg a \<Longrightarrow> good_receiver clock cfg b \<Longrightarrow>
    sends STATS_ACK (statsToPayload dump d) S_StatsAck2Sent S \<Longrightarrow> rec2 (scfg_of cfg) a b c d S \<Longrightarrow>
    shape dump clock cfg 2 C S [] []"
| sh_ack2_sent: "awaits STATS_ACK C_GotStatsAck2 C \<Longrightarrow> rec1 cfg a b C \<Longrightarrow>
    nd_clientStatsPhase2 C = c \<Longrightarrow> good_receiver clock cfg c \<Longrightarrow> good_sender clock cfg d \<Longrightarrow>
    good_sender clock cfg a \<Longrightarrow> good_receiver clock cfg b \<Longrightarrow>
    awaits SHUTDOWN_ACK S_GotShutdown S \<Longrightarrow> rec2 (scfg_of cfg) a b c d S \<Longrightarrow>
    shape dump clock cfg 1 C S [] [stats_msg dump STATS_ACK d]"
| sh_shut_sending: "sends SHUTDOWN_ACK [] C_ShutdownSent C \<Longrightarrow> rec2 cfg a b c d C \<Longrightarrow>
    good_receiver clock cfg c \<Longrightarrow> good_sender clock cfg d \<Longrightarrow>
    good_sender clock cfg a \<Longrightarrow> good_receiver clock cfg b \<Longrightarrow>
    awaits SHUTDOWN_ACK S_GotShutdown S \<Longrightarrow> rec2 (scfg_of cfg) a b c d S \<Longrightarrow>
    shape dump clock cfg 1 C S [] []"
| sh_shut_sent: "live C \<Longrightarrow> nd_wait C = W_Done None \<Longrightarrow> nd_state C = FINISHED \<Longrightarrow> rec2 cfg a b c d C \<Longrightarrow>
    good_receiver clock cfg c \<Longrightarrow> good_sender clock cfg d \<Longrightarrow>
    good_sender clock cfg a \<Longrightarrow> good_receiver clock cfg b \<Longrightarrow>
    awaits SHUTDOWN_ACK S_GotShutdown S \<Longrightarrow> rec2 (scfg_of cfg) a b c d S \<Longrightarrow>
    shape dump clock cfg 0 C S [cp SHUTDOWN_ACK []] []"
| sh_done: "live C \<Longrightarrow> nd_wait C = W_Done None \<Longrightarrow> nd_state C = FINISHED \<Longrightarrow> rec2 cfg a b c d C \<Longrightarrow>
    good_receiver clock cfg c \<Longrightarrow> good_sender clock cfg d \<Longrightarrow>
    good_sender clock cfg a \<Longrightarrow> good_receiver clock cfg b \<Longrightarrow>
    live S \<Longrightarrow> nd_wait S = W_Done None \<Longrightarrow> nd_state S = FINISHED \<Longrightarrow> rec2 (scfg_of cfg) a b c d S \<Longrightarrow>
    shape dump clock cfg 0 C S [] []"

subsection \<open>Facts of the steps\<close>

lemmas node_defs = transitionTo_def notifyPhaseComplete_def session_end_def await_point_def
  control_send_def start_receiver_def receiver_start_def store_stats_def generate_def
  DEFAULT_TIMEOUT_def

lemmas point_defs = quiet_def live_def awaits_def sends_def rec0_def rec1_def rec2_def cp_def

lemma sendable_scfg [simp]:
  "sendable m (scfg_of cfg) = sendable m cfg" "numPackets (scfg_of cfg) = numPackets cfg"
  "packetSize (scfg_of cfg) = packetSize cfg" "sendIntervalMs (scfg_of cfg) = sendIntervalMs cfg"
  by (simp_all add: scfg_of_def sendable_def)

lemma stats_scfg [simp]:
  "good_sender clock (scfg_of cfg) s = good_sender clock cfg s"
  "good_receiver clock (scfg_of cfg) s = good_receiver clock cfg s"
  by (simp_all add: good_sender_def good_receiver_def sender_stats_def receiver_stats_def)

lemma deliver_awaited:
  assumes "awaits t pt nd" "canonical_type t" "t \<noteq> DATA_PACKET"
  shows "dispatch_one upd_receiver (node_deliver parse dump now) now (parsed (cp t d)) nd =
    session_message parse dump now \<lparr>msg_header = control_header t d, msg_payload = d\<rparr>
      (nd\<lparr>nd_bus := idle_bus (\<lambda>_. [])\<rparr>)"
proof -
  from assms(1) obtain tmo where "nd_bus nd = waiting_bus (nd_awaiter nd) t tmo (\<lambda>_. [])"
    by (auto simp: awaits_def)
  from node_deliver_awaited [OF this assms(3), of "control_header t d"] assms(3) show ?thesis
    by (simp add: dispatch_one_def parsed_def cp_def control_header_def)
qed

lemma deliver_data:
  assumes "sendable 131072 cfg"
  shows "dispatch_one upd_receiver (node_deliver parse dump now') now (parsed (generated cfg i)) nd =
    nd\<lparr>nd_receiver := receiver_onDataPacket now (parsed (generated cfg i)) (nd_receiver nd)\<rparr>"
  using generated_content(3) [OF assms] by (simp add: dispatch_one_def upd_receiver_def)

lemma counted_step:
  assumes "counted clock cfg j nd" "now \<in> clock"
  shows "counted clock cfg (Suc j)
    (nd\<lparr>nd_receiver := receiver_onDataPacket now (parsed (generated cfg j)) (nd_receiver nd)\<rparr>)"
proof -
  obtain ts t0 where ts: "map snd ts = map (\<lambda>i. parsed (generated cfg i)) [0..<j]"
    "t0 \<in> clock" "fst ` set ts \<subseteq> clock"
    "rcv_stats (nd_receiver nd) = on_packets ts (rs_reset t0)"
    using assms(1) by (auto simp: counted_def)
  then show ?thesis
    unfolding counted_def using assms(2)
    by (intro exI [of _ "ts @ [(now, parsed (generated cfg j))]"] exI [of _ t0])
      (simp add: receiver_onDataPacket_def on_packets_append)
qed

lemma counted_reset:
  "t0 \<in> clock \<Longrightarrow> rcv_stats (nd_receiver nd) = rs_reset t0 \<Longrightarrow> counted clock cfg 0 nd"
  unfolding counted_def by (intro exI [of _ "[]"] exI [of _ t0]) simp

lemma on_packets_endTime:
  "fst ` set ts \<subseteq> clock \<Longrightarrow> rs_endTime s \<in> clock \<Longrightarrow> rs_endTime (on_packets ts s) \<in> clock"
proof (induction ts arbitrary: s)
  case (Cons p ts)
  then show ?case by (cases p) simp
qed simp

lemma seconds_pos [simp]: "0 < seconds_between a b \<longleftrightarrow> a < b"
  by (simp add: seconds_between_def)

lemma counted_good:
  assumes "counted clock cfg (nat (numPackets cfg)) nd" "sendable 131072 cfg" "0 < numPackets cfg"
  shows "good_receiver clock cfg (receiver_getStats (nd_receiver nd))"
proof -
  obtain ts t0 where ts: "map snd ts = map (\<lambda>i. parsed (generated cfg i)) [0..<nat (numPackets cfg)]"
    "t0 \<in> clock" "fst ` set ts \<subseteq> clock"
    "rcv_stats (nd_receiver nd) = on_packets ts (rs_reset t0)"
    using assms(1) by (auto simp: counted_def)
  have "rs_endTime (on_packets ts (rs_reset t0)) \<in> clock"
    using ts by (intro on_packets_endTime) simp_all
  then have "timed clock (rs_snapshot (on_packets ts (rs_reset t0)))"
    using ts(2) by (auto simp: timed_def rs_snapshot_def zeroStats_def Let_def)
  with stats_of_generated [OF assms(2) ts(1), of t0] ts(4) assms(3) show ?thesis
    by (simp add: good_receiver_def receiver_stats_def receiver_getStats_def Let_def)
qed

lemma gen_done_good:
  assumes "gen_done clock cfg nd" "0 < numPackets cfg"
  shows "good_sender clock cfg (gen_getStats (nd_generator nd))"
  using assms
  by (auto simp: gen_done_def run_stats_def good_sender_def sender_stats_def timed_def
      gen_getStats_def zeroStats_def Let_def)

lemma run_ok_stats:
  assumes "run_ok parse dump clock cfg" "good_sender clock cfg s \<or> good_receiver clock cfg s"
  shows "parseStatsPayload parse (statsToPayload dump s) = Inr s"
    and "packet_wf 131072 (control_header t (statsToPayload dump s)) (statsToPayload dump s) \<longleftrightarrow>
      canonical_type t"
proof -
  have c: "codec_ok parse dump (TestStats_to_json s)"
    using assms by (auto simp: run_ok_def good_sender_def good_receiver_def)
  have n: "0 < numPackets cfg" "numPackets cfg < 2 ^ 31" "0 \<le> packetSize cfg" "packetSize cfg < 2 ^ 31"
    using assms(1) by (auto simp: run_ok_def sendable_def sizeof_PacketHeader_def)
  have "numPackets cfg * packetSize cfg \<le> 2 ^ 31 * 2 ^ 31" using n by (intro mult_mono) simp_all
  moreover have "- 9223372036854775808 \<le> numPackets cfg * packetSize cfg"
    using n mult_nonneg_nonneg [of "numPackets cfg" "packetSize cfg"] by linarith
  ultimately have "stats_in_range s"
    using assms(2) n
    by (auto simp: good_sender_def good_receiver_def sender_stats_def receiver_stats_def
        stats_in_range_def llong_range_def LLONG_MIN_def LLONG_MAX_def)
  with c show "parseStatsPayload parse (statsToPayload dump s) = Inr s"
    by (simp add: parseStatsPayload_def parseJsonPayload_def statsToPayload_def codec_ok_def
        stats_codec.dec_enc)
  show "packet_wf 131072 (control_header t (statsToPayload dump s)) (statsToPayload dump s) \<longleftrightarrow>
      canonical_type t"
    using c by (simp add: packet_wf_def control_header_def statsToPayload_def codec_ok_def unat_of_nat)
qed

lemma wait_quiet:
  assumes "quiet nd"
  shows "control_wait t tmo pt k nd = await_point (W_Message t) pt
    (nd\<lparr>nd_awaiter := Suc (nd_awaiter nd),
        nd_bus := waiting_bus (Suc (nd_awaiter nd)) t tmo (\<lambda>_. [])\<rparr>)"
  using control_wait_suspends [of nd "\<lambda>_. []"] assms by (simp add: quiet_def)

lemma generate_loop:
  assumes "sendable 131072 cfg" "0 < numPackets cfg" "numPackets cfg < 2 ^ 31" "now \<in> clock"
    and "run_stats cfg i g" "gen_running g" "gen_packetCounter g = word_of_nat i"
    and "gen_startTime g \<in> clock" "i \<le> nat (numPackets cfg)" "live nd" "quiet nd"
  shows "\<exists>g' w. (let X = generate pt k (gen_loop now g) nd in
      X = await_point w pt (nd\<lparr>nd_generator := g'\<rparr>) \<and> gen_at clock cfg pt i False X \<or>
      i = nat (numPackets cfg) \<and> X = k (nd\<lparr>nd_generator := g'\<rparr>) \<and>
        gen_done clock cfg (nd\<lparr>nd_generator := g'\<rparr>))"
proof (cases "i < nat (numPackets cfg)")
  case True
  let ?g = "g\<lparr>gen_packetCounter := word_of_nat (Suc i)\<rparr>"
  have "gen_config g = cfg" using assms(5) by (simp add: run_stats_def)
  then have "gen_loop now g = (AwaitSend (stream_of [generated cfg i]), ?g)"
    using True assms by (intro gen_loop_send [OF assms(1)]) auto
  then show ?thesis
    using True assms by (intro exI [of _ ?g] exI [of _ "W_Send (stream_of [generated cfg i])"])
      (simp add: generate_def await_point_def gen_at_def live_def quiet_def run_stats_def Let_def)
next
  case False
  let ?g = "g\<lparr>gen_running := False, gen_endTime := now\<rparr>"
  have "gen_loop now g = (GenFinished, ?g)"
    using False assms by (intro gen_loop_done [of g cfg i]) (auto simp: run_stats_def)
  then show ?thesis
    using False assms by (intro exI [of _ ?g] exI)
      (simp add: generate_def gen_done_def run_stats_def Let_def)
qed

lemma generate_sent:
  assumes "sendable 131072 cfg" "0 < numPackets cfg" "numPackets cfg < 2 ^ 31" "now \<in> clock"
    and "gen_at clock cfg pt i False nd"
  shows "\<exists>g' w d. (let X = generate pt k (gen_after_send now
        (length (stream_of [generated cfg i])) (nd_generator nd)) nd in
      X = await_point w pt (nd\<lparr>nd_generator := g'\<rparr>) \<and> gen_at clock cfg pt (Suc i) d X \<or>
      Suc i = nat (numPackets cfg) \<and> X = k (nd\<lparr>nd_generator := g'\<rparr>) \<and>
        gen_done clock cfg (nd\<lparr>nd_generator := g'\<rparr>))"
proof -
  let ?g = "nd_generator nd" and ?n = "length (stream_of [generated cfg i])"
  let ?g1 = "?g\<lparr>gen_totalBytesSent := gen_totalBytesSent ?g + int ?n,
     gen_totalPacketsSent := gen_totalPacketsSent ?g + 1\<rparr>"
  have at: "run_stats cfg i ?g" "gen_running ?g" "gen_packetCounter ?g = word_of_nat (Suc i)"
    "gen_startTime ?g \<in> clock" "i < nat (numPackets cfg)" "live nd" "quiet nd"
    using assms(5) by (simp_all add: gen_at_def)
  have len: "int ?n = packetSize cfg" using length_generated [OF assms(1)] .
  then have pos: "0 < ?n" using assms(1) by (auto simp: sendable_def sizeof_PacketHeader_def)
  have cfg: "gen_config ?g = cfg" using at(1) by (simp add: run_stats_def)
  have stats: "run_stats cfg (Suc i) ?g1"
    using at(1) len by (simp add: run_stats_def algebra_simps del: stream_of_simps)
  show ?thesis
  proof (cases "sendIntervalMs cfg > 0")
    case True
    then have "gen_after_send now ?n ?g = (AwaitDelay (sendIntervalMs cfg), ?g1)"
      using pos cfg by (simp add: gen_after_send_def Let_def del: stream_of_simps)
    then show ?thesis using at stats
      by (intro exI [of _ ?g1] exI [of _ "W_Delay (sendIntervalMs cfg)"] exI [of _ True])
        (simp add: generate_def await_point_def gen_at_def live_def quiet_def Let_def del: stream_of_simps)
  next
    case False
    then have "gen_after_send now ?n ?g = gen_loop now ?g1"
      using pos cfg at(2) by (simp add: gen_after_send_def gen_after_wait_def Let_def del: stream_of_simps)
    then show ?thesis
      using generate_loop [OF assms(1-4) stats, of nd pt k] at by (auto simp del: stream_of_simps)
  qed
qed

lemma generate_delayed:
  assumes "sendable 131072 cfg" "0 < numPackets cfg" "numPackets cfg < 2 ^ 31" "now \<in> clock"
    and "gen_at clock cfg pt i True nd"
  shows "\<exists>g' w. (let X = generate pt k (gen_after_delay now (nd_generator nd)) nd in
      X = await_point w pt (nd\<lparr>nd_generator := g'\<rparr>) \<and> gen_at clock cfg pt i False X \<or>
      i = nat (numPackets cfg) \<and> X = k (nd\<lparr>nd_generator := g'\<rparr>) \<and>
        gen_done clock cfg (nd\<lparr>nd_generator := g'\<rparr>))"
proof -
  have at: "run_stats cfg i (nd_generator nd)" "gen_running (nd_generator nd)"
    "gen_packetCounter (nd_generator nd) = word_of_nat i" "gen_startTime (nd_generator nd) \<in> clock"
    "i \<le> nat (numPackets cfg)" "live nd" "quiet nd"
    using assms(5) by (simp_all add: gen_at_def)
  then have "gen_after_delay now (nd_generator nd) = gen_loop now (nd_generator nd)"
    by (simp add: gen_after_delay_def gen_after_wait_def)
  then show ?thesis using generate_loop [OF assms(1-4) at] by simp
qed

lemma generate_start:
  assumes "sendable 131072 cfg" "0 < numPackets cfg" "numPackets cfg < 2 ^ 31" "now \<in> clock"
    and "live nd" "quiet nd"
  shows "\<exists>g' w. generate pt k (gen_start cfg now g) nd = await_point w pt (nd\<lparr>nd_generator := g'\<rparr>) \<and>
    gen_at clock cfg pt 0 False (await_point w pt (nd\<lparr>nd_generator := g'\<rparr>))"
proof -
  have "run_stats cfg 0 (g\<lparr>gen_config := cfg, gen_running := True, gen_totalBytesSent := 0,
      gen_totalPacketsSent := 0, gen_packetCounter := 0, gen_startTime := now,
      gen_lastStats := zeroStats\<rparr>)" by (simp add: run_stats_def)
  from generate_loop [OF assms(1-4) this, of nd pt k] assms show ?thesis
    by (auto simp: gen_start_def Let_def) blast
qed

lemma rcv_core_sent [simp]: "rcv_core (session_sent parse dump now n nd) = rcv_core nd"
  by (simp add: session_sent_def client_config_sent_def client_fin1_sent_def
      client_stats1_sent_def client_ready_sent_def client_stats2_sent_def client_shutdown_sent_def
      server_config_ack_sent_def server_fin1_sent_def server_ack1_sent_def server_fin2_sent_def
      server_ack2_sent_def client_generated_def server_generated_def
      client_got_config_ack_def client_got_fin1_def
      client_got_ack1_def client_got_fin2_def client_got_ack2_def
      server_got_fin1_def server_got_stats1_def server_got_ready_def server_got_stats2_def
      server_got_shutdown_def
      rcv_core_control_wait rcv_core_store_stats rcv_core_generate Let_def
      split: session_point.splits)

lemma rcv_core_delayed [simp]: "rcv_core (session_delayed now nd) = rcv_core nd"
  by (simp add: session_delayed_def client_generated_def server_generated_def rcv_core_generate
      split: session_point.splits)

subsection \<open>Every event keeps the shape\<close>

lemmas client_code = client_shutdown_sent_def client_got_ack2_def client_stats2_sent_def
  client_got_fin2_def client_ready_sent_def client_got_ack1_def client_stats1_sent_def
  client_got_fin1_def client_fin1_sent_def client_generated_def client_got_config_ack_def
  client_config_sent_def

lemmas server_code = server_got_shutdown_def server_ack2_sent_def server_got_stats2_def
  server_fin2_sent_def server_generated_def server_got_ready_def server_ack1_sent_def
  server_got_stats1_def server_fin1_sent_def server_got_fin1_def server_config_ack_sent_def
  server_got_config_def

lemma run_okD:
  assumes "run_ok parse dump clock cfg"
  shows "sendable 131072 cfg" "0 < numPackets cfg" "numPackets cfg < 2 ^ 31"
    "packet_wf 131072 (control_header CONFIG_HANDSHAKE (dump (Config_toJson cfg)))
      (dump (Config_toJson cfg))"
    "parse (dump (Config_toJson cfg)) = Inr (Config_toJson cfg)" "config_valid cfg"
  using assms
  by (simp_all add: run_ok_def codec_ok_def packet_wf_def control_header_def unat_of_nat)

lemma control_empty_wf: "canonical_type t \<Longrightarrow> packet_wf 131072 (control_header t []) []"
  by (rule control_packet_wf) simp_all

lemma cp_stream: "sendControlPacket t d = stream_of [cp t d]"
  by (simp add: sendControlPacket_def cp_def)

lemma data_run_Suc: "j \<le> i \<Longrightarrow> data_run cfg j i @ [generated cfg i] = data_run cfg j (Suc i)"
  by simp

lemma shape_client_send:
  assumes "shape dump clock cfg r C S q1 q2" "run_ok parse dump clock cfg" "now \<in> clock"
    and "nd_wait C = W_Send packet"
  shows "\<exists>r' pk. packet = stream_of [pk] \<and> packet_wf 131072 (fst pk) (snd pk) \<and> r' < r \<and>
    shape dump clock cfg r' (session_sent parse dump now (length packet) C) S (q1 @ [pk]) q2"
  using assms(1)
proof cases
  case (sh_config_sending a)
  have p: "packet = stream_of [cp CONFIG_HANDSHAKE (dump (Config_toJson cfg))]"
    using sh_config_sending assms(4) by (simp add: sends_def cp_stream)
  have "shape dump clock cfg (11 + 4 * nat (numPackets cfg) + a)
      (session_sent parse dump now (length packet) C) S
      [cp CONFIG_HANDSHAKE (dump (Config_toJson cfg))] []"
    using sh_config_sending
    by (intro shape.sh_config_sent)
      (auto simp: session_sent_def client_code node_defs point_defs wait_quiet)
  then show ?thesis using p sh_config_sending run_okD(4) [OF assms(2)]
    by (intro exI conjI) (auto simp: cp_def)
next
  case (sh_gen1 i delayed j)
  have i: "gen_at clock cfg C_Generating i False C" "nd_point C = C_Generating"
    and p: "packet = stream_of [generated cfg i]" and d: "\<not> delayed" and N: "i < nat (numPackets cfg)"
    using sh_gen1 assms(4) by (auto simp: gen_at_def split: if_splits)
  have wf: "packet_wf 131072 (fst (generated cfg i)) (snd (generated cfg i))"
    using generated_wf [OF run_okD(1) [OF assms(2)], of i] by (simp add: case_prod_unfold)
  let ?X = "session_sent parse dump now (length packet) C"
  have X: "?X = generate C_Generating client_generated
      (gen_after_send now (length (stream_of [generated cfg i])) (nd_generator C)) C"
    using i(2) p by (simp add: session_sent_def del: stream_of_simps)
  obtain g' w e where g': "?X = await_point w C_Generating (C\<lparr>nd_generator := g'\<rparr>) \<and>
       gen_at clock cfg C_Generating (Suc i) e ?X \<or>
     Suc i = nat (numPackets cfg) \<and> ?X = client_generated (C\<lparr>nd_generator := g'\<rparr>) \<and>
       gen_done clock cfg (C\<lparr>nd_generator := g'\<rparr>)"
    using generate_sent [OF run_okD(1-3) [OF assms(2)] assms(3) i(1), of client_generated]
    unfolding X Let_def by blast
  have "\<exists>r'. r' < r \<and> shape dump clock cfg r' ?X S (data_run cfg j (Suc i)) []"
    using g'
  proof (elim disjE conjE)
    assume "?X = await_point w C_Generating (C\<lparr>nd_generator := g'\<rparr>)"
      "gen_at clock cfg C_Generating (Suc i) e ?X"
    then show ?thesis using sh_gen1 N d
      by (intro exI [of _ "9 + 2 * nat (numPackets cfg) + 2 * (nat (numPackets cfg) - Suc i) +
          (if e then 1 else 0)"] conjI shape.sh_gen1 [where delayed = e and i = "Suc i"])
        (auto simp: rec0_def await_point_def)
  next
    assume "Suc i = nat (numPackets cfg)" "?X = client_generated (C\<lparr>nd_generator := g'\<rparr>)"
      "gen_done clock cfg (C\<lparr>nd_generator := g'\<rparr>)"
    moreover from this have "shape dump clock cfg (9 + 2 * nat (numPackets cfg)) ?X S
        (data_run cfg j (nat (numPackets cfg))) []"
      using sh_gen1 i(1)
      by (intro shape.sh_fin1_sending)
        (auto simp: client_code node_defs point_defs gen_at_def gen_done_def)
    ultimately show ?thesis using sh_gen1 N
      by (intro exI [of _ "9 + 2 * nat (numPackets cfg)"]) (auto simp: d)
  qed
  then obtain r' where "r' < r" "shape dump clock cfg r' ?X S (data_run cfg j (Suc i)) []" by blast
  then have "shape dump clock cfg r' ?X S (q1 @ [generated cfg i]) q2"
    using sh_gen1(1,2) data_run_Suc [OF sh_gen1(8), of cfg] by simp
  with p wf \<open>r' < r\<close> show ?thesis by blast
next
  case (sh_fin1_sending j)
  have p: "packet = stream_of [cp TEST_FIN []]"
    using sh_fin1_sending assms(4) by (simp add: sends_def cp_stream)
  have "shape dump clock cfg (8 + 2 * nat (numPackets cfg))
      (session_sent parse dump now (length packet) C) S
      (data_run cfg j (nat (numPackets cfg)) @ [cp TEST_FIN []]) []"
    using sh_fin1_sending
    by (intro shape.sh_fin1_sent)
      (auto simp: session_sent_def client_code node_defs point_defs wait_quiet gen_done_def)
  then show ?thesis using p sh_fin1_sending control_empty_wf
    by (intro exI conjI) (auto simp: cp_def)
next
  case (sh_stats1_sending a)
  have p: "packet = stream_of [stats_msg dump STATS_EXCHANGE a]"
    using sh_stats1_sending assms(4) by (simp add: sends_def cp_stream)
  have "shape dump clock cfg (6 + 2 * nat (numPackets cfg))
      (session_sent parse dump now (length packet) C) S [stats_msg dump STATS_EXCHANGE a] []"
    using sh_stats1_sending
    by (intro shape.sh_stats1_sent)
      (auto simp: session_sent_def client_code node_defs point_defs wait_quiet)
  then show ?thesis using p sh_stats1_sending run_ok_stats(2) [OF assms(2), of a]
    by (intro exI conjI) (auto simp: cp_def)
next
  case (sh_ready_sending a b)
  have p: "packet = stream_of [cp CLIENT_READY []]"
    using sh_ready_sending assms(4) by (simp add: sends_def cp_stream)
  have "shape dump clock cfg (4 + 2 * nat (numPackets cfg))
      (session_sent parse dump now (length packet) C) S [cp CLIENT_READY []] []"
    using sh_ready_sending
    by (intro shape.sh_ready_sent [where a = a and b = b] counted_reset [OF assms(3)])
      (auto simp: session_sent_def client_code node_defs point_defs wait_quiet
        receiver_resetStats_def)
  then show ?thesis using p sh_ready_sending control_empty_wf
    by (intro exI conjI) (auto simp: cp_def)
next
  case (sh_stats2_sending c a b)
  have p: "packet = stream_of [stats_msg dump STATS_EXCHANGE c]"
    using sh_stats2_sending assms(4) by (simp add: sends_def cp_stream)
  have "shape dump clock cfg 2
      (session_sent parse dump now (length packet) C) S [stats_msg dump STATS_EXCHANGE c] []"
    using sh_stats2_sending
    by (intro shape.sh_stats2_sent [where a = a and b = b])
      (auto simp: session_sent_def client_code node_defs point_defs wait_quiet)
  then show ?thesis using p sh_stats2_sending run_ok_stats(2) [OF assms(2), of c]
    by (intro exI conjI) (auto simp: cp_def)
next
  case (sh_shut_sending a b c d)
  have p: "packet = stream_of [cp SHUTDOWN_ACK []]"
    using sh_shut_sending assms(4) by (simp add: sends_def cp_stream)
  have "shape dump clock cfg 0
      (session_sent parse dump now (length packet) C) S [cp SHUTDOWN_ACK []] []"
    using sh_shut_sending
    by (intro shape.sh_shut_sent [where a = a and b = b and c = c and d = d])
      (auto simp: session_sent_def client_code node_defs point_defs wait_quiet)
  then show ?thesis using p sh_shut_sending control_empty_wf
    by (intro exI conjI) (auto simp: cp_def)
qed (use assms(4) in \<open>auto simp: awaits_def offline_def\<close>)

lemma generated_packet_wf:
  "sendable 131072 cfg \<Longrightarrow> packet_wf 131072 (fst (generated cfg i)) (snd (generated cfg i))"
  using generated_wf [of 131072 cfg i] by (simp add: case_prod_unfold)

lemma run_ok_scfg:
  assumes "run_ok parse dump clock cfg"
  shows "sendable 131072 (scfg_of cfg)" "0 < numPackets (scfg_of cfg)"
    "numPackets (scfg_of cfg) < 2 ^ 31"
  using run_okD [OF assms] by simp_all

lemma shape_server_send:
  assumes "shape dump clock cfg r C S q1 q2" "run_ok parse dump clock cfg" "now \<in> clock"
    and "nd_wait S = W_Send packet"
  shows "\<exists>r' pk. packet = stream_of [pk] \<and> packet_wf 131072 (fst pk) (snd pk) \<and> r' < r \<and>
    shape dump clock cfg r' C (session_sent parse dump now (length packet) S) q1 (q2 @ [pk])"
  using assms(1)
proof cases
  case sh_ack_sending
  have p: "packet = stream_of [cp CONFIG_ACK []]"
    using sh_ack_sending assms(4) by (simp add: sends_def cp_stream)
  have "shape dump clock cfg (10 + 4 * nat (numPackets cfg)) C
      (session_sent parse dump now (length packet) S) [] [cp CONFIG_ACK []]"
    using sh_ack_sending
    by (intro shape.sh_ack_sent counted_reset [OF assms(3)])
      (auto simp: session_sent_def server_code node_defs point_defs wait_quiet
        receiver_resetStats_def)
  then show ?thesis using p sh_ack_sending control_empty_wf
    by (intro exI conjI) (auto simp: cp_def)
next
  case sh_fin1_reply
  have p: "packet = stream_of [cp TEST_FIN []]"
    using sh_fin1_reply assms(4) by (simp add: sends_def cp_stream)
  have "shape dump clock cfg (7 + 2 * nat (numPackets cfg)) C
      (session_sent parse dump now (length packet) S) [] [cp TEST_FIN []]"
    using sh_fin1_reply
    by (intro shape.sh_fin1_replied)
      (auto simp: session_sent_def server_code node_defs point_defs wait_quiet counted_def)
  then show ?thesis using p sh_fin1_reply control_empty_wf
    by (intro exI conjI) (auto simp: cp_def)
next
  case (sh_ack1_sending a b)
  have p: "packet = stream_of [stats_msg dump STATS_ACK b]"
    using sh_ack1_sending assms(4) by (simp add: sends_def cp_stream)
  have "shape dump clock cfg (5 + 2 * nat (numPackets cfg)) C
      (session_sent parse dump now (length packet) S) [] [stats_msg dump STATS_ACK b]"
    using sh_ack1_sending
    by (intro shape.sh_ack1_sent [where a = a and b = b])
      (auto simp: session_sent_def server_code node_defs point_defs wait_quiet)
  then show ?thesis using p sh_ack1_sending run_ok_stats(2) [OF assms(2), of b]
    by (intro exI conjI) (auto simp: cp_def)
next
  case (sh_gen2 a b j i delayed)
  have i: "gen_at clock (scfg_of cfg) S_Generating i False S" "nd_point S = S_Generating"
    and p: "packet = stream_of [generated (scfg_of cfg) i]" and d: "\<not> delayed"
    and N: "i < nat (numPackets cfg)"
    using sh_gen2 assms(4) by (auto simp: gen_at_def split: if_splits)
  note wf = generated_packet_wf [OF run_ok_scfg(1) [OF assms(2)], of i]
  let ?X = "session_sent parse dump now (length packet) S"
  have X: "?X = generate S_Generating server_generated
      (gen_after_send now (length (stream_of [generated (scfg_of cfg) i])) (nd_generator S)) S"
    using i(2) p by (simp add: session_sent_def del: stream_of_simps)
  obtain g' w e where g': "?X = await_point w S_Generating (S\<lparr>nd_generator := g'\<rparr>) \<and>
       gen_at clock (scfg_of cfg) S_Generating (Suc i) e ?X \<or>
     Suc i = nat (numPackets (scfg_of cfg)) \<and> ?X = server_generated (S\<lparr>nd_generator := g'\<rparr>) \<and>
       gen_done clock (scfg_of cfg) (S\<lparr>nd_generator := g'\<rparr>)"
    using generate_sent [OF run_ok_scfg [OF assms(2)] assms(3) i(1), of server_generated]
    unfolding X Let_def by blast
  have "\<exists>r'. r' < r \<and> shape dump clock cfg r' C ?X [] (data_run (scfg_of cfg) j (Suc i))"
    using g'
  proof (elim disjE conjE)
    assume "?X = await_point w S_Generating (S\<lparr>nd_generator := g'\<rparr>)"
      "gen_at clock (scfg_of cfg) S_Generating (Suc i) e ?X"
    then show ?thesis using sh_gen2 N d
      by (intro exI [of _ "4 + 2 * (nat (numPackets cfg) - Suc i) + (if e then 1 else 0)"] conjI
          shape.sh_gen2 [where delayed = e and i = "Suc i" and a = a and b = b])
        (auto simp: rec1_def await_point_def)
  next
    assume "Suc i = nat (numPackets (scfg_of cfg))" "?X = server_generated (S\<lparr>nd_generator := g'\<rparr>)"
      "gen_done clock (scfg_of cfg) (S\<lparr>nd_generator := g'\<rparr>)"
    moreover from this have "shape dump clock cfg 4 C ?X []
        (data_run (scfg_of cfg) j (nat (numPackets cfg)))"
      using sh_gen2 i(1)
      by (intro shape.sh_fin2_sending [where a = a and b = b])
        (auto simp: server_code node_defs point_defs gen_at_def gen_done_def)
    ultimately show ?thesis using sh_gen2 N
      by (intro exI [of _ 4]) (auto simp: d)
  qed
  then obtain r' where "r' < r" "shape dump clock cfg r' C ?X [] (data_run (scfg_of cfg) j (Suc i))"
    by blast
  then have "shape dump clock cfg r' C ?X q1 (q2 @ [generated (scfg_of cfg) i])"
    using sh_gen2(1,2) data_run_Suc [OF sh_gen2(10), of "scfg_of cfg"] by simp
  with p wf \<open>r' < r\<close> show ?thesis by blast
next
  case (sh_fin2_sending a b j)
  have p: "packet = stream_of [cp TEST_FIN []]"
    using sh_fin2_sending assms(4) by (simp add: sends_def cp_stream)
  have "shape dump clock cfg 3 C (session_sent parse dump now (length packet) S) []
      (data_run (scfg_of cfg) j (nat (numPackets cfg)) @ [cp TEST_FIN []])"
    using sh_fin2_sending
    by (intro shape.sh_fin2_sent [where a = a and b = b])
      (auto simp: session_sent_def server_code node_defs point_defs wait_quiet gen_done_def)
  then show ?thesis using p sh_fin2_sending control_empty_wf
    by (intro exI conjI) (auto simp: cp_def)
next
  case (sh_ack2_sending a b c d)
  have p: "packet = stream_of [stats_msg dump STATS_ACK d]"
    using sh_ack2_sending assms(4) by (simp add: sends_def cp_stream)
  have "shape dump clock cfg 1 C
      (session_sent parse dump now (length packet) S) [] [stats_msg dump STATS_ACK d]"
    using sh_ack2_sending
    by (intro shape.sh_ack2_sent [where a = a and b = b and c = c and d = d])
      (auto simp: session_sent_def server_code node_defs point_defs wait_quiet)
  then show ?thesis using p sh_ack2_sending run_ok_stats(2) [OF assms(2), of d]
    by (intro exI conjI) (auto simp: cp_def)
qed (use assms(4) in \<open>auto simp: awaits_def offline_def server_waits_config_def\<close>)

lemma shape_client_delay:
  assumes "shape dump clock cfg r C S q1 q2" "run_ok parse dump clock cfg" "now \<in> clock"
    and "nd_wait C = W_Delay t"
  shows "\<exists>r' < r. shape dump clock cfg r' (session_delayed now C) S q1 q2"
  using assms(1)
proof cases
  case (sh_gen1 i delayed j)
  have i: "gen_at clock cfg C_Generating i True C" "nd_point C = C_Generating" and d: "delayed"
    using sh_gen1 assms(4) by (auto simp: gen_at_def split: if_splits)
  let ?X = "session_delayed now C"
  have X: "?X = generate C_Generating client_generated (gen_after_delay now (nd_generator C)) C"
    using i(2) by (simp add: session_delayed_def)
  obtain g' w where g': "?X = await_point w C_Generating (C\<lparr>nd_generator := g'\<rparr>) \<and>
       gen_at clock cfg C_Generating i False ?X \<or>
     i = nat (numPackets cfg) \<and> ?X = client_generated (C\<lparr>nd_generator := g'\<rparr>) \<and>
       gen_done clock cfg (C\<lparr>nd_generator := g'\<rparr>)"
    using generate_delayed [OF run_okD(1-3) [OF assms(2)] assms(3) i(1), of client_generated]
    unfolding X Let_def by blast
  from g' show ?thesis
  proof (elim disjE conjE)
    assume "?X = await_point w C_Generating (C\<lparr>nd_generator := g'\<rparr>)"
      "gen_at clock cfg C_Generating i False ?X"
    then show ?thesis using sh_gen1 d
      by (intro exI [of _ "9 + 2 * nat (numPackets cfg) + 2 * (nat (numPackets cfg) - i)"] conjI)
        (auto simp: rec0_def await_point_def intro!: shape.sh_gen1 [where delayed = False and i = i])
  next
    assume "i = nat (numPackets cfg)" "?X = client_generated (C\<lparr>nd_generator := g'\<rparr>)"
      "gen_done clock cfg (C\<lparr>nd_generator := g'\<rparr>)"
    moreover from this have "shape dump clock cfg (9 + 2 * nat (numPackets cfg)) ?X S
        (data_run cfg j (nat (numPackets cfg))) []"
      using sh_gen1 i(1)
      by (intro shape.sh_fin1_sending)
        (auto simp: client_code node_defs point_defs gen_at_def gen_done_def)
    ultimately show ?thesis using sh_gen1
      by (intro exI [of _ "9 + 2 * nat (numPackets cfg)"]) (auto simp: d)
  qed
qed (use assms(4) in \<open>auto simp: awaits_def sends_def offline_def\<close>)

lemma shape_server_delay:
  assumes "shape dump clock cfg r C S q1 q2" "run_ok parse dump clock cfg" "now \<in> clock"
    and "nd_wait S = W_Delay t"
  shows "\<exists>r' < r. shape dump clock cfg r' C (session_delayed now S) q1 q2"
  using assms(1)
proof cases
  case (sh_gen2 a b j i delayed)
  have i: "gen_at clock (scfg_of cfg) S_Generating i True S" "nd_point S = S_Generating"
    and d: "delayed"
    using sh_gen2 assms(4) by (auto simp: gen_at_def split: if_splits)
  let ?X = "session_delayed now S"
  have X: "?X = generate S_Generating server_generated (gen_after_delay now (nd_generator S)) S"
    using i(2) by (simp add: session_delayed_def)
  obtain g' w where g': "?X = await_point w S_Generating (S\<lparr>nd_generator := g'\<rparr>) \<and>
       gen_at clock (scfg_of cfg) S_Generating i False ?X \<or>
     i = nat (numPackets (scfg_of cfg)) \<and> ?X = server_generated (S\<lparr>nd_generator := g'\<rparr>) \<and>
       gen_done clock (scfg_of cfg) (S\<lparr>nd_generator := g'\<rparr>)"
    using generate_delayed [OF run_ok_scfg [OF assms(2)] assms(3) i(1), of server_generated]
    unfolding X Let_def by blast
  from g' show ?thesis
  proof (elim disjE conjE)
    assume "?X = await_point w S_Generating (S\<lparr>nd_generator := g'\<rparr>)"
      "gen_at clock (scfg_of cfg) S_Generating i False ?X"
    then show ?thesis using sh_gen2 d
      by (intro exI [of _ "4 + 2 * (nat (numPackets cfg) - i)"] conjI)
        (auto simp: rec1_def await_point_def
          intro!: shape.sh_gen2 [where delayed = False and i = i and a = a and b = b])
  next
    assume "i = nat (numPackets (scfg_of cfg))" "?X = server_generated (S\<lparr>nd_generator := g'\<rparr>)"
      "gen_done clock (scfg_of cfg) (S\<lparr>nd_generator := g'\<rparr>)"
    moreover from this have "shape dump clock cfg 4 C ?X []
        (data_run (scfg_of cfg) j (nat (numPackets cfg)))"
      using sh_gen2 i(1)
      by (intro shape.sh_fin2_sending [where a = a and b = b])
        (auto simp: server_code node_defs point_defs gen_at_def gen_done_def)
    ultimately show ?thesis using sh_gen2
      by (intro exI [of _ 4]) (auto simp: d)
  qed
qed (use assms(4) in \<open>auto simp: awaits_def sends_def offline_def server_waits_config_def\<close>)

text \<open>The first packet in flight reaches its node.\<close>

abbreviation deliver_to :: "json_parser \<Rightarrow> json_printer \<Rightarrow> time_point \<Rightarrow> PacketHeader \<times> bytes \<Rightarrow>
    Node \<Rightarrow> Node" where
  "deliver_to parse dump now pk nd \<equiv>
     dispatch_one upd_receiver (node_deliver parse dump now) now (parsed pk) nd"

lemma awaits_data:
  "awaits t pt (nd\<lparr>nd_receiver := receiver_onDataPacket now p (nd_receiver nd)\<rparr>) = awaits t pt nd"
  by (simp add: awaits_def live_def receiver_onDataPacket_def)

lemma data_run_Cons: "j < i \<Longrightarrow> data_run cfg j i = generated cfg j # data_run cfg (Suc j) i"
  by (simp add: upt_conv_Cons)

lemma data_run_head:
  assumes "data_run cfg j i @ ys = pk # ps" and "j < i"
  shows "pk = generated cfg j" and "ps = data_run cfg (Suc j) i @ ys"
  using assms by (simp_all add: data_run_Cons)

lemma shape_client_deliver:
  assumes "shape dump clock cfg r C S q1 (pk # q2)" "run_ok parse dump clock cfg" "now \<in> clock"
  shows "\<exists>r' \<le> r. shape dump clock cfg r' (deliver_to parse dump now pk C) S q1 q2"
  using assms(1)
proof cases
  case sh_ack_sent
  let ?C = "C\<lparr>nd_bus := idle_bus (\<lambda>_. [])\<rparr>"
  have lq: "live ?C" "quiet ?C" "nd_point C = C_GotConfigAck" "nd_config C = cfg"
    using sh_ack_sent by (simp_all add: point_defs)
  have X: "deliver_to parse dump now pk C = session_message parse dump now
      \<lparr>msg_header = control_header CONFIG_ACK [], msg_payload = []\<rparr> ?C"
    using sh_ack_sent(3) deliver_awaited [OF sh_ack_sent(5), of parse dump now "[]"] by simp
  obtain g' w where "generate C_Generating client_generated (gen_start cfg now (nd_generator C))
      (transitionTo RUNNING_TEST ?C) =
      await_point w C_Generating ((transitionTo RUNNING_TEST ?C)\<lparr>nd_generator := g'\<rparr>)"
    "gen_at clock cfg C_Generating 0 False
      (await_point w C_Generating ((transitionTo RUNNING_TEST ?C)\<lparr>nd_generator := g'\<rparr>))"
    using generate_start [OF run_okD(1-3) [OF assms(2)] assms(3), of "transitionTo RUNNING_TEST ?C"
        C_Generating client_generated "nd_generator C"] lq
    by (auto simp: transitionTo_def live_def quiet_def)
  moreover from this have "deliver_to parse dump now pk C =
      await_point w C_Generating ((transitionTo RUNNING_TEST ?C)\<lparr>nd_generator := g'\<rparr>)"
    using X lq by (simp add: session_message_def client_got_config_ack_def Let_def transitionTo_def)
  ultimately have "shape dump clock cfg (9 + 4 * nat (numPackets cfg))
      (deliver_to parse dump now pk C) S (data_run cfg 0 0) []"
    using sh_ack_sent
    by (intro shape.sh_gen1 [where delayed = False])
      (auto simp: rec0_def await_point_def transitionTo_def)
  then show ?thesis using sh_ack_sent by (intro exI [of _ "9 + 4 * nat (numPackets cfg)"]) simp
next
  case sh_fin1_replied
  let ?C = "C\<lparr>nd_bus := idle_bus (\<lambda>_. [])\<rparr>"
  have X: "deliver_to parse dump now pk C = session_message parse dump now
      \<lparr>msg_header = control_header TEST_FIN [], msg_payload = []\<rparr> ?C"
    using sh_fin1_replied(3) deliver_awaited [OF sh_fin1_replied(5), of parse dump now "[]"] by simp
  have good: "good_sender clock cfg (gen_getStats (nd_generator C))"
    using gen_done_good [OF sh_fin1_replied(7)] run_okD(2) [OF assms(2)] .
  have "shape dump clock cfg (7 + 2 * nat (numPackets cfg)) (deliver_to parse dump now pk C) S [] []"
    unfolding X using sh_fin1_replied good
    by (intro shape.sh_stats1_sending [where a = "gen_getStats (nd_generator C)"])
      (auto simp: session_message_def client_code node_defs point_defs saveLastStats_def Let_def)
  then show ?thesis using sh_fin1_replied by auto
next
  case (sh_ack1_sent a b)
  let ?C = "C\<lparr>nd_bus := idle_bus (\<lambda>_. [])\<rparr>"
  have X: "deliver_to parse dump now pk C = session_message parse dump now
      \<lparr>msg_header = control_header STATS_ACK (statsToPayload dump b),
       msg_payload = statsToPayload dump b\<rparr> ?C"
    using sh_ack1_sent(3) deliver_awaited [OF sh_ack1_sent(5), of parse dump now "statsToPayload dump b"]
    by simp
  have "shape dump clock cfg (5 + 2 * nat (numPackets cfg)) (deliver_to parse dump now pk C) S [] []"
    unfolding X using sh_ack1_sent run_ok_stats(1) [OF assms(2), of b]
    by (intro shape.sh_ready_sending [where a = a and b = b])
      (auto simp: session_message_def client_code node_defs point_defs Let_def)
  then show ?thesis using sh_ack1_sent by auto
next
  case (sh_gen2 a b j i delayed)
  then have "j < i" by (cases "j < i") auto
  then have pk: "pk = generated (scfg_of cfg) j" "q2 = data_run (scfg_of cfg) (Suc j) i"
    using sh_gen2(2) data_run_head [of "scfg_of cfg" j i "[]" pk q2] by simp_all
  have "shape dump clock cfg r (deliver_to parse dump now pk C) S []
      (data_run (scfg_of cfg) (Suc j) i)"
    unfolding pk deliver_data [OF run_ok_scfg(1) [OF assms(2)]]
    using sh_gen2 \<open>j < i\<close> counted_step [OF sh_gen2(5) assms(3)]
    by (intro shape.sh_gen2 [where a = a and b = b and delayed = delayed])
      (auto simp: awaits_data rec1_def)
  then show ?thesis using sh_gen2(1) pk(2) by auto
next
  case (sh_fin2_sending a b j)
  then have "j < nat (numPackets cfg)" by (cases "j < nat (numPackets cfg)") auto
  then have pk: "pk = generated (scfg_of cfg) j"
    "q2 = data_run (scfg_of cfg) (Suc j) (nat (numPackets cfg))"
    using sh_fin2_sending(3) data_run_head [of "scfg_of cfg" j _ "[]" pk q2] by simp_all
  have "shape dump clock cfg 4 (deliver_to parse dump now pk C) S []
      (data_run (scfg_of cfg) (Suc j) (nat (numPackets cfg)))"
    unfolding pk deliver_data [OF run_ok_scfg(1) [OF assms(2)]]
    using sh_fin2_sending \<open>j < nat (numPackets cfg)\<close> counted_step [OF sh_fin2_sending(6) assms(3)]
    by (intro shape.sh_fin2_sending [where a = a and b = b]) (auto simp: awaits_data rec1_def)
  then show ?thesis using sh_fin2_sending(1,2) pk by auto
next
  case (sh_fin2_sent a b j)
  show ?thesis
  proof (cases "j < nat (numPackets cfg)")
    case True
    then have pk: "pk = generated (scfg_of cfg) j"
      "q2 = data_run (scfg_of cfg) (Suc j) (nat (numPackets cfg)) @ [cp TEST_FIN []]"
      using sh_fin2_sent(3) data_run_head [of "scfg_of cfg" j _ "[cp TEST_FIN []]" pk q2] by simp_all
    have "shape dump clock cfg 3 (deliver_to parse dump now pk C) S []
        (data_run (scfg_of cfg) (Suc j) (nat (numPackets cfg)) @ [cp TEST_FIN []])"
      unfolding pk deliver_data [OF run_ok_scfg(1) [OF assms(2)]]
      using sh_fin2_sent True counted_step [OF sh_fin2_sent(6) assms(3)]
      by (intro shape.sh_fin2_sent [where a = a and b = b]) (auto simp: awaits_data rec1_def)
    then show ?thesis using sh_fin2_sent(1,2) pk by auto
  next
    case False
    let ?C = "C\<lparr>nd_bus := idle_bus (\<lambda>_. [])\<rparr>"
    have pk: "pk = cp TEST_FIN []" "q2 = []" using False sh_fin2_sent(3) by simp_all
    have X: "deliver_to parse dump now pk C = session_message parse dump now
        \<lparr>msg_header = control_header TEST_FIN [], msg_payload = []\<rparr> ?C"
      unfolding pk using deliver_awaited [OF sh_fin2_sent(4), of parse dump now "[]"] by simp
    have "j = nat (numPackets cfg)" using False sh_fin2_sent(7) by simp
    with sh_fin2_sent(6) have good: "good_receiver clock cfg (receiver_getStats (nd_receiver C))"
      using counted_good [of clock "scfg_of cfg" C] run_okD(1,2) [OF assms(2)] by simp
    have "shape dump clock cfg 3 (deliver_to parse dump now pk C) S [] []"
      unfolding X using sh_fin2_sent good
      by (intro shape.sh_stats2_sending [where a = a and b = b and
            c = "receiver_getStats (nd_receiver C)"])
        (auto simp: session_message_def client_code node_defs point_defs Let_def)
    then show ?thesis using sh_fin2_sent(1,2) pk by auto
  qed
next
  case (sh_ack2_sent a b c d)
  let ?C = "C\<lparr>nd_bus := idle_bus (\<lambda>_. [])\<rparr>"
  have X: "deliver_to parse dump now pk C = session_message parse dump now
      \<lparr>msg_header = control_header STATS_ACK (statsToPayload dump d),
       msg_payload = statsToPayload dump d\<rparr> ?C"
    using sh_ack2_sent(3) deliver_awaited [OF sh_ack2_sent(5), of parse dump now "statsToPayload dump d"]
    by simp
  have "shape dump clock cfg 1 (deliver_to parse dump now pk C) S [] []"
    unfolding X using sh_ack2_sent run_ok_stats(1) [OF assms(2), of d]
    by (intro shape.sh_shut_sending [where a = a and b = b and c = c and d = d])
      (auto simp: session_message_def client_code node_defs point_defs Let_def)
  then show ?thesis using sh_ack2_sent by auto
qed

lemma shape_server_deliver:
  assumes "shape dump clock cfg r C S (pk # q1) q2" "run_ok parse dump clock cfg" "now \<in> clock"
    and "live S"
  shows "\<exists>r' \<le> r. shape dump clock cfg r' C (deliver_to parse dump now pk S) q1 q2"
  using assms(1)
proof cases
  case (sh_config_sent a)
  then have S: "awaits CONFIG_HANDSHAKE S_GotConfig S" "nd_phases S = []" and a: "a = 0"
    using assms(4) by (auto simp: offline_def live_def server_waits_config_def)
  let ?S = "S\<lparr>nd_bus := idle_bus (\<lambda>_. [])\<rparr>" and ?d = "dump (Config_toJson cfg)"
  have X: "deliver_to parse dump now pk S = session_message parse dump now
      \<lparr>msg_header = control_header CONFIG_HANDSHAKE ?d, msg_payload = ?d\<rparr> ?S"
    using sh_config_sent deliver_awaited [OF S(1), of parse dump now ?d] by simp
  have "res_bind (res_bind (parseJsonPayload parse ?d) Config_fromJson) (setMode SERVER) =
      Inr (scfg_of cfg)"
    using run_okD(5,6) [OF assms(2)] config_codec.dec_enc [of cfg]
    by (simp add: parseJsonPayload_def setMode_def scfg_of_def)
  then have "shape dump clock cfg (11 + 4 * nat (numPackets cfg)) C
      (deliver_to parse dump now pk S) [] []"
    unfolding X using sh_config_sent S
    by (intro shape.sh_ack_sending)
      (auto simp: session_message_def server_code node_defs point_defs Let_def)
  then show ?thesis using sh_config_sent a by auto
next
  case (sh_gen1 i delayed j)
  then have "j < i" by (cases "j < i") auto
  then have pk: "pk = generated cfg j" "q1 = data_run cfg (Suc j) i"
    using sh_gen1(1) data_run_head [of cfg j i "[]" pk q1] by simp_all
  have "shape dump clock cfg r C (deliver_to parse dump now pk S) (data_run cfg (Suc j) i) []"
    unfolding pk deliver_data [OF run_okD(1) [OF assms(2)]]
    using sh_gen1 \<open>j < i\<close> counted_step [of clock cfg j S, OF _ assms(3)]
    by (intro shape.sh_gen1 [where delayed = delayed]) (auto simp: awaits_data rec0_def)
  then show ?thesis using sh_gen1(2) pk(2) by auto
next
  case (sh_fin1_sending j)
  then have "j < nat (numPackets cfg)" by (cases "j < nat (numPackets cfg)") auto
  then have pk: "pk = generated cfg j" "q1 = data_run cfg (Suc j) (nat (numPackets cfg))"
    using sh_fin1_sending(2) data_run_head [of cfg j _ "[]" pk q1] by simp_all
  have "shape dump clock cfg (9 + 2 * nat (numPackets cfg)) C (deliver_to parse dump now pk S)
      (data_run cfg (Suc j) (nat (numPackets cfg))) []"
    unfolding pk deliver_data [OF run_okD(1) [OF assms(2)]]
    using sh_fin1_sending \<open>j < nat (numPackets cfg)\<close> counted_step [of clock cfg j S, OF _ assms(3)]
    by (intro shape.sh_fin1_sending) (auto simp: awaits_data rec0_def)
  then show ?thesis using sh_fin1_sending(1,3) pk(2) by auto
next
  case (sh_fin1_sent j)
  show ?thesis
  proof (cases "j < nat (numPackets cfg)")
    case True
    then have pk: "pk = generated cfg j"
      "q1 = data_run cfg (Suc j) (nat (numPackets cfg)) @ [cp TEST_FIN []]"
      using sh_fin1_sent(2) data_run_head [of cfg j _ "[cp TEST_FIN []]" pk q1] by simp_all
    have "shape dump clock cfg (8 + 2 * nat (numPackets cfg)) C (deliver_to parse dump now pk S)
        (data_run cfg (Suc j) (nat (numPackets cfg)) @ [cp TEST_FIN []]) []"
      unfolding pk deliver_data [OF run_okD(1) [OF assms(2)]]
      using sh_fin1_sent True counted_step [of clock cfg j S, OF _ assms(3)]
      by (intro shape.sh_fin1_sent) (auto simp: awaits_data rec0_def)
    then show ?thesis using sh_fin1_sent(1,3) pk(2) by auto
  next
    case False
    let ?S = "S\<lparr>nd_bus := idle_bus (\<lambda>_. [])\<rparr>"
    have pk: "pk = cp TEST_FIN []" "q1 = []" using False sh_fin1_sent(2) by simp_all
    have S: "awaits TEST_FIN S_GotFin1 S" using sh_fin1_sent by simp
    have X: "deliver_to parse dump now pk S = session_message parse dump now
        \<lparr>msg_header = control_header TEST_FIN [], msg_payload = []\<rparr> ?S"
      unfolding pk using deliver_awaited [OF S, of parse dump now "[]"] by simp
    have "j = nat (numPackets cfg)" using False sh_fin1_sent by simp
    then have "shape dump clock cfg (8 + 2 * nat (numPackets cfg)) C
        (deliver_to parse dump now pk S) [] []"
      unfolding X using sh_fin1_sent
      by (intro shape.sh_fin1_reply)
        (auto simp: session_message_def server_code node_defs point_defs counted_def Let_def)
    then show ?thesis using sh_fin1_sent(1,3) pk by auto
  qed
next
  case (sh_stats1_sent a)
  let ?S = "S\<lparr>nd_bus := idle_bus (\<lambda>_. [])\<rparr>"
  have S: "awaits STATS_EXCHANGE S_GotStats1 S" using sh_stats1_sent by simp
  have X: "deliver_to parse dump now pk S = session_message parse dump now
      \<lparr>msg_header = control_header STATS_EXCHANGE (statsToPayload dump a),
       msg_payload = statsToPayload dump a\<rparr> ?S"
    using sh_stats1_sent deliver_awaited [OF S, of parse dump now "statsToPayload dump a"] by simp
  have good: "good_receiver clock cfg (receiver_getStats (nd_receiver S))"
    using counted_good [of clock cfg S] sh_stats1_sent run_okD(1,2) [OF assms(2)] by simp
  have "shape dump clock cfg (6 + 2 * nat (numPackets cfg)) C (deliver_to parse dump now pk S) [] []"
    unfolding X using sh_stats1_sent good run_ok_stats(1) [OF assms(2), of a]
    by (intro shape.sh_ack1_sending [where a = a and b = "receiver_getStats (nd_receiver S)"])
      (auto simp: session_message_def server_code node_defs point_defs Let_def)
  then show ?thesis using sh_stats1_sent by auto
next
  case (sh_ready_sent a b)
  let ?S = "S\<lparr>nd_bus := idle_bus (\<lambda>_. [])\<rparr>"
  let ?S1 = "(transitionTo RUNNING_SERVER_TEST ?S)\<lparr>nd_generator := gen_resetStats now (nd_generator S)\<rparr>"
  have S: "awaits CLIENT_READY S_GotReady S" "nd_config S = scfg_of cfg"
    using sh_ready_sent by (simp_all add: rec1_def)
  have X: "deliver_to parse dump now pk S = session_message parse dump now
      \<lparr>msg_header = control_header CLIENT_READY [], msg_payload = []\<rparr> ?S"
    using sh_ready_sent deliver_awaited [OF S(1), of parse dump now "[]"] by simp
  have lq: "live ?S1" "quiet ?S1"
    using S(1) by (simp_all add: awaits_def live_def quiet_def transitionTo_def)
  obtain g' w where G: "generate S_Generating server_generated
      (gen_start (scfg_of cfg) now (gen_resetStats now (nd_generator S))) ?S1 =
      await_point w S_Generating (?S1\<lparr>nd_generator := g'\<rparr>)"
    "gen_at clock (scfg_of cfg) S_Generating 0 False
      (await_point w S_Generating (?S1\<lparr>nd_generator := g'\<rparr>))"
    using generate_start [OF run_ok_scfg [OF assms(2)] assms(3) lq, of S_Generating server_generated
        "gen_resetStats now (nd_generator S)"] by blast
  have "deliver_to parse dump now pk S = await_point w S_Generating (?S1\<lparr>nd_generator := g'\<rparr>)"
    using X S G(1)
    by (simp add: session_message_def server_got_ready_def Let_def transitionTo_def awaits_def)
  with G(2) have "shape dump clock cfg (4 + 2 * nat (numPackets cfg)) C
      (deliver_to parse dump now pk S) [] (data_run (scfg_of cfg) 0 0)"
    using sh_ready_sent
    by (intro shape.sh_gen2 [where delayed = False and a = a and b = b])
      (auto simp: rec1_def await_point_def transitionTo_def)
  then show ?thesis using sh_ready_sent by (intro exI [of _ "4 + 2 * nat (numPackets cfg)"]) simp
next
  case (sh_stats2_sent a b c)
  let ?S = "S\<lparr>nd_bus := idle_bus (\<lambda>_. [])\<rparr>" and ?d = "gen_getStats (nd_generator S)"
  let ?c = "nd_clientStatsPhase2 C"
  have S: "awaits STATS_EXCHANGE S_GotStats2 S" using sh_stats2_sent by simp
  have X: "deliver_to parse dump now pk S = session_message parse dump now
      \<lparr>msg_header = control_header STATS_EXCHANGE (statsToPayload dump ?c),
       msg_payload = statsToPayload dump ?c\<rparr> ?S"
    using sh_stats2_sent deliver_awaited [OF S, of parse dump now "statsToPayload dump ?c"] by simp
  have good: "good_sender clock cfg ?d"
    using gen_done_good [of clock "scfg_of cfg" S] sh_stats2_sent run_okD(2) [OF assms(2)] by simp
  have "good_receiver clock cfg ?c" using sh_stats2_sent by simp
  then have "shape dump clock cfg 2 C (deliver_to parse dump now pk S) [] []"
    unfolding X using sh_stats2_sent good run_ok_stats(1) [OF assms(2), of ?c]
    by (intro shape.sh_ack2_sending [where a = a and b = b and c = ?c and d = ?d])
      (auto simp: session_message_def server_code node_defs point_defs Let_def)
  then show ?thesis using sh_stats2_sent by auto
next
  case (sh_shut_sent a b c d)
  let ?S = "S\<lparr>nd_bus := idle_bus (\<lambda>_. [])\<rparr>"
  have S: "awaits SHUTDOWN_ACK S_GotShutdown S" using sh_shut_sent by simp
  have X: "deliver_to parse dump now pk S = session_message parse dump now
      \<lparr>msg_header = control_header SHUTDOWN_ACK [], msg_payload = []\<rparr> ?S"
    using sh_shut_sent deliver_awaited [OF S, of parse dump now "[]"] by simp
  have "shape dump clock cfg 0 C (deliver_to parse dump now pk S) [] []"
    unfolding X using sh_shut_sent
    by (intro shape.sh_done [where a = a and b = b and c = c and d = d])
      (auto simp: session_message_def server_code node_defs point_defs Let_def)
  then show ?thesis using sh_shut_sent by auto
qed

subsection \<open>The invariant of the whole system\<close>

definition sys_inv :: "json_printer \<Rightarrow> time_point set \<Rightarrow> Config \<Rightarrow> nat \<Rightarrow> System \<Rightarrow> bool" where
  "sys_inv dump clock cfg r s \<longleftrightarrow>
     (\<exists>q1 q2. shape dump clock cfg r (sy_client s) (sy_server s) q1 q2 \<and>
        wire (sy_server s) (sy_c2s s) q1 \<and> wire (sy_client s) (sy_s2c s) q2)"

abbreviation set_parser :: "PacketStreamParser \<Rightarrow> Node \<Rightarrow> Node" where
  "set_parser p nd \<equiv> nd\<lparr>nd_receiver := (nd_receiver nd)\<lparr>rcv_parser := p\<rparr>\<rparr>"

lemma parser_insensitive [simp]:
  "live (set_parser p nd) = live nd" "quiet (set_parser p nd) = quiet nd"
  "awaits t pt (set_parser p nd) = awaits t pt nd"
  "sends t d pt (set_parser p nd) = sends t d pt nd"
  "rec0 cfg (set_parser p nd) = rec0 cfg nd" "rec1 cfg a b (set_parser p nd) = rec1 cfg a b nd"
  "rec2 cfg a b c a2 (set_parser p nd) = rec2 cfg a b c a2 nd"
  "counted clock cfg n (set_parser p nd) = counted clock cfg n nd"
  "gen_done clock cfg (set_parser p nd) = gen_done clock cfg nd"
  "gen_at clock cfg pt n e (set_parser p nd) = gen_at clock cfg pt n e nd"
  "server_waits_config (set_parser p nd) = server_waits_config nd"
  by (simp_all add: live_def quiet_def awaits_def sends_def rec0_def rec1_def rec2_def counted_def
      gen_done_def gen_at_def server_waits_config_def)

lemma live_not_offline: "live nd \<Longrightarrow> \<not> offline w pt nd"
  by (simp add: live_def offline_def)

lemma shape_set_parser_client:
  assumes "shape dump clock cfg r C S q1 q2" "live C"
  shows "shape dump clock cfg r (set_parser p C) S q1 q2"
  using assms
  by cases (auto intro: shape.intros shape.intros(1-3) [where a = 0, simplified]
      simp: live_not_offline simp del: One_nat_def)

lemma shape_set_parser_server:
  assumes "shape dump clock cfg r C S q1 q2" "live S"
  shows "shape dump clock cfg r C (set_parser p S) q1 q2"
  using assms
  by cases (auto intro: shape.intros shape.intros(1-3) [where a = 0, simplified]
      simp: live_not_offline simp del: One_nat_def)

lemma shape_live:
  assumes "shape dump clock cfg r C S q1 q2"
  shows "nd_receiving C \<Longrightarrow> live C" "nd_receiving S \<Longrightarrow> live S"
  using assms
  by (cases; auto simp: awaits_def sends_def gen_at_def offline_def server_waits_config_def)+

lemma live_core: "rcv_core a = rcv_core b \<Longrightarrow> live a = live b"
  by (simp add: rcv_core_def live_def)

lemma rcv_core_deliver_to [simp]: "rcv_core (deliver_to parse dump now pk nd) = rcv_core nd"
  by (simp add: dispatch_one_def upd_receiver_def)

lemma shape_client_dispatch:
  assumes "shape dump clock cfg r C S q1 (ps @ q2)" "run_ok parse dump clock cfg" "now \<in> clock"
  shows "\<exists>r' \<le> r. shape dump clock cfg r' (dispatch_to parse dump now ps C) S q1 q2"
  using assms(1)
proof (induction ps arbitrary: r C)
  case Nil
  then show ?case by (auto simp: dispatch_to_simps)
next
  case (Cons pk ps)
  from Cons.prems have "shape dump clock cfg r C S q1 (pk # (ps @ q2))" by simp
  from shape_client_deliver [OF this assms(2,3)] obtain r' where
    "r' \<le> r" "shape dump clock cfg r' (deliver_to parse dump now pk C) S q1 (ps @ q2)" by blast
  with Cons.IH [OF this(2)] show ?case by (auto simp: dispatch_to_simps intro: order_trans)
qed

lemma shape_server_dispatch:
  assumes "shape dump clock cfg r C S (ps @ q1) q2" "run_ok parse dump clock cfg" "now \<in> clock"
    and "live S"
  shows "\<exists>r' \<le> r. shape dump clock cfg r' C (dispatch_to parse dump now ps S) q1 q2"
  using assms(1,4)
proof (induction ps arbitrary: r S)
  case Nil
  then show ?case by (auto simp: dispatch_to_simps)
next
  case (Cons pk ps)
  from Cons.prems(1) have "shape dump clock cfg r C S (pk # (ps @ q1)) q2" by simp
  from shape_server_deliver [OF this assms(2,3) Cons.prems(2)] obtain r' where
    r': "r' \<le> r" "shape dump clock cfg r' C (deliver_to parse dump now pk S) (ps @ q1) q2" by blast
  have "live (deliver_to parse dump now pk S)"
    using Cons.prems(2) live_core [OF rcv_core_deliver_to] by blast
  from Cons.IH [OF r'(2) this] r'(1) show ?case
    by (auto simp: dispatch_to_simps intro: order_trans)
qed

lemma client_receive_inv:
  assumes "sys_inv dump clock cfg r s" "run_ok parse dump clock cfg" "now \<in> clock"
    and "nd_receiving (sy_client s)" "sy_s2c s = chunk @ rest" "chunk \<noteq> []"
  shows "\<exists>r' \<le> r. sys_inv dump clock cfg r'
    (s\<lparr>sy_client := node_receive parse dump now chunk (length chunk) (sy_client s), sy_s2c := rest\<rparr>)"
proof -
  obtain q1 q2 where q: "shape dump clock cfg r (sy_client s) (sy_server s) q1 q2"
    "wire (sy_server s) (sy_c2s s) q1" "wire (sy_client s) (sy_s2c s) q2"
    using assms(1) by (auto simp: sys_inv_def)
  have live: "live (sy_client s)" using shape_live(1) [OF q(1) assms(4)] .
  obtain k p where kp: "node_receive parse dump now chunk (length chunk) (sy_client s) =
      dispatch_to parse dump now (take k q2) (set_parser p (sy_client s))"
    "wire (set_parser p (sy_client s)) rest (drop k q2)"
    using node_receive_wire [of "sy_client s" chunk rest q2 parse dump now] q(3) assms(5,6) live
    by (auto simp: live_def)
  have "shape dump clock cfg r (set_parser p (sy_client s)) (sy_server s) q1
      (take k q2 @ drop k q2)"
    using shape_set_parser_client [OF q(1) live] by simp
  from shape_client_dispatch [OF this assms(2,3)] kp(1) obtain r' where r': "r' \<le> r"
    "shape dump clock cfg r' (node_receive parse dump now chunk (length chunk) (sy_client s))
      (sy_server s) q1 (drop k q2)" by auto
  have "wire (node_receive parse dump now chunk (length chunk) (sy_client s)) rest (drop k q2)"
    unfolding kp(1) using kp(2) rcv_core_wire [OF rcv_core_dispatch] by blast
  with r' q(2) show ?thesis by (auto simp: sys_inv_def)
qed

lemma server_receive_inv:
  assumes "sys_inv dump clock cfg r s" "run_ok parse dump clock cfg" "now \<in> clock"
    and "nd_receiving (sy_server s)" "sy_c2s s = chunk @ rest" "chunk \<noteq> []"
  shows "\<exists>r' \<le> r. sys_inv dump clock cfg r'
    (s\<lparr>sy_server := node_receive parse dump now chunk (length chunk) (sy_server s), sy_c2s := rest\<rparr>)"
proof -
  obtain q1 q2 where q: "shape dump clock cfg r (sy_client s) (sy_server s) q1 q2"
    "wire (sy_server s) (sy_c2s s) q1" "wire (sy_client s) (sy_s2c s) q2"
    using assms(1) by (auto simp: sys_inv_def)
  have live: "live (sy_server s)" using shape_live(2) [OF q(1) assms(4)] .
  obtain k p where kp: "node_receive parse dump now chunk (length chunk) (sy_server s) =
      dispatch_to parse dump now (take k q1) (set_parser p (sy_server s))"
    "wire (set_parser p (sy_server s)) rest (drop k q1)"
    using node_receive_wire [of "sy_server s" chunk rest q1 parse dump now] q(2) assms(5,6) live
    by (auto simp: live_def)
  have "shape dump clock cfg r (sy_client s) (set_parser p (sy_server s)) (take k q1 @ drop k q1) q2"
    using shape_set_parser_server [OF q(1) live] by simp
  from shape_server_dispatch [OF this assms(2,3)] kp(1) live obtain r' where r': "r' \<le> r"
    "shape dump clock cfg r' (sy_client s)
      (node_receive parse dump now chunk (length chunk) (sy_server s)) (drop k q1) q2" by auto
  have "wire (node_receive parse dump now chunk (length chunk) (sy_server s)) rest (drop k q1)"
    unfolding kp(1) using kp(2) rcv_core_wire [OF rcv_core_dispatch] by blast
  with r' q(3) show ?thesis by (auto simp: sys_inv_def)
qed

lemma wire_fresh:
  assumes "maxPayloadSize (rcv_parser (nd_receiver nd)) = 131072"
    and "buffer (rcv_parser (nd_receiver nd)) = []"
    and "rcv_parser (nd_receiver nd') = parser_reset (rcv_parser (nd_receiver nd))"
  shows "wire nd' ch q = wire nd ch q"
  using assms by (simp add: wire_def parser_reset_def)

lemma control_wait_receiver:
  assumes "quiet nd"
  shows "nd_receiver (control_wait t tmo pt k nd) = nd_receiver nd"
  by (simp add: wait_quiet [OF assms] await_point_def)

lemma connect_inv:
  assumes "sys_inv dump clock cfg r s" "now \<in> clock" "nd_wait (sy_client s) = W_Connect ip p"
  shows "\<exists>r' < r. sys_inv dump clock cfg r'
    (s\<lparr>sy_client := client_connected dump now True (sy_client s)\<rparr>)"
proof -
  obtain q1 q2 where q: "shape dump clock cfg r (sy_client s) (sy_server s) q1 q2"
    "wire (sy_server s) (sy_c2s s) q1" "wire (sy_client s) (sy_s2c s) q2"
    using assms(1) by (auto simp: sys_inv_def)
  let ?C = "sy_client s" and ?C' = "client_connected dump now True (sy_client s)"
  from q(1) show ?thesis
  proof cases
    case (sh_connect a)
    have off: "offline (W_Connect (targetIP cfg) (port cfg)) C_Connected ?C" using sh_connect by simp
    have "shape dump clock cfg (12 + 4 * nat (numPackets cfg) + a) ?C' (sy_server s) [] []"
      using sh_connect off
      by (intro shape.sh_config_sending)
        (auto simp: client_connected_def node_defs point_defs offline_def)
    moreover have "wire ?C' (sy_s2c s) [] = wire ?C (sy_s2c s) []"
      using off q(3) by (intro wire_fresh)
        (auto simp: client_connected_def node_defs offline_def wire_def)
    ultimately show ?thesis using sh_connect q
      by (intro exI [of _ "12 + 4 * nat (numPackets cfg) + a"]) (auto simp: sys_inv_def)
  qed (use assms(3) in \<open>auto simp: awaits_def sends_def gen_at_def split: if_splits\<close>)
qed

lemma accept_node:
  assumes "offline W_Accept S_Accepted S"
  shows "server_waits_config (server_accepted parse now True S)"
    and "rcv_parser (nd_receiver (server_accepted parse now True S)) =
      parser_reset (rcv_parser (nd_receiver S))"
proof -
  have "quiet (transitionTo WAITING_FOR_CONFIG (start_receiver now S))"
    using assms by (simp add: offline_def node_defs quiet_def split: prod.splits)
  then show "server_waits_config (server_accepted parse now True S)"
    "rcv_parser (nd_receiver (server_accepted parse now True S)) =
      parser_reset (rcv_parser (nd_receiver S))"
    using assms
    by (auto simp: server_accepted_def wait_quiet server_waits_config_def point_defs node_defs
        offline_def)
qed

lemma accept_inv:
  assumes "sys_inv dump clock cfg r s" "now \<in> clock" "nd_wait (sy_server s) = W_Accept"
  shows "\<exists>r' < r. sys_inv dump clock cfg r'
    (s\<lparr>sy_server := server_accepted parse now True (sy_server s)\<rparr>)"
proof -
  obtain q1 q2 where q: "shape dump clock cfg r (sy_client s) (sy_server s) q1 q2"
    "wire (sy_server s) (sy_c2s s) q1" "wire (sy_client s) (sy_s2c s) q2"
    using assms(1) by (auto simp: sys_inv_def)
  let ?S = "sy_server s" and ?S' = "server_accepted parse now True (sy_server s)"
  have off: "offline W_Accept S_Accepted ?S"
    using q(1) assms(3)
    by cases (auto simp: awaits_def sends_def gen_at_def server_waits_config_def split: if_splits)
  then have not: "\<not> server_waits_config ?S"
    by (auto simp: offline_def server_waits_config_def awaits_def)
  have "wire ?S' (sy_c2s s) q1 = wire ?S (sy_c2s s) q1"
    using off q(2) accept_node(2) [OF off] by (intro wire_fresh) (auto simp: offline_def wire_def)
  with q(2) have w: "wire ?S' (sy_c2s s) q1" by simp
  have "\<exists>r' < r. shape dump clock cfg r' (sy_client s) ?S' q1 q2"
    using q(1)
  proof cases
    case (sh_connect a)
    then have "shape dump clock cfg (13 + 4 * nat (numPackets cfg) + 0) (sy_client s) ?S' [] []"
      using accept_node(1) [OF off] by (intro shape.sh_connect) auto
    then show ?thesis using sh_connect not
      by (intro exI [of _ "13 + 4 * nat (numPackets cfg)"]) auto
  next
    case (sh_config_sending a)
    then have "shape dump clock cfg (12 + 4 * nat (numPackets cfg) + 0) (sy_client s) ?S' [] []"
      using accept_node(1) [OF off] by (intro shape.sh_config_sending) auto
    then show ?thesis using sh_config_sending not
      by (intro exI [of _ "12 + 4 * nat (numPackets cfg)"]) auto
  next
    case (sh_config_sent a)
    then have "shape dump clock cfg (11 + 4 * nat (numPackets cfg) + 0) (sy_client s) ?S'
        [cp CONFIG_HANDSHAKE (dump (Config_toJson cfg))] []"
      using accept_node(1) [OF off] by (intro shape.sh_config_sent) auto
    then show ?thesis using sh_config_sent not
      by (intro exI [of _ "11 + 4 * nat (numPackets cfg)"]) auto
  qed (use assms(3) in \<open>auto simp: awaits_def sends_def gen_at_def split: if_splits\<close>)
  with w q(3) show ?thesis by (auto simp: sys_inv_def)
qed

definition in_flight :: "System \<Rightarrow> nat" where
  "in_flight s = length (sy_c2s s) + length (sy_s2c s)"

lemma send_inv:
  assumes "sys_inv dump clock cfg r s" "run_ok parse dump clock cfg" "now \<in> clock"
  shows "nd_wait (sy_client s) = W_Send packet \<Longrightarrow> \<exists>r' < r. sys_inv dump clock cfg r'
      (s\<lparr>sy_client := session_sent parse dump now (length packet) (sy_client s),
         sy_c2s := sy_c2s s @ packet\<rparr>)"
    and "nd_wait (sy_server s) = W_Send packet \<Longrightarrow> \<exists>r' < r. sys_inv dump clock cfg r'
      (s\<lparr>sy_server := session_sent parse dump now (length packet) (sy_server s),
         sy_s2c := sy_s2c s @ packet\<rparr>)"
proof -
  obtain q1 q2 where q: "shape dump clock cfg r (sy_client s) (sy_server s) q1 q2"
    "wire (sy_server s) (sy_c2s s) q1" "wire (sy_client s) (sy_s2c s) q2"
    using assms(1) by (auto simp: sys_inv_def)
  have keep: "wire (session_sent parse dump now n nd) ch ps = wire nd ch ps" for n nd ch ps
    by (rule rcv_core_wire) simp
  show "\<exists>r' < r. sys_inv dump clock cfg r'
      (s\<lparr>sy_client := session_sent parse dump now (length packet) (sy_client s),
         sy_c2s := sy_c2s s @ packet\<rparr>)" if "nd_wait (sy_client s) = W_Send packet"
  proof -
    from shape_client_send [OF q(1) assms(2,3) that] obtain r' h d where
      "packet = encode_header h @ d" "packet_wf 131072 h d" "r' < r"
      "shape dump clock cfg r' (session_sent parse dump now (length packet) (sy_client s))
        (sy_server s) (q1 @ [(h, d)]) q2" by (auto simp: split_paired_all)
    with wire_send [OF q(2), of h d] q(3) show ?thesis by (auto simp: sys_inv_def keep)
  qed
  show "\<exists>r' < r. sys_inv dump clock cfg r'
      (s\<lparr>sy_server := session_sent parse dump now (length packet) (sy_server s),
         sy_s2c := sy_s2c s @ packet\<rparr>)" if "nd_wait (sy_server s) = W_Send packet"
  proof -
    from shape_server_send [OF q(1) assms(2,3) that] obtain r' h d where
      "packet = encode_header h @ d" "packet_wf 131072 h d" "r' < r"
      "shape dump clock cfg r' (sy_client s)
        (session_sent parse dump now (length packet) (sy_server s)) q1 (q2 @ [(h, d)])"
      by (auto simp: split_paired_all)
    with wire_send [OF q(3), of h d] q(2) show ?thesis by (auto simp: sys_inv_def keep)
  qed
qed

lemma delay_inv:
  assumes "sys_inv dump clock cfg r s" "run_ok parse dump clock cfg" "now \<in> clock"
  shows "nd_wait (sy_client s) = W_Delay d \<Longrightarrow> \<exists>r' < r. sys_inv dump clock cfg r'
      (s\<lparr>sy_client := session_delayed now (sy_client s)\<rparr>)"
    and "nd_wait (sy_server s) = W_Delay d \<Longrightarrow> \<exists>r' < r. sys_inv dump clock cfg r'
      (s\<lparr>sy_server := session_delayed now (sy_server s)\<rparr>)"
proof -
  have keep: "wire (session_delayed now nd) ch ps = wire nd ch ps" for nd ch ps
    by (rule rcv_core_wire) simp
  obtain q1 q2 where q: "shape dump clock cfg r (sy_client s) (sy_server s) q1 q2"
    "wire (sy_server s) (sy_c2s s) q1" "wire (sy_client s) (sy_s2c s) q2"
    using assms(1) by (auto simp: sys_inv_def)
  show "\<exists>r' < r. sys_inv dump clock cfg r'
      (s\<lparr>sy_client := session_delayed now (sy_client s)\<rparr>)" if "nd_wait (sy_client s) = W_Delay d"
    using shape_client_delay [OF q(1) assms(2,3) that] q(2,3) by (auto simp: sys_inv_def keep)
  show "\<exists>r' < r. sys_inv dump clock cfg r'
      (s\<lparr>sy_server := session_delayed now (sy_server s)\<rparr>)" if "nd_wait (sy_server s) = W_Delay d"
    using shape_server_delay [OF q(1) assms(2,3) that] q(2,3) by (auto simp: sys_inv_def keep)
qed

text \<open>Each step lowers the rank, or keeps it and takes bytes off a channel.\<close>

lemma sys_step_inv:
  assumes "sys_step parse dump clock s s'" "sys_inv dump clock cfg r s"
    and "run_ok parse dump clock cfg"
  shows "\<exists>r'. sys_inv dump clock cfg r' s' \<and> (r' < r \<or> r' = r \<and> in_flight s' < in_flight s)"
  using assms(1)
proof cases
  case (st_client_receive now chunk rest)
  then have "in_flight s' < in_flight s" by (simp add: in_flight_def)
  with client_receive_inv [OF assms(2,3)] st_client_receive show ?thesis
    by (metis le_neq_implies_less)
next
  case (st_server_receive now chunk rest)
  then have "in_flight s' < in_flight s" by (simp add: in_flight_def)
  with server_receive_inv [OF assms(2,3)] st_server_receive show ?thesis
    by (metis le_neq_implies_less)
qed (use connect_inv [OF assms(2)] accept_inv [OF assms(2)] send_inv [OF assms(2,3)]
    delay_inv [OF assms(2,3)] in blast)+

subsection \<open>The theorems on runs\<close>

definition reachable ::
  "json_parser \<Rightarrow> json_printer \<Rightarrow> time_point set \<Rightarrow> System \<Rightarrow> System \<Rightarrow> bool" where
  "reachable parse dump clock s0 s \<longleftrightarrow> (sys_step parse dump clock)\<^sup>*\<^sup>* s0 s"

lemma sys_inv_init: "sys_inv dump clock cfg (14 + 4 * nat (numPackets cfg)) (sys_init cfg scfg t0)"
proof -
  let ?C = "client_run True (new_Node cfg t0)" and ?S = "server_run True (new_Node scfg t0)"
  have "shape dump clock cfg (13 + 4 * nat (numPackets cfg) + 1) ?C ?S [] []"
    by (intro shape.sh_connect)
      (auto simp: client_run_def server_run_def new_Node_def new_PacketReceiver_def
        new_PacketStreamParser_def offline_def quiet_def node_defs)
  then have "shape dump clock cfg (14 + 4 * nat (numPackets cfg)) ?C ?S [] []" by simp
  moreover have "wire ?C [] []" "wire ?S [] []"
    by (simp_all add: wire_def client_run_def server_run_def new_Node_def new_PacketReceiver_def
        new_PacketStreamParser_def node_defs RECEIVE_BUFFER_SIZE_def)
  ultimately show ?thesis unfolding sys_inv_def sys_init_def by auto
qed

lemma reachable_inv:
  assumes "reachable parse dump clock (sys_init cfg scfg t0) s" "run_ok parse dump clock cfg"
  shows "\<exists>r. sys_inv dump clock cfg r s"
proof -
  have "(sys_step parse dump clock)\<^sup>*\<^sup>* (sys_init cfg scfg t0) s"
    using assms(1) by (simp add: reachable_def)
  then show ?thesis
  proof (induction rule: rtranclp_induct)
    case base
    show ?case using sys_inv_init by blast
  next
    case (step y z)
    then show ?case using sys_step_inv [OF _ _ assms(2)] by blast
  qed
qed

lemma receive_possible:
  assumes "t0 \<in> clock" "wire nd ch q" "q \<noteq> []"
  shows "\<exists>c rest. ch = c # rest"
  using assms by (cases ch) (auto simp: wire_def)

lemma client_can_receive:
  assumes "t0 \<in> clock" "wire (sy_client s) (sy_s2c s) q2" "q2 \<noteq> []" "live (sy_client s)"
  shows "\<exists>s'. sys_step parse dump clock s s'"
proof -
  obtain c rest where "sy_s2c s = [c] @ rest" using receive_possible [OF assms(1-3)] by auto
  from st_client_receive [OF assms(1) _ this, of parse dump] assms(4) show ?thesis
    by (auto simp: live_def RECEIVE_BUFFER_SIZE_def)
qed

lemma server_can_receive:
  assumes "t0 \<in> clock" "wire (sy_server s) (sy_c2s s) q1" "q1 \<noteq> []" "live (sy_server s)"
  shows "\<exists>s'. sys_step parse dump clock s s'"
proof -
  obtain c rest where "sy_c2s s = [c] @ rest" using receive_possible [OF assms(1-3)] by auto
  from st_server_receive [OF assms(1) _ this, of parse dump] assms(4) show ?thesis
    by (auto simp: live_def RECEIVE_BUFFER_SIZE_def)
qed

lemma shape_progress:
  assumes "shape dump clock cfg r C S q1 q2"
  shows "(\<exists>p. nd_wait C = W_Send p) \<or> (\<exists>p. nd_wait S = W_Send p) \<or> (\<exists>d. nd_wait C = W_Delay d) \<or>
    (\<exists>d. nd_wait S = W_Delay d) \<or> (\<exists>ip p. nd_wait C = W_Connect ip p) \<or> nd_wait S = W_Accept \<or>
    q1 \<noteq> [] \<and> live S \<or> q2 \<noteq> [] \<and> live C \<or>
    (q1 = [] \<and> q2 = [] \<and> nd_wait C = W_Done None \<and> nd_wait S = W_Done None)"
  using assms
  by cases (auto simp: awaits_def sends_def gen_at_def offline_def server_waits_config_def
      split: if_splits)

lemma shape_done:
  assumes "shape dump clock cfg r C S q1 q2" "nd_wait C = W_Done None" "nd_wait S = W_Done None"
  shows "\<exists>a b c d. nd_state C = FINISHED \<and> nd_state S = FINISHED \<and> rec2 cfg a b c d C \<and> rec2 (scfg_of cfg) a b c d S \<and>
    good_sender clock cfg a \<and> good_receiver clock cfg b \<and> good_receiver clock cfg c \<and>
    good_sender clock cfg d"
  using assms
  by cases (auto simp: awaits_def sends_def gen_at_def offline_def split: if_splits)

lemma shape_no_error:
  assumes "shape dump clock cfg r C S q1 q2"
  shows "nd_wait C \<noteq> W_Done (Some e)" "nd_wait S \<noteq> W_Done (Some e)"
  using assms
  by (cases; auto simp: awaits_def sends_def gen_at_def offline_def server_waits_config_def
      split: if_splits)+


lemma no_infinite_descent:
  assumes "\<forall>n. f (Suc n) < (f n :: nat) \<or> f (Suc n) = f n \<and> g (Suc n) < (g n :: nat)"
  shows False
proof -
  have "\<forall>n. ((f (Suc n), g (Suc n)), (f n, g n)) \<in> less_than <*lex*> less_than"
    using assms by auto
  then have "\<exists>h. \<forall>n. (h (Suc n), h n) \<in> less_than <*lex*> less_than"
    by (intro exI [of _ "\<lambda>n. (f n, g n)"]) simp
  moreover have "wf (less_than <*lex*> less_than)" by (intro wf_lex_prod wf_less_than)
  ultimately show ?thesis by (simp add: wf_iff_no_infinite_down_chain)
qed


subsection \<open>A concrete run\<close>

definition demo_config :: Config where
  "demo_config = default_Config\<lparr>numPackets := 1\<rparr>"

definition demo_sent :: TestStats where
  "demo_sent = zeroStats\<lparr>totalBytesSent := 1024, totalPacketsSent := 1\<rparr>"

definition demo_received :: TestStats where
  "demo_received = zeroStats\<lparr>totalBytesReceived := 1024, totalPacketsReceived := 1\<rparr>"

definition demo_dump :: json_printer where
  "demo_dump j = (if j = Config_toJson demo_config then ''c''
     else if j = TestStats_to_json demo_sent then ''s'' else ''r'')"

definition demo_parse :: json_parser where
  "demo_parse t = (if t = ''c'' then Inr (Config_toJson demo_config)
     else if t = ''s'' then Inr (TestStats_to_json demo_sent)
     else Inr (TestStats_to_json demo_received))"

lemma demo_stats:
  "sender_stats demo_config s \<Longrightarrow> timed {0} s \<Longrightarrow> s = demo_sent"
  "receiver_stats demo_config s \<Longrightarrow> timed {0} s \<Longrightarrow> s = demo_received"
  by (simp_all add: sender_stats_def receiver_stats_def timed_def demo_sent_def demo_received_def
      zeroStats_def demo_config_def default_Config_def)

lemma demo_run_ok: "run_ok demo_parse demo_dump {0} demo_config"
proof -
  have "codec_ok demo_parse demo_dump (Config_toJson demo_config)"
    "codec_ok demo_parse demo_dump (TestStats_to_json demo_sent)"
    "codec_ok demo_parse demo_dump (TestStats_to_json demo_received)"
    by (simp_all add: codec_ok_def demo_parse_def demo_dump_def TestStats_to_json_def
        Config_toJson_def demo_sent_def demo_received_def zeroStats_def)
  then show ?thesis
    using demo_stats
    by (auto simp: run_ok_def demo_config_def default_Config_def sendable_def
        sizeof_PacketHeader_def config_valid_def int_range_def INT_MIN_def INT_MAX_def)
qed



end
