(* ===== verification/RunnerMessages.thy ===== *)
theory RunnerMessages
  imports Json "HOL-Library.Sublist"
begin

section \<open>The control protocol of the test runner\<close>

text \<open>
  \<open>TestRunner/Protocol.h\<close>, \<open>Message.h\<close> and \<open>Message.cpp\<close>. The enumerators carry the prefix \<open>MT_\<close>
  (\<open>MessageType\<close>) or \<open>SS_\<close> (\<open>SessionState\<close>), since both C++ enums are scoped and share names.
\<close>

datatype RunnerMessageType =
    MT_CONFIG_REQUEST
  | MT_SERVER_READY
  | MT_TEST_COMPLETE
  | MT_RESULTS_REQUEST
  | MT_RESULTS_RESPONSE
  | MT_ERROR_MESSAGE
  | MT_HEARTBEAT
  | MT_SERVER_SHUTDOWN

fun MessageTypeToString :: "RunnerMessageType \<Rightarrow> string" where
  "MessageTypeToString MT_CONFIG_REQUEST = ''CONFIG_REQUEST''"
| "MessageTypeToString MT_SERVER_READY = ''SERVER_READY''"
| "MessageTypeToString MT_TEST_COMPLETE = ''TEST_COMPLETE''"
| "MessageTypeToString MT_RESULTS_REQUEST = ''RESULTS_REQUEST''"
| "MessageTypeToString MT_RESULTS_RESPONSE = ''RESULTS_RESPONSE''"
| "MessageTypeToString MT_ERROR_MESSAGE = ''ERROR_MESSAGE''"
| "MessageTypeToString MT_HEARTBEAT = ''HEARTBEAT''"
| "MessageTypeToString MT_SERVER_SHUTDOWN = ''SERVER_SHUTDOWN''"

definition StringToMessageType :: "string \<Rightarrow> RunnerMessageType res" where
  "StringToMessageType str =
     (if str = ''CONFIG_REQUEST'' then Inr MT_CONFIG_REQUEST
      else if str = ''SERVER_READY'' then Inr MT_SERVER_READY
      else if str = ''TEST_COMPLETE'' then Inr MT_TEST_COMPLETE
      else if str = ''RESULTS_REQUEST'' then Inr MT_RESULTS_REQUEST
      else if str = ''RESULTS_RESPONSE'' then Inr MT_RESULTS_RESPONSE
      else if str = ''ERROR_MESSAGE'' then Inr MT_ERROR_MESSAGE
      else if str = ''HEARTBEAT'' then Inr MT_HEARTBEAT
      else if str = ''SERVER_SHUTDOWN'' then Inr MT_SERVER_SHUTDOWN
      else Inl (Runtime_error (''Unknown message type: '' @ str)))"

definition DEFAULT_TEST_PORT :: int where "DEFAULT_TEST_PORT = 5201"

definition MAX_MESSAGE_SIZE :: nat where "MAX_MESSAGE_SIZE = 65536"

definition SERVER_START_TIMEOUT_MS :: int where "SERVER_START_TIMEOUT_MS = 20000"

datatype SessionState =
    SS_IDLE
  | SS_CONFIG_RECEIVED
  | SS_SERVER_STARTING
  | SS_SERVER_READY
  | SS_TESTING
  | SS_TEST_COMPLETE
  | SS_RESULTS_SENT
  | SS_ERROR_STATE

fun SessionStateToString :: "SessionState \<Rightarrow> string" where
  "SessionStateToString SS_IDLE = ''IDLE''"
| "SessionStateToString SS_CONFIG_RECEIVED = ''CONFIG_RECEIVED''"
| "SessionStateToString SS_SERVER_STARTING = ''SERVER_STARTING''"
| "SessionStateToString SS_SERVER_READY = ''SERVER_READY''"
| "SessionStateToString SS_TESTING = ''TESTING''"
| "SessionStateToString SS_TEST_COMPLETE = ''TEST_COMPLETE''"
| "SessionStateToString SS_RESULTS_SENT = ''RESULTS_SENT''"
| "SessionStateToString SS_ERROR_STATE = ''ERROR_STATE''"

subsection \<open>Test configuration and result\<close>

record TestConfig =
  tc_mode :: string
  tc_configPath :: string
  tc_targetIP :: string
  tc_serverBindIP :: string
  tc_port :: int
  tc_packetSize :: int
  tc_numPackets :: int
  tc_sendIntervalMs :: int
  tc_saveLogs :: bool
  tc_protocol :: string
  tc_runId :: string
  tc_resultDir :: string

definition default_TestConfig :: TestConfig where
  "default_TestConfig =
     \<lparr>tc_mode = [], tc_configPath = [], tc_targetIP = ''0.0.0.0'', tc_serverBindIP = ''0.0.0.0'',
      tc_port = DEFAULT_TEST_PORT, tc_packetSize = 8192, tc_numPackets = 10000,
      tc_sendIntervalMs = 0, tc_saveLogs = True, tc_protocol = ''TCP'', tc_runId = [],
      tc_resultDir = ''Results''\<rparr>"

record TestResult =
  tr_role :: string
  tr_port :: int
  tr_duration :: double
  tr_throughput :: double
  tr_hostTotalBytes :: int
  tr_totalBytes :: int
  tr_totalPackets :: int
  tr_expectedBytes :: int
  tr_expectedPackets :: int
  tr_sequenceErrors :: int
  tr_checksumErrors :: int
  tr_contentMismatches :: int
  tr_failureReason :: string
  tr_success :: bool

definition empty_TestResult :: TestResult where
  "empty_TestResult =
     \<lparr>tr_role = [], tr_port = 0, tr_duration = 0, tr_throughput = 0, tr_hostTotalBytes = 0,
      tr_totalBytes = 0, tr_totalPackets = 0, tr_expectedBytes = 0, tr_expectedPackets = 0,
      tr_sequenceErrors = 0, tr_checksumErrors = 0, tr_contentMismatches = 0,
      tr_failureReason = [], tr_success = False\<rparr>"

definition TestConfig_to_json :: "TestConfig \<Rightarrow> json" where
  "TestConfig_to_json c = json_object
     [(''mode'', JString (tc_mode c)),
      (''configPath'', JString (tc_configPath c)),
      (''targetIP'', JString (tc_targetIP c)),
      (''serverBindIP'', JString (tc_serverBindIP c)),
      (''port'', JInt (tc_port c)),
      (''packetSize'', JInt (tc_packetSize c)),
      (''numPackets'', JInt (tc_numPackets c)),
      (''sendIntervalMs'', JInt (tc_sendIntervalMs c)),
      (''saveLogs'', JBool (tc_saveLogs c)),
      (''protocol'', JString (tc_protocol c)),
      (''runId'', JString (tc_runId c)),
      (''resultDir'', JString (tc_resultDir c))]"

definition TestConfig_from_json :: "json \<Rightarrow> TestConfig res" where
  "TestConfig_from_json j = run_all
     [at_get ''mode'' get_string (assign (\<lambda>x c. c\<lparr>tc_mode := x\<rparr>)) j,
      at_get ''configPath'' get_string (assign (\<lambda>x c. c\<lparr>tc_configPath := x\<rparr>)) j,
      at_get ''targetIP'' get_string (assign (\<lambda>x c. c\<lparr>tc_targetIP := x\<rparr>)) j,
      opt_get ''serverBindIP'' get_string (assign (\<lambda>x c. c\<lparr>tc_serverBindIP := x\<rparr>)) j,
      at_get ''port'' get_int (assign (\<lambda>x c. c\<lparr>tc_port := x\<rparr>)) j,
      at_get ''packetSize'' get_int (assign (\<lambda>x c. c\<lparr>tc_packetSize := x\<rparr>)) j,
      at_get ''numPackets'' get_llong (assign (\<lambda>x c. c\<lparr>tc_numPackets := x\<rparr>)) j,
      at_get ''sendIntervalMs'' get_int (assign (\<lambda>x c. c\<lparr>tc_sendIntervalMs := x\<rparr>)) j,
      at_get ''saveLogs'' get_bool (assign (\<lambda>x c. c\<lparr>tc_saveLogs := x\<rparr>)) j,
      at_get ''protocol'' get_string (assign (\<lambda>x c. c\<lparr>tc_protocol := x\<rparr>)) j,
      opt_get ''runId'' get_string (assign (\<lambda>x c. c\<lparr>tc_runId := x\<rparr>)) j,
      opt_get ''resultDir'' get_string (assign (\<lambda>x c. c\<lparr>tc_resultDir := x\<rparr>)) j]
     default_TestConfig"

definition TestResult_to_json :: "TestResult \<Rightarrow> json" where
  "TestResult_to_json r = json_object
     [(''role'', JString (tr_role r)),
      (''port'', JInt (tr_port r)),
      (''duration'', JFloat (tr_duration r)),
      (''throughput'', JFloat (tr_throughput r)),
      (''hostTotalBytes'', JInt (tr_hostTotalBytes r)),
      (''totalBytes'', JInt (tr_totalBytes r)),
      (''totalPackets'', JInt (tr_totalPackets r)),
      (''expectedBytes'', JInt (tr_expectedBytes r)),
      (''expectedPackets'', JInt (tr_expectedPackets r)),
      (''sequenceErrors'', JInt (tr_sequenceErrors r)),
      (''checksumErrors'', JInt (tr_checksumErrors r)),
      (''contentMismatches'', JInt (tr_contentMismatches r)),
      (''failureReason'', JString (tr_failureReason r)),
      (''success'', JBool (tr_success r))]"

definition TestResult_from_json :: "json \<Rightarrow> TestResult res" where
  "TestResult_from_json j = run_all
     [at_get ''role'' get_string (assign (\<lambda>x r. r\<lparr>tr_role := x\<rparr>)) j,
      at_get ''port'' get_int (assign (\<lambda>x r. r\<lparr>tr_port := x\<rparr>)) j,
      at_get ''duration'' get_double (assign (\<lambda>x r. r\<lparr>tr_duration := x\<rparr>)) j,
      at_get ''throughput'' get_double (assign (\<lambda>x r. r\<lparr>tr_throughput := x\<rparr>)) j,
      opt_get ''hostTotalBytes'' get_llong (assign (\<lambda>x r. r\<lparr>tr_hostTotalBytes := x\<rparr>)) j,
      at_get ''totalBytes'' get_llong (assign (\<lambda>x r. r\<lparr>tr_totalBytes := x\<rparr>)) j,
      at_get ''totalPackets'' get_llong (assign (\<lambda>x r. r\<lparr>tr_totalPackets := x\<rparr>)) j,
      at_get ''expectedBytes'' get_llong (assign (\<lambda>x r. r\<lparr>tr_expectedBytes := x\<rparr>)) j,
      at_get ''expectedPackets'' get_llong (assign (\<lambda>x r. r\<lparr>tr_expectedPackets := x\<rparr>)) j,
      at_get ''sequenceErrors'' get_llong (assign (\<lambda>x r. r\<lparr>tr_sequenceErrors := x\<rparr>)) j,
      at_get ''checksumErrors'' get_llong (assign (\<lambda>x r. r\<lparr>tr_checksumErrors := x\<rparr>)) j,
      at_get ''contentMismatches'' get_llong (assign (\<lambda>x r. r\<lparr>tr_contentMismatches := x\<rparr>)) j,
      at_get ''failureReason'' get_string (assign (\<lambda>x r. r\<lparr>tr_failureReason := x\<rparr>)) j,
      at_get ''success'' get_bool (assign (\<lambda>x r. r\<lparr>tr_success := x\<rparr>)) j]
     empty_TestResult"

definition TestConfig_in_range :: "TestConfig \<Rightarrow> bool" where
  "TestConfig_in_range c \<longleftrightarrow> int_range (tc_port c) \<and> int_range (tc_packetSize c) \<and>
     llong_range (tc_numPackets c) \<and> int_range (tc_sendIntervalMs c)"

definition TestResult_in_range :: "TestResult \<Rightarrow> bool" where
  "TestResult_in_range r \<longleftrightarrow> int_range (tr_port r) \<and>
     (\<forall>n \<in> {tr_hostTotalBytes r, tr_totalBytes r, tr_totalPackets r, tr_expectedBytes r,
        tr_expectedPackets r, tr_sequenceErrors r, tr_checksumErrors r, tr_contentMismatches r}.
        llong_range n)"

interpretation test_config: json_codec TestConfig_to_json TestConfig_from_json TestConfig_in_range
  by unfold_locales (simp add: TestConfig_from_json_def TestConfig_to_json_def
      TestConfig_in_range_def default_TestConfig_def codec_simps del: get_signed.simps)

interpretation test_result: json_codec TestResult_to_json TestResult_from_json TestResult_in_range
  by unfold_locales (simp add: TestResult_from_json_def TestResult_to_json_def
      TestResult_in_range_def empty_TestResult_def codec_simps del: get_signed.simps)

subsection \<open>Messages\<close>

text \<open>
  The message structs: the base \<open>Message\<close> with its type and \<open>errorMessage\<close> (what \<open>SerializeMessage\<close>
  takes; \<open>ServerShutdownMessage\<close> has no more), and the derived structs, whose type is fixed by
  their constructors. Each is written by the function of the same name.
\<close>

datatype RunnerMessage =
    BaseMessage RunnerMessageType string
  | ConfigRequestMessage TestConfig
  | ServerReadyMessage int string
  | TestCompleteMessage int bool
  | ResultsRequestMessage int TestResult
  | ResultsResponseMessage TestResult
  | ErrorMessage string
  | ServerShutdownMessage

fun message_type :: "RunnerMessage \<Rightarrow> RunnerMessageType" where
  "message_type (BaseMessage t e) = t"
| "message_type (ConfigRequestMessage c) = MT_CONFIG_REQUEST"
| "message_type (ServerReadyMessage p ip) = MT_SERVER_READY"
| "message_type (TestCompleteMessage p ok) = MT_TEST_COMPLETE"
| "message_type (ResultsRequestMessage p r) = MT_RESULTS_REQUEST"
| "message_type (ResultsResponseMessage r) = MT_RESULTS_RESPONSE"
| "message_type (ErrorMessage e) = MT_ERROR_MESSAGE"
| "message_type ServerShutdownMessage = MT_SERVER_SHUTDOWN"

text \<open>The assignments \<open>j[key] = value\<close> after \<open>j["messageType"]\<close>.\<close>

fun message_fields :: "RunnerMessage \<Rightarrow> (string \<times> json) list" where
  "message_fields (BaseMessage t e) = (if e \<noteq> [] then [(''errorMessage'', JString e)] else [])"
| "message_fields (ConfigRequestMessage c) = [(''testConfig'', TestConfig_to_json c)]"
| "message_fields (ServerReadyMessage p ip) = [(''port'', JInt p), (''serverIP'', JString ip)]"
| "message_fields (TestCompleteMessage p ok) = [(''port'', JInt p), (''success'', JBool ok)]"
| "message_fields (ResultsRequestMessage p r) =
     [(''port'', JInt p), (''clientResult'', TestResult_to_json r)]"
| "message_fields (ResultsResponseMessage r) = [(''serverResult'', TestResult_to_json r)]"
| "message_fields (ErrorMessage e) = [(''error'', JString e)]"
| "message_fields ServerShutdownMessage = []"

definition message_json :: "RunnerMessage \<Rightarrow> json" where
  "message_json m = foldl (\<lambda>j (k, v). json_set k v j) JNull
     ((''messageType'', JString (MessageTypeToString (message_type m))) # message_fields m)"

definition SerializeMessage :: "json_printer \<Rightarrow> RunnerMessage \<Rightarrow> string" where
  "SerializeMessage dump m = dump (message_json m)"

definition GetMessageType :: "json_parser \<Rightarrow> string \<Rightarrow> RunnerMessageType res" where
  "GetMessageType parse s =
     (case res_bind (parse s) (\<lambda>j. res_bind (json_at ''messageType'' j)
             (\<lambda>v. res_bind (get_string v) StringToMessageType)) of
        Inl e \<Rightarrow> Inl (Runtime_error (''Failed to parse message type: '' @ exn_what e))
      | Inr t \<Rightarrow> Inr t)"

definition DeserializeConfigRequest :: "json_parser \<Rightarrow> string \<Rightarrow> TestConfig res" where
  "DeserializeConfigRequest parse s =
     res_bind (parse s) (\<lambda>j. res_bind (json_at ''testConfig'' j) TestConfig_from_json)"

definition DeserializeServerReady :: "json_parser \<Rightarrow> string \<Rightarrow> (int \<times> string) res" where
  "DeserializeServerReady parse s =
     res_bind (parse s) (\<lambda>j.
     res_bind (res_bind (json_at ''port'' j) get_int) (\<lambda>p.
     res_bind (res_bind (json_at ''serverIP'' j) get_string) (\<lambda>ip. Inr (p, ip))))"

definition DeserializeTestComplete :: "json_parser \<Rightarrow> string \<Rightarrow> (int \<times> bool) res" where
  "DeserializeTestComplete parse s =
     res_bind (parse s) (\<lambda>j.
     res_bind (res_bind (json_at ''port'' j) get_int) (\<lambda>p.
     res_bind (res_bind (json_at ''success'' j) get_bool) (\<lambda>ok. Inr (p, ok))))"

definition DeserializeResultsRequest :: "json_parser \<Rightarrow> string \<Rightarrow> (int \<times> TestResult) res" where
  "DeserializeResultsRequest parse s =
     res_bind (parse s) (\<lambda>j.
     res_bind (res_bind (json_at ''port'' j) get_int) (\<lambda>p.
     res_bind (res_bind (json_at ''clientResult'' j) TestResult_from_json) (\<lambda>r. Inr (p, r))))"

definition DeserializeResultsResponse :: "json_parser \<Rightarrow> string \<Rightarrow> TestResult res" where
  "DeserializeResultsResponse parse s =
     res_bind (parse s) (\<lambda>j. res_bind (json_at ''serverResult'' j) TestResult_from_json)"

definition DeserializeError :: "json_parser \<Rightarrow> string \<Rightarrow> string res" where
  "DeserializeError parse s = res_bind (parse s) (\<lambda>j. res_bind (json_at ''error'' j) get_string)"

text \<open>
  What a peer gets that reads the type of a message and then the message with the matching
  function; \<open>HEARTBEAT\<close> has no function of its own.
\<close>

definition read_message :: "json_parser \<Rightarrow> string \<Rightarrow> RunnerMessage res" where
  "read_message parse s =
     res_bind (GetMessageType parse s) (\<lambda>t. case t of
        MT_CONFIG_REQUEST \<Rightarrow> res_bind (DeserializeConfigRequest parse s) (\<lambda>c. Inr (ConfigRequestMessage c))
      | MT_SERVER_READY \<Rightarrow> res_bind (DeserializeServerReady parse s) (\<lambda>(p, ip). Inr (ServerReadyMessage p ip))
      | MT_TEST_COMPLETE \<Rightarrow> res_bind (DeserializeTestComplete parse s) (\<lambda>(p, ok). Inr (TestCompleteMessage p ok))
      | MT_RESULTS_REQUEST \<Rightarrow> res_bind (DeserializeResultsRequest parse s) (\<lambda>(p, r). Inr (ResultsRequestMessage p r))
      | MT_RESULTS_RESPONSE \<Rightarrow> res_bind (DeserializeResultsResponse parse s) (\<lambda>r. Inr (ResultsResponseMessage r))
      | MT_ERROR_MESSAGE \<Rightarrow> res_bind (DeserializeError parse s) (\<lambda>e. Inr (ErrorMessage e))
      | MT_HEARTBEAT \<Rightarrow> Inr (BaseMessage MT_HEARTBEAT [])
      | MT_SERVER_SHUTDOWN \<Rightarrow> Inr ServerShutdownMessage)"

fun message_ok :: "RunnerMessage \<Rightarrow> bool" where
  "message_ok (BaseMessage t e) \<longleftrightarrow> t = MT_HEARTBEAT \<and> e = []"
| "message_ok (ConfigRequestMessage c) \<longleftrightarrow> TestConfig_in_range c"
| "message_ok (ServerReadyMessage p ip) \<longleftrightarrow> int_range p"
| "message_ok (TestCompleteMessage p ok) \<longleftrightarrow> int_range p"
| "message_ok (ResultsRequestMessage p r) \<longleftrightarrow> int_range p \<and> TestResult_in_range r"
| "message_ok (ResultsResponseMessage r) \<longleftrightarrow> TestResult_in_range r"
| "message_ok (ErrorMessage e) \<longleftrightarrow> True"
| "message_ok ServerShutdownMessage \<longleftrightarrow> True"

lemma StringToMessageType_of_string [simp]: "StringToMessageType (MessageTypeToString t) = Inr t"
  by (cases t) (simp_all add: StringToMessageType_def)

lemma MessageTypeToString_of_type: "StringToMessageType s = Inr t \<Longrightarrow> MessageTypeToString t = s"
  by (auto simp: StringToMessageType_def split: if_splits)

lemma message_json_type:
  "json_at ''messageType'' (message_json m) = Inr (JString (MessageTypeToString (message_type m)))"
  by (cases m) (simp_all add: message_json_def codec_simps)

lemma GetMessageType_message:
  assumes "parse s = Inr (message_json m)"
  shows "GetMessageType parse s = Inr (message_type m)"
  by (simp add: GetMessageType_def assms message_json_type)

lemmas deserialize_defs =
  DeserializeConfigRequest_def DeserializeServerReady_def DeserializeTestComplete_def
  DeserializeResultsRequest_def DeserializeResultsResponse_def DeserializeError_def

text \<open>
  every message of the control protocol is read back as it was written, its type first, when
  the JSON library parses what it printed and the integers fit their types.
\<close>

theorem message_roundtrip:
  assumes "message_ok m" and "parse (SerializeMessage dump m) = Inr (message_json m)"
  shows "GetMessageType parse (SerializeMessage dump m) = Inr (message_type m) \<and>
    read_message parse (SerializeMessage dump m) = Inr m"
proof
  show type: "GetMessageType parse (SerializeMessage dump m) = Inr (message_type m)"
    using assms(2) by (rule GetMessageType_message)
  show "read_message parse (SerializeMessage dump m) = Inr m"
    using assms type
    by (cases m) (simp_all add: read_message_def deserialize_defs message_json_def codec_simps
        test_config.dec_enc test_result.dec_enc del: get_signed.simps)
qed

theorem message_roundtrip_witness:
  "let m = ServerReadyMessage 5201 ''10.0.0.1'';
       parse = (\<lambda>s. Inr (message_json m)); dump = (\<lambda>j. ''{}'') in
   GetMessageType parse (SerializeMessage dump m) = Inr MT_SERVER_READY \<and>
   read_message parse (SerializeMessage dump m) = Inr m"
  using message_roundtrip [of "ServerReadyMessage 5201 ''10.0.0.1''"
      "\<lambda>s. Inr (message_json (ServerReadyMessage 5201 ''10.0.0.1''))" "\<lambda>j. ''{}''"]
  by (simp add: Let_def int_range_def INT_MIN_def INT_MAX_def)

subsection \<open>The verdict on a result\<close>

definition flag :: "bool \<Rightarrow> string \<Rightarrow> bool \<times> string \<Rightarrow> bool \<times> string" where
  "flag failed msg = (\<lambda>(passed, reason). if failed then (False, reason @ msg) else (passed, reason))"

definition analyze_checks :: "int \<Rightarrow> int \<Rightarrow> TestResult \<Rightarrow> bool \<times> string" where
  "analyze_checks expectedPackets expectedBytes r =
     (let st = (True, []);
          st = flag (\<not> tr_success r \<and> tr_failureReason r \<noteq> []) (tr_failureReason r @ ''; '') st;
          st = flag (expectedPackets > 0 \<and> tr_totalPackets r \<noteq> expectedPackets)
            (''Packet count mismatch (Rx: '' @ show_int (tr_totalPackets r) @ '', Exp: '' @
             show_int expectedPackets @ ''); '') st;
          st = flag (expectedBytes > 0 \<and> tr_totalBytes r \<noteq> expectedBytes)
            (''Byte count mismatch (Rx: '' @ show_int (tr_totalBytes r) @ '', Exp: '' @
             show_int expectedBytes @ ''); '') st;
          st = flag (tr_totalPackets r \<le> 0) ''No packets parsed from IPEFTC output; '' st;
          st = flag (tr_sequenceErrors r > 0)
            (''Sequence errors detected ('' @ show_int (tr_sequenceErrors r) @ ''); '') st;
          st = flag (tr_checksumErrors r > 0)
            (''Checksum errors detected ('' @ show_int (tr_checksumErrors r) @ ''); '') st
      in flag (tr_contentMismatches r > 0)
           (''Content mismatches detected ('' @ show_int (tr_contentMismatches r) @ ''); '') st)"

definition AnalyzeTestResult :: "int \<Rightarrow> int \<Rightarrow> TestResult \<Rightarrow> TestResult" where
  "AnalyzeTestResult expectedPackets expectedBytes r =
     (let r = r\<lparr>tr_expectedPackets := expectedPackets, tr_expectedBytes := expectedBytes\<rparr>;
          (passed, reason) = analyze_checks expectedPackets expectedBytes r;
          r = r\<lparr>tr_success := passed, tr_failureReason := reason\<rparr>
      in if passed \<and> tr_failureReason r = []
         then r\<lparr>tr_failureReason := ''Test passed successfully''\<rparr> else r)"

text \<open>What makes a result good.\<close>

definition result_good :: "int \<Rightarrow> int \<Rightarrow> TestResult \<Rightarrow> bool" where
  "result_good expectedPackets expectedBytes r \<longleftrightarrow>
     (tr_success r \<or> tr_failureReason r = []) \<and>
     tr_totalPackets r > 0 \<and>
     (expectedPackets > 0 \<longrightarrow> tr_totalPackets r = expectedPackets) \<and>
     (expectedBytes > 0 \<longrightarrow> tr_totalBytes r = expectedBytes) \<and>
     tr_sequenceErrors r \<le> 0 \<and> tr_checksumErrors r \<le> 0 \<and> tr_contentMismatches r \<le> 0"

text \<open>A chain of checks passes when none fails; its reason is empty or ends in a semicolon.\<close>

definition reason_ok :: "bool \<times> string \<Rightarrow> bool" where
  "reason_ok st \<longleftrightarrow> (if fst st then snd st = [] else suffix ''; '' (snd st))"

lemma flag_fst [simp]: "fst (flag b msg st) \<longleftrightarrow> \<not> b \<and> fst st"
  by (cases st) (simp add: flag_def)

lemma flag_reason_ok: "reason_ok st \<Longrightarrow> suffix ''; '' msg \<Longrightarrow> reason_ok (flag b msg st)"
  by (cases st) (auto simp: flag_def reason_ok_def suffix_appendI)

lemma reason_ok_start: "reason_ok (True, [])"
  by (simp add: reason_ok_def)

lemma suffix_semicolon: "suffix ''; '' (a @ ''; '')" "suffix ''; '' (a @ ''); '')"
  "suffix ''; '' ''No packets parsed from IPEFTC output; ''"
  by (simp_all add: suffix_appendI suffix_Cons)

lemma suffix_semicolon_deep: "suffix ''; '' (a @ b @ ''); '')" "suffix ''; '' (a @ b @ c @ d @ ''); '')"
  by (intro suffix_appendI, simp add: suffix_Cons)+

lemma analyze_checks_good:
  "fst (analyze_checks expectedPackets expectedBytes r) \<longleftrightarrow> result_good expectedPackets expectedBytes r"
  unfolding analyze_checks_def Let_def flag_fst by (auto simp: result_good_def)

lemma analyze_checks_reason: "reason_ok (analyze_checks expectedPackets expectedBytes r)"
  unfolding analyze_checks_def Let_def
  by (intro flag_reason_ok reason_ok_start suffix_semicolon suffix_semicolon_deep)

lemma result_good_expected [simp]:
  "result_good p b (r\<lparr>tr_expectedPackets := x, tr_expectedBytes := y\<rparr>) \<longleftrightarrow> result_good p b r"
  by (simp add: result_good_def)

lemma AnalyzeTestResult_lemma:
  assumes "r' = AnalyzeTestResult expectedPackets expectedBytes r"
  shows "(tr_success r' \<longleftrightarrow> result_good expectedPackets expectedBytes r) \<and>
    (tr_failureReason r' = ''Test passed successfully'' \<longleftrightarrow> tr_success r')"
proof -
  let ?r = "r\<lparr>tr_expectedPackets := expectedPackets, tr_expectedBytes := expectedBytes\<rparr>"
  obtain passed reason where st: "analyze_checks expectedPackets expectedBytes ?r = (passed, reason)"
    by force
  have "passed \<longleftrightarrow> result_good expectedPackets expectedBytes r"
    using analyze_checks_good [of expectedPackets expectedBytes ?r] st by simp
  moreover have "reason_ok (passed, reason)"
    using analyze_checks_reason [of expectedPackets expectedBytes ?r] st by simp
  ultimately show ?thesis
    by (auto simp: assms AnalyzeTestResult_def st reason_ok_def suffix_Cons)
qed

text \<open>
  A result is judged a success exactly when nothing failed before and the counts are as
  expected, at least one packet was counted and no error; the reason then says so, and otherwise
  says what is wrong.
\<close>

theorem AnalyzeTestResult_verdict:
  "let r' = AnalyzeTestResult expectedPackets expectedBytes r in
   (tr_success r' \<longleftrightarrow> result_good expectedPackets expectedBytes r) \<and>
   (tr_failureReason r' = ''Test passed successfully'' \<longleftrightarrow> tr_success r')"
  unfolding Let_def by (rule AnalyzeTestResult_lemma) (rule refl)

end
