(* ===== verification/ControlFraming.thy ===== *)
theory ControlFraming
  imports Protocol RunnerMessages
begin

section \<open>Length-prefixed messages on a TCP socket\<close>

text \<open>
  \<open>SendAll\<close>, \<open>RecvAll\<close>, \<open>SendMessage\<close> and \<open>ReceiveMessage\<close>, which \<open>TestRunner/ControlServer.cpp\<close> and
  \<open>ControlClient.cpp\<close> both contain. A connected socket is what the system calls will answer: the
  chunks that \<open>recv\<close> finds (an empty one, or the end of the list, is a closed connection or an
  error), how many bytes each \<open>send\<close> accepts (0, or the end of the list, is a failure), and the bytes
  accepted so far.
\<close>

record Socket =
  sk_in :: "bytes list"
  sk_send :: "nat list"
  sk_out :: bytes

definition sys_recv :: "nat \<Rightarrow> Socket \<Rightarrow> bytes \<times> Socket" where
  "sys_recv n s =
     (case sk_in s of
        [] \<Rightarrow> ([], s)
      | c # cs \<Rightarrow> (take n c, s\<lparr>sk_in := if length c \<le> n then cs else drop n c # cs\<rparr>))"

definition sys_send :: "bytes \<Rightarrow> Socket \<Rightarrow> nat \<times> Socket" where
  "sys_send data s =
     (case sk_send s of
        [] \<Rightarrow> (0, s)
      | k # ks \<Rightarrow> (min k (length data),
          s\<lparr>sk_send := ks, sk_out := sk_out s @ take (min k (length data)) data\<rparr>))"

subsection \<open>Whole buffers\<close>

function SendAll :: "bytes \<Rightarrow> Socket \<Rightarrow> bool \<times> Socket" where
  "SendAll data s =
     (if data = [] then (True, s)
      else case sys_send data s of
             (sent, s') \<Rightarrow> if sent = 0 then (False, s') else SendAll (drop sent data) s')"
  by pat_completeness auto
termination
  by (relation "measure (\<lambda>(data, s). length data)") auto

function RecvAll :: "nat \<Rightarrow> Socket \<Rightarrow> bytes option \<times> Socket" where
  "RecvAll n s =
     (if n = 0 then (Some [], s)
      else case sys_recv n s of
             (received, s') \<Rightarrow>
               if received = [] then (None, s')
               else case RecvAll (n - length received) s' of
                      (None, s'') \<Rightarrow> (None, s'')
                    | (Some rest, s'') \<Rightarrow> (Some (received @ rest), s''))"
  by pat_completeness auto
termination
  by (relation "measure (\<lambda>(n, s). n)") auto

declare SendAll.simps [simp del] RecvAll.simps [simp del]

lemma SendAll_rec:
  "SendAll [] s = (True, s)"
  "SendAll (x # xs) s =
     (case sys_send (x # xs) s of
        (sent, s') \<Rightarrow> if sent = 0 then (False, s') else SendAll (drop sent (x # xs)) s')"
  by (simp_all add: SendAll.simps)

subsection \<open>Messages\<close>

text \<open>The 4 bytes of \<open>htonl(length)\<close>.\<close>

definition be32 :: "nat \<Rightarrow> bytes" where
  "be32 n = rev (le_encode 4 n)"

definition un_be32 :: "bytes \<Rightarrow> nat" where
  "un_be32 bs = le_decode (rev bs)"

definition SendMessage :: "string \<Rightarrow> Socket \<Rightarrow> bool \<times> Socket" where
  "SendMessage msg s =
     (if length msg > MAX_MESSAGE_SIZE then (False, s)
      else case SendAll (be32 (length msg)) s of
             (False, s') \<Rightarrow> (False, s')
           | (True, s') \<Rightarrow> SendAll msg s')"

text \<open>The empty string stands for a closed connection and for every error.\<close>

definition ReceiveMessage :: "Socket \<Rightarrow> string \<times> Socket" where
  "ReceiveMessage s =
     (case RecvAll 4 s of
        (None, s') \<Rightarrow> ([], s')
      | (Some networkLen, s') \<Rightarrow>
          let len = un_be32 networkLen in
          if len = 0 \<or> len > MAX_MESSAGE_SIZE then ([], s')
          else case RecvAll len s' of
                 (None, s'') \<Rightarrow> ([], s'')
               | (Some buf, s'') \<Rightarrow> (buf, s''))"

subsection \<open>What the buffers give\<close>

definition sk_stream :: "Socket \<Rightarrow> bytes" where
  "sk_stream s = concat (sk_in s)"

definition chunks_ok :: "Socket \<Rightarrow> bool" where
  "chunks_ok s \<longleftrightarrow> [] \<notin> set (sk_in s)"

lemma sys_recv_ok:
  assumes "sys_recv n s = (d, s')" and "chunks_ok s" and "0 < n" and "sk_stream s \<noteq> []"
  shows "d \<noteq> []" "length d \<le> n" "sk_stream s = d @ sk_stream s'" "chunks_ok s'"
    "sk_out s' = sk_out s" "sk_send s' = sk_send s"
  using assms
  by (auto simp: sys_recv_def sk_stream_def chunks_ok_def split: list.splits if_splits)

lemma RecvAll_ok:
  assumes "chunks_ok s" and "n \<le> length (sk_stream s)"
  shows "\<exists>s'. RecvAll n s = (Some (take n (sk_stream s)), s') \<and> sk_stream s' = drop n (sk_stream s) \<and>
    chunks_ok s' \<and> sk_out s' = sk_out s \<and> sk_send s' = sk_send s"
  using assms
proof (induction n s rule: RecvAll.induct)
  case (1 n s)
  show ?case
  proof (cases "n = 0")
    case True
    then show ?thesis using 1(2) by (subst RecvAll.simps) auto
  next
    case False
    obtain d s1 where r: "sys_recv n s = (d, s1)" by force
    have "sk_stream s \<noteq> []" using False 1(3) by auto
    note d = sys_recv_ok [OF r 1(2) _ this]
    have "\<exists>s'. RecvAll (n - length d) s1 = (Some (take (n - length d) (sk_stream s1)), s') \<and>
        sk_stream s' = drop (n - length d) (sk_stream s1) \<and> chunks_ok s' \<and>
        sk_out s' = sk_out s1 \<and> sk_send s' = sk_send s1"
      using d False r 1(3) by (intro 1(1)) auto
    with d False r show ?thesis by (subst RecvAll.simps) auto
  qed
qed

text \<open>A stream that ends too early is never read as a whole buffer.\<close>

lemma RecvAll_Some:
  "RecvAll n s = (Some d, s') \<Longrightarrow> length d = n \<and> sk_stream s = d @ sk_stream s'"
proof (induction n s arbitrary: d rule: RecvAll.induct)
  case (1 n s)
  show ?case
  proof (cases "n = 0")
    case True
    then show ?thesis using 1(2) by (simp add: RecvAll.simps [of 0])
  next
    case False
    obtain e s1 where r: "sys_recv n s = (e, s1)" by force
    with 1(2) False obtain rest where rest: "e \<noteq> []" "RecvAll (n - length e) s1 = (Some rest, s')"
      "d = e @ rest"
      by (subst (asm) RecvAll.simps) (auto split: if_splits prod.splits option.splits)
    have "length rest = n - length e \<and> sk_stream s1 = rest @ sk_stream s'"
      using 1(1) [OF False r [symmetric] rest(1,2)] .
    moreover have "length e \<le> n" "sk_stream s = e @ sk_stream s1"
      using r rest(1) by (auto simp: sys_recv_def sk_stream_def split: list.splits if_splits)
    ultimately show ?thesis using rest(3) by simp
  qed
qed

lemma SendAll_prefix:
  "SendAll data s = (ok, s') \<Longrightarrow>
     \<exists>k. sk_out s' = sk_out s @ take k data \<and> sk_in s' = sk_in s \<and> (ok \<longrightarrow> k = length data)"
proof (induction data s rule: SendAll.induct)
  case (1 data s)
  show ?case
  proof (cases "data = []")
    case True
    then show ?thesis using 1(2) by (auto simp: SendAll.simps [of "[]"] intro: exI [of _ 0])
  next
    case False
    obtain sent s1 where r: "sys_send data s = (sent, s1)" by force
    have s1: "sk_out s1 = sk_out s @ take sent data" "sk_in s1 = sk_in s" "sent \<le> length data"
      using r by (auto simp: sys_send_def split: list.splits)
    show ?thesis
    proof (cases "sent = 0")
      case True
      then show ?thesis using 1(2) False r s1 by (subst (asm) SendAll.simps) (auto intro: exI [of _ 0])
    next
      case sent: False
      with 1(2) False r have "SendAll (drop sent data) s1 = (ok, s')"
        by (subst (asm) SendAll.simps) simp
      from 1(1) [OF False r [symmetric] sent this] obtain k where
        "sk_out s' = sk_out s1 @ take k (drop sent data)" "sk_in s' = sk_in s1"
        "ok \<longrightarrow> k = length (drop sent data)" by blast
      then show ?thesis using s1 by (intro exI [of _ "sent + k"]) (auto simp: take_add)
    qed
  qed
qed

lemma SendAll_True: "SendAll data s = (True, s') \<Longrightarrow> sk_out s' = sk_out s @ data \<and> sk_in s' = sk_in s"
  using SendAll_prefix [of data s True s'] by auto

subsection \<open>Messages in a row\<close>

definition frame :: "string \<Rightarrow> bytes" where
  "frame msg = be32 (length msg) @ msg"

definition sendable_message :: "string \<Rightarrow> bool" where
  "sendable_message msg \<longleftrightarrow> msg \<noteq> [] \<and> length msg \<le> MAX_MESSAGE_SIZE"

fun send_messages :: "string list \<Rightarrow> Socket \<Rightarrow> bool \<times> Socket" where
  "send_messages [] s = (True, s)"
| "send_messages (m # ms) s =
     (case SendMessage m s of (ok, s') \<Rightarrow> if ok then send_messages ms s' else (False, s'))"

text \<open>The messages of a peer that reads until \<open>ReceiveMessage\<close> gives the empty string.\<close>

fun receive_messages :: "nat \<Rightarrow> Socket \<Rightarrow> string list" where
  "receive_messages 0 s = []"
| "receive_messages (Suc n) s =
     (case ReceiveMessage s of (m, s') \<Rightarrow> if m = [] then [] else m # receive_messages n s')"

lemma length_be32 [simp]: "length (be32 n) = 4"
  by (simp add: be32_def)

lemma un_be32_be32: "n < 2 ^ 32 \<Longrightarrow> un_be32 (be32 n) = n"
  by (simp add: un_be32_def be32_def le_decode_encode del: le_encode.simps)

lemma SendMessage_True:
  assumes "SendMessage m s = (True, s')"
  shows "length m \<le> MAX_MESSAGE_SIZE" "sk_out s' = sk_out s @ frame m"
  using assms
  by (auto simp: SendMessage_def frame_def split: if_splits prod.splits bool.splits
      dest!: SendAll_True)

lemma send_messages_True:
  "send_messages ms s = (True, s') \<Longrightarrow> sk_out s' = sk_out s @ concat (map frame ms)"
  by (induction ms arbitrary: s) (auto split: prod.splits if_splits dest!: SendMessage_True(2))

lemma ReceiveMessage_frame:
  assumes "chunks_ok s" and "sk_stream s = frame m @ rest" and "sendable_message m"
  shows "\<exists>s'. ReceiveMessage s = (m, s') \<and> chunks_ok s' \<and> sk_stream s' = rest"
proof -
  have "4 \<le> length (sk_stream s)" using assms(2) by (simp add: frame_def)
  from RecvAll_ok [OF assms(1) this] obtain s1 where s1: "RecvAll 4 s = (Some (be32 (length m)), s1)"
    "sk_stream s1 = m @ rest" "chunks_ok s1"
    using assms(2) by (auto simp: frame_def)
  from RecvAll_ok [OF s1(3), of "length m"] s1(2) obtain s2 where
    "RecvAll (length m) s1 = (Some m, s2)" "sk_stream s2 = rest" "chunks_ok s2"
    by auto
  moreover have "length m \<noteq> 0" "\<not> length m > MAX_MESSAGE_SIZE" "un_be32 (be32 (length m)) = length m"
    using assms(3) by (auto simp: sendable_message_def MAX_MESSAGE_SIZE_def intro: un_be32_be32)
  ultimately show ?thesis using s1(1) by (simp add: ReceiveMessage_def)
qed

lemma ReceiveMessage_closed:
  assumes "sk_stream s = []"
  shows "fst (ReceiveMessage s) = []"
proof (cases "RecvAll 4 s")
  case (Pair d s')
  then show ?thesis using RecvAll_Some [of 4 s _ s'] assms
    by (cases d) (auto simp: ReceiveMessage_def)
qed

lemma receive_messages_frames:
  assumes "chunks_ok s" and "sk_stream s = concat (map frame ms)" and "\<forall>m \<in> set ms. sendable_message m"
  shows "receive_messages (length ms + Suc k) s = ms"
  using assms
proof (induction ms arbitrary: s)
  case Nil
  then show ?case using ReceiveMessage_closed [of s] by (auto split: prod.splits)
next
  case (Cons m ms)
  then obtain s' where "ReceiveMessage s = (m, s')" "chunks_ok s'" "sk_stream s' = concat (map frame ms)"
    using ReceiveMessage_frame [of s m "concat (map frame ms)"] by auto
  with Cons show ?case by (simp add: sendable_message_def)
qed

text \<open>
  C16: messages sent one after the other are received as they were, in this order, however \<open>send\<close>
  and TCP split them; then the receiver sees the end of the connection. One \<open>ReceiveMessage\<close> more
  than there are messages is enough.
\<close>

theorem framing_roundtrip:
  assumes "send_messages ms s = (True, s')" and "[] \<notin> set ms"
    and "sk_out s' = sk_out s @ concat (sk_in r)" and "[] \<notin> set (sk_in r)"
    and "n > length ms"
  shows "receive_messages n r = ms"
proof -
  have "\<forall>m \<in> set ms. length m \<le> MAX_MESSAGE_SIZE"
    using assms(1)
    by (induction ms arbitrary: s) (auto split: prod.splits if_splits dest!: SendMessage_True(1))
  then have "\<forall>m \<in> set ms. sendable_message m" using assms(2) by (auto simp: sendable_message_def)
  moreover have "sk_stream r = concat (map frame ms)"
    using send_messages_True [OF assms(1)] assms(3) by (simp add: sk_stream_def)
  moreover have "n = length ms + Suc (n - Suc (length ms))" using assms(5) by simp
  ultimately show ?thesis
    using receive_messages_frames [of r ms "n - Suc (length ms)"] assms(4)
    by (simp add: chunks_ok_def)
qed

text \<open>
  A header that announces no byte or more than the maximum ends the connection for the
  receiver, whatever follows, and so does a message cut short.
\<close>

theorem bad_frame_ends:
  assumes "[] \<notin> set (sk_in s)" and "concat (sk_in s) = be32 len @ rest" and "len < 2 ^ 32"
    and "len = 0 \<or> len > MAX_MESSAGE_SIZE \<or> length rest < len"
  shows "fst (ReceiveMessage s) = []"
proof -
  have s: "chunks_ok s" "sk_stream s = be32 len @ rest"
    using assms(1,2) by (simp_all add: chunks_ok_def sk_stream_def)
  then have "4 \<le> length (sk_stream s)" by simp
  from RecvAll_ok [OF s(1) this] s(2) obtain s1 where s1: "RecvAll 4 s = (Some (be32 len), s1)"
    "sk_stream s1 = rest" by auto
  have "fst (case RecvAll len s1 of (None, s'') \<Rightarrow> ([], s'') | (Some buf, s'') \<Rightarrow> (buf, s'')) = []"
    if "length rest < len"
    using that RecvAll_Some [of len s1] s1(2) by (auto split: prod.splits option.splits)
  then show ?thesis
    using assms(3,4) s1(1) by (auto simp: ReceiveMessage_def un_be32_be32)
qed

theorem framing_roundtrip_witness:
  "receive_messages 3 \<lparr>sk_in = [[CHR 0x00, CHR 0x00], [CHR 0x00, CHR 0x02, CHR ''h''],
      [CHR ''i'', CHR 0x00, CHR 0x00, CHR 0x00, CHR 0x01, CHR ''x'']], sk_send = [], sk_out = []\<rparr> =
    [''hi'', ''x'']"
proof (rule framing_roundtrip)
  have "be32 (Suc (Suc 0)) = [CHR 0x00, CHR 0x00, CHR 0x00, CHR 0x02]"
    "be32 (Suc 0) = [CHR 0x00, CHR 0x00, CHR 0x00, CHR 0x01]" by code_simp+
  then show "send_messages [''hi'', ''x''] \<lparr>sk_in = [], sk_send = [3, 1, 7, 4, 9], sk_out = []\<rparr> =
      (True, \<lparr>sk_in = [], sk_send = [], sk_out = [CHR 0x00, CHR 0x00, CHR 0x00, CHR 0x02, CHR ''h'',
        CHR ''i'', CHR 0x00, CHR 0x00, CHR 0x00, CHR 0x01, CHR ''x'']\<rparr>)"
    by (simp add: SendMessage_def MAX_MESSAGE_SIZE_def SendAll_rec sys_send_def)
qed simp_all

theorem bad_frame_ends_witness:
  "fst (ReceiveMessage \<lparr>sk_in = [be32 9 @ ''hello''], sk_send = [], sk_out = []\<rparr>) = []"
proof -
  have "be32 9 \<noteq> []" by (metis length_be32 list.size(3) zero_neq_numeral)
  then show ?thesis by (intro bad_frame_ends [of _ 9 "''hello''"]) auto
qed

end
