(* ===== verification/RunResult.thy ===== *)
theory RunResult
  imports Config
begin

section \<open>Run results and their JSON form\<close>

text \<open>
  \<open>MyIperf/include/myiperf/TestRunResult.h\<close> and \<open>RunOptions.h\<close>: the result of a run, as the controller
  builds it, writes it to files and publishes it, and as the test runner and the viewer read it.
\<close>

record TestPhaseResult =
  phaseName :: string
  senderRole :: string
  receiverRole :: string
  senderStats :: TestStats
  receiverStats :: TestStats
  ph_success :: bool
  ph_failureReason :: string

record TestRunResult =
  schemaVersion :: string
  runId :: string
  role :: string
  startedAt :: string
  finishedAt :: string
  finalState :: string
  success :: bool
  failureReason :: string
  resultExportWarning :: string
  config :: Config
  phase1 :: TestPhaseResult
  phase2 :: TestPhaseResult

record RunOptions =
  opt_runId :: string
  opt_resultDir :: string
  opt_resultJson :: string
  opt_resultPipe :: string

definition default_RunOptions :: RunOptions where
  "default_RunOptions =
     \<lparr>opt_runId = [], opt_resultDir = ''Results'', opt_resultJson = [], opt_resultPipe = []\<rparr>"

definition empty_phase :: TestPhaseResult where
  "empty_phase = \<lparr>phaseName = [], senderRole = [], receiverRole = [], senderStats = zeroStats,
     receiverStats = zeroStats, ph_success = False, ph_failureReason = []\<rparr>"

definition empty_result :: TestRunResult where
  "empty_result = \<lparr>schemaVersion = ''1'', runId = [], role = [], startedAt = [], finishedAt = [],
     finalState = [], success = False, failureReason = [], resultExportWarning = [],
     config = default_Config, phase1 = empty_phase, phase2 = empty_phase\<rparr>"

definition TestPhaseResult_to_json :: "TestPhaseResult \<Rightarrow> json" where
  "TestPhaseResult_to_json p = json_object
     [(''phaseName'', JString (phaseName p)),
      (''senderRole'', JString (senderRole p)),
      (''receiverRole'', JString (receiverRole p)),
      (''senderStats'', TestStats_to_json (senderStats p)),
      (''receiverStats'', TestStats_to_json (receiverStats p)),
      (''success'', JBool (ph_success p)),
      (''failureReason'', JString (ph_failureReason p))]"

definition TestPhaseResult_from_json :: "json \<Rightarrow> TestPhaseResult res" where
  "TestPhaseResult_from_json j = run_all
     [at_get ''phaseName'' get_string (assign (\<lambda>x p. p\<lparr>phaseName := x\<rparr>)) j,
      at_get ''senderRole'' get_string (assign (\<lambda>x p. p\<lparr>senderRole := x\<rparr>)) j,
      at_get ''receiverRole'' get_string (assign (\<lambda>x p. p\<lparr>receiverRole := x\<rparr>)) j,
      at_get ''senderStats'' TestStats_from_json (assign (\<lambda>x p. p\<lparr>senderStats := x\<rparr>)) j,
      at_get ''receiverStats'' TestStats_from_json (assign (\<lambda>x p. p\<lparr>receiverStats := x\<rparr>)) j,
      at_get ''success'' get_bool (assign (\<lambda>x p. p\<lparr>ph_success := x\<rparr>)) j,
      at_get ''failureReason'' get_string (assign (\<lambda>x p. p\<lparr>ph_failureReason := x\<rparr>)) j]
     empty_phase"

definition TestRunResult_to_json :: "TestRunResult \<Rightarrow> json" where
  "TestRunResult_to_json r = json_object
     [(''schemaVersion'', JString (schemaVersion r)),
      (''runId'', JString (runId r)),
      (''role'', JString (role r)),
      (''startedAt'', JString (startedAt r)),
      (''finishedAt'', JString (finishedAt r)),
      (''finalState'', JString (finalState r)),
      (''success'', JBool (success r)),
      (''failureReason'', JString (failureReason r)),
      (''resultExportWarning'', JString (resultExportWarning r)),
      (''config'', Config_toJson (config r)),
      (''phase1'', TestPhaseResult_to_json (phase1 r)),
      (''phase2'', TestPhaseResult_to_json (phase2 r))]"

definition TestRunResult_from_json :: "json \<Rightarrow> TestRunResult res" where
  "TestRunResult_from_json j = run_all
     [at_get ''schemaVersion'' get_string (assign (\<lambda>x r. r\<lparr>schemaVersion := x\<rparr>)) j,
      at_get ''runId'' get_string (assign (\<lambda>x r. r\<lparr>runId := x\<rparr>)) j,
      at_get ''role'' get_string (assign (\<lambda>x r. r\<lparr>role := x\<rparr>)) j,
      at_get ''startedAt'' get_string (assign (\<lambda>x r. r\<lparr>startedAt := x\<rparr>)) j,
      at_get ''finishedAt'' get_string (assign (\<lambda>x r. r\<lparr>finishedAt := x\<rparr>)) j,
      at_get ''finalState'' get_string (assign (\<lambda>x r. r\<lparr>finalState := x\<rparr>)) j,
      at_get ''success'' get_bool (assign (\<lambda>x r. r\<lparr>success := x\<rparr>)) j,
      at_get ''failureReason'' get_string (assign (\<lambda>x r. r\<lparr>failureReason := x\<rparr>)) j,
      opt_get ''resultExportWarning'' get_string (assign (\<lambda>x r. r\<lparr>resultExportWarning := x\<rparr>)) j,
      at_get ''config'' Config_fromJson (assign (\<lambda>x r. r\<lparr>config := x\<rparr>)) j,
      at_get ''phase1'' TestPhaseResult_from_json (assign (\<lambda>x r. r\<lparr>phase1 := x\<rparr>)) j,
      at_get ''phase2'' TestPhaseResult_from_json (assign (\<lambda>x r. r\<lparr>phase2 := x\<rparr>)) j]
     empty_result"

subsection \<open>Round trips\<close>

definition phase_in_range :: "TestPhaseResult \<Rightarrow> bool" where
  "phase_in_range p \<longleftrightarrow> stats_in_range (senderStats p) \<and> stats_in_range (receiverStats p)"

definition result_in_range :: "TestRunResult \<Rightarrow> bool" where
  "result_in_range r \<longleftrightarrow> config_valid (config r) \<and> phase_in_range (phase1 r) \<and> phase_in_range (phase2 r)"

interpretation phase_codec: json_codec TestPhaseResult_to_json TestPhaseResult_from_json phase_in_range
proof unfold_locales
  fix p assume "phase_in_range p"
  then have "TestStats_from_json (TestStats_to_json (senderStats p)) = Inr (senderStats p)"
    "TestStats_from_json (TestStats_to_json (receiverStats p)) = Inr (receiverStats p)"
    by (simp_all add: phase_in_range_def stats_codec.dec_enc)
  then show "TestPhaseResult_from_json (TestPhaseResult_to_json p) = Inr p"
    by (simp add: TestPhaseResult_from_json_def TestPhaseResult_to_json_def codec_simps)
qed

interpretation result_codec: json_codec TestRunResult_to_json TestRunResult_from_json result_in_range
proof unfold_locales
  fix r assume "result_in_range r"
  then have "Config_fromJson (Config_toJson (config r)) = Inr (config r)"
    "TestPhaseResult_from_json (TestPhaseResult_to_json (phase1 r)) = Inr (phase1 r)"
    "TestPhaseResult_from_json (TestPhaseResult_to_json (phase2 r)) = Inr (phase2 r)"
    by (simp_all add: result_in_range_def config_codec.dec_enc phase_codec.dec_enc)
  then show "TestRunResult_from_json (TestRunResult_to_json r) = Inr r"
    by (simp add: TestRunResult_from_json_def TestRunResult_to_json_def codec_simps)
qed

text \<open>
  A run result written as JSON is read back as it was, configuration and both phases included,
  when the JSON library parses what it printed.
\<close>

theorem result_file_roundtrip:
  assumes "result_in_range r" and "parse (dump (TestRunResult_to_json r)) = Inr (TestRunResult_to_json r)"
  shows "decode_with parse TestRunResult_from_json (dump (TestRunResult_to_json r)) = Inr r"
  using assms by (rule result_codec.wire_roundtrip)

theorem result_file_roundtrip_witness:
  "decode_with (\<lambda>s. Inr (TestRunResult_to_json empty_result)) TestRunResult_from_json
     ((\<lambda>j. ''{}'') (TestRunResult_to_json empty_result)) = Inr empty_result"
  by (rule result_file_roundtrip)
    (simp_all add: result_in_range_def phase_in_range_def empty_result_def empty_phase_def
      stats_in_range_def zeroStats_def llong_range_def LLONG_MIN_def LLONG_MAX_def)

end
