(* ===== verification/ResultSink.thy ===== *)
theory ResultSink
  imports Json Fifo
begin

section \<open>The result event sink\<close>

text \<open>
  \<open>MyIperf/src/myiperf/ResultEventSink.cpp\<close>, POSIX build: events are put into a queue as JSON lines
  and a worker thread writes them to a named pipe, retrying the front line while the sink runs. The
  worker holds the line it is writing (\<open>sink_line\<close>) outside of the queue, so threads may publish
  meanwhile. System calls are arguments (\<open>pipe_env\<close>). The main facts: while the sink runs, the lines
  written are the published ones, in order, each once (\<open>sink_exactly_once\<close>), and a stopped sink
  drains in as many writes as it has lines (\<open>worker_finish\<close>).
\<close>

record ResultEventSink =
  sink_pipeName :: string
  sink_running :: bool
  sink_queue :: "string list"
  sink_line :: "string option"
  sink_warningLogged :: bool

definition new_sink :: ResultEventSink where
  "new_sink = \<lparr>sink_pipeName = [], sink_running = False, sink_queue = [], sink_line = None,
     sink_warningLogged = False\<rparr>"

subsection \<open>Writing one line to the pipe\<close>

text \<open>Answers of the system: does the path exist, \<open>mkfifo\<close> (its \<open>errno\<close> if it failed), \<open>open\<close>,
  and the number of bytes \<open>write\<close> took, or -1.\<close>

record pipe_env =
  env_exists :: bool
  env_mkfifo_errno :: "nat option"
  env_open_ok :: bool
  env_write :: int

definition EEXIST :: nat where
  "EEXIST = 17"

definition writeLine :: "pipe_env \<Rightarrow> string \<Rightarrow> bool" where
  "writeLine env line =
     (if \<not> env_exists env \<and>
         (case env_mkfifo_errno env of None \<Rightarrow> False | Some e \<Rightarrow> e \<noteq> EEXIST) then False
      else if \<not> env_open_ok env then False
      else env_write env = int (length line))"

subsection \<open>Operations\<close>

definition sink_enabled :: "ResultEventSink \<Rightarrow> bool" where
  "sink_enabled s = sink_running s"

definition sink_push :: "string \<Rightarrow> ResultEventSink \<Rightarrow> ResultEventSink" where
  "sink_push line s = s\<lparr>sink_queue := sink_queue s @ [line]\<rparr>"

definition sink_pop :: "ResultEventSink \<Rightarrow> (string \<times> ResultEventSink) option" where
  "sink_pop s =
     (case sink_queue s of [] \<Rightarrow> None | line # q \<Rightarrow> Some (line, s\<lparr>sink_queue := q\<rparr>))"

definition event_line :: "json_printer \<Rightarrow> json \<Rightarrow> string" where
  "event_line dump event = dump event @ [CHR 0x0A]"

definition sink_publish :: "json_printer \<Rightarrow> json \<Rightarrow> ResultEventSink \<Rightarrow> ResultEventSink" where
  "sink_publish dump event s =
     (if \<not> sink_running s then s else sink_push (event_line dump event) s)"

text \<open>The worker takes a line, or waits, or leaves its loop.\<close>

datatype worker_action = WorkerWait | WorkerExit | WorkerWrite string

definition worker_take :: "ResultEventSink \<Rightarrow> worker_action \<times> ResultEventSink" where
  "worker_take s =
     (case sink_pop s of
        None \<Rightarrow> (if \<not> sink_running s then WorkerExit else WorkerWait, s)
      | Some (line, s') \<Rightarrow> (WorkerWrite line, s'\<lparr>sink_line := Some line\<rparr>))"

text \<open>The write of the line it took has succeeded or not.\<close>

definition worker_wrote :: "bool \<Rightarrow> ResultEventSink \<Rightarrow> ResultEventSink" where
  "worker_wrote ok s =
     (case sink_line s of
        None \<Rightarrow> s
      | Some line \<Rightarrow>
          let s = s\<lparr>sink_line := None\<rparr> in
          if ok then s
          else let s = s\<lparr>sink_warningLogged := True\<rparr>
               in if sink_running s then s\<lparr>sink_queue := line # sink_queue s\<rparr> else s)"

text \<open>The worker of a stopped sink, until it exits: each line is tried once.\<close>

function worker_finish :: "(string \<Rightarrow> bool) \<Rightarrow> ResultEventSink \<Rightarrow> string list \<times> ResultEventSink" where
  "worker_finish ok s =
     (if sink_running s then ([], s)
      else case worker_take s of
        (WorkerWrite line, s') \<Rightarrow>
          (case worker_finish ok (worker_wrote (ok line) s') of (ws, s'') \<Rightarrow>
             (if ok line then line # ws else ws, s''))
      | (_, s') \<Rightarrow> ([], s'))"
  by pat_completeness auto
termination
  by (relation "measure (\<lambda>(ok, s). length (sink_queue s))")
    (auto simp: worker_take_def sink_pop_def worker_wrote_def Let_def split: list.splits if_splits)

declare worker_finish.simps [simp del]

definition sink_stop :: "(string \<Rightarrow> bool) \<Rightarrow> ResultEventSink \<Rightarrow> string list \<times> ResultEventSink" where
  "sink_stop ok s =
     (if \<not> sink_running s then ([], s)
      else case worker_finish ok (s\<lparr>sink_running := False\<rparr>) of (ws, s') \<Rightarrow>
             (ws, s'\<lparr>sink_queue := []\<rparr>))"

definition sink_start :: "(string \<Rightarrow> bool) \<Rightarrow> string \<Rightarrow> ResultEventSink \<Rightarrow> ResultEventSink" where
  "sink_start ok pname s =
     (let s = snd (sink_stop ok s)
      in if pname = [] then s
         else s\<lparr>sink_pipeName := pname, sink_warningLogged := False, sink_running := True\<rparr>)"

interpretation sink_queue: fifo sink_push sink_pop sink_queue
  by unfold_locales (auto simp: sink_push_def sink_pop_def split: list.splits)

subsection \<open>Exactly once, in order\<close>

datatype sink_event = Published string | Wrote string

inductive sink_step :: "json_printer \<Rightarrow> ResultEventSink \<Rightarrow> sink_event list \<Rightarrow> ResultEventSink \<Rightarrow> bool"
  for dump :: json_printer where
  ss_publish: "sink_running s \<Longrightarrow>
    sink_step dump s [Published (event_line dump event)] (sink_publish dump event s)"
| ss_take: "sink_line s = None \<Longrightarrow> worker_take s = (WorkerWrite line, s') \<Longrightarrow> sink_step dump s [] s'"
| ss_wrote: "sink_line s = Some line \<Longrightarrow> sink_step dump s [Wrote line] (worker_wrote True s)"
| ss_failed: "sink_line s = Some line \<Longrightarrow> sink_running s \<Longrightarrow> sink_step dump s [] (worker_wrote False s)"

inductive sink_run :: "json_printer \<Rightarrow> ResultEventSink \<Rightarrow> sink_event list \<Rightarrow> ResultEventSink \<Rightarrow> bool"
  for dump :: json_printer and s0 :: ResultEventSink where
  sr_start: "sink_run dump s0 [] s0"
| sr_step: "sink_run dump s0 es s \<Longrightarrow> sink_step dump s fs s' \<Longrightarrow> sink_run dump s0 (es @ fs) s'"

definition published :: "sink_event list \<Rightarrow> string list" where
  "published es = concat (map (\<lambda>e. case e of Published l \<Rightarrow> [l] | Wrote l \<Rightarrow> []) es)"

definition wrote :: "sink_event list \<Rightarrow> string list" where
  "wrote es = concat (map (\<lambda>e. case e of Published l \<Rightarrow> [] | Wrote l \<Rightarrow> [l]) es)"

definition unwritten :: "ResultEventSink \<Rightarrow> string list" where
  "unwritten s = (case sink_line s of None \<Rightarrow> [] | Some l \<Rightarrow> [l]) @ sink_queue s"

lemma sink_trace_simps [simp]:
  "published [] = []" "wrote [] = []"
  "published (es @ fs) = published es @ published fs" "wrote (es @ fs) = wrote es @ wrote fs"
  "published (Published l # es) = l # published es" "wrote (Published l # es) = wrote es"
  "published (Wrote l # es) = published es" "wrote (Wrote l # es) = l # wrote es"
  by (simp_all add: published_def wrote_def)

lemma sink_step_order:
  "sink_step dump s fs s' \<Longrightarrow> unwritten s @ published fs = wrote fs @ unwritten s'"
  by (induction rule: sink_step.induct)
    (auto simp: unwritten_def sink_publish_def sink_push_def worker_take_def sink_pop_def
      worker_wrote_def Let_def split: list.splits if_splits)

text \<open>
  as long as a started sink is not stopped, under any interleaving of publishing threads with
  its worker and any failures of the pipe, the lines written are the lines published, in order and
  each once, followed by those still waiting.
\<close>

theorem sink_exactly_once:
  assumes "sink_run dump (sink_start ok pname new_sink) es s"
  shows "published es = wrote es @ unwritten s"
  using assms
proof induction
  case sr_start
  then show ?case by (simp add: sink_start_def sink_stop_def new_sink_def unwritten_def Let_def)
next
  case (sr_step es s fs s')
  then show ?case using sink_step_order [of dump s fs s'] by (metis append_assoc sink_trace_simps(3,4))
qed

theorem sink_exactly_once_witness:
  "published [Published (event_line (\<lambda>j. ''{}'') JNull)] =
     wrote [Published (event_line (\<lambda>j. ''{}'') JNull)] @
       unwritten (sink_publish (\<lambda>j. ''{}'') JNull (sink_start (\<lambda>_. True) ''pipe'' new_sink))"
proof -
  let ?s = "sink_start (\<lambda>_. True) ''pipe'' new_sink"
  have "sink_running ?s" by (simp add: sink_start_def Let_def)
  from sr_step [OF sr_start ss_publish [OF this, of "\<lambda>j. ''{}''" JNull]]
  have "sink_run (\<lambda>j. ''{}'') ?s [Published (event_line (\<lambda>j. ''{}'') JNull)]
      (sink_publish (\<lambda>j. ''{}'') JNull ?s)" by simp
  then show ?thesis by (rule sink_exactly_once)
qed

subsection \<open>Stopping\<close>

lemma worker_finish_lines:
  assumes "\<not> sink_running s" "sink_line s = None"
  shows "fst (worker_finish ok s) = filter ok (sink_queue s) \<and>
    sink_queue (snd (worker_finish ok s)) = []"
  using assms
proof (induction ok s rule: worker_finish.induct)
  case (1 ok s)
  show ?case
  proof (cases "sink_queue s")
    case Nil
    then show ?thesis using "1.prems"
      by (subst (1 2) worker_finish.simps) (simp add: worker_take_def sink_pop_def)
  next
    case (Cons line q)
    let ?s = "worker_wrote (ok line) (s\<lparr>sink_queue := q, sink_line := Some line\<rparr>)"
    have take: "worker_take s = (WorkerWrite line, s\<lparr>sink_queue := q, sink_line := Some line\<rparr>)"
      using Cons by (simp add: worker_take_def sink_pop_def)
    have s: "sink_queue ?s = q" "\<not> sink_running ?s" "sink_line ?s = None"
      using "1.prems" by (simp_all add: worker_wrote_def Let_def)
    have IH: "fst (worker_finish ok ?s) = filter ok q \<and> sink_queue (snd (worker_finish ok ?s)) = []"
      using "1.IH" [OF "1.prems"(1) take [symmetric] refl] s by simp
    obtain ws t where W: "worker_finish ok ?s = (ws, t)" by (cases "worker_finish ok ?s")
    have "worker_finish ok s = (if ok line then line # ws else ws, t)"
      using "1.prems" take W by (subst worker_finish.simps) simp
    then show ?thesis using IH Cons W by simp
  qed
qed

text \<open>
  stopping a sink whose worker is between two lines tries each queued line exactly once, in
  order, drops those the pipe refuses, and leaves an empty queue: \<open>stop\<close> returns, whatever the pipe
  does.
\<close>

theorem sink_stop_flushes:
  assumes "sink_running s" "sink_line s = None"
  shows "fst (sink_stop ok s) = filter ok (sink_queue s) \<and> sink_queue (snd (sink_stop ok s)) = []"
  using assms worker_finish_lines [of "s\<lparr>sink_running := False\<rparr>" ok]
  by (cases "worker_finish ok (s\<lparr>sink_running := False\<rparr>)") (simp add: sink_stop_def)

theorem sink_stop_flushes_witness:
  "fst (sink_stop (\<lambda>l. l = ''a'') (new_sink\<lparr>sink_running := True, sink_queue := [''a'', ''b'']\<rparr>)) =
     [''a''] \<and>
   sink_queue (snd (sink_stop (\<lambda>l. l = ''a'')
     (new_sink\<lparr>sink_running := True, sink_queue := [''a'', ''b'']\<rparr>))) = []"
  using sink_stop_flushes [of "new_sink\<lparr>sink_running := True, sink_queue := [''a'', ''b'']\<rparr>"
      "\<lambda>l. l = ''a''"]
  by (simp add: new_sink_def)

end
