(* ===== verification/Controller.thy ===== *)
theory Controller
  imports System RunResult ResultSink
begin

section \<open>The test controller\<close>

text \<open>
  \<open>MyIperf/src/myiperf/TestController.cpp\<close>: the verdict on a phase, the result of a run and its
  export, the operations that start, stop and finish a run, and the events published on the way. The
  node of the sessions is a part of the controller (\<open>ct_node\<close>). Time strings, the process id and
  the file system are arguments. The main facts: the verdict says exactly what was counted
  (\<open>validate_ok_iff\<close>), a result is final and the completion is signalled once
  (\<open>finalize_once\<close>), and a completed run is a success on both sides (\<open>complete_run_succeeds\<close>).
\<close>

definition stateToString :: "CtlState \<Rightarrow> string" where
  "stateToString s =
     (case s of
        IDLE \<Rightarrow> ''IDLE''
      | INITIALIZING \<Rightarrow> ''INITIALIZING''
      | CONNECTING \<Rightarrow> ''CONNECTING''
      | SENDING_CONFIG \<Rightarrow> ''SENDING_CONFIG''
      | WAITING_FOR_ACK \<Rightarrow> ''WAITING_FOR_ACK''
      | ACCEPTING \<Rightarrow> ''ACCEPTING''
      | WAITING_FOR_CONFIG \<Rightarrow> ''WAITING_FOR_CONFIG''
      | RUNNING_TEST \<Rightarrow> ''RUNNING_TEST''
      | FINISHING \<Rightarrow> ''FINISHING''
      | EXCHANGING_STATS \<Rightarrow> ''EXCHANGING_STATS''
      | WAITING_FOR_CLIENT_READY \<Rightarrow> ''WAITING_FOR_CLIENT_READY''
      | RUNNING_SERVER_TEST \<Rightarrow> ''RUNNING_SERVER_TEST''
      | WAITING_FOR_SERVER_FIN \<Rightarrow> ''WAITING_FOR_SERVER_FIN''
      | SERVER_TEST_FINISHING \<Rightarrow> ''SERVER_TEST_FINISHING''
      | EXCHANGING_SERVER_STATS \<Rightarrow> ''EXCHANGING_SERVER_STATS''
      | WAITING_FOR_SHUTDOWN_ACK \<Rightarrow> ''WAITING_FOR_SHUTDOWN_ACK''
      | FINISHED \<Rightarrow> ''FINISHED''
      | ERRORED \<Rightarrow> ''ERRORED'')"

definition generateRunId :: "int \<Rightarrow> int \<Rightarrow> nat \<Rightarrow> string" where
  "generateRunId millis pid counter =
     show_int millis @ ''-'' @ show_int pid @ ''-'' @ show_nat counter"

definition roleString :: "TestMode \<Rightarrow> string" where
  "roleString m = (if m = CLIENT then ''CLIENT'' else ''SERVER'')"

definition combineReasons :: "string \<Rightarrow> string \<Rightarrow> string" where
  "combineReasons left right =
     (if left = [] then right else if right = [] then left else left @ ''; '' @ right)"

definition add_reason :: "bool \<Rightarrow> string \<Rightarrow> string \<Rightarrow> string" where
  "add_reason b msg reason = (if b then combineReasons reason msg else reason)"

definition validateReceiverStats :: "TestStats \<Rightarrow> Config \<Rightarrow> string" where
  "validateReceiverStats receiver cfg =
     (let expectedPackets = numPackets cfg;
          expectedBytes = (if expectedPackets > 0 then packetSize cfg * expectedPackets else 0);
          reason = [];
          reason = add_reason (expectedPackets > 0 \<and> totalPacketsReceived receiver \<noteq> expectedPackets)
            (''Packet count mismatch (Rx: '' @ show_int (totalPacketsReceived receiver) @ '', Exp: '' @
             show_int expectedPackets @ '')'') reason;
          reason = add_reason (expectedBytes > 0 \<and> totalBytesReceived receiver \<noteq> expectedBytes)
            (''Byte count mismatch (Rx: '' @ show_int (totalBytesReceived receiver) @ '', Exp: '' @
             show_int expectedBytes @ '')'') reason;
          reason = add_reason (failedChecksumCount receiver > 0)
            (''Checksum errors detected ('' @ show_int (failedChecksumCount receiver) @ '')'') reason;
          reason = add_reason (sequenceErrorCount receiver > 0)
            (''Sequence errors detected ('' @ show_int (sequenceErrorCount receiver) @ '')'') reason
      in add_reason (contentMismatchCount receiver > 0)
           (''Content mismatches detected ('' @ show_int (contentMismatchCount receiver) @ '')'') reason)"

subsection \<open>Writing a result file\<close>

definition slash :: char where
  "slash = CHR ''/''"

definition parent_path :: "string \<Rightarrow> string" where
  "parent_path p =
     (let dir = rev (dropWhile (\<lambda>c. c \<noteq> slash) (rev p));
          parent = rev (dropWhile (\<lambda>c. c = slash) (rev dir))
      in if parent = [] \<and> dir \<noteq> [] then [slash] else parent)"

definition path_join :: "string \<Rightarrow> string \<Rightarrow> string" where
  "path_join dir name =
     (if dir = [] \<or> last dir = slash then dir @ name else dir @ [slash] @ name)"

definition makeTempPath :: "string \<Rightarrow> int \<Rightarrow> nat \<Rightarrow> string" where
  "makeTempPath path pid counter = path @ ''.'' @ show_int pid @ ''.'' @ show_nat counter @ ''.tmp''"

text \<open>Answers of the file system for one file: error texts, empty when there is no error.\<close>

record file_env =
  fe_create_dirs :: string
  fe_open_ok :: bool
  fe_write_ok :: bool
  fe_rename :: string

definition replaceFile :: "file_env \<Rightarrow> string \<Rightarrow> string" where
  "replaceFile env dest =
     (if fe_rename env \<noteq> [] then ''rename failed for '' @ dest @ '': '' @ fe_rename env else [])"

text \<open>The error text of \<open>writeJsonAtomically\<close>, empty when it succeeds.\<close>

definition writeJsonAtomically :: "file_env \<Rightarrow> int \<Rightarrow> nat \<Rightarrow> string \<Rightarrow> string" where
  "writeJsonAtomically env pid counter path =
     (if parent_path path \<noteq> [] \<and> fe_create_dirs env \<noteq> []
      then ''Failed to create result directory '' @ parent_path path @ '': '' @ fe_create_dirs env
      else let tmp = makeTempPath path pid counter in
        if \<not> fe_open_ok env then ''Failed to open result temp file '' @ tmp
        else if \<not> fe_write_ok env then ''Failed to write result temp file '' @ tmp
        else replaceFile env path)"

subsection \<open>State\<close>

record Controller =
  ct_node :: Node
  ct_stopped :: bool
  ct_promiseSet :: bool
  ct_signals :: nat
  ct_cliBlockFlag :: bool
  ct_resultFinalized :: bool
  ct_testStarted :: bool
  ct_phase1EventPublished :: bool
  ct_phase2EventPublished :: bool
  ct_runOptions :: RunOptions
  ct_startedAt :: string
  ct_resultExportWarning :: string
  ct_lastResult :: TestRunResult
  ct_sink :: ResultEventSink
  ct_files :: "(string \<times> json) list"

text \<open>What a controller asks of its surroundings during one operation.\<close>

record ctl_env =
  ce_nowIso :: string
  ce_now :: time_point
  ce_millis :: int
  ce_pid :: int
  ce_runCounter :: nat
  ce_tempCounter :: nat
  ce_file :: "string \<Rightarrow> file_env"
  ce_pipe_ok :: "string \<Rightarrow> bool"
  ce_parse :: json_parser
  ce_dump :: json_printer

definition ctl_reset :: "ctl_env \<Rightarrow> Controller \<Rightarrow> Controller" where
  "ctl_reset env ct =
     (let nd = ct_node ct in
      ct\<lparr>ct_sink := snd (sink_stop (ce_pipe_ok env) (ct_sink ct)),
         ct_stopped := False, ct_promiseSet := False, ct_cliBlockFlag := False,
         ct_resultFinalized := False, ct_testStarted := False,
         ct_phase1EventPublished := False, ct_phase2EventPublished := False,
         ct_runOptions := default_RunOptions, ct_startedAt := [], ct_resultExportWarning := [],
         ct_lastResult := empty_result, ct_signals := 0,
         ct_node := nd\<lparr>nd_state := IDLE, nd_config := default_Config,
           nd_clientStatsPhase1 := zeroStats, nd_serverStatsPhase1 := zeroStats,
           nd_clientStatsPhase2 := zeroStats, nd_serverStatsPhase2 := zeroStats,
           nd_generator := gen_resetStats (ce_now env) (nd_generator nd),
           nd_receiver := receiver_resetStats (ce_now env) (nd_receiver nd),
           nd_bus := bus_clear (nd_bus nd), nd_phases := []\<rparr>\<rparr>)"

subsection \<open>The result\<close>

definition build_phase :: "string \<Rightarrow> string \<Rightarrow> string \<Rightarrow> TestStats \<Rightarrow> TestStats \<Rightarrow> Config \<Rightarrow> TestPhaseResult" where
  "build_phase nm sender receiver sstats rstats cfg =
     (let reason = validateReceiverStats rstats cfg in
      \<lparr>phaseName = nm, senderRole = sender, receiverRole = receiver, senderStats = sstats,
       receiverStats = rstats, ph_success = (reason = []), ph_failureReason = reason\<rparr>)"

definition buildCurrentResult :: "string \<Rightarrow> string \<Rightarrow> Controller \<Rightarrow> TestRunResult" where
  "buildCurrentResult nowIso reason ct =
     (let nd = ct_node ct;
          p1 = build_phase ''client_to_server'' ''CLIENT'' ''SERVER''
                 (nd_clientStatsPhase1 nd) (nd_serverStatsPhase1 nd) (nd_config nd);
          p2 = build_phase ''server_to_client'' ''SERVER'' ''CLIENT''
                 (nd_serverStatsPhase2 nd) (nd_clientStatsPhase2 nd) (nd_config nd);
          finished = (nd_state nd = FINISHED);
          final = stateToString (nd_state nd);
          text = reason;
          text = add_reason (\<not> finished) (''Final state is '' @ final) text;
          text = add_reason (\<not> ph_success p1) (''Phase 1 failed: '' @ ph_failureReason p1) text;
          text = add_reason (\<not> ph_success p2) (''Phase 2 failed: '' @ ph_failureReason p2) text
      in \<lparr>schemaVersion = ''1'', runId = opt_runId (ct_runOptions ct),
          role = roleString (mode (nd_config nd)), startedAt = ct_startedAt ct,
          finishedAt = nowIso, finalState = final,
          success = finished \<and> ph_success p1 \<and> ph_success p2, failureReason = text,
          resultExportWarning = ct_resultExportWarning ct, config = nd_config nd,
          phase1 = p1, phase2 = p2\<rparr>)"

definition export_paths :: "RunOptions \<Rightarrow> TestRunResult \<Rightarrow> string list" where
  "export_paths opts r =
     (let rl = (if role r = [] then ''UNKNOWN'' else role r) in
      [path_join (opt_resultDir opts) (''result-'' @ runId r @ ''-'' @ rl @ ''.json''),
       path_join (opt_resultDir opts) (''latest-'' @ rl @ ''.json'')] @
      (if opt_resultJson opts \<noteq> [] then [opt_resultJson opts] else []))"

text \<open>\<open>writeOne\<close>: the warnings so far, and the controller with the files written.\<close>

definition export_step ::
  "ctl_env \<Rightarrow> TestRunResult \<Rightarrow> string \<times> Controller \<Rightarrow> nat \<times> string \<Rightarrow> string \<times> Controller" where
  "export_step env r wc ip = (case wc of (warning, ct) \<Rightarrow> case ip of (i, path) \<Rightarrow>
     let error = writeJsonAtomically (ce_file env path) (ce_pid env) (ce_tempCounter env + i) path in
     if error \<noteq> [] then (combineReasons warning error, ct)
     else (warning, ct\<lparr>ct_files := ct_files ct @ [(path, TestRunResult_to_json r)]\<rparr>))"

definition exportResult :: "ctl_env \<Rightarrow> TestRunResult \<Rightarrow> Controller \<Rightarrow> string \<times> Controller" where
  "exportResult env r ct =
     foldl (export_step env r) ([], ct) (List.enumerate 0 (export_paths (ct_runOptions ct) r))"

definition signalCompletion :: "Controller \<Rightarrow> Controller" where
  "signalCompletion ct =
     (let ct = (if \<not> ct_promiseSet ct
                then ct\<lparr>ct_promiseSet := True, ct_signals := Suc (ct_signals ct)\<rparr> else ct)
      in ct\<lparr>ct_cliBlockFlag := True\<rparr>)"

definition final_event :: "TestRunResult \<Rightarrow> json" where
  "final_event r =
     json_set ''result'' (TestRunResult_to_json r)
       (json_set ''role'' (JString (role r))
         (json_set ''runId'' (JString (runId r))
           (json_set ''type'' (JString ''final_result'') JNull)))"

definition finalizeResultOnce :: "ctl_env \<Rightarrow> string \<Rightarrow> Controller \<Rightarrow> Controller" where
  "finalizeResultOnce env reason ct =
     signalCompletion
       (if ct_resultFinalized ct then ct
        else let ct = ct\<lparr>ct_resultFinalized := True\<rparr>;
                 r = buildCurrentResult (ce_nowIso env) reason ct;
                 (warning, ct) = exportResult env r ct;
                 r = (if warning \<noteq> [] then r\<lparr>resultExportWarning := warning\<rparr> else r);
                 ct = (if warning \<noteq> [] then ct\<lparr>ct_resultExportWarning := warning\<rparr> else ct);
                 ct = ct\<lparr>ct_lastResult := r\<rparr>
             in if sink_enabled (ct_sink ct)
                then ct\<lparr>ct_sink := snd (sink_stop (ce_pipe_ok env)
                       (sink_publish (ce_dump env) (final_event r) (ct_sink ct)))\<rparr>
                else ct)"

subsection \<open>Events\<close>

definition publishRunStarted :: "ctl_env \<Rightarrow> Controller \<Rightarrow> Controller" where
  "publishRunStarted env ct =
     (if \<not> sink_enabled (ct_sink ct) then ct
      else let event =
          json_set ''config'' (Config_toJson (nd_config (ct_node ct)))
            (json_set ''startedAt'' (JString (ct_startedAt ct))
              (json_set ''role'' (JString (roleString (mode (nd_config (ct_node ct)))))
                (json_set ''runId'' (JString (opt_runId (ct_runOptions ct)))
                  (json_set ''type'' (JString ''run_started'') JNull))))
        in ct\<lparr>ct_sink := sink_publish (ce_dump env) event (ct_sink ct)\<rparr>)"

definition publishPhaseResult :: "ctl_env \<Rightarrow> nat \<Rightarrow> Controller \<Rightarrow> Controller" where
  "publishPhaseResult env k ct =
     (if \<not> sink_enabled (ct_sink ct) then ct
      else if k = 1 \<and> ct_phase1EventPublished ct then ct
      else if k = 2 \<and> ct_phase2EventPublished ct then ct
      else let ct = (if k = 1 then ct\<lparr>ct_phase1EventPublished := True\<rparr> else ct);
               ct = (if k = 2 then ct\<lparr>ct_phase2EventPublished := True\<rparr> else ct);
               snapshot = buildCurrentResult (ce_nowIso env) [] ct;
               phase = (if k = 1 then phase1 snapshot else phase2 snapshot);
               event =
                 json_set ''phase'' (TestPhaseResult_to_json phase)
                   (json_set ''phaseNumber'' (JInt (int k))
                     (json_set ''role'' (JString (role snapshot))
                       (json_set ''runId'' (JString (runId snapshot))
                         (json_set ''type'' (JString ''phase_result'') JNull))))
           in ct\<lparr>ct_sink := sink_publish (ce_dump env) event (ct_sink ct)\<rparr>)"

subsection \<open>Running a test\<close>

text \<open>
  One event of the node (\<open>f\<close>): the phases its session reports are published, and when the session
  has ended, \<open>runTestCoroutine\<close> finishes with the reason.
\<close>

definition ctl_event :: "ctl_env \<Rightarrow> (Node \<Rightarrow> Node) \<Rightarrow> Controller \<Rightarrow> Controller" where
  "ctl_event env f ct =
     (let nd = f (ct_node ct);
          reported = drop (length (nd_phases (ct_node ct))) (nd_phases nd);
          was_done = (case nd_wait (ct_node ct) of W_Done r \<Rightarrow> True | _ \<Rightarrow> False);
          ct = fold (publishPhaseResult env) reported (ct\<lparr>ct_node := nd\<rparr>)
      in case nd_wait nd of
           W_Done r \<Rightarrow>
             if was_done then ct
             else finalizeResultOnce env (case r of None \<Rightarrow> [] | Some msg \<Rightarrow> msg) ct
         | _ \<Rightarrow> ct)"

definition startTest :: "ctl_env \<Rightarrow> Config \<Rightarrow> RunOptions \<Rightarrow> bool \<Rightarrow> Controller \<Rightarrow> Controller" where
  "startTest env cfg options net_ok ct =
     (let ct = ctl_reset env ct;
          ct = ct\<lparr>ct_node := (ct_node ct)\<lparr>nd_config := cfg\<rparr>\<rparr>;
          options = (if opt_runId options = []
            then options\<lparr>opt_runId := generateRunId (ce_millis env) (ce_pid env) (ce_runCounter env)\<rparr>
            else options);
          options = (if opt_resultDir options = [] then options\<lparr>opt_resultDir := ''Results''\<rparr>
            else options);
          ct = ct\<lparr>ct_runOptions := options, ct_startedAt := ce_nowIso env, ct_testStarted := True,
            ct_sink := sink_start (ce_pipe_ok env) (opt_resultPipe options) (ct_sink ct)\<rparr>;
          ct = publishRunStarted env ct
      in ctl_event env
           (if mode cfg = CLIENT then client_run net_ok else server_run net_ok)
           (ct\<lparr>ct_node := (ct_node ct)\<lparr>nd_wait := W_Idle\<rparr>\<rparr>))"

definition stopTest :: "ctl_env \<Rightarrow> Controller \<Rightarrow> Controller" where
  "stopTest env ct =
     (if ct_stopped ct then ct
      else let ct = ct\<lparr>ct_stopped := True\<rparr>;
               ct = ctl_event env (node_cancel (ce_parse env) (ce_dump env) (ce_now env)) ct;
               nd = ct_node ct;
               ct = ct\<lparr>ct_node := nd\<lparr>nd_generator := gen_stop (ce_now env) (nd_generator nd),
                                   nd_receiver := receiver_stop (nd_receiver nd)\<rparr>\<rparr>
           in if ct_testStarted ct
              then finalizeResultOnce env ''Test stopped before completion'' ct
              else ct)"

definition completedSuccessfully :: "Controller \<Rightarrow> bool" where
  "completedSuccessfully ct =
     (if nd_state (ct_node ct) \<noteq> FINISHED then False
      else if \<not> ct_testStarted ct \<or> \<not> ct_resultFinalized ct then True
      else success (ct_lastResult ct))"

definition hasError :: "Controller \<Rightarrow> bool" where
  "hasError ct = (nd_state (ct_node ct) = ERRORED)"

subsection \<open>The verdict\<close>

lemma combineReasons_Nil [simp]: "combineReasons a b = [] \<longleftrightarrow> a = [] \<and> b = []"
  by (simp add: combineReasons_def)

lemma add_reason_Nil [simp]: "add_reason b m r = [] \<longleftrightarrow> r = [] \<and> (b \<longrightarrow> m = [])"
  by (simp add: add_reason_def)

lemma combineReasons_assoc:
  "combineReasons (combineReasons a b) c = combineReasons a (combineReasons b c)"
  by (simp add: combineReasons_def)

definition counts_ok :: "Config \<Rightarrow> TestStats \<Rightarrow> bool" where
  "counts_ok cfg s \<longleftrightarrow>
     (0 < numPackets cfg \<longrightarrow> totalPacketsReceived s = numPackets cfg \<and>
        totalBytesReceived s = packetSize cfg * numPackets cfg) \<and>
     failedChecksumCount s \<le> 0 \<and> sequenceErrorCount s \<le> 0 \<and> contentMismatchCount s \<le> 0"

lemma validate_ok_lemma:
  assumes "0 < packetSize cfg"
  shows "validateReceiverStats s cfg = [] \<longleftrightarrow> counts_ok cfg s"
proof (cases "0 < numPackets cfg")
  case True
  with assms have "0 < packetSize cfg * numPackets cfg" by (rule mult_pos_pos)
  then show ?thesis using True
    by (auto simp: validateReceiverStats_def counts_ok_def Let_def not_less)
qed (auto simp: validateReceiverStats_def counts_ok_def Let_def not_less)

text \<open>
  The verdict on a phase is empty exactly when the receiver counted what the configuration
  promises (if it promises a number of packets) and saw no error.
\<close>

theorem validate_ok_iff:
  assumes "config_valid cfg"
  shows "validateReceiverStats s cfg = [] \<longleftrightarrow> counts_ok cfg s"
  using assms validate_ok_lemma by (simp add: config_valid_def)

theorem validate_ok_iff_witness:
  "validateReceiverStats (zeroStats\<lparr>totalPacketsReceived := 1\<rparr>) (default_Config\<lparr>numPackets := 2\<rparr>) \<noteq> []"
proof -
  have "config_valid (default_Config\<lparr>numPackets := 2\<rparr>)"
    by (simp add: config_valid_def default_Config_def INT_MAX_def)
  from validate_ok_iff [OF this, of "zeroStats\<lparr>totalPacketsReceived := 1\<rparr>"]
  show ?thesis by (simp add: counts_ok_def)
qed

lemma build_phase_fields [simp]:
  "ph_success (build_phase nm a b s t cfg) \<longleftrightarrow> validateReceiverStats t cfg = []"
  "ph_failureReason (build_phase nm a b s t cfg) = validateReceiverStats t cfg"
  "senderStats (build_phase nm a b s t cfg) = s" "receiverStats (build_phase nm a b s t cfg) = t"
  by (simp_all add: build_phase_def Let_def)

text \<open>
  A result reports success exactly when it gives no reason for failure, provided the session
  ended without one.
\<close>

theorem success_iff_no_reason:
  "success (buildCurrentResult t [] ct) \<longleftrightarrow> failureReason (buildCurrentResult t [] ct) = []"
  by (simp add: buildCurrentResult_def Let_def)

subsection \<open>A result is final\<close>

lemma signal_fields [simp]:
  "ct_resultFinalized (signalCompletion ct) = ct_resultFinalized ct"
  "ct_lastResult (signalCompletion ct) = ct_lastResult ct" "ct_node (signalCompletion ct) = ct_node ct"
  "ct_files (signalCompletion ct) = ct_files ct" "ct_promiseSet (signalCompletion ct)"
  "ct_cliBlockFlag (signalCompletion ct)" "ct_testStarted (signalCompletion ct) = ct_testStarted ct"
  "ct_stopped (signalCompletion ct) = ct_stopped ct" "ct_sink (signalCompletion ct) = ct_sink ct"
  "ct_signals (signalCompletion ct) = (if ct_promiseSet ct then ct_signals ct else Suc (ct_signals ct))"
  by (simp_all add: signalCompletion_def Let_def)

definition settled :: "Controller \<Rightarrow> TestRunResult \<Rightarrow> (string \<times> json) list \<Rightarrow> bool" where
  "settled ct r files \<longleftrightarrow> ct_resultFinalized ct \<and> ct_promiseSet ct \<and> ct_signals ct = 1 \<and>
     ct_lastResult ct = r \<and> ct_files ct = files"

lemma settled_finalize: "settled ct r fs \<Longrightarrow> settled (finalizeResultOnce env reason ct) r fs"
  by (simp add: settled_def finalizeResultOnce_def)

lemma settled_publish: "settled (publishPhaseResult env k ct) r fs = settled ct r fs"
  by (simp add: settled_def publishPhaseResult_def Let_def)

lemma settled_publishes: "settled (fold (publishPhaseResult env) ks ct) r fs = settled ct r fs"
  by (induction ks arbitrary: ct) (simp_all add: settled_publish)

lemma settled_node [simp]: "settled (ct\<lparr>ct_node := nd\<rparr>) r fs = settled ct r fs"
  "settled (ct\<lparr>ct_stopped := b\<rparr>) r fs = settled ct r fs"
  by (simp_all add: settled_def)

lemma settled_event: "settled ct r fs \<Longrightarrow> settled (ctl_event env f ct) r fs"
  by (simp add: ctl_event_def Let_def settled_publishes settled_finalize
      split: session_wait.splits option.splits)

lemma settled_stop: "settled ct r fs \<Longrightarrow> settled (stopTest env ct) r fs"
  by (simp add: stopTest_def Let_def settled_event settled_finalize)

lemma exportResult_other:
  "(let ct' = snd (exportResult env r ct) in
    ct_promiseSet ct' = ct_promiseSet ct \<and> ct_signals ct' = ct_signals ct \<and>
    ct_resultFinalized ct' = ct_resultFinalized ct \<and> ct_node ct' = ct_node ct)"
  unfolding exportResult_def Let_def
  by (rule foldl_invariant) (auto simp: export_step_def Let_def split: prod.splits)

text \<open>
  once a run has been finalised, by its session's end or by a stop, nothing that follows (events
  of the node, another finalisation with another reason, a stop) changes the result, writes
  another file or signals completion again.
\<close>

theorem finalize_once:
  assumes "\<not> ct_resultFinalized ct" "\<not> ct_promiseSet ct" "ct_signals ct = 0"
    and "ct1 = finalizeResultOnce env reason ct"
    and "ct2 = foldl (\<lambda>c g. g c) ct1 ops"
    and "\<forall>g \<in> set ops. (\<exists>e f. g = ctl_event e f) \<or> (\<exists>e m. g = finalizeResultOnce e m) \<or>
      (\<exists>e. g = stopTest e)"
  shows "ct_signals ct1 = 1 \<and> ct_signals ct2 = 1 \<and> ct_lastResult ct2 = ct_lastResult ct1 \<and>
    ct_files ct2 = ct_files ct1"
proof -
  let ?ct = "ct\<lparr>ct_resultFinalized := True\<rparr>"
  let ?r = "buildCurrentResult (ce_nowIso env) reason ?ct"
  obtain w c where E: "exportResult env ?r ?ct = (w, c)" by (cases "exportResult env ?r ?ct")
  with exportResult_other [of env ?r ?ct] assms(1-3) have
    "\<not> ct_promiseSet c" "ct_signals c = 0" "ct_resultFinalized c" by (simp_all add: Let_def)
  then have "settled ct1 (ct_lastResult ct1) (ct_files ct1)"
    using E assms(1) by (simp add: assms(4) settled_def finalizeResultOnce_def Let_def)
  moreover from this have "settled ct2 (ct_lastResult ct1) (ct_files ct1)"
    unfolding assms(5)
    by (rule foldl_invariant)
      (use assms(6) in \<open>auto intro: settled_event settled_finalize settled_stop\<close>)
  ultimately show ?thesis by (simp add: settled_def)
qed

subsection \<open>A completed run succeeds\<close>

lemma complete_node_success:
  fixes ct :: Controller
  assumes "nd_state (ct_node ct) = FINISHED" "0 < packetSize (nd_config (ct_node ct))"
    and "numPackets (nd_config (ct_node ct)) = numPackets cfg"
    and "packetSize (nd_config (ct_node ct)) = packetSize cfg"
    and "receiver_stats cfg (nd_serverStatsPhase1 (ct_node ct))"
    and "receiver_stats cfg (nd_clientStatsPhase2 (ct_node ct))"
  shows "success (buildCurrentResult t [] ct)"
  using assms
  by (simp add: buildCurrentResult_def Let_def validate_ok_lemma counts_ok_def receiver_stats_def
      mult.commute)

text \<open>
  C3: when a run in an environment without failures has completed, the result that each side's
  controller builds is a success and gives no reason for failure.
\<close>

theorem complete_run_succeeds:
  assumes "run_complete cfg s" and "config_valid cfg"
    and "ct_node ct = sy_client s \<or> ct_node ct = sy_server s"
  shows "success (buildCurrentResult t [] ct) \<and> failureReason (buildCurrentResult t [] ct) = [] \<and>
    finalState (buildCurrentResult t [] ct) = ''FINISHED''"
proof -
  have "nd_state (ct_node ct) = FINISHED" "nd_config (ct_node ct) = cfg \<or>
      nd_config (ct_node ct) = cfg\<lparr>mode := SERVER\<rparr>"
    "receiver_stats cfg (nd_serverStatsPhase1 (ct_node ct))"
    "receiver_stats cfg (nd_clientStatsPhase2 (ct_node ct))"
    using assms(1,3) by (auto simp: run_complete_def Let_def)
  moreover from this assms(2) have "success (buildCurrentResult t [] ct)"
    by (intro complete_node_success [of ct cfg]) (auto simp: config_valid_def)
  ultimately show ?thesis
    by (auto simp: buildCurrentResult_def stateToString_def Let_def)
qed

subsection \<open>Examples\<close>

definition new_Controller :: "time_point \<Rightarrow> Controller" where
  "new_Controller now =
     \<lparr>ct_node = new_Node default_Config now, ct_stopped = False, ct_promiseSet = False,
      ct_signals = 0, ct_cliBlockFlag = False, ct_resultFinalized = False, ct_testStarted = False,
      ct_phase1EventPublished = False, ct_phase2EventPublished = False,
      ct_runOptions = default_RunOptions, ct_startedAt = [], ct_resultExportWarning = [],
      ct_lastResult = empty_result, ct_sink = new_sink, ct_files = []\<rparr>"

definition demo_env :: ctl_env where
  "demo_env = \<lparr>ce_nowIso = ''2025-01-01T00:00:00'', ce_now = 0, ce_millis = 0, ce_pid = 1,
     ce_runCounter = 0, ce_tempCounter = 0,
     ce_file = (\<lambda>_. \<lparr>fe_create_dirs = [], fe_open_ok = True, fe_write_ok = True, fe_rename = []\<rparr>),
     ce_pipe_ok = (\<lambda>_. False), ce_parse = demo_parse, ce_dump = demo_dump\<rparr>"

theorem finalize_once_witness:
  "let ct1 = finalizeResultOnce demo_env ''first'' (new_Controller 0);
       ct2 = foldl (\<lambda>c g. g c) ct1 [finalizeResultOnce demo_env ''second'', stopTest demo_env]
   in ct_signals ct1 = 1 \<and> ct_signals ct2 = 1 \<and> ct_lastResult ct2 = ct_lastResult ct1 \<and>
     ct_files ct2 = ct_files ct1"
  unfolding Let_def
  by (rule finalize_once [OF _ _ _ refl refl]) (auto simp: new_Controller_def)

definition demo_done :: "Config \<Rightarrow> Node" where
  "demo_done cfg = (new_Node cfg 0)\<lparr>nd_state := FINISHED, nd_wait := W_Done None, nd_phases := [1, 2],
     nd_clientStatsPhase1 := demo_sent, nd_serverStatsPhase1 := demo_received,
     nd_clientStatsPhase2 := demo_received, nd_serverStatsPhase2 := demo_sent\<rparr>"

theorem complete_run_succeeds_witness:
  "success (buildCurrentResult [] [] ((new_Controller 0)\<lparr>ct_node := demo_done demo_config\<rparr>)) \<and>
   failureReason (buildCurrentResult [] [] ((new_Controller 0)\<lparr>ct_node := demo_done demo_config\<rparr>)) = [] \<and>
   finalState (buildCurrentResult [] [] ((new_Controller 0)\<lparr>ct_node := demo_done demo_config\<rparr>)) =
     ''FINISHED''"
proof (rule complete_run_succeeds)
  show "run_complete demo_config \<lparr>sy_client = demo_done demo_config,
      sy_server = demo_done (demo_config\<lparr>mode := SERVER\<rparr>), sy_c2s = [], sy_s2c = []\<rparr>"
    by (simp add: run_complete_def demo_done_def new_Node_def demo_config_def default_Config_def
        sender_stats_def receiver_stats_def demo_sent_def demo_received_def zeroStats_def)
  show "config_valid demo_config" using demo_run_ok by (simp add: run_ok_def)
qed simp

end
