(* ===== verification/Cli.thy ===== *)
theory Cli
  imports Controller
begin

section \<open>The command line of ipeftc\<close>

text \<open>
  \<open>MyIperf/app/ipeftc/CLIHandler.cpp\<close> and \<open>main.cpp\<close>. The arguments are the list after the program
  name; the index loop of \<open>parseArgs\<close> is a recursion that takes one or two of them. A
  configuration file is read through the argument \<open>file\<close>. \<open>Logger::setConsoleOutput\<close> is recorded in
  \<open>cl_console\<close>.
\<close>

record ParsedCommandLine =
  cl_config :: Config
  cl_options :: RunOptions
  cl_mode :: string
  cl_console :: "bool option"

definition known_args :: "string list" where
  "known_args = [''--mode'', ''--config'', ''--target'', ''--port'', ''--packet-size'', ''--num-packets'',
     ''--interval-ms'', ''--save-logs'', ''--handshake-timeout-ms'', ''--run-id'', ''--result-dir'',
     ''--result-json'', ''--result-pipe'', ''--quiet'', ''--help'', ''-h'', ''--version'', ''-v'']"

definition upd_config :: "(Config \<Rightarrow> Config res) \<Rightarrow> ParsedCommandLine \<Rightarrow> ParsedCommandLine res" where
  "upd_config f p = res_bind (f (cl_config p)) (\<lambda>c. Inr (p\<lparr>cl_config := c\<rparr>))"

definition set_int :: "(int \<Rightarrow> Config \<Rightarrow> Config res) \<Rightarrow> string \<Rightarrow> ParsedCommandLine \<Rightarrow> ParsedCommandLine res" where
  "set_int f v p = res_bind (stoi v) (\<lambda>n. upd_config (f n) p)"

definition set_save_logs :: "string \<Rightarrow> ParsedCommandLine \<Rightarrow> ParsedCommandLine res" where
  "set_save_logs v p =
     (if v = ''true'' then upd_config (setSaveLogs True) p
      else if v = ''false'' then upd_config (setSaveLogs False) p
      else Inl (Runtime_error (''Invalid value for --save-logs. Must be '' @ [CHR 0x27] @ ''true'' @
        [CHR 0x27] @ '' or '' @ [CHR 0x27] @ ''false'' @ [CHR 0x27] @ ''.'')))"

definition set_quiet :: "string \<Rightarrow> ParsedCommandLine \<Rightarrow> ParsedCommandLine res" where
  "set_quiet v p =
     (if v = ''true'' then Inr (p\<lparr>cl_console := Some False\<rparr>)
      else if v = ''false'' then Inr (p\<lparr>cl_console := Some True\<rparr>)
      else Inl (Runtime_error (''Invalid value for --quiet. Must be '' @ [CHR 0x27] @ ''true'' @
        [CHR 0x27] @ '' or '' @ [CHR 0x27] @ ''false'' @ [CHR 0x27] @ ''.'')))"

definition upd_options :: "(RunOptions \<Rightarrow> RunOptions) \<Rightarrow> ParsedCommandLine \<Rightarrow> ParsedCommandLine res" where
  "upd_options f p = Inr (p\<lparr>cl_options := f (cl_options p)\<rparr>)"

text \<open>What an option does with its value, or \<open>None\<close> when the argument is no option with a value.\<close>

definition option_action :: "string \<Rightarrow> string \<Rightarrow> (ParsedCommandLine \<Rightarrow> ParsedCommandLine res) option" where
  "option_action arg v =
     (if arg = ''--mode'' then Some (\<lambda>p. Inr (p\<lparr>cl_mode := map to_upper_char v\<rparr>))
      else if arg = ''--config'' then Some Inr
      else if arg = ''--target'' then Some (upd_config (setTargetIP v))
      else if arg = ''--port'' then Some (set_int setPort v)
      else if arg = ''--packet-size'' then Some (set_int setPacketSize v)
      else if arg = ''--num-packets'' then Some (set_int setNumPackets v)
      else if arg = ''--interval-ms'' then Some (set_int setSendIntervalMs v)
      else if arg = ''--save-logs'' then Some (set_save_logs v)
      else if arg = ''--handshake-timeout-ms'' then Some (set_int setHandshakeTimeoutMs v)
      else if arg = ''--run-id'' then Some (upd_options (\<lambda>r. r\<lparr>opt_runId := v\<rparr>))
      else if arg = ''--result-dir'' then Some (upd_options (\<lambda>r. r\<lparr>opt_resultDir := v\<rparr>))
      else if arg = ''--result-json'' then Some (upd_options (\<lambda>r. r\<lparr>opt_resultJson := v\<rparr>))
      else if arg = ''--result-pipe'' then Some (upd_options (\<lambda>r. r\<lparr>opt_resultPipe := v\<rparr>))
      else if arg = ''--quiet'' \<or> arg = ''-q'' then Some (set_quiet v)
      else None)"

definition check_known :: "string \<Rightarrow> ParsedCommandLine \<Rightarrow> ParsedCommandLine res" where
  "check_known arg p =
     (if take 2 arg = ''--'' \<and> arg \<notin> set known_args
      then Inl (Runtime_error (''Unknown argument: '' @ arg)) else Inr p)"

fun parse_loop :: "string list \<Rightarrow> ParsedCommandLine \<Rightarrow> ParsedCommandLine res" where
  "parse_loop [] p = Inr p"
| "parse_loop [arg] p =
     (if arg \<in> {''--help'', ''-h'', ''--version'', ''-v''} then Inr p else check_known arg p)"
| "parse_loop (arg # v # rest) p =
     (if arg \<in> {''--help'', ''-h'', ''--version'', ''-v''} then parse_loop (v # rest) p
      else case option_action arg v of
             Some act \<Rightarrow> res_bind (act p) (parse_loop rest)
           | None \<Rightarrow> res_bind (check_known arg p) (parse_loop (v # rest)))"

text \<open>The first pass: the value after the first \<open>--config\<close>.\<close>

fun find_config :: "string list \<Rightarrow> string" where
  "find_config (arg # v # rest) = (if arg = ''--config'' then v else find_config (v # rest))"
| "find_config args = []"

definition parseArgs :: "json_parser \<Rightarrow> (string \<Rightarrow> string option) \<Rightarrow> string list \<Rightarrow> ParsedCommandLine res" where
  "parseArgs parse file args =
     (let path = find_config args;
          start = \<lparr>cl_config = default_Config, cl_options = default_RunOptions, cl_mode = [],
                   cl_console = None\<rparr>;
          loaded = (if path = [] then Inr start
            else case ConfigParser_load parse (file path)
                        \<lparr>filepath = path, configData = default_Config\<rparr> of
                   (True, pr) \<Rightarrow> Inr (start\<lparr>cl_config := configData pr\<rparr>)
                 | (False, pr) \<Rightarrow> Inl (Runtime_error
                     (''Error: Failed to load configuration from file: '' @ path)))
      in res_bind loaded (\<lambda>p.
         res_bind (parse_loop args p) (\<lambda>p.
           if cl_mode p = ''CLIENT'' then upd_config (setMode CLIENT) p
           else if cl_mode p = ''SERVER'' then upd_config (setMode SERVER) p
           else Inl (Runtime_error (''Error: Mode (--mode) must be specified as either '' @ [CHR 0x27] @
             ''client'' @ [CHR 0x27] @ '' or '' @ [CHR 0x27] @ ''server'' @ [CHR 0x27] @ ''.'')))))"

subsection \<open>The program\<close>

text \<open>
  The program waits on its main thread while the other threads handle events: each element of \<open>evs\<close>
  is one event of the node with the answers of its surroundings. \<open>None\<close> is a wait that does not end
  within these events. The completion future is ready when \<open>ct_promiseSet\<close>.
\<close>

type_synonym app_event = "ctl_env \<times> (Node \<Rightarrow> Node)"

fun wait_until :: "(Controller \<Rightarrow> bool) \<Rightarrow> app_event list \<Rightarrow> Controller \<Rightarrow> (Controller \<times> app_event list) option" where
  "wait_until ready [] ct = (if ready ct then Some (ct, []) else None)"
| "wait_until ready ((env, f) # evs) ct =
     (if ready ct then Some (ct, (env, f) # evs) else wait_until ready evs (ctl_event env f ct))"

record app_env =
  ap_parse :: json_parser
  ap_file :: "string \<Rightarrow> string option"
  ap_now :: time_point
  ap_start :: ctl_env
  ap_netOk :: bool
  ap_stop :: ctl_env

text \<open>\<open>CLIHandler::run\<close>: whether the run goes on, the controller, and the events still to come.\<close>

definition cli_run :: "app_env \<Rightarrow> string list \<Rightarrow> app_event list \<Rightarrow> (bool \<times> Controller \<times> app_event list) option" where
  "cli_run env args evs =
     (let ct = new_Controller (ap_now env) in
      if args = [] then Some (False, ct, evs)
      else case parseArgs (ap_parse env) (ap_file env) args of
             Inl e \<Rightarrow> Some (False, ct, evs)
           | Inr p \<Rightarrow>
               let ct = startTest (ap_start env) (cl_config p) (cl_options p) (ap_netOk env) ct
               in if mode (cl_config p) = SERVER
                  then (case wait_until ct_cliBlockFlag evs ct of
                          None \<Rightarrow> None
                        | Some (ct, evs) \<Rightarrow>
                            let ct = stopTest (ap_stop env) ct in Some (\<not> hasError ct, ct, evs))
                  else Some (\<not> hasError ct, ct, evs))"

text \<open>\<open>main\<close>: the exit code and the controller at the end.\<close>

definition ipeftc_main :: "app_env \<Rightarrow> string list \<Rightarrow> app_event list \<Rightarrow> (nat \<times> Controller) option" where
  "ipeftc_main env args evs =
     (if \<exists>a \<in> set args. a \<in> {''--help'', ''-h'', ''--version'', ''-v''}
      then Some (0, new_Controller (ap_now env))
      else case cli_run env args evs of
             None \<Rightarrow> None
           | Some (goes_on, ct, evs) \<Rightarrow>
               if \<not> goes_on then Some (1, ct)
               else (case wait_until ct_promiseSet evs ct of
                       None \<Rightarrow> None
                     | Some (ct, evs) \<Rightarrow>
                         let ct = stopTest (ap_stop env) ct
                         in Some (if completedSuccessfully ct then 0 else 1, ct)))"

subsection \<open>The configuration is valid\<close>

lemma upd_config_valid:
  assumes "upd_config f p = Inr p'" and "config_valid (cl_config p)"
    and "\<And>c c'. config_valid c \<Longrightarrow> f c = Inr c' \<Longrightarrow> config_valid c'"
  shows "config_valid (cl_config p')"
  using assms by (auto simp: upd_config_def res_bind_eq_Inr)

lemma stoi_range: "stoi v = Inr n \<Longrightarrow> int_range n"
  by (auto simp: stoi_def stoi_pos_def res_bind_eq_Inr int_range_def split: option.splits if_splits)

lemma set_int_valid:
  assumes "config_valid (cl_config p)"
  shows "set_int setPort v p = Inr p' \<Longrightarrow> config_valid (cl_config p')"
    and "set_int setPacketSize v p = Inr p' \<Longrightarrow> config_valid (cl_config p')"
    and "set_int setNumPackets v p = Inr p' \<Longrightarrow> config_valid (cl_config p')"
    and "set_int setSendIntervalMs v p = Inr p' \<Longrightarrow> config_valid (cl_config p')"
    and "set_int setHandshakeTimeoutMs v p = Inr p' \<Longrightarrow> config_valid (cl_config p')"
  unfolding set_int_def res_bind_eq_Inr
  using assms
  by (blast dest: stoi_range intro: upd_config_valid int_setters_valid)+

lemma set_other_valid:
  assumes "config_valid (cl_config p)"
  shows "upd_config (setTargetIP v) p = Inr p' \<Longrightarrow> config_valid (cl_config p')"
    and "set_save_logs v p = Inr p' \<Longrightarrow> config_valid (cl_config p')"
    and "set_quiet v p = Inr p' \<Longrightarrow> config_valid (cl_config p')"
    and "upd_options g p = Inr p' \<Longrightarrow> config_valid (cl_config p')"
proof -
  show "upd_config (setTargetIP v) p = Inr p' \<Longrightarrow> config_valid (cl_config p')"
    using upd_config_valid [OF _ assms] other_setters_valid(2) by blast
  show "set_save_logs v p = Inr p' \<Longrightarrow> config_valid (cl_config p')"
  proof -
    assume "set_save_logs v p = Inr p'"
    then obtain b where "upd_config (setSaveLogs b) p = Inr p'"
      by (auto simp: set_save_logs_def split: if_splits)
    then show ?thesis using upd_config_valid [OF _ assms] other_setters_valid(4) by blast
  qed
  show "set_quiet v p = Inr p' \<Longrightarrow> config_valid (cl_config p')" "upd_options g p = Inr p' \<Longrightarrow> config_valid (cl_config p')"
    using assms by (auto simp: set_quiet_def upd_options_def split: if_splits)
qed

lemma option_action_valid:
  assumes "option_action arg v = Some act" and "act p = Inr p'" and "config_valid (cl_config p)"
  shows "config_valid (cl_config p')"
proof -
  have "act = (\<lambda>p. Inr (p\<lparr>cl_mode := map to_upper_char v\<rparr>)) \<or> act = Inr \<or> act = upd_config (setTargetIP v) \<or>
      act = set_int setPort v \<or> act = set_int setPacketSize v \<or> act = set_int setNumPackets v \<or>
      act = set_int setSendIntervalMs v \<or> act = set_save_logs v \<or> act = set_int setHandshakeTimeoutMs v \<or>
      (\<exists>g. act = upd_options g) \<or> act = set_quiet v"
    using assms(1) unfolding option_action_def by (simp split: if_splits) blast+
  with assms(2) consider "cl_config p' = cl_config p" | "upd_config (setTargetIP v) p = Inr p'"
    | "set_int setPort v p = Inr p'" | "set_int setPacketSize v p = Inr p'" | "set_int setNumPackets v p = Inr p'"
    | "set_int setSendIntervalMs v p = Inr p'" | "set_save_logs v p = Inr p'"
    | "set_int setHandshakeTimeoutMs v p = Inr p'" | g where "upd_options g p = Inr p'" | "set_quiet v p = Inr p'"
    by (elim disjE exE) auto
  then show ?thesis
    using set_int_valid [OF assms(3)] set_other_valid [OF assms(3)] assms(3) by cases (blast | simp)+
qed

lemma parse_loop_valid:
  "parse_loop args p = Inr p' \<Longrightarrow> config_valid (cl_config p) \<Longrightarrow> config_valid (cl_config p')"
  by (induction args p rule: parse_loop.induct)
    (auto simp: res_bind_eq_Inr check_known_def split: if_splits option.splits dest: option_action_valid)

theorem parseArgs_valid:
  assumes "parseArgs parse file args = Inr p"
  shows "config_valid (cl_config p)"
proof -
  let ?path = "find_config args"
  let ?start = "\<lparr>cl_config = default_Config, cl_options = default_RunOptions, cl_mode = [], cl_console = None\<rparr>"
  have "\<exists>c q. config_valid c \<and> parse_loop args (?start\<lparr>cl_config := c\<rparr>) = Inr q \<and>
      (\<exists>m. upd_config (setMode m) q = Inr p)"
  proof (cases "?path = []")
    case True
    then show ?thesis using assms
      by (intro exI [of _ default_Config]) (auto simp: parseArgs_def res_bind_eq_Inr split: if_splits)
  next
    case False
    obtain ok pr where l: "ConfigParser_load parse (file ?path)
        \<lparr>filepath = ?path, configData = default_Config\<rparr> = (ok, pr)" by force
    with assms False have ok: ok by (cases ok) (simp_all add: parseArgs_def)
    with l have "config_valid (configData pr)" using ConfigParser_load_True by simp
    with assms False l ok show ?thesis
      by (intro exI [of _ "configData pr"]) (auto simp: parseArgs_def res_bind_eq_Inr split: if_splits)
  qed
  then obtain c q m where q: "config_valid c" "parse_loop args (?start\<lparr>cl_config := c\<rparr>) = Inr q"
    "upd_config (setMode m) q = Inr p" by blast
  have "config_valid (cl_config q)" using parse_loop_valid [OF q(2)] q(1) by simp
  with upd_config_valid [OF q(3)] other_setters_valid(3) show ?thesis by blast
qed

subsection \<open>The exit code\<close>

definition started_ct :: "Controller \<Rightarrow> bool" where
  "started_ct ct \<longleftrightarrow> ct_testStarted ct \<and> (ct_stopped ct \<longrightarrow> ct_resultFinalized ct)"

lemma exportResult_started:
  "ct_testStarted (snd (exportResult env r ct)) = ct_testStarted ct \<and>
   ct_stopped (snd (exportResult env r ct)) = ct_stopped ct \<and>
   ct_resultFinalized (snd (exportResult env r ct)) = ct_resultFinalized ct"
  unfolding exportResult_def
  by (rule foldl_invariant) (auto simp: export_step_def Let_def split: prod.splits)

lemma finalize_started:
  "ct_testStarted (finalizeResultOnce env reason ct) = ct_testStarted ct"
  "ct_resultFinalized (finalizeResultOnce env reason ct)"
  "ct_stopped (finalizeResultOnce env reason ct) = ct_stopped ct"
proof -
  let ?ct = "ct\<lparr>ct_resultFinalized := True\<rparr>"
  obtain w c where E: "exportResult env (buildCurrentResult (ce_nowIso env) reason ?ct) ?ct = (w, c)" by force
  with exportResult_started [of env "buildCurrentResult (ce_nowIso env) reason ?ct" ?ct]
  have "ct_testStarted c = ct_testStarted ct" "ct_stopped c = ct_stopped ct" "ct_resultFinalized c" by simp_all
  then show "ct_testStarted (finalizeResultOnce env reason ct) = ct_testStarted ct"
    "ct_resultFinalized (finalizeResultOnce env reason ct)"
    "ct_stopped (finalizeResultOnce env reason ct) = ct_stopped ct"
    using E by (simp_all add: finalizeResultOnce_def signalCompletion_def Let_def)
qed

lemma publishes_started:
  "ct_testStarted (fold (publishPhaseResult env) ks ct) = ct_testStarted ct"
  "ct_resultFinalized (fold (publishPhaseResult env) ks ct) = ct_resultFinalized ct"
  "ct_stopped (fold (publishPhaseResult env) ks ct) = ct_stopped ct"
  by (induction ks arbitrary: ct) (simp_all add: publishPhaseResult_def Let_def)

lemma finalize_node: "ct_node (finalizeResultOnce env reason ct) = ct_node ct"
proof -
  let ?ct = "ct\<lparr>ct_resultFinalized := True\<rparr>"
  obtain w c where E: "exportResult env (buildCurrentResult (ce_nowIso env) reason ?ct) ?ct = (w, c)" by force
  with exportResult_other [of env "buildCurrentResult (ce_nowIso env) reason ?ct" ?ct]
  have "ct_node c = ct_node ct" by (simp add: Let_def)
  then show ?thesis using E by (simp add: finalizeResultOnce_def signalCompletion_def Let_def)
qed

lemma event_node: "ct_node (ctl_event env f ct) = f (ct_node ct)"
proof -
  have "ct_node (fold (publishPhaseResult env) ks c) = ct_node c" for ks c
    by (induction ks arbitrary: c) (simp_all add: publishPhaseResult_def Let_def)
  then show ?thesis
    by (simp add: ctl_event_def Let_def finalize_node split: session_wait.split option.split)
qed

lemma event_started:
  "ct_testStarted (ctl_event env f ct) = ct_testStarted ct"
  "ct_resultFinalized ct \<Longrightarrow> ct_resultFinalized (ctl_event env f ct)"
  "ct_stopped (ctl_event env f ct) = ct_stopped ct"
  by (auto simp: ctl_event_def Let_def publishes_started finalize_started split: session_wait.splits option.splits)

lemma started_event: "started_ct ct \<Longrightarrow> started_ct (ctl_event env f ct)"
  by (simp add: started_ct_def event_started)

lemma started_wait: "wait_until ready evs ct = Some (ct', evs') \<Longrightarrow> started_ct ct \<Longrightarrow> started_ct ct'"
  by (induction ready evs ct rule: wait_until.induct) (auto split: if_splits intro: started_event)

lemma started_stop:
  assumes "started_ct ct"
  shows "started_ct (stopTest env ct) \<and> ct_resultFinalized (stopTest env ct)"
  using assms by (auto simp: stopTest_def started_ct_def Let_def finalize_started event_started)

lemma started_start: "started_ct (startTest env cfg options net_ok ct)"
  by (simp add: startTest_def started_ct_def Let_def event_started publishRunStarted_def ctl_reset_def)

text \<open>
  C30: when \<open>ipeftc\<close> returns, its exit code is 0 exactly when the run has reached FINISHED and its
  result is a success; the parse errors, a failed run and a run stopped too early give 1.
\<close>

theorem exit_code_success:
  assumes "ipeftc_main env args evs = Some (code, ct)"
    and "\<forall>a \<in> set args. a \<notin> {''--help'', ''-h'', ''--version'', ''-v''}"
  shows "(code = 0 \<longleftrightarrow> nd_state (ct_node ct) = FINISHED \<and> success (ct_lastResult ct)) \<and> code \<le> 1"
proof -
  obtain b ct1 evs1 where r: "cli_run env args evs = Some (b, ct1, evs1)"
    using assms by (auto simp: ipeftc_main_def split: option.splits if_splits)
  have run: "started_ct ct1 \<or> \<not> b \<and> ct1 = new_Controller (ap_now env)" "b \<longleftrightarrow> \<not> hasError ct1 \<and> started_ct ct1"
    using r started_stop started_wait started_start
    by (fastforce simp: cli_run_def Let_def new_Controller_def started_ct_def
        split: if_splits sum.splits option.splits prod.splits)+
  show ?thesis
  proof (cases b)
    case False
    then have c: "code = 1" "ct = ct1" using assms r by (auto simp: ipeftc_main_def split: if_splits)
    have "nd_state (ct_node ct1) \<noteq> FINISHED"
      using run False by (auto simp: hasError_def new_Controller_def new_Node_def)
    then show ?thesis using c by simp
  next
    case True
    obtain ct2 evs2 where w: "wait_until ct_promiseSet evs1 ct1 = Some (ct2, evs2)"
      "ct = stopTest (ap_stop env) ct2" "code = (if completedSuccessfully ct then 0 else 1)"
      using assms r True by (auto simp: ipeftc_main_def Let_def split: option.splits if_splits)
    have "started_ct ct \<and> ct_resultFinalized ct"
      using started_stop started_wait [OF w(1)] run True w(2) by blast
    then show ?thesis using w(3) by (simp add: completedSuccessfully_def started_ct_def)
  qed
qed

subsection \<open>Examples\<close>

definition demo_ctl_env :: ctl_env where
  "demo_ctl_env = \<lparr>ce_nowIso = ''2025-01-01T00:00:00Z'', ce_now = 0, ce_millis = 0, ce_pid = 7, ce_runCounter = 0,
     ce_tempCounter = 0, ce_file = (\<lambda>p. \<lparr>fe_create_dirs = [], fe_open_ok = True, fe_write_ok = True, fe_rename = []\<rparr>),
     ce_pipe_ok = (\<lambda>l. True), ce_parse = (\<lambda>s. Inr JNull), ce_dump = (\<lambda>j. ''{}'')\<rparr>"

definition offline_app :: app_env where
  "offline_app = \<lparr>ap_parse = (\<lambda>s. Inr JNull), ap_file = (\<lambda>f. None), ap_now = 0, ap_start = demo_ctl_env,
     ap_netOk = False, ap_stop = demo_ctl_env\<rparr>"

text \<open>A client whose network cannot be initialised.\<close>

definition offline_controller :: Controller where
  "offline_controller = startTest demo_ctl_env default_Config default_RunOptions False (new_Controller 0)"

lemma offline_run: "ipeftc_main offline_app [''--mode'', ''client''] [] = Some (1, offline_controller)"
proof -
  have "to_upper_char (CHR ''c'') = CHR ''C''" "to_upper_char (CHR ''l'') = CHR ''L''"
    "to_upper_char (CHR ''i'') = CHR ''I''" "to_upper_char (CHR ''e'') = CHR ''E''"
    "to_upper_char (CHR ''n'') = CHR ''N''" "to_upper_char (CHR ''t'') = CHR ''T''" by code_simp+
  then have "parseArgs (\<lambda>s. Inr JNull) (\<lambda>f. None) [''--mode'', ''client''] =
      Inr \<lparr>cl_config = default_Config, cl_options = default_RunOptions, cl_mode = ''CLIENT'', cl_console = None\<rparr>"
    by (simp add: parseArgs_def option_action_def upd_config_def setMode_def default_Config_def Let_def)
  moreover have "hasError offline_controller"
    by (simp add: hasError_def offline_controller_def startTest_def event_node client_run_def session_fail_def
        session_throw_def transitionTo_def default_Config_def Let_def)
  ultimately show ?thesis
    by (simp add: ipeftc_main_def cli_run_def offline_app_def offline_controller_def Let_def default_Config_def)
qed

theorem exit_code_success_witness:
  "((1::nat) = 0 \<longleftrightarrow> nd_state (ct_node offline_controller) = FINISHED \<and> success (ct_lastResult offline_controller)) \<and>
   (1::nat) \<le> 1"
  by (rule exit_code_success [OF offline_run]) simp

end
