(* ===== verification/OutputParser.thy ===== *)
theory OutputParser
  imports ControlProtocol RunnerMessages
begin

section \<open>Parsing the output of ipeftc\<close>

text \<open>
  \<open>TestRunner/IpeftcOutputParser.cpp\<close>: the phase summaries in the output of a finished ipeftc, the
  fallback for a missing result file. A regular expression \<open>label:\s*([0-9]+)\<close> is searched by trying
  each position in turn; its parts are read greedily, which leaves nothing to backtrack to.
\<close>

definition FindNextMarker :: "string \<Rightarrow> nat \<Rightarrow> string \<Rightarrow> nat" where
  "FindNextMarker text start marker =
     (case find_from text marker start of None \<Rightarrow> length text | Some pos \<Rightarrow> pos)"

definition SlicePhase :: "string \<Rightarrow> string \<Rightarrow> string" where
  "SlicePhase output phase =
     (case find_from output phase 0 of
        None \<Rightarrow> []
      | Some begin_pos \<Rightarrow>
          let nextPhase = (case find_from output ''Test Phase '' (begin_pos + length phase) of
                             None \<Rightarrow> length output | Some pos \<Rightarrow> pos)
          in substr output begin_pos (nextPhase - begin_pos))"

definition dashes :: string where
  "dashes = ''----------------------------''"

definition SliceLabelBlock :: "string \<Rightarrow> string \<Rightarrow> string" where
  "SliceLabelBlock phaseText label =
     (case find_from phaseText label 0 of
        None \<Rightarrow> []
      | Some begin_pos \<Rightarrow>
          let searchFrom = begin_pos + length label;
              e = length phaseText;
              e = min e (FindNextMarker phaseText searchFrom ''Client-side'');
              e = min e (FindNextMarker phaseText searchFrom ''Server-side'');
              e = min e (FindNextMarker phaseText searchFrom dashes)
          in substr phaseText begin_pos (e - begin_pos))"

subsection \<open>Numbers\<close>

text \<open>The text after the leftmost occurrence of \<open>pat\<close> at which \<open>accept\<close> gives a match.\<close>

fun regex_search :: "string \<Rightarrow> (string \<Rightarrow> string option) \<Rightarrow> string \<Rightarrow> string option" where
  "regex_search pat accept [] = (if pat = [] then accept [] else None)"
| "regex_search pat accept (c # cs) =
     (if prefix pat (c # cs) \<and> accept (drop (length pat) (c # cs)) \<noteq> None
      then accept (drop (length pat) (c # cs)) else regex_search pat accept cs)"

text \<open>\<open>\s*([0-9]+)\<close> and \<open>\s*([0-9]+(?:\.[0-9]+)?)\<close>: the group matched.\<close>

definition accept_integer :: "string \<Rightarrow> string option" where
  "accept_integer s =
     (let ds = takeWhile is_digit (dropWhile is_space s) in if ds = [] then None else Some ds)"

definition accept_decimal :: "string \<Rightarrow> string option" where
  "accept_decimal s =
     (let t = dropWhile is_space s; ds = takeWhile is_digit t; r = drop (length ds) t
      in if ds = [] then None
         else if r \<noteq> [] \<and> hd r = CHR ''.'' \<and> takeWhile is_digit (tl r) \<noteq> []
         then Some (ds @ ''.'' @ takeWhile is_digit (tl r)) else Some ds)"

text \<open>\<open>std::stod\<close> on what the second pattern matches.\<close>

definition decimal_value :: "string \<Rightarrow> double" where
  "decimal_value s =
     (let ds = takeWhile is_digit s; frac = drop (Suc (length ds)) s
      in rat_of_nat (nat_of_digits ds) + rat_of_nat (nat_of_digits frac) / 10 ^ length frac)"

text \<open>The value found, or the fallback and \<open>False\<close>; \<open>stoll\<close> may throw.\<close>

definition ExtractDouble :: "string \<Rightarrow> string \<Rightarrow> double \<Rightarrow> bool \<times> double" where
  "ExtractDouble text label v =
     (case regex_search (label @ '':'') accept_decimal text of
        None \<Rightarrow> (False, v)
      | Some m \<Rightarrow> (True, decimal_value m))"

definition ExtractLongLong :: "string \<Rightarrow> string \<Rightarrow> int \<Rightarrow> (bool \<times> int) res" where
  "ExtractLongLong text label v =
     (case regex_search (label @ '':'') accept_integer text of
        None \<Rightarrow> Inr (False, v)
      | Some m \<Rightarrow> res_bind (stoll m) (\<lambda>n. Inr (True, n)))"

subsection \<open>Filling a result\<close>

definition FillStatsFromBlock :: "string \<Rightarrow> bool \<Rightarrow> TestResult \<Rightarrow> (bool \<times> TestResult) res" where
  "FillStatsFromBlock block preferSent r =
     (if block = [] then Inr (False, r)
      else res_bind (ExtractLongLong block ''Total Bytes Received'' 0) (\<lambda>(hasReceivedBytes, bytesReceived).
           res_bind (ExtractLongLong block ''Total Bytes Sent'' 0) (\<lambda>(hasSentBytes, bytesSent).
           res_bind (ExtractLongLong block ''Total Packets Received'' 0) (\<lambda>(hasReceivedPackets, packetsReceived).
           res_bind (ExtractLongLong block ''Total Packets Sent'' 0) (\<lambda>(hasSentPackets, packetsSent).
           let r = (if preferSent
                 then r\<lparr>tr_totalBytes := (if hasSentBytes then bytesSent else bytesReceived),
                        tr_totalPackets := (if hasSentPackets then packetsSent else packetsReceived)\<rparr>
                 else r\<lparr>tr_totalBytes := (if hasReceivedBytes then bytesReceived else bytesSent),
                        tr_totalPackets := (if hasReceivedPackets then packetsReceived else packetsSent)\<rparr>);
               r = r\<lparr>tr_duration := snd (ExtractDouble block ''Duration'' (tr_duration r)),
                     tr_throughput := snd (ExtractDouble block ''Throughput'' (tr_throughput r))\<rparr>
           in res_bind (ExtractLongLong block ''Sequence Errors'' (tr_sequenceErrors r)) (\<lambda>(_, n).
              let r = r\<lparr>tr_sequenceErrors := n\<rparr> in
              res_bind (ExtractLongLong block ''Failed Checksums'' (tr_checksumErrors r)) (\<lambda>(_, n).
              let r = r\<lparr>tr_checksumErrors := n\<rparr> in
              res_bind (ExtractLongLong block ''Content Mismatches'' (tr_contentMismatches r)) (\<lambda>(_, n).
              let r = r\<lparr>tr_contentMismatches := n\<rparr> in
              Inr ((hasReceivedBytes \<or> hasSentBytes) \<and> (hasReceivedPackets \<or> hasSentPackets), r)))))))))"

definition TryParsePreferredBlock ::
  "string \<Rightarrow> string \<Rightarrow> string \<Rightarrow> bool \<Rightarrow> TestResult \<Rightarrow> (bool \<times> TestResult) res" where
  "TryParsePreferredBlock output phaseTitle label preferSent r =
     FillStatsFromBlock (SliceLabelBlock (SlicePhase output phaseTitle) label) preferSent r"

definition parse_phases :: "string \<Rightarrow> string \<Rightarrow> TestResult \<Rightarrow> (bool \<times> TestResult) res" where
  "parse_phases output role_name r =
     (if role_name = ''Client'' then
        res_bind (TryParsePreferredBlock output ''Test Phase 2 Summary'' ''Client-side'' False r)
          (\<lambda>(parsed, r). if parsed then Inr (True, r)
             else TryParsePreferredBlock output ''Test Phase 1 Summary'' ''Client-side'' True r)
      else
        res_bind (TryParsePreferredBlock output ''Test Phase 1 Summary'' ''Server-side'' False r)
          (\<lambda>(parsed, r). if parsed then Inr (True, r)
             else TryParsePreferredBlock output ''Test Phase 2 Summary'' ''Server-side'' True r))"

definition ParseOutput :: "string \<Rightarrow> string \<Rightarrow> int \<Rightarrow> TestResult res" where
  "ParseOutput output role_name p =
     res_bind (parse_phases output role_name (empty_TestResult\<lparr>tr_role := role_name, tr_port := p\<rparr>))
       (\<lambda>(parsed, r).
         if \<not> parsed
         then Inr (r\<lparr>tr_success := False,
                tr_failureReason := ''Could not parse MyIperf phase summary for role '' @ role_name\<rparr>)
         else
           let r = (if tr_throughput r = 0 \<and> tr_duration r > 0 \<and> tr_totalBytes r > 0
                 then r\<lparr>tr_throughput := (of_int (tr_totalBytes r) * 8) / (tr_duration r * 1000000)\<rparr>
                 else r);
               r = r\<lparr>tr_success := tr_totalPackets r > 0\<rparr>
           in Inr (if \<not> tr_success r then r\<lparr>tr_failureReason := ''Parsed result contains zero packets''\<rparr>
                   else r))"

subsection \<open>Searching through literal text\<close>

text \<open>
  \<open>skips pat s\<close>: no occurrence of \<open>pat\<close> starts in \<open>s\<close>, whatever text follows \<open>s\<close>.
  \<open>seg_match pat s\<close>: what is left of \<open>s\<close> behind the first occurrence of \<open>pat\<close>.
\<close>

fun clash :: "string \<Rightarrow> string \<Rightarrow> bool" where
  "clash (p # ps) (c # cs) \<longleftrightarrow> p \<noteq> c \<or> clash ps cs"
| "clash _ _ \<longleftrightarrow> False"

fun skips :: "string \<Rightarrow> string \<Rightarrow> bool" where
  "skips pat [] \<longleftrightarrow> True"
| "skips pat (c # cs) \<longleftrightarrow> clash pat (c # cs) \<and> skips pat cs"

fun seg_match :: "string \<Rightarrow> string \<Rightarrow> string option" where
  "seg_match pat [] = None"
| "seg_match pat (c # cs) =
     (if prefix pat (c # cs) then Some (drop (length pat) (c # cs))
      else if clash pat (c # cs) then seg_match pat cs else None)"

lemma clash_not_prefix: "clash pat s \<Longrightarrow> \<not> prefix pat (s @ t)"
  by (induction pat s rule: clash.induct) auto

lemma clash_append: "clash pat s \<Longrightarrow> clash pat (s @ t)"
  by (induction pat s rule: clash.induct) auto

lemma skips_append: "skips pat a \<Longrightarrow> skips pat b \<Longrightarrow> skips pat (a @ b)"
proof (induction a)
  case (Cons c a)
  then show ?case using clash_append [of pat "c # a" b] by simp
qed simp

lemma regex_search_skip: "skips pat s \<Longrightarrow> regex_search pat acc (s @ t) = regex_search pat acc t"
proof (induction s)
  case (Cons c cs)
  then show ?case using clash_not_prefix [of pat "c # cs" t] by simp
qed simp

lemma find_sub_skip: "skips pat s \<Longrightarrow> find_sub pat (s @ t) = map_option ((+) (length s)) (find_sub pat t)"
proof (induction s)
  case Nil
  then show ?case by (simp add: option.map_ident [unfolded id_def])
next
  case (Cons c cs)
  then show ?case using clash_not_prefix [of pat "c # cs" t]
    by (simp add: option.map_comp comp_def)
qed

lemma regex_search_first:
  "prefix pat x \<Longrightarrow> acc (drop (length pat) x) \<noteq> None \<Longrightarrow> regex_search pat acc x = acc (drop (length pat) x)"
  by (cases x) auto

lemma regex_search_match:
  "seg_match pat s = Some r \<Longrightarrow> acc (r @ t) \<noteq> None \<Longrightarrow> regex_search pat acc (s @ t) = acc (r @ t)"
proof (induction s)
  case (Cons c cs)
  show ?case
  proof (cases "prefix pat (c # cs)")
    case True
    then have "drop (length pat) ((c # cs) @ t) = r @ t" "prefix pat ((c # cs) @ t)"
      using Cons.prems(1) prefix_length_le [OF True] prefix_prefix [OF True]
        drop_append [of "length pat" "c # cs" t] by auto
    then show ?thesis using regex_search_first [of pat "(c # cs) @ t" acc] Cons.prems(2) by simp
  next
    case False
    then show ?thesis using Cons clash_not_prefix [of pat "c # cs" t] by (auto split: if_splits)
  qed
qed simp

lemma digit_char_noteq [simp]: "d < 10 \<Longrightarrow> \<not> is_digit p \<Longrightarrow> p \<noteq> digit_char d"
  by auto

lemma skips_digits: "\<forall>c \<in> set a. is_digit c \<Longrightarrow> \<not> is_digit p \<Longrightarrow> skips (p # pat) a"
  by (induction a) auto

lemma skips_nat [simp]: "\<not> is_digit p \<Longrightarrow> skips (p # pat) (show_nat n)"
  using show_nat_digits by (intro skips_digits) auto

lemma skips_newline [simp]: "p \<noteq> CHR 0x0A \<Longrightarrow> skips (p # pat) newline"
  by (simp add: newline_def)

subsection \<open>The statistics block\<close>

definition nodigit :: "string \<Rightarrow> bool" where
  "nodigit t \<longleftrightarrow> takeWhile is_digit t = []"

lemma nodigit_newline [simp]: "nodigit (newline @ t)"
  by (simp add: nodigit_def newline_def is_digit_def)

lemma takeWhile_nat: "nodigit t \<Longrightarrow> takeWhile is_digit (show_nat n @ t) = show_nat n"
  using show_nat_digits by (subst takeWhile_append2) (auto simp: nodigit_def)

lemma dropWhile_spaces:
  assumes "\<forall>c \<in> set sp. is_space c"
  shows "dropWhile is_space (sp @ show_nat n @ t) = show_nat n @ t"
proof -
  obtain c cs where "show_nat n = c # cs" by (cases "show_nat n") auto
  moreover have "\<not> is_space c" using show_nat_digits [of c n] calculation digit_not_space by simp
  ultimately show ?thesis using assms by (simp add: dropWhile_append2)
qed

lemma accept_integer_nat:
  assumes "\<forall>c \<in> set sp. is_space c" "nodigit t"
  shows "accept_integer (sp @ show_nat n @ t) = Some (show_nat n)"
  unfolding accept_integer_def dropWhile_spaces [OF assms(1)]
  using assms(2) by (simp add: takeWhile_nat)

lemma accept_decimal_fixed:
  assumes "\<forall>c \<in> set sp. is_space c" "a < 10" "b < 10" "nodigit t"
  shows "accept_decimal (sp @ show_nat n @ ''.'' @ [digit_char a, digit_char b] @ t) =
    Some (show_nat n @ ''.'' @ [digit_char a, digit_char b])"
proof -
  have "nodigit (''.'' @ u)" for u by (simp add: nodigit_def not_digit_dot)
  from takeWhile_nat [OF this]
  have "takeWhile is_digit (show_nat n @ ''.'' @ u) = show_nat n" for u by simp
  then show ?thesis
    using assms dropWhile_spaces [OF assms(1), of n "''.'' @ [digit_char a, digit_char b] @ t"]
    by (simp add: accept_decimal_def Let_def nodigit_def)
qed

definition rounded2 :: "double \<Rightarrow> double" where
  "rounded2 x = of_int (round_half_even (100 * x)) / 100"

lemma round_half_even_nonneg: "0 \<le> x \<Longrightarrow> 0 \<le> round_half_even x"
  by (simp add: round_half_even_def Let_def)

lemma nat_of_two_digits: "a < 10 \<Longrightarrow> b < 10 \<Longrightarrow> nat_of_digits [digit_char a, digit_char b] = 10 * a + b"
  by (simp add: nat_of_digits_def)

lemma decimal_value_digits:
  assumes "a < 10" "b < 10"
  shows "decimal_value (show_nat n @ ''.'' @ [digit_char a, digit_char b]) =
    of_nat n + of_nat (10 * a + b) / 100"
proof -
  have "nodigit (''.'' @ [digit_char a, digit_char b])" by (simp add: nodigit_def not_digit_dot)
  from takeWhile_nat [OF this] show ?thesis
    using assms by (simp add: decimal_value_def Let_def nat_of_two_digits power2_eq_square)
qed

text \<open>The two decimals of a non-negative number.\<close>

definition fixed_whole :: "double \<Rightarrow> nat" where
  "fixed_whole x = nat (round_half_even (100 * \<bar>x\<bar>) div 100)"

definition fixed_tenth :: "double \<Rightarrow> nat" where
  "fixed_tenth x = nat (round_half_even (100 * \<bar>x\<bar>) div 10 mod 10)"

definition fixed_hundredth :: "double \<Rightarrow> nat" where
  "fixed_hundredth x = nat (round_half_even (100 * \<bar>x\<bar>) mod 10)"

lemma show_fixed2_parts:
  "0 \<le> x \<Longrightarrow> show_fixed2 x =
     show_nat (fixed_whole x) @ ''.'' @ [digit_char (fixed_tenth x), digit_char (fixed_hundredth x)]"
  by (simp add: show_fixed2_def Let_def fixed_whole_def fixed_tenth_def fixed_hundredth_def)

lemma fixed_digits [simp]: "fixed_tenth x < 10" "fixed_hundredth x < 10"
  by (simp_all add: fixed_tenth_def fixed_hundredth_def nat_less_iff)

lemma decimal_value_fixed:
  assumes "0 \<le> x"
  shows "decimal_value (show_nat (fixed_whole x) @ ''.'' @
    [digit_char (fixed_tenth x), digit_char (fixed_hundredth x)]) = rounded2 x"
proof -
  define c where "c = round_half_even (100 * x)"
  have c: "0 \<le> c" using round_half_even_nonneg [of "100 * x"] assms by (simp add: c_def)
  have "c div 100 = c div 10 div 10" using zdiv_zmult2_eq [of 10 c 10] by simp
  then have "100 * (c div 100) + (10 * (c div 10 mod 10) + c mod 10) = c"
    using mult_div_mod_eq [of 10 c] mult_div_mod_eq [of 10 "c div 10"] by linarith
  moreover have "0 \<le> c div 100" "0 \<le> c div 10 mod 10" "0 \<le> c mod 10"
    using c by (simp_all add: pos_imp_zdiv_nonneg_iff)
  ultimately have "int (100 * fixed_whole x + (10 * fixed_tenth x + fixed_hundredth x)) = c"
    using assms by (simp add: fixed_whole_def fixed_tenth_def fixed_hundredth_def flip: c_def)
  then have "(of_int c :: rat) = of_nat (100 * fixed_whole x + (10 * fixed_tenth x + fixed_hundredth x))"
    by (metis of_int_of_nat_eq)
  then have "rounded2 x = of_nat (fixed_whole x) + of_nat (10 * fixed_tenth x + fixed_hundredth x) / 100"
    by (simp add: rounded2_def c_def add_divide_distrib)
  then show ?thesis by (simp add: decimal_value_digits del: append.simps)
qed

subsection \<open>A printed block is read back\<close>

definition nonneg_stats :: "TestStats \<Rightarrow> bool" where
  "nonneg_stats s \<longleftrightarrow>
     (\<forall>n \<in> {totalBytesSent s, totalPacketsSent s, totalBytesReceived s, totalPacketsReceived s,
        sequenceErrorCount s, failedChecksumCount s, contentMismatchCount s}. 0 \<le> n \<and> n \<le> LLONG_MAX) \<and>
     0 \<le> duration s \<and> 0 \<le> throughputMbps s"

text \<open>The block with its parts apart: literals, numbers, digits.\<close>

lemma formatStats_parts:
  assumes "nonneg_stats s"
  shows "formatStatsForLogging s @ t =
     newline @ ''    - Total Bytes Sent:     '' @ show_nat (nat (totalBytesSent s)) @
     newline @ ''    - Total Packets Sent:   '' @ show_nat (nat (totalPacketsSent s)) @
     newline @ ''    - Total Bytes Received: '' @ show_nat (nat (totalBytesReceived s)) @
     newline @ ''    - Total Packets Received: '' @ show_nat (nat (totalPacketsReceived s)) @
     newline @ ''    - Duration:             '' @ show_nat (fixed_whole (duration s)) @ ''.'' @
       [digit_char (fixed_tenth (duration s)), digit_char (fixed_hundredth (duration s))] @ '' s'' @
     newline @ ''    - Throughput:           '' @ show_nat (fixed_whole (throughputMbps s)) @ ''.'' @
       [digit_char (fixed_tenth (throughputMbps s)), digit_char (fixed_hundredth (throughputMbps s))] @ '' Mbps'' @
     newline @ ''    - Sequence Errors:      '' @ show_nat (nat (sequenceErrorCount s)) @
     newline @ ''    - Failed Checksums:     '' @ show_nat (nat (failedChecksumCount s)) @
     newline @ ''    - Content Mismatches:   '' @ show_nat (nat (contentMismatchCount s)) @ t"
  using assms
  by (simp add: formatStatsForLogging_def nonneg_stats_def show_int_def show_fixed2_parts
      not_less del: append_Cons append_Nil)

lemma nonspace_digit [simp]: "is_space (CHR '' '')"
  by (simp add: is_space_def)

lemmas literal_simps = regex_search_skip regex_search_match find_sub_skip is_digit_def

lemma ExtractLongLong_match:
  assumes "regex_search (label @ '':'') accept_integer text = Some (show_nat (nat i))"
    and "0 \<le> i" "i \<le> LLONG_MAX"
  shows "ExtractLongLong text label v = Inr (True, i)"
proof -
  have "show_nat (nat i) = show_int i" using assms(2) by (simp add: show_int_def)
  moreover have "LLONG_MIN \<le> i" using assms(2) by (simp add: LLONG_MIN_def)
  ultimately show ?thesis using assms by (simp add: ExtractLongLong_def stoll_show_int)
qed

lemma search_bytes_sent:
  assumes "nonneg_stats s" "skips ''Total Bytes Sent:'' pre"
  shows "regex_search ''Total Bytes Sent:'' accept_integer (pre @ formatStatsForLogging s @ t) =
    Some (show_nat (nat (totalBytesSent s)))"
  using assms accept_integer_nat [of "''     ''"]
  by (simp add: formatStats_parts literal_simps del: append_Cons append_Nil regex_search.simps)

lemma search_packets_sent:
  assumes "nonneg_stats s" "skips ''Total Packets Sent:'' pre"
  shows "regex_search ''Total Packets Sent:'' accept_integer (pre @ formatStatsForLogging s @ t) =
    Some (show_nat (nat (totalPacketsSent s)))"
  using assms accept_integer_nat [of "''   ''"]
  by (simp add: formatStats_parts literal_simps del: append_Cons append_Nil regex_search.simps)

lemma search_bytes_received:
  assumes "nonneg_stats s" "skips ''Total Bytes Received:'' pre"
  shows "regex_search ''Total Bytes Received:'' accept_integer (pre @ formatStatsForLogging s @ t) =
    Some (show_nat (nat (totalBytesReceived s)))"
  using assms accept_integer_nat [of "'' ''"]
  by (simp add: formatStats_parts literal_simps del: append_Cons append_Nil regex_search.simps)

lemma search_packets_received:
  assumes "nonneg_stats s" "skips ''Total Packets Received:'' pre"
  shows "regex_search ''Total Packets Received:'' accept_integer (pre @ formatStatsForLogging s @ t) =
    Some (show_nat (nat (totalPacketsReceived s)))"
  using assms accept_integer_nat [of "'' ''"]
  by (simp add: formatStats_parts literal_simps del: append_Cons append_Nil regex_search.simps)

lemma search_sequence:
  assumes "nonneg_stats s" "skips ''Sequence Errors:'' pre"
  shows "regex_search ''Sequence Errors:'' accept_integer (pre @ formatStatsForLogging s @ t) =
    Some (show_nat (nat (sequenceErrorCount s)))"
  using assms accept_integer_nat [of "''      ''"]
  by (simp add: formatStats_parts literal_simps del: append_Cons append_Nil regex_search.simps)

lemma search_checksums:
  assumes "nonneg_stats s" "skips ''Failed Checksums:'' pre"
  shows "regex_search ''Failed Checksums:'' accept_integer (pre @ formatStatsForLogging s @ t) =
    Some (show_nat (nat (failedChecksumCount s)))"
  using assms accept_integer_nat [of "''     ''"]
  by (simp add: formatStats_parts literal_simps del: append_Cons append_Nil regex_search.simps)

lemma search_mismatches:
  assumes "nonneg_stats s" "skips ''Content Mismatches:'' pre" "nodigit t"
  shows "regex_search ''Content Mismatches:'' accept_integer (pre @ formatStatsForLogging s @ t) =
    Some (show_nat (nat (contentMismatchCount s)))"
  using assms accept_integer_nat [of "''   ''"]
  by (simp add: formatStats_parts literal_simps del: append_Cons append_Nil regex_search.simps)

lemma search_duration:
  assumes "nonneg_stats s" "skips ''Duration:'' pre"
  shows "regex_search ''Duration:'' accept_decimal (pre @ formatStatsForLogging s @ t) =
    Some (show_nat (fixed_whole (duration s)) @ ''.'' @
      [digit_char (fixed_tenth (duration s)), digit_char (fixed_hundredth (duration s))])"
proof -
  have "nodigit ('' s'' @ u)" for u by (simp add: nodigit_def is_digit_def)
  with assms accept_decimal_fixed [of "''             ''"] show ?thesis
    by (simp add: formatStats_parts literal_simps del: append_Cons append_Nil regex_search.simps)
qed

lemma search_throughput:
  assumes "nonneg_stats s" "skips ''Throughput:'' pre"
  shows "regex_search ''Throughput:'' accept_decimal (pre @ formatStatsForLogging s @ t) =
    Some (show_nat (fixed_whole (throughputMbps s)) @ ''.'' @
      [digit_char (fixed_tenth (throughputMbps s)), digit_char (fixed_hundredth (throughputMbps s))])"
proof -
  have "nodigit ('' Mbps'' @ u)" for u by (simp add: nodigit_def is_digit_def)
  with assms accept_decimal_fixed [of "''           ''"] show ?thesis
    by (simp add: formatStats_parts literal_simps del: append_Cons append_Nil regex_search.simps)
qed

lemmas searches = search_bytes_sent search_packets_sent search_bytes_received search_packets_received
  search_sequence search_checksums search_mismatches search_duration search_throughput

definition received_result :: "TestStats \<Rightarrow> TestResult \<Rightarrow> TestResult" where
  "received_result s r =
     r\<lparr>tr_totalBytes := totalBytesReceived s, tr_totalPackets := totalPacketsReceived s,
       tr_duration := rounded2 (duration s), tr_throughput := rounded2 (throughputMbps s),
       tr_sequenceErrors := sequenceErrorCount s, tr_checksumErrors := failedChecksumCount s,
       tr_contentMismatches := contentMismatchCount s\<rparr>"

definition block_labels :: "string list" where
  "block_labels = [''Total Bytes Sent:'', ''Total Packets Sent:'', ''Total Bytes Received:'',
     ''Total Packets Received:'', ''Duration:'', ''Throughput:'', ''Sequence Errors:'',
     ''Failed Checksums:'', ''Content Mismatches:'']"

lemma FillStatsFromBlock_received:
  assumes "nonneg_stats s" "\<forall>l \<in> set block_labels. skips l pre" "nodigit t"
  shows "FillStatsFromBlock (pre @ formatStatsForLogging s @ t) False r = Inr (True, received_result s r)"
proof -
  let ?b = "pre @ formatStatsForLogging s @ t"
  note pre = assms(2) [unfolded block_labels_def, simplified ball_simps list.set ball_Un, simplified]
  have range: "0 \<le> n \<and> n \<le> LLONG_MAX"
    if "n \<in> {totalBytesSent s, totalPacketsSent s, totalBytesReceived s, totalPacketsReceived s,
        sequenceErrorCount s, failedChecksumCount s, contentMismatchCount s}" for n
    using assms(1) that unfolding nonneg_stats_def by blast
  have "ExtractLongLong ?b ''Total Bytes Received'' v = Inr (True, totalBytesReceived s)"
    "ExtractLongLong ?b ''Total Bytes Sent'' v = Inr (True, totalBytesSent s)"
    "ExtractLongLong ?b ''Total Packets Received'' v = Inr (True, totalPacketsReceived s)"
    "ExtractLongLong ?b ''Total Packets Sent'' v = Inr (True, totalPacketsSent s)"
    "ExtractLongLong ?b ''Sequence Errors'' v = Inr (True, sequenceErrorCount s)"
    "ExtractLongLong ?b ''Failed Checksums'' v = Inr (True, failedChecksumCount s)"
    "ExtractLongLong ?b ''Content Mismatches'' v = Inr (True, contentMismatchCount s)" for v
    by (rule ExtractLongLong_match; use range pre searches [OF assms(1)] assms(3) in simp)+
  moreover have "ExtractDouble ?b ''Duration'' v = (True, rounded2 (duration s))"
    "ExtractDouble ?b ''Throughput'' v = (True, rounded2 (throughputMbps s))" for v
    using searches(8,9) [OF assms(1)] pre assms(1) decimal_value_fixed
    by (simp_all add: ExtractDouble_def nonneg_stats_def)
  moreover have "?b \<noteq> []" by (simp add: formatStatsForLogging_def newline_def)
  ultimately show ?thesis
    by (simp add: FillStatsFromBlock_def received_result_def Let_def)
qed

subsection \<open>Finding the block\<close>

lemma skips_stats:
  assumes "nonneg_stats s"
  shows "skips ''Test Phase '' (formatStatsForLogging s)" "skips ''Client-side'' (formatStatsForLogging s)"
    "skips ''Server-side'' (formatStatsForLogging s)" "skips dashes (formatStatsForLogging s)"
  using formatStats_parts [OF assms, of "[]"]
  by (simp_all add: skips_append is_digit_def dashes_def del: append_Cons append_Nil)

lemma FindNextMarker_bounds:
  assumes "skips pat body"
  shows "length a + length body \<le> FindNextMarker (a @ body @ t) (length a) pat"
    and "FindNextMarker (a @ body @ t) (length a) pat \<le> length (a @ body @ t)"
proof -
  have "find_from (a @ body @ t) pat (length a) =
      map_option (\<lambda>n. length a + (length body + n)) (find_sub pat t)"
    using find_sub_skip [OF assms] by (simp add: find_from_def option.map_comp comp_def)
  moreover have "n \<le> length t" if "find_sub pat t = Some n" for n
    using find_sub_Some [OF that] by auto
  ultimately show "length a + length body \<le> FindNextMarker (a @ body @ t) (length a) pat"
    and "FindNextMarker (a @ body @ t) (length a) pat \<le> length (a @ body @ t)"
    by (auto simp: FindNextMarker_def split: option.splits)
qed

lemma take_at_least: "n \<ge> length xs \<Longrightarrow> \<exists>k. take n (xs @ t) = xs @ take k t"
  by (intro exI [of _ "n - length xs"]) simp

lemma SlicePhase_text:
  assumes "find_sub title (pre @ title @ body @ t) = Some (length pre)" "skips ''Test Phase '' body"
  shows "\<exists>k. SlicePhase (pre @ title @ body @ t) title = title @ body @ take k t"
proof -
  let ?o = "pre @ title @ body @ t"
  let ?e = "FindNextMarker ?o (length (pre @ title)) ''Test Phase ''"
  have "length (pre @ title) + length body \<le> ?e"
    using FindNextMarker_bounds(1) [OF assms(2), of "pre @ title" t] by simp
  moreover have "SlicePhase ?o title = take (?e - length pre) (title @ body @ t)"
    using assms(1) by (simp add: SlicePhase_def find_from_def FindNextMarker_def substr_def Let_def comp_def)
  ultimately show ?thesis using take_at_least [of "title @ body" "?e - length pre" t] by simp
qed

lemma SliceLabelBlock_text:
  assumes "find_sub label (pre @ label @ body @ t) = Some (length pre)"
    "skips ''Client-side'' body" "skips ''Server-side'' body" "skips dashes body"
  shows "\<exists>k. SliceLabelBlock (pre @ label @ body @ t) label = label @ body @ take k t"
proof -
  let ?o = "pre @ label @ body @ t"
  let ?m = "\<lambda>p. FindNextMarker ?o (length (pre @ label)) p"
  define e where "e = min (min (min (length ?o) (?m ''Client-side'')) (?m ''Server-side'')) (?m dashes)"
  have "length (pre @ label) + length body \<le> e"
    using FindNextMarker_bounds(1) [of _ body "pre @ label" t] assms(2-4) by (simp add: e_def)
  moreover have "SliceLabelBlock ?o label = take (e - length pre) (label @ body @ t)"
    using assms(1) by (simp add: SliceLabelBlock_def find_from_def substr_def e_def Let_def)
  ultimately show ?thesis using take_at_least [of "label @ body" "e - length pre" t] by simp
qed

lemma nodigit_take: "nodigit (take k (newline @ t))"
  by (cases k) (simp_all add: nodigit_def newline_def is_digit_def)

lemma TryParse_received:
  assumes "find_sub title (pre @ title @ mid @ label @ '' (received):'' @ formatStatsForLogging s @ newline @ post) =
      Some (length pre)"
    and "skips ''Test Phase '' mid" "skips ''Test Phase '' label" "skips label (title @ mid)"
    and "nonneg_stats s" "\<forall>l \<in> set block_labels. skips l (label @ '' (received):'')" "label \<noteq> []"
  shows "TryParsePreferredBlock
      (pre @ title @ mid @ label @ '' (received):'' @ formatStatsForLogging s @ newline @ post)
      title label False r = Inr (True, received_result s r)"
proof -
  let ?stats = "'' (received):'' @ formatStatsForLogging s"
  have lit: "skips ''Test Phase '' '' (received):''" "skips ''Client-side'' '' (received):''"
    "skips ''Server-side'' '' (received):''" "skips dashes '' (received):''"
    by (simp_all add: dashes_def)
  have "skips ''Test Phase '' (mid @ label @ ?stats)"
    by (intro skips_append assms(2,3) lit skips_stats [OF assms(5)])
  from SlicePhase_text [OF _ this, of title pre "newline @ post"] assms(1) obtain k where
    k: "SlicePhase (pre @ title @ mid @ label @ ?stats @ newline @ post) title =
      (title @ mid) @ label @ ?stats @ take k (newline @ post)" by auto
  have "find_sub label ((title @ mid) @ label @ ?stats @ take k (newline @ post)) = Some (length (title @ mid))"
    using find_sub_skip [OF assms(4)] find_sub_append [of label] by simp
  from SliceLabelBlock_text [OF this] obtain i where
    "SliceLabelBlock ((title @ mid) @ label @ ?stats @ take k (newline @ post)) label =
      label @ ?stats @ take i (take k (newline @ post))"
    using lit skips_stats [OF assms(5)] skips_append by blast
  moreover have "nodigit (take i (take k (newline @ post)))"
    using nodigit_take [of "min i k" post] by (simp only: take_take)
  from FillStatsFromBlock_received [OF assms(5,6) this]
  have "FillStatsFromBlock (label @ ?stats @ take i (take k (newline @ post))) False r =
      Inr (True, received_result s r)" by (simp only: append_assoc)
  ultimately show ?thesis
    using k by (simp only: TryParsePreferredBlock_def append_assoc)
qed

subsection \<open>A printed summary is read back\<close>

text \<open>What the logger prints: each message on a line of its own behind a time stamp.\<close>

definition printed :: "(string \<times> string) list \<Rightarrow> string" where
  "printed lines = concat (map (\<lambda>(stamp, msg). stamp @ msg @ newline) lines)"

definition stamp_ok :: "string \<Rightarrow> bool" where
  "stamp_ok stamp \<longleftrightarrow> set stamp \<inter> {CHR ''T'', CHR ''C'', CHR ''S''} = {}"

lemma skips_chars: "p \<notin> set s \<Longrightarrow> skips (p # ps) s"
  by (induction s) auto

lemma skips_stamp:
  assumes "stamp_ok stamp"
  shows "skips ''Test Phase '' stamp" "skips ''Test Phase 1 Summary'' stamp"
    "skips ''Test Phase 2 Summary'' stamp" "skips ''Client-side'' stamp" "skips ''Server-side'' stamp"
  using assms by (auto simp: stamp_ok_def intro!: skips_chars)

definition good_result :: "string \<Rightarrow> int \<Rightarrow> TestStats \<Rightarrow> TestResult \<Rightarrow> bool" where
  "good_result role_name p s r \<longleftrightarrow>
     tr_role r = role_name \<and> tr_port r = p \<and>
     tr_totalBytes r = totalBytesReceived s \<and> tr_totalPackets r = totalPacketsReceived s \<and>
     tr_duration r = rounded2 (duration s) \<and>
     (rounded2 (throughputMbps s) \<noteq> 0 \<longrightarrow> tr_throughput r = rounded2 (throughputMbps s)) \<and>
     tr_sequenceErrors r = sequenceErrorCount s \<and> tr_checksumErrors r = failedChecksumCount s \<and>
     tr_contentMismatches r = contentMismatchCount s \<and>
     (tr_success r \<longleftrightarrow> totalPacketsReceived s > 0) \<and> (tr_failureReason r = [] \<longleftrightarrow> tr_success r)"

lemma ParseOutput_received:
  assumes "parse_phases output role_name (empty_TestResult\<lparr>tr_role := role_name, tr_port := p\<rparr>) =
    Inr (True, received_result s (empty_TestResult\<lparr>tr_role := role_name, tr_port := p\<rparr>))"
  shows "\<exists>r. ParseOutput output role_name p = Inr r \<and> good_result role_name p s r"
  using assms
  by (auto simp: ParseOutput_def good_result_def received_result_def empty_TestResult_def Let_def)

text \<open>
  The summary of the phase in which a role receives, as \<open>logPhaseSummary\<close> is called in the two
  sessions, with the time stamps of its lines.
\<close>

definition receiver_summary ::
  "string \<Rightarrow> string \<times> string \<times> string \<times> string \<Rightarrow> TestStats \<Rightarrow> TestStats \<Rightarrow> string" where
  "receiver_summary role_name stamps sent received =
     (case stamps of (t1, t2, t3, t4) \<Rightarrow>
        printed (zip [t1, t2, t3, t4]
          (if role_name = ''Client''
           then logPhaseSummary ''Test Phase 2 Summary'' ''Server-side (sent)'' sent
                  ''Client-side (received)'' received
           else logPhaseSummary ''Test Phase 1 Summary'' ''Client-side (sent)'' sent
                  ''Server-side (received)'' received)))"

lemma parse_phases_client:
  assumes "skips ''Test Phase 2 Summary'' pre" "nonneg_stats sent" "nonneg_stats received"
    and "stamp_ok t1" "stamp_ok t2" "stamp_ok t3"
  shows "parse_phases (pre @ receiver_summary ''Client'' (t1, t2, t3, t4) sent received @ post)
      ''Client'' r = Inr (True, received_result received r)"
proof -
  let ?pre = "pre @ t1 @ ''--- ''"
  let ?mid = "'' ---'' @ newline @ t2 @ ''Server-side (sent):'' @ formatStatsForLogging sent @ newline @ t3"
  let ?rest = "?mid @ ''Client-side'' @ '' (received):'' @ formatStatsForLogging received @ newline @
      t4 @ dashes @ newline @ post"
  have "pre @ receiver_summary ''Client'' (t1, t2, t3, t4) sent received @ post =
      ?pre @ ''Test Phase 2 Summary'' @ ?rest"
    by (simp add: receiver_summary_def printed_def logPhaseSummary_def dashes_def)
  moreover have "skips ''Test Phase 2 Summary'' ?pre"
    by (intro skips_append assms(1) skips_stamp [OF assms(4)]) simp
  then have "find_sub ''Test Phase 2 Summary'' (?pre @ ''Test Phase 2 Summary'' @ ?rest) = Some (length ?pre)"
    using find_sub_skip [of "''Test Phase 2 Summary''" ?pre] find_sub_append [of "''Test Phase 2 Summary''"]
    by (simp del: append_Cons append_assoc)
  moreover have "skips ''Test Phase '' ?mid" "skips ''Client-side'' (''Test Phase 2 Summary'' @ ?mid)"
    by (intro skips_append skips_stamp [OF assms(5)] skips_stamp [OF assms(6)]
        skips_stats [OF assms(2)] skips_newline; simp)+
  ultimately show ?thesis
    using TryParse_received [of "''Test Phase 2 Summary''" ?pre ?mid "''Client-side''" received
        "t4 @ dashes @ newline @ post" r] assms(3)
    by (simp add: parse_phases_def block_labels_def)
qed

lemma parse_phases_server:
  assumes "skips ''Test Phase 1 Summary'' pre" "nonneg_stats sent" "nonneg_stats received"
    and "stamp_ok t1" "stamp_ok t2" "stamp_ok t3"
  shows "parse_phases (pre @ receiver_summary ''Server'' (t1, t2, t3, t4) sent received @ post)
      ''Server'' r = Inr (True, received_result received r)"
proof -
  let ?pre = "pre @ t1 @ ''--- ''"
  let ?mid = "'' ---'' @ newline @ t2 @ ''Client-side (sent):'' @ formatStatsForLogging sent @ newline @ t3"
  let ?rest = "?mid @ ''Server-side'' @ '' (received):'' @ formatStatsForLogging received @ newline @
      t4 @ dashes @ newline @ post"
  have "pre @ receiver_summary ''Server'' (t1, t2, t3, t4) sent received @ post =
      ?pre @ ''Test Phase 1 Summary'' @ ?rest"
    by (simp add: receiver_summary_def printed_def logPhaseSummary_def dashes_def)
  moreover have "skips ''Test Phase 1 Summary'' ?pre"
    by (intro skips_append assms(1) skips_stamp [OF assms(4)]) simp
  then have "find_sub ''Test Phase 1 Summary'' (?pre @ ''Test Phase 1 Summary'' @ ?rest) = Some (length ?pre)"
    using find_sub_skip [of "''Test Phase 1 Summary''" ?pre] find_sub_append [of "''Test Phase 1 Summary''"]
    by (simp del: append_Cons append_assoc)
  moreover have "skips ''Test Phase '' ?mid" "skips ''Server-side'' (''Test Phase 1 Summary'' @ ?mid)"
    by (intro skips_append skips_stamp [OF assms(5)] skips_stamp [OF assms(6)]
        skips_stats [OF assms(2)] skips_newline; simp)+
  ultimately show ?thesis
    using TryParse_received [of "''Test Phase 1 Summary''" ?pre ?mid "''Server-side''" received
        "t4 @ dashes @ newline @ post" r] assms(3)
    by (simp add: parse_phases_def block_labels_def)
qed

text \<open>
  C18: the summary that a role's ipeftc prints for the phase it receives in is found and read back
  by the test runner, wherever it stands in the output and whatever follows it: the received bytes
  and packets and the error counts exactly, duration and throughput as rounded in print; the
  result is a success exactly when packets were received.
\<close>

theorem summary_read_back:
  assumes "role_name \<in> {''Client'', ''Server''}"
    and "skips (if role_name = ''Client'' then ''Test Phase 2 Summary'' else ''Test Phase 1 Summary'') pre"
    and "nonneg_stats sent" "nonneg_stats received" "stamp_ok t1" "stamp_ok t2" "stamp_ok t3"
  shows "\<exists>r. ParseOutput (pre @ receiver_summary role_name (t1, t2, t3, t4) sent received @ post)
      role_name p = Inr r \<and> good_result role_name p received r"
proof (rule ParseOutput_received)
  show "parse_phases (pre @ receiver_summary role_name (t1, t2, t3, t4) sent received @ post) role_name
      (empty_TestResult\<lparr>tr_role := role_name, tr_port := p\<rparr>) =
    Inr (True, received_result received (empty_TestResult\<lparr>tr_role := role_name, tr_port := p\<rparr>))"
    using assms parse_phases_client [of pre sent received t1 t2 t3]
      parse_phases_server [of pre sent received t1 t2 t3]
    by (cases "role_name = ''Client''") simp_all
qed

theorem summary_read_back_witness:
  "let t = ''[2025-01-02 03:04:05] '';
       received = zeroStats\<lparr>totalBytesReceived := 81920, totalPacketsReceived := 10\<rparr>
   in \<exists>r. ParseOutput ([] @ receiver_summary ''Server'' (t, t, t, t) zeroStats received @ [])
      ''Server'' 5201 = Inr r \<and> good_result ''Server'' 5201 received r"
  unfolding Let_def
  by (rule summary_read_back)
    (simp_all add: nonneg_stats_def zeroStats_def LLONG_MAX_def stamp_ok_def)

end
