(* ===== verification/ProcessManager.thy ===== *)
theory ProcessManager
  imports Cli OutputParser
begin

section \<open>Running ipeftc from the test runner\<close>

text \<open>
  \<open>TestRunner/ProcessManager.cpp\<close>, its POSIX branch. The answers of the operating system are
  arguments: which files exist or can be executed, what \<open>pipe\<close>, \<open>fork\<close>, \<open>read\<close> and \<open>waitpid\<close>
  return. A launch also gives the argument vector of the program started.
\<close>

record ProcessHandles =
  ph_pid :: int
  ph_pipeReadFd :: int
  ph_startupOutput :: string

definition new_ProcessHandles :: ProcessHandles where
  "new_ProcessHandles = \<lparr>ph_pid = -1, ph_pipeReadFd = -1, ph_startupOutput = []\<rparr>"

definition HasServerReadyMarker :: "string \<Rightarrow> bool" where
  "HasServerReadyMarker output \<longleftrightarrow>
     contains_sub output ''Transitioning to state: ACCEPTING'' \<or>
     contains_sub output ''Server is running. Waiting for the test to complete''"

subsection \<open>Finding the executable\<close>

text \<open>
  \<open>fs_exists\<close> and \<open>fs_is_directory\<close> are those of \<open>std::filesystem\<close>, \<open>fs_access\<close> is
  \<open>access(path, X_OK) == 0\<close>, \<open>fs_normal\<close> is \<open>lexically_normal(absolute(path))\<close>.
\<close>

record file_system =
  fs_exists :: "string \<Rightarrow> bool"
  fs_is_directory :: "string \<Rightarrow> bool"
  fs_access :: "string \<Rightarrow> bool"
  fs_normal :: "string \<Rightarrow> string"
  fs_cwd :: string
  fs_exe_dir :: string
  fs_PATH :: "string option"

definition IpeftcExecutableName :: string where
  "IpeftcExecutableName = ''IPEFTC''"

definition path_of :: "string list \<Rightarrow> string" where
  "path_of ps = foldl path_join (hd ps) (tl ps)"

definition IpeftcPathCandidates :: "file_system \<Rightarrow> string list" where
  "IpeftcPathCandidates fs =
     (let cwd = fs_cwd fs; exeDir = fs_exe_dir fs; exeName = IpeftcExecutableName;
          candidates = map path_of
            [[cwd, exeName],
             [cwd, ''MyIperf'', ''build'', ''bin'', ''Release'', exeName],
             [cwd, ''MyIperf'', ''build'', ''bin'', ''Debug'', exeName],
             [exeDir, exeName],
             [exeDir, ''..'', ''..'', ''..'', ''MyIperf'', ''build'', ''bin'', ''Release'', exeName],
             [exeDir, ''..'', ''..'', ''..'', ''MyIperf'', ''build'', ''bin'', ''Debug'', exeName],
             [exeDir, ''..'', ''..'', ''MyIperf'', ''build'', ''bin'', ''Release'', exeName],
             [exeDir, ''..'', ''..'', ''MyIperf'', ''build'', ''bin'', ''Debug'', exeName]]
      in foldl (\<lambda>unique candidate.
           let normalized = fs_normal fs candidate
           in if normalized \<in> set unique then unique else unique @ [normalized]) [] candidates)"

definition FileExists :: "file_system \<Rightarrow> string \<Rightarrow> bool" where
  "FileExists fs path \<longleftrightarrow> fs_exists fs path \<and> \<not> fs_is_directory fs path"

text \<open>\<open>std::getline(paths, dir, ':')\<close> until the stream is empty.\<close>

function split_colon :: "string \<Rightarrow> string list" where
  "split_colon s =
     (if s = [] then []
      else takeWhile (\<lambda>c. c \<noteq> CHR '':'') s #
        split_colon (drop (Suc (length (takeWhile (\<lambda>c. c \<noteq> CHR '':'') s))) s))"
  by pat_completeness auto
termination
  by (relation "measure length") auto

declare split_colon.simps [simp del]

definition IsAvailableOnPath :: "file_system \<Rightarrow> string \<Rightarrow> bool" where
  "IsAvailableOnPath fs name =
     (if slash \<in> set name then fs_access fs name
      else case fs_PATH fs of
             None \<Rightarrow> False
           | Some p \<Rightarrow> \<exists>dir \<in> set (split_colon p). fs_access fs (path_join dir name))"

definition IsExecutableResolvable :: "file_system \<Rightarrow> string \<Rightarrow> bool" where
  "IsExecutableResolvable fs path =
     (if path = [] then False else FileExists fs path \<or> IsAvailableOnPath fs path)"

definition ValidateIpeftcPath :: "file_system \<Rightarrow> string \<Rightarrow> bool" where
  "ValidateIpeftcPath fs path \<longleftrightarrow> IsExecutableResolvable fs path"

definition GetIPEFTCPath :: "file_system \<Rightarrow> string \<Rightarrow> string" where
  "GetIPEFTCPath fs overridePath =
     (if overridePath \<noteq> [] then overridePath
      else case filter (FileExists fs) (IpeftcPathCandidates fs) of
             [] \<Rightarrow> IpeftcExecutableName
           | candidate # _ \<Rightarrow> candidate)"

subsection \<open>Command lines\<close>

definition QuoteArgument :: "string \<Rightarrow> string" where
  "QuoteArgument arg =
     (if arg = [] then [CHR 0x22, CHR 0x22]
      else if set arg \<inter> {CHR '' '', CHR 0x09, CHR 0x22} = {} then arg
      else [CHR 0x22] @
        concat (map (\<lambda>ch. if ch = CHR 0x22 then [CHR 0x5C, CHR 0x22] else [ch]) arg) @ [CHR 0x22])"

definition BuildCommandLine :: "string \<Rightarrow> string list \<Rightarrow> string" where
  "BuildCommandLine exe args =
     foldl (\<lambda>line arg. line @ '' '' @ QuoteArgument arg) (QuoteArgument exe) args"

definition TrimCopy :: "string \<Rightarrow> string" where
  "TrimCopy s = rev (dropWhile is_space (rev (dropWhile is_space s)))"

definition opt_args :: "bool \<Rightarrow> string list \<Rightarrow> string list" where
  "opt_args b args = (if b then args else [])"

definition BuildServerArgs :: "TestConfig \<Rightarrow> string list" where
  "BuildServerArgs c =
     [''--mode'', ''server''] @
     [''--target'', if tc_serverBindIP c = [] then ''0.0.0.0'' else tc_serverBindIP c] @
     opt_args (tc_port c > 0) [''--port'', show_int (tc_port c)] @
     [''--save-logs'', if tc_saveLogs c then ''true'' else ''false''] @
     opt_args (tc_runId c \<noteq> []) [''--run-id'', tc_runId c] @
     opt_args (tc_resultDir c \<noteq> []) [''--result-dir'', tc_resultDir c]"

definition BuildClientArgs :: "TestConfig \<Rightarrow> string list" where
  "BuildClientArgs c =
     [''--mode'', ''client''] @
     opt_args (tc_targetIP c \<noteq> []) [''--target'', tc_targetIP c] @
     opt_args (tc_port c > 0) [''--port'', show_int (tc_port c)] @
     opt_args (tc_packetSize c > 0) [''--packet-size'', show_int (tc_packetSize c)] @
     opt_args (tc_numPackets c > 0) [''--num-packets'', show_int (tc_numPackets c)] @
     [''--save-logs'', if tc_saveLogs c then ''true'' else ''false''] @
     opt_args (tc_sendIntervalMs c > 0) [''--interval-ms'', show_int (tc_sendIntervalMs c)] @
     opt_args (tc_runId c \<noteq> []) [''--run-id'', tc_runId c] @
     opt_args (tc_resultDir c \<noteq> []) [''--result-dir'', tc_resultDir c]"

subsection \<open>Launching, waiting, terminating\<close>

text \<open>What \<open>pipe\<close> (read end) and \<open>fork\<close> return in the parent.\<close>

record launch_env =
  le_pipe :: "int option"
  le_fork :: int

definition launch ::
  "file_system \<Rightarrow> launch_env \<Rightarrow> string \<Rightarrow> string list \<Rightarrow> ProcessHandles \<Rightarrow>
   bool \<times> ProcessHandles \<times> string list option" where
  "launch fs env path args h =
     (if \<not> ValidateIpeftcPath fs path then (False, h, None)
      else case le_pipe env of
             None \<Rightarrow> (False, h, None)
           | Some fd \<Rightarrow>
               if le_fork env = -1 then (False, h, None)
               else (True, h\<lparr>ph_pid := le_fork env, ph_pipeReadFd := fd\<rparr>, Some (path # args)))"

definition LaunchIPEFTCServer ::
  "file_system \<Rightarrow> launch_env \<Rightarrow> string \<Rightarrow> TestConfig \<Rightarrow> ProcessHandles \<Rightarrow>
   bool \<times> ProcessHandles \<times> string list option" where
  "LaunchIPEFTCServer fs env path c h = launch fs env path (BuildServerArgs c) h"

definition LaunchIPEFTCClient ::
  "file_system \<Rightarrow> launch_env \<Rightarrow> string \<Rightarrow> TestConfig \<Rightarrow> ProcessHandles \<Rightarrow>
   bool \<times> ProcessHandles \<times> string list option" where
  "LaunchIPEFTCClient fs env path c h = launch fs env path (BuildClientArgs c) h"

text \<open>The processes that receive \<open>SIGTERM\<close> and are reaped, and the handles after it.\<close>

definition TerminateProcess :: "ProcessHandles \<Rightarrow> int list \<times> ProcessHandles" where
  "TerminateProcess h =
     (if ph_pid h > 0 then [ph_pid h] else [],
      h\<lparr>ph_pid := (if ph_pid h > 0 then -1 else ph_pid h), ph_pipeReadFd := -1\<rparr>)"

text \<open>
  Each element of \<open>reads\<close> is what one \<open>read\<close> put into the buffer; an empty one, or the end of the
  list, is the end of the output or an error. \<open>output += buffer\<close> stops at a null character.
\<close>

definition c_str :: "string \<Rightarrow> string" where
  "c_str s = takeWhile (\<lambda>c. c \<noteq> CHR 0x00) s"

definition WaitForProcessAndCaptureOutput :: "bytes list \<Rightarrow> ProcessHandles \<Rightarrow> string \<times> ProcessHandles" where
  "WaitForProcessAndCaptureOutput reads h =
     (ph_startupOutput h @ concat (map c_str (takeWhile (\<lambda>r. r \<noteq> []) reads)),
      h\<lparr>ph_startupOutput := [], ph_pid := -1, ph_pipeReadFd := -1\<rparr>)"

text \<open>
  One turn of a polling loop: the time since the start, what a non-blocking \<open>read\<close> gave, and
  whether \<open>waitpid(WNOHANG)\<close> reaped the process. After the last turn the time is up.
\<close>

record poll =
  po_elapsed :: int
  po_read :: bytes
  po_exited :: bool

fun WaitForServerReady :: "poll list \<Rightarrow> int \<Rightarrow> ProcessHandles \<Rightarrow> bool \<times> ProcessHandles" where
  "WaitForServerReady [] timeoutMs h =
     (False, h\<lparr>ph_startupOutput := ph_startupOutput h @
        newline @ ''[ProcessManager] Timeout waiting for server readiness.'' @ newline\<rparr>)"
| "WaitForServerReady (p # ps) timeoutMs h =
     (if po_elapsed p \<ge> timeoutMs then WaitForServerReady [] timeoutMs h
      else let h = (if po_read p \<noteq> [] then h\<lparr>ph_startupOutput := ph_startupOutput h @ po_read p\<rparr> else h)
        in if po_read p \<noteq> [] \<and> HasServerReadyMarker (ph_startupOutput h) then (True, h)
           else if po_exited p
           then (False, h\<lparr>ph_pid := -1, ph_startupOutput := ph_startupOutput h @
                  newline @ ''[ProcessManager] Server process exited early during startup.'' @ newline\<rparr>)
           else WaitForServerReady ps timeoutMs h)"

text \<open>\<open>CaptureCommandOutput\<close>: polling until exit or timeout, then the rest of the output.\<close>

fun capture_poll :: "poll list \<Rightarrow> int \<Rightarrow> string \<Rightarrow> string" where
  "capture_poll [] timeoutMs output = output"
| "capture_poll (p # ps) timeoutMs output =
     (if po_exited p \<or> po_elapsed p > timeoutMs then output @ po_read p
      else capture_poll ps timeoutMs (output @ po_read p))"

definition CaptureCommandOutput :: "launch_env \<Rightarrow> poll list \<Rightarrow> bytes list \<Rightarrow> int \<Rightarrow> string" where
  "CaptureCommandOutput env polls reads timeoutMs =
     (if le_pipe env = None \<or> le_fork env = -1 then []
      else TrimCopy (capture_poll polls timeoutMs [] @ concat (takeWhile (\<lambda>r. r \<noteq> []) reads)))"

definition GetIPEFTCVersion ::
  "file_system \<Rightarrow> launch_env \<Rightarrow> poll list \<Rightarrow> bytes list \<Rightarrow> string \<Rightarrow> string" where
  "GetIPEFTCVersion fs env polls reads path =
     (if \<not> ValidateIpeftcPath fs path then []
      else TrimCopy (filter (\<lambda>c. c \<noteq> CHR 0x0D) (CaptureCommandOutput env polls reads 5000)))"

subsection \<open>Result files\<close>

definition ResultRole :: "string \<Rightarrow> string" where
  "ResultRole role_name = (if role_name = ''Client'' then ''CLIENT'' else ''SERVER'')"

definition ResultFilePath :: "TestConfig \<Rightarrow> string \<Rightarrow> string" where
  "ResultFilePath c role_name =
     path_join (tc_resultDir c) (''result-'' @ tc_runId c @ ''-'' @ ResultRole role_name @ ''.json'')"

definition JsonLongLong :: "json \<Rightarrow> string \<Rightarrow> int res" where
  "JsonLongLong j k = res_bind (json_at k j) get_llong"

definition JsonDouble :: "json \<Rightarrow> string \<Rightarrow> double res" where
  "JsonDouble j k = res_bind (json_at k j) get_double"

definition FillFromStats :: "json \<Rightarrow> bool \<Rightarrow> TestResult \<Rightarrow> TestResult res" where
  "FillFromStats stats preferSent r =
     res_bind (if preferSent then JsonLongLong stats ''totalBytesSent''
               else JsonLongLong stats ''totalBytesReceived'') (\<lambda>x. let r = r\<lparr>tr_totalBytes := x\<rparr> in
     res_bind (if preferSent then JsonLongLong stats ''totalPacketsSent''
               else JsonLongLong stats ''totalPacketsReceived'') (\<lambda>x. let r = r\<lparr>tr_totalPackets := x\<rparr> in
     res_bind (JsonDouble stats ''duration'') (\<lambda>x. let r = r\<lparr>tr_duration := x\<rparr> in
     res_bind (JsonDouble stats ''throughputMbps'') (\<lambda>x. let r = r\<lparr>tr_throughput := x\<rparr> in
     res_bind (JsonLongLong stats ''sequenceErrorCount'') (\<lambda>x. let r = r\<lparr>tr_sequenceErrors := x\<rparr> in
     res_bind (JsonLongLong stats ''failedChecksumCount'') (\<lambda>x. let r = r\<lparr>tr_checksumErrors := x\<rparr> in
     res_bind (JsonLongLong stats ''contentMismatchCount'') (\<lambda>x.
       Inr (r\<lparr>tr_contentMismatches := x\<rparr>))))))))"

definition fill_received_or_sent :: "json \<Rightarrow> string \<Rightarrow> string \<Rightarrow> string \<Rightarrow> TestResult \<Rightarrow> TestResult res" where
  "fill_received_or_sent doc received_phase receiver sent_phase r =
     res_bind (json_at received_phase doc) (\<lambda>ph.
     res_bind (res_bind (json_at ''receiverRole'' ph) get_string) (\<lambda>who.
       if who = receiver
       then res_bind (json_at ''receiverStats'' ph) (\<lambda>st. FillFromStats st False r)
       else res_bind (json_at sent_phase doc) (\<lambda>ph2.
            res_bind (json_at ''senderStats'' ph2) (\<lambda>st. FillFromStats st True r))))"

text \<open>\<open>file\<close> is the text of the file, if it can be opened; \<open>Inl\<close> is the error text.\<close>

definition ParseResultFile ::
  "json_parser \<Rightarrow> (string \<Rightarrow> string option) \<Rightarrow> TestConfig \<Rightarrow> string \<Rightarrow> string + TestResult" where
  "ParseResultFile parse file c role_name =
     (let r = empty_TestResult\<lparr>tr_role := role_name, tr_port := tc_port c\<rparr>;
          path = ResultFilePath c role_name
      in if tc_runId c = [] then Inl ''runId is empty; cannot locate MyIperf result JSON''
         else case file path of
           None \<Rightarrow> Inl (''Result JSON not found: '' @ path)
         | Some content \<Rightarrow>
             (case res_bind (parse content) (\<lambda>doc.
                res_bind (res_bind (json_at ''runId'' doc) get_string) (\<lambda>run_id.
                  if run_id \<noteq> tc_runId c then Inr (Inl (''Result JSON runId mismatch (file='' @ run_id @
                    '', expected='' @ tc_runId c @ '')''))
                  else
                  res_bind (if role_name = ''Client''
                            then fill_received_or_sent doc ''phase2'' ''CLIENT'' ''phase1'' r
                            else fill_received_or_sent doc ''phase1'' ''SERVER'' ''phase2'' r) (\<lambda>r.
                  res_bind (json_value get_bool ''success'' False doc) (\<lambda>ok.
                  res_bind (json_value get_string ''failureReason'' [] doc) (\<lambda>reason.
                  res_bind (json_value get_string ''resultExportWarning'' [] doc) (\<lambda>warning.
                  let reason' = (if warning = [] then reason
                        else (if reason \<noteq> [] then reason @ ''; '' else reason) @
                          ''Result export warning: '' @ warning)
                  in Inr (Inr (r\<lparr>tr_success := ok, tr_failureReason := reason'\<rparr>)))))))) of
                Inl e \<Rightarrow> Inl (''Failed to parse result JSON '' @ path @ '': '' @ exn_what e)
              | Inr outcome \<Rightarrow> outcome))"

subsection \<open>The command line reaches ipeftc\<close>

lemma find_config_none: "''--config'' \<notin> set args \<Longrightarrow> find_config args = []"
  by (induction args rule: find_config.induct) auto

lemma parse_loop_opt_args:
  assumes "option_action arg v = Some act"
  shows "parse_loop (opt_args b [arg, v] @ rest) p =
    res_bind (if b then act p else Inr p) (parse_loop rest)"
    "parse_loop ([arg, v] @ rest) p = res_bind (act p) (parse_loop rest)"
    "parse_loop (opt_args b [arg, v]) p = (if b then act p else Inr p)"
proof -
  have "arg \<notin> {''--help'', ''-h'', ''--version'', ''-v''}"
    using assms by (auto simp: option_action_def)
  then show "parse_loop (opt_args b [arg, v] @ rest) p =
      res_bind (if b then act p else Inr p) (parse_loop rest)"
    "parse_loop ([arg, v] @ rest) p = res_bind (act p) (parse_loop rest)"
    "parse_loop (opt_args b [arg, v]) p = (if b then act p else Inr p)"
    using assms by (auto simp: opt_args_def res_bind_def split: sum.splits)
qed

lemma show_int_noteq: "\<not> is_digit c \<Longrightarrow> show_int i \<noteq> CHR ''-'' # c # cs"
  using show_nat_digits [of _ "nat i"] show_nat_digits [of _ "nat (- i)"]
  by (auto simp: show_int_def is_digit_def)

lemma option_actions:
  "option_action ''--mode'' v = Some (\<lambda>p. Inr (p\<lparr>cl_mode := map to_upper_char v\<rparr>))"
  "option_action ''--target'' v = Some (upd_config (setTargetIP v))"
  "option_action ''--port'' v = Some (set_int setPort v)"
  "option_action ''--packet-size'' v = Some (set_int setPacketSize v)"
  "option_action ''--num-packets'' v = Some (set_int setNumPackets v)"
  "option_action ''--interval-ms'' v = Some (set_int setSendIntervalMs v)"
  "option_action ''--save-logs'' v = Some (set_save_logs v)"
  "option_action ''--run-id'' v = Some (upd_options (\<lambda>r. r\<lparr>opt_runId := v\<rparr>))"
  "option_action ''--result-dir'' v = Some (upd_options (\<lambda>r. r\<lparr>opt_resultDir := v\<rparr>))"
  by (simp_all add: option_action_def)

lemmas parse_steps = option_actions [THEN parse_loop_opt_args(1)]
  option_actions [THEN parse_loop_opt_args(2)] option_actions [THEN parse_loop_opt_args(3)]

text \<open>An option given when its value is set, as a total update.\<close>

lemma set_int_show:
  assumes "i \<le> INT_MAX"
  shows "(if 0 < i then set_int setPacketSize (show_int i) p else Inr p) =
      Inr (p\<lparr>cl_config := (cl_config p)\<lparr>packetSize := if 0 < i then i else packetSize (cl_config p)\<rparr>\<rparr>)"
    "(if 0 < i then set_int setNumPackets (show_int i) p else Inr p) =
      Inr (p\<lparr>cl_config := (cl_config p)\<lparr>numPackets := if 0 < i then i else numPackets (cl_config p)\<rparr>\<rparr>)"
    "(if 0 < i then set_int setSendIntervalMs (show_int i) p else Inr p) =
      Inr (p\<lparr>cl_config := (cl_config p)\<lparr>sendIntervalMs := if 0 < i then i else sendIntervalMs (cl_config p)\<rparr>\<rparr>)"
    "i \<le> 65535 \<Longrightarrow> (if 0 < i then set_int setPort (show_int i) p else Inr p) =
      Inr (p\<lparr>cl_config := (cl_config p)\<lparr>port := if 0 < i then i else port (cl_config p)\<rparr>\<rparr>)"
  using assms
  by (simp_all add: set_int_def stoi_show_int INT_MIN_def upd_config_def setter_defs)

lemma set_string_show:
  "(if v \<noteq> [] then upd_config (setTargetIP v) p else Inr p) =
    Inr (p\<lparr>cl_config := (cl_config p)\<lparr>targetIP := if v \<noteq> [] then v else targetIP (cl_config p)\<rparr>\<rparr>)"
  "set_save_logs (if b then ''true'' else ''false'') p =
    Inr (p\<lparr>cl_config := (cl_config p)\<lparr>saveLogs := b\<rparr>\<rparr>)"
  "(if v \<noteq> [] then upd_options (\<lambda>r. r\<lparr>opt_runId := v\<rparr>) p else Inr p) =
    Inr (p\<lparr>cl_options := (cl_options p)\<lparr>opt_runId := if v \<noteq> [] then v else opt_runId (cl_options p)\<rparr>\<rparr>)"
  "(if v \<noteq> [] then upd_options (\<lambda>r. r\<lparr>opt_resultDir := v\<rparr>) p else Inr p) =
    Inr (p\<lparr>cl_options := (cl_options p)\<lparr>opt_resultDir := if v \<noteq> [] then v else opt_resultDir (cl_options p)\<rparr>\<rparr>)"
  by (simp_all add: set_save_logs_def upd_config_def upd_options_def setter_defs)

lemma set_target: "upd_config (setTargetIP v) p = Inr (p\<lparr>cl_config := (cl_config p)\<lparr>targetIP := v\<rparr>\<rparr>)"
  by (simp add: upd_config_def setter_defs)

lemma upper_mode: "map to_upper_char ''client'' = ''CLIENT''" "map to_upper_char ''server'' = ''SERVER''"
  by code_simp+

text \<open>What ipeftc is to run with.\<close>

definition client_config :: "TestConfig \<Rightarrow> Config" where
  "client_config c = default_Config
     \<lparr>targetIP := (if tc_targetIP c \<noteq> [] then tc_targetIP c else ''127.0.0.1''),
      port := (if tc_port c > 0 then tc_port c else 5201),
      packetSize := (if tc_packetSize c > 0 then tc_packetSize c else 1024),
      numPackets := (if tc_numPackets c > 0 then tc_numPackets c else 0),
      sendIntervalMs := (if tc_sendIntervalMs c > 0 then tc_sendIntervalMs c else 0),
      saveLogs := tc_saveLogs c, mode := CLIENT\<rparr>"

definition server_config :: "TestConfig \<Rightarrow> Config" where
  "server_config c = default_Config
     \<lparr>targetIP := (if tc_serverBindIP c \<noteq> [] then tc_serverBindIP c else ''0.0.0.0''),
      port := (if tc_port c > 0 then tc_port c else 5201),
      saveLogs := tc_saveLogs c, mode := SERVER\<rparr>"

definition result_options :: "TestConfig \<Rightarrow> RunOptions" where
  "result_options c = default_RunOptions
     \<lparr>opt_runId := tc_runId c,
      opt_resultDir := (if tc_resultDir c \<noteq> [] then tc_resultDir c else ''Results'')\<rparr>"

definition runnable :: "TestConfig \<Rightarrow> bool" where
  "runnable c \<longleftrightarrow> tc_port c \<le> 65535 \<and> tc_packetSize c \<le> INT_MAX \<and> tc_numPackets c \<le> INT_MAX \<and>
     tc_sendIntervalMs c \<le> INT_MAX \<and>
     ''--config'' \<notin> {tc_targetIP c, tc_serverBindIP c, tc_runId c, tc_resultDir c}"

lemma no_config_option:
  assumes "runnable c"
  shows "find_config (BuildClientArgs c) = []" "find_config (BuildServerArgs c) = []"
proof -
  have "show_int i \<noteq> ''--config''" for i by (rule show_int_noteq) (simp_all add: is_digit_def)
  then show "find_config (BuildClientArgs c) = []" "find_config (BuildServerArgs c) = []"
    using assms
    by (auto simp: runnable_def BuildClientArgs_def BuildServerArgs_def opt_args_def
        intro!: find_config_none)
qed

definition start_of :: "ParsedCommandLine" where
  "start_of = \<lparr>cl_config = default_Config, cl_options = default_RunOptions, cl_mode = [], cl_console = None\<rparr>"

lemma parse_client_args:
  assumes "runnable c"
  shows "\<exists>p. parse_loop (BuildClientArgs c) start_of = Inr p \<and> cl_mode p = ''CLIENT'' \<and>
    (cl_config p)\<lparr>mode := CLIENT\<rparr> = client_config c \<and> cl_options p = result_options c \<and> cl_console p = None"
proof -
  have range: "tc_port c \<le> 65535" "tc_port c \<le> INT_MAX" "tc_packetSize c \<le> INT_MAX"
    "tc_numPackets c \<le> INT_MAX" "tc_sendIntervalMs c \<le> INT_MAX"
    using assms by (simp_all add: runnable_def INT_MAX_def)
  show ?thesis
    unfolding BuildClientArgs_def
    by (simp only: parse_steps set_string_show upper_mode res_bind_Inr set_int_show [OF range(2)]
        set_int_show [OF range(3)] set_int_show [OF range(4)] set_int_show [OF range(5)] range)
      (simp add: start_of_def client_config_def result_options_def default_Config_def default_RunOptions_def)
qed

lemma parse_server_args:
  assumes "runnable c"
  shows "\<exists>p. parse_loop (BuildServerArgs c) start_of = Inr p \<and> cl_mode p = ''SERVER'' \<and>
    (cl_config p)\<lparr>mode := SERVER\<rparr> = server_config c \<and> cl_options p = result_options c \<and> cl_console p = None"
proof -
  have range: "tc_port c \<le> 65535" "tc_port c \<le> INT_MAX"
    using assms by (simp_all add: runnable_def INT_MAX_def)
  show ?thesis
    unfolding BuildServerArgs_def
    by (simp only: parse_steps set_target set_string_show(2-) upper_mode res_bind_Inr set_int_show [OF range(2)] range)
      (simp add: start_of_def server_config_def result_options_def default_Config_def default_RunOptions_def)
qed

lemma parseArgs_loop:
  assumes "find_config args = []" and "parse_loop args start_of = Inr p"
    and "cl_mode p = mode_string m" and "(cl_config p)\<lparr>mode := m\<rparr> = cfg"
  shows "parseArgs parse file args = Inr (p\<lparr>cl_config := cfg\<rparr>)"
  using assms
  by (cases m) (auto simp: parseArgs_def start_of_def mode_string_def upd_config_def setMode_def)

text \<open>
  the arguments the test runner builds from a test configuration are parsed by ipeftc into that
  configuration, on both sides, whatever the other options default to; only a value that reads
  \<open>--config\<close> and integers beyond the range of ipeftc's fields are excluded.
\<close>

theorem launched_config:
  assumes "runnable c"
  shows "(\<exists>p. parseArgs parse file (BuildClientArgs c) = Inr p \<and> cl_config p = client_config c \<and>
      cl_options p = result_options c) \<and>
    (\<exists>p. parseArgs parse file (BuildServerArgs c) = Inr p \<and> cl_config p = server_config c \<and>
      cl_options p = result_options c)"
proof
  obtain p where p: "parse_loop (BuildClientArgs c) start_of = Inr p" "cl_mode p = mode_string CLIENT"
    "(cl_config p)\<lparr>mode := CLIENT\<rparr> = client_config c" "cl_options p = result_options c"
    using parse_client_args [OF assms] by (auto simp: mode_string_def)
  show "\<exists>p. parseArgs parse file (BuildClientArgs c) = Inr p \<and> cl_config p = client_config c \<and>
      cl_options p = result_options c"
    using parseArgs_loop [OF no_config_option(1) [OF assms] p(1-3)] p(4) by simp
  obtain q where q: "parse_loop (BuildServerArgs c) start_of = Inr q" "cl_mode q = mode_string SERVER"
    "(cl_config q)\<lparr>mode := SERVER\<rparr> = server_config c" "cl_options q = result_options c"
    using parse_server_args [OF assms] by (auto simp: mode_string_def)
  show "\<exists>p. parseArgs parse file (BuildServerArgs c) = Inr p \<and> cl_config p = server_config c \<and>
      cl_options p = result_options c"
    using parseArgs_loop [OF no_config_option(2) [OF assms] q(1-3)] q(4) by simp
qed

theorem launched_config_witness:
  "let c = default_TestConfig\<lparr>tc_targetIP := ''10.0.0.2'', tc_runId := ''r1''\<rparr> in
   (\<exists>p. parseArgs (\<lambda>s. Inr JNull) (\<lambda>f. None) (BuildClientArgs c) = Inr p \<and>
      cl_config p = client_config c \<and> cl_options p = result_options c) \<and>
   (\<exists>p. parseArgs (\<lambda>s. Inr JNull) (\<lambda>f. None) (BuildServerArgs c) = Inr p \<and>
      cl_config p = server_config c \<and> cl_options p = result_options c)"
  unfolding Let_def
  by (rule launched_config)
    (simp add: runnable_def default_TestConfig_def DEFAULT_TEST_PORT_def INT_MAX_def)

subsection \<open>The result file reaches the test runner\<close>

definition result_of_stats :: "TestStats \<Rightarrow> TestResult \<Rightarrow> TestResult" where
  "result_of_stats st r =
     r\<lparr>tr_totalBytes := totalBytesReceived st, tr_totalPackets := totalPacketsReceived st,
       tr_duration := duration st, tr_throughput := throughputMbps st,
       tr_sequenceErrors := sequenceErrorCount st, tr_checksumErrors := failedChecksumCount st,
       tr_contentMismatches := contentMismatchCount st\<rparr>"

lemma FillFromStats_received:
  assumes "stats_in_range st"
  shows "FillFromStats (TestStats_to_json st) False r = Inr (result_of_stats st r)"
  using assms
  by (simp add: FillFromStats_def JsonLongLong_def JsonDouble_def TestStats_to_json_def
      stats_in_range_def result_of_stats_def codec_simps Let_def del: get_signed.simps)

lemma phase_fields:
  "json_at ''receiverRole'' (TestPhaseResult_to_json ph) = Inr (JString (receiverRole ph))"
  "json_at ''receiverStats'' (TestPhaseResult_to_json ph) = Inr (TestStats_to_json (receiverStats ph))"
  by (simp_all add: TestPhaseResult_to_json_def codec_simps)

lemma result_fields:
  "json_at ''runId'' (TestRunResult_to_json r) = Inr (JString (runId r))"
  "json_at ''phase1'' (TestRunResult_to_json r) = Inr (TestPhaseResult_to_json (phase1 r))"
  "json_at ''phase2'' (TestRunResult_to_json r) = Inr (TestPhaseResult_to_json (phase2 r))"
  "json_value get_bool ''success'' d (TestRunResult_to_json r) = Inr (success r)"
  "json_value get_string ''failureReason'' e (TestRunResult_to_json r) = Inr (failureReason r)"
  "json_value get_string ''resultExportWarning'' e (TestRunResult_to_json r) = Inr (resultExportWarning r)"
  by (simp_all add: TestRunResult_to_json_def codec_simps)

text \<open>The phase a role receives in, and what the runner makes of the reason and the warning.\<close>

definition received_phase :: "string \<Rightarrow> TestRunResult \<Rightarrow> TestPhaseResult" where
  "received_phase role_name r = (if role_name = ''Client'' then phase2 r else phase1 r)"

definition merged_reason :: "TestRunResult \<Rightarrow> string" where
  "merged_reason r =
     (if resultExportWarning r = [] then failureReason r
      else (if failureReason r \<noteq> [] then failureReason r @ ''; '' else []) @
        ''Result export warning: '' @ resultExportWarning r)"

definition read_result :: "TestConfig \<Rightarrow> string \<Rightarrow> TestRunResult \<Rightarrow> TestResult" where
  "read_result c role_name r =
     (result_of_stats (receiverStats (received_phase role_name r))
       (empty_TestResult\<lparr>tr_role := role_name, tr_port := tc_port c\<rparr>))
       \<lparr>tr_success := success r, tr_failureReason := merged_reason r\<rparr>"

lemma ParseResultFile_lemma:
  assumes "tc_runId c \<noteq> []" and "runId r = tc_runId c"
    and "receiverRole (phase1 r) = ''SERVER''" "receiverRole (phase2 r) = ''CLIENT''"
    and "stats_in_range (receiverStats (received_phase role_name r))"
    and "file (ResultFilePath c role_name) = Some content" and "parse content = Inr (TestRunResult_to_json r)"
  shows "ParseResultFile parse file c role_name =
    Inr (read_result c role_name r)"
proof -
  have *: "fill_received_or_sent (TestRunResult_to_json r) ''phase2'' ''CLIENT'' ''phase1'' x =
      FillFromStats (TestStats_to_json (receiverStats (phase2 r))) False x"
    "fill_received_or_sent (TestRunResult_to_json r) ''phase1'' ''SERVER'' ''phase2'' x =
      FillFromStats (TestStats_to_json (receiverStats (phase1 r))) False x" for x
    using assms(3,4) by (simp_all add: fill_received_or_sent_def phase_fields result_fields)
  show ?thesis
  proof (cases "role_name = ''Client''")
    case True
    then have "stats_in_range (receiverStats (phase2 r))" using assms(5) by (simp add: received_phase_def)
    from FillFromStats_received [OF this] show ?thesis
      using assms(1,2,6,7) True
      by (simp add: ParseResultFile_def read_result_def * received_phase_def result_fields merged_reason_def Let_def)
  next
    case False
    then have "stats_in_range (receiverStats (phase1 r))" using assms(5) by (simp add: received_phase_def)
    from FillFromStats_received [OF this] show ?thesis
      using assms(1,2,6,7) False
      by (simp add: ParseResultFile_def read_result_def * received_phase_def result_fields merged_reason_def Let_def)
  qed
qed

lemma result_path:
  assumes "r = buildCurrentResult nowIso reason ct" and "ct_runOptions ct = result_options c"
    and "roleString (mode (nd_config (ct_node ct))) = ResultRole role_name" and "tc_resultDir c \<noteq> []"
  shows "hd (export_paths (ct_runOptions ct) r) = ResultFilePath c role_name"
    "runId r = tc_runId c" "receiverRole (phase1 r) = ''SERVER''" "receiverRole (phase2 r) = ''CLIENT''"
  using assms
  by (simp_all add: export_paths_def ResultFilePath_def buildCurrentResult_def build_phase_def
      result_options_def ResultRole_def Let_def)

lemma result_range_phases:
  "result_in_range r \<Longrightarrow> stats_in_range (receiverStats (received_phase role_name r))"
  by (simp add: received_phase_def result_in_range_def phase_in_range_def)

text \<open>
  C20: the result file that ipeftc writes for its run is found by the test runner under the path it
  computes itself, and its counts are those of the phase in which the role receives; verdict and
  reason are ipeftc's own.
\<close>

theorem result_file_read:
  assumes "r = buildCurrentResult nowIso reason ct" and "ct_runOptions ct = result_options c"
    and "roleString (mode (nd_config (ct_node ct))) = ResultRole role_name"
    and "tc_runId c \<noteq> []" "tc_resultDir c \<noteq> []" "result_in_range r"
    and "file (hd (export_paths (ct_runOptions ct) r)) = Some (dump (TestRunResult_to_json r))"
    and "parse (dump (TestRunResult_to_json r)) = Inr (TestRunResult_to_json r)"
  shows "ParseResultFile parse file c role_name =
    Inr (read_result c role_name r)"
  using assms(4,6-8) result_path [OF assms(1-3,5)]
  by (intro ParseResultFile_lemma result_range_phases) simp_all

lemma good_phase:
  assumes "success r" and "r = buildCurrentResult nowIso reason ct"
    and "cfg = nd_config (ct_node ct)" "0 < packetSize cfg"
  shows "counts_ok cfg (receiverStats (received_phase role_name r))"
  using assms validate_ok_lemma [of cfg]
  by (auto simp: buildCurrentResult_def received_phase_def Let_def)

lemma failed_reason: "\<not> success (buildCurrentResult t reason ct) \<Longrightarrow> failureReason (buildCurrentResult t reason ct) \<noteq> []"
  by (auto simp: buildCurrentResult_def Let_def)

text \<open>
  C21: the test runner's verdict on the result it reads is ipeftc's verdict, for both roles, when a
  number of packets was asked for: \<open>AnalyzeTestResult\<close> finds nothing that \<open>validateReceiverStats\<close>
  accepts, and does not overrule a failure.
\<close>

theorem verdicts_agree:
  assumes "r = buildCurrentResult nowIso reason ct"
    and "packetSize (nd_config (ct_node ct)) = tc_packetSize c" "0 < tc_packetSize c"
    and "numPackets (nd_config (ct_node ct)) = tc_numPackets c" "0 < tc_numPackets c"
  shows "tr_success (AnalyzeTestResult (tc_numPackets c) (tc_packetSize c * tc_numPackets c)
      (read_result c role_name r)) \<longleftrightarrow> success r"
proof -
  have "result_good (tc_numPackets c) (tc_packetSize c * tc_numPackets c) (read_result c role_name r) \<longleftrightarrow>
      success r"
  proof
    assume "success r"
    with good_phase [OF this assms(1) refl] assms(2-5)
    show "result_good (tc_numPackets c) (tc_packetSize c * tc_numPackets c) (read_result c role_name r)"
      by (simp add: result_good_def read_result_def result_of_stats_def counts_ok_def)
  next
    assume *: "result_good (tc_numPackets c) (tc_packetSize c * tc_numPackets c) (read_result c role_name r)"
    show "success r"
    proof (rule ccontr)
      assume n: "\<not> success r"
      then have "merged_reason r \<noteq> []"
        using failed_reason [of nowIso reason ct] assms(1) by (simp add: merged_reason_def)
      with * n show False by (simp add: result_good_def read_result_def)
    qed
  qed
  then show ?thesis
    using AnalyzeTestResult_lemma [OF refl] by simp
qed

subsection \<open>Waiting for the server\<close>

lemma ready_output:
  "WaitForServerReady polls t h = (True, h') \<Longrightarrow>
     \<exists>n \<le> length polls. ph_startupOutput h' = ph_startupOutput h @ concat (map po_read (take n polls)) \<and>
       HasServerReadyMarker (ph_startupOutput h') \<and> ph_pid h' = ph_pid h \<and>
       ph_pipeReadFd h' = ph_pipeReadFd h"
proof (induction polls t h rule: WaitForServerReady.induct)
  case (2 p ps t h)
  define h1 where "h1 = (if po_read p \<noteq> [] then h\<lparr>ph_startupOutput := ph_startupOutput h @ po_read p\<rparr> else h)"
  have h1: "ph_startupOutput h1 = ph_startupOutput h @ po_read p" "ph_pid h1 = ph_pid h"
    "ph_pipeReadFd h1 = ph_pipeReadFd h" by (simp_all add: h1_def)
  have t: "\<not> po_elapsed p \<ge> t" using "2.prems" by auto
  show ?case
  proof (cases "po_read p \<noteq> [] \<and> HasServerReadyMarker (ph_startupOutput h1)")
    case True
    then have "h' = h1" using "2.prems" t by (simp add: h1_def split: if_splits)
    with True h1 show ?thesis by (intro exI [of _ 1]) auto
  next
    case False
    then have r: "\<not> po_exited p" "WaitForServerReady ps t h1 = (True, h')"
      using "2.prems" t by (auto simp: h1_def Let_def split: if_splits)
    from "2.IH"(2) [OF t h1_def False r] obtain n where "n \<le> length ps"
      "ph_startupOutput h' = ph_startupOutput h1 @ concat (map po_read (take n ps))"
      "HasServerReadyMarker (ph_startupOutput h')" "ph_pid h' = ph_pid h1"
      "ph_pipeReadFd h' = ph_pipeReadFd h1" by blast
    with h1 show ?thesis by (intro exI [of _ "Suc n"]) simp
  qed
qed simp

lemma c_str_id: "CHR 0x00 \<notin> set s \<Longrightarrow> c_str s = s"
  unfolding c_str_def by (induction s) auto

lemma c_str_reads:
  assumes "\<forall>x \<in> set reads. CHR 0x00 \<notin> set x"
  shows "concat (map c_str (takeWhile (\<lambda>x. x \<noteq> []) reads)) = concat (takeWhile (\<lambda>x. x \<noteq> []) reads)"
  using assms by (induction reads) (auto simp: c_str_id)

text \<open>
  all that a launched ipeftc printed reaches the parser: what was read while waiting for its
  readiness comes first, then the rest, in the order of the reads; the process is reaped and the
  pipe closed.
\<close>

theorem output_captured:
  assumes "LaunchIPEFTCServer fs env path c new_ProcessHandles = (True, h, argv)"
    and "WaitForServerReady polls timeoutMs h = (True, h1)"
    and "WaitForProcessAndCaptureOutput reads h1 = (output, h2)"
    and "\<forall>x \<in> set reads. CHR 0x00 \<notin> set x"
  shows "argv = Some (path # BuildServerArgs c) \<and>
    (\<exists>n \<le> length polls. ph_startupOutput h1 = concat (map po_read (take n polls)) \<and>
       output = concat (map po_read (take n polls)) @ concat (takeWhile (\<lambda>x. x \<noteq> []) reads)) \<and>
    HasServerReadyMarker (ph_startupOutput h1) \<and> ph_pid h1 = le_fork env \<and>
    h2 = new_ProcessHandles"
proof -
  have h: "ph_startupOutput h = []" "ph_pid h = le_fork env" "argv = Some (path # BuildServerArgs c)"
    using assms(1)
    by (auto simp: LaunchIPEFTCServer_def launch_def new_ProcessHandles_def split: if_splits option.splits)
  show ?thesis
    using ready_output [OF assms(2)] assms(3) h c_str_reads [OF assms(4)]
    by (auto simp: WaitForProcessAndCaptureOutput_def new_ProcessHandles_def)
qed

subsection \<open>Examples\<close>

definition demo_controller :: Controller where
  "demo_controller = (new_Controller 0)
     \<lparr>ct_node := demo_done demo_config,
      ct_runOptions := default_RunOptions\<lparr>opt_runId := ''r1''\<rparr>\<rparr>"

definition demo_test_config :: TestConfig where
  "demo_test_config = default_TestConfig
     \<lparr>tc_runId := ''r1'', tc_packetSize := 1024, tc_numPackets := 1\<rparr>"

lemma demo_result_in_range: "result_in_range (buildCurrentResult [] [] demo_controller)"
  by (simp add: result_in_range_def buildCurrentResult_def build_phase_def phase_in_range_def
      demo_controller_def demo_done_def demo_config_def new_Node_def stats_in_range_def demo_sent_def
      demo_received_def zeroStats_def llong_range_def LLONG_MIN_def LLONG_MAX_def config_valid_def
      default_Config_def INT_MAX_def Let_def)

theorem result_file_read_witness:
  "let r = buildCurrentResult [] [] demo_controller in
   ParseResultFile (\<lambda>s. Inr (TestRunResult_to_json r)) (\<lambda>f. Some ''{}'') demo_test_config ''Client'' =
   Inr (read_result demo_test_config ''Client'' r)"
  unfolding Let_def
  by (rule result_file_read [of _ "[]" "[]" demo_controller _ _ _ "\<lambda>j. ''{}''"])
    (simp_all add: demo_result_in_range, simp_all add: demo_controller_def demo_done_def
      demo_config_def new_Node_def default_Config_def result_options_def demo_test_config_def
      default_TestConfig_def ResultRole_def roleString_def default_RunOptions_def)

theorem verdicts_agree_witness:
  "tr_success (AnalyzeTestResult 1 (1024 * 1)
      (read_result demo_test_config ''Server'' (buildCurrentResult [] [] demo_controller))) \<longleftrightarrow>
    success (buildCurrentResult [] [] demo_controller)"
  using verdicts_agree [of _ "[]" "[]" demo_controller demo_test_config "''Server''"]
  by (simp add: demo_controller_def demo_done_def demo_config_def new_Node_def default_Config_def
      demo_test_config_def)

definition demo_fs :: file_system where
  "demo_fs = \<lparr>fs_exists = \<lambda>p. True, fs_is_directory = \<lambda>p. False, fs_access = \<lambda>p. True, fs_normal = \<lambda>p. p,
     fs_cwd = ''/'', fs_exe_dir = ''/'', fs_PATH = None\<rparr>"

definition demo_launch :: launch_env where
  "demo_launch = \<lparr>le_pipe = Some 3, le_fork = 42\<rparr>"

definition demo_polls :: "poll list" where
  "demo_polls = [\<lparr>po_elapsed = 0, po_read = ''Transitioning to state: ACCEPTING'', po_exited = False\<rparr>]"

definition demo_ready :: ProcessHandles where
  "demo_ready = \<lparr>ph_pid = 42, ph_pipeReadFd = 3, ph_startupOutput = ''Transitioning to state: ACCEPTING''\<rparr>"

theorem output_captured_witness:
  "Some (''ipeftc'' # BuildServerArgs demo_test_config) = Some (''ipeftc'' # BuildServerArgs demo_test_config) \<and>
    (\<exists>n \<le> length demo_polls. ph_startupOutput demo_ready = concat (map po_read (take n demo_polls)) \<and>
       ph_startupOutput demo_ready @ ''x'' =
         concat (map po_read (take n demo_polls)) @ concat (takeWhile (\<lambda>x. x \<noteq> []) [''x''])) \<and>
    HasServerReadyMarker (ph_startupOutput demo_ready) \<and> ph_pid demo_ready = le_fork demo_launch \<and>
    new_ProcessHandles = new_ProcessHandles"
proof (rule output_captured)
  show "LaunchIPEFTCServer demo_fs demo_launch ''ipeftc'' demo_test_config new_ProcessHandles =
      (True, demo_ready\<lparr>ph_startupOutput := []\<rparr>, Some (''ipeftc'' # BuildServerArgs demo_test_config))"
    by (simp add: LaunchIPEFTCServer_def launch_def ValidateIpeftcPath_def IsExecutableResolvable_def
        FileExists_def demo_fs_def demo_launch_def demo_ready_def new_ProcessHandles_def)
  show "WaitForServerReady demo_polls 20000 (demo_ready\<lparr>ph_startupOutput := []\<rparr>) = (True, demo_ready)"
    by (simp add: demo_polls_def demo_ready_def HasServerReadyMarker_def contains_sub_def)
  show "WaitForProcessAndCaptureOutput [''x''] demo_ready =
      (ph_startupOutput demo_ready @ ''x'', new_ProcessHandles)"
    by (simp add: WaitForProcessAndCaptureOutput_def c_str_def demo_ready_def new_ProcessHandles_def)
qed simp

end
