(* ===== verification/ControlServer.thy ===== *)
theory ControlServer
  imports ControlFraming ProcessManager "HOL-Library.Multiset"
begin

section \<open>The control server of the test runner\<close>

text \<open>
  \<open>TestRunner/ControlServer.cpp\<close>: one client connection, from \<open>HandleClient\<close>'s first message to
  its end. The answers of the operating system to the \<open>k\<close>-th message of the connection are in
  \<open>server_env\<close>. \<open>ss_launched\<close> and \<open>ss_reaped\<close> record the process ids that were started and those
  that were waited for; what the function prints is left out.
\<close>

record server_env =
  se_fs :: file_system
  se_override :: string
  se_launch :: "nat \<Rightarrow> launch_env"
  se_polls :: "nat \<Rightarrow> poll list"
  se_reads :: "nat \<Rightarrow> bytes list"
  se_file :: "nat \<Rightarrow> string \<Rightarrow> string option"
  se_parse :: json_parser
  se_dump :: json_printer

record ServerSession =
  ss_socket :: Socket
  ss_process :: ProcessHandles
  ss_running :: bool
  ss_testPort :: int
  ss_config :: TestConfig
  ss_launched :: "int list"
  ss_reaped :: "int list"

record ControlServer =
  cs_running :: bool
  cs_listening :: bool
  cs_history :: "(TestResult \<times> TestResult) list"

definition cs_stop :: "ControlServer \<Rightarrow> ControlServer" where
  "cs_stop cs = cs\<lparr>cs_running := False, cs_listening := False\<rparr>"

definition new_session :: "Socket \<Rightarrow> ServerSession" where
  "new_session sock =
     \<lparr>ss_socket = sock, ss_process = new_ProcessHandles, ss_running = False, ss_testPort = 0,
      ss_config = default_TestConfig, ss_launched = [], ss_reaped = []\<rparr>"

text \<open>\<open>SendMessage\<close> with its result ignored, as in all calls of \<open>HandleClient\<close>.\<close>

definition reply :: "server_env \<Rightarrow> RunnerMessage \<Rightarrow> ServerSession \<Rightarrow> ServerSession" where
  "reply env m st = st\<lparr>ss_socket := snd (SendMessage (SerializeMessage (se_dump env) m) (ss_socket st))\<rparr>"

definition terminate_current :: "ServerSession \<Rightarrow> ServerSession" where
  "terminate_current st =
     (case TerminateProcess (ss_process st) of
        (killed, h) \<Rightarrow> st\<lparr>ss_process := h, ss_reaped := ss_reaped st @ killed\<rparr>)"

text \<open>How the handling of a message ends: the next message, \<open>break\<close>, or an exception.\<close>

datatype handled = NextMessage | LeaveLoop | Thrown exn

definition wait_ready :: "server_env \<Rightarrow> nat \<Rightarrow> TestConfig \<Rightarrow> ServerSession \<Rightarrow> ServerSession" where
  "wait_ready env k c st =
     (case WaitForServerReady (se_polls env k) SERVER_START_TIMEOUT_MS (ss_process st) of
        (ready, h) \<Rightarrow>
          let st' = st\<lparr>ss_process := h,
                ss_reaped := ss_reaped st @
                  (if ph_pid h \<noteq> ph_pid (ss_process st) then [ph_pid (ss_process st)] else [])\<rparr>
          in if ready then reply env (ServerReadyMessage (tc_port c) (tc_serverBindIP c)) st'
             else (terminate_current
               (reply env (ErrorMessage ''IPEFTC server failed to become ready'') st'))\<lparr>ss_running := False\<rparr>)"

definition handle_config :: "server_env \<Rightarrow> nat \<Rightarrow> string \<Rightarrow> ServerSession \<Rightarrow> handled \<times> ServerSession" where
  "handle_config env k msg st =
     (case DeserializeConfigRequest (se_parse env) msg of
        Inl e \<Rightarrow> (Thrown e, st)
      | Inr c \<Rightarrow>
          let st = st\<lparr>ss_config := c\<rparr>;
              path = GetIPEFTCPath (se_fs env) (se_override env)
          in case LaunchIPEFTCServer (se_fs env) (se_launch env k) path c (ss_process st) of
               (True, h, argv) \<Rightarrow>
                 (NextMessage, wait_ready env k c
                   (st\<lparr>ss_process := h, ss_running := True, ss_testPort := tc_port c,
                       ss_launched := ss_launched st @ [ph_pid h]\<rparr>))
             | (False, h, argv) \<Rightarrow>
                 (NextMessage, reply env (ErrorMessage ''Failed to launch IPEFTC server'')
                   (st\<lparr>ss_process := h\<rparr>)))"

text \<open>The server's own result: from the result file, else from the output.\<close>

definition server_result ::
  "server_env \<Rightarrow> nat \<Rightarrow> ServerSession \<Rightarrow> TestResult res \<times> ServerSession" where
  "server_result env k st =
     (if ss_running st then
        case WaitForProcessAndCaptureOutput (se_reads env k) (ss_process st) of
          (output, h) \<Rightarrow>
            let st' = st\<lparr>ss_process := h, ss_running := False,
                  ss_reaped := ss_reaped st @ [ph_pid (ss_process st)]\<rparr>
            in (case ParseResultFile (se_parse env) (se_file env k) (ss_config st) ''Server'' of
                  Inr r \<Rightarrow> Inr r
                | Inl err \<Rightarrow> ParseOutput output ''Server'' (ss_testPort st), st')
      else (Inr (empty_TestResult\<lparr>tr_role := ''Server'', tr_port := ss_testPort st,
              tr_failureReason := ''IPEFTC server was not running'', tr_success := False\<rparr>), st))"

definition handle_results ::
  "server_env \<Rightarrow> nat \<Rightarrow> string \<Rightarrow> ControlServer \<times> ServerSession \<Rightarrow> handled \<times> ControlServer \<times> ServerSession" where
  "handle_results env k msg s =
     (case s of (cs, st) \<Rightarrow>
        case DeserializeResultsRequest (se_parse env) msg of
          Inl e \<Rightarrow> (Thrown e, cs, st)
        | Inr (p, clientResult) \<Rightarrow>
            case server_result env k st of
              (Inl e, st) \<Rightarrow> (Thrown e, cs, st)
            | (Inr serverResult, st) \<Rightarrow>
                (LeaveLoop, cs\<lparr>cs_history := cs_history cs @ [(clientResult, serverResult)]\<rparr>,
                 reply env (ResultsResponseMessage serverResult) st))"

definition handle_message ::
  "server_env \<Rightarrow> nat \<Rightarrow> string \<Rightarrow> ControlServer \<times> ServerSession \<Rightarrow> handled \<times> ControlServer \<times> ServerSession" where
  "handle_message env k msg s =
     (case s of (cs, st) \<Rightarrow>
        case GetMessageType (se_parse env) msg of
          Inl e \<Rightarrow> (Thrown e, cs, st)
        | Inr type \<Rightarrow>
            if type = MT_CONFIG_REQUEST
            then (case handle_config env k msg st of (out, st) \<Rightarrow> (out, cs, st))
            else if type = MT_RESULTS_REQUEST then handle_results env k msg (cs, st)
            else if type = MT_SERVER_SHUTDOWN then (LeaveLoop, cs_stop cs, st)
            else (NextMessage, cs, st))"

subsection \<open>The message loop\<close>

lemma SendMessage_in [simp]: "sk_in (snd (SendMessage m s)) = sk_in s"
proof (cases "SendAll (be32 (length m)) s")
  case (Pair ok s1)
  from SendAll_prefix [OF this] have "sk_in s1 = sk_in s" by blast
  moreover have "sk_in (snd (SendAll m s1)) = sk_in s1"
    using SendAll_prefix [of m s1 "fst (SendAll m s1)" "snd (SendAll m s1)"] by auto
  ultimately show ?thesis using Pair by (cases ok) (auto simp: SendMessage_def)
qed

lemma reply_fields [simp]:
  "sk_in (ss_socket (reply env m st)) = sk_in (ss_socket st)"
  "ss_process (reply env m st) = ss_process st" "ss_running (reply env m st) = ss_running st"
  "ss_launched (reply env m st) = ss_launched st" "ss_reaped (reply env m st) = ss_reaped st"
  "ss_config (reply env m st) = ss_config st" "ss_testPort (reply env m st) = ss_testPort st"
  by (simp_all add: reply_def)

lemma terminate_fields [simp]:
  "ss_socket (terminate_current st) = ss_socket st" "ss_running (terminate_current st) = ss_running st"
  "ss_launched (terminate_current st) = ss_launched st" "ss_config (terminate_current st) = ss_config st"
  by (simp_all add: terminate_current_def TerminateProcess_def)

lemma wait_ready_in [simp]: "sk_in (ss_socket (wait_ready env k c st)) = sk_in (ss_socket st)"
  by (simp add: wait_ready_def Let_def split: prod.split)

lemma wait_ready_launched [simp]: "ss_launched (wait_ready env k c st) = ss_launched st"
  by (simp add: wait_ready_def Let_def split: prod.split)

lemma handle_config_in:
  "handle_config env k msg st = (out, st') \<Longrightarrow> sk_in (ss_socket st') = sk_in (ss_socket st)"
  by (auto simp: handle_config_def Let_def split: sum.splits prod.splits bool.splits)

lemma server_result_in:
  "server_result env k st = (r, st') \<Longrightarrow> sk_in (ss_socket st') = sk_in (ss_socket st)"
  by (auto simp: server_result_def Let_def split: if_splits prod.splits)

lemma handle_results_in:
  "handle_results env k msg (cs, st) = (out, cs', st') \<Longrightarrow> sk_in (ss_socket st') = sk_in (ss_socket st)"
  by (auto simp: handle_results_def split: sum.splits prod.splits dest: server_result_in)

lemma handle_message_in:
  "handle_message env k msg (cs, st) = (out, cs', st') \<Longrightarrow> sk_in (ss_socket st') = sk_in (ss_socket st)"
  by (auto simp: handle_message_def split: sum.splits if_splits prod.splits
      dest: handle_config_in handle_results_in)

lemma ReceiveMessage_consumes:
  assumes "ReceiveMessage s = (m, s')" "m \<noteq> []"
  shows "length (sk_stream s') < length (sk_stream s)"
proof -
  from assms obtain d s1 where d: "RecvAll 4 s = (Some d, s1)" "RecvAll (un_be32 d) s1 = (Some m, s')"
    by (auto simp: ReceiveMessage_def Let_def split: prod.splits option.splits if_splits)
  from RecvAll_Some [OF d(1)] RecvAll_Some [OF d(2)] assms(2) show ?thesis by auto
qed

function handle_loop :: "server_env \<Rightarrow> nat \<Rightarrow> ControlServer \<times> ServerSession \<Rightarrow> ControlServer \<times> ServerSession" where
  "handle_loop env k (cs, st) =
     (case ReceiveMessage (ss_socket st) of
        (msg, sock) \<Rightarrow>
          if msg = [] then (cs, st\<lparr>ss_socket := sock\<rparr>)
          else case handle_message env k msg (cs, st\<lparr>ss_socket := sock\<rparr>) of
                 (out, cs', st') \<Rightarrow>
                   if out = NextMessage then handle_loop env (Suc k) (cs', st') else (cs', st'))"
  by pat_completeness auto
termination
  by (relation "measure (\<lambda>(env, k, cs, st). length (sk_stream (ss_socket st)))")
    (auto dest!: handle_message_in [OF sym] dest: ReceiveMessage_consumes [OF sym] simp: sk_stream_def)

declare handle_loop.simps [simp del]

text \<open>The loop, then the process still running is terminated.\<close>

definition HandleClient :: "server_env \<Rightarrow> ControlServer \<Rightarrow> Socket \<Rightarrow> ControlServer \<times> ServerSession" where
  "HandleClient env cs sock =
     (case handle_loop env 0 (cs, new_session sock) of
        (cs', st) \<Rightarrow> (cs', if ss_running st then terminate_current st else st))"

subsection \<open>Every process is waited for\<close>

text \<open>The process that the session would still terminate.\<close>

definition live_process :: "ServerSession \<Rightarrow> int list" where
  "live_process st = (if ss_running st then [ph_pid (ss_process st)] else [])"

text \<open>\<open>lost\<close> are the processes whose handles were overwritten.\<close>

definition session_inv :: "ServerSession \<Rightarrow> bool" where
  "session_inv st \<longleftrightarrow> (ss_running st \<longrightarrow> ph_pid (ss_process st) > 0) \<and>
     (\<exists>lost. mset (ss_launched st) = mset (ss_reaped st) + mset (live_process st) + lost \<and>
        size lost \<le> length (ss_launched st) - 1)"

definition forks_ok :: "server_env \<Rightarrow> bool" where
  "forks_ok env \<longleftrightarrow> (\<forall>k. le_fork (se_launch env k) = -1 \<or> le_fork (se_launch env k) > 0)"

lemma session_inv_new: "session_inv (new_session sock)"
  by (simp add: session_inv_def new_session_def live_process_def)

lemma session_inv_cong:
  "ss_running st' = ss_running st \<Longrightarrow> ss_process st' = ss_process st \<Longrightarrow> ss_launched st' = ss_launched st \<Longrightarrow>
   ss_reaped st' = ss_reaped st \<Longrightarrow> session_inv st' = session_inv st"
  by (simp add: session_inv_def live_process_def)

lemma session_inv_terminate:
  "session_inv st \<Longrightarrow> ss_running st \<Longrightarrow>
     mset (ss_reaped (terminate_current st)) \<subseteq># mset (ss_launched st) \<and>
     session_inv (terminate_current st\<lparr>ss_running := False\<rparr>)"
  by (auto simp: session_inv_def live_process_def terminate_current_def TerminateProcess_def add.commute add.assoc)

lemma WaitForServerReady_pid:
  "WaitForServerReady ps t h = (ready, h') \<Longrightarrow> ph_pid h' = ph_pid h \<or> \<not> ready \<and> ph_pid h' = -1"
  by (induction ps t h rule: WaitForServerReady.induct) (auto simp: Let_def split: if_splits)

lemma session_inv_ready:
  assumes "session_inv st" and "ss_running st"
  shows "session_inv (wait_ready env k c st)"
proof -
  obtain ready h where w: "WaitForServerReady (se_polls env k) SERVER_START_TIMEOUT_MS (ss_process st) = (ready, h)"
    by force
  from WaitForServerReady_pid [OF w] assms w show ?thesis
    by (cases ready)
      (auto simp: wait_ready_def session_inv_def live_process_def terminate_current_def TerminateProcess_def Let_def
        reply_def)
qed

lemma session_inv_launch:
  assumes "session_inv st" and "0 < ph_pid h"
  shows "session_inv (st\<lparr>ss_config := c, ss_process := h, ss_running := True, ss_testPort := p,
    ss_launched := ss_launched st @ [ph_pid h]\<rparr>)"
proof -
  from assms(1) obtain lost where lost:
    "mset (ss_launched st) = mset (ss_reaped st) + mset (live_process st) + lost"
    "size lost \<le> length (ss_launched st) - 1" by (auto simp: session_inv_def)
  have "length (live_process st) \<le> 1" by (simp add: live_process_def)
  moreover have "live_process st \<noteq> [] \<Longrightarrow> 1 \<le> length (ss_launched st)"
    using arg_cong [OF lost(1), of size] by (cases "live_process st") auto
  ultimately have "size (lost + mset (live_process st)) \<le> length (ss_launched st)"
    using lost(2) by (cases "live_process st") auto
  with lost(1) assms(2) show ?thesis
    by (auto simp: session_inv_def live_process_def [of "_\<lparr>ss_launched := _\<rparr>"]
        intro!: exI [of _ "lost + mset (live_process st)"])
qed

lemma launch_True:
  "launch fs env path args h = (True, h', argv) \<Longrightarrow>
     ph_pid h' = le_fork env \<and> le_fork env \<noteq> -1 \<and> argv = Some (path # args)"
  by (auto simp: launch_def split: if_splits option.splits)

lemma launch_False: "launch fs env path args h = (False, h', argv) \<Longrightarrow> h' = h"
  by (auto simp: launch_def split: if_splits option.splits)

lemma session_inv_config:
  assumes "forks_ok env" and "session_inv st" and "handle_config env k msg st = (out, st')"
  shows "session_inv st'"
proof (cases "DeserializeConfigRequest (se_parse env) msg")
  case (Inr c)
  obtain ok h argv where l: "LaunchIPEFTCServer (se_fs env) (se_launch env k)
      (GetIPEFTCPath (se_fs env) (se_override env)) c (ss_process st) = (ok, h, argv)"
    by (metis prod_cases3)
  show ?thesis
  proof (cases ok)
    case True
    then have "0 < ph_pid h"
      using l launch_True assms(1) by (fastforce simp: LaunchIPEFTCServer_def forks_ok_def)
    from session_inv_launch [OF assms(2) this] assms(3) Inr l True show ?thesis
      by (auto simp: handle_config_def intro!: session_inv_ready)
  next
    case False
    then have "h = ss_process st" using l launch_False by (simp add: LaunchIPEFTCServer_def)
    with assms(2,3) Inr l False show ?thesis
      by (auto simp: handle_config_def session_inv_def live_process_def)
  qed
qed (use assms in \<open>auto simp: handle_config_def\<close>)

lemma session_inv_result:
  "session_inv st \<Longrightarrow> server_result env k st = (r, st') \<Longrightarrow> session_inv st'"
  by (auto simp: server_result_def session_inv_def live_process_def Let_def WaitForProcessAndCaptureOutput_def
      add.commute add.assoc split: if_splits)

lemma session_inv_results:
  assumes "session_inv st" and "handle_results env k msg (cs, st) = (out, cs', st')"
  shows "session_inv st'"
proof (cases "DeserializeResultsRequest (se_parse env) msg")
  case (Inr pr)
  obtain r st1 where s: "server_result env k st = (r, st1)" by force
  have "ss_running st' = ss_running st1" "ss_process st' = ss_process st1"
    "ss_launched st' = ss_launched st1" "ss_reaped st' = ss_reaped st1"
    using assms(2) Inr s by (auto simp: handle_results_def split: sum.splits prod.splits)
  then show ?thesis using session_inv_result [OF assms(1) s] session_inv_cong by blast
qed (use assms in \<open>auto simp: handle_results_def\<close>)

lemma session_inv_message:
  assumes "forks_ok env" and "session_inv st" and "handle_message env k msg (cs, st) = (out, cs', st')"
  shows "session_inv st'"
proof -
  obtain out1 st1 where c: "handle_config env k msg st = (out1, st1)" by force
  obtain out2 cs2 st2 where r: "handle_results env k msg (cs, st) = (out2, cs2, st2)"
    by (metis prod_cases3)
  have "st' \<in> {st, st1, st2}"
    using assms(3) c r by (auto simp: handle_message_def split: sum.splits if_splits)
  then show ?thesis
    using assms(2) session_inv_config [OF assms(1,2) c] session_inv_results [OF assms(2) r] by auto
qed

lemma session_inv_loop:
  "forks_ok env \<Longrightarrow> session_inv st \<Longrightarrow> session_inv (snd (handle_loop env k (cs, st)))"
proof (induction env k cs st rule: handle_loop.induct [split_format (complete)])
  case (1 env k cs st)
  obtain msg sock where r: "ReceiveMessage (ss_socket st) = (msg, sock)" by force
  obtain out cs' st' where h: "handle_message env k msg (cs, st\<lparr>ss_socket := sock\<rparr>) = (out, cs', st')"
    by (metis prod_cases3)
  have inv: "session_inv (st\<lparr>ss_socket := sock\<rparr>)" using "1.prems"(2) by (subst session_inv_cong [of _ st]) simp_all
  have st': "session_inv st'" using session_inv_message [OF "1.prems"(1) inv h] .
  show ?case
  proof (cases "msg \<noteq> [] \<and> out = NextMessage")
    case True
    with "1.IH" [OF r [symmetric]] h "1.prems"(1) st' r show ?thesis by (subst handle_loop.simps) simp
  next
    case False
    with r h inv st' show ?thesis by (subst handle_loop.simps) auto
  qed
qed

text \<open>
  C22: however a connection ends, the server has only waited for processes it launched itself, each
  at most once; and when the connection launched at most one, that one has been waited for.
\<close>

theorem launched_reaped:
  assumes "HandleClient env cs sock = (cs', st)"
    and "\<forall>k. le_fork (se_launch env k) = -1 \<or> le_fork (se_launch env k) > 0"
  shows "mset (ss_reaped st) \<subseteq># mset (ss_launched st) \<and>
    (length (ss_launched st) \<le> 1 \<longrightarrow> ss_reaped st = ss_launched st)"
proof -
  define st1 where "st1 = snd (handle_loop env 0 (cs, new_session sock))"
  define st2 where "st2 = (if ss_running st1 then terminate_current st1 else st1)\<lparr>ss_running := False\<rparr>"
  have "session_inv st1"
    using assms(2) session_inv_loop [OF _ session_inv_new] by (simp add: st1_def forks_ok_def)
  then have "session_inv st2"
    using session_inv_terminate [of st1] by (auto simp: st2_def session_inv_def live_process_def)
  moreover have st: "ss_launched st = ss_launched st2" "ss_reaped st = ss_reaped st2" "\<not> ss_running st2"
    using assms(1) by (auto simp: HandleClient_def st1_def st2_def split: prod.splits)
  ultimately obtain lost where "mset (ss_launched st) = mset (ss_reaped st) + lost"
    "size lost \<le> length (ss_launched st) - 1" by (auto simp: session_inv_def live_process_def)
  then show ?thesis by (cases "ss_launched st") auto
qed

subsection \<open>A second configuration\<close>

text \<open>A process whose handles are gone is not waited for any more.\<close>

definition abandoned :: "int \<Rightarrow> ServerSession \<Rightarrow> bool" where
  "abandoned p st \<longleftrightarrow> 0 < p \<and> p \<in> set (ss_launched st) \<and> p \<notin> set (ss_reaped st) \<and> ph_pid (ss_process st) \<noteq> p"

lemma abandoned_cong:
  "ss_process st' = ss_process st \<Longrightarrow> ss_launched st' = ss_launched st \<Longrightarrow>
   ss_reaped st' = ss_reaped st \<Longrightarrow> abandoned p st' = abandoned p st"
  by (simp add: abandoned_def)

lemma abandoned_terminate: "abandoned p st \<Longrightarrow> abandoned p (terminate_current st)"
  by (auto simp: abandoned_def terminate_current_def TerminateProcess_def)

lemma abandoned_ready:
  assumes "abandoned p st"
  shows "abandoned p (wait_ready env k c st)"
proof -
  obtain ready h where w: "WaitForServerReady (se_polls env k) SERVER_START_TIMEOUT_MS (ss_process st) = (ready, h)"
    by force
  from WaitForServerReady_pid [OF w] assms w show ?thesis
    by (cases ready)
      (auto simp: wait_ready_def abandoned_def terminate_current_def TerminateProcess_def Let_def reply_def)
qed

lemma handle_config_abandons:
  assumes "handle_config env k msg st = (out, st')" and "le_fork (se_launch env k) \<noteq> p" and "0 < p"
    and "p \<in> set (ss_launched st)" and "p \<notin> set (ss_reaped st)"
    and "ph_pid (ss_process st) \<noteq> p \<or> ss_launched st' \<noteq> ss_launched st"
  shows "abandoned p st'"
proof (cases "DeserializeConfigRequest (se_parse env) msg")
  case (Inr c)
  obtain ok h argv where l: "LaunchIPEFTCServer (se_fs env) (se_launch env k)
      (GetIPEFTCPath (se_fs env) (se_override env)) c (ss_process st) = (ok, h, argv)"
    by (metis prod_cases3)
  show ?thesis
  proof (cases ok)
    case True
    then have "ph_pid h \<noteq> p" using l launch_True assms(2) by (fastforce simp: LaunchIPEFTCServer_def)
    then have "abandoned p (st\<lparr>ss_config := c, ss_process := h, ss_running := True,
        ss_testPort := tc_port c, ss_launched := ss_launched st @ [ph_pid h]\<rparr>)"
      using assms(3-5) by (simp add: abandoned_def)
    from abandoned_ready [OF this, of env k c] assms(1) Inr l True show ?thesis
      by (auto simp: handle_config_def)
  next
    case False
    then have "h = ss_process st" using l launch_False by (simp add: LaunchIPEFTCServer_def)
    with assms Inr l False show ?thesis by (auto simp: handle_config_def abandoned_def)
  qed
qed (use assms in \<open>auto simp: handle_config_def abandoned_def\<close>)

lemma abandoned_results:
  assumes "abandoned p st" and "handle_results env k msg (cs, st) = (out, cs', st')"
  shows "abandoned p st'"
proof (cases "DeserializeResultsRequest (se_parse env) msg")
  case (Inr pr)
  obtain r st1 where s: "server_result env k st = (r, st1)" by force
  have "abandoned p st1"
    using assms(1) s
    by (auto simp: server_result_def abandoned_def Let_def WaitForProcessAndCaptureOutput_def split: if_splits)
  moreover have "ss_process st' = ss_process st1" "ss_launched st' = ss_launched st1"
    "ss_reaped st' = ss_reaped st1"
    using assms(2) Inr s by (auto simp: handle_results_def split: sum.splits prod.splits)
  ultimately show ?thesis using abandoned_cong by blast
qed (use assms in \<open>auto simp: handle_results_def\<close>)

lemma abandoned_message:
  assumes "le_fork (se_launch env k) \<noteq> p" and "abandoned p st"
    and "handle_message env k msg (cs, st) = (out, cs', st')"
  shows "abandoned p st'"
proof -
  obtain out1 st1 where c: "handle_config env k msg st = (out1, st1)" by force
  obtain out2 cs2 st2 where r: "handle_results env k msg (cs, st) = (out2, cs2, st2)"
    by (metis prod_cases3)
  have "st' \<in> {st, st1, st2}"
    using assms(3) c r by (auto simp: handle_message_def split: sum.splits if_splits)
  then show ?thesis
    using handle_config_abandons [OF c assms(1)] abandoned_results [OF assms(2) r] assms(2)
    by (auto simp: abandoned_def)
qed

lemma abandoned_loop:
  "\<forall>j \<ge> k. le_fork (se_launch env j) \<noteq> p \<Longrightarrow> abandoned p st \<Longrightarrow>
     abandoned p (snd (handle_loop env k (cs, st)))"
proof (induction env k cs st rule: handle_loop.induct [split_format (complete)])
  case (1 env k cs st)
  obtain msg sock where r: "ReceiveMessage (ss_socket st) = (msg, sock)" by force
  obtain out cs' st' where h: "handle_message env k msg (cs, st\<lparr>ss_socket := sock\<rparr>) = (out, cs', st')"
    by (metis prod_cases3)
  have inv: "abandoned p (st\<lparr>ss_socket := sock\<rparr>)" using "1.prems"(2) by (simp add: abandoned_def)
  have st': "abandoned p st'" using abandoned_message [OF _ inv h] "1.prems"(1) by simp
  show ?case
  proof (cases "msg \<noteq> [] \<and> out = NextMessage")
    case True
    with "1.IH" [OF r [symmetric]] h "1.prems"(1) st' r show ?thesis by (subst handle_loop.simps) simp
  next
    case False
    with r h inv st' show ?thesis by (subst handle_loop.simps) auto
  qed
qed

text \<open>The first turns of the loop on messages already in the stream.\<close>

lemma handle_loop_frame:
  assumes "chunks_ok (ss_socket st)" and "sk_stream (ss_socket st) = frame msg @ rest" and "sendable_message msg"
  shows "\<exists>sock. chunks_ok sock \<and> sk_stream sock = rest \<and>
    (\<forall>out cs' st'. handle_message env k msg (cs, st\<lparr>ss_socket := sock\<rparr>) = (out, cs', st') \<longrightarrow>
       handle_loop env k (cs, st) =
         (if out = NextMessage then handle_loop env (Suc k) (cs', st') else (cs', st')))"
proof -
  from ReceiveMessage_frame [OF assms] obtain sock where
    r: "ReceiveMessage (ss_socket st) = (msg, sock)" "chunks_ok sock" "sk_stream sock = rest" by blast
  moreover have "msg \<noteq> []" using assms(3) by (simp add: sendable_message_def)
  ultimately show ?thesis by (intro exI [of _ sock]) (simp add: handle_loop.simps [of _ _ _ st])
qed

lemma chunks_ok_cong: "sk_in s = sk_in s' \<Longrightarrow> chunks_ok s = chunks_ok s'"
  by (simp add: chunks_ok_def)

text \<open>A configuration request whose launch succeeds.\<close>

definition launches :: "server_env \<Rightarrow> nat \<Rightarrow> bool" where
  "launches env k \<longleftrightarrow> ValidateIpeftcPath (se_fs env) (GetIPEFTCPath (se_fs env) (se_override env)) \<and>
     le_pipe (se_launch env k) \<noteq> None \<and> le_fork (se_launch env k) > 0"

lemma handle_config_launches:
  assumes "launches env k" and "DeserializeConfigRequest (se_parse env) msg = Inr c"
  shows "\<exists>h. handle_config env k msg st = (NextMessage, wait_ready env k c
      (st\<lparr>ss_config := c, ss_process := h, ss_running := True, ss_testPort := tc_port c,
          ss_launched := ss_launched st @ [le_fork (se_launch env k)]\<rparr>)) \<and>
    ph_pid h = le_fork (se_launch env k) \<and> ph_startupOutput h = ph_startupOutput (ss_process st)"
  using assms by (auto simp: handle_config_def LaunchIPEFTCServer_def launch_def launches_def)

text \<open>The process that the \<open>k\<close>-th message starts, and that it says in time that it is ready.\<close>

definition started_process :: "server_env \<Rightarrow> nat \<Rightarrow> ProcessHandles" where
  "started_process env k =
     \<lparr>ph_pid = le_fork (se_launch env k), ph_pipeReadFd = the (le_pipe (se_launch env k)), ph_startupOutput = []\<rparr>"

definition gets_ready :: "server_env \<Rightarrow> nat \<Rightarrow> bool" where
  "gets_ready env k \<longleftrightarrow>
     fst (WaitForServerReady (se_polls env k) SERVER_START_TIMEOUT_MS (started_process env k))"

lemma handle_config_ready:
  assumes "launches env k" and "gets_ready env k" and "DeserializeConfigRequest (se_parse env) msg = Inr c"
    and "ph_startupOutput (ss_process st) = []"
  shows "\<exists>h. handle_config env k msg st = (NextMessage,
      reply env (ServerReadyMessage (tc_port c) (tc_serverBindIP c))
        (st\<lparr>ss_config := c, ss_running := True, ss_testPort := tc_port c,
            ss_launched := ss_launched st @ [le_fork (se_launch env k)], ss_process := h\<rparr>)) \<and>
    ph_pid h = le_fork (se_launch env k)"
proof -
  obtain h where h: "WaitForServerReady (se_polls env k) SERVER_START_TIMEOUT_MS (started_process env k) = (True, h)"
    using assms(2)
    by (cases "WaitForServerReady (se_polls env k) SERVER_START_TIMEOUT_MS (started_process env k)")
      (auto simp: gets_ready_def)
  then have "ph_pid h = le_fork (se_launch env k)"
    using WaitForServerReady_pid [OF h] by (simp add: started_process_def)
  moreover have "ph_pid (started_process env k) = le_fork (se_launch env k)"
    by (simp add: started_process_def)
  moreover have "ss_process st\<lparr>ph_pid := le_fork (se_launch env k),
      ph_pipeReadFd := the (le_pipe (se_launch env k))\<rparr> = started_process env k"
    using assms(4) by (cases "ss_process st") (simp add: started_process_def)
  ultimately show ?thesis
    using assms(1,3) h
    by (intro exI [of _ h]) (auto simp: handle_config_def LaunchIPEFTCServer_def launch_def launches_def
        wait_ready_def Let_def)
qed

lemma handle_message_config:
  assumes "GetMessageType (se_parse env) msg = Inr MT_CONFIG_REQUEST"
  shows "handle_message env k msg (cs, st) = (case handle_config env k msg st of (out, st') \<Rightarrow> (out, cs, st'))"
  using assms by (simp add: handle_message_def)

text \<open>
  a second configuration on a connection overwrites the handles of the process launched for
  the first, which then is never terminated and never waited for.
\<close>

theorem second_config_leaks:
  assumes "[] \<notin> set (sk_in sock)" and "concat (sk_in sock) = frame m1 @ frame m2 @ rest"
    and "sendable_message m1" and "sendable_message m2"
    and "GetMessageType (se_parse env) m1 = Inr MT_CONFIG_REQUEST"
    and "GetMessageType (se_parse env) m2 = Inr MT_CONFIG_REQUEST"
    and "DeserializeConfigRequest (se_parse env) m1 = Inr c1"
    and "DeserializeConfigRequest (se_parse env) m2 = Inr c2"
    and "launches env 0" and "launches env 1"
    and "gets_ready env 0" and "p = le_fork (se_launch env 0)" and "\<forall>k > 0. le_fork (se_launch env k) \<noteq> p"
    and "HandleClient env cs sock = (cs', st)"
  shows "p \<in> set (ss_launched st) \<and> p \<notin> set (ss_reaped st)"
proof -
  let ?st = "new_session sock"
  have "chunks_ok (ss_socket ?st)" "sk_stream (ss_socket ?st) = frame m1 @ frame m2 @ rest"
    using assms(1,2) by (simp_all add: chunks_ok_def sk_stream_def new_session_def)
  from handle_loop_frame [OF this assms(3), of env 0 cs] obtain s1 where s1: "chunks_ok s1" "sk_stream s1 = frame m2 @ rest"
    "\<And>out cs' st'. handle_message env 0 m1 (cs, ?st\<lparr>ss_socket := s1\<rparr>) = (out, cs', st') \<Longrightarrow>
       handle_loop env 0 (cs, ?st) = (if out = NextMessage then handle_loop env 1 (cs', st') else (cs', st'))"
    by auto
  obtain h1 where h1: "handle_config env 0 m1 (?st\<lparr>ss_socket := s1\<rparr>) = (NextMessage,
      reply env (ServerReadyMessage (tc_port c1) (tc_serverBindIP c1)) (?st\<lparr>ss_socket := s1,
        ss_config := c1, ss_running := True, ss_testPort := tc_port c1, ss_launched := [p], ss_process := h1\<rparr>))"
    using handle_config_ready [OF assms(9,11,7), of "?st\<lparr>ss_socket := s1\<rparr>"] assms(12)
    by (auto simp: new_session_def new_ProcessHandles_def)
  define st1 where "st1 = reply env (ServerReadyMessage (tc_port c1) (tc_serverBindIP c1)) (?st\<lparr>ss_socket := s1,
      ss_config := c1, ss_running := True, ss_testPort := tc_port c1, ss_launched := [p], ss_process := h1\<rparr>)"
  have "handle_config env 0 m1 (?st\<lparr>ss_socket := s1\<rparr>) = (NextMessage, st1)"
    using h1 by (simp add: st1_def)
  then have loop: "handle_loop env 0 (cs, ?st) = handle_loop env 1 (cs, st1)"
    using s1(3) assms(5) by (simp add: handle_message_config)
  have sock1: "sk_in (ss_socket st1) = sk_in s1" by (simp add: st1_def)
  then have "chunks_ok (ss_socket st1)" "sk_stream (ss_socket st1) = frame m2 @ rest"
    using s1(1,2) by (simp_all add: chunks_ok_def sk_stream_def)
  from handle_loop_frame [OF this assms(4), of env 1 cs] obtain s2 where
    s2: "\<And>out cs' st'. handle_message env 1 m2 (cs, st1\<lparr>ss_socket := s2\<rparr>) = (out, cs', st') \<Longrightarrow>
       handle_loop env 1 (cs, st1) = (if out = NextMessage then handle_loop env (Suc 1) (cs', st') else (cs', st'))"
    by auto
  obtain out st2 where h: "handle_config env 1 m2 (st1\<lparr>ss_socket := s2\<rparr>) = (out, st2)" by force
  have "ss_launched st2 \<noteq> ss_launched (st1\<lparr>ss_socket := s2\<rparr>)"
    using handle_config_launches [OF assms(10,8), of "st1\<lparr>ss_socket := s2\<rparr>"] h
    by auto
  with handle_config_abandons [OF h, of p] assms(9,12,13) have "abandoned p st2"
    by (simp add: st1_def launches_def new_session_def)
  then have "abandoned p (snd (handle_loop env 0 (cs, ?st)))"
    using loop s2 h assms(6,13) abandoned_loop [of "Suc 1" env p st2 cs]
    by (simp add: handle_message_config)
  then show ?thesis
    using assms(14) abandoned_terminate
    by (force simp: HandleClient_def abandoned_def split: prod.splits if_splits)
qed

subsection \<open>Examples\<close>

text \<open>Every message is a configuration request; the processes have the ids 42, 43, ...\<close>

definition demo_server_env :: server_env where
  "demo_server_env = \<lparr>se_fs = demo_fs, se_override = ''ipeftc'',
     se_launch = (\<lambda>k. \<lparr>le_pipe = Some 3, le_fork = 42 + int k\<rparr>), se_polls = (\<lambda>k. demo_polls),
     se_reads = (\<lambda>k. []), se_file = (\<lambda>k f. None),
     se_parse = (\<lambda>s. Inr (message_json (ConfigRequestMessage demo_test_config))),
     se_dump = (\<lambda>j. ''{}'')\<rparr>"

definition demo_requests :: "string list \<Rightarrow> Socket" where
  "demo_requests ms = \<lparr>sk_in = map frame ms, sk_send = [], sk_out = []\<rparr>"

definition demo_server :: ControlServer where
  "demo_server = \<lparr>cs_running = True, cs_listening = True, cs_history = []\<rparr>"

lemma demo_requests_read:
  "GetMessageType (se_parse demo_server_env) m = Inr MT_CONFIG_REQUEST"
  "DeserializeConfigRequest (se_parse demo_server_env) m = Inr demo_test_config"
proof -
  have "TestConfig_in_range demo_test_config"
    by (simp add: TestConfig_in_range_def demo_test_config_def default_TestConfig_def int_range_def
        llong_range_def INT_MIN_def INT_MAX_def LLONG_MIN_def LLONG_MAX_def DEFAULT_TEST_PORT_def)
  then show "DeserializeConfigRequest (se_parse demo_server_env) m = Inr demo_test_config"
    by (simp add: demo_server_env_def DeserializeConfigRequest_def message_json_def codec_simps
        test_config.dec_enc)
  show "GetMessageType (se_parse demo_server_env) m = Inr MT_CONFIG_REQUEST"
    by (simp add: demo_server_env_def GetMessageType_message)
qed

lemma demo_launches: "launches demo_server_env k"
  by (simp add: launches_def demo_server_env_def demo_fs_def ValidateIpeftcPath_def
      IsExecutableResolvable_def FileExists_def GetIPEFTCPath_def)

lemma demo_gets_ready: "gets_ready demo_server_env k"
  by (simp add: gets_ready_def started_process_def demo_server_env_def demo_polls_def HasServerReadyMarker_def contains_sub_def
      SERVER_START_TIMEOUT_MS_def)

lemma demo_one_request:
  "ss_launched (snd (HandleClient demo_server_env demo_server (demo_requests [''a'']))) = [42]"
proof -
  let ?st = "new_session (demo_requests [''a''])"
  have "[] \<noteq> frame m" for m
    by (metis append_is_Nil_conv frame_def length_be32 list.size(3) zero_neq_numeral)
  then have "chunks_ok (ss_socket ?st)" "sk_stream (ss_socket ?st) = frame ''a'' @ []"
    by (simp_all add: new_session_def demo_requests_def chunks_ok_def sk_stream_def)
  from handle_loop_frame [OF this, of demo_server_env 0 demo_server] obtain sock where sock: "sk_stream sock = []"
    "\<And>out cs' st'. handle_message demo_server_env 0 ''a'' (demo_server, ?st\<lparr>ss_socket := sock\<rparr>) = (out, cs', st') \<Longrightarrow>
       handle_loop demo_server_env 0 (demo_server, ?st) =
         (if out = NextMessage then handle_loop demo_server_env (Suc 0) (cs', st') else (cs', st'))"
    by (auto simp: sendable_message_def MAX_MESSAGE_SIZE_def)
  obtain st1 where st1: "handle_config demo_server_env 0 ''a'' (?st\<lparr>ss_socket := sock\<rparr>) = (NextMessage, st1)"
    "ss_launched st1 = [42]"
  proof -
    have fork: "le_fork (se_launch demo_server_env 0) = 42" by (simp add: demo_server_env_def)
    have idle: "ss_launched ?st = []" "ph_startupOutput (ss_process ?st) = []"
      by (simp_all add: new_session_def new_ProcessHandles_def)
    from handle_config_ready [OF demo_launches demo_gets_ready demo_requests_read(2), of "?st\<lparr>ss_socket := sock\<rparr>" 0 "''a''"]
    show ?thesis using that by (auto simp: fork idle)
  qed
  have "sk_stream (ss_socket st1) = []" using handle_config_in [OF st1(1)] sock(1) by (simp add: sk_stream_def)
  from ReceiveMessage_closed [OF this] have "ss_launched (snd (handle_loop demo_server_env 1 (demo_server, st1))) = [42]"
    using st1(2) by (subst handle_loop.simps) (auto split: prod.split)
  moreover have "handle_loop demo_server_env 0 (demo_server, ?st) = handle_loop demo_server_env 1 (demo_server, st1)"
    using sock(2) st1(1) by (simp add: handle_message_config demo_requests_read)
  ultimately show ?thesis by (auto simp: HandleClient_def split: prod.split)
qed

theorem launched_reaped_witness:
  "ss_reaped (snd (HandleClient demo_server_env demo_server (demo_requests [''a'']))) = [42]"
  using launched_reaped [of demo_server_env demo_server "demo_requests [''a'']"
      "fst (HandleClient demo_server_env demo_server (demo_requests [''a'']))"
      "snd (HandleClient demo_server_env demo_server (demo_requests [''a'']))"] demo_one_request
  by (simp add: demo_server_env_def)

theorem second_config_leaks_witness:
  "let st = snd (HandleClient demo_server_env demo_server (demo_requests [''a'', ''b''])) in
   42 \<in> set (ss_launched st) \<and> 42 \<notin> set (ss_reaped st)"
  unfolding Let_def
proof (rule second_config_leaks [where rest = "[]" and cs = demo_server and
      cs' = "fst (HandleClient demo_server_env demo_server (demo_requests [''a'', ''b'']))"])
  have "be32 n \<noteq> []" for n by (metis length_be32 list.size(3) zero_neq_numeral)
  then show "[] \<notin> set (sk_in (demo_requests [''a'', ''b'']))"
    by (auto simp: demo_requests_def frame_def)
  show "gets_ready demo_server_env 0" by (rule demo_gets_ready)
qed (simp_all add: demo_requests_def demo_requests_read demo_launches sendable_message_def
    MAX_MESSAGE_SIZE_def, simp_all add: demo_server_env_def)

end
