(* ===== verification/ControlClient.thy ===== *)
theory ControlClient
  imports ControlServer
begin

section \<open>The control client of the test runner\<close>

text \<open>
  \<open>TestRunner/ControlClient.cpp\<close>: connecting and one test run. \<open>cl_connect\<close> gives the addresses
  \<open>getaddrinfo\<close> finds, each with the socket \<open>connect\<close> makes of it, if it can. \<open>cc_closed\<close> keeps the
  sockets that were closed and \<open>cc_started\<close> the command lines of the programs started; what
  \<open>RunTest\<close> prints, its pause of 200 ms and the callback \<open>beforeLaunch\<close>, which no caller passes, are
  left out.
\<close>

record client_env =
  cl_connect :: "string \<Rightarrow> int \<Rightarrow> Socket option list option"
  cl_fs :: file_system
  cl_override :: string
  cl_launch :: launch_env
  cl_reads :: "bytes list"
  cl_file :: "string \<Rightarrow> string option"
  cl_parse :: json_parser
  cl_dump :: json_printer

record ControlClient =
  cc_socket :: "Socket option"
  cc_closed :: "Socket list"
  cc_started :: "string list list"

definition new_ControlClient :: ControlClient where
  "new_ControlClient = \<lparr>cc_socket = None, cc_closed = [], cc_started = []\<rparr>"

fun try_addresses :: "Socket option list \<Rightarrow> Socket option \<Rightarrow> Socket option" where
  "try_addresses [] connectSocket = connectSocket"
| "try_addresses (ptr # ptrs) connectSocket = (if ptr = None then try_addresses ptrs None else ptr)"

definition Connect :: "client_env \<Rightarrow> string \<Rightarrow> int \<Rightarrow> ControlClient \<Rightarrow> bool \<times> ControlClient" where
  "Connect env serverIP port_number cc =
     (case cl_connect env serverIP port_number of
        None \<Rightarrow> (False, cc)
      | Some addresses \<Rightarrow>
          let s = try_addresses addresses (cc_socket cc)
          in (s \<noteq> None, cc\<lparr>cc_socket := s\<rparr>))"

definition Disconnect :: "ControlClient \<Rightarrow> ControlClient" where
  "Disconnect cc =
     (case cc_socket cc of
        None \<Rightarrow> cc
      | Some s \<Rightarrow> cc\<lparr>cc_socket := None, cc_closed := cc_closed cc @ [s]\<rparr>)"

definition client_SendMessage :: "string \<Rightarrow> ControlClient \<Rightarrow> bool \<times> ControlClient" where
  "client_SendMessage msg cc =
     (case cc_socket cc of
        None \<Rightarrow> (False, cc)
      | Some s \<Rightarrow> (case SendMessage msg s of (ok, s') \<Rightarrow> (ok, cc\<lparr>cc_socket := Some s'\<rparr>)))"

definition client_ReceiveMessage :: "ControlClient \<Rightarrow> string \<times> ControlClient" where
  "client_ReceiveMessage cc =
     (case cc_socket cc of
        None \<Rightarrow> ([], cc)
      | Some s \<Rightarrow> (case ReceiveMessage s of (msg, s') \<Rightarrow> (msg, cc\<lparr>cc_socket := Some s'\<rparr>)))"

subsection \<open>A test run\<close>

text \<open>Step 2: does the server report that it is ready?\<close>

definition await_server_ready :: "client_env \<Rightarrow> ControlClient \<Rightarrow> bool res \<times> ControlClient" where
  "await_server_ready env cc =
     (case client_ReceiveMessage cc of
        (respStr, cc) \<Rightarrow>
          (if respStr = [] then Inr False
           else case GetMessageType (cl_parse env) respStr of
                  Inl e \<Rightarrow> Inl e
                | Inr type \<Rightarrow>
                    if type = MT_ERROR_MESSAGE
                    then res_bind (DeserializeError (cl_parse env) respStr) (\<lambda>err. Inr False)
                    else if type \<noteq> MT_SERVER_READY then Inr False
                    else res_bind (DeserializeServerReady (cl_parse env) respStr) (\<lambda>ready. Inr True), cc))"

definition local_config :: "string \<Rightarrow> TestConfig \<Rightarrow> TestConfig" where
  "local_config serverIP cfg = cfg\<lparr>tc_targetIP := serverIP\<rparr>"

definition expected_bytes :: "TestConfig \<Rightarrow> int" where
  "expected_bytes cfg = tc_packetSize cfg * tc_numPackets cfg"

text \<open>
  Steps 3 to 5: the local ipeftc runs to its end; its result comes from the result file, else from
  its output. \<open>None\<close> is a failed launch.
\<close>

definition run_local_client ::
  "client_env \<Rightarrow> string \<Rightarrow> TestConfig \<Rightarrow> ControlClient \<Rightarrow> TestResult option res \<times> ControlClient" where
  "run_local_client env serverIP cfg cc =
     (case LaunchIPEFTCClient (cl_fs env) (cl_launch env) (GetIPEFTCPath (cl_fs env) (cl_override env))
             (local_config serverIP cfg) new_ProcessHandles of
        (False, h, argv) \<Rightarrow> (Inr None, cc)
      | (True, h, argv) \<Rightarrow>
          (case WaitForProcessAndCaptureOutput (cl_reads env) h of
             (clientOutput, h) \<Rightarrow>
               (res_bind
                 (case ParseResultFile (cl_parse env) (cl_file env) (local_config serverIP cfg) ''Client'' of
                    Inr r \<Rightarrow> Inr r
                  | Inl resultError \<Rightarrow> ParseOutput clientOutput ''Client'' (tc_port cfg))
                 (\<lambda>r. Inr (Some (AnalyzeTestResult (tc_numPackets cfg) (expected_bytes cfg) r))),
                cc\<lparr>cc_started := cc_started cc @ [the argv]\<rparr>)))"

text \<open>Steps 6 and 7: the results are exchanged.\<close>

definition exchange_results ::
  "client_env \<Rightarrow> TestConfig \<Rightarrow> TestResult \<Rightarrow> TestResult \<Rightarrow> ControlClient \<Rightarrow>
   bool res \<times> ControlClient \<times> TestResult" where
  "exchange_results env cfg clientResult serverResult cc =
     (case client_SendMessage
             (SerializeMessage (cl_dump env) (ResultsRequestMessage (tc_port cfg) clientResult)) cc of
        (False, cc) \<Rightarrow> (Inr False, cc, serverResult)
      | (True, cc) \<Rightarrow>
          (case client_ReceiveMessage cc of
             (respStr, cc) \<Rightarrow>
               if respStr = [] then (Inr False, cc, serverResult)
               else case GetMessageType (cl_parse env) respStr of
                      Inl e \<Rightarrow> (Inl e, cc, serverResult)
                    | Inr type \<Rightarrow>
                        if type \<noteq> MT_RESULTS_RESPONSE then (Inr False, cc, serverResult)
                        else case DeserializeResultsResponse (cl_parse env) respStr of
                               Inl e \<Rightarrow> (Inl e, cc, serverResult)
                             | Inr r \<Rightarrow> (Inr True, Disconnect cc,
                                 AnalyzeTestResult (tc_numPackets cfg) (expected_bytes cfg) r)))"

definition request_config :: "TestConfig \<Rightarrow> TestConfig" where
  "request_config cfg =
     (if tc_serverBindIP cfg = [] then cfg\<lparr>tc_serverBindIP := ''0.0.0.0''\<rparr> else cfg)"

text \<open>The result: whether the run went through, the client and both results.\<close>

definition RunTest ::
  "client_env \<Rightarrow> string \<Rightarrow> int \<Rightarrow> TestConfig \<Rightarrow> ControlClient \<Rightarrow> TestResult \<Rightarrow> TestResult \<Rightarrow>
   bool res \<times> ControlClient \<times> TestResult \<times> TestResult" where
  "RunTest env serverIP controlPort cfg cc clientResult serverResult =
     (case Connect env serverIP controlPort cc of
        (False, cc) \<Rightarrow> (Inr False, cc, clientResult, serverResult)
      | (True, cc) \<Rightarrow>
          case client_SendMessage
                 (SerializeMessage (cl_dump env) (ConfigRequestMessage (request_config cfg))) cc of
            (False, cc) \<Rightarrow> (Inr False, cc, clientResult, serverResult)
          | (True, cc) \<Rightarrow>
              case await_server_ready env cc of
                (Inl e, cc) \<Rightarrow> (Inl e, cc, clientResult, serverResult)
              | (Inr ready, cc) \<Rightarrow>
                  if \<not> ready then (Inr False, cc, clientResult, serverResult)
                  else case run_local_client env serverIP cfg cc of
                         (Inl e, cc) \<Rightarrow> (Inl e, cc, clientResult, serverResult)
                       | (Inr None, cc) \<Rightarrow> (Inr False, cc, clientResult, serverResult)
                       | (Inr (Some r), cc) \<Rightarrow>
                           (case exchange_results env cfg r serverResult cc of
                              (out, cc, s) \<Rightarrow> (out, cc, r, s)))"

subsection \<open>Frames on the wire\<close>

lemma be32_un_be32: "length d = 4 \<Longrightarrow> be32 (un_be32 d) = d"
  using le_encode_decode [of "rev d"] by (simp add: be32_def un_be32_def)

lemma ReceiveMessage_Some:
  assumes "ReceiveMessage s = (m, s')" and "m \<noteq> []"
  shows "sendable_message m" "sk_stream s = frame m @ sk_stream s'"
proof -
  from assms obtain d s1 where d: "RecvAll 4 s = (Some d, s1)" "RecvAll (un_be32 d) s1 = (Some m, s')"
      "un_be32 d \<le> MAX_MESSAGE_SIZE"
    by (auto simp: ReceiveMessage_def Let_def split: prod.splits option.splits if_splits)
  from RecvAll_Some [OF d(1)] RecvAll_Some [OF d(2)] d(3) assms(2)
  show "sendable_message m" "sk_stream s = frame m @ sk_stream s'"
    by (auto simp: sendable_message_def frame_def be32_un_be32)
qed

lemma frame_inject:
  assumes "frame m @ xs = frame n @ ys" and "sendable_message m" and "sendable_message n"
  shows "m = n" "xs = ys"
proof -
  have *: "be32 (length m) = be32 (length n)" "m @ xs = n @ ys"
    using assms(1) by (simp_all add: frame_def)
  have "un_be32 (be32 (length m)) = length m" "un_be32 (be32 (length n)) = length n"
    using assms(2,3) by (auto intro!: un_be32_be32 simp: sendable_message_def MAX_MESSAGE_SIZE_def)
  then have "length m = length n" using *(1) by metis
  with *(2) show "m = n" "xs = ys" by auto
qed

lemma frame_not_cut:
  assumes "frame m @ xs = take k (frame n)" and "k < length (frame n)" and "sendable_message m"
    and "length n \<le> MAX_MESSAGE_SIZE"
  shows False
proof -
  have "n \<noteq> []"
  proof
    assume "n = []"
    then have "k < 4" using assms(2) by (simp add: frame_def)
    moreover have "4 \<le> length (take k (frame n))" unfolding assms(1) [symmetric] by (simp add: frame_def)
    ultimately show False by simp
  qed
  then have n: "sendable_message n" using assms(4) by (simp add: sendable_message_def)
  have "frame m @ xs @ drop k (frame n) = frame n @ []"
    using assms(1) by (metis append.assoc append_Nil2 append_take_drop_id)
  from frame_inject [OF this assms(3) n] assms(2) show False by simp
qed

text \<open>A socket whose \<open>send\<close> fails only for good.\<close>

definition steady :: "Socket \<Rightarrow> bool" where
  "steady s \<longleftrightarrow> 0 \<notin> set (sk_send s)"

lemma SendAll_steady:
  "SendAll data s = (ok, s') \<Longrightarrow> steady s \<Longrightarrow>
     steady s' \<and> (\<exists>k. sk_out s' = sk_out s @ take k data \<and>
       (if ok then k = length data else k < length data \<and> sk_send s' = []))"
proof (induction data s rule: SendAll.induct)
  case (1 data s)
  show ?case
  proof (cases "data = []")
    case True
    then show ?thesis using "1.prems" by (auto simp: SendAll.simps [of "[]"])
  next
    case False
    obtain sent s1 where r: "sys_send data s = (sent, s1)" by force
    have s1: "sk_out s1 = sk_out s @ take sent data" "steady s1" "sent \<le> length data"
      "sent = 0 \<Longrightarrow> sk_send s1 = []"
      using r "1.prems"(2) False by (auto simp: sys_send_def steady_def min_def split: list.splits if_splits)
    show ?thesis
    proof (cases "sent = 0")
      case True
      then have "ok = False" "s' = s1"
        using "1.prems"(1) False r by (simp_all add: SendAll.simps [of data])
      then show ?thesis using s1 True False by (auto intro!: exI [of _ 0])
    next
      case sent: False
      with "1.prems"(1) False r have "SendAll (drop sent data) s1 = (ok, s')"
        by (subst (asm) SendAll.simps) simp
      from "1.IH" [OF False r [symmetric] sent this s1(2)] obtain k where k: "steady s'"
        "sk_out s' = sk_out s1 @ take k (drop sent data)"
        "if ok then k = length (drop sent data) else k < length (drop sent data) \<and> sk_send s' = []" by blast
      then show ?thesis using s1 by (intro conjI exI [of _ "sent + k"]) (auto simp: take_add split: if_splits)
    qed
  qed
qed

lemma SendMessage_steady:
  assumes "SendMessage m s = (ok, s')" and "steady s"
  shows "steady s' \<and>
    (ok \<and> length m \<le> MAX_MESSAGE_SIZE \<and> sk_out s' = sk_out s @ frame m \<or>
     \<not> ok \<and> MAX_MESSAGE_SIZE < length m \<and> s' = s \<or>
     \<not> ok \<and> length m \<le> MAX_MESSAGE_SIZE \<and> sk_send s' = [] \<and>
       (\<exists>k < length (frame m). sk_out s' = sk_out s @ take k (frame m)))"
proof (cases "MAX_MESSAGE_SIZE < length m")
  case True
  then show ?thesis using assms by (auto simp: SendMessage_def)
next
  case False
  obtain ok1 s1 where h: "SendAll (be32 (length m)) s = (ok1, s1)" by force
  from SendAll_steady [OF h assms(2)] obtain k where k: "steady s1" "sk_out s1 = sk_out s @ take k (be32 (length m))"
    "if ok1 then k = length (be32 (length m)) else k < length (be32 (length m)) \<and> sk_send s1 = []"
    by blast
  show ?thesis
  proof (cases ok1)
    case True
    with False h assms(1) have "SendAll m s1 = (ok, s')" by (simp add: SendMessage_def)
    from SendAll_steady [OF this k(1)] obtain j where "steady s'" "sk_out s' = sk_out s1 @ take j m"
      "if ok then j = length m else j < length m \<and> sk_send s' = []" by blast
    then show ?thesis using k True False
      by (cases ok) (auto simp: frame_def intro!: exI [of _ "4 + j"])
  next
    case ok1: False
    with False h assms(1) have "ok = False" "s' = s1" by (simp_all add: SendMessage_def)
    then show ?thesis using k ok1 False by (auto simp: frame_def intro!: exI [of _ k])
  qed
qed

text \<open>Messages sent one after the other whether or not each one goes through.\<close>

definition send_ignoring :: "string list \<Rightarrow> Socket \<Rightarrow> Socket" where
  "send_ignoring ms s = foldl (\<lambda>s m. snd (SendMessage m s)) s ms"

lemma send_ignoring_simps [simp]:
  "send_ignoring [] s = s" "send_ignoring (m # ms) s = send_ignoring ms (snd (SendMessage m s))"
  by (simp_all add: send_ignoring_def)

lemma SendMessage_closed:
  assumes "sk_send s = []"
  shows "snd (SendMessage m s) = s"
proof -
  have "SendAll (be32 n) s = (False, s)" for n
  proof -
    have "be32 n \<noteq> []" by (metis length_be32 list.size(3) zero_neq_numeral)
    then show ?thesis using assms by (cases "be32 n") (simp_all add: SendAll_rec sys_send_def)
  qed
  then show ?thesis by (simp add: SendMessage_def)
qed

lemma send_ignoring_closed: "sk_send s = [] \<Longrightarrow> send_ignoring ms s = s"
  by (induction ms) (simp_all add: SendMessage_closed)

lemma SendMessage_extends: "\<exists>out. sk_out (snd (SendMessage m s)) = sk_out s @ out"
proof (cases "SendAll (be32 (length m)) s")
  case (Pair ok s1)
  from SendAll_prefix [OF this] obtain k where k: "sk_out s1 = sk_out s @ take k (be32 (length m))" by blast
  obtain j where "sk_out (snd (SendAll m s1)) = sk_out s1 @ take j m"
    using SendAll_prefix [of m s1 "fst (SendAll m s1)" "snd (SendAll m s1)"] by auto
  then show ?thesis using Pair k by (cases ok) (auto simp: SendMessage_def)
qed

lemma send_ignoring_extends: "\<exists>out. sk_out (send_ignoring ms s) = sk_out s @ out"
proof (induction ms arbitrary: s)
  case (Cons m ms)
  obtain a where "sk_out (snd (SendMessage m s)) = sk_out s @ a" using SendMessage_extends by blast
  moreover obtain b where "sk_out (send_ignoring ms (snd (SendMessage m s))) = sk_out (snd (SendMessage m s)) @ b"
    using Cons by blast
  ultimately show ?case by simp
qed simp

text \<open>
  When as many whole messages arrive as were sent, they are the messages sent.
\<close>

lemma send_ignoring_frames:
  assumes "steady s" and "sk_out (send_ignoring ms s) = sk_out s @ concat (map frame rs) @ rest"
    and "\<forall>r \<in> set rs. sendable_message r" and "length ms \<le> length rs"
  shows "rs = ms"
  using assms
proof (induction ms arbitrary: s rs)
  case Nil
  have "frame r \<noteq> []" for r by (metis append_is_Nil_conv frame_def length_be32 list.size(3) zero_neq_numeral)
  with Nil show ?case by (cases rs) auto
next
  case (Cons m ms)
  then obtain r rs' where rs: "rs = r # rs'" by (cases rs) auto
  obtain ok s' where m: "SendMessage m s = (ok, s')" by force
  consider "length m \<le> MAX_MESSAGE_SIZE" "sk_out s' = sk_out s @ frame m" | "s' = s"
    | k where "length m \<le> MAX_MESSAGE_SIZE" "sk_send s' = []" "k < length (frame m)"
        "sk_out s' = sk_out s @ take k (frame m)"
    using SendMessage_steady [OF m Cons.prems(1)] by blast
  then show ?case
  proof cases
    case 1
    have st: "steady s'" using SendMessage_steady [OF m Cons.prems(1)] by blast
    obtain out where out: "sk_out (send_ignoring ms s') = sk_out s' @ out"
      using send_ignoring_extends by blast
    have *: "frame m @ out = frame r @ concat (map frame rs') @ rest"
      using Cons.prems(2) m 1 out rs by simp
    have "m \<noteq> []"
    proof
      assume "m = []"
      then have "be32 0 = be32 (length r)" using * by (simp add: frame_def)
      then have "un_be32 (be32 0) = un_be32 (be32 (length r))" by simp
      moreover have "sendable_message r" using Cons.prems(3) rs by simp
      ultimately show False by (simp add: un_be32_be32 sendable_message_def MAX_MESSAGE_SIZE_def)
    qed
    then have "sendable_message m" "sendable_message r"
      using 1(1) Cons.prems(3) rs by (auto simp: sendable_message_def)
    from frame_inject [OF * this] have "m = r" "out = concat (map frame rs') @ rest" .
    with Cons.IH [OF st, of rs'] Cons.prems(3,4) rs out show ?thesis by simp
  next
    case 2
    with Cons.IH [of s rs] Cons.prems m show ?thesis by simp
  next
    case 3
    have "take k (frame m) = frame r @ concat (map frame rs') @ rest"
      using Cons.prems(2) m 3 rs by (simp add: send_ignoring_closed)
    with frame_not_cut [of r "concat (map frame rs') @ rest" k m] 3 Cons.prems(3) rs show ?thesis by simp
  qed
qed

subsection \<open>Receiving and sending do not interfere\<close>

lemma sys_recv_in: "sys_recv n s = (d, s') \<Longrightarrow> \<exists>i. s' = s\<lparr>sk_in := i\<rparr>"
  by (auto simp: sys_recv_def split: list.splits intro: exI [of _ "sk_in s"])

lemma RecvAll_in: "RecvAll n s = (d, s') \<Longrightarrow> \<exists>i. s' = s\<lparr>sk_in := i\<rparr>"
proof (induction n s arbitrary: d rule: RecvAll.induct)
  case (1 n s)
  obtain e s1 where r: "sys_recv n s = (e, s1)" by force
  then obtain i where i: "s1 = s\<lparr>sk_in := i\<rparr>" using sys_recv_in by blast
  have "s = s\<lparr>sk_in := sk_in s\<rparr>" by simp
  then show ?case
    using "1.prems" "1.IH" [OF _ r [symmetric]] r i
    by (subst (asm) RecvAll.simps)
      (auto split: if_splits prod.splits option.splits, (metis Socket.surjective Socket.update_convs(1))+)
qed

lemma ReceiveMessage_in: "ReceiveMessage s = (m, s') \<Longrightarrow> \<exists>i. s' = s\<lparr>sk_in := i\<rparr>"
  by (fastforce simp: ReceiveMessage_def Let_def split: prod.splits option.splits if_splits dest: RecvAll_in)

lemma ReceiveMessage_out [simp]:
  "sk_out (snd (ReceiveMessage s)) = sk_out s" "sk_send (snd (ReceiveMessage s)) = sk_send s"
  using ReceiveMessage_in [of s "fst (ReceiveMessage s)" "snd (ReceiveMessage s)"] by auto

lemma sys_send_update: "sys_send data (s\<lparr>sk_in := i\<rparr>) = (case sys_send data s of (k, s') \<Rightarrow> (k, s'\<lparr>sk_in := i\<rparr>))"
  by (auto simp: sys_send_def split: list.splits)

lemma SendAll_update: "SendAll data (s\<lparr>sk_in := i\<rparr>) = (case SendAll data s of (ok, s') \<Rightarrow> (ok, s'\<lparr>sk_in := i\<rparr>))"
proof (induction data s rule: SendAll.induct)
  case (1 data s)
  obtain sent s1 where r: "sys_send data s = (sent, s1)" by force
  show ?case
    using "1.IH" [OF _ r [symmetric]] r
    by (subst (1 2) SendAll.simps) (simp add: sys_send_update)
qed

lemma SendMessage_update:
  "SendMessage m (s\<lparr>sk_in := i\<rparr>) = (fst (SendMessage m s), snd (SendMessage m s)\<lparr>sk_in := i\<rparr>)"
  by (auto simp: SendMessage_def SendAll_update split: prod.splits bool.splits)

lemma send_ignoring_update: "send_ignoring ms (s\<lparr>sk_in := i\<rparr>) = send_ignoring ms s\<lparr>sk_in := i\<rparr>"
  by (induction ms arbitrary: s) (simp_all add: SendMessage_update)

subsection \<open>The client's side of a run\<close>

lemma RunTest_True:
  assumes "RunTest env ip p cfg new_ControlClient cr0 sr0 = (Inr True, cc, cr, sr)"
  shows "\<exists>addresses s s1 s2 s3 s4 r1 r2 r. cl_connect env ip p = Some addresses \<and>
    try_addresses addresses None = Some s \<and>
    SendMessage (SerializeMessage (cl_dump env) (ConfigRequestMessage (request_config cfg))) s = (True, s1) \<and>
    ReceiveMessage s1 = (r1, s2) \<and> r1 \<noteq> [] \<and>
    SendMessage (SerializeMessage (cl_dump env) (ResultsRequestMessage (tc_port cfg) cr)) s2 = (True, s3) \<and>
    ReceiveMessage s3 = (r2, s4) \<and> r2 \<noteq> [] \<and>
    DeserializeResultsResponse (cl_parse env) r2 = Inr r \<and>
    sr = AnalyzeTestResult (tc_numPackets cfg) (expected_bytes cfg) r \<and>
    cc_closed cc = [s4] \<and>
    cc_started cc =
      [GetIPEFTCPath (cl_fs env) (cl_override env) # BuildClientArgs (local_config ip cfg)]"
proof -
  obtain addresses s where c: "cl_connect env ip p = Some addresses" "try_addresses addresses None = Some s"
  proof (cases "cl_connect env ip p")
    case (Some addresses)
    then show ?thesis using assms that
      by (cases "try_addresses addresses None") (auto simp: RunTest_def Connect_def new_ControlClient_def)
  qed (use assms in \<open>simp add: RunTest_def Connect_def\<close>)
  let ?m1 = "SerializeMessage (cl_dump env) (ConfigRequestMessage (request_config cfg))"
  obtain s1 where s1: "SendMessage ?m1 s = (True, s1)"
    using assms c by (auto simp: RunTest_def Connect_def new_ControlClient_def client_SendMessage_def
        split: prod.splits bool.splits)
  obtain r1 s2 where r1: "ReceiveMessage s1 = (r1, s2)" by force
  let ?cc = "\<lambda>s. \<lparr>cc_socket = Some s, cc_closed = [], cc_started = []\<rparr>"
  have step1: "RunTest env ip p cfg new_ControlClient cr0 sr0 =
      (case await_server_ready env (?cc s1) of
         (Inl e, cc) \<Rightarrow> (Inl e, cc, cr0, sr0)
       | (Inr ready, cc) \<Rightarrow>
           if \<not> ready then (Inr False, cc, cr0, sr0)
           else case run_local_client env ip cfg cc of
                  (Inl e, cc) \<Rightarrow> (Inl e, cc, cr0, sr0)
                | (Inr None, cc) \<Rightarrow> (Inr False, cc, cr0, sr0)
                | (Inr (Some r), cc) \<Rightarrow>
                    (case exchange_results env cfg r sr0 cc of (out, cc, s) \<Rightarrow> (out, cc, r, s)))"
    using c s1 by (simp add: RunTest_def Connect_def new_ControlClient_def client_SendMessage_def)
  obtain out cc1 where w: "await_server_ready env (?cc s1) = (out, cc1)" by force
  have out: "out = Inr True" using assms unfolding step1 w by (cases out) (auto split: if_splits)
  then have r1': "r1 \<noteq> []" "cc1 = ?cc s2"
    using w r1 by (auto simp: await_server_ready_def client_ReceiveMessage_def split: if_splits)
  obtain res cc2 where l: "run_local_client env ip cfg cc1 = (res, cc2)" by force
  obtain r0 where r0: "res = Inr (Some r0)"
    using assms unfolding step1 w out by (cases res) (auto simp: l split: option.splits)
  then have cc2: "cc2 = ?cc s2\<lparr>cc_started :=
      [GetIPEFTCPath (cl_fs env) (cl_override env) # BuildClientArgs (local_config ip cfg)]\<rparr>"
    using l r1' by (auto simp: run_local_client_def LaunchIPEFTCClient_def dest: launch_True
        split: bool.splits prod.splits)
  have e: "exchange_results env cfg r0 sr0 cc2 = (Inr True, cc, sr)" "r0 = cr"
    using assms unfolding step1 w out by (auto simp: l r0 split: prod.splits)
  let ?m2 = "SerializeMessage (cl_dump env) (ResultsRequestMessage (tc_port cfg) cr)"
  obtain s3 where s3: "SendMessage ?m2 s2 = (True, s3)"
    using e cc2 by (auto simp: exchange_results_def client_SendMessage_def split: prod.splits bool.splits)
  obtain r2 s4 where r2: "ReceiveMessage s3 = (r2, s4)" by force
  have "r2 \<noteq> [] \<and> (\<exists>r. DeserializeResultsResponse (cl_parse env) r2 = Inr r \<and>
      sr = AnalyzeTestResult (tc_numPackets cfg) (expected_bytes cfg) r) \<and> cc_closed cc = [s4] \<and>
      cc_started cc = cc_started cc2"
    using e s3 r2 cc2
    by (auto simp: exchange_results_def client_SendMessage_def client_ReceiveMessage_def Disconnect_def
        split: if_splits sum.splits)
  then show ?thesis using c s1 r1 r1' s3 r2 cc2 by auto
qed

subsection \<open>The server's side of a run\<close>

lemma handle_config_reply:
  assumes "DeserializeConfigRequest (se_parse env) msg = Inr c"
  shows "\<exists>R st'. handle_config env k msg st = (NextMessage, st') \<and>
    ss_socket st' = snd (SendMessage R (ss_socket st))"
proof -
  obtain ok h argv where l: "LaunchIPEFTCServer (se_fs env) (se_launch env k)
      (GetIPEFTCPath (se_fs env) (se_override env)) c (ss_process st) = (ok, h, argv)"
    by (metis prod_cases3)
  have "\<exists>R. ss_socket (wait_ready env k c s) = snd (SendMessage R (ss_socket s))" for s
    by (auto simp: wait_ready_def reply_def Let_def split: prod.splits)
  then obtain R where R: "ss_socket (wait_ready env k c s) = snd (SendMessage R (ss_socket s))"
    if "s = st\<lparr>ss_config := c, ss_process := h, ss_running := True, ss_testPort := tc_port c,
      ss_launched := ss_launched st @ [ph_pid h]\<rparr>" for s by blast
  show ?thesis
  proof (cases ok)
    case True
    then show ?thesis using assms l R [OF refl] by (intro exI [of _ R]) (simp add: handle_config_def)
  next
    case False
    then show ?thesis using assms l by (fastforce simp: handle_config_def reply_def)
  qed
qed

lemma handle_results_reply:
  assumes "DeserializeResultsRequest (se_parse env) msg = Inr (p, cr)"
    and "handle_results env k msg (cs, st) = (out, cs', st')"
  shows "ss_socket st' = ss_socket st \<and> out \<noteq> NextMessage \<or>
    (\<exists>r. out = LeaveLoop \<and> cs_history cs' = cs_history cs @ [(cr, r)] \<and>
      ss_socket st' =
        snd (SendMessage (SerializeMessage (se_dump env) (ResultsResponseMessage r)) (ss_socket st)))"
proof -
  obtain r st1 where s: "server_result env k st = (r, st1)" by force
  have "ss_socket st1 = ss_socket st"
    using s by (auto simp: server_result_def Let_def split: if_splits prod.splits)
  with s assms show ?thesis
    by (cases r) (auto simp: handle_results_def reply_def)
qed

lemma HandleClient_two_messages:
  assumes "HandleClient env cs sock = (cs', st)"
    and "chunks_ok sock" and "sk_stream sock = frame m1 @ frame m2"
    and "sendable_message m1" "sendable_message m2"
    and "GetMessageType (se_parse env) m1 = Inr MT_CONFIG_REQUEST"
    and "DeserializeConfigRequest (se_parse env) m1 = Inr c"
    and "GetMessageType (se_parse env) m2 = Inr MT_RESULTS_REQUEST"
    and "DeserializeResultsRequest (se_parse env) m2 = Inr (p, cr)"
  shows "\<exists>R1. sk_out (ss_socket st) = sk_out (send_ignoring [R1] sock) \<or>
    (\<exists>r. cs_history cs' = cs_history cs @ [(cr, r)] \<and>
      sk_out (ss_socket st) = sk_out (send_ignoring
        [R1, SerializeMessage (se_dump env) (ResultsResponseMessage r)] sock))"
proof -
  let ?st = "new_session sock"
  have "chunks_ok (ss_socket ?st)" "sk_stream (ss_socket ?st) = frame m1 @ frame m2"
    using assms(2,3) by (simp_all add: new_session_def)
  from ReceiveMessage_frame [OF this assms(4)] obtain s1 where
    s1: "ReceiveMessage sock = (m1, s1)" "chunks_ok s1" "sk_stream s1 = frame m2"
    by (auto simp: new_session_def)
  obtain i1 where i1: "s1 = sock\<lparr>sk_in := i1\<rparr>" using ReceiveMessage_in [OF s1(1)] by blast
  obtain R1 st1 where h1: "handle_config env 0 m1 (?st\<lparr>ss_socket := s1\<rparr>) = (NextMessage, st1)"
    "ss_socket st1 = snd (SendMessage R1 s1)"
    using handle_config_reply [OF assms(7)] by fastforce
  have ne: "m1 \<noteq> []" "m2 \<noteq> []" using assms(4,5) by (auto simp: sendable_message_def)
  have loop1: "handle_loop env 0 (cs, ?st) = handle_loop env 1 (cs, st1)"
  proof -
    have "ReceiveMessage (ss_socket ?st) = (m1, s1)" using s1(1) by (simp add: new_session_def)
    then show ?thesis
      using h1(1) ne assms(6) by (subst handle_loop.simps) (simp add: handle_message_config)
  qed
  have sk: "sk_in (ss_socket st1) = sk_in s1" using h1(2) by simp
  then have "chunks_ok (ss_socket st1)" "sk_stream (ss_socket st1) = frame m2 @ []"
    using s1(2,3) by (simp_all add: chunks_ok_def sk_stream_def)
  from ReceiveMessage_frame [OF this assms(5)] obtain s2 where
    s2: "ReceiveMessage (ss_socket st1) = (m2, s2)" by blast
  obtain i2 where i2: "s2 = (ss_socket st1)\<lparr>sk_in := i2\<rparr>" using ReceiveMessage_in [OF s2] by blast
  obtain out cs2 st2 where h2: "handle_results env 1 m2 (cs, st1\<lparr>ss_socket := s2\<rparr>) = (out, cs2, st2)"
    by (metis prod_cases3)
  note reply = handle_results_reply [OF assms(9) h2]
  then have "handle_loop env 1 (cs, st1) = (cs2, st2)"
    using s2 h2 ne assms(8) by (subst handle_loop.simps) (auto simp: handle_message_def)
  then have fin: "cs' = cs2" "ss_socket st = ss_socket st2"
    using assms(1) loop1 by (auto simp: HandleClient_def)
  have sock1: "ss_socket st1 = send_ignoring [R1] sock\<lparr>sk_in := i1\<rparr>"
    using h1(2) i1 by (simp add: SendMessage_update)
  show ?thesis
    using reply unfolding fin
    by (intro exI [of _ R1]) (auto simp: i2 sock1 SendMessage_update)
qed

subsection \<open>Both sides of a run\<close>

text \<open>A message that the JSON libraries of both sides agree on, and that fits into a frame.\<close>

definition carried :: "json_printer \<Rightarrow> json_parser \<Rightarrow> RunnerMessage \<Rightarrow> bool" where
  "carried dump parse m \<longleftrightarrow> message_ok m \<and> sendable_message (SerializeMessage dump m) \<and>
     parse (SerializeMessage dump m) = Inr (message_json m)"

lemma carried_type: "carried dump parse m \<Longrightarrow> GetMessageType parse (SerializeMessage dump m) = Inr (message_type m)"
  by (simp add: carried_def GetMessageType_message)

lemma carried_sendable: "carried dump parse m \<Longrightarrow> sendable_message (SerializeMessage dump m)"
  by (simp add: carried_def)

lemma carried_config:
  "carried dump parse (ConfigRequestMessage c) \<Longrightarrow>
     DeserializeConfigRequest parse (SerializeMessage dump (ConfigRequestMessage c)) = Inr c"
  by (simp add: carried_def DeserializeConfigRequest_def message_json_def codec_simps test_config.dec_enc)

lemma carried_request:
  "carried dump parse (ResultsRequestMessage p r) \<Longrightarrow>
     DeserializeResultsRequest parse (SerializeMessage dump (ResultsRequestMessage p r)) = Inr (p, r)"
  by (simp add: carried_def DeserializeResultsRequest_def message_json_def codec_simps test_result.dec_enc
      del: get_signed.simps)

lemma carried_response:
  "carried dump parse (ResultsResponseMessage r) \<Longrightarrow>
     DeserializeResultsResponse parse (SerializeMessage dump (ResultsResponseMessage r)) = Inr r"
  by (simp add: carried_def DeserializeResultsResponse_def message_json_def codec_simps test_result.dec_enc)

lemma carried_ready:
  "carried dump parse (ServerReadyMessage p ip) \<Longrightarrow>
     DeserializeServerReady parse (SerializeMessage dump (ServerReadyMessage p ip)) = Inr (p, ip)"
  by (simp add: carried_def DeserializeServerReady_def message_json_def codec_simps del: get_signed.simps)

text \<open>
  C23: when a test run goes through for the client, the server's history has gained exactly one
  entry, the client's own result beside the server's; and what the client takes for the server's
  result is the client's verdict on that entry. So both sides report the same two results, whatever
  else happened on the way.
\<close>

theorem test_run_agrees:
  assumes "RunTest cenv ip p cfg new_ControlClient cr0 sr0 = (Inr True, cc, cr, sr)"
    and "HandleClient senv cs ssock = (cs', st)"
    and "cl_connect cenv ip p = Some [Some csock]"
    and "sk_out csock = []" and "sk_out ssock = []" and "0 \<notin> set (sk_send ssock)"
    and "[] \<notin> set (sk_in ssock)" and "cc_closed cc = [csock']"
    and "concat (sk_in ssock) = sk_out csock'" and "concat (sk_in csock) = sk_out (ss_socket st)"
    and "carried (cl_dump cenv) (se_parse senv) (ConfigRequestMessage (request_config cfg))"
    and "carried (cl_dump cenv) (se_parse senv) (ResultsRequestMessage (tc_port cfg) cr)"
    and "\<And>c r. (c, r) \<in> set (cs_history cs') \<Longrightarrow>
        carried (se_dump senv) (cl_parse cenv) (ResultsResponseMessage r)"
  shows "\<exists>r. cs_history cs' = cs_history cs @ [(cr, r)] \<and>
    sr = AnalyzeTestResult (tc_numPackets cfg) (tc_packetSize cfg * tc_numPackets cfg) r"
proof -
  let ?m1 = "SerializeMessage (cl_dump cenv) (ConfigRequestMessage (request_config cfg))"
  let ?m2 = "SerializeMessage (cl_dump cenv) (ResultsRequestMessage (tc_port cfg) cr)"
  obtain s1 s2 s3 r1 r2 r where c: "SendMessage ?m1 csock = (True, s1)"
    "ReceiveMessage s1 = (r1, s2)" "r1 \<noteq> []" "SendMessage ?m2 s2 = (True, s3)"
    "ReceiveMessage s3 = (r2, csock')" "r2 \<noteq> []" "DeserializeResultsResponse (cl_parse cenv) r2 = Inr r"
    "sr = AnalyzeTestResult (tc_numPackets cfg) (expected_bytes cfg) r"
    using RunTest_True [OF assms(1)] assms(3,8) by auto
  note rcv = ReceiveMessage_Some [OF c(2,3)] ReceiveMessage_Some [OF c(5,6)]
  have out: "sk_out csock' = frame ?m1 @ frame ?m2"
    using SendMessage_True(2) [OF c(1)] SendMessage_True(2) [OF c(4)] assms(4)
      ReceiveMessage_out(1) [of s1] ReceiveMessage_out(1) [of s3] c(2,5) by simp
  have "sk_stream s1 = sk_stream csock" "sk_stream s3 = sk_stream s2"
    using SendMessage_in [of ?m1 csock] SendMessage_in [of ?m2 s2] c(1,4) by (simp_all add: sk_stream_def)
  then have inp: "sk_out (ss_socket st) = frame r1 @ frame r2 @ sk_stream csock'"
    using rcv assms(10) by (simp add: sk_stream_def)
  have stream: "chunks_ok ssock" "sk_stream ssock = frame ?m1 @ frame ?m2"
    using assms(7,9) out by (simp_all add: chunks_ok_def sk_stream_def)
  have types: "GetMessageType (se_parse senv) ?m1 = Inr MT_CONFIG_REQUEST"
    "GetMessageType (se_parse senv) ?m2 = Inr MT_RESULTS_REQUEST"
    using carried_type [OF assms(11)] carried_type [OF assms(12)] by simp_all
  from HandleClient_two_messages [OF assms(2) stream carried_sendable [OF assms(11)]
      carried_sendable [OF assms(12)] types(1) carried_config [OF assms(11)] types(2)
      carried_request [OF assms(12)]]
  obtain R1 r' where h: "sk_out (ss_socket st) = sk_out (send_ignoring [R1] ssock) \<or>
      cs_history cs' = cs_history cs @ [(cr, r')] \<and>
      sk_out (ss_socket st) = sk_out (send_ignoring
        [R1, SerializeMessage (se_dump senv) (ResultsResponseMessage r')] ssock)"
    by blast
  have match: "[r1, r2] = ms" if "sk_out (ss_socket st) = sk_out (send_ignoring ms ssock)" "length ms \<le> 2" for ms
    using that inp assms(5,6) rcv
    by (intro send_ignoring_frames [where s = ssock and rest = "sk_stream csock'"]) (auto simp: steady_def)
  from match [of "[R1]"] h have h': "cs_history cs' = cs_history cs @ [(cr, r')]"
    "sk_out (ss_socket st) = sk_out (send_ignoring
        [R1, SerializeMessage (se_dump senv) (ResultsResponseMessage r')] ssock)" by auto
  from match [OF h'(2)] have "r2 = SerializeMessage (se_dump senv) (ResultsResponseMessage r')" by simp
  with carried_response [OF assms(13), of cr r'] h'(1) c(7) have "r = r'" by simp
  with h'(1) c(8) show ?thesis by (auto simp: expected_bytes_def)
qed

subsection \<open>A run without failures\<close>

text \<open>Enough calls of \<open>send\<close> are accepted, each for at least one byte.\<close>

lemma SendAll_room:
  "steady s \<Longrightarrow> length data \<le> length (sk_send s) \<Longrightarrow>
     \<exists>s'. SendAll data s = (True, s') \<and> steady s' \<and> length (sk_send s) \<le> length (sk_send s') + length data"
proof (induction data s rule: SendAll.induct)
  case (1 data s)
  show ?case
  proof (cases "data = []")
    case True
    then show ?thesis using "1.prems" by (simp add: SendAll.simps [of "[]"])
  next
    case False
    then obtain k ks where k: "sk_send s = k # ks" "0 < k"
      using "1.prems" by (cases "sk_send s") (auto simp: steady_def)
    let ?sent = "min k (length data)"
    let ?s1 = "s\<lparr>sk_send := ks, sk_out := sk_out s @ take ?sent data\<rparr>"
    have r: "sys_send data s = (?sent, ?s1)" using k by (simp add: sys_send_def)
    have sent: "?sent \<noteq> 0" using k False by simp
    have "steady ?s1" "length (drop ?sent data) \<le> length (sk_send ?s1)"
      using "1.prems" k by (auto simp: steady_def)
    from "1.IH" [OF False r [symmetric] sent this] obtain s' where
      s': "SendAll (drop ?sent data) ?s1 = (True, s')" "steady s'"
      "length (sk_send ?s1) \<le> length (sk_send s') + length (drop ?sent data)" by blast
    have "SendAll data s = (True, s')"
      using False r sent s'(1) by (subst SendAll.simps) simp
    moreover have "length (drop ?sent data) + 1 \<le> length data" using k(2) False by (cases data) auto
    ultimately show ?thesis using s' k(1) by simp
  qed
qed

lemma SendMessage_room:
  assumes "steady s" and "length (frame m) \<le> length (sk_send s)" and "sendable_message m"
  shows "\<exists>s'. SendMessage m s = (True, s') \<and> steady s' \<and> sk_in s' = sk_in s \<and>
    sk_out s' = sk_out s @ frame m \<and> length (sk_send s) \<le> length (sk_send s') + length (frame m)"
proof -
  have len: "length (frame m) = 4 + length m" by (simp add: frame_def)
  obtain s1 where s1: "SendAll (be32 (length m)) s = (True, s1)" "steady s1"
    "length (sk_send s) \<le> length (sk_send s1) + 4"
    using SendAll_room [of s "be32 (length m)"] assms(1,2) len by auto
  obtain s2 where s2: "SendAll m s1 = (True, s2)" "steady s2"
    "length (sk_send s1) \<le> length (sk_send s2) + length m"
    using SendAll_room [of s1 m] s1 assms(2) len by auto
  have "SendMessage m s = (True, s2)"
    using s1(1) s2(1) assms(3) by (simp add: SendMessage_def sendable_message_def)
  then show ?thesis
    using SendMessage_True(2) [of m s s2] SendMessage_in [of m s] s1(3) s2(2,3) len by auto
qed

lemma HandleClient_completes:
  assumes "launches env 0" and "gets_ready env 0"
    and "chunks_ok sock" and "sk_stream sock = frame m1 @ frame m2"
    and "sendable_message m1" "sendable_message m2"
    and "GetMessageType (se_parse env) m1 = Inr MT_CONFIG_REQUEST"
    and "DeserializeConfigRequest (se_parse env) m1 = Inr c"
    and "GetMessageType (se_parse env) m2 = Inr MT_RESULTS_REQUEST"
    and "DeserializeResultsRequest (se_parse env) m2 = Inr (p, cr)"
    and "ParseResultFile (se_parse env) (se_file env 1) c ''Server'' = Inr r"
  shows "\<exists>cs' st. HandleClient env cs sock = (cs', st) \<and>
    cs_history cs' = cs_history cs @ [(cr, r)] \<and>
    ss_launched st = [le_fork (se_launch env 0)] \<and> ss_reaped st = ss_launched st \<and>
    sk_out (ss_socket st) = sk_out (send_ignoring
      [SerializeMessage (se_dump env) (ServerReadyMessage (tc_port c) (tc_serverBindIP c)),
       SerializeMessage (se_dump env) (ResultsResponseMessage r)] sock)"
proof -
  let ?st = "new_session sock"
  have "chunks_ok (ss_socket ?st)" "sk_stream (ss_socket ?st) = frame m1 @ frame m2"
    using assms(3,4) by (simp_all add: new_session_def)
  from ReceiveMessage_frame [OF this assms(5)] obtain s1 where
    s1: "ReceiveMessage (ss_socket ?st) = (m1, s1)" "chunks_ok s1" "sk_stream s1 = frame m2" by auto
  obtain i1 where i1: "s1 = sock\<lparr>sk_in := i1\<rparr>"
    using ReceiveMessage_in [OF s1(1)] by (auto simp: new_session_def)
  let ?R1 = "ServerReadyMessage (tc_port c) (tc_serverBindIP c)"
  obtain h where h: "handle_config env 0 m1 (?st\<lparr>ss_socket := s1\<rparr>) = (NextMessage,
      reply env ?R1 (?st\<lparr>ss_socket := s1, ss_config := c, ss_running := True, ss_testPort := tc_port c,
        ss_launched := [le_fork (se_launch env 0)], ss_process := h\<rparr>))" "ph_pid h = le_fork (se_launch env 0)"
    using handle_config_ready [OF assms(1,2,8), of "?st\<lparr>ss_socket := s1\<rparr>"]
    by (auto simp: new_session_def new_ProcessHandles_def)
  define st1 where "st1 = reply env ?R1 (?st\<lparr>ss_socket := s1, ss_config := c, ss_running := True,
    ss_testPort := tc_port c, ss_launched := [le_fork (se_launch env 0)], ss_process := h\<rparr>)"
  have ne: "m1 \<noteq> []" "m2 \<noteq> []" using assms(5,6) by (auto simp: sendable_message_def)
  have loop1: "handle_loop env 0 (cs, ?st) = handle_loop env 1 (cs, st1)"
    using s1(1) h(1) ne assms(7) by (subst handle_loop.simps) (simp add: handle_message_config st1_def)
  have sock1: "ss_socket st1 = snd (SendMessage (SerializeMessage (se_dump env) ?R1) s1)"
    by (simp add: st1_def reply_def)
  then have "chunks_ok (ss_socket st1)" "sk_stream (ss_socket st1) = frame m2 @ []"
    using s1(2,3) by (simp_all add: chunks_ok_def sk_stream_def)
  from ReceiveMessage_frame [OF this assms(6)] obtain s2 where
    s2: "ReceiveMessage (ss_socket st1) = (m2, s2)" by blast
  obtain i2 where i2: "s2 = (ss_socket st1)\<lparr>sk_in := i2\<rparr>" using ReceiveMessage_in [OF s2] by blast
  obtain r' st2 where sr: "server_result env 1 (st1\<lparr>ss_socket := s2\<rparr>) = (r', st2)" by force
  have st2: "r' = Inr r" "ss_socket st2 = s2" "ss_running st2 = False"
    "ss_launched st2 = [le_fork (se_launch env 0)]" "ss_reaped st2 = [le_fork (se_launch env 0)]"
    using sr assms(11) h(2)
    by (auto simp: server_result_def st1_def reply_def Let_def new_session_def split: prod.splits)
  have "handle_loop env 1 (cs, st1) = (cs\<lparr>cs_history := cs_history cs @ [(cr, r)]\<rparr>,
      reply env (ResultsResponseMessage r) st2)"
    using s2 sr st2(1) ne assms(9,10)
    by (subst handle_loop.simps) (simp add: handle_message_def handle_results_def)
  then have "HandleClient env cs sock = (cs\<lparr>cs_history := cs_history cs @ [(cr, r)]\<rparr>,
      reply env (ResultsResponseMessage r) st2)"
    using loop1 st2(3) by (simp add: HandleClient_def)
  moreover have "sk_out (ss_socket (reply env (ResultsResponseMessage r) st2)) = sk_out (send_ignoring
      [SerializeMessage (se_dump env) ?R1, SerializeMessage (se_dump env) (ResultsResponseMessage r)] sock)"
    by (simp add: reply_def st2(2) i2 sock1 i1 SendMessage_update)
  ultimately show ?thesis using st2(4,5) by simp
qed

lemma send_ignoring_two:
  assumes "steady s" and "length (frame m1 @ frame m2) \<le> length (sk_send s)"
    and "sendable_message m1" and "sendable_message m2"
  shows "sk_out (send_ignoring [m1, m2] s) = sk_out s @ frame m1 @ frame m2"
proof -
  obtain s1 where s1: "SendMessage m1 s = (True, s1)" "steady s1" "sk_out s1 = sk_out s @ frame m1"
    "length (sk_send s) \<le> length (sk_send s1) + length (frame m1)"
    using SendMessage_room [OF assms(1) _ assms(3)] assms(2) by auto
  with SendMessage_room [OF s1(2) _ assms(4)] assms(2) show ?thesis by fastforce
qed

lemma local_client_result:
  "fst (run_local_client env ip cfg cc) = Inr (Some r) \<Longrightarrow>
     \<exists>a. run_local_client env ip cfg cc' = (Inr (Some r), cc'\<lparr>cc_started := cc_started cc' @ [a]\<rparr>)"
  by (auto simp: run_local_client_def split: prod.splits bool.splits)

lemma RunTest_completes:
  assumes "cl_connect env ip p = Some [Some s]"
    and "SendMessage (SerializeMessage (cl_dump env) (ConfigRequestMessage (request_config cfg))) s = (True, s1)"
    and "ReceiveMessage s1 = (r1, s2)" and "r1 \<noteq> []"
    and "GetMessageType (cl_parse env) r1 = Inr MT_SERVER_READY"
    and "DeserializeServerReady (cl_parse env) r1 = Inr q"
    and "fst (run_local_client env ip cfg new_ControlClient) = Inr (Some cr)"
    and "SendMessage (SerializeMessage (cl_dump env) (ResultsRequestMessage (tc_port cfg) cr)) s2 = (True, s3)"
    and "ReceiveMessage s3 = (r2, s4)" and "r2 \<noteq> []"
    and "GetMessageType (cl_parse env) r2 = Inr MT_RESULTS_RESPONSE"
    and "DeserializeResultsResponse (cl_parse env) r2 = Inr r"
  shows "\<exists>cc. RunTest env ip p cfg new_ControlClient cr0 sr0 =
    (Inr True, cc, cr, AnalyzeTestResult (tc_numPackets cfg) (expected_bytes cfg) r)"
proof -
  have "await_server_ready env (new_ControlClient\<lparr>cc_socket := Some s1\<rparr>) =
      (Inr True, new_ControlClient\<lparr>cc_socket := Some s2\<rparr>)"
    using assms(3-6) by (simp add: await_server_ready_def client_ReceiveMessage_def)
  moreover obtain a where "run_local_client env ip cfg (new_ControlClient\<lparr>cc_socket := Some s2\<rparr>) =
      (Inr (Some cr), new_ControlClient\<lparr>cc_socket := Some s2, cc_started := a\<rparr>)"
    using local_client_result [OF assms(7), of "new_ControlClient\<lparr>cc_socket := Some s2\<rparr>"] by auto
  moreover obtain cc where "exchange_results env cfg cr sr0 (new_ControlClient\<lparr>cc_socket := Some s2, cc_started := a\<rparr>) =
      (Inr True, cc, AnalyzeTestResult (tc_numPackets cfg) (expected_bytes cfg) r)"
    using assms(8-12) by (simp add: exchange_results_def client_SendMessage_def client_ReceiveMessage_def)
  ultimately show ?thesis
    using assms(1,2) by (simp add: RunTest_def Connect_def client_SendMessage_def)
qed

text \<open>
  What a run needs to go through: the server can launch ipeftc and it becomes ready, the client's own
  ipeftc gives a result \<open>cr\<close>, the server's result file gives \<open>r\<close>, and the connection accepts the four
  messages and delivers what the other side sent.
\<close>

definition client_messages :: "TestConfig \<Rightarrow> TestResult \<Rightarrow> RunnerMessage list" where
  "client_messages cfg cr =
     [ConfigRequestMessage (request_config cfg), ResultsRequestMessage (tc_port cfg) cr]"

definition server_messages :: "TestConfig \<Rightarrow> TestResult \<Rightarrow> RunnerMessage list" where
  "server_messages cfg r =
     [ServerReadyMessage (tc_port cfg) (tc_serverBindIP (request_config cfg)), ResultsResponseMessage r]"

definition frames :: "json_printer \<Rightarrow> RunnerMessage list \<Rightarrow> bytes" where
  "frames dump ms = concat (map (\<lambda>m. frame (SerializeMessage dump m)) ms)"

definition good_run ::
  "client_env \<Rightarrow> server_env \<Rightarrow> string \<Rightarrow> int \<Rightarrow> TestConfig \<Rightarrow> Socket \<Rightarrow> Socket \<Rightarrow> TestResult \<Rightarrow> TestResult \<Rightarrow> bool" where
  "good_run cenv senv ip p cfg csock ssock cr r \<longleftrightarrow>
     launches senv 0 \<and> gets_ready senv 0 \<and> cl_connect cenv ip p = Some [Some csock] \<and>
     fst (run_local_client cenv ip cfg new_ControlClient) = Inr (Some cr) \<and>
     ParseResultFile (se_parse senv) (se_file senv 1) (request_config cfg) ''Server'' = Inr r \<and>
     list_all (carried (cl_dump cenv) (se_parse senv)) (client_messages cfg cr) \<and>
     list_all (carried (se_dump senv) (cl_parse cenv)) (server_messages cfg r) \<and>
     steady csock \<and> length (frames (cl_dump cenv) (client_messages cfg cr)) \<le> length (sk_send csock) \<and>
     steady ssock \<and> length (frames (se_dump senv) (server_messages cfg r)) \<le> length (sk_send ssock) \<and>
     sk_out csock = [] \<and> sk_out ssock = [] \<and> chunks_ok csock \<and> chunks_ok ssock \<and>
     sk_stream ssock = frames (cl_dump cenv) (client_messages cfg cr)"

lemma good_run_server:
  assumes "good_run cenv senv ip p cfg csock ssock cr r"
  shows "\<exists>cs' st. HandleClient senv cs ssock = (cs', st) \<and> cs_history cs' = cs_history cs @ [(cr, r)] \<and>
    ss_launched st = [le_fork (se_launch senv 0)] \<and> ss_reaped st = ss_launched st \<and>
    sk_out (ss_socket st) = frames (se_dump senv) (server_messages cfg r)"
proof -
  let ?m1 = "ConfigRequestMessage (request_config cfg)" and ?m2 = "ResultsRequestMessage (tc_port cfg) cr"
  let ?r1 = "ServerReadyMessage (tc_port cfg) (tc_serverBindIP (request_config cfg))"
  let ?r2 = "ResultsResponseMessage r"
  have c: "carried (cl_dump cenv) (se_parse senv) ?m1" "carried (cl_dump cenv) (se_parse senv) ?m2"
    "carried (se_dump senv) (cl_parse cenv) ?r1" "carried (se_dump senv) (cl_parse cenv) ?r2"
    and g: "launches senv 0" "gets_ready senv 0" "chunks_ok ssock"
      "ParseResultFile (se_parse senv) (se_file senv 1) (request_config cfg) ''Server'' = Inr r"
      "steady ssock" "length (frames (se_dump senv) (server_messages cfg r)) \<le> length (sk_send ssock)"
      "sk_out ssock = []"
    and s: "sk_stream ssock =
      frame (SerializeMessage (cl_dump cenv) ?m1) @ frame (SerializeMessage (cl_dump cenv) ?m2)"
    using assms by (simp_all add: good_run_def client_messages_def server_messages_def frames_def)
  have "GetMessageType (se_parse senv) (SerializeMessage (cl_dump cenv) ?m1) = Inr MT_CONFIG_REQUEST"
    "GetMessageType (se_parse senv) (SerializeMessage (cl_dump cenv) ?m2) = Inr MT_RESULTS_REQUEST"
    using c(1,2) [THEN carried_type] by simp_all
  note h = HandleClient_completes [OF g(1-3) s carried_sendable [OF c(1)] carried_sendable [OF c(2)]
      this(1) carried_config [OF c(1)] this(2) carried_request [OF c(2)] g(4)]
  have "tc_port (request_config cfg) = tc_port cfg" by (simp add: request_config_def)
  moreover have "sk_out (send_ignoring
      [SerializeMessage (se_dump senv) ?r1, SerializeMessage (se_dump senv) ?r2] ssock) =
      frames (se_dump senv) (server_messages cfg r)"
    using send_ignoring_two [OF g(5) _ carried_sendable [OF c(3)] carried_sendable [OF c(4)]] g(6,7)
    by (simp add: frames_def server_messages_def)
  ultimately show ?thesis using h [of cs] by metis
qed

lemma good_run_client:
  assumes "good_run cenv senv ip p cfg csock ssock cr r"
    and "sk_stream csock = frames (se_dump senv) (server_messages cfg r)"
  shows "\<exists>cc. RunTest cenv ip p cfg new_ControlClient cr0 sr0 =
      (Inr True, cc, cr, AnalyzeTestResult (tc_numPackets cfg) (tc_packetSize cfg * tc_numPackets cfg) r)"
proof -
  let ?m1 = "ConfigRequestMessage (request_config cfg)" and ?m2 = "ResultsRequestMessage (tc_port cfg) cr"
  let ?r1 = "ServerReadyMessage (tc_port cfg) (tc_serverBindIP (request_config cfg))"
  let ?r2 = "ResultsResponseMessage r"
  let ?cs = "SerializeMessage (cl_dump cenv)" and ?ss = "SerializeMessage (se_dump senv)"
  have c: "carried (cl_dump cenv) (se_parse senv) ?m1" "carried (cl_dump cenv) (se_parse senv) ?m2"
    "carried (se_dump senv) (cl_parse cenv) ?r1" "carried (se_dump senv) (cl_parse cenv) ?r2"
    and g: "cl_connect cenv ip p = Some [Some csock]"
      "fst (run_local_client cenv ip cfg new_ControlClient) = Inr (Some cr)"
      "steady csock" "length (frame (?cs ?m1)) + length (frame (?cs ?m2)) \<le> length (sk_send csock)"
      "chunks_ok csock"
    and s: "sk_stream csock = frame (?ss ?r1) @ frame (?ss ?r2)"
    using assms by (simp_all add: good_run_def client_messages_def server_messages_def frames_def)
  note snd_ok = c [THEN carried_sendable]
  obtain s1 where s1: "SendMessage (?cs ?m1) csock = (True, s1)" "steady s1" "sk_in s1 = sk_in csock"
    "length (sk_send csock) \<le> length (sk_send s1) + length (frame (?cs ?m1))"
    using SendMessage_room [OF g(3) _ snd_ok(1)] g(4) by auto
  obtain s2 where s2: "ReceiveMessage s1 = (?ss ?r1, s2)" "chunks_ok s2" "sk_stream s2 = frame (?ss ?r2)"
    using ReceiveMessage_frame [of s1, OF _ _ snd_ok(3)] g(5) s s1(3)
    by (auto simp: chunks_ok_def sk_stream_def)
  have "steady s2" "sk_send s2 = sk_send s1"
    using ReceiveMessage_out(2) [of s1] s2(1) s1(2) by (simp_all add: steady_def)
  then obtain s3 where s3: "SendMessage (?cs ?m2) s2 = (True, s3)" "sk_in s3 = sk_in s2"
    using SendMessage_room [OF _ _ snd_ok(2), of s2] g(4) s1(4) by auto
  obtain s4 where s4: "ReceiveMessage s3 = (?ss ?r2, s4)"
    using ReceiveMessage_frame [of s3 _ "[]", OF _ _ snd_ok(4)] s2 s3(2)
    by (auto simp: chunks_ok_def sk_stream_def)
  have "?ss ?r1 \<noteq> []" "?ss ?r2 \<noteq> []" "GetMessageType (cl_parse cenv) (?ss ?r1) = Inr MT_SERVER_READY"
    "GetMessageType (cl_parse cenv) (?ss ?r2) = Inr MT_RESULTS_RESPONSE"
    using snd_ok c(3,4) [THEN carried_type] by (auto simp: sendable_message_def)
  with RunTest_completes [OF g(1) s1(1) s2(1) _ _ carried_ready [OF c(3)] g(2) s3(1) s4 _ _
      carried_response [OF c(4)]]
  show ?thesis by (simp add: expected_bytes_def)
qed

text \<open>
  C24: when nothing fails on the way, the test run goes through: the client has its own result and its
  verdict on the server's, the server has recorded both, and the one process it launched has been
  waited for.
\<close>

theorem test_run_completes:
  assumes "good_run cenv senv ip p cfg csock ssock cr r"
    and "HandleClient senv cs ssock = (cs', st)" and "concat (sk_in csock) = sk_out (ss_socket st)"
  shows "(\<exists>cc. RunTest cenv ip p cfg new_ControlClient cr0 sr0 =
      (Inr True, cc, cr, AnalyzeTestResult (tc_numPackets cfg) (tc_packetSize cfg * tc_numPackets cfg) r)) \<and>
    cs_history cs' = cs_history cs @ [(cr, r)] \<and>
    ss_launched st = [le_fork (se_launch senv 0)] \<and> ss_reaped st = ss_launched st"
  using good_run_server [OF assms(1), of cs] good_run_client [OF assms(1)] assms(2,3)
  by (simp add: sk_stream_def)

subsection \<open>Examples\<close>

text \<open>A printer that prints the type of a message, and the parser that knows the messages of a run.\<close>

definition runner_dump :: json_printer where
  "runner_dump j = (case json_at ''messageType'' j of Inr (JString t) \<Rightarrow> t | _ \<Rightarrow> ''result'')"

definition demo_outcome :: TestRunResult where
  "demo_outcome = buildCurrentResult [] [] demo_controller"

definition demo_server_result :: TestResult where
  "demo_server_result = read_result demo_test_config ''Server'' demo_outcome"

definition demo_client_result :: TestResult where
  "demo_client_result = AnalyzeTestResult 1 1024 (read_result demo_test_config ''Client'' demo_outcome)"

definition runner_parse :: json_parser where
  "runner_parse s =
     (if s = ''CONFIG_REQUEST'' then Inr (message_json (ConfigRequestMessage demo_test_config))
      else if s = ''SERVER_READY'' then Inr (message_json (ServerReadyMessage 5201 ''0.0.0.0''))
      else if s = ''RESULTS_REQUEST'' then Inr (message_json (ResultsRequestMessage 5201 demo_client_result))
      else if s = ''RESULTS_RESPONSE'' then Inr (message_json (ResultsResponseMessage demo_server_result))
      else Inr (TestRunResult_to_json demo_outcome))"

definition demo_messages :: "RunnerMessage list \<Rightarrow> RunnerMessage list \<Rightarrow> Socket" where
  "demo_messages inp out = \<lparr>sk_in = map (\<lambda>m. frame (SerializeMessage runner_dump m)) inp,
     sk_send = replicate (length (frames runner_dump out)) 1, sk_out = []\<rparr>"

definition demo_client_socket :: Socket where
  "demo_client_socket = demo_messages (server_messages demo_test_config demo_server_result)
     (client_messages demo_test_config demo_client_result)"

definition demo_server_socket :: Socket where
  "demo_server_socket = demo_messages (client_messages demo_test_config demo_client_result)
     (server_messages demo_test_config demo_server_result)"

definition demo_client_env :: client_env where
  "demo_client_env = \<lparr>cl_connect = (\<lambda>ip p. Some [Some demo_client_socket]), cl_fs = demo_fs,
     cl_override = ''ipeftc'', cl_launch = demo_launch, cl_reads = [], cl_file = (\<lambda>f. Some ''result''),
     cl_parse = runner_parse, cl_dump = runner_dump\<rparr>"

definition demo_peer_env :: server_env where
  "demo_peer_env = demo_server_env\<lparr>se_file := (\<lambda>k f. Some ''result''), se_parse := runner_parse,
     se_dump := runner_dump\<rparr>"

lemma runner_dump_message: "SerializeMessage runner_dump m = MessageTypeToString (message_type m)"
  by (simp add: SerializeMessage_def runner_dump_def message_json_type)

lemma demo_result_file:
  assumes "c = demo_test_config \<or> c = local_config ip demo_test_config"
  shows "ParseResultFile runner_parse (\<lambda>f. Some ''result'') c role_name = Inr (read_result demo_test_config role_name demo_outcome)"
proof -
  have c: "tc_runId c \<noteq> []" "runId demo_outcome = tc_runId c" "tc_port c = tc_port demo_test_config"
    "receiverRole (phase1 demo_outcome) = ''SERVER''" "receiverRole (phase2 demo_outcome) = ''CLIENT''"
    using assms by (auto simp: demo_outcome_def buildCurrentResult_def build_phase_def demo_controller_def
        demo_test_config_def local_config_def default_RunOptions_def Let_def)
  have "stats_in_range (receiverStats (received_phase role_name demo_outcome))"
    using demo_result_in_range by (simp add: demo_outcome_def result_range_phases)
  from ParseResultFile_lemma [OF c(1,2,4,5) this, of "\<lambda>f. Some ''result''" "''result''" runner_parse]
  show ?thesis using c(3) by (simp add: runner_parse_def read_result_def)
qed

lemma demo_results_range:
  "TestResult_in_range (read_result demo_test_config role_name demo_outcome)"
  "TestResult_in_range demo_client_result"
proof -
  show *: "TestResult_in_range (read_result demo_test_config role_name demo_outcome)" for role_name
    using demo_result_in_range
    by (auto simp: demo_outcome_def TestResult_in_range_def read_result_def result_of_stats_def received_phase_def
        result_in_range_def phase_in_range_def stats_in_range_def empty_TestResult_def demo_test_config_def
        default_TestConfig_def DEFAULT_TEST_PORT_def int_range_def INT_MIN_def INT_MAX_def llong_range_def
        LLONG_MIN_def LLONG_MAX_def)
  show "TestResult_in_range demo_client_result"
    using * [of "''Client''"]
    by (auto simp: demo_client_result_def AnalyzeTestResult_def TestResult_in_range_def Let_def llong_range_def
        LLONG_MIN_def LLONG_MAX_def split: prod.splits)
qed

lemma demo_request_config: "request_config demo_test_config = demo_test_config"
  by (simp add: request_config_def demo_test_config_def default_TestConfig_def)

lemma demo_carried:
  assumes "m \<in> set (client_messages demo_test_config demo_client_result @
      server_messages demo_test_config demo_server_result)"
  shows "carried runner_dump runner_parse m"
proof -
  have "TestConfig_in_range demo_test_config"
    by (simp add: TestConfig_in_range_def demo_test_config_def default_TestConfig_def int_range_def
        llong_range_def INT_MIN_def INT_MAX_def LLONG_MIN_def LLONG_MAX_def DEFAULT_TEST_PORT_def)
  moreover have "tc_port demo_test_config = 5201" "tc_serverBindIP demo_test_config = ''0.0.0.0''"
    by (simp_all add: demo_test_config_def default_TestConfig_def DEFAULT_TEST_PORT_def)
  ultimately show ?thesis
    using assms demo_results_range
    by (auto simp: carried_def client_messages_def server_messages_def runner_dump_message runner_parse_def
        demo_request_config sendable_message_def MAX_MESSAGE_SIZE_def demo_server_result_def int_range_def
        INT_MIN_def INT_MAX_def)
qed

lemma demo_good_run:
  "good_run demo_client_env demo_peer_env ip p demo_test_config demo_client_socket demo_server_socket
     demo_client_result demo_server_result"
proof -
  have "launches demo_peer_env 0" "gets_ready demo_peer_env 0"
    using demo_launches [of 0] demo_gets_ready [of 0]
    by (simp_all add: launches_def gets_ready_def started_process_def demo_peer_env_def)
  moreover have "fst (run_local_client demo_client_env ip demo_test_config new_ControlClient) = Inr (Some demo_client_result)"
    using demo_result_file [of "local_config ip demo_test_config" ip "''Client''"]
    by (simp add: run_local_client_def LaunchIPEFTCClient_def launch_def demo_client_env_def demo_launch_def demo_fs_def
        ValidateIpeftcPath_def IsExecutableResolvable_def FileExists_def GetIPEFTCPath_def
        WaitForProcessAndCaptureOutput_def demo_client_result_def expected_bytes_def)
      (simp add: demo_test_config_def)
  moreover have "list_all (carried runner_dump runner_parse) (client_messages demo_test_config demo_client_result)"
    "list_all (carried runner_dump runner_parse) (server_messages demo_test_config demo_server_result)"
    using demo_carried by (auto simp: list_all_iff)
  moreover have "[] \<noteq> frame m" for m
    by (metis append_is_Nil_conv frame_def length_be32 list.size(3) zero_neq_numeral)
  then have "chunks_ok (demo_messages a b)" "steady (demo_messages a b)" "sk_out (demo_messages a b) = []"
    "sk_stream (demo_messages a b) = frames runner_dump a"
    "length (sk_send (demo_messages a b)) = length (frames runner_dump b)" for a b
    by (auto simp: demo_messages_def chunks_ok_def steady_def sk_stream_def frames_def comp_def)
  ultimately show ?thesis
    using demo_result_file [of demo_test_config "[]" "''Server''"]
    by (simp add: good_run_def demo_client_socket_def demo_server_socket_def demo_server_result_def
        demo_request_config demo_client_env_def demo_peer_env_def)
qed

definition demo_run :: "bool res \<times> ControlClient \<times> TestResult \<times> TestResult" where
  "demo_run = RunTest demo_client_env ''10.0.0.1'' 9500 demo_test_config new_ControlClient
     empty_TestResult empty_TestResult"

definition demo_peer :: "ControlServer \<times> ServerSession" where
  "demo_peer = HandleClient demo_peer_env demo_server demo_server_socket"

lemma demo_peer_output:
  "cs_history (fst demo_peer) = cs_history demo_server @ [(demo_client_result, demo_server_result)]"
  "sk_stream demo_client_socket = sk_out (ss_socket (snd demo_peer))"
  using good_run_server [OF demo_good_run, of demo_server]
  by (auto simp: demo_peer_def demo_client_socket_def demo_messages_def sk_stream_def frames_def comp_def
      demo_peer_env_def)

theorem test_run_completes_witness:
  "(\<exists>cc. RunTest demo_client_env ''10.0.0.1'' 9500 demo_test_config new_ControlClient
       empty_TestResult empty_TestResult = (Inr True, cc, demo_client_result,
     AnalyzeTestResult (tc_numPackets demo_test_config)
       (tc_packetSize demo_test_config * tc_numPackets demo_test_config) demo_server_result)) \<and>
   cs_history (fst demo_peer) = cs_history demo_server @ [(demo_client_result, demo_server_result)] \<and>
   ss_launched (snd demo_peer) = [le_fork (se_launch demo_peer_env 0)] \<and>
   ss_reaped (snd demo_peer) = ss_launched (snd demo_peer)"
  using demo_peer_output(2)
  by (intro test_run_completes [OF demo_good_run]) (simp_all add: demo_peer_def sk_stream_def)

theorem test_run_agrees_witness:
  "\<exists>r. cs_history (fst demo_peer) = cs_history demo_server @ [(fst (snd (snd demo_run)), r)] \<and>
     snd (snd (snd demo_run)) = AnalyzeTestResult (tc_numPackets demo_test_config)
       (tc_packetSize demo_test_config * tc_numPackets demo_test_config) r"
proof -
  have "sk_stream demo_client_socket = frames (se_dump demo_peer_env) (server_messages demo_test_config demo_server_result)"
    by (simp add: demo_client_socket_def demo_messages_def sk_stream_def frames_def comp_def demo_peer_env_def)
  from good_run_client [OF demo_good_run this] obtain cc sr where
    run: "demo_run = (Inr True, cc, demo_client_result, sr)"
    unfolding demo_run_def by blast
  from RunTest_True [OF this [unfolded demo_run_def]] obtain s1 s2 s3 s4 r1 r2 where
    s: "SendMessage (SerializeMessage runner_dump (ConfigRequestMessage demo_test_config)) demo_client_socket = (True, s1)"
    "ReceiveMessage s1 = (r1, s2)" "SendMessage (SerializeMessage runner_dump
       (ResultsRequestMessage (tc_port demo_test_config) demo_client_result)) s2 = (True, s3)"
    "ReceiveMessage s3 = (r2, s4)" "cc_closed cc = [s4]"
    by (auto simp: demo_client_env_def demo_request_config)
  have "sk_out s4 = concat (sk_in demo_server_socket)"
    using SendMessage_True(2) [OF s(1)] SendMessage_True(2) [OF s(3)] ReceiveMessage_out(1) [of s1]
      ReceiveMessage_out(1) [of s3] s(2,4)
    by (simp add: demo_client_socket_def demo_server_socket_def demo_messages_def client_messages_def
        demo_request_config)
  moreover have g: "good_run demo_client_env demo_peer_env ''10.0.0.1'' 9500 demo_test_config
      demo_client_socket demo_server_socket demo_client_result demo_server_result" by (rule demo_good_run)
  moreover have "carried runner_dump runner_parse (ResultsResponseMessage demo_server_result)"
    "carried runner_dump runner_parse (ConfigRequestMessage (request_config demo_test_config))"
    "carried runner_dump runner_parse (ResultsRequestMessage (tc_port demo_test_config) demo_client_result)"
    by (rule demo_carried, simp add: client_messages_def server_messages_def)+
  ultimately show ?thesis
    unfolding run fst_conv snd_conv
    using demo_peer_output s(5)
    by (intro test_run_agrees [OF run [unfolded demo_run_def], of demo_peer_env demo_server
        demo_server_socket _ "snd demo_peer" demo_client_socket s4])
      (auto simp: demo_peer_def good_run_def steady_def chunks_ok_def sk_stream_def demo_client_env_def
        demo_peer_env_def demo_server_def)
qed

end
