(* ===== verification/RunnerMain.thy ===== *)
theory RunnerMain
  imports ControlClient
begin

section \<open>The test runner's command line\<close>

text \<open>
  \<open>TestRunner/main.cpp\<close>: the arguments, and the runs of the client mode. The lambdas of one run are
  threads, but each holds \<open>portRunMutex\<close> from beginning to end, so they run one after the other in the
  order in which they get the mutex, \<open>re_order\<close>. The \<open>k\<close>-th session of the program meets the
  environment \<open>re_session k\<close>. The printed tables are in the theory \<open>SummaryTable\<close>; pauses and versions are left out.
\<close>

function ParseArguments :: "string list \<Rightarrow> (string \<rightharpoonup> string) \<Rightarrow> (string \<rightharpoonup> string)" where
  "ParseArguments [] args = args"
| "ParseArguments (token # argv) args =
     (if token = ''-h'' then ParseArguments argv (args(''help'' \<mapsto> []))
      else if token = ''-v'' then ParseArguments argv (args(''version'' \<mapsto> []))
      else if take 2 token = ''--'' then
        (case argv of
           [] \<Rightarrow> args(drop 2 token \<mapsto> [])
         | v # argv' \<Rightarrow>
             if take 2 v \<noteq> ''--'' then ParseArguments argv' (args(drop 2 token \<mapsto> v))
             else ParseArguments argv (args(drop 2 token \<mapsto> [])))
      else ParseArguments argv args)"
  by pat_completeness auto
termination
  by (relation "measure (\<lambda>(argv, args). length argv)") auto

definition DEFAULT_CONTROL_PORT :: int where "DEFAULT_CONTROL_PORT = 9500"

definition int_argument :: "(string \<rightharpoonup> string) \<Rightarrow> string \<Rightarrow> int \<Rightarrow> int res" where
  "int_argument args key dflt = (case args key of None \<Rightarrow> Inr dflt | Some v \<Rightarrow> stoi v)"

definition llong_argument :: "(string \<rightharpoonup> string) \<Rightarrow> string \<Rightarrow> int \<Rightarrow> int res" where
  "llong_argument args key dflt = (case args key of None \<Rightarrow> Inr dflt | Some v \<Rightarrow> stoll v)"

definition string_argument :: "(string \<rightharpoonup> string) \<Rightarrow> string \<Rightarrow> string \<Rightarrow> string" where
  "string_argument args key dflt = (case args key of None \<Rightarrow> dflt | Some v \<Rightarrow> v)"

record RunnerOptions =
  ro_controlPort :: int
  ro_ipeftcPath :: string
  ro_server :: string
  ro_serverBind :: string
  ro_testPort :: int
  ro_packetSize :: int
  ro_numPackets :: int
  ro_intervalMs :: int
  ro_resultDir :: string
  ro_numPorts :: int
  ro_totalRuns :: int

definition client_options :: "(string \<rightharpoonup> string) \<Rightarrow> int \<Rightarrow> string \<Rightarrow> RunnerOptions res" where
  "client_options args controlPort server =
     res_bind (int_argument args ''test-port'' DEFAULT_TEST_PORT) (\<lambda>testPort.
     res_bind (int_argument args ''packet-size'' 8192) (\<lambda>packet_size.
     res_bind (llong_argument args ''num-packets'' 10000) (\<lambda>num_packets.
     res_bind (int_argument args ''interval-ms'' 0) (\<lambda>interval.
     res_bind (int_argument args ''num-ports'' 1) (\<lambda>numPorts.
     res_bind (int_argument args ''total-runs'' 1) (\<lambda>totalRuns.
       Inr \<lparr>ro_controlPort = controlPort, ro_ipeftcPath = string_argument args ''ipeftc-path'' [],
            ro_server = server, ro_serverBind = string_argument args ''server-bind'' ''0.0.0.0'',
            ro_testPort = testPort, ro_packetSize = packet_size, ro_numPackets = num_packets,
            ro_intervalMs = interval, ro_resultDir = string_argument args ''result-dir'' ''Results'',
            ro_numPorts = numPorts, ro_totalRuns = totalRuns\<rparr>))))))"

subsection \<open>One session\<close>

record PortTestSummary =
  pt_port :: int
  pt_client :: TestResult
  pt_server :: TestResult

definition empty_summary :: PortTestSummary where
  "empty_summary = \<lparr>pt_port = 0, pt_client = empty_TestResult, pt_server = empty_TestResult\<rparr>"

record runner_env =
  re_session :: "nat \<Rightarrow> client_env"
  re_order :: "int \<Rightarrow> nat list"
  re_shutdown :: client_env

text \<open>\<open>rm_configs\<close> keeps the configurations of the sessions started.\<close>

record RunnerState =
  rm_counter :: nat
  rm_failure :: bool
  rm_history :: "PortTestSummary list"
  rm_configs :: "TestConfig list"

definition run_id :: "int \<Rightarrow> int \<Rightarrow> nat \<Rightarrow> string" where
  "run_id run port_number n =
     ''tr-run'' @ show_int run @ ''-port'' @ show_int port_number @ ''-'' @ show_int (int n)"

definition session_config :: "RunnerOptions \<Rightarrow> int \<Rightarrow> int \<Rightarrow> nat \<Rightarrow> TestConfig" where
  "session_config opts run port_number n = default_TestConfig
     \<lparr>tc_port := port_number, tc_packetSize := ro_packetSize opts, tc_numPackets := ro_numPackets opts,
      tc_sendIntervalMs := ro_intervalMs opts, tc_targetIP := ro_server opts,
      tc_serverBindIP := ro_serverBind opts, tc_resultDir := ro_resultDir opts,
      tc_runId := run_id run port_number n\<rparr>"

text \<open>The body of the thread of port \<open>i\<close>; \<open>Inl\<close> is an exception that leaves the thread, which ends the program.\<close>

definition run_port ::
  "RunnerOptions \<Rightarrow> runner_env \<Rightarrow> int \<Rightarrow> nat \<Rightarrow> PortTestSummary list \<times> RunnerState \<Rightarrow>
   (PortTestSummary list \<times> RunnerState) res" where
  "run_port opts env run i s =
     (case s of (results, st) \<Rightarrow>
        let currentPort = ro_testPort opts + int i;
            cfg = session_config opts run currentPort (rm_counter st);
            cenv = (re_session env (rm_counter st))\<lparr>cl_override := ro_ipeftcPath opts\<rparr>;
            st = st\<lparr>rm_counter := Suc (rm_counter st), rm_configs := rm_configs st @ [cfg]\<rparr>
        in case RunTest cenv (ro_server opts) (ro_controlPort opts) cfg new_ControlClient
                  empty_TestResult empty_TestResult of
             (Inl e, cc, c, s) \<Rightarrow> Inl e
           | (Inr through, cc, c, s) \<Rightarrow>
               if through
               then Inr (results[i := \<lparr>pt_port = currentPort, pt_client = c, pt_server = s\<rparr>],
                      if tr_success c \<and> tr_success s then st else st\<lparr>rm_failure := True\<rparr>)
               else Inr (results[i := (results ! i)\<lparr>pt_port := currentPort,
                      pt_client := pt_client (results ! i)
                        \<lparr>tr_success := False, tr_failureReason := ''Control Client Failed''\<rparr>,
                      pt_server := pt_server (results ! i)\<lparr>tr_success := False\<rparr>\<rparr>],
                      st\<lparr>rm_failure := True\<rparr>))"

fun run_ports ::
  "RunnerOptions \<Rightarrow> runner_env \<Rightarrow> int \<Rightarrow> nat list \<Rightarrow> PortTestSummary list \<times> RunnerState \<Rightarrow>
   (PortTestSummary list \<times> RunnerState) res" where
  "run_ports opts env run [] s = Inr s"
| "run_ports opts env run (i # is) s = res_bind (run_port opts env run i s) (run_ports opts env run is)"

subsection \<open>All runs\<close>

definition one_run :: "RunnerOptions \<Rightarrow> runner_env \<Rightarrow> int \<Rightarrow> RunnerState \<Rightarrow> RunnerState res" where
  "one_run opts env run st =
     res_bind (run_ports opts env run (re_order env run) (replicate (nat (ro_numPorts opts)) empty_summary, st))
       (\<lambda>(results, st). Inr (st\<lparr>rm_history := rm_history st @ results\<rparr>))"

fun all_runs :: "RunnerOptions \<Rightarrow> runner_env \<Rightarrow> int list \<Rightarrow> RunnerState \<Rightarrow> RunnerState res" where
  "all_runs opts env [] st = Inr st"
| "all_runs opts env (run # runs) st = res_bind (one_run opts env run st) (all_runs opts env runs)"

definition new_RunnerState :: RunnerState where
  "new_RunnerState = \<lparr>rm_counter = 0, rm_failure = False, rm_history = [], rm_configs = []\<rparr>"

text \<open>The shutdown message is sent on a connection of its own; whether it gets through has no effect.\<close>

definition send_shutdown :: "RunnerOptions \<Rightarrow> client_env \<Rightarrow> ControlClient" where
  "send_shutdown opts env =
     (case Connect env (ro_server opts) (ro_controlPort opts) new_ControlClient of
        (True, cc) \<Rightarrow> Disconnect (snd (client_SendMessage (SerializeMessage (cl_dump env) ServerShutdownMessage) cc))
      | (False, cc) \<Rightarrow> cc)"

definition client_main :: "RunnerOptions \<Rightarrow> runner_env \<Rightarrow> (int \<times> RunnerState \<times> ControlClient option) res" where
  "client_main opts env =
     (if ro_numPorts opts \<le> 0 \<or> ro_totalRuns opts \<le> 0 then Inr (1, new_RunnerState, None)
      else res_bind (all_runs opts env [1..ro_totalRuns opts] new_RunnerState) (\<lambda>st.
             Inr (if rm_failure st then 1 else 0, st, Some (send_shutdown opts (re_shutdown env)))))"

text \<open>What the program does: it exits at once, serves on a control port, or runs the client mode.\<close>

datatype runner_action =
    Exit int
  | Serve int string
  | Test int RunnerState "ControlClient option"

definition runner_main :: "string list \<Rightarrow> runner_env \<Rightarrow> runner_action res" where
  "runner_main argv env =
     (let args = ParseArguments argv Map.empty in
      if args ''version'' \<noteq> None then Inr (Exit 0)
      else if args ''help'' \<noteq> None then Inr (Exit 0)
      else case args ''mode'' of
        None \<Rightarrow> Inr (Exit 0)
      | Some m \<Rightarrow>
          res_bind (int_argument args ''control-port'' DEFAULT_CONTROL_PORT) (\<lambda>controlPort.
            if m = ''server'' then Inr (Serve controlPort (string_argument args ''ipeftc-path'' []))
            else if m = ''client'' then
              (case args ''server'' of
                 None \<Rightarrow> Inr (Exit 1)
               | Some server \<Rightarrow>
                   res_bind (client_options args controlPort server) (\<lambda>opts.
                   res_bind (client_main opts env) (\<lambda>(code, st, cc). Inr (Test code st cc))))
            else Inr (Exit 1)))"

subsection \<open>Every session is reported\<close>

definition summary_ok :: "PortTestSummary \<Rightarrow> bool" where
  "summary_ok e \<longleftrightarrow> tr_success (pt_client e) \<and> tr_success (pt_server e)"

lemma run_port_Inr:
  assumes "run_port opts env run i (results, st) = Inr (results', st')" and "i < length results"
  shows "\<exists>e. results' = results[i := e] \<and> pt_port e = ro_testPort opts + int i \<and>
    (rm_failure st' \<longleftrightarrow> rm_failure st \<or> \<not> summary_ok e) \<and> rm_history st' = rm_history st \<and>
    rm_counter st' = Suc (rm_counter st) \<and>
    rm_configs st' = rm_configs st @
      [session_config opts run (ro_testPort opts + int i) (rm_counter st)]"
proof -
  obtain out cc c s where r: "RunTest ((re_session env (rm_counter st))\<lparr>cl_override := ro_ipeftcPath opts\<rparr>)
      (ro_server opts) (ro_controlPort opts)
      (session_config opts run (ro_testPort opts + int i) (rm_counter st)) new_ControlClient
      empty_TestResult empty_TestResult = (out, cc, c, s)"
    by (metis prod_cases4)
  show ?thesis
  proof (cases out)
    case (Inr through)
    then show ?thesis
      using assms r by (cases through) (auto simp: run_port_def Let_def summary_ok_def)
  qed (use assms r in \<open>auto simp: run_port_def Let_def\<close>)
qed

lemma run_ports_Inr:
  assumes "run_ports opts env run is (results, st) = Inr (results', st')"
    and "distinct is" and "\<forall>i \<in> set is. i < length results"
  shows "length results' = length results \<and>
    (\<forall>i < length results. i \<notin> set is \<longrightarrow> results' ! i = results ! i) \<and>
    (\<forall>i \<in> set is. pt_port (results' ! i) = ro_testPort opts + int i) \<and>
    (rm_failure st' \<longleftrightarrow> rm_failure st \<or> (\<exists>i \<in> set is. \<not> summary_ok (results' ! i))) \<and>
    rm_history st' = rm_history st"
  using assms
proof (induction "is" arbitrary: results st)
  case (Cons i "is")
  obtain r1 st1 where r1: "run_port opts env run i (results, st) = Inr (r1, st1)"
    "run_ports opts env run is (r1, st1) = Inr (results', st')"
    using Cons.prems(1) by (auto simp: res_bind_eq_Inr)
  obtain e where e: "r1 = results[i := e]" "pt_port e = ro_testPort opts + int i"
    "rm_failure st1 \<longleftrightarrow> rm_failure st \<or> \<not> summary_ok e" "rm_history st1 = rm_history st"
    using run_port_Inr [OF r1(1)] Cons.prems(3) by auto
  from Cons.IH [OF r1(2)] Cons.prems(2,3) e(1) have ih: "length results' = length results"
    "\<forall>j < length results. j \<notin> set is \<longrightarrow> results' ! j = r1 ! j"
    "\<forall>j \<in> set is. pt_port (results' ! j) = ro_testPort opts + int j"
    "rm_failure st' \<longleftrightarrow> rm_failure st1 \<or> (\<exists>j \<in> set is. \<not> summary_ok (results' ! j))"
    "rm_history st' = rm_history st1"
    by auto
  have "results' ! i = e" using ih(2) Cons.prems(2,3) e(1) by simp
  with ih e show ?case by auto
qed simp

definition orders_ok :: "RunnerOptions \<Rightarrow> runner_env \<Rightarrow> bool" where
  "orders_ok opts env \<longleftrightarrow> (\<forall>run. mset (re_order env run) = mset [0..<nat (ro_numPorts opts)])"

lemma one_run_Inr:
  assumes "one_run opts env run st = Inr st'" and "orders_ok opts env"
  shows "\<exists>results. rm_history st' = rm_history st @ results \<and>
    map pt_port results = map (\<lambda>i. ro_testPort opts + int i) [0..<nat (ro_numPorts opts)] \<and>
    (rm_failure st' \<longleftrightarrow> rm_failure st \<or> (\<exists>e \<in> set results. \<not> summary_ok e))"
proof -
  let ?n = "nat (ro_numPorts opts)"
  obtain results st1 where r: "run_ports opts env run (re_order env run) (replicate ?n empty_summary, st) =
      Inr (results, st1)" "st' = st1\<lparr>rm_history := rm_history st1 @ results\<rparr>"
    using assms(1) by (auto simp: one_run_def res_bind_eq_Inr)
  have o: "mset (re_order env run) = mset [0..<?n]" using assms(2) by (simp add: orders_ok_def)
  have ord: "distinct (re_order env run)" "set (re_order env run) = {0..<?n}"
    using mset_eq_imp_distinct_iff [OF o] mset_eq_setD [OF o] by auto
  from run_ports_Inr [OF r(1)] ord have f: "length results = ?n"
    "\<forall>i < ?n. pt_port (results ! i) = ro_testPort opts + int i"
    "rm_failure st1 \<longleftrightarrow> rm_failure st \<or> (\<exists>i < ?n. \<not> summary_ok (results ! i))"
    "rm_history st1 = rm_history st"
    by auto
  have "map pt_port results = map (\<lambda>i. ro_testPort opts + int i) [0..<?n]"
    using f(1,2) by (intro nth_equalityI) auto
  moreover have "(\<exists>e \<in> set results. \<not> summary_ok e) \<longleftrightarrow> (\<exists>i < ?n. \<not> summary_ok (results ! i))"
    using f(1) by (metis in_set_conv_nth)
  ultimately show ?thesis using r(2) f(3,4) by auto
qed

lemma all_runs_Inr:
  "all_runs opts env runs st = Inr st' \<Longrightarrow> orders_ok opts env \<Longrightarrow>
    \<exists>results. rm_history st' = rm_history st @ results \<and>
    map pt_port results =
      concat (replicate (length runs) (map (\<lambda>i. ro_testPort opts + int i) [0..<nat (ro_numPorts opts)])) \<and>
    (rm_failure st' \<longleftrightarrow> rm_failure st \<or> (\<exists>e \<in> set results. \<not> summary_ok e))"
proof (induction runs arbitrary: st)
  case (Cons run runs)
  obtain st1 where st1: "one_run opts env run st = Inr st1" "all_runs opts env runs st1 = Inr st'"
    using Cons.prems(1) by (auto simp: res_bind_eq_Inr)
  from one_run_Inr [OF st1(1) Cons.prems(2)] Cons.IH [OF st1(2) Cons.prems(2)]
  obtain a b where "rm_history st1 = rm_history st @ a" "rm_history st' = rm_history st1 @ b"
    "map pt_port a = map (\<lambda>i. ro_testPort opts + int i) [0..<nat (ro_numPorts opts)]"
    "map pt_port b =
      concat (replicate (length runs) (map (\<lambda>i. ro_testPort opts + int i) [0..<nat (ro_numPorts opts)]))"
    "rm_failure st1 \<longleftrightarrow> rm_failure st \<or> (\<exists>e \<in> set a. \<not> summary_ok e)"
    "rm_failure st' \<longleftrightarrow> rm_failure st1 \<or> (\<exists>e \<in> set b. \<not> summary_ok e)" by blast
  then show ?case by (intro exI [of _ "a @ b"]) auto
qed simp

text \<open>
  the client mode reports one session for each port of each run, in this order whichever
  thread gets the mutex first, and exits with 0 exactly when every session succeeded for client and
  server.
\<close>

theorem exit_code_reports:
  assumes "client_main opts env = Inr (code, st, cc)"
    and "0 < ro_numPorts opts" and "0 < ro_totalRuns opts"
    and "\<forall>run. mset (re_order env run) = mset [0..<nat (ro_numPorts opts)]"
  shows "map pt_port (rm_history st) =
      concat (replicate (nat (ro_totalRuns opts))
        (map (\<lambda>i. ro_testPort opts + int i) [0..<nat (ro_numPorts opts)])) \<and>
    (code = 0 \<longleftrightarrow>
      (\<forall>e \<in> set (rm_history st). tr_success (pt_client e) \<and> tr_success (pt_server e))) \<and>
    (code = 0 \<or> code = 1)"
proof -
  have runs: "all_runs opts env [1..ro_totalRuns opts] new_RunnerState = Inr st"
    "code = (if rm_failure st then 1 else 0)"
    using assms(1-3) by (auto simp: client_main_def res_bind_eq_Inr)
  have "orders_ok opts env" using assms(4) by (simp add: orders_ok_def)
  from all_runs_Inr [OF runs(1) this] runs(2) show ?thesis
    by (auto simp: new_RunnerState_def summary_ok_def)
qed

subsection \<open>Run ids\<close>

lemma run_port_configs:
  assumes "run_port opts env run i s = Inr s'"
  shows "rm_counter (snd s') = Suc (rm_counter (snd s)) \<and> (\<exists>c p. rm_configs (snd s') = rm_configs (snd s) @ [c] \<and>
    c = session_config opts run p (rm_counter (snd s)))"
proof -
  obtain results st where s: "s = (results, st)" by force
  obtain out cc c t where r: "RunTest ((re_session env (rm_counter st))\<lparr>cl_override := ro_ipeftcPath opts\<rparr>)
      (ro_server opts) (ro_controlPort opts)
      (session_config opts run (ro_testPort opts + int i) (rm_counter st)) new_ControlClient
      empty_TestResult empty_TestResult = (out, cc, c, t)"
    by (metis prod_cases4)
  show ?thesis
    using assms r unfolding s by (cases out) (auto simp: run_port_def Let_def split: if_splits)
qed

text \<open>The session with counter \<open>n\<close> is the \<open>n\<close>-th one.\<close>

definition numbered :: "RunnerOptions \<Rightarrow> RunnerState \<Rightarrow> bool" where
  "numbered opts st \<longleftrightarrow> rm_counter st = length (rm_configs st) \<and>
     (\<forall>n < length (rm_configs st). \<exists>run p. rm_configs st ! n = session_config opts run p n)"

lemma numbered_port: "run_port opts env run i s = Inr s' \<Longrightarrow> numbered opts (snd s) \<Longrightarrow> numbered opts (snd s')"
  using run_port_configs [of opts env run i s s'] by (fastforce simp: numbered_def nth_append less_Suc_eq)

lemma numbered_ports: "run_ports opts env run is s = Inr s' \<Longrightarrow> numbered opts (snd s) \<Longrightarrow> numbered opts (snd s')"
  by (induction "is" arbitrary: s) (auto simp: res_bind_eq_Inr dest: numbered_port)

lemma numbered_runs: "all_runs opts env runs st = Inr st' \<Longrightarrow> numbered opts st \<Longrightarrow> numbered opts st'"
proof (induction runs arbitrary: st)
  case (Cons run runs)
  obtain results st1 where "run_ports opts env run (re_order env run)
      (replicate (nat (ro_numPorts opts)) empty_summary, st) = Inr (results, st1)"
    "all_runs opts env runs (st1\<lparr>rm_history := rm_history st1 @ results\<rparr>) = Inr st'"
    using Cons.prems(1) by (auto simp: one_run_def res_bind_eq_Inr)
  with numbered_ports [OF this(1)] Cons show ?case by (simp add: numbered_def)
qed simp

lemma dash_not_digit: "\<forall>c \<in> set (show_int (int n)). c \<noteq> CHR ''-''"
  using show_nat_digits [of "CHR ''-''" n] by (auto simp: show_int_def is_digit_def)

lemma run_id_inj:
  assumes "run_id r p n = run_id r' p' n'"
  shows "n = n'"
proof -
  have last: "takeWhile (\<lambda>c. c \<noteq> CHR ''-'') (rev (run_id r p n)) = rev (show_int (int n))" for r p and n :: nat
    using dash_not_digit [of n] by (simp add: run_id_def takeWhile_append)
  have "show_int (int n) = show_int (int n')" using last [of r p n] last [of r' p' n'] assms by simp
  from inj_show_int [OF this] show ?thesis by simp
qed

text \<open>
  the sessions of one invocation have run ids of their own, so no two of them look for the
  same result file.
\<close>

theorem run_ids_distinct:
  assumes "client_main opts env = Inr (code, st, cc)"
  shows "distinct (map tc_runId (rm_configs st))"
proof -
  have "numbered opts new_RunnerState" by (simp add: numbered_def new_RunnerState_def)
  then have "numbered opts st"
    using assms numbered_runs by (auto simp: client_main_def res_bind_eq_Inr split: if_splits)
  then have "\<exists>run p. map tc_runId (rm_configs st) ! n = run_id run p n" if "n < length (rm_configs st)" for n
    using that by (fastforce simp: numbered_def session_config_def)
  then show ?thesis
    unfolding distinct_conv_nth by (metis length_map run_id_inj)
qed

subsection \<open>Examples\<close>

definition demo_options :: RunnerOptions where
  "demo_options = \<lparr>ro_controlPort = 9500, ro_ipeftcPath = [], ro_server = ''10.0.0.1'', ro_serverBind = ''0.0.0.0'',
     ro_testPort = 5201, ro_packetSize = 8192, ro_numPackets = 10000, ro_intervalMs = 0,
     ro_resultDir = ''Results'', ro_numPorts = 2, ro_totalRuns = 1\<rparr>"

text \<open>No address for the server, so that each session fails.\<close>

definition offline_env :: runner_env where
  "offline_env = \<lparr>re_session = (\<lambda>k. demo_client_env\<lparr>cl_connect := (\<lambda>ip p. None)\<rparr>),
     re_order = (\<lambda>run. [1, 0]), re_shutdown = demo_client_env\<lparr>cl_connect := (\<lambda>ip p. None)\<rparr>\<rparr>"

definition failed_summary :: "int \<Rightarrow> PortTestSummary" where
  "failed_summary p = \<lparr>pt_port = p, pt_client = empty_TestResult\<lparr>tr_failureReason := ''Control Client Failed''\<rparr>,
     pt_server = empty_TestResult\<rparr>"

definition offline_state :: RunnerState where
  "offline_state = \<lparr>rm_counter = 2, rm_failure = True, rm_history = [failed_summary 5201, failed_summary 5202],
     rm_configs = [session_config demo_options 1 5202 0, session_config demo_options 1 5201 1]\<rparr>"

lemma offline_main: "client_main demo_options offline_env = Inr (1, offline_state, Some new_ControlClient)"
  by (simp add: client_main_def demo_options_def offline_env_def one_run_def run_port_def RunTest_def Connect_def
      send_shutdown_def offline_state_def new_RunnerState_def failed_summary_def empty_summary_def empty_TestResult_def
      Let_def upto_rec1 numeral_2_eq_2)

theorem exit_code_reports_witness:
  "map pt_port (rm_history offline_state) = [5201, 5202] \<and>
   (\<exists>e \<in> set (rm_history offline_state). \<not> (tr_success (pt_client e) \<and> tr_success (pt_server e)))"
proof -
  have "[0..<nat 2] = [0, 1]" by (simp add: numeral_2_eq_2)
  then show ?thesis
    using exit_code_reports [OF offline_main]
    by (simp add: demo_options_def offline_env_def)
qed

theorem run_ids_distinct_witness: "distinct (map tc_runId (rm_configs offline_state))"
  by (rule run_ids_distinct [OF offline_main])

end
