(* ===== verification/SummaryTable.thy ===== *)
theory SummaryTable
  imports RunnerMain
begin

section \<open>The summaries of the test runner\<close>

text \<open>
  The tables that \<open>TestRunner/main.cpp\<close> prints after each run and at the end, and
  \<open>ControlServer.cpp\<close> for one session and at the end. A table is the list of its lines. The stream
  is \<open>std::left\<close>, \<open>std::fixed\<close> with precision 2. The main facts: the columns of a line are its values
  when these fit their widths (\<open>row_columns\<close>), and the exit code of the client mode is the verdict of the
  last column of the final table (\<open>final_table_verdict\<close>).
\<close>

definition setw :: "nat \<Rightarrow> string \<Rightarrow> string" where
  "setw w s = s @ replicate (w - length s) (CHR 0x20)"

text \<open>\<open>colRole\<close>, \<open>colPort\<close>, \<open>colDuration\<close>, \<open>colThroughput\<close>, \<open>colBytes\<close>, \<open>colPackets\<close>, \<open>colStatus\<close>.\<close>

definition column_widths :: "nat list" where
  "column_widths = [8, 8, 15, 18, 22, 24, 10]"

definition table_header :: string where
  "table_header = setw 8 ''Role'' @ setw 8 ''Port'' @ setw 15 ''Duration (s)'' @ setw 18 ''Throughput (Mbps)'' @
     setw 22 ''Total Bytes Rx'' @ setw 24 ''Total Packets Rx'' @ ''Status''"

definition table_separator :: string where
  "table_separator = replicate (sum_list column_widths) (CHR ''-'')"

definition table_row :: "string \<Rightarrow> int \<Rightarrow> TestResult \<Rightarrow> string" where
  "table_row role_name port_number r =
     setw 8 role_name @ setw 8 (show_int port_number) @ setw 15 (show_fixed2 (tr_duration r)) @
     setw 18 (show_fixed2 (tr_throughput r)) @ setw 22 (show_int (tr_totalBytes r)) @
     setw 24 (show_int (tr_totalPackets r)) @ (if tr_success r then ''PASS'' else ''FAIL'')"

text \<open>The two lines of a session and the separator after them; the header comes first.\<close>

definition session_lines :: "int \<times> TestResult \<Rightarrow> int \<times> TestResult \<Rightarrow> string list" where
  "session_lines c s =
     [table_row ''Client'' (fst c) (snd c), table_row ''Server'' (fst s) (snd s), table_separator]"

definition summary_table :: "((int \<times> TestResult) \<times> (int \<times> TestResult)) list \<Rightarrow> string list" where
  "summary_table entries =
     table_header # table_separator # concat (map (\<lambda>(c, s). session_lines c s) entries)"

definition summary_title :: "string \<Rightarrow> string list" where
  "summary_title side =
     [[], replicate 56 (CHR ''=''), ''          FINAL GLOBAL SUMMARY ('' @ side @ '')'', replicate 56 (CHR ''='')]"

subsection \<open>Client side\<close>

definition runner_entry :: "PortTestSummary \<Rightarrow> (int \<times> TestResult) \<times> (int \<times> TestResult)" where
  "runner_entry e = ((pt_port e, pt_client e), (pt_port e, pt_server e))"

definition run_summary :: "int \<Rightarrow> PortTestSummary list \<Rightarrow> string list" where
  "run_summary run results =
     [[], ''--- TEST SUMMARY (Client-side View: Run '' @ show_int run @ '') ---''] @
     summary_table (map runner_entry results)"

definition final_summary :: "RunnerState \<Rightarrow> string list" where
  "final_summary st = summary_title ''Client-side'' @ summary_table (map runner_entry (rm_history st))"

subsection \<open>Server side\<close>

definition server_entry :: "TestResult \<times> TestResult \<Rightarrow> (int \<times> TestResult) \<times> (int \<times> TestResult)" where
  "server_entry rec = ((tr_port (fst rec), fst rec), (tr_port (snd rec), snd rec))"

definition session_summary :: "TestResult \<Rightarrow> TestResult \<Rightarrow> string list" where
  "session_summary clientResult serverResult =
     [[], ''--- TEST SUMMARY (Server-side View) ---''] @
     summary_table [server_entry (clientResult, serverResult)]"

definition PrintFinalSummary :: "(TestResult \<times> TestResult) list \<Rightarrow> string list" where
  "PrintFinalSummary history =
     (if history = [] then [] else summary_title ''Server-side'' @ summary_table (map server_entry history))"

subsection \<open>Reading a table\<close>

text \<open>The fields of a line at the given widths, without the padding, and the rest of the line.\<close>

fun cut_columns :: "nat list \<Rightarrow> string \<Rightarrow> string list" where
  "cut_columns [] line = [line]"
| "cut_columns (w # ws) line = takeWhile (\<lambda>c. c \<noteq> CHR 0x20) (take w line) # cut_columns ws (drop w line)"

definition status_of :: "string \<Rightarrow> string" where
  "status_of line = drop (length line - 4) line"

lemma cut_columns_setw:
  assumes "length s \<le> w" and "CHR 0x20 \<notin> set s"
  shows "cut_columns (w # ws) (setw w s @ rest) = s # cut_columns ws rest"
proof -
  have "takeWhile (\<lambda>c. c \<noteq> CHR 0x20) (s @ replicate (w - length s) (CHR 0x20)) = s"
    using assms(2) by (subst takeWhile_append2) (auto simp: takeWhile_replicate)
  then show ?thesis using assms(1) by (simp add: setw_def)
qed

lemma no_space_show_int: "CHR 0x20 \<notin> set (show_int n)"
  using show_nat_digits [of "CHR 0x20" "nat \<bar>n\<bar>"] by (auto simp: show_int_def is_digit_def)

lemma no_space_show_fixed2: "CHR 0x20 \<notin> set (show_fixed2 x)"
proof -
  have "CHR 0x20 \<notin> set (show_nat n)" for n
    using show_nat_digits [of "CHR 0x20" n] by (auto simp: is_digit_def)
  moreover have "digit_char n \<noteq> CHR 0x20" if "n < 10" for n
    using is_digit_digit_char [OF that] by (auto simp: is_digit_def)
  moreover have "nat (c div 10 mod 10) < 10" "nat (c mod 10) < 10" for c :: int by (simp_all add: nat_less_iff)
  ultimately show ?thesis by (simp add: show_fixed2_def Let_def) metis
qed

lemmas row_columns_rule = cut_columns_setw no_space_show_int no_space_show_fixed2

text \<open>
  When its values fit the widths of their columns, a line of a table gives them back: role, port,
  duration and throughput with two decimals, bytes, packets and verdict.
\<close>

theorem row_columns:
  assumes "role_name = ''Client'' \<or> role_name = ''Server''"
    and "length (show_int port_number) \<le> 8" "length (show_fixed2 (tr_duration r)) \<le> 15"
    and "length (show_fixed2 (tr_throughput r)) \<le> 18" "length (show_int (tr_totalBytes r)) \<le> 22"
    and "length (show_int (tr_totalPackets r)) \<le> 24"
  shows "cut_columns (butlast column_widths) (table_row role_name port_number r) =
    [role_name, show_int port_number, show_fixed2 (tr_duration r), show_fixed2 (tr_throughput r),
     show_int (tr_totalBytes r), show_int (tr_totalPackets r), if tr_success r then ''PASS'' else ''FAIL'']"
proof -
  have "length role_name \<le> 8" "CHR 0x20 \<notin> set role_name" using assms(1) by auto
  with assms(2-6) show ?thesis
    by (simp add: column_widths_def table_row_def row_columns_rule del: cut_columns.simps(2))
qed

lemma status_of_row: "status_of (table_row role_name p r) = (if tr_success r then ''PASS'' else ''FAIL'')"
  by (simp add: status_of_def table_row_def)

lemma status_of_separator: "status_of table_separator = ''----''"
  by (simp add: status_of_def table_separator_def column_widths_def numeral_eq_Suc)

lemma status_of_header: "status_of table_header = ''atus''"
  by (simp add: status_of_def table_header_def)

text \<open>No line of a table reports a failure exactly when all the results in it are successes.\<close>

lemma session_lines_verdict:
  "''FAIL'' \<in> status_of ` set (session_lines c s) \<longleftrightarrow> \<not> (tr_success (snd c) \<and> tr_success (snd s))"
  by (cases "tr_success (snd c)"; cases "tr_success (snd s)")
    (simp_all add: session_lines_def status_of_row status_of_separator)

lemma summary_table_verdict:
  "''FAIL'' \<notin> status_of ` set (summary_table entries) \<longleftrightarrow>
    (\<forall>(c, s) \<in> set entries. tr_success (snd c) \<and> tr_success (snd s))"
proof -
  have "''FAIL'' \<in> status_of ` set (summary_table entries) \<longleftrightarrow>
      (\<exists>(c, s) \<in> set entries. ''FAIL'' \<in> status_of ` set (session_lines c s))"
    unfolding summary_table_def list.set image_insert status_of_header status_of_separator set_concat set_map image_UN
    by (simp add: case_prod_unfold)
  then show ?thesis unfolding session_lines_verdict by blast
qed

text \<open>
  C25: The client mode reports one session for each port of each run, in this order whichever thread gets
  the mutex first; the final table has two lines and a separator for each; and the exit code is the
  verdict of that table: 0 exactly when no line of it ends in FAIL, that is, when every session succeeded
  for client and server.
\<close>

theorem final_table_verdict:
  assumes "client_main opts env = Inr (code, st, cc)"
    and "0 < ro_numPorts opts" and "0 < ro_totalRuns opts"
    and "\<forall>run. mset (re_order env run) = mset [0..<nat (ro_numPorts opts)]"
  shows "map pt_port (rm_history st) = concat (replicate (nat (ro_totalRuns opts))
      (map (\<lambda>i. ro_testPort opts + int i) [0..<nat (ro_numPorts opts)])) \<and>
    (code = 0 \<longleftrightarrow> ''FAIL'' \<notin> status_of ` set (final_summary st)) \<and>
    (code = 0 \<longleftrightarrow> (\<forall>e \<in> set (rm_history st). summary_ok e)) \<and>
    length (final_summary st) = 6 + 3 * nat (ro_totalRuns opts) * nat (ro_numPorts opts)"
proof -
  have runs: "all_runs opts env [1..ro_totalRuns opts] new_RunnerState = Inr st"
    "code = (if rm_failure st then 1 else 0)"
    using assms(1-3) by (auto simp: client_main_def res_bind_eq_Inr)
  have "orders_ok opts env" using assms(4) by (simp add: orders_ok_def)
  from all_runs_Inr [OF runs(1) this] have hist:
    "map pt_port (rm_history st) = concat (replicate (nat (ro_totalRuns opts))
       (map (\<lambda>i. ro_testPort opts + int i) [0..<nat (ro_numPorts opts)]))"
    "rm_failure st \<longleftrightarrow> (\<exists>e \<in> set (rm_history st). \<not> summary_ok e)"
    by (auto simp: new_RunnerState_def)
  have "length (rm_history st) = nat (ro_totalRuns opts) * nat (ro_numPorts opts)"
    using arg_cong [OF hist(1), of length] by (simp add: length_concat sum_list_replicate)
  moreover have "length (summary_table es) = 2 + 3 * length es" for es
    by (induction es) (simp_all add: summary_table_def session_lines_def case_prod_unfold)
  moreover have "''FAIL'' \<notin> status_of ` set (summary_title side)" if "side = ''Client-side''" for side
    using that by (simp add: summary_title_def status_of_def numeral_eq_Suc)
  ultimately show ?thesis
    using hist runs(2) summary_table_verdict [of "map runner_entry (rm_history st)"]
    by (simp add: final_summary_def image_Un) (auto simp: summary_title_def runner_entry_def summary_ok_def)
qed

theorem final_table_verdict_witness:
  "''FAIL'' \<in> status_of ` set (final_summary offline_state) \<and> length (final_summary offline_state) = 12"
proof -
  have "[0..<nat 2] = [0, 1]" by (simp add: numeral_2_eq_2)
  then show ?thesis
    using final_table_verdict [OF offline_main] by (simp add: demo_options_def offline_env_def)
qed

end
