(* ===== verification/ServerLoop.thy ===== *)
theory ServerLoop
  imports SummaryTable
begin

section \<open>The control server with many connections\<close>

text \<open>
  \<open>ControlServer::Start\<close>, \<open>Stop\<close>, \<open>JoinClientThreads\<close>: the thread that accepts, and one thread per
  connection running \<open>HandleClient\<close>. The threads share the history (behind its mutex), \<open>running\<close> and the
  listening socket. One message of a connection is one step, since it touches the shared state at most
  once. \<open>sl_closes\<close> counts how often the listening socket was closed, \<open>th_records\<close> and \<open>th_input\<close> are
  ghost fields. The main fact: a connection is served as if it were the only one, and the final history is
  a shuffle of what the connections record (\<open>server_history\<close>).
\<close>

subsection \<open>Start-up\<close>

record start_env =
  st_addrinfo :: bool
  st_socket :: bool
  st_bind :: bool
  st_listen :: bool

datatype thread_point = Serving nat | Leaving | Gone

record ClientThread =
  th_env :: server_env
  th_input :: Socket
  th_session :: ServerSession
  th_point :: thread_point
  th_records :: "(TestResult \<times> TestResult) list"

datatype main_point = NotStarted | AtLoopTest | Accepting | JoiningClients | StartReturned

record ServerLoop =
  sl_server :: ControlServer
  sl_closes :: nat
  sl_threads :: "ClientThread list"
  sl_main :: main_point
  sl_printed :: "string list"

definition new_ServerLoop :: ServerLoop where
  "new_ServerLoop = \<lparr>sl_server = \<lparr>cs_running = False, cs_listening = False, cs_history = []\<rparr>, sl_closes = 0,
     sl_threads = [], sl_main = NotStarted, sl_printed = []\<rparr>"

definition set_server :: "(ControlServer \<Rightarrow> ControlServer) \<Rightarrow> ServerLoop \<Rightarrow> ServerLoop" where
  "set_server f L = L\<lparr>sl_server := f (sl_server L)\<rparr>"

text \<open>Up to the loop. After a failed \<open>bind\<close> or \<open>listen\<close>, \<open>listenSocket\<close> keeps the closed descriptor.\<close>

definition server_start :: "start_env \<Rightarrow> ServerLoop \<Rightarrow> ServerLoop" where
  "server_start env L =
     (if \<not> st_addrinfo env then L\<lparr>sl_main := StartReturned\<rparr>
      else if \<not> st_socket env then L\<lparr>sl_main := StartReturned\<rparr>
      else let L = set_server (\<lambda>cs. cs\<lparr>cs_listening := True\<rparr>) L;
               failed = L\<lparr>sl_closes := Suc (sl_closes L), sl_main := StartReturned\<rparr>
        in if \<not> st_bind env then failed
           else if \<not> st_listen env then failed
           else set_server (\<lambda>cs. cs\<lparr>cs_running := True\<rparr>) (L\<lparr>sl_main := AtLoopTest\<rparr>))"

definition server_stop :: "ServerLoop \<Rightarrow> ServerLoop" where
  "server_stop L =
     set_server cs_stop (if cs_listening (sl_server L) then L\<lparr>sl_closes := Suc (sl_closes L)\<rparr> else L)"

subsection \<open>The accepting thread\<close>

definition loop_test :: "ServerLoop \<Rightarrow> ServerLoop" where
  "loop_test L = L\<lparr>sl_main := (if cs_running (sl_server L) then Accepting else JoiningClients)\<rparr>"

definition new_thread :: "server_env \<Rightarrow> Socket \<Rightarrow> ClientThread" where
  "new_thread env sock = \<lparr>th_env = env, th_input = sock, th_session = new_session sock, th_point = Serving 0,
     th_records = []\<rparr>"

text \<open>\<open>accept\<close> returns a connection, or fails.\<close>

definition accept_returns :: "(server_env \<times> Socket) option \<Rightarrow> ServerLoop \<Rightarrow> ServerLoop" where
  "accept_returns conn L =
     (case conn of
        None \<Rightarrow> L\<lparr>sl_main := AtLoopTest\<rparr>
      | Some (env, sock) \<Rightarrow> L\<lparr>sl_threads := sl_threads L @ [new_thread env sock], sl_main := AtLoopTest\<rparr>)"

text \<open>All threads joined: they are removed, and the summary is printed.\<close>

definition finish_start :: "ServerLoop \<Rightarrow> ServerLoop" where
  "finish_start L = L\<lparr>sl_main := StartReturned, sl_printed := PrintFinalSummary (cs_history (sl_server L))\<rparr>"

subsection \<open>The threads of the connections\<close>

text \<open>
  One turn of the loop of \<open>HandleClient\<close>, as in \<open>handle_loop\<close>, and the cleanup after it. \<open>handle_message\<close>
  says what happens to the shared state: nothing, a record more, or \<open>Stop\<close>.
\<close>

definition thread_turn :: "ControlServer \<Rightarrow> ClientThread \<Rightarrow> ControlServer \<times> ClientThread" where
  "thread_turn cs th =
     (case th_point th of
        Serving k \<Rightarrow>
          (case ReceiveMessage (ss_socket (th_session th)) of
             (msg, sock) \<Rightarrow>
               let st = th_session th\<lparr>ss_socket := sock\<rparr> in
               if msg = [] then (cs, th\<lparr>th_session := st, th_point := Leaving\<rparr>)
               else case handle_message (th_env th) k msg (cs, st) of
                 (out, cs', st') \<Rightarrow>
                   (cs', th\<lparr>th_session := st',
                     th_point := (if out = NextMessage then Serving (Suc k) else Leaving),
                     th_records := th_records th @ drop (length (cs_history cs)) (cs_history cs')\<rparr>))
      | Leaving \<Rightarrow>
          (cs, th\<lparr>th_session := (if ss_running (th_session th) then terminate_current (th_session th) else th_session th),
                  th_point := Gone\<rparr>)
      | Gone \<Rightarrow> (cs, th))"

definition thread_step :: "nat \<Rightarrow> ServerLoop \<Rightarrow> ServerLoop" where
  "thread_step i L =
     (case thread_turn (sl_server L) (sl_threads L ! i) of
        (cs, th) \<Rightarrow>
          L\<lparr>sl_server := cs, sl_threads := (sl_threads L)[i := th],
            sl_closes := sl_closes L + (if cs_listening (sl_server L) \<and> \<not> cs_listening cs then 1 else 0)\<rparr>)"

subsection \<open>The interleaving\<close>

inductive server_step :: "ServerLoop \<Rightarrow> ServerLoop \<Rightarrow> bool" where
  test: "sl_main L = AtLoopTest \<Longrightarrow> server_step L (loop_test L)"
| accepted: "sl_main L = Accepting \<Longrightarrow> server_step L (accept_returns conn L)"
| thread: "i < length (sl_threads L) \<Longrightarrow> th_point (sl_threads L ! i) \<noteq> Gone \<Longrightarrow> server_step L (thread_step i L)"
| joined: "sl_main L = JoiningClients \<Longrightarrow> \<forall>th \<in> set (sl_threads L). th_point th = Gone \<Longrightarrow>
    server_step L (finish_start L)"

inductive server_reachable :: "ServerLoop \<Rightarrow> bool" where
  start: "server_reachable (server_start env new_ServerLoop)"
| step: "server_reachable L \<Longrightarrow> server_step L L' \<Longrightarrow> server_reachable L'"

subsection \<open>What a message does to the shared state\<close>

text \<open>The session does not depend on the shared state, and changes it in a way that does not either.\<close>

lemma handle_message_shared:
  assumes "handle_message env k msg (cs, st) = (out, cs', st')"
  shows "\<exists>recs stop. (\<forall>ds. handle_message env k msg (ds, st) =
      (out, (if stop then cs_stop ds else ds\<lparr>cs_history := cs_history ds @ recs\<rparr>), st')) \<and>
    length recs \<le> 1 \<and> (out = NextMessage \<longrightarrow> recs = [] \<and> \<not> stop) \<and> (stop \<longrightarrow> recs = [])"
proof (cases "GetMessageType (se_parse env) msg")
  case (Inl e)
  with assms show ?thesis by (intro exI [of _ "[]"] exI [of _ False]) (auto simp: handle_message_def)
next
  case (Inr t)
  consider "t = MT_CONFIG_REQUEST" | "t = MT_RESULTS_REQUEST" | "t = MT_SERVER_SHUTDOWN"
    | "t \<notin> {MT_CONFIG_REQUEST, MT_RESULTS_REQUEST, MT_SERVER_SHUTDOWN}" by blast
  then show ?thesis
  proof cases
    case 2
    show ?thesis
    proof (cases "out = LeaveLoop")
      case True
      with assms Inr 2 obtain c s where
        "\<forall>ds. handle_message env k msg (ds, st) = (LeaveLoop, ds\<lparr>cs_history := cs_history ds @ [(c, s)]\<rparr>, st')"
        by (auto simp: handle_message_def handle_results_def split: sum.splits prod.splits)
      with True show ?thesis by (intro exI [of _ "[(c, s)]"] exI [of _ False]) auto
    next
      case False
      with assms Inr 2 show ?thesis
        by (intro exI [of _ "[]"] exI [of _ False])
          (auto simp: handle_message_def handle_results_def split: sum.splits prod.splits)
    qed
  next
    case 3
    with assms Inr show ?thesis by (intro exI [of _ "[]"] exI [of _ True]) (auto simp: handle_message_def)
  qed (use assms Inr in \<open>intro exI [of _ "[]"] exI [of _ False],
      auto simp: handle_message_def split: prod.splits\<close>)+
qed

subsection \<open>Each connection is served as if alone\<close>

definition lone_server :: ControlServer where
  "lone_server = \<lparr>cs_running = True, cs_listening = True, cs_history = []\<rparr>"

definition served_alone :: "ClientThread \<Rightarrow> ControlServer \<times> ServerSession" where
  "served_alone th = handle_loop (th_env th) 0 (lone_server, new_session (th_input th))"

definition thread_ok :: "ClientThread \<Rightarrow> bool" where
  "thread_ok th \<longleftrightarrow>
     (case th_point th of
        Serving k \<Rightarrow> served_alone th = handle_loop (th_env th) k (lone_server, th_session th) \<and> th_records th = []
      | Leaving \<Rightarrow> served_alone th = (fst (served_alone th), th_session th) \<and>
          th_records th = cs_history (fst (served_alone th))
      | Gone \<Rightarrow> HandleClient (th_env th) lone_server (th_input th) = (fst (served_alone th), th_session th) \<and>
          th_records th = cs_history (fst (served_alone th)))"

text \<open>The connection has asked for the shutdown.\<close>

definition asked_shutdown :: "ClientThread \<Rightarrow> bool" where
  "asked_shutdown th \<longleftrightarrow> (\<forall>k. th_point th \<noteq> Serving k) \<and> \<not> cs_running (fst (served_alone th))"

lemma thread_turn_ok:
  assumes "thread_ok th" and "thread_turn cs th = (cs', th')"
  shows "thread_ok th' \<and> (\<exists>new. th_records th' = th_records th @ new \<and> cs_history cs' = cs_history cs @ new) \<and>
    (cs_running cs' \<longleftrightarrow> cs_running cs \<and> (asked_shutdown th' \<longrightarrow> asked_shutdown th)) \<and>
    (asked_shutdown th \<longrightarrow> asked_shutdown th') \<and>
    (cs_listening cs' \<longrightarrow> cs_listening cs)"
proof (cases "th_point th")
  case (Serving k)
  let ?env = "th_env th"
  obtain msg sock where r: "ReceiveMessage (ss_socket (th_session th)) = (msg, sock)" by force
  have alone: "served_alone th = handle_loop ?env k (lone_server, th_session th)" "th_records th = []"
    using assms(1) Serving by (simp_all add: thread_ok_def)
  show ?thesis
  proof (cases "msg = []")
    case True
    then have th': "cs' = cs" "th' = th\<lparr>th_session := th_session th\<lparr>ss_socket := sock\<rparr>, th_point := Leaving\<rparr>"
      using assms(2) Serving r by (simp_all add: thread_turn_def)
    have "served_alone th = (lone_server, th_session th\<lparr>ss_socket := sock\<rparr>)"
      using alone(1) r True by (simp add: handle_loop.simps [of _ _ lone_server])
    moreover have "served_alone th' = served_alone th" by (simp add: served_alone_def th'(2))
    ultimately show ?thesis
      using alone(2) Serving by (simp add: th' thread_ok_def asked_shutdown_def lone_server_def)
  next
    case False
    let ?st = "th_session th\<lparr>ss_socket := sock\<rparr>"
    obtain out cs1 st1 where h: "handle_message ?env k msg (cs, ?st) = (out, cs1, st1)" by (metis prod_cases3)
    from handle_message_shared [OF h] obtain recs stop where shared:
      "\<And>ds. handle_message ?env k msg (ds, ?st) =
        (out, (if stop then cs_stop ds else ds\<lparr>cs_history := cs_history ds @ recs\<rparr>), st1)"
      "out = NextMessage \<Longrightarrow> recs = [] \<and> \<not> stop" "stop \<Longrightarrow> recs = []" by blast
    have cs1: "cs1 = (if stop then cs_stop cs else cs\<lparr>cs_history := cs_history cs @ recs\<rparr>)"
      using shared(1) [of cs] h by simp
    have hist: "drop (length (cs_history cs)) (cs_history cs1) = recs"
      using shared(3) by (simp add: cs1 cs_stop_def)
    have th': "cs' = cs1" "th' = th\<lparr>th_session := st1,
        th_point := (if out = NextMessage then Serving (Suc k) else Leaving), th_records := recs\<rparr>"
      using assms(2) Serving r False h alone(2) by (simp_all add: thread_turn_def Let_def hist)
    let ?d = "if stop then cs_stop lone_server else lone_server\<lparr>cs_history := recs\<rparr>"
    have step: "served_alone th = (if out = NextMessage then handle_loop ?env (Suc k) (?d, st1) else (?d, st1))"
      unfolding alone(1)
      by (subst handle_loop.simps) (simp add: r False shared(1), simp add: lone_server_def)
    moreover have "served_alone th' = served_alone th" by (simp add: served_alone_def th'(2))
    moreover have "?d = lone_server" if "out = NextMessage" using shared(2) [OF that] by (simp add: lone_server_def)
    ultimately show ?thesis
      using alone(2) Serving shared(2,3)
      by (cases "out = NextMessage")
        (auto simp: th' thread_ok_def asked_shutdown_def cs1 cs_stop_def lone_server_def)
  qed
next
  case Leaving
  then have th': "cs' = cs" "th' = th\<lparr>th_session := (if ss_running (th_session th)
      then terminate_current (th_session th) else th_session th), th_point := Gone\<rparr>"
    using assms(2) by (simp_all add: thread_turn_def)
  have same: "served_alone th' = served_alone th" by (simp add: served_alone_def th'(2))
  have "thread_ok th'"
    using assms(1) Leaving unfolding thread_ok_def same
    by (auto simp: th' HandleClient_def served_alone_def split: prod.splits)
  then show ?thesis using Leaving same by (simp add: th' asked_shutdown_def)
next
  case Gone
  with assms show ?thesis by (auto simp: thread_turn_def)
qed

subsection \<open>The server as a whole\<close>

definition loop_inv :: "ServerLoop \<Rightarrow> bool" where
  "loop_inv L \<longleftrightarrow> (\<forall>th \<in> set (sl_threads L). thread_ok th) \<and>
     mset (cs_history (sl_server L)) = (\<Sum>th \<leftarrow> sl_threads L. mset (th_records th)) \<and>
     (sl_main L = StartReturned \<or>
        (cs_running (sl_server L) \<longleftrightarrow> \<not> (\<exists>th \<in> set (sl_threads L). asked_shutdown th))) \<and>
     (sl_main L = JoiningClients \<longrightarrow> \<not> cs_running (sl_server L)) \<and>
     (sl_main L = StartReturned \<longrightarrow> (\<forall>th \<in> set (sl_threads L). th_point th = Gone)) \<and>
     (sl_main L = StartReturned \<and> sl_threads L \<noteq> [] \<longrightarrow>
        sl_printed L = PrintFinalSummary (cs_history (sl_server L)) \<and> (\<exists>th \<in> set (sl_threads L). asked_shutdown th))"

lemma start_inv: "loop_inv (server_start env new_ServerLoop)"
  by (auto simp: loop_inv_def server_start_def set_server_def new_ServerLoop_def Let_def)

lemma new_thread_ok: "thread_ok (new_thread env sock) \<and> \<not> asked_shutdown (new_thread env sock)"
  by (simp add: thread_ok_def new_thread_def served_alone_def asked_shutdown_def)

lemma accepted_inv:
  assumes "loop_inv L" and "sl_main L = Accepting"
  shows "loop_inv (accept_returns conn L)"
proof (cases conn)
  case (Some c)
  obtain env sock where c: "c = (env, sock)" by force
  have "th_records (new_thread env sock) = []" by (simp add: new_thread_def)
  with assms Some c new_thread_ok [of env sock] show ?thesis
    by (auto simp: loop_inv_def accept_returns_def)
qed (use assms in \<open>auto simp: loop_inv_def accept_returns_def\<close>)

lemma sum_list_update_msets:
  "i < length xs \<Longrightarrow> f y = f (xs ! i) + d \<Longrightarrow> (\<Sum>x \<leftarrow> xs[i := y]. f x) = (\<Sum>x \<leftarrow> xs. f x) + (d :: 'a multiset)"
  by (induction xs arbitrary: i) (auto simp: ac_simps split: nat.split)

lemma thread_inv:
  assumes "loop_inv L" and "i < length (sl_threads L)" and "th_point (sl_threads L ! i) \<noteq> Gone"
  shows "loop_inv (thread_step i L)"
proof -
  let ?th = "sl_threads L ! i"
  obtain cs th' where t: "thread_turn (sl_server L) ?th = (cs, th')" by force
  have mem: "?th \<in> set (sl_threads L)" using assms(2) by simp
  then have "thread_ok ?th" using assms(1) by (simp add: loop_inv_def)
  from thread_turn_ok [OF this t] obtain new where ok: "thread_ok th'"
    "th_records th' = th_records ?th @ new" "cs_history cs = cs_history (sl_server L) @ new"
    "cs_running cs \<longleftrightarrow> cs_running (sl_server L) \<and> (asked_shutdown th' \<longrightarrow> asked_shutdown ?th)"
    "asked_shutdown ?th \<longrightarrow> asked_shutdown th'" by blast
  have L': "sl_server (thread_step i L) = cs" "sl_threads (thread_step i L) = (sl_threads L)[i := th']"
    "sl_main (thread_step i L) = sl_main L" "sl_printed (thread_step i L) = sl_printed L"
    using t by (simp_all add: thread_step_def)
  have main: "sl_main L \<noteq> StartReturned" using assms(1,3) mem by (auto simp: loop_inv_def)
  have "(\<Sum>th \<leftarrow> (sl_threads L)[i := th']. mset (th_records th)) =
      (\<Sum>th \<leftarrow> sl_threads L. mset (th_records th)) + mset new"
    using ok(2) by (intro sum_list_update_msets assms(2)) simp
  moreover have threads: "set ((sl_threads L)[i := th']) \<subseteq> insert th' (set (sl_threads L))" "th' \<in> set ((sl_threads L)[i := th'])"
    by (rule set_update_subset_insert, rule set_update_memI [OF assms(2)])
  moreover have "(\<exists>th \<in> set ((sl_threads L)[i := th']). asked_shutdown th) \<longleftrightarrow>
      (\<exists>th \<in> set (sl_threads L). asked_shutdown th) \<or> asked_shutdown th'"
  proof -
    have "\<exists>th \<in> set ((sl_threads L)[i := th']). asked_shutdown th" if th: "th \<in> set (sl_threads L)" "asked_shutdown th" for th
    proof -
      obtain j where j: "j < length (sl_threads L)" "sl_threads L ! j = th" using th(1) unfolding in_set_conv_nth by blast
      have "asked_shutdown ((sl_threads L)[i := th'] ! j)" using j th(2) ok(5) by (cases "j = i") auto
      then show ?thesis using j(1) by (metis length_list_update nth_mem)
    qed
    with threads show ?thesis by blast
  qed
  ultimately show ?thesis
    using assms(1) ok main mem unfolding loop_inv_def L' by auto
qed

lemma loop_inv_step:
  assumes "server_step L L'" and "loop_inv L"
  shows "loop_inv L'"
  using assms(1)
proof cases
  case test
  with assms(2) show ?thesis by (auto simp: loop_inv_def loop_test_def)
next
  case joined
  with assms(2) show ?thesis by (auto simp: loop_inv_def finish_start_def)
qed (use assms(2) accepted_inv thread_inv in auto)

lemma server_reachable_inv: "server_reachable L \<Longrightarrow> loop_inv L"
  by (induction rule: server_reachable.induct) (auto intro: start_inv loop_inv_step)

text \<open>
  C26: However the connections' threads, the accepting thread and a shutdown interleave: each connection
  ends exactly as if it had been served alone by \<open>HandleClient\<close>; the shared history is, at any time, a
  shuffle of what the connections have recorded; the server stops only after a connection asked for it;
  and when \<open>Start\<close> returns after having served, all connections have ended and the final summary printed
  is the table of that history.
\<close>

theorem server_history:
  assumes "server_reachable L"
  shows "(\<forall>th \<in> set (sl_threads L). th_point th = Gone \<longrightarrow>
      th_session th = snd (HandleClient (th_env th) lone_server (th_input th)) \<and>
      th_records th = cs_history (fst (HandleClient (th_env th) lone_server (th_input th)))) \<and>
    mset (cs_history (sl_server L)) = (\<Sum>th \<leftarrow> sl_threads L. mset (th_records th)) \<and>
    (sl_main L = JoiningClients \<longrightarrow> (\<exists>th \<in> set (sl_threads L). asked_shutdown th)) \<and>
    (sl_main L = StartReturned \<and> sl_threads L \<noteq> [] \<longrightarrow>
       (\<forall>th \<in> set (sl_threads L). th_point th = Gone) \<and>
       sl_printed L = PrintFinalSummary (cs_history (sl_server L)))"
proof -
  have inv: "loop_inv L" by (rule server_reachable_inv [OF assms])
  have "th_session th = snd (HandleClient (th_env th) lone_server (th_input th)) \<and>
      th_records th = cs_history (fst (HandleClient (th_env th) lone_server (th_input th)))"
    if "th \<in> set (sl_threads L)" "th_point th = Gone" for th
    using inv that by (auto simp: loop_inv_def thread_ok_def)
  then show ?thesis using inv by (auto simp: loop_inv_def)
qed

subsection \<open>The listening socket\<close>

text \<open>
  After a failed \<open>bind\<close> or \<open>listen\<close> the listening socket is closed twice: \<open>Start\<close> closes it without resetting
  \<open>listenSocket\<close>, so that \<open>Stop\<close>, which the destructor calls, closes the descriptor again.
\<close>

lemma failed_start_closes_twice:
  assumes "st_addrinfo env" "st_socket env" "\<not> st_bind env \<or> \<not> st_listen env"
  shows "sl_closes (server_stop (server_start env new_ServerLoop)) = 2"
  using assms by (auto simp: server_stop_def server_start_def set_server_def new_ServerLoop_def cs_stop_def Let_def)

text \<open>
  Closing the socket does not wake an \<open>accept\<close> on Linux: a server in \<open>accept\<close> when the shutdown comes
  stays there until one more connection arrives or \<open>accept\<close> fails.
\<close>

lemma shutdown_needs_accept:
  assumes "sl_main L = Accepting" and "\<forall>th \<in> set (sl_threads L). th_point th = Gone" and "server_step L L'"
  shows "\<exists>conn. L' = accept_returns conn L"
  using assms(3)
proof cases
  case (thread i)
  with assms(2) show ?thesis by (metis nth_mem)
qed (use assms(1) in auto)

subsection \<open>Witness\<close>

text \<open>One connection, whose only message is the shutdown.\<close>

definition sw_env :: server_env where
  "sw_env = demo_server_env\<lparr>se_parse := (\<lambda>s. Inr (message_json ServerShutdownMessage))\<rparr>"

definition sw_loop :: "main_point \<Rightarrow> bool \<Rightarrow> ClientThread list \<Rightarrow> ServerLoop" where
  "sw_loop m running ths = \<lparr>sl_server = \<lparr>cs_running = running, cs_listening = running, cs_history = []\<rparr>,
     sl_closes = (if running then 0 else 1), sl_threads = ths, sl_main = m, sl_printed = []\<rparr>"

lemma sw_served:
  "\<exists>sock. ReceiveMessage (demo_requests [''a'']) = (''a'', sock)"
proof -
  have "be32 n \<noteq> []" for n by (metis length_be32 list.size(3) zero_neq_numeral)
  then have "chunks_ok (demo_requests [''a''])" "sk_stream (demo_requests [''a'']) = frame ''a'' @ []"
    by (simp_all add: demo_requests_def chunks_ok_def sk_stream_def frame_def)
  from ReceiveMessage_frame [OF this] show ?thesis by (auto simp: sendable_message_def MAX_MESSAGE_SIZE_def)
qed

lemma sw_reachable: "\<exists>th. server_reachable (sw_loop StartReturned False [th]) \<and> th_point th = Gone \<and>
    th_env th = sw_env \<and> th_input th = demo_requests [''a'']"
proof -
  let ?th = "new_thread sw_env (demo_requests [''a''])"
  obtain sock where sock: "ReceiveMessage (demo_requests [''a'']) = (''a'', sock)" using sw_served by blast
  define th1 where "th1 = ?th\<lparr>th_session := (new_session sock), th_point := Leaving\<rparr>"
  define th2 where "th2 = th1\<lparr>th_point := Gone\<rparr>"
  have type: "GetMessageType (se_parse sw_env) m = Inr MT_SERVER_SHUTDOWN" for m
    using GetMessageType_message [of "\<lambda>s. Inr (message_json ServerShutdownMessage)" m ServerShutdownMessage]
    by (simp add: sw_env_def)
  have turn1: "thread_turn lone_server ?th = (cs_stop lone_server, th1)"
    using sock type by (simp add: thread_turn_def new_thread_def new_session_def handle_message_def th1_def Let_def
        cs_stop_def lone_server_def)
  have turn2: "thread_turn cs th1 = (cs, th2)" for cs
    by (simp add: thread_turn_def th1_def th2_def new_thread_def new_session_def)
  let ?R = server_reachable
  have step: "?R L'" if "?R L" "server_step L M" "M = L'" for L M L' using that server_reachable.step by blast
  have A: "?R (sw_loop AtLoopTest True [])"
    using server_reachable.start [of "\<lparr>st_addrinfo = True, st_socket = True, st_bind = True, st_listen = True\<rparr>"]
    by (simp add: server_start_def set_server_def new_ServerLoop_def sw_loop_def Let_def)
  have B: "?R (sw_loop Accepting True [])"
    by (rule step [OF A server_step.test]) (simp_all add: sw_loop_def loop_test_def)
  have C: "?R (sw_loop AtLoopTest True [?th])"
    by (rule step [OF B server_step.accepted [where conn = "Some (sw_env, demo_requests [''a''])"]])
      (simp_all add: sw_loop_def accept_returns_def)
  have D: "?R (sw_loop AtLoopTest False [th1])"
    by (rule step [OF C server_step.thread [where i = 0]])
      (use turn1 in \<open>simp_all add: sw_loop_def thread_step_def lone_server_def cs_stop_def new_thread_def\<close>)
  have E: "?R (sw_loop AtLoopTest False [th2])"
    by (rule step [OF D server_step.thread [where i = 0]])
      (use turn2 in \<open>simp_all add: sw_loop_def thread_step_def th1_def\<close>)
  have F: "?R (sw_loop JoiningClients False [th2])"
    by (rule step [OF E server_step.test]) (simp_all add: sw_loop_def loop_test_def)
  have "?R (sw_loop StartReturned False [th2])"
    by (rule step [OF F server_step.joined]) (simp_all add: sw_loop_def finish_start_def PrintFinalSummary_def th2_def)
  then show ?thesis by (intro exI [of _ th2]) (simp add: th2_def th1_def new_thread_def)
qed

theorem server_history_witness:
  "\<exists>th :: ClientThread. th_env th = sw_env \<and> th_session th = snd (HandleClient sw_env lone_server (demo_requests [''a''])) \<and>
     th_records th = []"
proof -
  obtain th where th: "server_reachable (sw_loop StartReturned False [th])" "th_point th = Gone"
    "th_env th = sw_env" "th_input th = demo_requests [''a'']" using sw_reachable by blast
  have "th_session th = snd (HandleClient (th_env th) lone_server (th_input th)) \<and> th_records th = []"
    using server_history [OF th(1)] th(2) by (auto simp: sw_loop_def)
  then show ?thesis using th(3,4) by (intro exI [of _ th] conjI) simp_all
qed

end
