(* ===== verification/EpollNet.thy ===== *)
theory EpollNet
  imports Protocol "HOL-Library.Sublist"
begin

section \<open>The Linux network backend\<close>

text \<open>
  \<open>MyIperf/src/myiperf/platform/LinuxAsyncNetworkInterface.cpp\<close>: one epoll thread and callbacks. A
  callback is a number, the awaiter it resumes; \<open>ln_done\<close> records the callbacks invoked, in order,
  with what they were given. \<open>ln_sent\<close> are the bytes that the kernel accepted on each descriptor. The
  critical sections under \<open>socketDataMutex\<close> are atomic, and so are the operations called by the
  coroutines; the handling of one event is cut where it invokes callbacks, since these run code that
  may call the interface again. The answers of the system calls are arguments.
\<close>

datatype LinuxOperationType = OpRecv | OpSend | OpAccept | OpConnect

record SocketData =
  sd_operationType :: LinuxOperationType
  sd_bufferSize :: nat
  sd_sendData :: bytes
  sd_recvCallback :: "nat option"
  sd_sendCallback :: "nat option"
  sd_connectCallback :: "nat option"
  sd_acceptCallback :: "nat option"
  sd_pollIn :: bool
  sd_pollOut :: bool

definition new_SocketData :: "LinuxOperationType \<Rightarrow> SocketData" where
  "new_SocketData op = \<lparr>sd_operationType = op, sd_bufferSize = 0, sd_sendData = [], sd_recvCallback = None,
     sd_sendCallback = None, sd_connectCallback = None, sd_acceptCallback = None,
     sd_pollIn = False, sd_pollOut = False\<rparr>"

datatype net_done =
    RecvDone nat bytes
  | SendDone nat nat
  | ConnectDone nat bool
  | AcceptDone nat bool string int

record LinuxNet =
  ln_listenFd :: int
  ln_clientFd :: int
  ln_epollOpen :: bool
  ln_running :: bool
  ln_map :: "int \<Rightarrow> SocketData option"
  ln_sent :: "int \<Rightarrow> bytes"
  ln_done :: "net_done list"

definition new_LinuxNet :: LinuxNet where
  "new_LinuxNet = \<lparr>ln_listenFd = -1, ln_clientFd = -1, ln_epollOpen = False, ln_running = False,
     ln_map = (\<lambda>fd. None), ln_sent = (\<lambda>fd. []), ln_done = []\<rparr>"

definition invoke :: "net_done \<Rightarrow> LinuxNet \<Rightarrow> LinuxNet" where
  "invoke d N = N\<lparr>ln_done := ln_done N @ [d]\<rparr>"

definition invoke_opt :: "nat option \<Rightarrow> (nat \<Rightarrow> net_done) \<Rightarrow> LinuxNet \<Rightarrow> LinuxNet" where
  "invoke_opt cb d N = (case cb of None \<Rightarrow> N | Some c \<Rightarrow> invoke (d c) N)"

definition put_socket :: "int \<Rightarrow> SocketData \<Rightarrow> LinuxNet \<Rightarrow> LinuxNet" where
  "put_socket fd sd N = N\<lparr>ln_map := (ln_map N)(fd := Some sd)\<rparr>"

text \<open>\<open>removeFdFromEpoll\<close>, after \<open>::close(fd)\<close>.\<close>

definition removeFd :: "int \<Rightarrow> LinuxNet \<Rightarrow> LinuxNet" where
  "removeFd fd N = N\<lparr>ln_map := (ln_map N)(fd := None)\<rparr>"

subsection \<open>Setting up and closing\<close>

text \<open>The listening socket, if one can be made, and whether each of the other calls succeeds.\<close>

record init_env =
  ie_epoll :: bool
  ie_socket :: "int option"
  ie_nonBlocking :: bool
  ie_validIp :: bool
  ie_bind :: bool
  ie_listen :: bool

definition setup_listen :: "init_env \<Rightarrow> string \<Rightarrow> LinuxNet \<Rightarrow> bool \<times> LinuxNet" where
  "setup_listen env ip N =
     (case ie_socket env of
        None \<Rightarrow> (False, N\<lparr>ln_listenFd := -1, ln_epollOpen := False\<rparr>)
      | Some fd \<Rightarrow>
          let N = N\<lparr>ln_listenFd := fd\<rparr>; failed = (False, N\<lparr>ln_epollOpen := False\<rparr>)
          in if \<not> ie_nonBlocking env then failed
             else if \<not> ie_validIp env \<and> ip \<noteq> [] then failed
             else if \<not> ie_bind env then failed
             else if \<not> ie_listen env then failed
             else (True, put_socket fd ((new_SocketData OpAccept)\<lparr>sd_pollIn := True\<rparr>) N))"

definition net_initialize :: "init_env \<Rightarrow> string \<Rightarrow> int \<Rightarrow> LinuxNet \<Rightarrow> bool \<times> LinuxNet" where
  "net_initialize env ip port_number N =
     (if \<not> ie_epoll env then (False, N\<lparr>ln_epollOpen := False\<rparr>)
      else let N = N\<lparr>ln_epollOpen := True\<rparr>
        in case (if port_number \<noteq> 0 then setup_listen env ip N else (True, N)) of
             (False, N) \<Rightarrow> (False, N)
           | (True, N) \<Rightarrow> (True, N\<lparr>ln_running := True\<rparr>))"

definition prepareServer :: "init_env \<Rightarrow> string \<Rightarrow> int \<Rightarrow> LinuxNet \<Rightarrow> bool \<times> LinuxNet" where
  "prepareServer env ip port_number N = net_initialize env ip port_number N"

definition net_close :: "LinuxNet \<Rightarrow> LinuxNet" where
  "net_close N =
     (if \<not> ln_running N then N
      else N\<lparr>ln_running := False, ln_epollOpen := False, ln_listenFd := -1, ln_clientFd := -1,
             ln_map := (\<lambda>fd. None)\<rparr>)"

subsection \<open>Operations of the coroutines\<close>

datatype connect_answer = ConnectNow | ConnectInProgress | ConnectFails

record connect_env =
  co_socket :: "int option"
  co_nonBlocking :: bool
  co_connect :: connect_answer

definition doAsyncConnect :: "connect_env \<Rightarrow> nat \<Rightarrow> LinuxNet \<Rightarrow> LinuxNet" where
  "doAsyncConnect env cb N =
     (case co_socket env of
        None \<Rightarrow> invoke (ConnectDone cb False) (N\<lparr>ln_clientFd := -1\<rparr>)
      | Some fd \<Rightarrow>
          if \<not> co_nonBlocking env then invoke (ConnectDone cb False) (N\<lparr>ln_clientFd := -1\<rparr>)
          else let N = N\<lparr>ln_clientFd := fd\<rparr>
            in case co_connect env of
                 ConnectNow \<Rightarrow> invoke (ConnectDone cb True) (put_socket fd (new_SocketData OpRecv) N)
               | ConnectFails \<Rightarrow> invoke (ConnectDone cb False) (N\<lparr>ln_clientFd := -1\<rparr>)
               | ConnectInProgress \<Rightarrow> put_socket fd
                   ((new_SocketData OpConnect)\<lparr>sd_connectCallback := Some cb, sd_pollOut := True\<rparr>) N)"

definition doAsyncAccept :: "nat \<Rightarrow> LinuxNet \<Rightarrow> LinuxNet" where
  "doAsyncAccept cb N =
     (if ln_listenFd N \<noteq> -1
      then (case ln_map N (ln_listenFd N) of
              None \<Rightarrow> N
            | Some sd \<Rightarrow> put_socket (ln_listenFd N) (sd\<lparr>sd_acceptCallback := Some cb\<rparr>) N)
      else N)"

definition doAsyncSend :: "bytes \<Rightarrow> nat \<Rightarrow> LinuxNet \<Rightarrow> LinuxNet" where
  "doAsyncSend data cb N =
     (if ln_clientFd N = -1 then invoke (SendDone cb 0) N
      else case ln_map N (ln_clientFd N) of
             None \<Rightarrow> invoke (SendDone cb 0) N
           | Some sd \<Rightarrow> put_socket (ln_clientFd N)
               (sd\<lparr>sd_sendData := sd_sendData sd @ data, sd_sendCallback := Some cb, sd_pollOut := True\<rparr>) N)"

definition doAsyncReceive :: "nat \<Rightarrow> nat \<Rightarrow> LinuxNet \<Rightarrow> LinuxNet" where
  "doAsyncReceive buffer_size cb N =
     (if ln_clientFd N = -1 then invoke (RecvDone cb []) N
      else case ln_map N (ln_clientFd N) of
             None \<Rightarrow> invoke (RecvDone cb []) N
           | Some sd \<Rightarrow> put_socket (ln_clientFd N)
               (sd\<lparr>sd_recvCallback := Some cb, sd_bufferSize := max (sd_bufferSize sd) buffer_size,
                   sd_pollIn := True\<rparr>) N)"

subsection \<open>Events\<close>

text \<open>An error or hang-up: the callbacks first, then the descriptor goes.\<close>

definition on_error_callbacks :: "int \<Rightarrow> LinuxNet \<Rightarrow> LinuxNet" where
  "on_error_callbacks fd N =
     (case ln_map N fd of
        None \<Rightarrow> N
      | Some sd \<Rightarrow>
          if sd_operationType sd = OpConnect then N
          else invoke_opt (sd_acceptCallback sd) (\<lambda>c. AcceptDone c False [] 0)
                 (invoke_opt (sd_connectCallback sd) (\<lambda>c. ConnectDone c False)
                   (invoke_opt (sd_recvCallback sd) (\<lambda>c. RecvDone c []) N)))"

definition on_error_close :: "int \<Rightarrow> LinuxNet \<Rightarrow> LinuxNet" where
  "on_error_close fd N =
     (case ln_map N fd of
        None \<Rightarrow> N
      | Some sd \<Rightarrow> if sd_operationType sd = OpConnect then N else removeFd fd N)"

text \<open>What \<open>accept\<close> gives: the descriptor, address and port of the peer.\<close>

definition on_accept :: "(int \<times> string \<times> int) option \<Rightarrow> LinuxNet \<Rightarrow> LinuxNet" where
  "on_accept conn N =
     (case conn of
        None \<Rightarrow> N
      | Some (connFd, ip, port_number) \<Rightarrow>
          invoke_opt (case ln_map N (ln_listenFd N) of None \<Rightarrow> None | Some sd \<Rightarrow> sd_acceptCallback sd)
            (\<lambda>c. AcceptDone c True ip port_number)
            (put_socket connFd (new_SocketData OpRecv) (N\<lparr>ln_clientFd := connFd\<rparr>)))"

definition on_connect :: "int \<Rightarrow> int \<Rightarrow> LinuxNet \<Rightarrow> LinuxNet" where
  "on_connect fd error N =
     (case ln_map N fd of
        None \<Rightarrow> N
      | Some sd \<Rightarrow>
          if sd_operationType sd \<noteq> OpConnect then N
          else invoke_opt (sd_connectCallback sd) (\<lambda>c. ConnectDone c (error = 0))
                 (put_socket fd (sd\<lparr>sd_pollOut := False,
                    sd_operationType := (if error = 0 then OpRecv else OpConnect)\<rparr>) N))"

text \<open>\<open>sent\<close> is the result of \<open>send\<close>, negative for an error.\<close>

definition on_send :: "int \<Rightarrow> int \<Rightarrow> LinuxNet \<Rightarrow> LinuxNet" where
  "on_send fd sent N =
     (case ln_map N fd of
        None \<Rightarrow> N
      | Some sd \<Rightarrow>
          let totalBytesSent = (if sd_sendData sd \<noteq> [] \<and> sent \<ge> 0
                then min (nat sent) (length (sd_sendData sd)) else 0);
              N = N\<lparr>ln_sent := (ln_sent N)(fd := ln_sent N fd @ take totalBytesSent (sd_sendData sd))\<rparr>;
              sd = sd\<lparr>sd_sendData := drop totalBytesSent (sd_sendData sd)\<rparr>
          in if sd_sendData sd = []
             then (let N = put_socket fd (sd\<lparr>sd_pollOut := False\<rparr>) N
                   in if totalBytesSent > 0
                      then invoke_opt (sd_sendCallback sd) (\<lambda>c. SendDone c totalBytesSent) N else N)
             else put_socket fd sd N)"

text \<open>The result of \<open>recv\<close> with the fixed buffer of 65536 bytes.\<close>

datatype recv_answer = RecvBytes bytes | RecvClosed | RecvError

definition on_recv :: "int \<Rightarrow> recv_answer \<Rightarrow> LinuxNet \<Rightarrow> LinuxNet" where
  "on_recv fd answer N =
     (case ln_map N fd of
        None \<Rightarrow> N
      | Some sd \<Rightarrow>
          (case answer of
             RecvBytes avail \<Rightarrow>
               let data = take 65536 avail
               in if data = [] then N
                  else invoke_opt (sd_recvCallback sd) (\<lambda>c. RecvDone c data)
                         (put_socket fd (sd\<lparr>sd_pollIn := False\<rparr>) N)
           | RecvClosed \<Rightarrow> invoke_opt (sd_recvCallback sd) (\<lambda>c. RecvDone c []) (removeFd fd N)
           | RecvError \<Rightarrow> N))"

subsection \<open>Sequences of operations and events\<close>

datatype net_op =
    Connect_to connect_env nat
  | Accept_one nat
  | Send_data bytes nat
  | Receive_some nat nat
  | Event_error int
  | Event_error_close int
  | Event_accept "(int \<times> string \<times> int) option"
  | Event_connect int int
  | Event_send int int
  | Event_recv int recv_answer
  | Close_net

fun net_exec :: "net_op \<Rightarrow> LinuxNet \<Rightarrow> LinuxNet" where
  "net_exec (Connect_to env cb) = doAsyncConnect env cb"
| "net_exec (Accept_one cb) = doAsyncAccept cb"
| "net_exec (Send_data data cb) = doAsyncSend data cb"
| "net_exec (Receive_some n cb) = doAsyncReceive n cb"
| "net_exec (Event_error fd) = on_error_callbacks fd"
| "net_exec (Event_error_close fd) = on_error_close fd"
| "net_exec (Event_accept conn) = on_accept conn"
| "net_exec (Event_connect fd error) = on_connect fd error"
| "net_exec (Event_send fd sent) = on_send fd sent"
| "net_exec (Event_recv fd answer) = on_recv fd answer"
| "net_exec Close_net = net_close"

definition net_run :: "net_op list \<Rightarrow> LinuxNet \<Rightarrow> LinuxNet" where
  "net_run ops N = foldl (\<lambda>N op. net_exec op N) N ops"

lemma net_run_simps [simp]:
  "net_run [] N = N" "net_run (op # ops) N = net_run ops (net_exec op N)"
  "net_run (ops @ ops') N = net_run ops' (net_run ops N)"
  by (simp_all add: net_run_def)

lemma invoke_fields [simp]:
  "ln_map (invoke d N) = ln_map N" "ln_sent (invoke d N) = ln_sent N" "ln_clientFd (invoke d N) = ln_clientFd N"
  "ln_listenFd (invoke d N) = ln_listenFd N" "ln_map (invoke_opt cb f N) = ln_map N"
  "ln_sent (invoke_opt cb f N) = ln_sent N" "ln_clientFd (invoke_opt cb f N) = ln_clientFd N"
  "ln_listenFd (invoke_opt cb f N) = ln_listenFd N" "ln_done (invoke d N) = ln_done N @ [d]"
  "ln_done (invoke_opt cb f N) = ln_done N @ (case cb of None \<Rightarrow> [] | Some c \<Rightarrow> [f c])"
  by (simp_all add: invoke_def invoke_opt_def split: option.splits)

lemma put_fields [simp]:
  "ln_map (put_socket fd sd N) = (ln_map N)(fd := Some sd)" "ln_sent (put_socket fd sd N) = ln_sent N"
  "ln_clientFd (put_socket fd sd N) = ln_clientFd N" "ln_listenFd (put_socket fd sd N) = ln_listenFd N"
  "ln_done (put_socket fd sd N) = ln_done N" "ln_map (removeFd fd N) = (ln_map N)(fd := None)"
  "ln_sent (removeFd fd N) = ln_sent N" "ln_clientFd (removeFd fd N) = ln_clientFd N"
  "ln_listenFd (removeFd fd N) = ln_listenFd N" "ln_done (removeFd fd N) = ln_done N"
  by (simp_all add: put_socket_def removeFd_def)

lemmas net_defs = doAsyncConnect_def doAsyncAccept_def doAsyncSend_def doAsyncReceive_def
  on_error_callbacks_def on_error_close_def on_accept_def on_connect_def on_send_def on_recv_def net_close_def

subsection \<open>The bytes of a connection\<close>

text \<open>No other connection is made, and the interface is not closed.\<close>

fun same_connection :: "net_op \<Rightarrow> bool" where
  "same_connection (Connect_to env cb) \<longleftrightarrow> False"
| "same_connection (Event_accept conn) \<longleftrightarrow> conn = None"
| "same_connection Close_net \<longleftrightarrow> False"
| "same_connection _ \<longleftrightarrow> True"

fun send_data :: "net_op \<Rightarrow> bytes" where
  "send_data (Send_data data cb) = data"
| "send_data _ = []"

definition in_step :: "int \<Rightarrow> bytes \<Rightarrow> LinuxNet \<Rightarrow> bool" where
  "in_step fd handed N \<longleftrightarrow> ln_clientFd N = fd \<and> prefix (ln_sent N fd) handed \<and>
     (\<forall>sd. ln_map N fd = Some sd \<longrightarrow> handed = ln_sent N fd @ sd_sendData sd)"

lemma in_step_same:
  "in_step fd handed N \<Longrightarrow> ln_clientFd N' = ln_clientFd N \<Longrightarrow> ln_sent N' = ln_sent N \<Longrightarrow>
   (\<And>sd'. ln_map N' fd = Some sd' \<Longrightarrow> \<exists>sd. ln_map N fd = Some sd \<and> sd_sendData sd' = sd_sendData sd) \<Longrightarrow>
   in_step fd handed N'"
  unfolding in_step_def by metis

lemma in_step_send_data:
  assumes "in_step fd handed N" and "fd \<noteq> -1"
  shows "in_step fd (handed @ data) (doAsyncSend data cb N)"
  using assms by (auto simp: in_step_def doAsyncSend_def split: option.split)

lemma in_step_on_send:
  assumes "in_step fd handed N"
  shows "in_step fd handed (on_send fd' sent N)"
proof (cases "ln_map N fd'")
  case (Some sd)
  define n where "n = (if sd_sendData sd \<noteq> [] \<and> sent \<ge> 0 then min (nat sent) (length (sd_sendData sd)) else 0)"
  have "ln_clientFd (on_send fd' sent N) = ln_clientFd N"
    "ln_sent (on_send fd' sent N) = (ln_sent N)(fd' := ln_sent N fd' @ take n (sd_sendData sd))"
    "\<exists>sd'. ln_map (on_send fd' sent N) = (ln_map N)(fd' := Some sd') \<and> sd_sendData sd' = drop n (sd_sendData sd)"
    using Some by (auto simp: on_send_def Let_def n_def)
  with assms Some show ?thesis
    by (cases "fd' = fd") (auto simp: in_step_def take_is_prefix)
qed (use assms in \<open>simp add: on_send_def\<close>)

lemma in_step_exec:
  assumes "in_step fd handed N" and "fd \<noteq> -1" and "same_connection op"
  shows "in_step fd (handed @ send_data op) (net_exec op N)"
proof (cases op)
  case (Send_data data cb)
  then show ?thesis using in_step_send_data assms by simp
next
  case (Event_send fd' sent)
  then show ?thesis using in_step_on_send assms by simp
next
  case (Event_recv fd' answer)
  have "in_step fd handed (on_recv fd' answer N)"
    using assms(1)
    by (rule in_step_same) (auto simp: on_recv_def Let_def split: option.splits recv_answer.splits if_splits)
  then show ?thesis using Event_recv by simp
qed (use assms in \<open>auto elim!: in_step_same simp: doAsyncAccept_def doAsyncReceive_def on_error_callbacks_def
    on_error_close_def on_accept_def on_connect_def split: option.splits if_splits\<close>)

lemma in_step_run:
  "in_step fd handed N \<Longrightarrow> fd \<noteq> -1 \<Longrightarrow> \<forall>op \<in> set ops. same_connection op \<Longrightarrow>
     in_step fd (handed @ concat (map send_data ops)) (net_run ops N)"
proof (induction ops arbitrary: N handed)
  case (Cons op ops)
  from Cons.IH [OF in_step_exec [OF Cons.prems(1,2)]] Cons.prems show ?case by simp
qed simp

text \<open>
  whatever the kernel accepts of each write and in whatever order events and calls come, the bytes
  put on a connection are those handed to \<open>doAsyncSend\<close>, in this order, without loss or
  repetition; what is missing is still queued as long as the descriptor is in use.
\<close>

theorem net_send_stream:
  assumes "ln_clientFd N = fd" and "fd \<noteq> -1" and "ln_map N fd = Some sd" and "sd_sendData sd = []"
    and "ln_sent N fd = []" and "\<forall>op \<in> set ops. same_connection op"
  shows "prefix (ln_sent (net_run ops N) fd) (concat (map send_data ops)) \<and>
    (\<forall>sd'. ln_map (net_run ops N) fd = Some sd' \<longrightarrow>
       concat (map send_data ops) = ln_sent (net_run ops N) fd @ sd_sendData sd')"
proof -
  have "in_step fd [] N" using assms by (simp add: in_step_def)
  from in_step_run [OF this assms(2,6)] show ?thesis by (simp add: in_step_def)
qed

subsection \<open>Callbacks\<close>

text \<open>
  when the kernel takes a message in two writes, the sender is told the length of the second
  part only, although all of it was sent.
\<close>

theorem partial_send_reports_last:
  assumes "ln_clientFd N = fd" and "fd \<noteq> -1" and "ln_map N fd = Some sd" and "sd_sendData sd = []"
    and "0 < k" and "k < length data"
    and "N' = net_run [Send_data data cb, Event_send fd (int k), Event_send fd (int (length data - k))] N"
  shows "ln_sent N' fd = ln_sent N fd @ data \<and> ln_done N' = ln_done N @ [SendDone cb (length data - k)]"
  using assms by (auto simp: doAsyncSend_def on_send_def Let_def)

fun resumes :: "nat \<Rightarrow> net_done \<Rightarrow> bool" where
  "resumes c (RecvDone c' data) \<longleftrightarrow> c = c'"
| "resumes c (SendDone c' n) \<longleftrightarrow> c = c'"
| "resumes c (ConnectDone c' ok) \<longleftrightarrow> c = c'"
| "resumes c (AcceptDone c' ok ip p) \<longleftrightarrow> c = c'"

definition resumptions :: "nat \<Rightarrow> LinuxNet \<Rightarrow> nat" where
  "resumptions c N = length (filter (resumes c) (ln_done N))"

fun sends_only :: "net_op \<Rightarrow> bool" where
  "sends_only (Send_data data cb) \<longleftrightarrow> True"
| "sends_only (Event_send fd n) \<longleftrightarrow> True"
| "sends_only _ \<longleftrightarrow> False"

definition recv_armed :: "int \<Rightarrow> nat \<Rightarrow> LinuxNet \<Rightarrow> bool" where
  "recv_armed fd c N \<longleftrightarrow> (\<exists>sd. ln_map N fd = Some sd \<and> sd_recvCallback sd = Some c \<and> sd_operationType sd \<noteq> OpConnect)"

lemma recv_armed_exec:
  "recv_armed fd c N \<Longrightarrow> sends_only op \<Longrightarrow>
     recv_armed fd c (net_exec op N) \<and> resumptions c N \<le> resumptions c (net_exec op N)"
  by (cases op) (auto simp: recv_armed_def doAsyncSend_def on_send_def resumptions_def Let_def split: option.splits)

lemma recv_armed_run:
  "recv_armed fd c N \<Longrightarrow> \<forall>op \<in> set ops. sends_only op \<Longrightarrow>
     recv_armed fd c (net_run ops N) \<and> resumptions c N \<le> resumptions c (net_run ops N)"
proof (induction ops arbitrary: N)
  case (Cons op ops)
  with recv_armed_exec [of fd c N op] Cons.IH [of "net_exec op N"] show ?case by force
qed simp

text \<open>
  the receive callback is not cleared when it is invoked. If the receiver does not ask for more, a
  hang-up of the peer resumes the same suspension a second time.
\<close>

theorem hang_up_resumes_again:
  assumes "ln_map N fd = Some sd" and "sd_recvCallback sd = Some c" and "sd_operationType sd \<noteq> OpConnect"
    and "data \<noteq> []" and "\<forall>op \<in> set ops. sends_only op"
  shows "resumptions c N + 2 \<le> resumptions c (net_run (Event_recv fd (RecvBytes data) # ops @ [Event_error fd]) N)"
proof -
  let ?N = "on_recv fd (RecvBytes data) N"
  have "recv_armed fd c ?N" "resumptions c ?N = resumptions c N + 1"
    using assms(1-4) by (auto simp: recv_armed_def on_recv_def resumptions_def Let_def)
  with recv_armed_run [OF this(1) assms(5)] have r: "recv_armed fd c (net_run ops ?N)"
    "resumptions c N + 1 \<le> resumptions c (net_run ops ?N)" by simp_all
  from r(1) have "resumptions c (net_run ops ?N) + 1 \<le> resumptions c (on_error_callbacks fd (net_run ops ?N))"
    by (auto simp: recv_armed_def on_error_callbacks_def resumptions_def split: option.split)
  with r(2) show ?thesis by simp
qed

text \<open>
  A client that connects before \<open>doAsyncAccept\<close> is called is accepted by the event thread, and nobody
  is told: the callback given later waits for the next client.
\<close>

fun no_client :: "net_op \<Rightarrow> bool" where
  "no_client (Event_accept conn) \<longleftrightarrow> conn = None"
| "no_client _ \<longleftrightarrow> True"

definition accepted :: "LinuxNet \<Rightarrow> bool" where
  "accepted N \<longleftrightarrow> (\<exists>c ip p. AcceptDone c True ip p \<in> set (ln_done N))"

lemma accepted_exec: "\<not> accepted N \<Longrightarrow> no_client op \<Longrightarrow> \<not> accepted (net_exec op N)"
  by (cases op) (auto simp: accepted_def net_defs Let_def split: option.splits if_splits recv_answer.splits
      connect_answer.splits)

lemma accepted_run: "\<not> accepted N \<Longrightarrow> \<forall>op \<in> set ops. no_client op \<Longrightarrow> \<not> accepted (net_run ops N)"
  by (induction ops arbitrary: N) (auto dest: accepted_exec)

theorem early_accept_lost:
  assumes "ln_map N (ln_listenFd N) = Some sd" and "sd_acceptCallback sd = None" and "\<not> accepted N"
    and "\<forall>op \<in> set ops. no_client op"
  shows "ln_clientFd (on_accept (Some (fd, ip, p)) N) = fd \<and>
    \<not> accepted (net_run ops (on_accept (Some (fd, ip, p)) N))"
proof -
  have "\<not> accepted (on_accept (Some (fd, ip, p)) N)"
    using assms(1-3) by (simp add: accepted_def on_accept_def)
  from accepted_run [OF this assms(4)] show ?thesis by (simp add: on_accept_def)
qed

subsection \<open>Examples\<close>

definition demo_net :: LinuxNet where
  "demo_net = put_socket 5 ((new_SocketData OpRecv)\<lparr>sd_recvCallback := Some 1, sd_pollIn := True\<rparr>)
     (new_LinuxNet\<lparr>ln_clientFd := 5, ln_running := True, ln_epollOpen := True\<rparr>)"

lemma demo_net_fields:
  "ln_clientFd demo_net = 5" "ln_sent demo_net 5 = []"
  "ln_map demo_net 5 = Some ((new_SocketData OpRecv)\<lparr>sd_recvCallback := Some 1, sd_pollIn := True\<rparr>)"
  by (simp_all add: demo_net_def put_socket_def new_LinuxNet_def)

theorem net_send_stream_witness:
  "prefix (ln_sent (net_run [Send_data ''abc'' 2, Event_send 5 2, Send_data ''d'' 3, Event_recv 5 RecvClosed,
     Event_send 5 2] demo_net) 5) ''abcd''"
  using net_send_stream [OF _ _ demo_net_fields(3), THEN conjunct1, of "[Send_data ''abc'' 2, Event_send 5 2,
      Send_data ''d'' 3, Event_recv 5 RecvClosed, Event_send 5 2]"]
  by (simp add: demo_net_fields new_SocketData_def)

theorem partial_send_reports_last_witness:
  "let N' = net_run [Send_data ''abc'' 2, Event_send 5 1, Event_send 5 2] demo_net in
   ln_sent N' 5 = ''abc'' \<and> ln_done N' = ln_done demo_net @ [SendDone 2 2]"
  using partial_send_reports_last [OF _ _ demo_net_fields(3), of 1 "''abc''" _ 2]
  by (simp add: demo_net_fields new_SocketData_def Let_def)

theorem hang_up_resumes_again_witness:
  "resumptions 1 demo_net + 2 \<le>
     resumptions 1 (net_run (Event_recv 5 (RecvBytes ''x'') # [Send_data ''abc'' 2] @ [Event_error 5]) demo_net)"
  by (rule hang_up_resumes_again [OF demo_net_fields(3)]) (simp_all add: new_SocketData_def)

end
