(* ===== verification/EpollLoop.thy ===== *)
theory EpollLoop
  imports EpollNet
begin

section \<open>The epoll thread\<close>

text \<open>
  \<open>epollWorkerThread\<close> of \<open>LinuxAsyncNetworkInterface.cpp\<close>: what one event of \<open>epoll_wait\<close> makes the thread
  do, a batch of events, and the loop. The steps are those of \<open>EpollNet\<close>; the code that a callback resumes
  may call the interface before the next step. The main facts: no event of a batch finds its \<open>SocketData\<close>
  deleted (\<open>epoll_batch_safe\<close>), as the caution in the code asks; and a message handed to \<open>doAsyncSend\<close> is
  sent in as many writable events as it has bytes at most, with one callback in the end
  (\<open>epoll_send_completes\<close>).
\<close>

record epoll_event =
  ev_fd :: int
  ev_error :: bool
  ev_in :: bool
  ev_out :: bool
  ev_accepted :: "(int \<times> string \<times> int) option"
  ev_soError :: int
  ev_sent :: int
  ev_received :: recv_answer

text \<open>
  The steps of one event. Which branch is taken depends on the descriptor and its operation at the beginning;
  the error branch invokes the callbacks before it closes.
\<close>

definition event_ops :: "epoll_event \<Rightarrow> LinuxNet \<Rightarrow> net_op list" where
  "event_ops e N =
     (case ln_map N (ev_fd e) of
        None \<Rightarrow> []
      | Some sd \<Rightarrow>
          if ev_error e \<and> sd_operationType sd \<noteq> OpConnect then [Event_error (ev_fd e), Event_error_close (ev_fd e)]
          else if ev_fd e = ln_listenFd N then (if ev_in e then [Event_accept (ev_accepted e)] else [])
          else if sd_operationType sd = OpConnect \<and> (ev_out e \<or> ev_error e)
          then [Event_connect (ev_fd e) (ev_soError e)]
          else (if ev_out e then [Event_send (ev_fd e) (ev_sent e)] else []) @
               (if ev_in e then [Event_recv (ev_fd e) (ev_received e)] else []))"

text \<open>After each step come the calls of the code resumed by it: \<open>calls ! i\<close> after step \<open>i\<close>.\<close>

fun with_calls :: "net_op list \<Rightarrow> net_op list list \<Rightarrow> net_op list" where
  "with_calls [] calls = []"
| "with_calls (op # ops) [] = op # ops"
| "with_calls (op # ops) (c # calls) = op # c @ with_calls ops calls"

fun batch_run :: "(epoll_event \<times> net_op list list) list \<Rightarrow> LinuxNet \<Rightarrow> LinuxNet" where
  "batch_run [] N = N"
| "batch_run ((e, calls) # es) N = batch_run es (net_run (with_calls (event_ops e N) calls) N)"

datatype wait_result = Wait_events "(epoll_event \<times> net_op list list) list" | Wait_interrupted | Wait_failed

text \<open>The loop; each result of \<open>epoll_wait\<close> comes with whether \<open>close\<close> was called meanwhile.\<close>

fun epoll_worker :: "(wait_result \<times> bool) list \<Rightarrow> LinuxNet \<Rightarrow> LinuxNet" where
  "epoll_worker [] N = N"
| "epoll_worker ((w, stopped) # ws) N =
     (if \<not> ln_running N \<or> stopped then N
      else case w of
             Wait_events es \<Rightarrow> epoll_worker ws (batch_run es N)
           | Wait_interrupted \<Rightarrow> epoll_worker ws N
           | Wait_failed \<Rightarrow> N)"

subsection \<open>The loop only takes steps of the interface\<close>

lemma batch_run_ops: "\<exists>ops. batch_run es N = net_run ops N"
proof (induction es N rule: batch_run.induct)
  case (1 N)
  show ?case by (rule exI [of _ "[]"]) simp
next
  case (2 e calls es N)
  then obtain ops where "batch_run es (net_run (with_calls (event_ops e N) calls) N) =
      net_run ops (net_run (with_calls (event_ops e N) calls) N)" by blast
  then have "batch_run ((e, calls) # es) N = net_run (with_calls (event_ops e N) calls @ ops) N" by simp
  then show ?case by blast
qed

lemma epoll_worker_ops: "\<exists>ops. epoll_worker ws N = net_run ops N"
proof (induction ws N rule: epoll_worker.induct)
  case (2 w stopped ws N)
  show ?case
  proof (cases "\<not> ln_running N \<or> stopped \<or> w = Wait_failed")
    case True
    then have "epoll_worker ((w, stopped) # ws) N = net_run [] N" by auto
    then show ?thesis by blast
  next
    case False
    then consider es where "w = Wait_events es" | "w = Wait_interrupted" by (cases w) auto
    then show ?thesis
    proof cases
      case (1 es)
      with False 2 obtain ops where "epoll_worker ws (batch_run es N) = net_run ops (batch_run es N)" by blast
      moreover obtain ops' where "batch_run es N = net_run ops' N" using batch_run_ops by blast
      ultimately have "epoll_worker ((w, stopped) # ws) N = net_run (ops' @ ops) N" using False 1 by simp
      then show ?thesis by blast
    qed (use False 2 in auto)
  qed
qed (auto intro: exI [of _ "[]"])

subsection \<open>No event without its data\<close>

text \<open>The calls that resumed code makes; the interface is closed by another thread, after the loop.\<close>

fun is_call :: "net_op \<Rightarrow> bool" where
  "is_call (Connect_to env cb) = True"
| "is_call (Accept_one cb) = True"
| "is_call (Send_data data cb) = True"
| "is_call (Receive_some n cb) = True"
| "is_call _ = False"

text \<open>The descriptor whose data a step may delete.\<close>

fun deletes :: "net_op \<Rightarrow> int option" where
  "deletes (Event_error_close fd) = Some fd"
| "deletes (Event_recv fd answer) = Some fd"
| "deletes _ = None"

lemma exec_keeps:
  assumes "ln_map N fd \<noteq> None" and "op \<noteq> Close_net" and "deletes op \<noteq> Some fd"
  shows "ln_map (net_exec op N) fd \<noteq> None"
  using assms
  by (cases op) (auto simp: net_defs Let_def split: option.splits if_splits connect_answer.splits recv_answer.splits)

lemma run_keeps:
  "ln_map N fd \<noteq> None \<Longrightarrow> \<forall>op \<in> set ops. op \<noteq> Close_net \<and> deletes op \<noteq> Some fd \<Longrightarrow> ln_map (net_run ops N) fd \<noteq> None"
proof (induction ops arbitrary: N)
  case (Cons op ops)
  from Cons.IH [OF exec_keeps [OF Cons.prems(1)]] Cons.prems show ?case by auto
qed simp

lemma with_calls_deletes:
  assumes "\<forall>op \<in> set ops. op \<noteq> Close_net \<and> deletes op \<noteq> Some fd" and "\<forall>c \<in> set calls. \<forall>op \<in> set c. is_call op"
  shows "\<forall>op \<in> set (with_calls ops calls). op \<noteq> Close_net \<and> deletes op \<noteq> Some fd"
proof -
  have *: "is_call op \<Longrightarrow> op \<noteq> Close_net \<and> deletes op \<noteq> Some fd" for op by (cases op) auto
  from assms show ?thesis
    by (induction ops calls rule: with_calls.induct) (auto dest: *)
qed

lemma event_ops_deletes:
  "ev_fd e \<noteq> fd \<Longrightarrow> \<forall>op \<in> set (event_ops e N). op \<noteq> Close_net \<and> deletes op \<noteq> Some fd"
  by (auto simp: event_ops_def split: option.split)

text \<open>
  The descriptors of a batch are different, and \<open>epoll_wait\<close> reports registered ones. Then, whatever the
  events and whatever the resumed code calls, the data of an event is still there when its turn comes.
\<close>

lemma epoll_batch_safe:
  assumes "distinct (map (ev_fd \<circ> fst) es)" and "\<forall>x \<in> set es. ln_map N (ev_fd (fst x)) \<noteq> None"
    and "\<forall>x \<in> set es. \<forall>c \<in> set (snd x). \<forall>op \<in> set c. is_call op"
    and "es = before @ (e, calls) # after"
  shows "ln_map (batch_run before N) (ev_fd e) \<noteq> None"
  using assms
proof (induction before arbitrary: es N)
  case (Cons b before)
  obtain e1 c1 where b: "b = (e1, c1)" by (cases b)
  let ?N = "net_run (with_calls (event_ops e1 N) c1) N"
  let ?es = "before @ (e, calls) # after"
  have keep: "ln_map ?N (ev_fd (fst x)) \<noteq> None" if "x \<in> set ?es" for x
  proof (rule run_keeps)
    show "ln_map N (ev_fd (fst x)) \<noteq> None" using Cons.prems(2,4) that by auto
    have "ev_fd e1 \<noteq> ev_fd (fst x)" using Cons.prems(1,4) that b by auto
    then show "\<forall>op \<in> set (with_calls (event_ops e1 N) c1). op \<noteq> Close_net \<and> deletes op \<noteq> Some (ev_fd (fst x))"
      using Cons.prems(3,4) b by (intro with_calls_deletes event_ops_deletes) auto
  qed
  have "ln_map (batch_run before ?N) (ev_fd e) \<noteq> None"
    using Cons.prems b keep by (intro Cons.IH [of ?es]) auto
  then show ?case using b by simp
qed auto

subsection \<open>A send completes\<close>

text \<open>Steps during which the descriptor stays in use and no other message is handed over.\<close>

fun undisturbed_send :: "int \<Rightarrow> net_op \<Rightarrow> bool" where
  "undisturbed_send fd (Accept_one cb) \<longleftrightarrow> True"
| "undisturbed_send fd (Receive_some n cb) \<longleftrightarrow> True"
| "undisturbed_send fd (Event_accept conn) \<longleftrightarrow> conn = None"
| "undisturbed_send fd (Event_send fd' sent) \<longleftrightarrow> fd' = fd \<and> sent > 0"
| "undisturbed_send fd (Event_recv fd' answer) \<longleftrightarrow> fd' \<noteq> fd \<or> answer \<noteq> RecvClosed"
| "undisturbed_send fd _ \<longleftrightarrow> False"

fun is_send_event :: "net_op \<Rightarrow> bool" where
  "is_send_event (Event_send fd sent) = True"
| "is_send_event _ = False"

fun is_send_done :: "net_done \<Rightarrow> bool" where
  "is_send_done (SendDone c n) = True"
| "is_send_done _ = False"

definition send_dones :: "LinuxNet \<Rightarrow> net_done list" where
  "send_dones N = filter is_send_done (ln_done N)"

text \<open>\<open>all\<close> is what the descriptor gets in the end, \<open>dones\<close> what was done before.\<close>

definition sending :: "int \<Rightarrow> nat \<Rightarrow> bytes \<Rightarrow> net_done list \<Rightarrow> LinuxNet \<Rightarrow> bytes \<Rightarrow> bool" where
  "sending fd cb all dones N rest \<longleftrightarrow> all = ln_sent N fd @ rest \<and>
     (\<exists>sd. ln_map N fd = Some sd \<and> sd_sendData sd = rest \<and> sd_sendCallback sd = Some cb) \<and>
     (if rest = [] then \<exists>n. send_dones N = dones @ [SendDone cb n] else send_dones N = dones)"

lemma sending_event:
  assumes "sending fd cb all dones N rest" and "0 < sent"
  shows "\<exists>rest'. sending fd cb all dones (on_send fd sent N) rest' \<and> length rest' \<le> length rest - 1"
proof -
  define n where "n = min (nat sent) (length rest)"
  have "sending fd cb all dones (on_send fd sent N) (drop n rest)"
  proof (cases "rest = []")
    case True
    then show ?thesis using assms by (auto simp: sending_def on_send_def Let_def send_dones_def)
  next
    case False
    then have n: "0 < n" "n \<le> length rest" using assms(2) by (auto simp: n_def)
    obtain sd where sd: "ln_map N fd = Some sd" "sd_sendData sd = rest" "sd_sendCallback sd = Some cb"
      using assms(1) by (auto simp: sending_def)
    have o: "on_send fd sent N =
      (let N = N\<lparr>ln_sent := (ln_sent N)(fd := ln_sent N fd @ take n rest)\<rparr>; sd = sd\<lparr>sd_sendData := drop n rest\<rparr>
       in if drop n rest = [] then invoke (SendDone cb n) (put_socket fd (sd\<lparr>sd_pollOut := False\<rparr>) N) else put_socket fd sd N)"
      using sd False n assms(2) by (simp add: on_send_def Let_def n_def invoke_opt_def)
    show ?thesis
      using assms(1) sd False by (auto simp: sending_def o Let_def send_dones_def)
  qed
  moreover have "length (drop n rest) \<le> length rest - 1" using assms(2) by (cases rest) (auto simp: n_def)
  ultimately show ?thesis by blast
qed

lemma sending_other:
  assumes "sending fd cb all dones N rest" and "undisturbed_send fd op" and "\<not> is_send_event op"
  shows "sending fd cb all dones (net_exec op N) rest"
  using assms
  by (cases op) (auto simp: sending_def doAsyncAccept_def doAsyncReceive_def on_accept_def on_recv_def Let_def
      send_dones_def split: option.splits recv_answer.splits)

lemma sending_run:
  "sending fd cb all dones N rest \<Longrightarrow> \<forall>op \<in> set ops. undisturbed_send fd op \<Longrightarrow>
     \<exists>rest'. sending fd cb all dones (net_run ops N) rest' \<and>
       length rest' \<le> length rest - length (filter is_send_event ops)"
proof (induction ops arbitrary: N rest)
  case (Cons op ops)
  show ?case
  proof (cases "is_send_event op")
    case True
    then obtain sent where op: "op = Event_send fd sent" "0 < sent" using Cons.prems(2) by (cases op) auto
    then obtain rest1 where r: "sending fd cb all dones (net_exec op N) rest1" "length rest1 \<le> length rest - 1"
      using sending_event [OF Cons.prems(1)] by auto
    from Cons.IH [OF r(1)] Cons.prems(2) r(2) True show ?thesis by fastforce
  next
    case False
    from Cons.IH [OF sending_other [OF Cons.prems(1) _ False]] Cons.prems(2) False show ?thesis by auto
  qed
qed auto

text \<open>
  C31: A message handed to \<open>doAsyncSend\<close> on an idle connection is put on it completely once the descriptor
  has been writable as often as the message has bytes, whatever part the kernel accepts each time and
  whatever else happens meanwhile as long as the connection is not closed; and the callback of the send has
  then been invoked exactly once.
\<close>

theorem epoll_send_completes:
  assumes "ln_clientFd N = fd" and "fd \<noteq> -1" and "ln_map N fd = Some sd" and "sd_sendData sd = []" and "data \<noteq> []"
    and "\<forall>op \<in> set ops. undisturbed_send fd op" and "length data \<le> length (filter is_send_event ops)"
    and "N' = net_run (Send_data data cb # ops) N"
  shows "ln_sent N' fd = ln_sent N fd @ data \<and> (\<exists>n. send_dones N' = send_dones N @ [SendDone cb n]) \<and>
    (\<exists>sd'. ln_map N' fd = Some sd' \<and> sd_sendData sd' = [])"
proof -
  have "sending fd cb (ln_sent N fd @ data) (send_dones N) (doAsyncSend data cb N) data"
    using assms(1-5) by (simp add: sending_def doAsyncSend_def send_dones_def)
  from sending_run [OF this assms(6)] obtain rest where
    "sending fd cb (ln_sent N fd @ data) (send_dones N) N' rest" "length rest \<le> length data - length (filter is_send_event ops)"
    using assms(8) by auto
  then show ?thesis using assms(7) by (auto simp: sending_def)
qed

theorem epoll_send_completes_witness:
  "let N' = net_run [Send_data ''abc'' 7, Event_send 5 1, Event_recv 5 (RecvBytes ''x''), Event_send 5 1, Event_send 5 9] demo_net
   in ln_sent N' 5 = ln_sent demo_net 5 @ ''abc'' \<and> (\<exists>n. send_dones N' = send_dones demo_net @ [SendDone 7 n]) \<and>
     (\<exists>sd'. ln_map N' 5 = Some sd' \<and> sd_sendData sd' = [])"
  unfolding Let_def
  by (rule epoll_send_completes [OF demo_net_fields(1) _ demo_net_fields(3) _ _ _ _ refl])
    (simp_all add: new_SocketData_def)

subsection \<open>A descriptor closed twice\<close>

text \<open>The descriptors a step closes.\<close>

definition op_closes :: "net_op \<Rightarrow> LinuxNet \<Rightarrow> int list" where
  "op_closes op N =
     (case op of
        Event_error_close fd \<Rightarrow>
          (case ln_map N fd of None \<Rightarrow> [] | Some sd \<Rightarrow> if sd_operationType sd = OpConnect then [] else [fd])
      | Event_recv fd answer \<Rightarrow> if ln_map N fd \<noteq> None \<and> answer = RecvClosed then [fd] else []
      | Close_net \<Rightarrow> if ln_running N then filter (\<lambda>fd. fd \<noteq> -1) [ln_listenFd N, ln_clientFd N] else []
      | _ \<Rightarrow> [])"

fun closes :: "net_op list \<Rightarrow> LinuxNet \<Rightarrow> int list" where
  "closes [] N = []"
| "closes (op # ops) N = op_closes op N @ closes ops (net_exec op N)"

text \<open>When the peer has closed, \<open>clientFd\<close> keeps the number of the closed descriptor, and \<open>close\<close> closes it again.\<close>

lemma peer_close_closes_twice:
  assumes "ln_clientFd N = fd" "fd \<noteq> -1" "ln_listenFd N = -1" "ln_running N" "ln_map N fd \<noteq> None"
  shows "closes [Event_recv fd RecvClosed, Close_net] N = [fd, fd]"
  using assms by (auto simp: op_closes_def on_recv_def removeFd_def invoke_opt_def invoke_def split: option.splits)

end
