(* ===== verification/IocpNet.thy ===== *)
theory IocpNet
  imports EpollNet "HOL-Library.Multiset"
begin

section \<open>The Windows network backend\<close>

text \<open>
  \<open>MyIperf/src/myiperf/platform/WinIOCPNetworkInterface.cpp\<close>: an I/O completion port served by a pool
  of worker threads. Every operation allocates an \<open>IO_DATA\<close>, which is handed to the kernel, comes back
  in a completion of the port, has its callback invoked by a worker and is deleted. Pointers are
  numbers, \<open>wn_heap\<close> the objects that are allocated; using a pointer that is not is \<open>wn_fault\<close>. A
  callback is a number and \<open>wn_done\<close> the callbacks invoked, as for the Linux backend. The steps of
  the workers, of the kernel, of \<open>close\<close> and of the callers are interleaved.

  Ghost fields: \<open>wn_submitted\<close> (the callbacks of the operations called), \<open>wn_dropped\<close> (the objects whose
  completion a worker took after \<open>running\<close> was reset), \<open>wn_closed\<close> (the sockets passed to
  \<open>closesocket\<close>) and \<open>wn_arrived\<close> (the bytes the kernel wrote in receive buffers).
\<close>

datatype IocpOperationType = IoRecv | IoSend | IoAccept | IoConnect

text \<open>\<open>io_callback\<close> is the one of the four callback fields that the operation type selects.\<close>

record IO_DATA =
  io_operationType :: IocpOperationType
  io_buffer :: bytes
  io_clientSocket :: int
  io_sendData :: bytes
  io_callback :: nat

definition new_IO_DATA :: "IocpOperationType \<Rightarrow> nat \<Rightarrow> IO_DATA" where
  "new_IO_DATA op cb = \<lparr>io_operationType = op, io_buffer = [], io_clientSocket = 0, io_sendData = [],
     io_callback = cb\<rparr>"

text \<open>What \<open>GetQueuedCompletionStatus\<close> gives. A status posted by \<open>close\<close> has no pointer.\<close>

record completion =
  cq_success :: bool
  cq_bytes :: nat
  cq_ptr :: "nat option"

definition shutdown_status :: completion where
  "shutdown_status = \<lparr>cq_success = True, cq_bytes = 0, cq_ptr = None\<rparr>"

text \<open>
  Where a worker stands: at the test of its loop, blocked in \<open>GetQueuedCompletionStatus\<close>, holding the
  status it got, after the callback (with the socket still to close), or returned.
\<close>

datatype worker = AtTest | Blocked | Took completion | Deleting nat "int option" | Returned

text \<open>Where \<open>close\<close> stands, with the number of statuses it still has to post.\<close>

datatype close_phase = NotClosing | Posting nat | Joining | CloseDone

record WinNet =
  wn_listenSocket :: int
  wn_clientSocket :: int
  wn_iocpOpen :: bool
  wn_running :: bool
  wn_workers :: "worker list"
  wn_closing :: close_phase
  wn_heap :: "nat \<Rightarrow> IO_DATA option"
  wn_next :: nat
  wn_inflight :: "nat list"
  wn_queue :: "completion list"
  wn_fault :: bool
  wn_done :: "net_done list"
  wn_submitted :: "nat list"
  wn_dropped :: "nat list"
  wn_closed :: "int list"
  wn_arrived :: bytes

definition new_WinNet :: WinNet where
  "new_WinNet = \<lparr>wn_listenSocket = -1, wn_clientSocket = -1, wn_iocpOpen = False, wn_running = False,
     wn_workers = [], wn_closing = NotClosing, wn_heap = (\<lambda>p. None), wn_next = 0, wn_inflight = [],
     wn_queue = [], wn_fault = False, wn_done = [], wn_submitted = [], wn_dropped = [],
     wn_closed = [], wn_arrived = []\<rparr>"

definition wn_invoke :: "net_done \<Rightarrow> WinNet \<Rightarrow> WinNet" where
  "wn_invoke d N = N\<lparr>wn_done := wn_done N @ [d]\<rparr>"

definition closesocket :: "int \<Rightarrow> WinNet \<Rightarrow> WinNet" where
  "closesocket s N = N\<lparr>wn_closed := wn_closed N @ [s]\<rparr>"

text \<open>A new object that the kernel has accepted.\<close>

definition io_submit :: "IO_DATA \<Rightarrow> WinNet \<Rightarrow> WinNet" where
  "io_submit io N = N\<lparr>wn_heap := (wn_heap N)(wn_next N := Some io), wn_next := Suc (wn_next N),
     wn_inflight := wn_inflight N @ [wn_next N]\<rparr>"

definition set_worker :: "nat \<Rightarrow> worker \<Rightarrow> WinNet \<Rightarrow> WinNet" where
  "set_worker w st N = N\<lparr>wn_workers := (wn_workers N)[w := st]\<rparr>"

subsection \<open>Setting up\<close>

definition iocp_initialize :: "bool \<Rightarrow> nat \<Rightarrow> WinNet \<Rightarrow> bool \<times> WinNet" where
  "iocp_initialize created hardware_concurrency N =
     (if \<not> created then (False, N\<lparr>wn_iocpOpen := False\<rparr>)
      else (True, N\<lparr>wn_iocpOpen := True, wn_running := True,
                    wn_workers := wn_workers N @ replicate hardware_concurrency AtTest\<rparr>))"

record listen_env =
  il_socket :: "int option"
  il_bind :: bool
  il_listen :: bool
  il_associate :: bool

definition setupListeningSocket :: "listen_env \<Rightarrow> WinNet \<Rightarrow> bool \<times> WinNet" where
  "setupListeningSocket env N =
     (case il_socket env of
        None \<Rightarrow> (False, N\<lparr>wn_listenSocket := -1\<rparr>)
      | Some s \<Rightarrow>
          let N = N\<lparr>wn_listenSocket := s\<rparr>; failed = (False, (closesocket s N)\<lparr>wn_listenSocket := -1\<rparr>)
          in if \<not> il_bind env then failed
             else if \<not> il_listen env then failed
             else if \<not> il_associate env then failed
             else (True, N))"

definition iocp_prepareServer :: "bool \<Rightarrow> nat \<Rightarrow> listen_env \<Rightarrow> WinNet \<Rightarrow> bool \<times> WinNet" where
  "iocp_prepareServer created hardware_concurrency env N =
     (case iocp_initialize created hardware_concurrency N of
        (False, N) \<Rightarrow> (False, N)
      | (True, N) \<Rightarrow> setupListeningSocket env N)"

subsection \<open>Operations of the coroutines\<close>

text \<open>Whether each call succeeds; \<open>start\<close> is true when the operation completes at once or is pending.\<close>

record iocp_connect_env =
  ic_socket :: "int option"
  ic_associate :: bool
  ic_bind :: bool
  ic_ioctl :: bool
  ic_start :: bool

definition iocp_doAsyncConnect :: "iocp_connect_env \<Rightarrow> nat \<Rightarrow> WinNet \<Rightarrow> WinNet" where
  "iocp_doAsyncConnect env cb N =
     (case ic_socket env of
        None \<Rightarrow> wn_invoke (ConnectDone cb False) (N\<lparr>wn_clientSocket := -1\<rparr>)
      | Some s \<Rightarrow>
          let N = N\<lparr>wn_clientSocket := s\<rparr>;
              failed = wn_invoke (ConnectDone cb False) ((closesocket s N)\<lparr>wn_clientSocket := -1\<rparr>)
          in if \<not> ic_associate env then failed
             else if \<not> ic_bind env then failed
             else if \<not> ic_ioctl env then failed
             else if ic_start env then io_submit (new_IO_DATA IoConnect cb) N
             else wn_invoke (ConnectDone cb False) N)"

record iocp_accept_env =
  ia_socket :: "int option"
  ia_ioctl :: bool
  ia_start :: bool

definition iocp_doAsyncAccept :: "iocp_accept_env \<Rightarrow> nat \<Rightarrow> WinNet \<Rightarrow> WinNet" where
  "iocp_doAsyncAccept env cb N =
     (if wn_listenSocket N = -1 then wn_invoke (AcceptDone cb False [] 0) N
      else case ia_socket env of
        None \<Rightarrow> wn_invoke (AcceptDone cb False [] 0) N
      | Some s \<Rightarrow>
          if \<not> ia_ioctl env then wn_invoke (AcceptDone cb False [] 0) (closesocket s N)
          else if ia_start env then io_submit ((new_IO_DATA IoAccept cb)\<lparr>io_clientSocket := s\<rparr>) N
          else wn_invoke (AcceptDone cb False [] 0) (closesocket s N))"

definition iocp_doAsyncSend :: "bool \<Rightarrow> bytes \<Rightarrow> nat \<Rightarrow> WinNet \<Rightarrow> WinNet" where
  "iocp_doAsyncSend start data cb N =
     (if wn_clientSocket N = -1 then wn_invoke (SendDone cb 0) N
      else if start then io_submit ((new_IO_DATA IoSend cb)\<lparr>io_sendData := data\<rparr>) N
      else wn_invoke (SendDone cb 0) N)"

text \<open>The requested size is ignored: the buffer is the one of the \<open>IO_DATA\<close>.\<close>

definition iocp_doAsyncReceive :: "bool \<Rightarrow> nat \<Rightarrow> nat \<Rightarrow> WinNet \<Rightarrow> WinNet" where
  "iocp_doAsyncReceive start buffer_size cb N =
     (if wn_clientSocket N = -1 then wn_invoke (RecvDone cb []) N
      else if start then io_submit (new_IO_DATA IoRecv cb) N
      else wn_invoke (RecvDone cb []) N)"

subsection \<open>The worker threads\<close>

text \<open>The answers of \<open>setsockopt\<close> and \<open>CreateIoCompletionPort\<close>, and the peer of an accepted socket.\<close>

record worker_env =
  wk_setsockopt :: bool
  wk_associate :: bool
  wk_ip :: string
  wk_port :: int

text \<open>The callback that is invoked for a completion and the socket closed after it.\<close>

definition io_failed :: "completion \<Rightarrow> IO_DATA \<Rightarrow> bool" where
  "io_failed c io \<longleftrightarrow> \<not> cq_success c \<or>
     (cq_bytes c = 0 \<and> io_operationType io \<noteq> IoAccept \<and> io_operationType io \<noteq> IoConnect)"

definition failure_callback :: "IO_DATA \<Rightarrow> net_done" where
  "failure_callback io =
     (case io_operationType io of
        IoRecv \<Rightarrow> RecvDone (io_callback io) []
      | IoSend \<Rightarrow> SendDone (io_callback io) 0
      | IoAccept \<Rightarrow> AcceptDone (io_callback io) False [] 0
      | IoConnect \<Rightarrow> ConnectDone (io_callback io) False)"

definition on_completion :: "worker_env \<Rightarrow> completion \<Rightarrow> IO_DATA \<Rightarrow> WinNet \<Rightarrow> WinNet \<times> int option" where
  "on_completion env c io N =
     (if io_failed c io then (wn_invoke (failure_callback io) N, None)
      else case io_operationType io of
        IoRecv \<Rightarrow> (wn_invoke (RecvDone (io_callback io) (take (cq_bytes c) (io_buffer io))) N, None)
      | IoSend \<Rightarrow> (wn_invoke (SendDone (io_callback io) (cq_bytes c)) N, None)
      | IoAccept \<Rightarrow>
          if \<not> wk_setsockopt env
          then (wn_invoke (AcceptDone (io_callback io) False [] 0) N, Some (io_clientSocket io))
          else let N = N\<lparr>wn_clientSocket := io_clientSocket io\<rparr>
            in if \<not> wk_associate env
               then (wn_invoke (AcceptDone (io_callback io) False [] 0) N, Some (io_clientSocket io))
               else (wn_invoke (AcceptDone (io_callback io) True (wk_ip env) (wk_port env)) N, None)
      | IoConnect \<Rightarrow> (wn_invoke (ConnectDone (io_callback io) (wk_setsockopt env)) N, None))"

text \<open>One step of worker \<open>w\<close>: the test of the loop, the wait, the body up to the callback, the rest.\<close>

definition worker_step :: "worker_env \<Rightarrow> nat \<Rightarrow> WinNet \<Rightarrow> WinNet" where
  "worker_step env w N =
     (case wn_workers N ! w of
        AtTest \<Rightarrow> set_worker w (if wn_running N then Blocked else Returned) N
      | Blocked \<Rightarrow>
          (case wn_queue N of [] \<Rightarrow> N | c # q \<Rightarrow> set_worker w (Took c) (N\<lparr>wn_queue := q\<rparr>))
      | Took c \<Rightarrow>
          if \<not> wn_running N
          then set_worker w Returned
                 (case cq_ptr c of None \<Rightarrow> N | Some p \<Rightarrow> N\<lparr>wn_dropped := p # wn_dropped N\<rparr>)
          else (case cq_ptr c of
                  None \<Rightarrow> set_worker w AtTest N
                | Some p \<Rightarrow>
                    (case wn_heap N p of
                       None \<Rightarrow> N\<lparr>wn_fault := True\<rparr>
                     | Some io \<Rightarrow> (let (N, s) = on_completion env c io N in set_worker w (Deleting p s) N)))
      | Deleting p s \<Rightarrow>
          (let N = (case s of None \<Rightarrow> N | Some s \<Rightarrow> closesocket s N)
           in set_worker w AtTest
                (if wn_heap N p = None then N\<lparr>wn_fault := True\<rparr> else N\<lparr>wn_heap := (wn_heap N)(p := None)\<rparr>))
      | Returned \<Rightarrow> N)"

subsection \<open>Closing\<close>

text \<open>
  \<open>running.exchange(false)\<close>, the posts of the statuses one by one, and the end once the workers are
  joined. \<open>CancelIoEx\<close> and \<open>shutdown\<close> make the kernel complete what it holds, which it may do at any time.
\<close>

definition close_begin :: "WinNet \<Rightarrow> WinNet" where
  "close_begin N =
     (if \<not> wn_running N then N
      else N\<lparr>wn_running := False, wn_closing := Posting (length (wn_workers N))\<rparr>)"

definition close_post :: "WinNet \<Rightarrow> WinNet" where
  "close_post N =
     (case wn_closing N of
        Posting (Suc k) \<Rightarrow> N\<lparr>wn_queue := wn_queue N @ [shutdown_status], wn_closing := Posting k\<rparr>
      | Posting 0 \<Rightarrow> N\<lparr>wn_closing := Joining\<rparr>
      | _ \<Rightarrow> N)"

definition close_end :: "WinNet \<Rightarrow> WinNet" where
  "close_end N =
     (let N = N\<lparr>wn_workers := []\<rparr>;
          N = (if wn_listenSocket N = -1 then N
               else (closesocket (wn_listenSocket N) N)\<lparr>wn_listenSocket := -1\<rparr>);
          N = (if wn_clientSocket N = -1 then N
               else (closesocket (wn_clientSocket N) N)\<lparr>wn_clientSocket := -1\<rparr>)
      in N\<lparr>wn_iocpOpen := False, wn_closing := CloseDone\<rparr>)"

subsection \<open>The interleaving\<close>

datatype iocp_call =
    CallConnect iocp_connect_env nat
  | CallAccept iocp_accept_env nat
  | CallSend bool bytes nat
  | CallReceive bool nat nat

fun call_callback :: "iocp_call \<Rightarrow> nat" where
  "call_callback (CallConnect env cb) = cb"
| "call_callback (CallAccept env cb) = cb"
| "call_callback (CallSend start data cb) = cb"
| "call_callback (CallReceive start n cb) = cb"

fun exec_call :: "iocp_call \<Rightarrow> WinNet \<Rightarrow> WinNet" where
  "exec_call (CallConnect env cb) = iocp_doAsyncConnect env cb"
| "exec_call (CallAccept env cb) = iocp_doAsyncAccept env cb"
| "exec_call (CallSend start data cb) = iocp_doAsyncSend start data cb"
| "exec_call (CallReceive start n cb) = iocp_doAsyncReceive start n cb"

text \<open>
  The kernel completes the operation of pointer \<open>p\<close>. A successful receive writes at most the 4096
  bytes of the buffer, and a send takes at most the bytes it was given.
\<close>

definition completion_allowed :: "IO_DATA \<Rightarrow> bool \<Rightarrow> nat \<Rightarrow> bytes \<Rightarrow> bool" where
  "completion_allowed io success n data \<longleftrightarrow>
     (io_operationType io = IoRecv \<longrightarrow> length data = n \<and> n \<le> 4096) \<and>
     (io_operationType io = IoSend \<longrightarrow> n \<le> length (io_sendData io))"

definition kernel_complete :: "nat \<Rightarrow> bool \<Rightarrow> nat \<Rightarrow> bytes \<Rightarrow> WinNet \<Rightarrow> WinNet" where
  "kernel_complete p success n data N =
     (case wn_heap N p of
        None \<Rightarrow> N\<lparr>wn_fault := True\<rparr>
      | Some io \<Rightarrow>
          let N = N\<lparr>wn_inflight := remove1 p (wn_inflight N),
                    wn_queue := wn_queue N @ [\<lparr>cq_success = success, cq_bytes = n, cq_ptr = Some p\<rparr>]\<rparr>
          in if io_operationType io = IoRecv \<and> success
             then N\<lparr>wn_heap := (wn_heap N)(p := Some (io\<lparr>io_buffer := data\<rparr>)), wn_arrived := wn_arrived N @ data\<rparr>
             else N)"

text \<open>The steps of the workers and of \<open>close\<close> once it has begun.\<close>

inductive closing_step :: "WinNet \<Rightarrow> WinNet \<Rightarrow> bool" where
  worker: "w < length (wn_workers N) \<Longrightarrow> wn_workers N ! w \<noteq> Returned \<Longrightarrow>
    wn_workers N ! w = Blocked \<longrightarrow> wn_queue N \<noteq> [] \<Longrightarrow> closing_step N (worker_step env w N)"
| post: "wn_closing N = Posting k \<Longrightarrow> closing_step N (close_post N)"
| join: "wn_closing N = Joining \<Longrightarrow> set (wn_workers N) \<subseteq> {Returned} \<Longrightarrow> closing_step N (close_end N)"

text \<open>\<open>G\<close> restricts when the program calls an operation. A callback is passed once.\<close>

inductive iocp_step :: "(WinNet \<Rightarrow> iocp_call \<Rightarrow> bool) \<Rightarrow> WinNet \<Rightarrow> WinNet \<Rightarrow> bool" for G where
  call: "G N x \<Longrightarrow> call_callback x \<notin> set (wn_submitted N) \<Longrightarrow>
    iocp_step G N (exec_call x (N\<lparr>wn_submitted := call_callback x # wn_submitted N\<rparr>))"
| kernel: "p \<in> set (wn_inflight N) \<Longrightarrow> wn_heap N p = None \<or> completion_allowed (the (wn_heap N p)) success n data \<Longrightarrow>
    iocp_step G N (kernel_complete p success n data N)"
| thread: "closing_step N N' \<Longrightarrow> iocp_step G N N'"
| close: "wn_running N \<Longrightarrow> iocp_step G N (close_begin N)"

text \<open>The states after a successful \<open>initialize\<close>, and after a \<open>prepareServer\<close>, with \<open>n\<close> workers.\<close>

inductive iocp_reachable :: "(WinNet \<Rightarrow> iocp_call \<Rightarrow> bool) \<Rightarrow> nat \<Rightarrow> WinNet \<Rightarrow> bool" for G n where
  client: "iocp_reachable G n (snd (iocp_initialize True n new_WinNet))"
| server: "iocp_reachable G n (snd (iocp_prepareServer True n env new_WinNet))"
| step: "iocp_reachable G n N \<Longrightarrow> iocp_step G N N' \<Longrightarrow> iocp_reachable G n N'"


subsection \<open>The owners of the objects\<close>

text \<open>
  An object is held by the kernel, by a status of the queue, by a worker that took its status, by a
  worker about to delete it, or was dropped. The callback is invoked between the third and the fourth.
\<close>

definition ptr_mset :: "completion \<Rightarrow> nat multiset" where
  "ptr_mset c = (case cq_ptr c of None \<Rightarrow> {#} | Some p \<Rightarrow> {#p#})"

fun taken_mset :: "worker \<Rightarrow> nat multiset" where
  "taken_mset (Took c) = ptr_mset c"
| "taken_mset _ = {#}"

fun deleting_mset :: "worker \<Rightarrow> nat multiset" where
  "deleting_mset (Deleting p s) = {#p#}"
| "deleting_mset _ = {#}"

definition pending :: "WinNet \<Rightarrow> nat multiset" where
  "pending N = mset (wn_inflight N) + sum_list (map ptr_mset (wn_queue N)) + sum_list (map taken_mset (wn_workers N))"

definition deleting :: "WinNet \<Rightarrow> nat multiset" where
  "deleting N = sum_list (map deleting_mset (wn_workers N))"

definition heap_callback :: "(nat \<Rightarrow> IO_DATA option) \<Rightarrow> nat \<Rightarrow> nat" where
  "heap_callback h p = (case h p of None \<Rightarrow> 0 | Some io \<Rightarrow> io_callback io)"

fun done_callback :: "net_done \<Rightarrow> nat" where
  "done_callback (RecvDone cb data) = cb"
| "done_callback (SendDone cb n) = cb"
| "done_callback (ConnectDone cb ok) = cb"
| "done_callback (AcceptDone cb ok ip p) = cb"

definition owned :: "WinNet \<Rightarrow> bool" where
  "owned N \<longleftrightarrow> finite (dom (wn_heap N)) \<and>
     pending N + deleting N + mset (wn_dropped N) = mset_set (dom (wn_heap N)) \<and>
     (\<forall>p \<in> dom (wn_heap N). p < wn_next N)"

definition accounted :: "WinNet \<Rightarrow> bool" where
  "accounted N \<longleftrightarrow> distinct (wn_submitted N) \<and>
     mset (wn_submitted N) = mset (map done_callback (wn_done N)) +
       image_mset (heap_callback (wn_heap N)) (pending N + mset (wn_dropped N))"

text \<open>An object that is used is one that is allocated, and nothing is dropped before \<open>close\<close>.\<close>

definition wn_inv :: "WinNet \<Rightarrow> bool" where
  "wn_inv N \<longleftrightarrow> owned N \<and> accounted N \<and> \<not> wn_fault N \<and> (wn_running N \<longrightarrow> wn_dropped N = [])"

lemma sum_list_update_add:
  fixes f :: "'a \<Rightarrow> 'b :: cancel_comm_monoid_add"
  shows "w < length xs \<Longrightarrow> sum_list (map f (xs[w := y])) + f (xs ! w) = sum_list (map f xs) + f y"
proof (induction xs arbitrary: w)
  case (Cons x xs)
  show ?case
  proof (cases w)
    case (Suc v)
    with Cons have "sum_list (map f (xs[v := y])) + f (xs ! v) = sum_list (map f xs) + f y" by simp
    with Suc show ?thesis by (simp add: add.assoc)
  qed (simp add: ac_simps)
qed simp

lemma sum_list_empty: "\<forall>x \<in> set xs. f x = {#} \<Longrightarrow> sum_list (map f xs) = {#}"
  by (induction xs) auto

lemma set_worker_fields [simp]:
  "wn_workers (set_worker w st N) = (wn_workers N)[w := st]" "wn_heap (set_worker w st N) = wn_heap N"
  "wn_next (set_worker w st N) = wn_next N" "wn_inflight (set_worker w st N) = wn_inflight N"
  "wn_queue (set_worker w st N) = wn_queue N" "wn_fault (set_worker w st N) = wn_fault N"
  "wn_done (set_worker w st N) = wn_done N" "wn_submitted (set_worker w st N) = wn_submitted N"
  "wn_dropped (set_worker w st N) = wn_dropped N" "wn_running (set_worker w st N) = wn_running N"
  "wn_closing (set_worker w st N) = wn_closing N" "wn_arrived (set_worker w st N) = wn_arrived N"
  by (simp_all add: set_worker_def)

text \<open>States that differ in the sockets only.\<close>

definition same_core :: "WinNet \<Rightarrow> WinNet \<Rightarrow> bool" where
  "same_core N M \<longleftrightarrow> wn_running M = wn_running N \<and> wn_workers M = wn_workers N \<and> wn_closing M = wn_closing N \<and>
     wn_heap M = wn_heap N \<and> wn_next M = wn_next N \<and> wn_inflight M = wn_inflight N \<and>
     wn_queue M = wn_queue N \<and> wn_fault M = wn_fault N \<and> wn_done M = wn_done N \<and>
     wn_submitted M = wn_submitted N \<and> wn_dropped M = wn_dropped N \<and> wn_arrived M = wn_arrived N"

fun received :: "net_done \<Rightarrow> bytes" where
  "received (RecvDone cb data) = data"
| "received _ = []"

text \<open>An operation either gives the kernel a new object or invokes its callback at once.\<close>

definition call_result :: "WinNet \<Rightarrow> iocp_call \<Rightarrow> WinNet \<Rightarrow> bool" where
  "call_result N x N' \<longleftrightarrow> (\<exists>M. same_core N M \<and>
     ((\<exists>io. N' = io_submit io M \<and> io_callback io = call_callback x \<and>
            (io_operationType io = IoRecv \<longrightarrow> (\<exists>n. x = CallReceive True n (call_callback x)))) \<or>
      (\<exists>d. N' = wn_invoke d M \<and> done_callback d = call_callback x \<and> received d = [])))"

lemma call_resultI:
  "same_core N M \<Longrightarrow> io_callback io = call_callback x \<Longrightarrow>
    (io_operationType io = IoRecv \<longrightarrow> (\<exists>n. x = CallReceive True n (call_callback x))) \<Longrightarrow>
    call_result N x (io_submit io M)"
  "same_core N M \<Longrightarrow> done_callback d = call_callback x \<Longrightarrow> received d = [] \<Longrightarrow> call_result N x (wn_invoke d M)"
  unfolding call_result_def by blast+

lemma exec_call_result: "call_result N x (exec_call x N)"
  by (cases x)
    (auto simp: iocp_doAsyncConnect_def iocp_doAsyncAccept_def iocp_doAsyncSend_def iocp_doAsyncReceive_def
      Let_def new_IO_DATA_def closesocket_def same_core_def intro!: call_resultI split: option.split)

text \<open>A worker invokes the callback of the object once, with the bytes of its buffer for a receive.\<close>

definition arrived_data :: "(nat \<Rightarrow> IO_DATA option) \<Rightarrow> completion \<Rightarrow> bytes" where
  "arrived_data h c =
     (case cq_ptr c of
        None \<Rightarrow> []
      | Some p \<Rightarrow> (case h p of
          None \<Rightarrow> []
        | Some io \<Rightarrow> if io_operationType io = IoRecv \<and> cq_success c then take (cq_bytes c) (io_buffer io) else []))"

definition completion_result :: "WinNet \<Rightarrow> completion \<Rightarrow> IO_DATA \<Rightarrow> WinNet \<times> int option \<Rightarrow> bool" where
  "completion_result N c io R \<longleftrightarrow> (\<exists>M d s. R = (wn_invoke d M, s) \<and> same_core N M \<and>
     done_callback d = io_callback io \<and>
     received d = (if io_operationType io = IoRecv \<and> cq_success c then take (cq_bytes c) (io_buffer io) else []))"

lemma completion_resultI:
  "same_core N M \<Longrightarrow> done_callback d = io_callback io \<Longrightarrow>
   received d = (if io_operationType io = IoRecv \<and> cq_success c then take (cq_bytes c) (io_buffer io) else []) \<Longrightarrow>
   completion_result N c io (wn_invoke d M, s)"
  unfolding completion_result_def by blast

lemma on_completion_result: "completion_result N c io (on_completion env c io N)"
  by (cases "io_operationType io")
    (auto simp: on_completion_def io_failed_def failure_callback_def same_core_def Let_def intro!: completion_resultI)

lemma same_core_inv:
  assumes "same_core N M" and "wn_inv N"
  shows "wn_inv M"
  using assms by (auto simp: same_core_def wn_inv_def owned_def accounted_def pending_def deleting_def)

lemma wn_invoke_inv:
  assumes "wn_inv N" and "done_callback d \<notin> set (wn_submitted N)"
  shows "wn_inv ((wn_invoke d N)\<lparr>wn_submitted := done_callback d # wn_submitted N\<rparr>)"
  using assms by (auto simp: wn_inv_def owned_def accounted_def pending_def deleting_def wn_invoke_def)

lemma heap_callback_cong:
  "(\<And>p. p \<in># M \<Longrightarrow> map_option io_callback (h p) = map_option io_callback (h' p)) \<Longrightarrow>
   image_mset (heap_callback h) M = image_mset (heap_callback h') M"
  by (intro image_mset_cong) (fastforce simp: heap_callback_def split: option.splits)

lemma io_submit_inv:
  assumes "wn_inv N" and "io_callback io \<notin> set (wn_submitted N)"
  shows "wn_inv ((io_submit io N)\<lparr>wn_submitted := io_callback io # wn_submitted N\<rparr>)"
proof -
  let ?h = "wn_heap N" and ?n = "wn_next N"
  have own: "finite (dom ?h)" "pending N + deleting N + mset (wn_dropped N) = mset_set (dom ?h)"
    "\<forall>p \<in> dom ?h. p < ?n"
    using assms by (auto simp: wn_inv_def owned_def)
  then have new: "?n \<notin> dom ?h" by blast
  then have "mset_set (dom (?h(?n \<mapsto> io))) = add_mset ?n (mset_set (dom ?h))"
    using own(1) by (simp add: insert_absorb)
  moreover have "image_mset (heap_callback (?h(?n \<mapsto> io))) (pending N + mset (wn_dropped N)) =
      image_mset (heap_callback ?h) (pending N + mset (wn_dropped N))"
  proof (rule heap_callback_cong)
    fix p
    assume "p \<in># pending N + mset (wn_dropped N)"
    then have "p \<in># mset_set (dom ?h)" using own(2) by (metis union_iff)
    with own(1) new show "map_option io_callback ((?h(?n \<mapsto> io)) p) = map_option io_callback (?h p)" by auto
  qed
  ultimately show ?thesis
    using assms own
    by (auto simp: wn_inv_def owned_def accounted_def pending_def deleting_def io_submit_def heap_callback_def
        less_Suc_eq)
qed

lemma exec_call_submitted: "exec_call x (N\<lparr>wn_submitted := cbs\<rparr>) = (exec_call x N)\<lparr>wn_submitted := cbs\<rparr>"
  by (cases x) (auto simp: iocp_doAsyncConnect_def iocp_doAsyncAccept_def iocp_doAsyncSend_def
      iocp_doAsyncReceive_def Let_def wn_invoke_def io_submit_def closesocket_def split: option.split)

lemma exec_call_inv:
  assumes "wn_inv N" and "call_callback x \<notin> set (wn_submitted N)"
  shows "wn_inv (exec_call x (N\<lparr>wn_submitted := call_callback x # wn_submitted N\<rparr>))"
proof -
  note comm = exec_call_submitted
  from exec_call_result [of N x] obtain M where M: "same_core N M" and
    res: "(\<exists>io. exec_call x N = io_submit io M \<and> io_callback io = call_callback x) \<or>
      (\<exists>d. exec_call x N = wn_invoke d M \<and> done_callback d = call_callback x)"
    unfolding call_result_def by blast
  have sub: "wn_submitted M = wn_submitted N" using M by (simp add: same_core_def)
  note inv = same_core_inv [OF M assms(1)]
  from res show ?thesis
  proof (elim disjE exE conjE)
    fix io
    assume "exec_call x N = io_submit io M" and "io_callback io = call_callback x"
    with io_submit_inv [OF inv, of io] assms(2) sub show ?thesis by (simp add: comm)
  next
    fix d
    assume "exec_call x N = wn_invoke d M" and "done_callback d = call_callback x"
    with wn_invoke_inv [OF inv, of d] assms(2) sub show ?thesis by (simp add: comm)
  qed
qed

text \<open>A worker that moves from \<open>st\<close> to \<open>st'\<close>.\<close>

lemma set_worker_msets:
  assumes "w < length (wn_workers N)"
  shows "pending (set_worker w st N) + taken_mset (wn_workers N ! w) = pending N + taken_mset st"
    and "deleting (set_worker w st N) + deleting_mset (wn_workers N ! w) = deleting N + deleting_mset st"
  using sum_list_update_add [OF assms, of taken_mset st] sum_list_update_add [OF assms, of deleting_mset st]
  by (simp_all add: pending_def deleting_def add.assoc)

lemma set_worker_idle:
  assumes "wn_inv N" "w < length (wn_workers N)"
    and "taken_mset (wn_workers N ! w) = taken_mset st" "deleting_mset (wn_workers N ! w) = deleting_mset st"
  shows "wn_inv (set_worker w st N)"
proof -
  have "pending (set_worker w st N) = pending N" "deleting (set_worker w st N) = deleting N"
    using set_worker_msets [OF assms(2), of st] assms(3,4) by auto
  with assms(1) show ?thesis by (simp add: wn_inv_def owned_def accounted_def)
qed

lemma worker_step_take:
  assumes "wn_inv N" "w < length (wn_workers N)" "wn_workers N ! w = Blocked" "wn_queue N = c # q"
  shows "wn_inv (set_worker w (Took c) (N\<lparr>wn_queue := q\<rparr>))"
proof -
  let ?M = "N\<lparr>wn_queue := q\<rparr>"
  have "pending (set_worker w (Took c) ?M) = pending N" "deleting (set_worker w (Took c) ?M) = deleting N"
    using set_worker_msets [of w ?M "Took c"] assms(2-4) by (auto simp: pending_def deleting_def)
  with assms(1) show ?thesis by (simp add: wn_inv_def owned_def accounted_def)
qed

lemma worker_step_drop:
  assumes "wn_inv N" "w < length (wn_workers N)" "wn_workers N ! w = Took c" "cq_ptr c = Some p" "\<not> wn_running N"
  shows "wn_inv (set_worker w Returned (N\<lparr>wn_dropped := p # wn_dropped N\<rparr>))"
proof -
  let ?M = "N\<lparr>wn_dropped := p # wn_dropped N\<rparr>"
  have "pending (set_worker w Returned ?M) + {#p#} = pending N" "deleting (set_worker w Returned ?M) = deleting N"
    using set_worker_msets [of w ?M Returned] assms(2-4) by (auto simp: ptr_mset_def pending_def deleting_def)
  then have "pending N = add_mset p (pending (set_worker w Returned ?M))" by simp
  with assms(1,5) \<open>deleting (set_worker w Returned ?M) = deleting N\<close> show ?thesis
    by (simp add: wn_inv_def owned_def accounted_def)
qed

lemma took_pending:
  assumes "w < length (wn_workers N)" "wn_workers N ! w = Took c" "cq_ptr c = Some p"
  shows "p \<in># pending N"
  using set_worker_msets(1) [OF assms(1), of Returned] assms(2,3)
  by (metis add_mset_add_single insertI1 ptr_mset_def option.simps(5) set_mset_add_mset_insert taken_mset.simps(1)
      taken_mset.simps(5) add.right_neutral)

lemma pending_allocated:
  assumes "wn_inv N" "p \<in># pending N"
  obtains io where "wn_heap N p = Some io"
proof -
  have own: "finite (dom (wn_heap N))" "pending N + deleting N + mset (wn_dropped N) = mset_set (dom (wn_heap N))"
    using assms(1) by (auto simp: wn_inv_def owned_def)
  then have "p \<in># mset_set (dom (wn_heap N))" using assms(2) by (metis union_iff)
  with own(1) show ?thesis using that by auto
qed

lemma pending_less: "wn_inv N \<Longrightarrow> p \<in># pending N \<Longrightarrow> p < wn_next N"
  using pending_allocated [of N p] by (metis domI owned_def wn_inv_def)

lemma worker_step_callback:
  assumes "wn_inv N" "w < length (wn_workers N)" "wn_workers N ! w = Took c" "cq_ptr c = Some p" "wn_running N"
    and "wn_heap N p = Some io" "on_completion env c io N = (N', s)"
  shows "wn_inv (set_worker w (Deleting p s) N')"
proof -
  from on_completion_result [of N c io env] assms(7) obtain M d where
    M: "N' = wn_invoke d M" "same_core N M" "done_callback d = io_callback io"
    by (auto simp: completion_result_def)
  let ?R = "set_worker w (Deleting p s) N'"
  have "pending N' = pending N" "deleting N' = deleting N" "wn_workers N' = wn_workers N"
    using M by (auto simp: pending_def deleting_def same_core_def wn_invoke_def)
  then have "pending ?R + {#p#} = pending N" "deleting ?R = deleting N + {#p#}"
    using set_worker_msets [of w N' "Deleting p s"] assms(2-4) by (auto simp: ptr_mset_def)
  then have "pending N = add_mset p (pending ?R)" "deleting ?R = add_mset p (deleting N)" by simp_all
  then show ?thesis
    using assms(1,5,6) M
    by (auto simp add: wn_inv_def owned_def accounted_def same_core_def wn_invoke_def heap_callback_def)
qed

lemma worker_step_delete:
  assumes "wn_inv N" "w < length (wn_workers N)" "wn_workers N ! w = Deleting p s"
  shows "wn_heap N p \<noteq> None" and "wn_inv (set_worker w AtTest (N\<lparr>wn_heap := (wn_heap N)(p := None)\<rparr>))"
proof -
  let ?h = "(wn_heap N)(p := None)"
  let ?M = "N\<lparr>wn_heap := ?h\<rparr>"
  let ?R = "set_worker w AtTest ?M"
  have msets: "pending ?R = pending N" "deleting ?R + {#p#} = deleting N"
    using set_worker_msets [of w ?M AtTest] assms(2,3) by (auto simp: pending_def deleting_def)
  then have del: "deleting N = add_mset p (deleting ?R)" by simp
  have own: "finite (dom (wn_heap N))" "pending N + deleting N + mset (wn_dropped N) = mset_set (dom (wn_heap N))"
    using assms(1) by (auto simp: wn_inv_def owned_def)
  then have eq: "add_mset p (pending N + deleting ?R + mset (wn_dropped N)) = mset_set (dom (wn_heap N))"
    using del by simp
  then have p: "p \<in> dom (wn_heap N)" using own(1) by (metis elem_mset_set union_single_eq_member add_mset_add_single)
  then show "wn_heap N p \<noteq> None" by blast
  have rest: "pending N + deleting ?R + mset (wn_dropped N) = mset_set (dom (wn_heap N) - {p})"
    using eq own(1) p by (metis add_mset_remove_trivial mset_set.remove)
  have "image_mset (heap_callback ?h) (pending N + mset (wn_dropped N)) =
      image_mset (heap_callback (wn_heap N)) (pending N + mset (wn_dropped N))"
  proof (rule heap_callback_cong)
    fix q
    assume "q \<in># pending N + mset (wn_dropped N)"
    then have "q \<in># mset_set (dom (wn_heap N) - {p})" using rest by (metis union_iff)
    with own(1) show "map_option io_callback (?h q) = map_option io_callback (wn_heap N q)" by auto
  qed
  then show "wn_inv ?R"
    using assms(1) msets(1) rest
    by (simp add: wn_inv_def owned_def accounted_def dom_fun_upd)
qed

lemma worker_step_inv:
  assumes "wn_inv N" and "w < length (wn_workers N)"
  shows "wn_inv (worker_step env w N)"
proof (cases "wn_workers N ! w")
  case AtTest
  then show ?thesis using set_worker_idle [OF assms] by (simp add: worker_step_def)
next
  case Blocked
  then show ?thesis
    using assms worker_step_take [OF assms] by (cases "wn_queue N") (simp_all add: worker_step_def)
next
  case (Took c)
  show ?thesis
  proof (cases "cq_ptr c")
    case None
    with Took show ?thesis
      using set_worker_idle [OF assms] by (simp add: worker_step_def ptr_mset_def)
  next
    case (Some p)
    show ?thesis
    proof (cases "wn_running N")
      case False
      with Took Some show ?thesis using worker_step_drop [OF assms Took Some] by (simp add: worker_step_def)
    next
      case True
      obtain io where io: "wn_heap N p = Some io"
        using pending_allocated [OF assms(1) took_pending [OF assms(2) Took Some]] .
      obtain N' s where comp: "on_completion env c io N = (N', s)" by (cases "on_completion env c io N")
      from worker_step_callback [OF assms Took Some True io comp] show ?thesis
        using Took Some True io comp by (simp add: worker_step_def)
    qed
  qed
next
  case (Deleting p s)
  let ?N = "case s of None \<Rightarrow> N | Some s \<Rightarrow> closesocket s N"
  have same: "same_core N ?N" by (auto simp: same_core_def closesocket_def split: option.split)
  then have "wn_workers ?N = wn_workers N" by (simp add: same_core_def)
  then have "w < length (wn_workers ?N)" "wn_workers ?N ! w = Deleting p s" using assms(2) Deleting by simp_all
  from worker_step_delete [OF same_core_inv [OF same assms(1)] this] show ?thesis
    using Deleting by (auto simp add: worker_step_def Let_def)
next
  case Returned
  with assms show ?thesis by (simp add: worker_step_def)
qed

lemma kernel_complete_inv:
  assumes "wn_inv N" and "p \<in> set (wn_inflight N)"
  shows "wn_inv (kernel_complete p success n data N)"
proof -
  let ?R = "kernel_complete p success n data N"
  have "p \<in># pending N" using assms(2) by (simp add: pending_def)
  then obtain io where io: "wn_heap N p = Some io" using pending_allocated [OF assms(1)] by blast
  have msets: "pending ?R = pending N" "deleting ?R = deleting N"
    using assms(2) io by (auto simp: kernel_complete_def Let_def pending_def deleting_def ptr_mset_def)
  have heap: "dom (wn_heap ?R) = dom (wn_heap N)"
    "image_mset (heap_callback (wn_heap ?R)) M = image_mset (heap_callback (wn_heap N)) M" for M
    using io by (auto simp: kernel_complete_def Let_def intro!: heap_callback_cong)
  have "wn_next ?R = wn_next N" "wn_fault ?R = wn_fault N" "wn_done ?R = wn_done N"
    "wn_submitted ?R = wn_submitted N" "wn_dropped ?R = wn_dropped N" "wn_running ?R = wn_running N"
    using io by (simp_all add: kernel_complete_def Let_def)
  with msets heap assms(1) show ?thesis by (simp add: wn_inv_def owned_def accounted_def)
qed

lemma closing_step_inv:
  assumes "closing_step N N'" and "wn_inv N"
  shows "wn_inv N'"
  using assms
proof cases
  case (worker w env)
  with assms(2) show ?thesis by (simp add: worker_step_inv)
next
  case (post k)
  have [simp]: "ptr_mset shutdown_status = {#}" by (simp add: ptr_mset_def shutdown_status_def)
  from post assms(2) show ?thesis
    by (cases k) (auto simp: close_post_def wn_inv_def owned_def accounted_def pending_def deleting_def)
next
  case join
  have "sum_list (map taken_mset (wn_workers N)) = {#}" "sum_list (map deleting_mset (wn_workers N)) = {#}"
    by (rule sum_list_empty; use join in fastforce)+
  with join assms(2) show ?thesis
    by (auto simp: close_end_def closesocket_def Let_def wn_inv_def owned_def accounted_def pending_def deleting_def)
qed

lemma close_begin_inv: "wn_inv N \<Longrightarrow> wn_inv (close_begin N)"
  by (auto simp: close_begin_def wn_inv_def owned_def accounted_def pending_def deleting_def)

lemma iocp_step_inv:
  assumes "iocp_step G N N'" and "wn_inv N"
  shows "wn_inv N'"
  using assms by cases (auto intro: exec_call_inv kernel_complete_inv closing_step_inv close_begin_inv)

text \<open>The states that setting up can leave.\<close>

definition iocp_started :: "nat \<Rightarrow> WinNet \<Rightarrow> bool" where
  "iocp_started n N \<longleftrightarrow> same_core (new_WinNet\<lparr>wn_running := True, wn_workers := replicate n AtTest\<rparr>) N"

lemma initialize_started: "iocp_started n (snd (iocp_initialize True n new_WinNet))"
  by (simp add: iocp_started_def same_core_def iocp_initialize_def new_WinNet_def)

lemma prepareServer_started: "iocp_started n (snd (iocp_prepareServer True n env new_WinNet))"
  by (auto simp: iocp_started_def same_core_def iocp_prepareServer_def iocp_initialize_def new_WinNet_def
      setupListeningSocket_def closesocket_def Let_def split: option.split)

lemma started_inv: "iocp_started n N \<Longrightarrow> wn_inv N"
  by (auto simp: iocp_started_def same_core_def wn_inv_def owned_def accounted_def pending_def deleting_def
      new_WinNet_def sum_list_empty simp del: map_replicate)

lemma iocp_reachable_inv: "iocp_reachable G n N \<Longrightarrow> wn_inv N"
  by (induction rule: iocp_reachable.induct)
    (use initialize_started prepareServer_started started_inv in \<open>blast+, blast intro: iocp_step_inv\<close>)

lemma distinct_subseteq_mset: "mset xs \<subseteq># mset ys \<Longrightarrow> distinct ys \<Longrightarrow> distinct xs"
proof (unfold distinct_count_atmost_1, intro allI)
  fix a
  assume sub: "mset xs \<subseteq># mset ys" and ys: "\<forall>x. count (mset ys) x = (if x \<in> set ys then 1 else 0)"
  have "count (mset xs) a \<le> count (mset ys) a" using sub by (rule mset_subset_eq_count)
  also have "\<dots> \<le> 1" using ys by simp
  finally have "count (mset xs) a \<le> 1" .
  then show "count (mset xs) a = (if a \<in> set xs then 1 else 0)"
    by (metis One_nat_def count_greater_zero_iff le_Suc_eq le_zero_eq neq0_conv set_mset_mset)
qed

text \<open>
  With any number of workers and any interleaving of calls, completions and \<open>close\<close>, no callback
  is invoked twice and none that was not passed; until \<open>close\<close> resets \<open>running\<close>, the callbacks not yet
  invoked are exactly those of the objects the kernel, the port or a worker still holds.
\<close>

theorem iocp_callbacks_once:
  assumes "iocp_reachable G n N"
  shows "distinct (map done_callback (wn_done N)) \<and>
    set (map done_callback (wn_done N)) \<subseteq> set (wn_submitted N) \<and>
    (wn_running N \<longrightarrow> mset (wn_submitted N) =
       mset (map done_callback (wn_done N)) + image_mset (heap_callback (wn_heap N)) (pending N))"
proof -
  have inv: "accounted N" "wn_running N \<longrightarrow> wn_dropped N = []"
    using iocp_reachable_inv [OF assms] by (auto simp: wn_inv_def)
  then have "mset (map done_callback (wn_done N)) \<subseteq># mset (wn_submitted N)" "distinct (wn_submitted N)"
    by (simp_all add: accounted_def)
  then have "distinct (map done_callback (wn_done N))" "set (map done_callback (wn_done N)) \<subseteq> set (wn_submitted N)"
    by (metis distinct_subseteq_mset, metis set_mset_mono set_mset_mset)
  then show ?thesis using inv by (simp add: accounted_def)
qed

text \<open>
  C33: No worker and no completion uses an object that is not allocated and none is deleted twice; until
  \<open>close\<close>, every allocated object has exactly one owner, so each is deleted once its callback is done.
\<close>

theorem iocp_memory_safe:
  assumes "iocp_reachable G n N"
  shows "\<not> wn_fault N \<and> finite (dom (wn_heap N)) \<and>
    pending N + deleting N + mset (wn_dropped N) = mset_set (dom (wn_heap N)) \<and>
    (wn_running N \<longrightarrow> wn_dropped N = [])"
  using iocp_reachable_inv [OF assms] by (simp add: wn_inv_def owned_def)

subsection \<open>Closing ends\<close>

text \<open>
  Once \<open>running\<close> is reset, the queue and the statuses still to post are enough for the workers that are
  blocked, and no worker blocks again.
\<close>

fun posts_left :: "close_phase \<Rightarrow> nat" where
  "posts_left (Posting k) = k"
| "posts_left _ = 0"

definition blocked :: "WinNet \<Rightarrow> nat" where
  "blocked N = length (filter (\<lambda>st. st = Blocked) (wn_workers N))"

definition close_inv :: "WinNet \<Rightarrow> bool" where
  "close_inv N \<longleftrightarrow> (wn_running N \<longleftrightarrow> wn_closing N = NotClosing) \<and>
     (\<not> wn_running N \<longrightarrow> blocked N \<le> length (wn_queue N) + posts_left (wn_closing N)) \<and>
     (wn_closing N = CloseDone \<longrightarrow> wn_workers N = [])"

text \<open>How many steps a worker and \<open>close\<close> may still make.\<close>

fun worker_rank :: "worker \<Rightarrow> nat" where
  "worker_rank AtTest = 1"
| "worker_rank Blocked = 2"
| "worker_rank (Took c) = 1"
| "worker_rank (Deleting p s) = 2"
| "worker_rank Returned = 0"

fun close_rank :: "close_phase \<Rightarrow> nat" where
  "close_rank NotClosing = 0"
| "close_rank (Posting k) = k + 2"
| "close_rank Joining = 1"
| "close_rank CloseDone = 0"

definition close_measure :: "WinNet \<Rightarrow> nat" where
  "close_measure N = sum_list (map worker_rank (wn_workers N)) + close_rank (wn_closing N)"

text \<open>What a worker step changes, outside the case of a running interface.\<close>

definition retires :: "nat \<Rightarrow> WinNet \<Rightarrow> WinNet \<Rightarrow> bool" where
  "retires w N N' \<longleftrightarrow> (\<exists>st. wn_workers N' = (wn_workers N)[w := st] \<and> st \<noteq> Blocked \<and>
     worker_rank st < worker_rank (wn_workers N ! w) \<and> wn_closing N' = wn_closing N \<and> \<not> wn_running N' \<and>
     length (wn_queue N') = length (wn_queue N) - (if wn_workers N ! w = Blocked then 1 else 0))"

lemma retires_set_worker:
  "st \<noteq> Blocked \<Longrightarrow> worker_rank st < worker_rank (wn_workers N ! w) \<Longrightarrow> \<not> wn_running N' \<Longrightarrow>
   wn_workers N' = wn_workers N \<Longrightarrow> wn_closing N' = wn_closing N \<Longrightarrow>
   length (wn_queue N') = length (wn_queue N) - (if wn_workers N ! w = Blocked then 1 else 0) \<Longrightarrow>
   retires w N (set_worker w st N')"
  by (auto simp: retires_def)

lemma worker_step_retires:
  assumes "\<not> wn_running N" and "wn_workers N ! w \<noteq> Returned" and "wn_workers N ! w = Blocked \<longrightarrow> wn_queue N \<noteq> []"
  shows "retires w N (worker_step env w N)"
  using assms
  by (cases "wn_workers N ! w")
    (auto simp: worker_step_def Let_def closesocket_def neq_Nil_conv intro!: retires_set_worker split: option.split)

lemma sum_list_blocked: "sum_list (map (\<lambda>st. if st = Blocked then 1 else 0) xs) = length (filter (\<lambda>st. st = Blocked) xs)"
  by (induction xs) auto

lemma retires_inv:
  assumes "retires w N N'" and "w < length (wn_workers N)" and "close_inv N" and "\<not> wn_running N"
    and "wn_workers N ! w = Blocked \<longrightarrow> wn_queue N \<noteq> []"
  shows "close_inv N' \<and> close_measure N' < close_measure N"
proof -
  from assms(1) obtain st where st: "wn_workers N' = (wn_workers N)[w := st]" "st \<noteq> Blocked"
    "worker_rank st < worker_rank (wn_workers N ! w)" "wn_closing N' = wn_closing N" "\<not> wn_running N'"
    "length (wn_queue N') = length (wn_queue N) - (if wn_workers N ! w = Blocked then 1 else 0)"
    by (auto simp: retires_def)
  have "blocked N' + (if wn_workers N ! w = Blocked then 1 else 0) = blocked N"
    using sum_list_update_add [OF assms(2), of "\<lambda>st. if st = Blocked then 1 else 0 :: nat" st] st(1,2)
    by (simp add: blocked_def sum_list_blocked)
  moreover have "sum_list (map worker_rank (wn_workers N')) + worker_rank (wn_workers N ! w) =
      sum_list (map worker_rank (wn_workers N)) + worker_rank st"
    using sum_list_update_add [OF assms(2), of worker_rank st] st(1) by simp
  ultimately show ?thesis
    using assms(3-5) st by (auto simp: close_inv_def close_measure_def split: if_splits)
qed

lemma close_post_inv:
  assumes "close_inv N" and "wn_closing N = Posting k"
  shows "close_inv (close_post N) \<and> close_measure (close_post N) < close_measure N \<and> \<not> wn_running (close_post N)"
  using assms by (cases k) (auto simp: close_post_def close_inv_def close_measure_def blocked_def)

lemma close_end_inv:
  assumes "close_inv N" and "wn_closing N = Joining"
  shows "close_inv (close_end N) \<and> close_measure (close_end N) < close_measure N \<and> \<not> wn_running (close_end N)"
  using assms by (auto simp: close_end_def closesocket_def Let_def close_inv_def close_measure_def blocked_def)

lemma closing_step_close_inv:
  assumes "closing_step N N'" and "close_inv N" and "\<not> wn_running N"
  shows "close_inv N' \<and> close_measure N' < close_measure N \<and> \<not> wn_running N'"
  using assms(1)
proof cases
  case (worker w env)
  have "retires w N N'" using worker_step_retires [of N w env] worker assms(3) by blast
  with retires_inv [OF this worker(2) assms(2,3) worker(4)] show ?thesis by (auto simp: retires_def)
qed (use assms(2) close_post_inv close_end_inv in auto)

text \<open>While it runs, nothing is required; a call and a completion leave the workers as they are.\<close>

lemma closing_step_running:
  assumes "closing_step N N'" and "close_inv N" and "wn_running N"
  shows "close_inv N'"
  using assms(1)
proof cases
  case (worker w env)
  have "wn_running N' \<and> wn_closing N' = wn_closing N"
  proof (cases "wn_workers N ! w")
    case (Took c)
    have "wn_running M \<and> wn_closing M = wn_closing N" if "on_completion env c io N = (M, s)" for io M s
      using on_completion_result [of N c io env] assms(3) that
      by (auto simp: completion_result_def same_core_def wn_invoke_def)
    with Took worker(1) assms(3) show ?thesis by (auto simp: worker_step_def split: option.split prod.split)
  qed (use worker assms(3) in \<open>auto simp: worker_step_def Let_def closesocket_def split: list.split option.split\<close>)
  with assms(2,3) show ?thesis by (simp add: close_inv_def)
qed (use assms(2,3) in \<open>auto simp: close_inv_def\<close>)


lemma exec_call_fields:
  "wn_running (exec_call x N) = wn_running N \<and> wn_closing (exec_call x N) = wn_closing N \<and>
   wn_workers (exec_call x N) = wn_workers N \<and> wn_queue (exec_call x N) = wn_queue N"
  using exec_call_result [of N x] by (auto simp: call_result_def same_core_def io_submit_def wn_invoke_def)

lemma iocp_step_close_inv:
  assumes "iocp_step G N N'" and "close_inv N"
  shows "close_inv N'"
  using assms(1)
proof cases
  case (call x)
  with assms(2) show ?thesis by (simp add: exec_call_fields close_inv_def blocked_def)
next
  case (kernel p success n data)
  with assms(2) show ?thesis
    by (auto simp: kernel_complete_def Let_def close_inv_def blocked_def split: option.split)
next
  case thread
  with assms(2) show ?thesis using closing_step_close_inv closing_step_running by blast
next
  case close
  with assms(2) show ?thesis by (simp add: close_begin_def close_inv_def blocked_def trans_le_add2)
qed

lemma reachable_close_inv: "iocp_reachable G n N \<Longrightarrow> close_inv N"
proof (induction rule: iocp_reachable.induct)
  case client
  then show ?case by (simp add: iocp_initialize_def new_WinNet_def close_inv_def)
next
  case (server env)
  then show ?case using prepareServer_started [of n env]
    by (simp add: iocp_started_def same_core_def close_inv_def new_WinNet_def)
qed (rule iocp_step_close_inv)

lemma closing_step_enabled:
  assumes "close_inv N" and "\<not> wn_running N" and "wn_closing N \<noteq> CloseDone"
  shows "\<exists>N'. closing_step N N'"
proof (cases "wn_closing N")
  case Joining
  show ?thesis
  proof (cases "set (wn_workers N) \<subseteq> {Returned}")
    case False
    then obtain w where w: "w < length (wn_workers N)" "wn_workers N ! w \<noteq> Returned"
      by (metis in_set_conv_nth insertCI subsetI)
    have "wn_queue N \<noteq> []" if "wn_workers N ! w = Blocked"
    proof -
      have "Blocked \<in> set (wn_workers N)" using w(1) that by (metis nth_mem)
      then have "0 < blocked N" by (auto simp: blocked_def filter_empty_conv)
      then show ?thesis using assms(1,2) Joining by (auto simp: close_inv_def)
    qed
    with w show ?thesis by (blast intro: closing_step.worker)
  qed (use Joining closing_step.join in blast)
qed (use assms closing_step.post in \<open>auto simp: close_inv_def\<close>)

text \<open>
  C32: Once \<open>close\<close> has begun, the workers and \<open>close\<close> finish by themselves: as long as \<open>close\<close> has not
  returned one of them can make a step, whether or not the kernel completes anything more, and they
  make at most \<open>close_measure\<close> steps.
\<close>

theorem iocp_close_ends:
  assumes "iocp_reachable G n N" and "\<not> wn_running N"
  shows "(wn_closing N \<noteq> CloseDone \<longrightarrow> (\<exists>N'. closing_step N N')) \<and>
    (\<forall>N'. closing_step N N' \<longrightarrow> close_measure N' < close_measure N) \<and>
    (\<exists>N'. closing_step\<^sup>*\<^sup>* N N' \<and> wn_closing N' = CloseDone \<and> wn_workers N' = [])"
proof -
  have "\<exists>N'. closing_step\<^sup>*\<^sup>* N N' \<and> wn_closing N' = CloseDone \<and> wn_workers N' = []"
    if "close_inv N" "\<not> wn_running N" for N
    using that
  proof (induction "close_measure N" arbitrary: N rule: less_induct)
    case less
    show ?case
    proof (cases "wn_closing N = CloseDone")
      case True
      with less.prems show ?thesis by (auto simp: close_inv_def)
    next
      case False
      then obtain M where M: "closing_step N M" using closing_step_enabled less.prems by blast
      with closing_step_close_inv less.prems less.hyps obtain N' where
        "closing_step\<^sup>*\<^sup>* M N'" "wn_closing N' = CloseDone" "wn_workers N' = []" by blast
      with M show ?thesis by (blast intro: converse_rtranclp_into_rtranclp)
    qed
  qed
  then show ?thesis
    using reachable_close_inv [OF assms(1)] assms(2) closing_step_enabled closing_step_close_inv by blast
qed

subsection \<open>The bytes received\<close>

text \<open>The program asks for more only when the previous receive has been reported.\<close>

definition receives :: "(nat \<Rightarrow> IO_DATA option) \<Rightarrow> nat multiset \<Rightarrow> nat multiset" where
  "receives h M = filter_mset (\<lambda>p. \<exists>io. h p = Some io \<and> io_operationType io = IoRecv) M"

definition one_receive :: "WinNet \<Rightarrow> iocp_call \<Rightarrow> bool" where
  "one_receive N x \<longleftrightarrow> (\<exists>start k cb. x = CallReceive start k cb) \<longrightarrow> receives (wn_heap N) (pending N) = {#}"

definition completions :: "WinNet \<Rightarrow> completion set" where
  "completions N = set (wn_queue N) \<union> {c. Took c \<in> set (wn_workers N)}"

definition is_receive :: "(nat \<Rightarrow> IO_DATA option) \<Rightarrow> completion \<Rightarrow> bool" where
  "is_receive h c \<longleftrightarrow> (\<exists>p io. cq_ptr c = Some p \<and> h p = Some io \<and> io_operationType io = IoRecv)"

text \<open>The bytes reported are those that arrived, but for what the one completed receive still carries.\<close>

definition in_order :: "(nat \<Rightarrow> IO_DATA option) \<Rightarrow> completion set \<Rightarrow> bytes \<Rightarrow> bytes \<Rightarrow> bool" where
  "in_order h C arrived reported \<longleftrightarrow>
     (\<forall>c \<in> C. is_receive h c \<longrightarrow> arrived = reported @ arrived_data h c) \<and>
     ((\<forall>c \<in> C. \<not> is_receive h c) \<longrightarrow> arrived = reported)"

definition reported :: "WinNet \<Rightarrow> bytes" where
  "reported N = concat (map received (wn_done N))"

definition stream_inv :: "WinNet \<Rightarrow> bool" where
  "stream_inv N \<longleftrightarrow> size (receives (wn_heap N) (pending N)) \<le> 1 \<and>
     prefix (reported N) (wn_arrived N) \<and>
     (wn_running N \<longrightarrow> in_order (wn_heap N) (completions N) (wn_arrived N) (reported N))"

lemma in_order_cong:
  assumes "\<And>c p. c \<in> C \<Longrightarrow> cq_ptr c = Some p \<Longrightarrow> h' p = h p"
  shows "in_order h' C A R = in_order h C A R"
proof -
  have "is_receive h' c = is_receive h c" "arrived_data h' c = arrived_data h c" if "c \<in> C" for c
    using assms [OF that] by (cases "cq_ptr c"; simp add: is_receive_def arrived_data_def)+
  then show ?thesis by (simp add: in_order_def)
qed

lemma took_update:
  "w < length xs \<Longrightarrow> {c. Took c \<in> set (xs[w := y])} \<union> {c. xs ! w = Took c} \<supseteq> {c. Took c \<in> set xs}"
  "w < length xs \<Longrightarrow> {c. Took c \<in> set (xs[w := y])} \<subseteq> {c. Took c \<in> set xs} \<union> {c. y = Took c}"
  "w < length xs \<Longrightarrow> {c. y = Took c} \<subseteq> {c. Took c \<in> set (xs[w := y])}"
  using set_update_subset_insert [of xs w y] set_update_memI [of w xs y]
  by (auto simp: in_set_conv_nth nth_list_update)

lemma sum_list_member: "x \<in> set xs \<Longrightarrow> f x \<subseteq># (sum_list (map f xs) :: 'a multiset)"
  by (induction xs) (auto simp: subset_mset.add_increasing subset_mset.add_increasing2)

lemma completion_pending:
  assumes "c \<in> completions N" and "cq_ptr c = Some p"
  shows "p \<in># pending N"
proof -
  have "ptr_mset c \<subseteq># sum_list (map ptr_mset (wn_queue N)) \<or>
      taken_mset (Took c) \<subseteq># sum_list (map taken_mset (wn_workers N))"
    using assms(1) sum_list_member [of c "wn_queue N" ptr_mset]
      sum_list_member [of "Took c" "wn_workers N" taken_mset] by (auto simp: completions_def)
  then show ?thesis using assms(2) by (auto simp: ptr_mset_def pending_def)
qed

lemma no_receive_completions:
  assumes "receives (wn_heap N) (pending N) = {#}" and "c \<in> completions N"
  shows "\<not> is_receive (wn_heap N) c"
  using assms(1) completion_pending [OF assms(2)]
  by (auto simp: is_receive_def receives_def)


lemma receives_cong:
  "(\<And>p. p \<in># M \<Longrightarrow> map_option io_operationType (h p) = map_option io_operationType (h' p)) \<Longrightarrow>
   receives h M = receives h' M"
  unfolding receives_def by (intro filter_mset_cong refl) (metis (no_types, lifting) map_option_eq_Some)

lemma receives_add [simp]:
  "receives h {#} = {#}" "receives h (M + M') = receives h M + receives h M'"
  "receives h (add_mset p M) =
     (if \<exists>io. h p = Some io \<and> io_operationType io = IoRecv then add_mset p (receives h M) else receives h M)"
  by (simp_all add: receives_def)

lemma stream_inv_same:
  "stream_inv N \<Longrightarrow> same_core N M \<Longrightarrow> stream_inv M"
  by (auto simp: stream_inv_def same_core_def pending_def completions_def reported_def)

lemma stream_inv_call:
  assumes "stream_inv N" and "wn_inv N" and "one_receive N x"
  shows "stream_inv (exec_call x N)"
proof -
  from exec_call_result [of N x] obtain M where M: "same_core N M" and
    res: "(\<exists>io. exec_call x N = io_submit io M \<and>
        (io_operationType io = IoRecv \<longrightarrow> (\<exists>n. x = CallReceive True n (call_callback x)))) \<or>
      (\<exists>d. exec_call x N = wn_invoke d M \<and> received d = [])"
    unfolding call_result_def by blast
  note inv = stream_inv_same [OF assms(1) M] same_core_inv [OF M assms(2)]
  from res show ?thesis
  proof (elim disjE exE conjE)
    fix io
    assume N': "exec_call x N = io_submit io M"
      and recv: "io_operationType io = IoRecv \<longrightarrow> (\<exists>n. x = CallReceive True n (call_callback x))"
    have new: "p \<noteq> wn_next M" if "p \<in># pending M" for p
      using pending_less [OF inv(2) that] by simp
    have "receives (wn_heap M) (pending M) = {#}" if "io_operationType io = IoRecv"
      using assms(3) recv that M by (auto simp: one_receive_def same_core_def pending_def)
    moreover have "receives ((wn_heap M)(wn_next M \<mapsto> io)) (pending M) = receives (wn_heap M) (pending M)"
      by (rule receives_cong) (simp add: new)
    moreover have "pending (io_submit io M) = add_mset (wn_next M) (pending M)"
      by (simp add: io_submit_def pending_def)
    ultimately have "size (receives (wn_heap (io_submit io M)) (pending (io_submit io M))) \<le> 1"
      using inv(1) by (auto simp: io_submit_def stream_inv_def)
    moreover have "in_order ((wn_heap M)(wn_next M \<mapsto> io)) (completions M) (wn_arrived M) (reported M) =
        in_order (wn_heap M) (completions M) (wn_arrived M) (reported M)"
      by (rule in_order_cong) (use completion_pending new in fastforce)
    ultimately show ?thesis
      using inv(1) by (simp add: N' stream_inv_def io_submit_def completions_def reported_def)
  next
    fix d
    assume "exec_call x N = wn_invoke d M" and "received d = []"
    with inv(1) show ?thesis
      by (simp add: stream_inv_def wn_invoke_def completions_def reported_def pending_def)
  qed
qed

lemma stream_inv_kernel:
  assumes "stream_inv N" and "p \<in> set (wn_inflight N)" and "wn_heap N p = Some io"
    and "completion_allowed io success n data"
  shows "stream_inv (kernel_complete p success n data N)"
proof -
  let ?R = "kernel_complete p success n data N"
  let ?c = "\<lparr>cq_success = success, cq_bytes = n, cq_ptr = Some p\<rparr>"
  let ?M = "N\<lparr>wn_inflight := remove1 p (wn_inflight N)\<rparr>"
  have pend: "pending N = add_mset p (pending ?M)" "pending ?R = pending N" "completions ?M = completions N"
    "completions ?R = insert ?c (completions N)" "reported ?R = reported N" "wn_running ?R = wn_running N"
    using assms(2,3) by (auto simp: kernel_complete_def Let_def pending_def completions_def reported_def ptr_mset_def)
  have size: "size (receives (wn_heap ?R) (pending ?R)) \<le> 1"
  proof -
    have "receives (wn_heap ?R) (pending N) = receives (wn_heap N) (pending N)"
      using assms(3) by (intro receives_cong) (auto simp: kernel_complete_def Let_def)
    with assms(1) pend(2) show ?thesis by (simp add: stream_inv_def)
  qed
  show ?thesis
  proof (cases "io_operationType io = IoRecv")
    case False
    then have "wn_heap ?R = wn_heap N" "wn_arrived ?R = wn_arrived N" "\<not> is_receive (wn_heap N) ?c"
      using assms(3) by (auto simp: kernel_complete_def Let_def is_receive_def)
    with assms(1) size pend show ?thesis by (auto simp: stream_inv_def in_order_def)
  next
    case True
    have "receives (wn_heap N) (pending ?M) = {#}"
      using assms(1,3) True pend(1) by (simp add: stream_inv_def)
    then have none: "\<not> is_receive (wn_heap N) c" if "c \<in> completions N" for c
      using no_receive_completions [of ?M c] that pend(3) by simp
    have other: "is_receive (wn_heap ?R) c \<longleftrightarrow> is_receive (wn_heap N) c" for c
      using assms(3) by (auto simp: kernel_complete_def Let_def is_receive_def)
    have "wn_arrived ?R = wn_arrived N @ arrived_data (wn_heap ?R) ?c" "is_receive (wn_heap ?R) ?c"
      using assms(3,4) True
      by (auto simp: kernel_complete_def Let_def arrived_data_def completion_allowed_def is_receive_def)
    moreover have "wn_arrived N = reported N" if "wn_running N"
      using assms(1) none that by (simp add: stream_inv_def in_order_def)
    ultimately show ?thesis
      using assms(1) size pend none other by (auto simp: stream_inv_def in_order_def prefix_def)
  qed
qed

lemma completions_set_worker:
  assumes "w < length (wn_workers N)"
  shows "completions N \<subseteq> completions (set_worker w st N) \<union> {c. wn_workers N ! w = Took c}"
    and "completions (set_worker w st N) \<subseteq> completions N \<union> {c. st = Took c}"
    and "{c. st = Took c} \<subseteq> completions (set_worker w st N)"
  using took_update [OF assms] assms by (auto simp: completions_def set_update_memI)

lemma reported_fields [simp]:
  "reported (set_worker w st N) = reported N" "reported (N\<lparr>wn_queue := q\<rparr>) = reported N"
  "reported (N\<lparr>wn_dropped := ps\<rparr>) = reported N" "reported (N\<lparr>wn_heap := h\<rparr>) = reported N"
  by (simp_all add: reported_def)

lemma stream_inv_idle:
  assumes "stream_inv N" "w < length (wn_workers N)"
    and "taken_mset (wn_workers N ! w) = {#}" "taken_mset st = {#}"
    and "\<forall>c. st \<noteq> Took c" "\<forall>c. wn_workers N ! w = Took c \<longrightarrow> cq_ptr c = None"
  shows "stream_inv (set_worker w st N)"
proof -
  have "pending (set_worker w st N) = pending N"
    using set_worker_msets(1) [OF assms(2), of st] assms(3,4) by simp
  moreover have "in_order h (completions (set_worker w st N)) A R = in_order h (completions N) A R" for h A R
  proof -
    have "c \<in> completions (set_worker w st N) \<longleftrightarrow> c \<in> completions N" if "is_receive h c" for c
    proof -
      have "cq_ptr c \<noteq> None" using that by (auto simp: is_receive_def)
      then have "wn_workers N ! w \<noteq> Took c" "st \<noteq> Took c" using assms(5,6) by auto
      with completions_set_worker(1,2) [OF assms(2), of st] show ?thesis by blast
    qed
    then show ?thesis by (auto simp: in_order_def)
  qed
  ultimately show ?thesis using assms(1) by (simp add: stream_inv_def)
qed

lemma stream_inv_take:
  assumes "stream_inv N" "w < length (wn_workers N)" "wn_workers N ! w = Blocked" "wn_queue N = c # q"
  shows "stream_inv (set_worker w (Took c) (N\<lparr>wn_queue := q\<rparr>))"
proof -
  let ?M = "N\<lparr>wn_queue := q\<rparr>" and ?R = "set_worker w (Took c) (N\<lparr>wn_queue := q\<rparr>)"
  have "pending ?R = pending N"
    using set_worker_msets(1) [of w ?M "Took c"] assms(2-4) by (auto simp: pending_def)
  moreover have "completions ?R = completions N"
  proof -
    have "completions ?M \<subseteq> completions ?R" "completions ?R \<subseteq> completions ?M \<union> {c}" "c \<in> completions ?R"
      using completions_set_worker [of w ?M "Took c"] assms(2,3) by auto
    moreover have "completions N = completions ?M \<union> {c}" using assms(4) by (auto simp: completions_def)
    ultimately show ?thesis by blast
  qed
  ultimately show ?thesis using assms(1) by (simp add: stream_inv_def)
qed

lemma stream_inv_drop:
  assumes "stream_inv N" "w < length (wn_workers N)" "wn_workers N ! w = Took c" "cq_ptr c = Some p" "\<not> wn_running N"
  shows "stream_inv (set_worker w Returned (N\<lparr>wn_dropped := p # wn_dropped N\<rparr>))"
proof -
  let ?M = "N\<lparr>wn_dropped := p # wn_dropped N\<rparr>"
  have "pending (set_worker w Returned ?M) + {#p#} = pending N"
    using set_worker_msets(1) [of w ?M Returned] assms(2-4) by (auto simp: ptr_mset_def pending_def)
  then have "pending N = add_mset p (pending (set_worker w Returned ?M))" by simp
  with assms(1,5) show ?thesis by (auto simp: stream_inv_def split: if_splits)
qed

lemma stream_inv_callback:
  assumes "stream_inv N" "w < length (wn_workers N)" "wn_workers N ! w = Took c" "cq_ptr c = Some p" "wn_running N"
    and "wn_heap N p = Some io" "on_completion env c io N = (N', s)"
  shows "stream_inv (set_worker w (Deleting p s) N')"
proof -
  from on_completion_result [of N c io env] assms(7) obtain M d where M: "N' = wn_invoke d M" "same_core N M"
    and d: "received d = (if io_operationType io = IoRecv \<and> cq_success c then take (cq_bytes c) (io_buffer io) else [])"
    by (auto simp: completion_result_def)
  let ?R = "set_worker w (Deleting p s) N'" and ?P = "set_worker w (Deleting p s) N"
  have same: "pending ?R = pending ?P" "completions ?R = completions ?P" "wn_heap ?R = wn_heap N"
    "wn_arrived ?R = wn_arrived N" "reported ?R = reported N @ received d" "wn_running ?R"
    using M assms(5) by (auto simp: pending_def completions_def reported_def same_core_def wn_invoke_def set_worker_def)
  have pend: "pending N = add_mset p (pending ?P)"
    using set_worker_msets(1) [OF assms(2), of "Deleting p s"] assms(3,4) by (auto simp: ptr_mset_def)
  have comps: "completions N = insert c (completions ?P) \<or> completions N = completions ?P"
    using completions_set_worker [OF assms(2), of "Deleting p s"] assms(2,3) nth_mem [OF assms(2)]
    by (auto simp: completions_def)
  have c: "c \<in> completions N" using assms(3) nth_mem [OF assms(2)] by (simp add: completions_def)
  show ?thesis
  proof (cases "io_operationType io = IoRecv")
    case True
    then have "receives (wn_heap N) (pending ?P) = {#}" using assms(1,6) pend by (simp add: stream_inv_def)
    then have "\<forall>c \<in> completions ?P. \<not> is_receive (wn_heap N) c" using no_receive_completions [of ?P] by simp
    moreover have "wn_arrived N = reported N @ arrived_data (wn_heap N) c"
      using assms(1,4-6) c True by (auto simp: stream_inv_def in_order_def is_receive_def)
    moreover have "arrived_data (wn_heap N) c = received d"
      using d assms(4,6) by (simp add: arrived_data_def)
    ultimately show ?thesis
      using assms(1) same \<open>receives (wn_heap N) (pending ?P) = {#}\<close> by (simp add: stream_inv_def in_order_def)
  next
    case False
    then have "\<not> is_receive (wn_heap N) c" using assms(4,6) by (simp add: is_receive_def)
    with comps have "in_order (wn_heap N) (completions ?P) A R = in_order (wn_heap N) (completions N) A R" for A R
      by (auto simp: in_order_def)
    then show ?thesis using assms(1,5,6) same pend d False by (simp add: stream_inv_def)
  qed
qed

lemma stream_inv_delete:
  assumes "stream_inv N" "wn_inv N" "w < length (wn_workers N)" "wn_workers N ! w = Deleting p s"
  shows "stream_inv (set_worker w AtTest (N\<lparr>wn_heap := (wn_heap N)(p := None)\<rparr>))"
proof -
  let ?h = "(wn_heap N)(p := None)" and ?P = "set_worker w AtTest N"
  let ?R = "set_worker w AtTest (N\<lparr>wn_heap := ?h\<rparr>)"
  have P: "stream_inv ?P" using stream_inv_idle [OF assms(1,3), of AtTest] assms(4) by simp
  have same: "pending ?R = pending ?P" "completions ?R = completions ?P" by (simp_all add: pending_def completions_def)
  have "add_mset p (deleting ?P) = deleting N" "pending ?P = pending N"
    using set_worker_msets [OF assms(3), of AtTest] assms(4) by auto
  moreover have "pending N + deleting N + mset (wn_dropped N) = mset_set (dom (wn_heap N))"
    using assms(2) by (simp add: wn_inv_def owned_def)
  ultimately have "pending ?P + add_mset p (deleting ?P) + mset (wn_dropped N) = mset_set (dom (wn_heap N))"
    by (simp only:)
  then have all: "add_mset p (pending ?P + (deleting ?P + mset (wn_dropped N))) = mset_set (dom (wn_heap N))"
    by (simp add: add.assoc)
  have other: "q \<noteq> p" if "q \<in># pending ?P" for q
  proof
    assume "q = p"
    with that have "1 \<le> count (pending ?P) p" by (simp add: Suc_le_eq)
    then have "2 \<le> count (mset_set (dom (wn_heap N))) p" unfolding all [symmetric] count_add_mset count_union
      by (simp only: simp_thms if_True)
    then show False by (simp add: count_mset_set' split: if_splits)
  qed
  have "receives ?h (pending ?P) = receives (wn_heap N) (pending ?P)"
    by (rule receives_cong) (use other in auto)
  moreover have "in_order ?h (completions ?P) A R = in_order (wn_heap N) (completions ?P) A R" for A R
    by (rule in_order_cong) (use completion_pending other in auto)
  ultimately show ?thesis using P same by (simp add: stream_inv_def)
qed

lemma stream_inv_worker:
  assumes "stream_inv N" "wn_inv N" "w < length (wn_workers N)"
  shows "stream_inv (worker_step env w N)"
proof (cases "wn_workers N ! w")
  case AtTest
  then show ?thesis using stream_inv_idle [OF assms(1,3)] by (simp add: worker_step_def)
next
  case Blocked
  then show ?thesis
    using assms stream_inv_take [OF assms(1,3)] by (cases "wn_queue N") (simp_all add: worker_step_def)
next
  case (Took c)
  show ?thesis
  proof (cases "cq_ptr c")
    case None
    with Took show ?thesis
      using stream_inv_idle [OF assms(1,3)] by (simp add: worker_step_def ptr_mset_def)
  next
    case (Some p)
    show ?thesis
    proof (cases "wn_running N")
      case False
      with Took Some show ?thesis using stream_inv_drop [OF assms(1,3) Took Some] by (simp add: worker_step_def)
    next
      case True
      obtain io where io: "wn_heap N p = Some io"
        using pending_allocated [OF assms(2) took_pending [OF assms(3) Took Some]] .
      obtain N' s where comp: "on_completion env c io N = (N', s)" by (cases "on_completion env c io N")
      from stream_inv_callback [OF assms(1,3) Took Some True io comp] show ?thesis
        using Took Some True io comp by (simp add: worker_step_def)
    qed
  qed
next
  case (Deleting p s)
  let ?N = "case s of None \<Rightarrow> N | Some s \<Rightarrow> closesocket s N"
  have same: "same_core N ?N" by (auto simp: same_core_def closesocket_def split: option.split)
  then have w: "w < length (wn_workers ?N)" "wn_workers ?N ! w = Deleting p s"
    using assms(3) Deleting by (simp_all add: same_core_def)
  note inv = same_core_inv [OF same assms(2)]
  from stream_inv_delete [OF stream_inv_same [OF assms(1) same] inv w] worker_step_delete(1) [OF inv w]
  show ?thesis using Deleting by (auto simp: worker_step_def Let_def)
next
  case Returned
  with assms show ?thesis by (simp add: worker_step_def)
qed

lemma stream_inv_closing:
  assumes "closing_step N N'" "stream_inv N" "wn_inv N" "close_inv N"
  shows "stream_inv N'"
  using assms(1)
proof cases
  case (worker w env)
  with assms show ?thesis by (simp add: stream_inv_worker)
next
  case (post k)
  then have "\<not> wn_running N" using assms(4) by (simp add: close_inv_def)
  then show ?thesis
    using assms(2) post by (cases k) (auto simp: close_post_def stream_inv_def pending_def reported_def ptr_mset_def shutdown_status_def)
next
  case join
  then have "\<not> wn_running N" using assms(4) by (simp add: close_inv_def)
  moreover have "sum_list (map taken_mset (wn_workers N)) = {#}"
    by (rule sum_list_empty) (use join in fastforce)
  ultimately show ?thesis
    using assms(2) join by (auto simp: close_end_def closesocket_def Let_def stream_inv_def pending_def reported_def)
qed

lemma stream_inv_step:
  assumes "iocp_step one_receive N N'" "stream_inv N" "wn_inv N" "close_inv N"
  shows "stream_inv N'"
  using assms(1)
proof cases
  case (call x)
  with stream_inv_call [OF assms(2,3)] show ?thesis
    by (simp add: exec_call_submitted stream_inv_def pending_def completions_def reported_def)
next
  case (kernel p success n data)
  have "p \<in># pending N" using kernel by (simp add: pending_def)
  then obtain io where "wn_heap N p = Some io" using pending_allocated [OF assms(3)] by blast
  with kernel stream_inv_kernel [OF assms(2)] show ?thesis by simp
next
  case thread
  then show ?thesis using assms(2-4) by (rule stream_inv_closing)
next
  case close
  with assms(2) show ?thesis
    by (simp add: close_begin_def stream_inv_def pending_def reported_def)
qed

lemma reachable_stream_inv: "iocp_reachable one_receive n N \<Longrightarrow> stream_inv N"
proof (induction rule: iocp_reachable.induct)
  case client
  then show ?case
    by (auto simp: iocp_initialize_def new_WinNet_def stream_inv_def pending_def in_order_def is_receive_def
        reported_def sum_list_empty simp del: map_replicate)
next
  case (server env)
  show ?case using prepareServer_started [of n env]
    by (auto simp: iocp_started_def same_core_def new_WinNet_def stream_inv_def pending_def in_order_def is_receive_def
        reported_def sum_list_empty simp del: map_replicate)
qed (use stream_inv_step iocp_reachable_inv reachable_close_inv in blast)

text \<open>
  When the program asks for more only after the previous receive was reported, the bytes handed to
  its callbacks are, in order, those the kernel received, however many workers run: nothing is lost or
  repeated, and when no receive is pending all of them have been handed over.
\<close>

theorem iocp_receive_stream:
  assumes "iocp_reachable one_receive n N"
  shows "prefix (concat (map received (wn_done N))) (wn_arrived N) \<and>
    (wn_running N \<and> receives (wn_heap N) (pending N) = {#} \<longrightarrow> concat (map received (wn_done N)) = wn_arrived N)"
  using reachable_stream_inv [OF assms] no_receive_completions [of N]
  by (auto simp: stream_inv_def in_order_def reported_def)

text \<open>
  Two defects of the error paths. When the accepted socket cannot be associated with the port, it is
  closed but stays the client socket, so that \<open>close\<close> closes it again; and a failed \<open>ConnectEx\<close> leaves
  the unconnected socket as the client socket.
\<close>

lemma accept_association_failure:
  assumes "wk_setsockopt env" "\<not> wk_associate env" "cq_success c" "io_operationType io = IoAccept"
  shows "\<exists>N'. on_completion env c io N = (N', Some (io_clientSocket io)) \<and> wn_clientSocket N' = io_clientSocket io"
  using assms by (simp add: on_completion_def io_failed_def wn_invoke_def)

lemma connect_refused_keeps_socket:
  assumes "ic_socket env = Some s" "ic_associate env" "ic_bind env" "ic_ioctl env" "\<not> ic_start env"
  shows "wn_clientSocket (iocp_doAsyncConnect env cb N) = s \<and> wn_closed (iocp_doAsyncConnect env cb N) = wn_closed N"
  using assms by (simp add: iocp_doAsyncConnect_def wn_invoke_def)

subsection \<open>Witnesses\<close>

text \<open>One worker: a connection that is pending, a receive of two bytes that is reported, and \<open>close\<close>.\<close>

definition iw_connect :: iocp_connect_env where
  "iw_connect = \<lparr>ic_socket = Some 5, ic_associate = True, ic_bind = True, ic_ioctl = True, ic_start = True\<rparr>"

definition iw_env :: worker_env where
  "iw_env = \<lparr>wk_setsockopt = True, wk_associate = True, wk_ip = [], wk_port = 0\<rparr>"

definition iw_call :: "iocp_call \<Rightarrow> WinNet \<Rightarrow> WinNet" where
  "iw_call x N = exec_call x (N\<lparr>wn_submitted := call_callback x # wn_submitted N\<rparr>)"

definition iw_state :: "worker list \<Rightarrow> (nat \<Rightarrow> IO_DATA option) \<Rightarrow> nat \<Rightarrow> nat list \<Rightarrow> completion list \<Rightarrow>
    net_done list \<Rightarrow> nat list \<Rightarrow> bytes \<Rightarrow> WinNet" where
  "iw_state ws h next_p inflight q ds subs arr =
     new_WinNet\<lparr>wn_clientSocket := (if next_p = 0 then -1 else 5), wn_iocpOpen := True, wn_running := True,
       wn_workers := ws, wn_heap := h, wn_next := next_p, wn_inflight := inflight, wn_queue := q,
       wn_done := ds, wn_submitted := subs, wn_arrived := arr\<rparr>"

definition iw_io0 :: IO_DATA where
  "iw_io0 = new_IO_DATA IoConnect 7"

definition iw_io1 :: IO_DATA where
  "iw_io1 = (new_IO_DATA IoRecv 8)\<lparr>io_buffer := ''ab''\<rparr>"

definition iw_status :: completion where
  "iw_status = \<lparr>cq_success = True, cq_bytes = 2, cq_ptr = Some 1\<rparr>"

definition iw_received :: WinNet where
  "iw_received = iw_state [Deleting 1 None] [0 \<mapsto> iw_io0, 1 \<mapsto> iw_io1] 2 [0] [] [RecvDone 8 ''ab''] [8, 7] ''ab''"

lemmas iw_defs = iw_state_def iw_received_def iw_call_def iw_env_def iw_connect_def iw_io0_def iw_io1_def
  iw_status_def iocp_initialize_def new_WinNet_def iocp_doAsyncConnect_def iocp_doAsyncReceive_def io_submit_def
  new_IO_DATA_def kernel_complete_def worker_step_def set_worker_def on_completion_def io_failed_def
  wn_invoke_def completion_allowed_def one_receive_def

lemma iw_received_reachable: "iocp_reachable one_receive 1 iw_received"
proof -
  let ?R = "iocp_reachable one_receive 1"
  let ?h0 = "[0 \<mapsto> iw_io0]" and ?h1 = "[0 \<mapsto> iw_io0, 1 \<mapsto> iw_io1]"
  let ?A = "iw_state [AtTest] Map.empty 0 [] [] [] [] []"
  let ?B = "iw_state [AtTest] ?h0 1 [0] [] [] [7] []"
  let ?C = "iw_state [AtTest] [0 \<mapsto> iw_io0, 1 \<mapsto> new_IO_DATA IoRecv 8] 2 [0, 1] [] [] [8, 7] []"
  let ?D = "\<lambda>ws q. iw_state ws ?h1 2 [0] q [] [8, 7] ''ab''"
  have call: "?R N'" if "?R N" "iw_call x N = N'" "one_receive N x" "call_callback x \<notin> set (wn_submitted N)" for N N' x
    using that iocp_step.call [of one_receive N x] unfolding iw_call_def by (blast intro: iocp_reachable.step)
  have work: "?R N'"
    if "?R N" "worker_step iw_env 0 N = N'" "0 < length (wn_workers N)" "wn_workers N ! 0 \<noteq> Returned"
      "wn_workers N ! 0 = Blocked \<longrightarrow> wn_queue N \<noteq> []" for N N'
    using that by (blast intro: iocp_reachable.step iocp_step.thread closing_step.worker)
  have A: "?R ?A" using iocp_reachable.client [of one_receive 1] by (simp add: iw_defs)
  have B: "?R ?B" by (rule call [OF A, of "CallConnect iw_connect 7"]) (simp_all add: iw_defs)
  have C: "?R ?C"
    by (rule call [OF B, of "CallReceive True 4096 8"]) (simp_all add: iw_defs pending_def receives_def fun_upd_twist)
  have "iocp_step one_receive ?C (kernel_complete 1 True 2 ''ab'' ?C)"
    by (rule iocp_step.kernel) (simp_all add: iw_defs)
  moreover have "kernel_complete 1 True 2 ''ab'' ?C = ?D [AtTest] [iw_status]" by (simp add: iw_defs)
  ultimately have D: "?R (?D [AtTest] [iw_status])" using iocp_reachable.step [OF C] by simp
  have E: "?R (?D [Blocked] [iw_status])" by (rule work [OF D]) (simp_all add: iw_defs)
  have F: "?R (?D [Took iw_status] [])" by (rule work [OF E]) (simp_all add: iw_defs)
  show ?thesis unfolding iw_received_def by (rule work [OF F]) (simp_all add: iw_defs)
qed

lemma iw_received_state:
  "wn_running iw_received \<and> wn_done iw_received = [RecvDone 8 ''ab''] \<and> wn_arrived iw_received = ''ab'' \<and>
   wn_submitted iw_received = [8, 7] \<and> wn_inflight iw_received = [0] \<and> wn_queue iw_received = [] \<and>
   wn_workers iw_received = [Deleting 1 None] \<and> wn_dropped iw_received = []"
  by (simp add: iw_received_def iw_state_def new_WinNet_def)

theorem iocp_callbacks_once_witness:
  "distinct (map done_callback (wn_done iw_received)) \<and>
   mset [8, 7] = {#8#} + image_mset (heap_callback (wn_heap iw_received)) (pending iw_received)"
  using iocp_callbacks_once [OF iw_received_reachable] iw_received_state by simp

theorem iocp_memory_safe_witness:
  "\<not> wn_fault iw_received \<and> {#1, 0#} = mset_set (dom (wn_heap iw_received))"
  using iocp_memory_safe [OF iw_received_reachable] iw_received_state by (simp add: pending_def deleting_def)

theorem iocp_receive_stream_witness:
  "receives (wn_heap iw_received) (pending iw_received) = {#} \<and>
   concat (map received (wn_done iw_received)) = wn_arrived iw_received"
proof -
  have "receives (wn_heap iw_received) (pending iw_received) = {#}"
    by (simp add: iw_defs pending_def receives_def)
  then show ?thesis using iocp_receive_stream [OF iw_received_reachable] iw_received_state by blast
qed

theorem iocp_close_ends_witness:
  "\<exists>N'. closing_step\<^sup>*\<^sup>* (close_begin iw_received) N' \<and> wn_closing N' = CloseDone \<and> wn_workers N' = []"
proof -
  have "iocp_reachable one_receive 1 (close_begin iw_received)"
    using iw_received_reachable iw_received_state by (blast intro: iocp_reachable.step iocp_step.close)
  moreover have "\<not> wn_running (close_begin iw_received)" by (simp add: close_begin_def)
  ultimately show ?thesis using iocp_close_ends [of one_receive 1 "close_begin iw_received"] by blast
qed

end
