(* ===== verification/PipeVerifier.thy ===== *)
theory PipeVerifier
  imports ProcessManager
begin

section \<open>The result pipe verifier\<close>

text \<open>
  \<open>ResultPipeVerifier/src/main.cpp\<close>, POSIX build: a tool that runs an ipeftc server and client, reads
  the events both publish on their result pipes, and checks events and result files. What the system
  answers (\<open>stat\<close>, \<open>open\<close>, \<open>read\<close>, \<open>fork\<close>, \<open>waitpid\<close>, files written) are arguments; a polling loop
  takes one list element per turn and its time is up at the end of the list. The main facts: however
  the pipe is read, the lines collected are the lines written (\<open>reader_lines_of_stream\<close>); the
  verdict on the events of a controller is the controller's own (\<open>verifier_agrees\<close>); the command
  lines reach ipeftc (\<open>verifier_launch_config\<close>); a pass means what it says (\<open>verifier_pass\<close>).
\<close>

subsection \<open>Options\<close>

record VOptions =
  vo_ipeftcPath :: string
  vo_host :: string
  vo_bind :: string
  vo_port :: int
  vo_packetSize :: int
  vo_numPackets :: int
  vo_intervalMs :: int
  vo_runId :: string
  vo_resultDir :: string
  vo_timeoutMs :: int

definition default_VOptions :: VOptions where
  "default_VOptions = \<lparr>vo_ipeftcPath = [], vo_host = ''127.0.0.1'', vo_bind = ''0.0.0.0'', vo_port = 55301,
     vo_packetSize = 1024, vo_numPackets = 5, vo_intervalMs = 1, vo_runId = [], vo_resultDir = [],
     vo_timeoutMs = 30000\<rparr>"

definition makeDefaultRunId :: "int \<Rightarrow> int \<Rightarrow> string" where
  "makeDefaultRunId millis pid = ''rpv-'' @ show_int millis @ ''-'' @ show_int pid"

definition name_char :: "char \<Rightarrow> bool" where
  "name_char ch \<longleftrightarrow>
     (let n = (of_char ch :: nat) in (97 \<le> n \<and> n \<le> 122) \<or> (65 \<le> n \<and> n \<le> 90) \<or> (48 \<le> n \<and> n \<le> 57)) \<or>
     ch = CHR ''-'' \<or> ch = CHR ''_''"

definition sanitizeName :: "string \<Rightarrow> string" where
  "sanitizeName value =
     (let value = map (\<lambda>ch. if name_char ch then ch else CHR ''_'') value
      in if value = [] then ''run'' else value)"

record vp_state =
  vp_options :: VOptions
  vp_help :: bool
  vp_errors :: "string list"

definition vp_error :: "string \<Rightarrow> vp_state \<Rightarrow> vp_state" where
  "vp_error msg s = s\<lparr>vp_errors := vp_errors s @ [msg]\<rparr>"

text \<open>The target is assigned by \<open>upd\<close>; a failed conversion leaves it.\<close>

definition parseIntOption :: "string \<Rightarrow> string \<Rightarrow> (int \<Rightarrow> VOptions \<Rightarrow> VOptions) \<Rightarrow> vp_state \<Rightarrow> vp_state" where
  "parseIntOption nm value upd s =
     (case stoi_pos value of
        Inr (n, k) \<Rightarrow>
          if k \<noteq> length value then vp_error (''Invalid integer for '' @ nm @ '': '' @ value) s
          else s\<lparr>vp_options := upd n (vp_options s)\<rparr>
      | Inl e \<Rightarrow> vp_error (''Invalid integer for '' @ nm @ '': '' @ value) s)"

definition vp_set :: "string \<Rightarrow> string \<Rightarrow> vp_state \<Rightarrow> vp_state" where
  "vp_set arg v s =
     (if arg = ''--ipeftc-path'' then s\<lparr>vp_options := (vp_options s)\<lparr>vo_ipeftcPath := v\<rparr>\<rparr>
      else if arg = ''--host'' then s\<lparr>vp_options := (vp_options s)\<lparr>vo_host := v\<rparr>\<rparr>
      else if arg = ''--bind'' then s\<lparr>vp_options := (vp_options s)\<lparr>vo_bind := v\<rparr>\<rparr>
      else if arg = ''--port'' then parseIntOption arg v (\<lambda>n q. q\<lparr>vo_port := n\<rparr>) s
      else if arg = ''--packet-size'' then parseIntOption arg v (\<lambda>n q. q\<lparr>vo_packetSize := n\<rparr>) s
      else if arg = ''--num-packets'' then parseIntOption arg v (\<lambda>n q. q\<lparr>vo_numPackets := n\<rparr>) s
      else if arg = ''--interval-ms'' then parseIntOption arg v (\<lambda>n q. q\<lparr>vo_intervalMs := n\<rparr>) s
      else if arg = ''--run-id'' then s\<lparr>vp_options := (vp_options s)\<lparr>vo_runId := v\<rparr>\<rparr>
      else if arg = ''--result-dir'' then s\<lparr>vp_options := (vp_options s)\<lparr>vo_resultDir := v\<rparr>\<rparr>
      else parseIntOption arg v (\<lambda>n q. q\<lparr>vo_timeoutMs := n\<rparr>) s)"

definition value_args :: "string list" where
  "value_args = [''--ipeftc-path'', ''--host'', ''--bind'', ''--port'', ''--packet-size'', ''--num-packets'',
     ''--interval-ms'', ''--run-id'', ''--result-dir'', ''--timeout-ms'']"

text \<open>A missing value is reported and the empty string used in its place.\<close>

fun vp_loop :: "string list \<Rightarrow> vp_state \<Rightarrow> vp_state" where
  "vp_loop [] s = s"
| "vp_loop (arg # rest) s =
     (if arg = ''-h'' \<or> arg = ''--help'' then vp_loop rest (s\<lparr>vp_help := True\<rparr>)
      else if arg \<in> set value_args
      then (case rest of
              [] \<Rightarrow> vp_set arg [] (vp_error (''Missing value for '' @ arg) s)
            | v # rest' \<Rightarrow> vp_loop rest' (vp_set arg v s))
      else vp_loop rest (vp_error (''Unknown argument: '' @ arg) s))"

definition vp_check :: "bool \<Rightarrow> string \<Rightarrow> vp_state \<Rightarrow> vp_state" where
  "vp_check bad msg s = (if bad then vp_error msg s else s)"

definition vp_parseArgs :: "int \<Rightarrow> int \<Rightarrow> string list \<Rightarrow> vp_state" where
  "vp_parseArgs millis pid args =
     (let s = vp_loop args \<lparr>vp_options = default_VOptions\<lparr>vo_runId := makeDefaultRunId millis pid\<rparr>,
            vp_help = False, vp_errors = []\<rparr>;
          q = vp_options s;
          q = (if vo_resultDir q = []
               then q\<lparr>vo_resultDir := path_of [''ResultPipeVerifier'', ''results'', sanitizeName (vo_runId q)]\<rparr>
               else q);
          s = s\<lparr>vp_options := q\<rparr>;
          s = vp_check (vo_port q \<le> 0 \<or> vo_port q > 65535) ''--port must be between 1 and 65535'' s;
          s = vp_check (vo_packetSize q \<le> 0) ''--packet-size must be positive'' s;
          s = vp_check (vo_numPackets q \<le> 0) ''--num-packets must be positive for this smoke test'' s;
          s = vp_check (vo_intervalMs q < 0) ''--interval-ms must be >= 0'' s
      in vp_check (vo_timeoutMs q \<le> 0) ''--timeout-ms must be positive'' s)"

definition serverArgs :: "VOptions \<Rightarrow> string \<Rightarrow> string list" where
  "serverArgs q pipeName =
     [''--mode'', ''server'', ''--target'', vo_bind q, ''--port'', show_int (vo_port q),
      ''--run-id'', vo_runId q, ''--result-dir'', vo_resultDir q, ''--result-pipe'', pipeName,
      ''--save-logs'', ''false'']"

definition clientArgs :: "VOptions \<Rightarrow> string \<Rightarrow> string list" where
  "clientArgs q pipeName =
     [''--mode'', ''client'', ''--target'', vo_host q, ''--port'', show_int (vo_port q),
      ''--packet-size'', show_int (vo_packetSize q), ''--num-packets'', show_int (vo_numPackets q),
      ''--interval-ms'', show_int (vo_intervalMs q), ''--run-id'', vo_runId q,
      ''--result-dir'', vo_resultDir q, ''--result-pipe'', pipeName, ''--save-logs'', ''false'']"

definition pipeNameForRole :: "VOptions \<Rightarrow> string \<Rightarrow> string" where
  "pipeNameForRole q rl = path_join (vo_resultDir q) (rl @ ''.fifo'')"

subsection \<open>Finding ipeftc\<close>

definition ipeftcCandidates :: "file_system \<Rightarrow> string list" where
  "ipeftcCandidates fs =
     (let cwd = fs_cwd fs; exe = ''IPEFTC''
      in map path_of
        [[cwd, exe], [cwd, ''MyIperf'', ''build'', ''bin'', ''Release'', exe],
         [cwd, ''MyIperf'', ''build'', ''bin'', ''Debug'', exe],
         [cwd, ''..'', ''MyIperf'', ''build'', ''bin'', ''Release'', exe],
         [cwd, ''..'', ''MyIperf'', ''build'', ''bin'', ''Debug'', exe]])"

definition isExecutableOnPath :: "file_system \<Rightarrow> string \<Rightarrow> bool" where
  "isExecutableOnPath fs nm =
     (if slash \<in> set nm then fs_access fs nm
      else case fs_PATH fs of
             None \<Rightarrow> False
           | Some p \<Rightarrow> \<exists>dir \<in> set (split_colon p). fs_access fs (path_join dir nm))"

text \<open>The path, empty when there is none, and the paths looked at.\<close>

fun search_candidates :: "file_system \<Rightarrow> string list \<Rightarrow> string list \<Rightarrow> string \<times> string list" where
  "search_candidates fs [] searched =
     (if isExecutableOnPath fs ''IPEFTC'' then ''IPEFTC'' else [], searched @ [''IPEFTC''])"
| "search_candidates fs (candidate # cs) searched =
     (let normalized = fs_normal fs candidate
      in if FileExists fs normalized then (normalized, searched @ [normalized])
         else search_candidates fs cs (searched @ [normalized]))"

definition resolveIpeftcPath :: "file_system \<Rightarrow> string \<Rightarrow> string \<times> string list" where
  "resolveIpeftcPath fs overridePath =
     (if overridePath \<noteq> []
      then (if FileExists fs overridePath \<or> isExecutableOnPath fs overridePath then overridePath else [],
            [overridePath])
      else search_candidates fs (ipeftcCandidates fs) [])"

subsection \<open>A child process\<close>

text \<open>
  \<open>cp_argv\<close> and \<open>cp_signals\<close> record the command line started and the signals sent. The output pipe is
  read by a thread of its own until it ends, which \<open>joinReader\<close> waits for.
\<close>

record ChildProcess =
  cp_started :: bool
  cp_exited :: bool
  cp_timedOut :: bool
  cp_exitCode :: int
  cp_output :: string
  cp_pid :: int
  cp_stdoutFd :: int
  cp_argv :: "string list"
  cp_signals :: "nat list"

definition new_ChildProcess :: ChildProcess where
  "new_ChildProcess = \<lparr>cp_started = False, cp_exited = False, cp_timedOut = False, cp_exitCode = -1,
     cp_output = [], cp_pid = -1, cp_stdoutFd = -1, cp_argv = [], cp_signals = []\<rparr>"

text \<open>\<open>pipe\<close> gives its read end and \<open>fork\<close> a process id, or they fail with an \<open>errno\<close>.\<close>

record start_env =
  se_pipe :: "nat + int"
  se_fork :: "nat + int"

definition child_start :: "start_env \<Rightarrow> string \<Rightarrow> string list \<Rightarrow> ChildProcess \<Rightarrow> string + ChildProcess" where
  "child_start env exe args p =
     (case se_pipe env of
        Inl e \<Rightarrow> Inl (''pipe failed: errno='' @ show_nat e)
      | Inr fd \<Rightarrow>
          (case se_fork env of
             Inl e \<Rightarrow> Inl (''fork failed: errno='' @ show_nat e)
           | Inr child \<Rightarrow> Inr (p\<lparr>cp_pid := child, cp_stdoutFd := fd, cp_started := True,
               cp_argv := exe # args\<rparr>)))"

datatype wait_status = WExited nat | WSignaled nat | WOther

fun status_code :: "wait_status \<Rightarrow> int" where
  "status_code (WExited n) = int n"
| "status_code (WSignaled n) = 128 + int n"
| "status_code WOther = -1"

definition pollExited :: "wait_status option \<Rightarrow> ChildProcess \<Rightarrow> ChildProcess" where
  "pollExited answer p =
     (if cp_exited p then p
      else if cp_pid p \<le> 0 then p
      else case answer of
             None \<Rightarrow> p
           | Some st \<Rightarrow> p\<lparr>cp_exitCode := status_code st, cp_exited := True, cp_pid := -1\<rparr>)"

definition appendOutput :: "bytes \<Rightarrow> ChildProcess \<Rightarrow> ChildProcess" where
  "appendOutput data p = p\<lparr>cp_output := cp_output p @ data\<rparr>"

definition outputContains :: "string \<Rightarrow> ChildProcess \<Rightarrow> bool" where
  "outputContains marker p = contains_sub (cp_output p) marker"

text \<open>What the reading thread has got from the pipe; there is none without a pipe.\<close>

definition reader_output :: "bytes \<Rightarrow> ChildProcess \<Rightarrow> ChildProcess" where
  "reader_output data p = (if cp_stdoutFd p = -1 then p else appendOutput data p)"

definition joinReader :: "bytes list \<Rightarrow> ChildProcess \<Rightarrow> ChildProcess" where
  "joinReader reads p =
     (if cp_stdoutFd p = -1 then p
      else (reader_output (concat (takeWhile (\<lambda>r. r \<noteq> []) reads)) p)\<lparr>cp_stdoutFd := -1\<rparr>)"

definition SIGTERM :: nat where "SIGTERM = 15"
definition SIGKILL :: nat where "SIGKILL = 9"

definition child_terminate :: "wait_status option \<Rightarrow> ChildProcess \<Rightarrow> ChildProcess" where
  "child_terminate answer p =
     (if cp_exited p then p
      else if cp_pid p > 0
      then (let p = pollExited answer (p\<lparr>cp_signals := cp_signals p @ [SIGTERM]\<rparr>)
            in if \<not> cp_exited p then p\<lparr>cp_signals := cp_signals p @ [SIGKILL]\<rparr> else p)
      else p)"

text \<open>A turn of a polling loop: the output read since the last one, and what \<open>waitpid\<close> answers.\<close>

record child_turn =
  tn_output :: bytes
  tn_wait :: "wait_status option"

fun wait_loop :: "child_turn list \<Rightarrow> ChildProcess \<Rightarrow> bool \<times> ChildProcess" where
  "wait_loop [] p = (False, p)"
| "wait_loop (t # ts) p =
     (let p = pollExited (tn_wait t) (reader_output (tn_output t) p)
      in if cp_exited p then (True, p) else wait_loop ts p)"

record wait_env =
  we_turns :: "child_turn list"
  we_term :: "wait_status option"
  we_last :: "wait_status option"
  we_reads :: "bytes list"

definition child_waitFor :: "wait_env \<Rightarrow> ChildProcess \<Rightarrow> bool \<times> ChildProcess" where
  "child_waitFor env p =
     (case wait_loop (we_turns env) p of
        (True, p) \<Rightarrow> (True, joinReader (we_reads env) p)
      | (False, p) \<Rightarrow> (False, joinReader (we_reads env)
            (pollExited (we_last env) (child_terminate (we_term env) (p\<lparr>cp_timedOut := True\<rparr>)))))"

fun waitForOutput :: "string \<Rightarrow> child_turn list \<Rightarrow> ChildProcess \<Rightarrow> bool \<times> ChildProcess" where
  "waitForOutput marker [] p = (outputContains marker p, p)"
| "waitForOutput marker (t # ts) p =
     (let p = reader_output (tn_output t) p
      in if outputContains marker p then (True, p)
         else let p = pollExited (tn_wait t) p
              in if cp_exited p then (outputContains marker p, p) else waitForOutput marker ts p)"

text \<open>The destructor.\<close>

definition child_destroy :: "wait_env \<Rightarrow> ChildProcess \<Rightarrow> ChildProcess" where
  "child_destroy env p =
     joinReader (we_reads env) (pollExited (we_last env) (child_terminate (we_term env) p))"

subsection \<open>Reading the result pipe\<close>

record PipeReader =
  pr_lines :: "string list"
  pr_error :: string

definition new_PipeReader :: PipeReader where
  "new_PipeReader = \<lparr>pr_lines = [], pr_error = []\<rparr>"

text \<open>Answers to \<open>lstat\<close> (is it a FIFO), \<open>create_directories\<close> (it may throw) and \<open>mkfifo\<close>.\<close>

record prep_env =
  pe_lstat :: "bool option"
  pe_mkdirs :: "exn option"
  pe_mkfifo :: "nat option"

text \<open>The error text of \<open>prepare\<close>, empty when it succeeds.\<close>

definition pr_prepare :: "string \<Rightarrow> prep_env \<Rightarrow> string res" where
  "pr_prepare path env =
     (case pe_lstat env of
        Some True \<Rightarrow> Inr []
      | Some False \<Rightarrow> Inr (path @ '' exists but is not a FIFO'')
      | None \<Rightarrow>
          (case pe_mkdirs env of
             Some e \<Rightarrow> Inl e
           | None \<Rightarrow>
               (case pe_mkfifo env of
                  Some n \<Rightarrow> if n \<noteq> EEXIST
                    then Inr (''mkfifo failed for '' @ path @ '': errno='' @ show_nat n) else Inr []
                | None \<Rightarrow> Inr [])))"

definition addLine :: "string \<Rightarrow> PipeReader \<Rightarrow> PipeReader" where
  "addLine line r = (if line = [] then r else r\<lparr>pr_lines := pr_lines r @ [line]\<rparr>)"

definition setError :: "string \<Rightarrow> PipeReader \<Rightarrow> PipeReader" where
  "setError msg r = (if pr_error r = [] then r\<lparr>pr_error := msg\<rparr> else r)"

definition strip_cr :: "string \<Rightarrow> string" where
  "strip_cr line = (if line \<noteq> [] \<and> last line = CHR 0x0D then butlast line else line)"

lemma find_from_bounds:
  assumes "find_from s [c] k = Some n"
  shows "k \<le> n \<and> n < length s"
proof -
  obtain m where m: "find_sub [c] (drop k s) = Some m" "n = k + m"
    using assms by (auto simp: find_from_def split: if_splits)
  then have "prefix [c] (drop m (drop k s))" using find_sub_Some by blast
  then have "drop n s \<noteq> []" using m(2) by (auto simp: prefix_def add.commute)
  then show ?thesis using m(2) by simp
qed

function consume_loop :: "string \<Rightarrow> nat \<Rightarrow> PipeReader \<Rightarrow> string \<times> PipeReader" where
  "consume_loop pending pos r =
     (case find_from pending [CHR 0x0A] pos of
        None \<Rightarrow> (if pos > 0 then drop pos pending else pending, r)
      | Some nl \<Rightarrow>
          consume_loop pending (nl + 1) (addLine (strip_cr (substr pending pos (nl - pos))) r))"
  by pat_completeness auto
termination
  by (relation "measure (\<lambda>(pending, pos, r). Suc (length pending) - pos)")
    (auto dest: find_from_bounds)

declare consume_loop.simps [simp del]

definition consumeChunk :: "string \<Rightarrow> bytes \<Rightarrow> PipeReader \<Rightarrow> string \<times> PipeReader" where
  "consumeChunk pending data r = consume_loop (pending @ data) 0 r"

definition flushPending :: "string \<Rightarrow> PipeReader \<Rightarrow> PipeReader" where
  "flushPending pending r = (if pending \<noteq> [] then addLine (strip_cr pending) r else r)"

text \<open>
  One \<open>read\<close>: data, or nothing yet (0, or \<open>EAGAIN\<close>, \<open>EWOULDBLOCK\<close>, \<open>EINTR\<close>), or an error. The loop
  leaves after the last one: \<open>stopRequested\<close> is set or the time is up.
\<close>

datatype pipe_read = Read_Data bytes | Read_Nothing | Read_Error nat

fun read_loop :: "string \<Rightarrow> pipe_read list \<Rightarrow> string \<Rightarrow> PipeReader \<Rightarrow> PipeReader" where
  "read_loop nm [] pending r = flushPending pending r"
| "read_loop nm (Read_Data data # rs) pending r =
     (case consumeChunk pending data r of (pending, r) \<Rightarrow> read_loop nm rs pending r)"
| "read_loop nm (Read_Nothing # rs) pending r = read_loop nm rs pending r"
| "read_loop nm (Read_Error e # rs) pending r =
     flushPending pending (setError (nm @ '' FIFO read failed: errno='' @ show_nat e) r)"

text \<open>\<open>re_opens\<close>: does each attempt to open succeed; \<open>re_stopped\<close>: was a stop requested at its end.\<close>

record reader_env =
  re_opens :: "bool list"
  re_stopped :: bool
  re_reads :: "pipe_read list"

definition reader_run :: "string \<Rightarrow> string \<Rightarrow> reader_env \<Rightarrow> PipeReader \<Rightarrow> PipeReader" where
  "reader_run nm path env r =
     (if True \<notin> set (re_opens env)
      then (if \<not> re_stopped env then setError (nm @ '' FIFO open timeout: '' @ path) r else r)
      else read_loop nm (re_reads env) [] r)"

subsection \<open>Checking events and result files\<close>

definition parseJsonLine :: "json_parser \<Rightarrow> string \<Rightarrow> string \<Rightarrow> nat \<Rightarrow> json \<times> string list" where
  "parseJsonLine parse line label i =
     (case parse line of
        Inr j \<Rightarrow> (j, [])
      | Inl e \<Rightarrow> (JObject [], [label @ '' event '' @ show_nat i @ '' is not valid JSON: '' @ exn_what e]))"

definition expectString :: "json \<Rightarrow> string \<Rightarrow> string \<Rightarrow> string \<Rightarrow> string list" where
  "expectString event key expected ctxt =
     (case json_find key event of
        Some (JString actual) \<Rightarrow>
          if actual \<noteq> expected
          then [ctxt @ '' field '' @ quoted key @ '' mismatch: actual='' @ actual @ '' expected='' @ expected]
          else []
      | _ \<Rightarrow> [ctxt @ '' missing string field '' @ quoted key])"

definition expectedTypes :: "string list" where
  "expectedTypes = [''run_started'', ''phase_result'', ''phase_result'', ''final_result'']"

definition phase_errors :: "string \<Rightarrow> json list \<Rightarrow> nat \<Rightarrow> string list" where
  "phase_errors label events i =
     (let ctxt = label @ '' phase event '' @ show_nat i; event = events ! i in
      (case json_find ''phaseNumber'' event of
         Some (JInt n) \<Rightarrow> if cast_signed 32 n \<noteq> int i then [ctxt @ '' phaseNumber mismatch''] else []
       | _ \<Rightarrow> [ctxt @ '' missing integer phaseNumber'']) @
      (case json_find ''phase'' event of
         Some (JObject m) \<Rightarrow> []
       | _ \<Rightarrow> [ctxt @ '' missing phase object'']))"

text \<open>Checks in order, each with its message; the first that throws ends them.\<close>

fun run_checks :: "(bool res \<times> string) list \<Rightarrow> string list \<times> exn option" where
  "run_checks [] = ([], None)"
| "run_checks ((c, msg) # cs) =
     (case c of
        Inl e \<Rightarrow> ([], Some e)
      | Inr ok \<Rightarrow> (case run_checks cs of (es, x) \<Rightarrow> (if ok then es else msg # es, x)))"

definition value_is :: "json \<Rightarrow> string \<Rightarrow> string \<Rightarrow> bool res" where
  "value_is j key expected = res_bind (json_value get_string key [] j) (\<lambda>v. Inr (v = expected))"

definition final_errors :: "string \<Rightarrow> json \<Rightarrow> string \<Rightarrow> string \<Rightarrow> string list res" where
  "final_errors label event rl rid =
     (let ctxt = label @ '' final_result'' in
      case json_find ''result'' event of
        Some (JObject m) \<Rightarrow>
          (case run_checks
             [(json_value get_bool ''success'' False (JObject m), ctxt @ '' result.success is not true''),
              (value_is (JObject m) ''finalState'' ''FINISHED'', ctxt @ '' result.finalState is not FINISHED''),
              (value_is (JObject m) ''role'' rl, ctxt @ '' result.role mismatch''),
              (value_is (JObject m) ''runId'' rid, ctxt @ '' result.runId mismatch'')] of
             (es, None) \<Rightarrow> Inr es
           | (es, Some e) \<Rightarrow> Inl e)
      | _ \<Rightarrow> Inr [ctxt @ '' missing result object''])"

definition verifyEvents ::
  "json_parser \<Rightarrow> string \<Rightarrow> string \<Rightarrow> string list \<Rightarrow> string \<Rightarrow> string list res" where
  "verifyEvents parse label rl lines rid =
     (let count_errs = (if length lines \<noteq> length expectedTypes
            then [label @ '' expected 4 events but got '' @ show_nat (length lines)] else []);
          parsed_lines = map (\<lambda>(i, line). parseJsonLine parse line label i) (List.enumerate 0 lines);
          events = map fst parsed_lines;
          field_errs = concat (map (\<lambda>(i, event, ty).
             let ctxt = label @ '' event '' @ show_nat i in
             expectString event ''type'' ty ctxt @ expectString event ''runId'' rid ctxt @
             expectString event ''role'' rl ctxt) (List.enumerate 0 (zip events expectedTypes)));
          phase_errs = (if length events \<ge> 3
            then phase_errors label events 1 @ phase_errors label events 2 else []);
          final_errs = (if length events \<ge> 4 then final_errors label (events ! 3) rl rid else Inr [])
      in res_bind final_errs (\<lambda>fes.
           Inr (count_errs @ concat (map snd parsed_lines) @ field_errs @ phase_errs @ fes)))"

definition verifyResultFile ::
  "json_parser \<Rightarrow> (string \<Rightarrow> string option) \<Rightarrow> string \<Rightarrow> string \<Rightarrow> string \<Rightarrow> string list" where
  "verifyResultFile parse file path rl rid =
     (case file path of
        None \<Rightarrow> [''Result JSON not found: '' @ path]
      | Some content \<Rightarrow>
          (case (case parse content of
                   Inl e \<Rightarrow> ([], Some e)
                 | Inr j \<Rightarrow> run_checks
                     [(value_is j ''runId'' rid, path @ '' runId mismatch''),
                      (value_is j ''role'' rl, path @ '' role mismatch''),
                      (json_value get_bool ''success'' False j, path @ '' success is not true''),
                      (value_is j ''finalState'' ''FINISHED'', path @ '' finalState is not FINISHED'')]) of
             (es, None) \<Rightarrow> es
           | (es, Some e) \<Rightarrow> es @ [''Failed to parse '' @ path @ '': '' @ exn_what e]))"

definition result_path_of :: "VOptions \<Rightarrow> string \<Rightarrow> string" where
  "result_path_of q rl = path_join (vo_resultDir q) (''result-'' @ vo_runId q @ ''-'' @ rl @ ''.json'')"

subsection \<open>The report\<close>

definition process_json :: "ChildProcess \<Rightarrow> json" where
  "process_json p = json_object [(''started'', JBool (cp_started p)), (''timedOut'', JBool (cp_timedOut p)),
     (''exitCode'', JInt (cp_exitCode p))]"

definition buildReport ::
  "VOptions \<Rightarrow> string \<Rightarrow> ChildProcess \<Rightarrow> ChildProcess \<Rightarrow> string list \<Rightarrow> string list \<Rightarrow> string list \<Rightarrow> bool \<Rightarrow> json" where
  "buildReport q ipeftcPath server client serverEvents clientEvents errors passed =
     json_object
       [(''passed'', JBool passed),
        (''errors'', JArray (map JString errors)),
        (''ipeftcPath'', JString ipeftcPath),
        (''options'', json_object
           [(''host'', JString (vo_host q)), (''bind'', JString (vo_bind q)), (''port'', JInt (vo_port q)),
            (''packetSize'', JInt (vo_packetSize q)), (''numPackets'', JInt (vo_numPackets q)),
            (''intervalMs'', JInt (vo_intervalMs q)), (''runId'', JString (vo_runId q)),
            (''resultDir'', JString (vo_resultDir q)), (''timeoutMs'', JInt (vo_timeoutMs q))]),
        (''processes'', json_object [(''server'', process_json server), (''client'', process_json client)]),
        (''events'', json_object
           [(''serverCount'', JInt (int (length serverEvents))),
            (''clientCount'', JInt (int (length clientEvents))),
            (''serverFile'', JString (path_join (vo_resultDir q) ''server-events.jsonl'')),
            (''clientFile'', JString (path_join (vo_resultDir q) ''client-events.jsonl''))]),
        (''resultFiles'', json_object
           [(''server'', JString (result_path_of q ''SERVER'')),
            (''client'', JString (result_path_of q ''CLIENT''))])]"

text \<open>\<open>writeTextFile\<close>: its error text, empty when the file is written.\<close>

record text_env =
  te_mkdirs :: string
  te_open_ok :: bool
  te_write_ok :: bool

definition writeTextFile :: "string \<Rightarrow> text_env \<Rightarrow> string" where
  "writeTextFile path env =
     (if te_mkdirs env \<noteq> []
      then ''Failed to create directory '' @ parent_path path @ '': '' @ te_mkdirs env
      else if \<not> te_open_ok env then ''Failed to open '' @ path
      else if \<not> te_write_ok env then ''Failed to write '' @ path
      else [])"

definition linesToText :: "string list \<Rightarrow> string" where
  "linesToText ls = concat (map (\<lambda>line. line @ [CHR 0x0A]) ls)"

subsection \<open>The verification\<close>

record verify_env =
  ve_parse :: json_parser
  ve_dump2 :: json_printer
  ve_mkdirs :: string
  ve_prepare :: "string \<Rightarrow> prep_env"
  ve_serverReader :: reader_env
  ve_clientReader :: reader_env
  ve_serverStart :: start_env
  ve_clientStart :: start_env
  ve_ready :: "child_turn list"
  ve_ready2 :: "child_turn list"
  ve_clientWait :: wait_env
  ve_serverWait :: wait_env
  ve_write :: "string \<Rightarrow> text_env"
  ve_file :: "string \<Rightarrow> string option"

record verify_outcome =
  out_code :: nat
  out_errors :: "string list"
  out_server :: ChildProcess
  out_client :: ChildProcess
  out_serverEvents :: "string list"
  out_clientEvents :: "string list"
  out_files :: "(string \<times> string) list"

definition failed_outcome :: "string list \<Rightarrow> verify_outcome" where
  "failed_outcome es = \<lparr>out_code = 1, out_errors = es, out_server = new_ChildProcess,
     out_client = new_ChildProcess, out_serverEvents = [], out_clientEvents = [], out_files = []\<rparr>"

definition opt_error :: "string \<Rightarrow> string list" where
  "opt_error e = (if e \<noteq> [] then [e] else [])"

text \<open>The server is started and becomes ready: the errors so far, and the process.\<close>

definition start_server :: "verify_env \<Rightarrow> VOptions \<Rightarrow> string \<Rightarrow> string list \<times> ChildProcess" where
  "start_server env q exe =
     (case child_start (ve_serverStart env) exe (serverArgs q (pipeNameForRole q ''server'')) new_ChildProcess of
        Inl e \<Rightarrow> ([''Failed to start server: '' @ e], new_ChildProcess)
      | Inr p \<Rightarrow>
          (case waitForOutput ''Transitioning to state: ACCEPTING'' (ve_ready env) p of
             (True, p) \<Rightarrow> ([], p)
           | (False, p) \<Rightarrow>
               (case waitForOutput ''Server is running. Waiting for the test to complete'' (ve_ready2 env) p of
                  (True, p) \<Rightarrow> ([], p)
                | (False, p) \<Rightarrow> ([''Server did not become ready before timeout''], p))))"

definition start_client :: "verify_env \<Rightarrow> VOptions \<Rightarrow> string \<Rightarrow> string list \<Rightarrow> string list \<times> ChildProcess" where
  "start_client env q exe errors =
     (if errors \<noteq> [] then (errors, new_ChildProcess)
      else case child_start (ve_clientStart env) exe (clientArgs q (pipeNameForRole q ''client'')) new_ChildProcess of
             Inl e \<Rightarrow> (errors @ [''Failed to start client: '' @ e], new_ChildProcess)
           | Inr p \<Rightarrow> (errors, p))"

definition await_exit ::
  "verify_env \<Rightarrow> string list \<Rightarrow> ChildProcess \<Rightarrow> ChildProcess \<Rightarrow> string list \<times> ChildProcess \<times> ChildProcess" where
  "await_exit env errors server client =
     (if errors = []
      then (case child_waitFor (ve_clientWait env) client of (ok1, client) \<Rightarrow>
            case child_waitFor (ve_serverWait env) server of (ok2, server) \<Rightarrow>
              (errors @ (if ok1 then [] else [''Client timed out'']) @
                 (if ok2 then [] else [''Server timed out'']), server, client))
      else (let client = child_terminate (we_term (ve_clientWait env)) client;
                server = child_terminate (we_term (ve_serverWait env)) server;
                client = snd (child_waitFor (ve_clientWait env) client);
                server = snd (child_waitFor (ve_serverWait env) server)
            in (errors, server, client)))"

definition exit_error :: "string \<Rightarrow> ChildProcess \<Rightarrow> string list" where
  "exit_error nm p =
     (if cp_started p \<and> cp_exitCode p \<noteq> 0 then [nm @ '' exit code is '' @ show_int (cp_exitCode p)] else [])"

definition check_and_report ::
  "verify_env \<Rightarrow> VOptions \<Rightarrow> string \<Rightarrow> string list \<Rightarrow> ChildProcess \<Rightarrow> ChildProcess \<Rightarrow> verify_outcome res" where
  "check_and_report env q exe errors server client =
     (let serverReader = reader_run ''server'' (pipeNameForRole q ''server'') (ve_serverReader env) new_PipeReader;
          clientReader = reader_run ''client'' (pipeNameForRole q ''client'') (ve_clientReader env) new_PipeReader;
          serverEvents = pr_lines serverReader;
          clientEvents = pr_lines clientReader;
          texts = [(path_join (vo_resultDir q) ''server-output.log'', cp_output server),
                   (path_join (vo_resultDir q) ''client-output.log'', cp_output client),
                   (path_join (vo_resultDir q) ''server-events.jsonl'', linesToText serverEvents),
                   (path_join (vo_resultDir q) ''client-events.jsonl'', linesToText clientEvents)];
          wr = (\<lambda>path. writeTextFile path (ve_write env path));
          errors = errors @ concat (map (\<lambda>(path, text). opt_error (wr path)) texts) @
            opt_error (pr_error serverReader) @ opt_error (pr_error clientReader) @
            exit_error ''Server'' server @ exit_error ''Client'' client
      in res_bind (verifyEvents (ve_parse env) ''server'' ''SERVER'' serverEvents (vo_runId q)) (\<lambda>es1.
         res_bind (verifyEvents (ve_parse env) ''client'' ''CLIENT'' clientEvents (vo_runId q)) (\<lambda>es2.
         let errors = errors @ es1 @ es2 @
               verifyResultFile (ve_parse env) (ve_file env) (result_path_of q ''SERVER'') ''SERVER'' (vo_runId q) @
               verifyResultFile (ve_parse env) (ve_file env) (result_path_of q ''CLIENT'') ''CLIENT'' (vo_runId q);
             passed = (errors = []);
             report = (path_join (vo_resultDir q) ''verification-report.json'',
               ve_dump2 env (buildReport q exe server client serverEvents clientEvents errors passed) @ newline)
         in Inr \<lparr>out_code = (if passed then 0 else 1), out_errors = errors,
              out_server = child_destroy (ve_serverWait env) server,
              out_client = child_destroy (ve_clientWait env) client,
              out_serverEvents = serverEvents, out_clientEvents = clientEvents,
              out_files = filter (\<lambda>(path, text). wr path = []) (texts @ [report])\<rparr>)))"

definition runVerifier :: "verify_env \<Rightarrow> VOptions \<Rightarrow> string \<Rightarrow> verify_outcome res" where
  "runVerifier env q exe =
     (if ve_mkdirs env \<noteq> [] then Inr (failed_outcome [ve_mkdirs env])
      else res_bind (pr_prepare (pipeNameForRole q ''server'') (ve_prepare env (pipeNameForRole q ''server'')))
        (\<lambda>e1. if e1 \<noteq> [] then Inr (failed_outcome [e1])
      else res_bind (pr_prepare (pipeNameForRole q ''client'') (ve_prepare env (pipeNameForRole q ''client'')))
        (\<lambda>e2. if e2 \<noteq> [] then Inr (failed_outcome [e2])
      else (case start_server env q exe of (errors, server) \<Rightarrow>
            case start_client env q exe errors of (errors, client) \<Rightarrow>
            case await_exit env errors server client of (errors, server, client) \<Rightarrow>
              check_and_report env q exe errors server client))))"

definition verifier_main ::
  "verify_env \<Rightarrow> file_system \<Rightarrow> int \<Rightarrow> int \<Rightarrow> string list \<Rightarrow> nat res" where
  "verifier_main env fs millis pid args =
     (let s = vp_parseArgs millis pid args in
      if vp_help s then Inr 0
      else if vp_errors s \<noteq> [] then Inr 2
      else let exe = fst (resolveIpeftcPath fs (vo_ipeftcPath (vp_options s)))
        in if exe = [] then Inr 2
           else res_bind (runVerifier env (vp_options s) exe) (\<lambda>out. Inr (out_code out)))"

subsection \<open>The lines read are the lines written\<close>

text \<open>The lines of a text, the part after the last line feed included.\<close>

primrec split_lf :: "string \<Rightarrow> string list" where
  "split_lf [] = [[]]"
| "split_lf (c # cs) =
     (if c = CHR 0x0A then [] # split_lf cs else (c # hd (split_lf cs)) # tl (split_lf cs))"

definition clean :: "string list \<Rightarrow> string list" where
  "clean ls = filter (\<lambda>l. l \<noteq> []) (map strip_cr ls)"

definition lines_of :: "string \<Rightarrow> string list" where
  "lines_of s = clean (split_lf s)"

text \<open>The bytes that the reads give, up to the first error.\<close>

fun read_bytes :: "pipe_read list \<Rightarrow> bytes" where
  "read_bytes [] = []"
| "read_bytes (Read_Data d # rs) = d @ read_bytes rs"
| "read_bytes (Read_Nothing # rs) = read_bytes rs"
| "read_bytes (Read_Error e # rs) = []"

lemma clean_append [simp]: "clean (ls @ ms) = clean ls @ clean ms" "clean [] = []"
  by (simp_all add: clean_def)

lemma split_lf_nonempty [simp]: "split_lf s \<noteq> []"
  by (cases s) auto

lemma split_lf_one: "CHR 0x0A \<notin> set s \<Longrightarrow> split_lf s = [s]"
  by (induction s) auto

lemma split_lf_line: "CHR 0x0A \<notin> set a \<Longrightarrow> split_lf (a @ CHR 0x0A # b) = a # split_lf b"
  by (induction a) auto

lemma split_lf_append: "split_lf (s @ t) = butlast (split_lf s) @ split_lf (last (split_lf s) @ t)"
proof (induction s)
  case Nil
  then show ?case by simp
next
  case (Cons c s)
  obtain l ls where s: "split_lf s = l # ls" by (cases "split_lf s") auto
  with Cons show ?case by (cases ls) auto
qed

lemma last_split_lf: "CHR 0x0A \<notin> set (last (split_lf s))"
proof (induction s)
  case (Cons c s)
  obtain l ls where s: "split_lf s = l # ls" by (cases "split_lf s") auto
  with Cons show ?case by (cases ls) auto
qed simp

lemma find_sub_char:
  "find_sub [c] s = (if c \<in> set s then Some (length (takeWhile (\<lambda>x. x \<noteq> c) s)) else None)"
  by (induction s) auto

lemma split_at_char:
  "c \<in> set s \<Longrightarrow> s = takeWhile (\<lambda>x. x \<noteq> c) s @ c # drop (Suc (length (takeWhile (\<lambda>x. x \<noteq> c) s))) s"
  by (induction s) auto

lemma addLine_clean: "addLine (strip_cr l) r = r\<lparr>pr_lines := pr_lines r @ clean [l]\<rparr>"
  by (simp add: addLine_def clean_def)

lemma consume_loop_lines:
  "pos \<le> length pending \<Longrightarrow> consume_loop pending pos r =
    (last (split_lf (drop pos pending)),
     r\<lparr>pr_lines := pr_lines r @ clean (butlast (split_lf (drop pos pending)))\<rparr>)"
proof (induction pending pos r rule: consume_loop.induct)
  case (1 pending pos r)
  let ?s = "drop pos pending"
  let ?a = "takeWhile (\<lambda>x. x \<noteq> CHR 0x0A) ?s"
  show ?case
  proof (cases "CHR 0x0A \<in> set ?s")
    case False
    then have "find_from pending [CHR 0x0A] pos = None"
      using "1.prems" by (simp add: find_from_def find_sub_char)
    then show ?thesis using False by (subst consume_loop.simps) (simp add: split_lf_one)
  next
    case True
    let ?nl = "pos + length ?a"
    have f: "find_from pending [CHR 0x0A] pos = Some ?nl"
      using "1.prems" True by (simp add: find_from_def find_sub_char)
    have s: "?s = ?a @ CHR 0x0A # drop (Suc ?nl) pending"
      using split_at_char [OF True] by (simp add: add.commute)
    have a: "substr pending pos (length ?a) = ?a"
      by (metis append_eq_conv_conj s substr_def)
    have c: "clean (?a # butlast ls) = clean [?a] @ clean (butlast ls)" for ls
      by (simp add: clean_def)
    have sp: "split_lf ?s = ?a # split_lf (drop (Suc ?nl) pending)"
      by (subst s, rule split_lf_line) (auto dest: set_takeWhileD)
    have "Suc ?nl \<le> length pending" using find_from_bounds [OF f] by simp
    with "1.IH" [OF f] show ?thesis
      by (subst consume_loop.simps) (simp add: f a c sp addLine_clean)
  qed
qed

lemma consumeChunk_lines:
  "consumeChunk pending data r = (last (split_lf (pending @ data)),
     r\<lparr>pr_lines := pr_lines r @ clean (butlast (split_lf (pending @ data)))\<rparr>)"
  by (simp add: consumeChunk_def consume_loop_lines)

lemma flushPending_lines:
  "CHR 0x0A \<notin> set pending \<Longrightarrow> pr_lines (flushPending pending r) = pr_lines r @ lines_of pending"
  by (simp add: flushPending_def lines_of_def split_lf_one addLine_clean)
    (simp add: clean_def strip_cr_def)

lemma read_loop_lines:
  "CHR 0x0A \<notin> set pending \<Longrightarrow>
    pr_lines (read_loop nm rs pending r) = pr_lines r @ lines_of (pending @ read_bytes rs)"
proof (induction nm rs pending r rule: read_loop.induct)
  case (2 nm data rs pending r)
  then show ?case
    using split_lf_append [of "pending @ data" "read_bytes rs"]
    by (simp add: consumeChunk_lines last_split_lf lines_of_def)
next
  case (4 nm e rs pending r)
  then show ?case by (simp add: flushPending_lines setError_def)
qed (simp_all add: flushPending_lines)

lemma reader_lines:
  "True \<in> set (re_opens env) \<Longrightarrow>
    pr_lines (reader_run nm path env new_PipeReader) = lines_of (read_bytes (re_reads env))"
  by (simp add: reader_run_def read_loop_lines new_PipeReader_def)

text \<open>
  however the pipe hands out its bytes, the reader that got it open collects the lines of all that
  was read, in order, without their line ends and without empty ones, and an unfinished last line
  counts; an error ends the reading but loses no line read before it.
\<close>

theorem reader_lines_of_stream:
  assumes "True \<in> set (re_opens env)"
  shows "pr_lines (reader_run nm path env new_PipeReader) = lines_of (read_bytes (re_reads env))"
  using assms by (rule reader_lines)

theorem reader_lines_of_stream_witness:
  "pr_lines (reader_run ''server'' ''p''
     \<lparr>re_opens = [False, True], re_stopped = False,
      re_reads = [Read_Data ''a'', Read_Nothing, Read_Data [CHR ''b'', CHR 0x0D], Read_Data [CHR 0x0A, CHR ''c'']]\<rparr>
     new_PipeReader) = [''ab'', ''c'']"
  by (subst reader_lines_of_stream) (simp_all add: lines_of_def clean_def strip_cr_def)

subsection \<open>The verdict on the events of a controller\<close>

text \<open>An event survives its line: the library parses what it printed, and the text is one line.\<close>

definition event_ok :: "json_parser \<Rightarrow> json_printer \<Rightarrow> json \<Rightarrow> bool" where
  "event_ok parse dump j \<longleftrightarrow> parse (dump j) = Inr j \<and> dump j \<noteq> [] \<and> CHR 0x0A \<notin> set (dump j) \<and>
     last (dump j) \<noteq> CHR 0x0D"

lemma lines_of_events:
  "\<forall>j \<in> set evs. event_ok parse dump j \<Longrightarrow> lines_of (concat (map (event_line dump) evs)) = map dump evs"
proof (induction evs)
  case Nil
  then show ?case by (simp add: lines_of_def clean_def strip_cr_def)
next
  case (Cons j evs)
  then have "split_lf (event_line dump j @ concat (map (event_line dump) evs)) =
      dump j # split_lf (concat (map (event_line dump) evs))"
    using split_lf_line [of "dump j"] by (simp add: event_line_def event_ok_def)
  moreover have "clean (dump j # ls) = dump j # clean ls" for ls
    using Cons.prems by (simp add: clean_def strip_cr_def event_ok_def)
  ultimately show ?case using Cons by (simp add: lines_of_def)
qed

text \<open>The events of a controller, as \<open>TestController.cpp\<close> builds them.\<close>

definition run_started_event :: "Controller \<Rightarrow> json" where
  "run_started_event ct =
     json_set ''config'' (Config_toJson (nd_config (ct_node ct)))
       (json_set ''startedAt'' (JString (ct_startedAt ct))
         (json_set ''role'' (JString (roleString (mode (nd_config (ct_node ct)))))
           (json_set ''runId'' (JString (opt_runId (ct_runOptions ct)))
             (json_set ''type'' (JString ''run_started'') JNull))))"

definition phase_event :: "nat \<Rightarrow> TestRunResult \<Rightarrow> json" where
  "phase_event k snapshot =
     json_set ''phase'' (TestPhaseResult_to_json (if k = 1 then phase1 snapshot else phase2 snapshot))
       (json_set ''phaseNumber'' (JInt (int k))
         (json_set ''role'' (JString (role snapshot))
           (json_set ''runId'' (JString (runId snapshot))
             (json_set ''type'' (JString ''phase_result'') JNull))))"

text \<open>A run's events: its controller starts as \<open>c\<close>, its node is \<open>n1\<close>, \<open>n2\<close> when the phases end.\<close>

definition run_events :: "Controller \<Rightarrow> string \<Rightarrow> Node \<Rightarrow> string \<Rightarrow> Node \<Rightarrow> TestRunResult \<Rightarrow> json list" where
  "run_events c t1 n1 t2 n2 r =
     [run_started_event c, phase_event 1 (buildCurrentResult t1 [] (c\<lparr>ct_node := n1\<rparr>)),
      phase_event 2 (buildCurrentResult t2 [] (c\<lparr>ct_node := n2\<rparr>)), final_event r]"

lemma snapshot_cong:
  assumes "ct_node c = ct_node d" "ct_runOptions c = ct_runOptions d" "ct_startedAt c = ct_startedAt d"
    and "ct_resultExportWarning c = ct_resultExportWarning d"
  shows "buildCurrentResult t reason c = buildCurrentResult t reason d"
  using assms by (simp add: buildCurrentResult_def)

text \<open>What publishing changes: the sink, and the flag of the phase.\<close>

definition same_run :: "Controller \<Rightarrow> Controller \<Rightarrow> bool" where
  "same_run c d \<longleftrightarrow> ct_runOptions c = ct_runOptions d \<and> ct_startedAt c = ct_startedAt d \<and>
     ct_resultExportWarning c = ct_resultExportWarning d"

lemma same_run_snapshot:
  "same_run c d \<Longrightarrow> buildCurrentResult t reason (c\<lparr>ct_node := n\<rparr>) = buildCurrentResult t reason (d\<lparr>ct_node := n\<rparr>)"
  by (rule snapshot_cong) (simp_all add: same_run_def)

lemma publish_run_started:
  assumes "sink_running (ct_sink c)"
  shows "ct_sink (publishRunStarted env c) = sink_publish (ce_dump env) (run_started_event c) (ct_sink c)"
    "same_run (publishRunStarted env c) c"
    "ct_phase1EventPublished (publishRunStarted env c) = ct_phase1EventPublished c"
    "ct_phase2EventPublished (publishRunStarted env c) = ct_phase2EventPublished c"
  using assms by (simp_all add: publishRunStarted_def run_started_event_def sink_enabled_def same_run_def Let_def)

lemma publish_phase:
  assumes "sink_running (ct_sink c)" "k = 1 \<and> \<not> ct_phase1EventPublished c \<or> k = 2 \<and> \<not> ct_phase2EventPublished c"
  shows "ct_sink (publishPhaseResult env k (c\<lparr>ct_node := n\<rparr>)) = sink_publish (ce_dump env)
      (phase_event k (buildCurrentResult (ce_nowIso env) [] (c\<lparr>ct_node := n\<rparr>))) (ct_sink c)"
    "same_run (publishPhaseResult env k (c\<lparr>ct_node := n\<rparr>)) c"
    "ct_phase2EventPublished (publishPhaseResult env k (c\<lparr>ct_node := n\<rparr>)) \<longleftrightarrow> k = 2 \<or> ct_phase2EventPublished c"
proof -
  have *: "buildCurrentResult t [] (c\<lparr>ct_node := n, ct_phase1EventPublished := b\<rparr>) =
      buildCurrentResult t [] (c\<lparr>ct_node := n\<rparr>)"
    "buildCurrentResult t [] (c\<lparr>ct_node := n, ct_phase2EventPublished := b\<rparr>) =
      buildCurrentResult t [] (c\<lparr>ct_node := n\<rparr>)" for b t by (rule snapshot_cong; simp)+
  show "ct_sink (publishPhaseResult env k (c\<lparr>ct_node := n\<rparr>)) = sink_publish (ce_dump env)
      (phase_event k (buildCurrentResult (ce_nowIso env) [] (c\<lparr>ct_node := n\<rparr>))) (ct_sink c)"
    "same_run (publishPhaseResult env k (c\<lparr>ct_node := n\<rparr>)) c"
    "ct_phase2EventPublished (publishPhaseResult env k (c\<lparr>ct_node := n\<rparr>)) \<longleftrightarrow> k = 2 \<or> ct_phase2EventPublished c"
    using assms
    by (auto simp: publishPhaseResult_def phase_event_def sink_enabled_def same_run_def * Let_def)
qed

lemma sink_publish_running:
  "sink_running s \<Longrightarrow> sink_running (sink_publish dump j s) \<and>
    sink_queue (sink_publish dump j s) = sink_queue s @ [event_line dump j]"
  by (simp add: sink_publish_def sink_push_def)

lemma run_event_lines:
  assumes "sink_running (ct_sink c)" "sink_queue (ct_sink c) = []"
    and "\<not> ct_phase1EventPublished c" "\<not> ct_phase2EventPublished c"
    and "ce_dump e0 = dump" "ce_dump e1 = dump" "ce_dump e2 = dump"
    and "c1 = publishRunStarted e0 c"
    and "c2 = publishPhaseResult e1 1 (c1\<lparr>ct_node := n1\<rparr>)"
    and "c3 = publishPhaseResult e2 2 (c2\<lparr>ct_node := n2\<rparr>)"
  shows "sink_queue (ct_sink c3) @ [event_line dump (final_event r)] =
      map (event_line dump) (run_events c (ce_nowIso e1) n1 (ce_nowIso e2) n2 r)"
    "same_run c3 c"
proof -
  note c1 = publish_run_started [OF assms(1), of e0, folded assms(8), unfolded assms(5)]
  have r1: "sink_running (ct_sink c1)"
    "sink_queue (ct_sink c1) = [event_line dump (run_started_event c)]"
    using sink_publish_running [OF assms(1)] assms(2) c1(1) by simp_all
  have "1 = (1::nat) \<and> \<not> ct_phase1EventPublished c1 \<or> 1 = (2::nat) \<and> \<not> ct_phase2EventPublished c1"
    using c1(3) assms(3) by simp
  note c2 = publish_phase [OF r1(1) this, of e1 n1, folded assms(9), unfolded assms(6)]
  have r2: "sink_running (ct_sink c2)" "sink_queue (ct_sink c2) = sink_queue (ct_sink c1) @
      [event_line dump (phase_event 1 (buildCurrentResult (ce_nowIso e1) [] (c\<lparr>ct_node := n1\<rparr>)))]"
    using sink_publish_running [OF r1(1)] c2(1) same_run_snapshot [OF c1(2)] by simp_all
  have "2 = (1::nat) \<and> \<not> ct_phase1EventPublished c2 \<or> 2 = (2::nat) \<and> \<not> ct_phase2EventPublished c2"
    using c2(3) c1(4) assms(4) by simp
  note c3 = publish_phase [OF r2(1) this, of e2 n2, folded assms(10), unfolded assms(7)]
  have s: "same_run c2 c" using c1(2) c2(2) by (simp add: same_run_def)
  have r3: "sink_queue (ct_sink c3) = sink_queue (ct_sink c2) @
      [event_line dump (phase_event 2 (buildCurrentResult (ce_nowIso e2) [] (c\<lparr>ct_node := n2\<rparr>)))]"
    using sink_publish_running [OF r2(1)] c3(1) same_run_snapshot [OF s] by simp
  then show "sink_queue (ct_sink c3) @ [event_line dump (final_event r)] =
      map (event_line dump) (run_events c (ce_nowIso e1) n1 (ce_nowIso e2) n2 r)"
    using r2(2) r1(2) by (simp add: run_events_def)
  show "same_run c3 c" using s c3(2) by (simp add: same_run_def)
qed

lemma verify_four:
  assumes "parse la = Inr a" "parse lb = Inr b" "parse lc = Inr c" "parse ld = Inr d"
  shows "verifyEvents parse label rl [la, lb, lc, ld] rid =
    res_bind (final_errors label d rl rid) (\<lambda>fes. Inr (concat (map (\<lambda>(i, event, ty).
             let ctxt = label @ '' event '' @ show_nat i in
             expectString event ''type'' ty ctxt @ expectString event ''runId'' rid ctxt @
             expectString event ''role'' rl ctxt)
       [(0, a, ''run_started''), (1, b, ''phase_result''), (2, c, ''phase_result''), (3, d, ''final_result'')]) @
       phase_errors label [a, b, c, d] 1 @ phase_errors label [a, b, c, d] 2 @ fes))"
  using assms by (simp add: verifyEvents_def parseJsonLine_def expectedTypes_def Let_def numeral_2_eq_2 numeral_3_eq_3)

lemma event_fields:
  "json_find ''type'' (run_started_event c) = Some (JString ''run_started'')"
  "json_find ''runId'' (run_started_event c) = Some (JString (opt_runId (ct_runOptions c)))"
  "json_find ''role'' (run_started_event c) = Some (JString (roleString (mode (nd_config (ct_node c)))))"
  "json_find ''type'' (phase_event k r) = Some (JString ''phase_result'')"
  "json_find ''runId'' (phase_event k r) = Some (JString (runId r))"
  "json_find ''role'' (phase_event k r) = Some (JString (role r))"
  "json_find ''phaseNumber'' (phase_event k r) = Some (JInt (int k))"
  "json_find ''phase'' (phase_event k r) =
     Some (TestPhaseResult_to_json (if k = 1 then phase1 r else phase2 r))"
  "json_find ''type'' (final_event r) = Some (JString ''final_result'')"
  "json_find ''runId'' (final_event r) = Some (JString (runId r))"
  "json_find ''role'' (final_event r) = Some (JString (role r))"
  "json_find ''result'' (final_event r) = Some (TestRunResult_to_json r)"
  by (simp_all add: run_started_event_def phase_event_def final_event_def json_find_set)

lemma phase_errors_ok:
  "events ! i = phase_event i r \<Longrightarrow> i < 3 \<Longrightarrow> phase_errors label events i = []"
  by (simp add: phase_errors_def event_fields TestPhaseResult_to_json_def json_object_def cast_signed_id Let_def)

lemma expectString_ok: "json_find k j = Some (JString v) \<Longrightarrow> expectString j k v ctxt = []"
  by (simp add: expectString_def)

lemma result_values:
  "json_value get_bool ''success'' False (TestRunResult_to_json r) = Inr (success r)"
  "value_is (TestRunResult_to_json r) ''finalState'' v = Inr (finalState r = v)"
  "value_is (TestRunResult_to_json r) ''role'' v = Inr (role r = v)"
  "value_is (TestRunResult_to_json r) ''runId'' v = Inr (runId r = v)"
  by (simp_all add: TestRunResult_to_json_def value_is_def codec_simps)

lemma final_errors_verdict:
  assumes "success r \<Longrightarrow> finalState r = ''FINISHED''"
  shows "\<exists>es. final_errors label (final_event r) (role r) (runId r) = Inr es \<and> (es = [] \<longleftrightarrow> success r)"
proof -
  obtain m where m: "TestRunResult_to_json r = JObject m" by (simp add: TestRunResult_to_json_def json_object_def)
  show ?thesis
    using assms result_values [of r, unfolded m]
    by (auto simp: final_errors_def event_fields m Let_def)
qed

lemma success_finished:
  "success (buildCurrentResult t reason c) \<Longrightarrow> finalState (buildCurrentResult t reason c) = ''FINISHED''"
  by (simp add: buildCurrentResult_def stateToString_def Let_def)

lemma snapshot_identity:
  "runId (buildCurrentResult t reason c) = opt_runId (ct_runOptions c)"
  "role (buildCurrentResult t reason c) = roleString (mode (nd_config (ct_node c)))"
  by (simp_all add: buildCurrentResult_def Let_def)

lemma verify_run_events:
  assumes "\<forall>j \<in> set (run_events c t1 n1 t2 n2 r). event_ok parse dump j"
    and "r = buildCurrentResult t reason (d\<lparr>ct_node := n3\<rparr>)" "same_run d c"
    and "\<forall>n \<in> {n1, n2, n3}. mode (nd_config n) = mode (nd_config (ct_node c))"
  shows "verifyEvents parse label (role r) (map dump (run_events c t1 n1 t2 n2 r)) (runId r) = Inr [] \<longleftrightarrow> success r"
proof -
  let ?p1 = "phase_event 1 (buildCurrentResult t1 [] (c\<lparr>ct_node := n1\<rparr>))"
  let ?p2 = "phase_event 2 (buildCurrentResult t2 [] (c\<lparr>ct_node := n2\<rparr>))"
  let ?evs = "[run_started_event c, ?p1, ?p2, final_event r]"
  have ids: "runId r = opt_runId (ct_runOptions c)" "role r = roleString (mode (nd_config (ct_node c)))"
    using assms(2-4) by (simp_all add: snapshot_identity same_run_def)
  have "phase_errors label ?evs 1 = []" "phase_errors label ?evs 2 = []"
    by (rule phase_errors_ok; simp)+
  moreover obtain es where "final_errors label (final_event r) (role r) (runId r) = Inr es" "es = [] \<longleftrightarrow> success r"
    using final_errors_verdict [of r label] success_finished [of t reason] assms(2) by blast
  ultimately show ?thesis
    using assms(1,4) verify_four [of parse "dump (run_started_event c)" _ "dump ?p1" _ "dump ?p2" _
        "dump (final_event r)" _ label "role r" "runId r"]
    by (simp add: run_events_def event_ok_def expectString_ok event_fields ids [symmetric])
      (simp add: ids snapshot_identity expectString_ok event_fields)
qed


text \<open>A printer that names the event, and the parser that goes with it.\<close>

definition tag_dump :: json_printer where
  "tag_dump j =
     (case json_find ''type'' j of
        Some (JString ty) \<Rightarrow>
          if ty = ''phase_result'' then (if json_find ''phaseNumber'' j = Some (JInt 1) then ''p1'' else ''p2'')
          else ty
      | _ \<Rightarrow> ''other'')"

definition tag_parse :: "json list \<Rightarrow> json_parser" where
  "tag_parse evs s =
     (if s = ''run_started'' then Inr (evs ! 0) else if s = ''p1'' then Inr (evs ! 1)
      else if s = ''p2'' then Inr (evs ! 2) else Inr (evs ! 3))"

lemma tag_events_ok:
  "\<forall>j \<in> set (run_events c t1 n1 t2 n2 r). event_ok (tag_parse (run_events c t1 n1 t2 n2 r)) tag_dump j"
  by (simp add: run_events_def event_ok_def tag_dump_def tag_parse_def event_fields)

definition piped_controller :: Controller where
  "piped_controller = demo_controller\<lparr>ct_sink := new_sink\<lparr>sink_running := True\<rparr>\<rparr>"

definition tag_env :: ctl_env where
  "tag_env = demo_env\<lparr>ce_dump := tag_dump\<rparr>"

definition piped_run :: Controller where
  "piped_run = publishPhaseResult tag_env 2 ((publishPhaseResult tag_env 1
     ((publishRunStarted tag_env piped_controller)\<lparr>ct_node := demo_done demo_config\<rparr>))\<lparr>ct_node := demo_done demo_config\<rparr>)"

definition piped_result :: TestRunResult where
  "piped_result = buildCurrentResult [] [] (piped_run\<lparr>ct_node := demo_done demo_config\<rparr>)"

definition piped_events :: "json list" where
  "piped_events = run_events piped_controller (ce_nowIso tag_env) (demo_done demo_config) (ce_nowIso tag_env)
     (demo_done demo_config) piped_result"

definition piped_bytes :: bytes where
  "piped_bytes = concat (sink_queue (ct_sink piped_run) @ [event_line tag_dump (final_event piped_result)])"

definition piped_reader :: reader_env where
  "piped_reader = \<lparr>re_opens = [False, True], re_stopped = True,
     re_reads = [Read_Nothing, Read_Data (take 5 piped_bytes), Read_Data (drop 5 piped_bytes)]\<rparr>"

lemma piped_read:
  "read_bytes (re_reads piped_reader) = concat (sink_queue (ct_sink piped_run) @ [event_line tag_dump (final_event piped_result)])"
  "True \<in> set (re_opens piped_reader)"
  by (simp_all add: piped_reader_def flip: piped_bytes_def del: concat_append)


subsection \<open>The command lines reach ipeftc\<close>

definition options_in_range :: "VOptions \<Rightarrow> bool" where
  "options_in_range q \<longleftrightarrow> int_range (vo_port q) \<and> int_range (vo_packetSize q) \<and> int_range (vo_numPackets q) \<and>
     int_range (vo_intervalMs q) \<and> int_range (vo_timeoutMs q)"

lemma stoi_pos_range: "stoi_pos v = Inr (n, k) \<Longrightarrow> int_range n"
  by (auto simp: stoi_pos_def int_range_def split: option.splits if_splits)

lemma parseIntOption_range:
  assumes "options_in_range (vp_options s)"
    and "\<And>n. int_range n \<Longrightarrow> options_in_range (upd n (vp_options s))"
  shows "options_in_range (vp_options (parseIntOption nm v upd s))"
  using assms stoi_pos_range [of v]
  by (auto simp: parseIntOption_def vp_error_def split: sum.split prod.split)

lemma string_options_range:
  "options_in_range (q\<lparr>vo_ipeftcPath := v\<rparr>) = options_in_range q"
  "options_in_range (q\<lparr>vo_host := v\<rparr>) = options_in_range q"
  "options_in_range (q\<lparr>vo_bind := v\<rparr>) = options_in_range q"
  "options_in_range (q\<lparr>vo_runId := v\<rparr>) = options_in_range q"
  "options_in_range (q\<lparr>vo_resultDir := v\<rparr>) = options_in_range q"
  by (simp_all add: options_in_range_def)

lemma vp_set_range:
  assumes "options_in_range (vp_options s)"
  shows "options_in_range (vp_options (vp_set arg v s))"
proof -
  have "options_in_range (vp_options (parseIntOption a v (\<lambda>n q. q\<lparr>vo_port := n\<rparr>) s))"
    "options_in_range (vp_options (parseIntOption a v (\<lambda>n q. q\<lparr>vo_packetSize := n\<rparr>) s))"
    "options_in_range (vp_options (parseIntOption a v (\<lambda>n q. q\<lparr>vo_numPackets := n\<rparr>) s))"
    "options_in_range (vp_options (parseIntOption a v (\<lambda>n q. q\<lparr>vo_intervalMs := n\<rparr>) s))"
    "options_in_range (vp_options (parseIntOption a v (\<lambda>n q. q\<lparr>vo_timeoutMs := n\<rparr>) s))" for a
    by (rule parseIntOption_range [OF assms]; use assms in \<open>simp add: options_in_range_def\<close>)+
  with assms show ?thesis by (simp add: vp_set_def string_options_range)
qed

lemma vp_loop_range: "options_in_range (vp_options s) \<Longrightarrow> options_in_range (vp_options (vp_loop args s))"
  by (induction args s rule: vp_loop.induct)
    (auto simp: vp_set_range vp_error_def split: list.split)

definition verifier_options :: "VOptions \<Rightarrow> bool" where
  "verifier_options q \<longleftrightarrow> options_in_range q \<and> 0 < vo_port q \<and> vo_port q \<le> 65535 \<and> 0 < vo_packetSize q \<and>
     0 < vo_numPackets q \<and> 0 \<le> vo_intervalMs q \<and> 0 < vo_timeoutMs q \<and> vo_resultDir q \<noteq> []"

lemma vp_check_errors:
  "vp_errors (vp_check b msg s) = [] \<longleftrightarrow> vp_errors s = [] \<and> \<not> b" "vp_options (vp_check b msg s) = vp_options s"
  by (simp_all add: vp_check_def vp_error_def)

lemma path_join_Nil: "path_join d n = [] \<longleftrightarrow> d = [] \<and> n = []"
  by (simp add: path_join_def)

lemma vp_parseArgs_valid:
  assumes "vp_errors (vp_parseArgs millis pid args) = []"
  shows "verifier_options (vp_options (vp_parseArgs millis pid args))"
proof -
  have "options_in_range (default_VOptions\<lparr>vo_runId := x\<rparr>)" for x
    by (simp add: options_in_range_def default_VOptions_def int_range_def INT_MIN_def INT_MAX_def)
  then have "options_in_range (vp_options (vp_loop args \<lparr>vp_options = default_VOptions\<lparr>vo_runId := x\<rparr>,
      vp_help = False, vp_errors = []\<rparr>))" for x
    by (simp add: vp_loop_range)
  with assms show ?thesis
    by (auto simp: vp_parseArgs_def vp_check_errors verifier_options_def options_in_range_def path_of_def
        path_join_Nil Let_def)
qed

text \<open>What ipeftc is to run with.\<close>

definition verified_client :: "VOptions \<Rightarrow> Config" where
  "verified_client q = default_Config\<lparr>mode := CLIENT, targetIP := vo_host q, port := vo_port q,
     packetSize := vo_packetSize q, numPackets := vo_numPackets q, sendIntervalMs := vo_intervalMs q,
     saveLogs := False\<rparr>"

definition verified_server :: "VOptions \<Rightarrow> Config" where
  "verified_server q = default_Config\<lparr>mode := SERVER, targetIP := vo_bind q, port := vo_port q, saveLogs := False\<rparr>"

definition verified_run :: "VOptions \<Rightarrow> string \<Rightarrow> RunOptions" where
  "verified_run q rl = default_RunOptions\<lparr>opt_runId := vo_runId q, opt_resultDir := vo_resultDir q,
     opt_resultPipe := pipeNameForRole q rl\<rparr>"

lemma set_int_valid_value:
  assumes "int_range i"
  shows "0 < i \<Longrightarrow> i \<le> 65535 \<Longrightarrow> set_int setPort (show_int i) p = Inr (p\<lparr>cl_config := (cl_config p)\<lparr>port := i\<rparr>\<rparr>)"
    "0 < i \<Longrightarrow> set_int setPacketSize (show_int i) p = Inr (p\<lparr>cl_config := (cl_config p)\<lparr>packetSize := i\<rparr>\<rparr>)"
    "0 < i \<Longrightarrow> set_int setNumPackets (show_int i) p = Inr (p\<lparr>cl_config := (cl_config p)\<lparr>numPackets := i\<rparr>\<rparr>)"
    "0 \<le> i \<Longrightarrow> set_int setSendIntervalMs (show_int i) p = Inr (p\<lparr>cl_config := (cl_config p)\<lparr>sendIntervalMs := i\<rparr>\<rparr>)"
  using assms by (simp_all add: set_int_def stoi_show_int int_range_def upd_config_def setter_defs)

lemma pipe_option:
  "option_action ''--result-pipe'' v = Some (upd_options (\<lambda>r. r\<lparr>opt_resultPipe := v\<rparr>))"
  by (simp add: option_action_def)

lemma pipe_not_config: "pipeNameForRole q rl \<noteq> ''--config''"
proof
  assume "pipeNameForRole q rl = ''--config''"
  then have "last (pipeNameForRole q rl) = CHR ''g''" by simp
  then show False by (simp add: pipeNameForRole_def path_join_def split: if_splits)
qed

lemma verifier_args_parsed:
  assumes "verifier_options q"
  shows "parse_loop (clientArgs q pn) start_of = Inr (start_of\<lparr>cl_mode := ''CLIENT'',
      cl_config := (verified_client q)\<lparr>mode := mode default_Config\<rparr>,
      cl_options := (verified_run q rl)\<lparr>opt_resultPipe := pn\<rparr>\<rparr>)"
    "parse_loop (serverArgs q pn) start_of = Inr (start_of\<lparr>cl_mode := ''SERVER'',
      cl_config := (verified_server q)\<lparr>mode := mode default_Config\<rparr>,
      cl_options := (verified_run q rl)\<lparr>opt_resultPipe := pn\<rparr>\<rparr>)"
  using assms
  by (simp_all add: verifier_options_def options_in_range_def clientArgs_def serverArgs_def option_actions pipe_option
      upper_mode [simplified] set_int_valid_value setTargetIP_def set_save_logs_def upd_options_def upd_config_def setSaveLogs_def
      start_of_def verified_client_def verified_server_def verified_run_def default_Config_def default_RunOptions_def)

lemma verifier_args_no_config:
  assumes "''--config'' \<notin> {vo_host q, vo_bind q, vo_runId q, vo_resultDir q, pn}"
  shows "find_config (clientArgs q pn) = []" "find_config (serverArgs q pn) = []"
proof -
  have "show_int i \<noteq> ''--config''" for i by (rule show_int_noteq) (simp_all add: is_digit_def)
  then show "find_config (clientArgs q pn) = []" "find_config (serverArgs q pn) = []"
    using assms by (auto simp: clientArgs_def serverArgs_def intro!: find_config_none)
qed

text \<open>
  When the verifier accepts its own command line, the arguments it starts ipeftc with are parsed
  into exactly these options on both sides, the result pipe of the role included; only a value that
  reads \<open>--config\<close> is excluded.
\<close>

theorem verifier_launch_config:
  assumes "vp_errors (vp_parseArgs millis pid args) = []" and "q = vp_options (vp_parseArgs millis pid args)"
    and "''--config'' \<notin> {vo_host q, vo_bind q, vo_runId q, vo_resultDir q}"
  shows "(\<exists>p. parseArgs parse file (clientArgs q (pipeNameForRole q ''client'')) = Inr p \<and>
      cl_config p = verified_client q \<and> cl_options p = verified_run q ''client'') \<and>
    (\<exists>p. parseArgs parse file (serverArgs q (pipeNameForRole q ''server'')) = Inr p \<and>
      cl_config p = verified_server q \<and> cl_options p = verified_run q ''server'') \<and>
    config_valid (verified_client q) \<and> config_valid (verified_server q)"
proof -
  have v: "verifier_options q" using vp_parseArgs_valid [OF assms(1)] assms(2) by simp
  have nc: "''--config'' \<notin> {vo_host q, vo_bind q, vo_runId q, vo_resultDir q, pipeNameForRole q rl}" for rl
    using assms(3) pipe_not_config [of q rl, symmetric] by simp
  have same: "(verified_run q rl)\<lparr>opt_resultPipe := pipeNameForRole q rl\<rparr> = verified_run q rl" for rl
    by (simp add: verified_run_def)
  have modes: "(verified_client q)\<lparr>mode := m, mode := CLIENT\<rparr> = verified_client q"
    "(verified_server q)\<lparr>mode := m, mode := SERVER\<rparr> = verified_server q" for m
    by (simp_all add: verified_client_def verified_server_def)
  note c = parseArgs_loop [OF verifier_args_no_config(1) [OF nc]
      verifier_args_parsed(1) [OF v, of _ "''client''"], of "''client''" CLIENT "verified_client q"]
  note s = parseArgs_loop [OF verifier_args_no_config(2) [OF nc]
      verifier_args_parsed(2) [OF v, of _ "''server''"], of "''server''" SERVER "verified_server q"]
  have "config_valid (verified_client q)" "config_valid (verified_server q)"
    using v by (simp_all add: verifier_options_def options_in_range_def int_range_def verified_client_def
        verified_server_def config_valid_def default_Config_def INT_MAX_def)
  with c s same modes show ?thesis by (simp add: mode_string_def)
qed

theorem verifier_launch_config_witness:
  "let q = vp_options (vp_parseArgs 0 1 [''--host'', ''10.0.0.2'', ''--run-id'', ''r1'']) in
   (\<exists>p. parseArgs (\<lambda>s. Inr JNull) (\<lambda>f. None) (clientArgs q (pipeNameForRole q ''client'')) = Inr p \<and>
      cl_config p = verified_client q \<and> cl_options p = verified_run q ''client'') \<and>
    (\<exists>p. parseArgs (\<lambda>s. Inr JNull) (\<lambda>f. None) (serverArgs q (pipeNameForRole q ''server'')) = Inr p \<and>
      cl_config p = verified_server q \<and> cl_options p = verified_run q ''server'') \<and>
    config_valid (verified_client q) \<and> config_valid (verified_server q)"
  unfolding Let_def
  by (rule verifier_launch_config [OF _ refl])
    (simp_all add: vp_parseArgs_def vp_check_def value_args_def vp_set_def default_VOptions_def path_of_def
      path_join_def slash_def sanitizeName_def name_char_def Let_def)

subsection \<open>What a pass means\<close>

lemma run_checks_ok: "run_checks cs = ([], None) \<longleftrightarrow> (\<forall>x \<in> set cs. fst x = Inr True)"
proof (induction cs rule: run_checks.induct)
  case (2 c msg cs)
  obtain es x where "run_checks cs = (es, x)" by force
  with 2 show ?case by (cases c) auto
qed simp

lemma pollExited_fields:
  "cp_started (pollExited a p) = cp_started p" "cp_timedOut (pollExited a p) = cp_timedOut p"
  "cp_argv (pollExited a p) = cp_argv p" "cp_signals (pollExited a p) = cp_signals p"
  "cp_exited p \<Longrightarrow> pollExited a p = p"
  by (simp_all add: pollExited_def split: option.split)

lemma reader_output_fields [simp]:
  "cp_started (reader_output d p) = cp_started p" "cp_timedOut (reader_output d p) = cp_timedOut p"
  "cp_argv (reader_output d p) = cp_argv p" "cp_signals (reader_output d p) = cp_signals p"
  "cp_exited (reader_output d p) = cp_exited p" "cp_exitCode (reader_output d p) = cp_exitCode p"
  "cp_pid (reader_output d p) = cp_pid p"
  by (simp_all add: reader_output_def appendOutput_def)

lemma joinReader_fields [simp]:
  "cp_started (joinReader d p) = cp_started p" "cp_timedOut (joinReader d p) = cp_timedOut p"
  "cp_argv (joinReader d p) = cp_argv p" "cp_signals (joinReader d p) = cp_signals p"
  "cp_exited (joinReader d p) = cp_exited p" "cp_exitCode (joinReader d p) = cp_exitCode p"
  by (simp_all add: joinReader_def)

text \<open>A process that ran with this command line and was left alone.\<close>

definition undisturbed :: "string list \<Rightarrow> ChildProcess \<Rightarrow> bool" where
  "undisturbed argv p \<longleftrightarrow> cp_started p \<and> \<not> cp_timedOut p \<and> cp_signals p = [] \<and> cp_argv p = argv"

lemma undisturbed_steps [simp]:
  "undisturbed argv (pollExited a p) = undisturbed argv p" "undisturbed argv (reader_output d p) = undisturbed argv p"
  "undisturbed argv (joinReader ds p) = undisturbed argv p"
  by (simp_all add: undisturbed_def pollExited_fields)

lemma undisturbed_start:
  "child_start env exe args new_ChildProcess = Inr p \<Longrightarrow> undisturbed (exe # args) p"
  by (auto simp: child_start_def new_ChildProcess_def undisturbed_def split: sum.splits)

lemma undisturbed_output:
  "waitForOutput marker ts p = (b, p') \<Longrightarrow> undisturbed argv p' = undisturbed argv p"
  by (induction marker ts p rule: waitForOutput.induct) (auto simp: Let_def split: if_splits)

lemma undisturbed_wait_loop:
  "wait_loop ts p = (True, p') \<Longrightarrow> undisturbed argv p' = undisturbed argv p \<and> cp_exited p'"
  by (induction ts p rule: wait_loop.induct) (auto simp: Let_def split: if_splits)

lemma undisturbed_wait:
  assumes "child_waitFor env p = (True, p')"
  shows "undisturbed argv p' = undisturbed argv p \<and> cp_exited p'"
proof -
  obtain b p1 where l: "wait_loop (we_turns env) p = (b, p1)" by force
  with assms have "b" "p' = joinReader (we_reads env) p1" by (cases b; simp add: child_waitFor_def)+
  with l undisturbed_wait_loop [of "we_turns env" p p1] show ?thesis by simp
qed

lemma destroy_exited: "cp_exited p \<Longrightarrow> child_destroy env p = joinReader (we_reads env) p"
  by (simp add: child_destroy_def child_terminate_def pollExited_fields)

lemma start_server_ok:
  assumes "start_server env q exe = ([], p)"
  shows "undisturbed (exe # serverArgs q (pipeNameForRole q ''server'')) p"
  using assms undisturbed_start [of "ve_serverStart env" exe "serverArgs q (pipeNameForRole q ''server'')"]
  by (auto simp: start_server_def undisturbed_output split: sum.splits prod.splits bool.splits)

lemma start_client_ok:
  assumes "start_client env q exe es = ([], p)"
  shows "es = [] \<and> undisturbed (exe # clientArgs q (pipeNameForRole q ''client'')) p"
  using assms undisturbed_start [of "ve_clientStart env" exe "clientArgs q (pipeNameForRole q ''client'')"]
  by (auto simp: start_client_def split: sum.splits if_splits)

lemma await_exit_ok:
  assumes "await_exit env es server client = ([], server', client')"
  shows "es = [] \<and> undisturbed argv server' = undisturbed argv server \<and> cp_exited server' \<and>
    undisturbed argv' client' = undisturbed argv' client \<and> cp_exited client'"
  using assms undisturbed_wait [of "ve_serverWait env" server] undisturbed_wait [of "ve_clientWait env" client]
  by (auto simp: await_exit_def Let_def split: prod.splits if_splits)

definition good_process :: "string list \<Rightarrow> ChildProcess \<Rightarrow> bool" where
  "good_process argv p \<longleftrightarrow> undisturbed argv p \<and> cp_exited p \<and> cp_exitCode p = 0"

text \<open>The file holds the result of a successful run of this role and run id.\<close>

definition file_success :: "json_parser \<Rightarrow> (string \<Rightarrow> string option) \<Rightarrow> string \<Rightarrow> string \<Rightarrow> string \<Rightarrow> bool" where
  "file_success parse file path rl rid \<longleftrightarrow>
     (\<exists>content j. file path = Some content \<and> parse content = Inr j \<and>
      json_value get_bool ''success'' False j = Inr True \<and> value_is j ''finalState'' ''FINISHED'' = Inr True \<and>
      value_is j ''role'' rl = Inr True \<and> value_is j ''runId'' rid = Inr True)"

lemma verifyResultFile_ok:
  assumes "verifyResultFile parse file path rl rid = []"
  shows "file_success parse file path rl rid"
proof -
  obtain content where c: "file path = Some content"
    using assms by (cases "file path") (simp_all add: verifyResultFile_def)
  obtain j where j: "parse content = Inr j"
    using assms c by (cases "parse content") (simp_all add: verifyResultFile_def)
  let ?cs = "[(value_is j ''runId'' rid, path @ '' runId mismatch''),
              (value_is j ''role'' rl, path @ '' role mismatch''),
              (json_value get_bool ''success'' False j, path @ '' success is not true''),
              (value_is j ''finalState'' ''FINISHED'', path @ '' finalState is not FINISHED'')]"
  obtain es x where r: "run_checks ?cs = (es, x)" by force
  with assms c j have "es = []" "x = None"
    by (auto simp: verifyResultFile_def simp del: run_checks.simps split: option.splits)
  with r have "\<forall>x \<in> set ?cs. fst x = Inr True" by (simp only: run_checks_ok [symmetric])
  with c j show ?thesis by (simp add: file_success_def)
qed

lemma check_and_report_ok:
  assumes "check_and_report env q exe es server client = Inr out" and "out_code out = 0"
  shows "es = [] \<and> exit_error ''Server'' server = [] \<and> exit_error ''Client'' client = [] \<and>
    out_server out = child_destroy (ve_serverWait env) server \<and>
    out_client out = child_destroy (ve_clientWait env) client \<and>
    verifyEvents (ve_parse env) ''server'' ''SERVER'' (out_serverEvents out) (vo_runId q) = Inr [] \<and>
    verifyEvents (ve_parse env) ''client'' ''CLIENT'' (out_clientEvents out) (vo_runId q) = Inr [] \<and>
    verifyResultFile (ve_parse env) (ve_file env) (result_path_of q ''SERVER'') ''SERVER'' (vo_runId q) = [] \<and>
    verifyResultFile (ve_parse env) (ve_file env) (result_path_of q ''CLIENT'') ''CLIENT'' (vo_runId q) = []"
proof -
  let ?se = "pr_lines (reader_run ''server'' (pipeNameForRole q ''server'') (ve_serverReader env) new_PipeReader)"
  let ?ce = "pr_lines (reader_run ''client'' (pipeNameForRole q ''client'') (ve_clientReader env) new_PipeReader)"
  obtain f1 where f1: "verifyEvents (ve_parse env) ''server'' ''SERVER'' ?se (vo_runId q) = Inr f1"
    using assms(1) by (cases "verifyEvents (ve_parse env) ''server'' ''SERVER'' ?se (vo_runId q)")
      (simp_all add: check_and_report_def Let_def)
  obtain f2 where f2: "verifyEvents (ve_parse env) ''client'' ''CLIENT'' ?ce (vo_runId q) = Inr f2"
    using assms(1) f1 by (cases "verifyEvents (ve_parse env) ''client'' ''CLIENT'' ?ce (vo_runId q)")
      (simp_all add: check_and_report_def Let_def)
  note eq = assms(1) [symmetric, unfolded check_and_report_def Let_def f1 f2 res_bind_Inr sum.inject]
  have "out_serverEvents out = ?se" "out_clientEvents out = ?ce"
    "out_server out = child_destroy (ve_serverWait env) server"
    "out_client out = child_destroy (ve_clientWait env) client"
    by (simp_all only: eq verify_outcome.select_convs)
  moreover have "es = [] \<and> exit_error ''Server'' server = [] \<and> exit_error ''Client'' client = [] \<and> f1 = [] \<and> f2 = [] \<and>
    verifyResultFile (ve_parse env) (ve_file env) (result_path_of q ''SERVER'') ''SERVER'' (vo_runId q) = [] \<and>
    verifyResultFile (ve_parse env) (ve_file env) (result_path_of q ''CLIENT'') ''CLIENT'' (vo_runId q) = []"
    using assms(2) unfolding eq verify_outcome.select_convs
    by (simp only: append_is_Nil_conv split: if_split_asm)
  ultimately show ?thesis using f1 f2 by simp
qed

text \<open>
  C36: the verifier exits with 0 only after both processes were started with its own arguments, have
  exited by themselves with code 0, unsignalled and in time, every event of both roles was in order,
  and both result files report a success of this run in their role.
\<close>

theorem verifier_pass:
  assumes "runVerifier env q exe = Inr out" and "out_code out = 0"
  shows "good_process (exe # serverArgs q (pipeNameForRole q ''server'')) (out_server out) \<and>
    good_process (exe # clientArgs q (pipeNameForRole q ''client'')) (out_client out) \<and>
    verifyEvents (ve_parse env) ''server'' ''SERVER'' (out_serverEvents out) (vo_runId q) = Inr [] \<and>
    verifyEvents (ve_parse env) ''client'' ''CLIENT'' (out_clientEvents out) (vo_runId q) = Inr [] \<and>
    file_success (ve_parse env) (ve_file env) (result_path_of q ''SERVER'') ''SERVER'' (vo_runId q) \<and>
    file_success (ve_parse env) (ve_file env) (result_path_of q ''CLIENT'') ''CLIENT'' (vo_runId q)"
proof -
  obtain es1 server1 where s: "start_server env q exe = (es1, server1)" by force
  obtain es2 client1 where c: "start_client env q exe es1 = (es2, client1)" by force
  obtain es3 server client where a: "await_exit env es2 server1 client1 = (es3, server, client)"
    by (metis prod_cases3)
  have r: "check_and_report env q exe es3 server client = Inr out"
    using assms s c a by (auto simp: runVerifier_def res_bind_eq_Inr failed_outcome_def split: if_splits)
  note k = check_and_report_ok [OF r assms(2)]
  note a' = await_exit_ok [OF a [unfolded k [THEN conjunct1]]]
  then have es2: "es2 = []" by blast
  note c' = start_client_ok [OF c [unfolded es2]]
  then have es1: "es1 = []" by blast
  have u: "undisturbed (exe # serverArgs q (pipeNameForRole q ''server'')) server" "cp_exited server"
    "undisturbed (exe # clientArgs q (pipeNameForRole q ''client'')) client" "cp_exited client"
    using a' c' start_server_ok [OF s [unfolded es1]] by simp_all
  then have "good_process (exe # serverArgs q (pipeNameForRole q ''server'')) (out_server out)"
    "good_process (exe # clientArgs q (pipeNameForRole q ''client'')) (out_client out)"
    using k by (auto simp: good_process_def destroy_exited exit_error_def undisturbed_def split: if_splits)
  then show ?thesis using k verifyResultFile_ok [of "ve_parse env" "ve_file env"] by simp
qed

text \<open>An environment in which the verifier passes.\<close>

definition pass_json :: "string \<Rightarrow> json" where
  "pass_json s =
     (let rl = (if s ! 0 = CHR ''s'' then ''SERVER'' else ''CLIENT'');
          ty = (if s ! 1 = CHR ''0'' then ''run_started'' else if s ! 1 = CHR ''3'' then ''final_result''
                else ''phase_result'');
          n = (if s ! 1 = CHR ''1'' then 1 else 2)
      in JObject [(''type'', JString ty), (''runId'', JString ''r1''), (''role'', JString rl),
           (''phaseNumber'', JInt n), (''phase'', JObject []), (''success'', JBool True),
           (''finalState'', JString ''FINISHED''),
           (''result'', JObject [(''success'', JBool True), (''finalState'', JString ''FINISHED''),
              (''role'', JString rl), (''runId'', JString ''r1'')])])"

definition pass_reader :: "char \<Rightarrow> reader_env" where
  "pass_reader c = \<lparr>re_opens = [True], re_stopped = True,
     re_reads = [Read_Data (linesToText [[c, CHR ''0''], [c, CHR ''1''], [c, CHR ''2''], [c, CHR ''3'']])]\<rparr>"

definition pass_wait :: wait_env where
  "pass_wait = \<lparr>we_turns = [\<lparr>tn_output = [], tn_wait = Some (WExited 0)\<rparr>], we_term = None, we_last = None,
     we_reads = []\<rparr>"

definition pass_env :: verify_env where
  "pass_env = \<lparr>ve_parse = (\<lambda>s. Inr (pass_json s)), ve_dump2 = (\<lambda>j. ''{}''), ve_mkdirs = [],
     ve_prepare = (\<lambda>p. \<lparr>pe_lstat = None, pe_mkdirs = None, pe_mkfifo = None\<rparr>),
     ve_serverReader = pass_reader (CHR ''s''), ve_clientReader = pass_reader (CHR ''c''),
     ve_serverStart = \<lparr>se_pipe = Inr 3, se_fork = Inr 10\<rparr>, ve_clientStart = \<lparr>se_pipe = Inr 4, se_fork = Inr 11\<rparr>,
     ve_ready = [\<lparr>tn_output = ''Transitioning to state: ACCEPTING'', tn_wait = None\<rparr>], ve_ready2 = [],
     ve_clientWait = pass_wait, ve_serverWait = pass_wait,
     ve_write = (\<lambda>p. \<lparr>te_mkdirs = [], te_open_ok = True, te_write_ok = True\<rparr>),
     ve_file = (\<lambda>p. Some (if contains_sub p ''SERVER'' then ''sf'' else ''cf''))\<rparr>"

definition pass_options :: VOptions where
  "pass_options = default_VOptions\<lparr>vo_runId := ''r1'', vo_resultDir := ''d''\<rparr>"

lemma pass_start:
  "start_server pass_env q exe = ([], new_ChildProcess\<lparr>cp_started := True, cp_pid := 10, cp_stdoutFd := 3,
     cp_output := ''Transitioning to state: ACCEPTING'', cp_argv := exe # serverArgs q (pipeNameForRole q ''server'')\<rparr>)"
  "start_client pass_env q exe [] = ([], new_ChildProcess\<lparr>cp_started := True, cp_pid := 11, cp_stdoutFd := 4,
     cp_argv := exe # clientArgs q (pipeNameForRole q ''client'')\<rparr>)"
  by (simp_all add: start_server_def start_client_def child_start_def pass_env_def new_ChildProcess_def
      reader_output_def appendOutput_def outputContains_def contains_sub_def)

lemma pass_exit:
  assumes "cp_pid p > 0" "\<not> cp_exited p"
  shows "\<exists>p'. child_waitFor pass_wait p = (True, p') \<and> cp_exitCode p' = 0"
  using assms by (simp add: child_waitFor_def pass_wait_def pollExited_def Let_def)

lemma pass_await:
  assumes "cp_pid server > 0" "\<not> cp_exited server" "cp_pid client > 0" "\<not> cp_exited client"
  shows "\<exists>server' client'. await_exit pass_env [] server client = ([], server', client') \<and>
    cp_exitCode server' = 0 \<and> cp_exitCode client' = 0"
proof -
  obtain server' client' where "child_waitFor pass_wait server = (True, server')" "cp_exitCode server' = 0"
    "child_waitFor pass_wait client = (True, client')" "cp_exitCode client' = 0"
    using pass_exit assms by meson
  then show ?thesis by (simp add: await_exit_def pass_env_def)
qed

lemma pass_lines:
  assumes "c \<noteq> CHR 0x0A"
  shows "pr_lines (reader_run nm path (pass_reader c) new_PipeReader) =
      [[c, CHR ''0''], [c, CHR ''1''], [c, CHR ''2''], [c, CHR ''3'']]"
    "pr_error (reader_run nm path (pass_reader c) new_PipeReader) = []"
  using assms
  by (simp_all add: reader_run_def pass_reader_def consumeChunk_lines linesToText_def clean_def strip_cr_def
      flushPending_def new_PipeReader_def)

lemma pass_event_fields:
  "json_find ''type'' (pass_json s) = Some (JString (if s ! 1 = CHR ''0'' then ''run_started''
     else if s ! 1 = CHR ''3'' then ''final_result'' else ''phase_result''))"
  "json_find ''runId'' (pass_json s) = Some (JString ''r1'')"
  "json_find ''role'' (pass_json s) = Some (JString (if s ! 0 = CHR ''s'' then ''SERVER'' else ''CLIENT''))"
  "json_find ''phaseNumber'' (pass_json s) = Some (JInt (if s ! 1 = CHR ''1'' then 1 else 2))"
  "json_find ''phase'' (pass_json s) = Some (JObject [])"
  "json_find ''result'' (pass_json s) = Some (JObject [(''success'', JBool True), (''finalState'', JString ''FINISHED''),
      (''role'', JString (if s ! 0 = CHR ''s'' then ''SERVER'' else ''CLIENT'')), (''runId'', JString ''r1'')])"
  by (simp_all add: pass_json_def Let_def)

lemma pass_events:
  assumes "c = CHR ''s'' \<and> rl = ''SERVER'' \<or> c = CHR ''c'' \<and> rl = ''CLIENT''"
  shows "verifyEvents (\<lambda>s. Inr (pass_json s)) label rl [[c, CHR ''0''], [c, CHR ''1''], [c, CHR ''2''], [c, CHR ''3'']]
    ''r1'' = Inr []"
  using assms
  by (subst verify_four [OF refl refl refl refl])
    (auto simp: expectString_ok pass_event_fields phase_errors_def final_errors_def value_is_def cast_signed_def
      codec_simps Let_def)

lemma pass_files:
  "verifyResultFile (ve_parse pass_env) (ve_file pass_env) (result_path_of pass_options rl) rl ''r1'' = []"
  if "rl = ''SERVER'' \<or> rl = ''CLIENT''"
proof -
  let ?s = "if contains_sub (result_path_of pass_options rl) ''SERVER'' then ''sf'' else ''cf''"
  have "result_path_of pass_options rl = ''d/result-r1-'' @ rl @ ''.json''"
    by (simp add: result_path_of_def pass_options_def path_join_def slash_def)
  then have s: "?s = (if rl = ''SERVER'' then ''sf'' else ''cf'')"
    using that by (auto simp: contains_sub_def)
  have "pass_json ?s = JObject [(''type'', JString ''phase_result''), (''runId'', JString ''r1''), (''role'', JString rl),
           (''phaseNumber'', JInt 2), (''phase'', JObject []), (''success'', JBool True),
           (''finalState'', JString ''FINISHED''),
           (''result'', JObject [(''success'', JBool True), (''finalState'', JString ''FINISHED''),
              (''role'', JString rl), (''runId'', JString ''r1'')])]"
    unfolding s using that by (elim disjE) (simp_all add: pass_json_def Let_def)
  then show ?thesis
    by (simp add: verifyResultFile_def pass_env_def value_is_def codec_simps)
qed

lemma pass_reader_env:
  "ve_serverReader pass_env = pass_reader (CHR ''s'')" "ve_clientReader pass_env = pass_reader (CHR ''c'')"
  "ve_parse pass_env = (\<lambda>s. Inr (pass_json s))" "vo_runId pass_options = ''r1''"
  by (simp_all add: pass_env_def pass_options_def)

lemma pass_run: "\<exists>out. runVerifier pass_env pass_options ''ipeftc'' = Inr out \<and> out_code out = 0"
proof -
  have prep: "pr_prepare p (ve_prepare pass_env p) = Inr []" for p by (simp add: pr_prepare_def pass_env_def)
  have wr: "opt_error (writeTextFile p (ve_write pass_env p)) = []" for p
    by (simp add: opt_error_def writeTextFile_def pass_env_def)
  obtain server client where w: "await_exit pass_env [] (snd (start_server pass_env pass_options ''ipeftc''))
      (snd (start_client pass_env pass_options ''ipeftc'' [])) = ([], server, client)"
    "cp_exitCode server = 0" "cp_exitCode client = 0"
    using pass_await [of "snd (start_server pass_env pass_options ''ipeftc'')"
        "snd (start_client pass_env pass_options ''ipeftc'' [])"]
    by (auto simp: pass_start new_ChildProcess_def)
  let ?sr = "reader_run ''server'' (pipeNameForRole pass_options ''server'') (ve_serverReader pass_env) new_PipeReader"
  let ?cr = "reader_run ''client'' (pipeNameForRole pass_options ''client'') (ve_clientReader pass_env) new_PipeReader"
  have ev: "verifyEvents (ve_parse pass_env) ''server'' ''SERVER'' (pr_lines ?sr) (vo_runId pass_options) = Inr []"
    "verifyEvents (ve_parse pass_env) ''client'' ''CLIENT'' (pr_lines ?cr) (vo_runId pass_options) = Inr []"
    by (simp_all add: pass_reader_env pass_lines pass_events)
  have er: "pr_error ?sr = []" "pr_error ?cr = []"
    by (simp_all add: pass_reader_env pass_lines)
  have fl: "verifyResultFile (ve_parse pass_env) (ve_file pass_env) (result_path_of pass_options ''SERVER'') ''SERVER''
      (vo_runId pass_options) = []"
    "verifyResultFile (ve_parse pass_env) (ve_file pass_env) (result_path_of pass_options ''CLIENT'') ''CLIENT''
      (vo_runId pass_options) = []"
    using pass_files by (simp_all only: pass_reader_env simp_thms)
  have ex: "exit_error ''Server'' server = []" "exit_error ''Client'' client = []" "opt_error [] = []"
    using w(2,3) by (simp_all add: exit_error_def opt_error_def)
  have "\<exists>out. check_and_report pass_env pass_options ''ipeftc'' [] server client = Inr out \<and> out_code out = 0"
    by (simp only: check_and_report_def Let_def ev er fl ex wr res_bind_Inr list.map prod.case concat.simps append_Nil
        append_Nil2 refl if_True) simp
  with w(1) show ?thesis by (simp add: runVerifier_def prep pass_start) (simp add: pass_env_def)
qed

theorem verifier_pass_witness:
  "\<exists>out. runVerifier pass_env pass_options ''ipeftc'' = Inr out \<and>
    good_process (''ipeftc'' # serverArgs pass_options (pipeNameForRole pass_options ''server'')) (out_server out) \<and>
    good_process (''ipeftc'' # clientArgs pass_options (pipeNameForRole pass_options ''client'')) (out_client out) \<and>
    verifyEvents (ve_parse pass_env) ''server'' ''SERVER'' (out_serverEvents out) (vo_runId pass_options) = Inr [] \<and>
    verifyEvents (ve_parse pass_env) ''client'' ''CLIENT'' (out_clientEvents out) (vo_runId pass_options) = Inr [] \<and>
    file_success (ve_parse pass_env) (ve_file pass_env) (result_path_of pass_options ''SERVER'') ''SERVER'' (vo_runId pass_options) \<and>
    file_success (ve_parse pass_env) (ve_file pass_env) (result_path_of pass_options ''CLIENT'') ''CLIENT'' (vo_runId pass_options)"
proof -
  obtain out where "runVerifier pass_env pass_options ''ipeftc'' = Inr out" "out_code out = 0"
    using pass_run by blast
  then show ?thesis using verifier_pass [of pass_env pass_options "''ipeftc''" out] by blast
qed

end
