(* ===== verification/ResultViewer.thy ===== *)
theory ResultViewer
  imports ProcessManager
begin

section \<open>The result viewer\<close>

text \<open>
  \<open>ResultJsonViewer/src/main.cpp\<close>: a tool that reads the result file of one run, checks its shape,
  prints it and reports the verdict by its exit code. Files and the JSON parser are arguments; the
  printed summary is in the theory \<open>ViewerSummary\<close>. The main fact: on the file that
  ipeftc writes, found by directory, run id and role, the exit code is ipeftc's verdict
  (\<open>viewer_verdict\<close>), and what is shown is the result itself (\<open>view_result\<close>).
\<close>

subsection \<open>Options\<close>

record ViewerOptions =
  wo_help :: bool
  wo_file :: string
  wo_resultDir :: string
  wo_runId :: string
  wo_role :: string

definition default_ViewerOptions :: ViewerOptions where
  "default_ViewerOptions = \<lparr>wo_help = False, wo_file = [], wo_resultDir = [], wo_runId = [], wo_role = []\<rparr>"

definition toUpper :: "string \<Rightarrow> string" where
  "toUpper s = map to_upper_char s"

text \<open>The role in upper case, and whether it is one.\<close>

definition normalizeRole :: "string \<Rightarrow> bool \<times> string" where
  "normalizeRole rl = (let rl = toUpper rl in (rl = ''CLIENT'' \<or> rl = ''SERVER'', rl))"

definition viewer_set :: "string \<Rightarrow> string \<Rightarrow> ViewerOptions \<Rightarrow> ViewerOptions" where
  "viewer_set arg v q =
     (if arg = ''--file'' then q\<lparr>wo_file := v\<rparr>
      else if arg = ''--result-dir'' then q\<lparr>wo_resultDir := v\<rparr>
      else if arg = ''--run-id'' then q\<lparr>wo_runId := v\<rparr>
      else q\<lparr>wo_role := v\<rparr>)"

fun viewer_loop :: "string list \<Rightarrow> ViewerOptions \<Rightarrow> string + ViewerOptions" where
  "viewer_loop [] q = Inr q"
| "viewer_loop (arg # rest) q =
     (if arg = ''-h'' \<or> arg = ''--help'' then viewer_loop rest (q\<lparr>wo_help := True\<rparr>)
      else if arg \<in> {''--file'', ''--result-dir'', ''--run-id'', ''--role''}
      then (case rest of
              [] \<Rightarrow> Inl (arg @ '' requires a value'')
            | v # rest' \<Rightarrow> viewer_loop rest' (viewer_set arg v q))
      else Inl (''Unknown option: '' @ arg))"

definition parseOptions :: "string list \<Rightarrow> string + ViewerOptions" where
  "parseOptions args =
     (case viewer_loop args default_ViewerOptions of
        Inl e \<Rightarrow> Inl e
      | Inr q \<Rightarrow>
          if wo_help q then Inr q
          else let (ok, rl) = (if wo_role q \<noteq> [] then normalizeRole (wo_role q) else (True, []));
                   q = q\<lparr>wo_role := rl\<rparr>
            in if \<not> ok then Inl ''--role must be CLIENT or SERVER''
               else if wo_file q \<noteq> [] then Inr q
               else if wo_resultDir q = [] \<or> wo_runId q = [] \<or> wo_role q = []
               then Inl ''Provide --file, or provide all of --result-dir, --run-id, and --role''
               else Inr (q\<lparr>wo_file := path_join (wo_resultDir q)
                      (''result-'' @ wo_runId q @ ''-'' @ wo_role q @ ''.json'')\<rparr>))"

subsection \<open>Validation\<close>

definition requireField :: "json \<Rightarrow> string \<Rightarrow> string \<Rightarrow> json res" where
  "requireField object key path =
     (if \<not> is_object object then Inl (Runtime_error (path @ '' must be an object''))
      else case json_find key object of
             None \<Rightarrow> Inl (Runtime_error (''Missing required field: '' @ path @ ''.'' @ key))
           | Some v \<Rightarrow> Inr v)"

definition require_kind :: "(json \<Rightarrow> bool) \<Rightarrow> string \<Rightarrow> json \<Rightarrow> string \<Rightarrow> string \<Rightarrow> json res" where
  "require_kind ok msg object key path =
     res_bind (requireField object key path) (\<lambda>v.
       if ok v then Inr v else Inl (Runtime_error (path @ ''.'' @ key @ msg)))"

definition requireObject :: "json \<Rightarrow> string \<Rightarrow> string \<Rightarrow> json res" where
  "requireObject object key path = require_kind is_object '' must be an object'' object key path"

definition requireString :: "json \<Rightarrow> string \<Rightarrow> string \<Rightarrow> string res" where
  "requireString object key path =
     res_bind (require_kind is_string '' must be a string'' object key path) get_string"

definition requireBool :: "json \<Rightarrow> string \<Rightarrow> string \<Rightarrow> bool res" where
  "requireBool object key path =
     res_bind (require_kind is_boolean '' must be a boolean'' object key path) get_bool"

definition requireNumber :: "json \<Rightarrow> string \<Rightarrow> string \<Rightarrow> double res" where
  "requireNumber object key path =
     res_bind (require_kind is_number '' must be a number'' object key path) get_double"

definition optionalString :: "json \<Rightarrow> string \<Rightarrow> string \<Rightarrow> string res" where
  "optionalString object key fallback =
     (case json_find key object of
        None \<Rightarrow> Inr fallback
      | Some JNull \<Rightarrow> Inr fallback
      | Some (JString s) \<Rightarrow> Inr s
      | Some _ \<Rightarrow> Inl (Runtime_error (key @ '' must be a string when present'')))"

record StatsView =
  sv_totalPacketsSent :: double
  sv_totalPacketsReceived :: double
  sv_totalBytesSent :: double
  sv_totalBytesReceived :: double
  sv_failedChecksumCount :: double
  sv_sequenceErrorCount :: double
  sv_contentMismatchCount :: double
  sv_duration :: double
  sv_throughputMbps :: double

definition readStats :: "json \<Rightarrow> string \<Rightarrow> StatsView res" where
  "readStats stats path =
     res_bind (requireNumber stats ''totalPacketsSent'' path) (\<lambda>ps.
     res_bind (requireNumber stats ''totalPacketsReceived'' path) (\<lambda>pr.
     res_bind (requireNumber stats ''totalBytesSent'' path) (\<lambda>bs.
     res_bind (requireNumber stats ''totalBytesReceived'' path) (\<lambda>br.
     res_bind (requireNumber stats ''failedChecksumCount'' path) (\<lambda>fc.
     res_bind (requireNumber stats ''sequenceErrorCount'' path) (\<lambda>se.
     res_bind (requireNumber stats ''contentMismatchCount'' path) (\<lambda>cm.
     res_bind (requireNumber stats ''duration'' path) (\<lambda>d.
     res_bind (requireNumber stats ''throughputMbps'' path) (\<lambda>th.
     Inr \<lparr>sv_totalPacketsSent = ps, sv_totalPacketsReceived = pr, sv_totalBytesSent = bs,
       sv_totalBytesReceived = br, sv_failedChecksumCount = fc, sv_sequenceErrorCount = se,
       sv_contentMismatchCount = cm, sv_duration = d, sv_throughputMbps = th\<rparr>)))))))))"

record PhaseView =
  pv_phaseName :: string
  pv_senderRole :: string
  pv_receiverRole :: string
  pv_success :: bool
  pv_senderStats :: StatsView
  pv_receiverStats :: StatsView

definition readPhase :: "json \<Rightarrow> string \<Rightarrow> PhaseView res" where
  "readPhase result key =
     (let path = ''$.'' @ key in
      res_bind (requireObject result key ''$'') (\<lambda>phase.
      res_bind (requireString phase ''phaseName'' path) (\<lambda>nm.
      res_bind (requireString phase ''senderRole'' path) (\<lambda>sr.
      res_bind (requireString phase ''receiverRole'' path) (\<lambda>rr.
      res_bind (requireBool phase ''success'' path) (\<lambda>ok.
      res_bind (requireObject phase ''senderStats'' path) (\<lambda>sj.
      res_bind (readStats sj (path @ ''.senderStats'')) (\<lambda>ss.
      res_bind (requireObject phase ''receiverStats'' path) (\<lambda>rj.
      res_bind (readStats rj (path @ ''.receiverStats'')) (\<lambda>rs.
      Inr \<lparr>pv_phaseName = nm, pv_senderRole = sr, pv_receiverRole = rr, pv_success = ok,
        pv_senderStats = ss, pv_receiverStats = rs\<rparr>))))))))))"

record ResultView =
  rv_runId :: string
  rv_role :: string
  rv_schemaVersion :: string
  rv_startedAt :: string
  rv_finishedAt :: string
  rv_finalState :: string
  rv_failureReason :: string
  rv_resultExportWarning :: string
  rv_success :: bool
  rv_config :: json
  rv_phase1 :: PhaseView
  rv_phase2 :: PhaseView

definition validate_config :: "json \<Rightarrow> unit res" where
  "validate_config cfg =
     res_bind (requireString cfg ''targetIP'' ''$.config'') (\<lambda>_.
     res_bind (requireNumber cfg ''port'' ''$.config'') (\<lambda>_.
     res_bind (requireNumber cfg ''packetSize'' ''$.config'') (\<lambda>_.
     res_bind (requireNumber cfg ''numPackets'' ''$.config'') (\<lambda>_.
     res_bind (requireNumber cfg ''sendIntervalMs'' ''$.config'') (\<lambda>_.
     res_bind (requireString cfg ''protocol'' ''$.config'') (\<lambda>_. Inr ()))))))"

definition validateAndReadResult :: "json \<Rightarrow> ResultView res" where
  "validateAndReadResult result =
     (if \<not> is_object result then Inl (Runtime_error ''Top-level JSON value must be an object'')
      else
      res_bind (requireString result ''runId'' ''$'') (\<lambda>rid.
      res_bind (requireString result ''role'' ''$'') (\<lambda>rl.
      let (ok, rl) = normalizeRole rl in
      if \<not> ok then Inl (Runtime_error ''$.role must be CLIENT or SERVER'') else
      res_bind (requireBool result ''success'' ''$'') (\<lambda>succ.
      res_bind (requireString result ''finalState'' ''$'') (\<lambda>fin.
      res_bind (requireObject result ''config'' ''$'') (\<lambda>cfg.
      res_bind (readPhase result ''phase1'') (\<lambda>p1.
      res_bind (readPhase result ''phase2'') (\<lambda>p2.
      res_bind (optionalString result ''schemaVersion'' []) (\<lambda>sv.
      res_bind (optionalString result ''startedAt'' []) (\<lambda>st.
      res_bind (optionalString result ''finishedAt'' []) (\<lambda>ft.
      res_bind (optionalString result ''failureReason'' []) (\<lambda>fr.
      res_bind (optionalString result ''resultExportWarning'' []) (\<lambda>rw.
      res_bind (validate_config cfg) (\<lambda>_.
      Inr \<lparr>rv_runId = rid, rv_role = rl, rv_schemaVersion = sv, rv_startedAt = st, rv_finishedAt = ft,
        rv_finalState = fin, rv_failureReason = fr, rv_resultExportWarning = rw, rv_success = succ,
        rv_config = cfg, rv_phase1 = p1, rv_phase2 = p2\<rparr>))))))))))))))"

subsection \<open>The program\<close>

definition loadJsonFile :: "json_parser \<Rightarrow> (string \<Rightarrow> string option) \<Rightarrow> string \<Rightarrow> json res" where
  "loadJsonFile parse file path =
     (case file path of
        None \<Rightarrow> Inl (Runtime_error (''Cannot open file: '' @ path))
      | Some content \<Rightarrow>
          (case parse content of
             Inl (Json_parse_error e) \<Rightarrow> Inl (Runtime_error (''JSON parse error: '' @ e))
           | r \<Rightarrow> r))"

text \<open>\<open>main\<close>: the exit code, and the result shown.\<close>

definition viewer_main ::
  "json_parser \<Rightarrow> (string \<Rightarrow> string option) \<Rightarrow> string list \<Rightarrow> nat \<times> ResultView option" where
  "viewer_main parse file args =
     (case parseOptions args of
        Inl e \<Rightarrow> (2, None)
      | Inr q \<Rightarrow>
          if wo_help q then (0, None)
          else case res_bind (loadJsonFile parse file (wo_file q)) validateAndReadResult of
                 Inl e \<Rightarrow> (2, None)
               | Inr v \<Rightarrow> (if rv_success v \<and> rv_finalState v = ''FINISHED'' then 0 else 1, Some v))"

subsection \<open>The viewer shows ipeftc's result\<close>

definition view_stats :: "TestStats \<Rightarrow> StatsView" where
  "view_stats s =
     \<lparr>sv_totalPacketsSent = of_int (totalPacketsSent s), sv_totalPacketsReceived = of_int (totalPacketsReceived s),
      sv_totalBytesSent = of_int (totalBytesSent s), sv_totalBytesReceived = of_int (totalBytesReceived s),
      sv_failedChecksumCount = of_int (failedChecksumCount s), sv_sequenceErrorCount = of_int (sequenceErrorCount s),
      sv_contentMismatchCount = of_int (contentMismatchCount s), sv_duration = duration s,
      sv_throughputMbps = throughputMbps s\<rparr>"

definition view_phase :: "TestPhaseResult \<Rightarrow> PhaseView" where
  "view_phase p =
     \<lparr>pv_phaseName = phaseName p, pv_senderRole = senderRole p, pv_receiverRole = receiverRole p,
      pv_success = ph_success p, pv_senderStats = view_stats (senderStats p),
      pv_receiverStats = view_stats (receiverStats p)\<rparr>"

definition view_result :: "TestRunResult \<Rightarrow> ResultView" where
  "view_result r =
     \<lparr>rv_runId = runId r, rv_role = role r, rv_schemaVersion = schemaVersion r, rv_startedAt = startedAt r,
      rv_finishedAt = finishedAt r, rv_finalState = finalState r, rv_failureReason = failureReason r,
      rv_resultExportWarning = resultExportWarning r, rv_success = success r,
      rv_config = Config_toJson (config r), rv_phase1 = view_phase (phase1 r), rv_phase2 = view_phase (phase2 r)\<rparr>"

lemmas require_defs = requireField_def require_kind_def requireObject_def requireString_def requireBool_def
  requireNumber_def

lemma readStats_ok: "readStats (TestStats_to_json s) path = Inr (view_stats s)"
  by (simp add: readStats_def require_defs TestStats_to_json_def view_stats_def)

lemma readPhase_ok:
  assumes "json_find key result = Some (TestPhaseResult_to_json p)" "is_object result"
  shows "readPhase result key = Inr (view_phase p)"
proof -
  have "is_object (TestStats_to_json s)" for s by (simp add: TestStats_to_json_def)
  with assms show ?thesis
    by (simp add: readPhase_def require_defs TestPhaseResult_to_json_def readStats_ok view_phase_def)
qed

lemma validate_config_ok: "validate_config (Config_toJson c) = Inr ()"
  by (simp add: validate_config_def require_defs Config_toJson_def)

lemma toUpper_roles: "toUpper ''CLIENT'' = ''CLIENT''" "toUpper ''SERVER'' = ''SERVER''"
  unfolding toUpper_def by code_simp+

lemma result_find:
  "json_find ''runId'' (TestRunResult_to_json r) = Some (JString (runId r))"
  "json_find ''role'' (TestRunResult_to_json r) = Some (JString (role r))"
  "json_find ''success'' (TestRunResult_to_json r) = Some (JBool (success r))"
  "json_find ''finalState'' (TestRunResult_to_json r) = Some (JString (finalState r))"
  "json_find ''config'' (TestRunResult_to_json r) = Some (Config_toJson (config r))"
  "json_find ''phase1'' (TestRunResult_to_json r) = Some (TestPhaseResult_to_json (phase1 r))"
  "json_find ''phase2'' (TestRunResult_to_json r) = Some (TestPhaseResult_to_json (phase2 r))"
  "json_find ''schemaVersion'' (TestRunResult_to_json r) = Some (JString (schemaVersion r))"
  "json_find ''startedAt'' (TestRunResult_to_json r) = Some (JString (startedAt r))"
  "json_find ''finishedAt'' (TestRunResult_to_json r) = Some (JString (finishedAt r))"
  "json_find ''failureReason'' (TestRunResult_to_json r) = Some (JString (failureReason r))"
  "json_find ''resultExportWarning'' (TestRunResult_to_json r) = Some (JString (resultExportWarning r))"
  "is_object (TestRunResult_to_json r)" "is_object (Config_toJson c)"
  by (simp_all add: TestRunResult_to_json_def Config_toJson_def)

lemma validate_result_ok:
  assumes "role r = ''CLIENT'' \<or> role r = ''SERVER''"
  shows "validateAndReadResult (TestRunResult_to_json r) = Inr (view_result r)"
proof -
  have "normalizeRole (role r) = (True, role r)"
    using assms by (auto simp: normalizeRole_def toUpper_roles)
  moreover have "readPhase (TestRunResult_to_json r) ''phase1'' = Inr (view_phase (phase1 r))"
    "readPhase (TestRunResult_to_json r) ''phase2'' = Inr (view_phase (phase2 r))"
    by (rule readPhase_ok; simp add: result_find)+
  ultimately show ?thesis
    by (simp add: validateAndReadResult_def require_defs validate_config_ok optionalString_def view_result_def
        result_find Let_def)
qed

lemma viewer_finds_file:
  assumes "r = buildCurrentResult nowIso reason ct" and "toUpper rl = role r" and "dir \<noteq> []" "rid \<noteq> []"
    and "opt_resultDir (ct_runOptions ct) = dir" "opt_runId (ct_runOptions ct) = rid"
  shows "\<exists>q. parseOptions [''--result-dir'', dir, ''--run-id'', rid, ''--role'', rl] = Inr q \<and> \<not> wo_help q \<and>
      wo_file q = hd (export_paths (ct_runOptions ct) r)"
    "role r = ''CLIENT'' \<or> role r = ''SERVER''"
proof -
  show r: "role r = ''CLIENT'' \<or> role r = ''SERVER''"
    using assms(1) by (simp add: buildCurrentResult_def roleString_def Let_def)
  then have "rl \<noteq> []" using assms(2) by (auto simp: toUpper_def)
  moreover have "role r \<noteq> []" "runId r = rid" using r assms by (auto simp: buildCurrentResult_def Let_def)
  ultimately show "\<exists>q. parseOptions [''--result-dir'', dir, ''--run-id'', rid, ''--role'', rl] = Inr q \<and>
      \<not> wo_help q \<and> wo_file q = hd (export_paths (ct_runOptions ct) r)"
    using assms r
    by (auto simp: parseOptions_def viewer_set_def default_ViewerOptions_def normalizeRole_def export_paths_def Let_def)
qed

text \<open>
  asked for a run by result directory, run id and role (in any case of letters), the viewer opens
  the file that ipeftc's controller wrote, accepts it, shows the result as it is and exits with 0
  exactly when ipeftc's verdict on the run is success, and with 1 otherwise.
\<close>

theorem viewer_verdict:
  assumes "r = buildCurrentResult nowIso reason ct" and "toUpper rl = role r" and "dir \<noteq> []" "rid \<noteq> []"
    and "opt_resultDir (ct_runOptions ct) = dir" "opt_runId (ct_runOptions ct) = rid"
    and "file (hd (export_paths (ct_runOptions ct) r)) = Some (dump (TestRunResult_to_json r))"
    and "parse (dump (TestRunResult_to_json r)) = Inr (TestRunResult_to_json r)"
  shows "viewer_main parse file [''--result-dir'', dir, ''--run-id'', rid, ''--role'', rl] =
    (if success r then 0 else 1, Some (view_result r))"
proof -
  note * = viewer_finds_file [OF assms(1-6)]
  obtain q where q: "parseOptions [''--result-dir'', dir, ''--run-id'', rid, ''--role'', rl] = Inr q" "\<not> wo_help q"
    "wo_file q = hd (export_paths (ct_runOptions ct) r)" using *(1) by blast
  have "success r \<Longrightarrow> finalState r = ''FINISHED''"
    using assms(1) by (simp add: buildCurrentResult_def stateToString_def Let_def)
  with q assms(7,8) validate_result_ok [OF *(2)] show ?thesis
    by (auto simp: viewer_main_def loadJsonFile_def view_result_def)
qed

theorem viewer_verdict_witness:
  "let r = buildCurrentResult [] [] demo_controller in
   viewer_main (\<lambda>s. Inr (TestRunResult_to_json r)) (\<lambda>f. if f = ''Results/result-r1-CLIENT.json'' then Some ''{}'' else None)
     [''--result-dir'', ''Results'', ''--run-id'', ''r1'', ''--role'', ''client''] =
   (if success r then 0 else 1, Some (view_result r))"
proof -
  have "role (buildCurrentResult [] [] demo_controller) = ''CLIENT''"
    "hd (export_paths (ct_runOptions demo_controller) (buildCurrentResult [] [] demo_controller)) =
      ''Results/result-r1-CLIENT.json''"
    by (simp_all add: buildCurrentResult_def demo_controller_def demo_done_def demo_config_def new_Node_def
        default_Config_def roleString_def export_paths_def default_RunOptions_def path_join_def slash_def Let_def)
  moreover have "toUpper ''client'' = ''CLIENT''" unfolding toUpper_def by code_simp
  ultimately show ?thesis
    unfolding Let_def
    by (intro viewer_verdict [where dump = "\<lambda>j. ''{}''" and nowIso = "[]" and reason = "[]" and ct = demo_controller])
      (simp_all add: demo_controller_def default_RunOptions_def)
qed

end
