(* ===== verification/ViewerSummary.thy ===== *)
theory ViewerSummary
  imports ResultViewer SummaryTable
begin

section \<open>What the result viewer prints\<close>

text \<open>
  \<open>printSummary\<close> and \<open>printPhaseRow\<close> of \<open>ResultJsonViewer/src/main.cpp\<close>, as the list of lines. Reading the
  configuration again may throw; after the validation it does not (\<open>printSummary_total\<close>). The main fact: on
  ipeftc's file the summary shows ipeftc's verdict and counters (\<open>viewer_summary\<close>).
\<close>

definition integerText :: "double \<Rightarrow> string" where
  "integerText value = show_fixed 0 value"

definition numberText :: "double \<Rightarrow> string" where
  "numberText value = show_fixed 3 value"

definition printKeyValue :: "string \<Rightarrow> string \<Rightarrow> string" where
  "printKeyValue key value = setw 22 key @ '': '' @ value"

definition verdict_text :: "bool \<Rightarrow> string" where
  "verdict_text ok = (if ok then ''PASS'' else ''FAIL'')"

definition slashed :: "string list \<Rightarrow> string" where
  "slashed xs = (case xs of [] \<Rightarrow> [] | y # ys \<Rightarrow> y @ concat (map (\<lambda>z. '' / '' @ z) ys))"

definition printPhaseRow :: "nat \<Rightarrow> PhaseView \<Rightarrow> string" where
  "printPhaseRow number phase =
     setw 7 (show_nat number) @ setw 22 (pv_phaseName phase) @ setw 12 (pv_senderRole phase) @
     setw 12 (pv_receiverRole phase) @ setw 9 (verdict_text (pv_success phase)) @
     setw 18 (slashed [integerText (sv_totalPacketsSent (pv_senderStats phase)),
                       integerText (sv_totalBytesSent (pv_senderStats phase))]) @
     setw 18 (slashed [integerText (sv_totalPacketsReceived (pv_receiverStats phase)),
                       integerText (sv_totalBytesReceived (pv_receiverStats phase))]) @
     setw 18 (numberText (sv_throughputMbps (pv_receiverStats phase))) @
     slashed [integerText (sv_failedChecksumCount (pv_receiverStats phase)),
              integerText (sv_sequenceErrorCount (pv_receiverStats phase)),
              integerText (sv_contentMismatchCount (pv_receiverStats phase))]"

definition phase_header :: string where
  "phase_header = setw 7 ''Phase'' @ setw 22 ''Name'' @ setw 12 ''Sender'' @ setw 12 ''Receiver'' @
     setw 9 ''Success'' @ setw 18 ''Snd pkt/bytes'' @ setw 18 ''Rcv pkt/bytes'' @ setw 18 ''Rcv Mbps'' @
     ''Chk/Seq/Content''"

definition config_string :: "json \<Rightarrow> string \<Rightarrow> string res" where
  "config_string cfg key = res_bind (json_at key cfg) get_string"

definition config_number :: "json \<Rightarrow> string \<Rightarrow> string res" where
  "config_number cfg key = res_bind (res_bind (json_at key cfg) get_double) (\<lambda>x. Inr (integerText x))"

definition config_lines :: "json \<Rightarrow> string list res" where
  "config_lines cfg =
     res_bind (config_string cfg ''targetIP'') (\<lambda>ip.
     res_bind (config_number cfg ''port'') (\<lambda>p.
     res_bind (config_number cfg ''packetSize'') (\<lambda>ps.
     res_bind (config_number cfg ''numPackets'') (\<lambda>n.
     res_bind (config_number cfg ''sendIntervalMs'') (\<lambda>ms.
     res_bind (config_string cfg ''protocol'') (\<lambda>pr.
     Inr [printKeyValue ''targetIP'' ip, printKeyValue ''port'' p, printKeyValue ''packetSize'' ps,
          printKeyValue ''numPackets'' n, printKeyValue ''intervalMs'' ms, printKeyValue ''protocol'' pr]))))))"

definition printSummary :: "ResultView \<Rightarrow> string list res" where
  "printSummary v =
     (let passed = rv_success v \<and> rv_finalState v = ''FINISHED'' in
      res_bind (config_lines (rv_config v)) (\<lambda>cfg.
        Inr ([''=== MyIperf Result Summary ==='', ''Status: '' @ verdict_text passed, [],
              printKeyValue ''runId'' (rv_runId v), printKeyValue ''role'' (rv_role v),
              printKeyValue ''schemaVersion'' (rv_schemaVersion v), printKeyValue ''startedAt'' (rv_startedAt v),
              printKeyValue ''finishedAt'' (rv_finishedAt v), printKeyValue ''finalState'' (rv_finalState v)] @
             (if rv_failureReason v \<noteq> [] then [printKeyValue ''failureReason'' (rv_failureReason v)] else []) @
             (if rv_resultExportWarning v \<noteq> []
              then [printKeyValue ''resultExportWarning'' (rv_resultExportWarning v)] else []) @
             [[], ''Config''] @ cfg @ [[], ''Phase Summary'', phase_header] @
             [printPhaseRow 1 (rv_phase1 v), printPhaseRow 2 (rv_phase2 v)] @
             [[], ''Phase 1 ('' @ pv_phaseName (rv_phase1 v) @ ''): '' @ verdict_text (pv_success (rv_phase1 v)),
              ''Phase 2 ('' @ pv_phaseName (rv_phase2 v) @ ''): '' @ verdict_text (pv_success (rv_phase2 v))])))"

subsection \<open>Printing cannot fail after the validation\<close>

lemma require_kind_Inr:
  "require_kind ok msg j key path = Inr v \<longleftrightarrow> json_at key j = Inr v \<and> ok v"
  by (auto simp: require_kind_def requireField_def json_at_def split: option.split if_splits)

lemma requireString_config: "requireString j key path = Inr s \<Longrightarrow> config_string j key = Inr s"
  by (auto simp: requireString_def require_kind_Inr config_string_def res_bind_eq_Inr)

lemma requireNumber_config: "requireNumber j key path = Inr x \<Longrightarrow> config_number j key = Inr (integerText x)"
  by (auto simp: requireNumber_def require_kind_Inr config_number_def res_bind_eq_Inr)

lemma printSummary_total:
  assumes "validateAndReadResult j = Inr v"
  shows "\<exists>ls. printSummary v = Inr ls"
proof -
  have "validate_config (rv_config v) = Inr ()"
    using assms
    by (auto simp: validateAndReadResult_def res_bind_eq_Inr Let_def case_prod_unfold split: if_splits)
  then have "\<exists>ls. config_lines (rv_config v) = Inr ls"
    by (auto simp: validate_config_def config_lines_def res_bind_eq_Inr
        dest!: requireString_config requireNumber_config)
  then show ?thesis by (auto simp: printSummary_def Let_def)
qed

subsection \<open>The summary of ipeftc's result\<close>

lemma round_half_even_int [simp]: "round_half_even (of_int n) = n"
  by (simp add: round_half_even_def Let_def)

lemma integerText_of_int: "integerText (of_int n) = show_int n"
proof -
  have "\<bar>of_int n\<bar> = (of_int \<bar>n\<bar> :: rat)" by simp
  then show ?thesis
    by (simp add: integerText_def show_fixed_def Let_def show_int_def del: of_int_abs)
qed

definition phase_row :: "nat \<Rightarrow> TestPhaseResult \<Rightarrow> string" where
  "phase_row number p =
     setw 7 (show_nat number) @ setw 22 (phaseName p) @ setw 12 (senderRole p) @ setw 12 (receiverRole p) @
     setw 9 (verdict_text (ph_success p)) @
     setw 18 (show_int (totalPacketsSent (senderStats p)) @ '' / '' @ show_int (totalBytesSent (senderStats p))) @
     setw 18 (show_int (totalPacketsReceived (receiverStats p)) @ '' / '' @
       show_int (totalBytesReceived (receiverStats p))) @
     setw 18 (numberText (throughputMbps (receiverStats p))) @
     show_int (failedChecksumCount (receiverStats p)) @ '' / '' @ show_int (sequenceErrorCount (receiverStats p)) @
     '' / '' @ show_int (contentMismatchCount (receiverStats p))"

lemma printPhaseRow_view: "printPhaseRow n (view_phase p) = phase_row n p"
  by (simp add: printPhaseRow_def phase_row_def view_phase_def view_stats_def integerText_of_int slashed_def)

text \<open>
  C37: Asked for a run by result directory, run id and role (in any case of letters), the viewer opens the
  file that ipeftc's controller wrote and accepts it; its exit code is 0 exactly when ipeftc's verdict on
  the run is success, and 1 otherwise; the status line it prints says the same, and the rows of the two
  phases give ipeftc's verdict and counters for each.
\<close>

theorem viewer_summary:
  assumes "r = buildCurrentResult nowIso reason ct" and "toUpper rl = role r" and "dir \<noteq> []" "rid \<noteq> []"
    and "opt_resultDir (ct_runOptions ct) = dir" "opt_runId (ct_runOptions ct) = rid"
    and "file (hd (export_paths (ct_runOptions ct) r)) = Some (dump (TestRunResult_to_json r))"
    and "parse (dump (TestRunResult_to_json r)) = Inr (TestRunResult_to_json r)"
  shows "\<exists>v ls. viewer_main parse file [''--result-dir'', dir, ''--run-id'', rid, ''--role'', rl] =
      (if success r then 0 else 1, Some v) \<and> printSummary v = Inr ls \<and>
    ls ! 1 = ''Status: '' @ verdict_text (success r) \<and>
    phase_row 1 (phase1 r) \<in> set ls \<and> phase_row 2 (phase2 r) \<in> set ls"
proof -
  note * = viewer_finds_file [OF assms(1-6)]
  obtain q where q: "parseOptions [''--result-dir'', dir, ''--run-id'', rid, ''--role'', rl] = Inr q" "\<not> wo_help q"
    "wo_file q = hd (export_paths (ct_runOptions ct) r)" using *(1) by blast
  have fin: "success r \<Longrightarrow> finalState r = ''FINISHED''"
    using assms(1) by (simp add: buildCurrentResult_def stateToString_def Let_def)
  have valid: "validateAndReadResult (TestRunResult_to_json r) = Inr (view_result r)" by (rule validate_result_ok [OF *(2)])
  have main: "viewer_main parse file [''--result-dir'', dir, ''--run-id'', rid, ''--role'', rl] =
      (if success r then 0 else 1, Some (view_result r))"
    using q assms(7,8) valid fin by (auto simp: viewer_main_def loadJsonFile_def view_result_def)
  obtain ls where ls: "printSummary (view_result r) = Inr ls" using printSummary_total [OF valid] by blast
  have "(success r \<and> finalState r = ''FINISHED'') = success r" using fin by blast
  then have "ls ! 1 = ''Status: '' @ verdict_text (success r)"
    using ls by (auto simp: printSummary_def res_bind_eq_Inr Let_def view_result_def)
  moreover have "phase_row 1 (phase1 r) \<in> set ls" "phase_row 2 (phase2 r) \<in> set ls"
    using ls by (auto simp: printSummary_def res_bind_eq_Inr Let_def view_result_def printPhaseRow_view)
  ultimately show ?thesis using main ls by blast
qed

theorem viewer_summary_witness:
  "let r = buildCurrentResult [] [] demo_controller in
   \<exists>v ls. viewer_main (\<lambda>s. Inr (TestRunResult_to_json r))
       (\<lambda>f. if f = ''Results/result-r1-CLIENT.json'' then Some ''{}'' else None)
       [''--result-dir'', ''Results'', ''--run-id'', ''r1'', ''--role'', ''client''] =
     (if success r then 0 else 1, Some v) \<and> printSummary v = Inr ls \<and>
     ls ! 1 = ''Status: '' @ verdict_text (success r) \<and>
     phase_row 1 (phase1 r) \<in> set ls \<and> phase_row 2 (phase2 r) \<in> set ls"
proof -
  have "role (buildCurrentResult [] [] demo_controller) = ''CLIENT''"
    "hd (export_paths (ct_runOptions demo_controller) (buildCurrentResult [] [] demo_controller)) =
      ''Results/result-r1-CLIENT.json''"
    by (simp_all add: buildCurrentResult_def demo_controller_def demo_done_def demo_config_def new_Node_def
        default_Config_def roleString_def export_paths_def default_RunOptions_def path_join_def slash_def Let_def)
  moreover have "toUpper ''client'' = ''CLIENT''" unfolding toUpper_def by code_simp
  ultimately show ?thesis
    unfolding Let_def
    by (intro viewer_summary [where dump = "\<lambda>j. ''{}''" and nowIso = "[]" and reason = "[]" and ct = demo_controller])
      (simp_all add: demo_controller_def default_RunOptions_def)
qed

end
