(* ===== verification/SessionStates.thy ===== *)
theory SessionStates
  imports SessionFacts "HOL-Library.Sublist"
begin

section \<open>The states a session goes through\<close>

text \<open>
  \<open>TestController::transitionTo\<close> and \<open>notifyPhaseComplete\<close> are called all over the two sessions. This theory
  gives, for every suspension point, the state and the phases reported there, and shows that a session
  keeps to them whatever the peer sends, however its bytes are cut, whenever timers fire, sends are cut
  short or the run is cancelled (\<open>session_states\<close>).
\<close>

fun state_at :: "session_point \<Rightarrow> CtlState" where
  "state_at C_Connected = CONNECTING"
| "state_at C_ConfigSent = SENDING_CONFIG"
| "state_at C_GotConfigAck = WAITING_FOR_ACK"
| "state_at C_Generating = RUNNING_TEST"
| "state_at C_Fin1Sent = FINISHING"
| "state_at C_GotFin1 = EXCHANGING_STATS"
| "state_at C_Stats1Sent = EXCHANGING_STATS"
| "state_at C_GotStatsAck1 = EXCHANGING_STATS"
| "state_at C_ReadySent = EXCHANGING_STATS"
| "state_at C_GotFin2 = WAITING_FOR_SERVER_FIN"
| "state_at C_Stats2Sent = EXCHANGING_SERVER_STATS"
| "state_at C_GotStatsAck2 = EXCHANGING_SERVER_STATS"
| "state_at C_ShutdownSent = EXCHANGING_SERVER_STATS"
| "state_at S_Accepted = ACCEPTING"
| "state_at S_GotConfig = WAITING_FOR_CONFIG"
| "state_at S_ConfigAckSent = WAITING_FOR_CONFIG"
| "state_at S_GotFin1 = RUNNING_TEST"
| "state_at S_Fin1Sent = FINISHING"
| "state_at S_GotStats1 = FINISHING"
| "state_at S_StatsAck1Sent = WAITING_FOR_CLIENT_READY"
| "state_at S_GotReady = WAITING_FOR_CLIENT_READY"
| "state_at S_Generating = RUNNING_SERVER_TEST"
| "state_at S_Fin2Sent = SERVER_TEST_FINISHING"
| "state_at S_GotStats2 = SERVER_TEST_FINISHING"
| "state_at S_StatsAck2Sent = WAITING_FOR_SHUTDOWN_ACK"
| "state_at S_GotShutdown = WAITING_FOR_SHUTDOWN_ACK"

fun phases_at :: "session_point \<Rightarrow> nat list" where
  "phases_at C_ReadySent = [1]"
| "phases_at C_GotFin2 = [1]"
| "phases_at C_Stats2Sent = [1]"
| "phases_at C_GotStatsAck2 = [1]"
| "phases_at C_ShutdownSent = [1, 2]"
| "phases_at S_StatsAck1Sent = [1]"
| "phases_at S_GotReady = [1]"
| "phases_at S_Generating = [1]"
| "phases_at S_Fin2Sent = [1]"
| "phases_at S_GotStats2 = [1]"
| "phases_at S_StatsAck2Sent = [1, 2]"
| "phases_at S_GotShutdown = [1, 2]"
| "phases_at _ = []"

text \<open>What a session waits for at each point.\<close>

fun awaited_at :: "session_point \<Rightarrow> session_wait \<Rightarrow> bool" where
  "awaited_at C_Connected w \<longleftrightarrow> (\<exists>ip p. w = W_Connect ip p)"
| "awaited_at S_Accepted w \<longleftrightarrow> w = W_Accept"
| "awaited_at C_GotConfigAck w \<longleftrightarrow> w = W_Message CONFIG_ACK"
| "awaited_at C_GotFin1 w \<longleftrightarrow> w = W_Message TEST_FIN"
| "awaited_at C_GotStatsAck1 w \<longleftrightarrow> w = W_Message STATS_ACK"
| "awaited_at C_GotFin2 w \<longleftrightarrow> w = W_Message TEST_FIN"
| "awaited_at C_GotStatsAck2 w \<longleftrightarrow> w = W_Message STATS_ACK"
| "awaited_at S_GotConfig w \<longleftrightarrow> w = W_Message CONFIG_HANDSHAKE"
| "awaited_at S_GotFin1 w \<longleftrightarrow> w = W_Message TEST_FIN"
| "awaited_at S_GotStats1 w \<longleftrightarrow> w = W_Message STATS_EXCHANGE"
| "awaited_at S_GotReady w \<longleftrightarrow> w = W_Message CLIENT_READY"
| "awaited_at S_GotStats2 w \<longleftrightarrow> w = W_Message STATS_EXCHANGE"
| "awaited_at S_GotShutdown w \<longleftrightarrow> w = W_Message SHUTDOWN_ACK"
| "awaited_at C_Generating w \<longleftrightarrow> (\<exists>p. w = W_Send p) \<or> (\<exists>d. w = W_Delay d)"
| "awaited_at S_Generating w \<longleftrightarrow> (\<exists>p. w = W_Send p) \<or> (\<exists>d. w = W_Delay d)"
| "awaited_at _ w \<longleftrightarrow> (\<exists>p. w = W_Send p)"

text \<open>The session runs, the bus being idle, in state \<open>st\<close> with the phases \<open>ph\<close> reported.\<close>

definition running_in :: "CtlState \<Rightarrow> nat list \<Rightarrow> Node \<Rightarrow> bool" where
  "running_in st ph nd \<longleftrightarrow> (\<exists>f. nd_bus nd = idle_bus f) \<and> nd_state nd = st \<and> nd_phases nd = ph"

definition bus_of_wait :: "session_wait \<Rightarrow> Node \<Rightarrow> bool" where
  "bus_of_wait w nd \<longleftrightarrow>
     (case w of
        W_Message t \<Rightarrow> t \<noteq> DATA_PACKET \<and> (\<exists>tmo f. nd_bus nd = waiting_bus (nd_awaiter nd) t tmo f)
      | _ \<Rightarrow> \<exists>f. nd_bus nd = idle_bus f)"

definition session_ok :: "Node \<Rightarrow> bool" where
  "session_ok nd \<longleftrightarrow> bus_of_wait (nd_wait nd) nd \<and>
     (case nd_wait nd of
        W_Done None \<Rightarrow> nd_state nd = FINISHED \<and> nd_phases nd = [1, 2]
      | W_Done (Some e) \<Rightarrow> nd_state nd = ERRORED \<and> prefix (nd_phases nd) [1, 2]
      | w \<Rightarrow> awaited_at (nd_point nd) w \<and> nd_state nd = state_at (nd_point nd) \<and>
             nd_phases nd = phases_at (nd_point nd))"

text \<open>What a session meets.\<close>

inductive session_event :: "json_parser \<Rightarrow> json_printer \<Rightarrow> Node \<Rightarrow> Node \<Rightarrow> bool" for parse dump where
  connected: "nd_wait nd = W_Connect ip p \<Longrightarrow> session_event parse dump nd (client_connected dump now ok nd)"
| accepted: "nd_wait nd = W_Accept \<Longrightarrow> session_event parse dump nd (server_accepted parse now ok nd)"
| sent: "nd_wait nd = W_Send p \<Longrightarrow> session_event parse dump nd (session_sent parse dump now n nd)"
| delayed: "nd_wait nd = W_Delay d \<Longrightarrow> session_event parse dump nd (session_delayed now nd)"
| received: "session_event parse dump nd (node_receive parse dump now data n nd)"
| timer: "session_event parse dump nd (node_timer parse dump now elapsed nd)"
| cancelled: "session_event parse dump nd (node_cancel parse dump now nd)"

inductive session_reachable :: "json_parser \<Rightarrow> json_printer \<Rightarrow> Node \<Rightarrow> bool" for parse dump where
  client: "session_reachable parse dump (client_run ok (new_Node cfg now))"
| server: "session_reachable parse dump (server_run ok (new_Node cfg now))"
| event: "session_reachable parse dump nd \<Longrightarrow> session_event parse dump nd nd' \<Longrightarrow>
    session_reachable parse dump nd'"

subsection \<open>From one suspension point to the next\<close>

lemma session_throw_ok:
  "running_in st ph nd \<Longrightarrow> prefix ph [1, 2] \<Longrightarrow> session_ok (session_throw e nd)"
  by (auto simp: session_ok_def bus_of_wait_def session_throw_def transitionTo_def running_in_def)

lemma session_fail_ok: "running_in st ph nd \<Longrightarrow> prefix ph [1, 2] \<Longrightarrow> session_ok (session_fail msg nd)"
  by (auto simp: session_ok_def bus_of_wait_def session_throw_def session_fail_def transitionTo_def running_in_def)

lemma session_end_ok: "running_in st [1, 2] nd \<Longrightarrow> session_ok (session_end nd)"
  by (auto simp: session_ok_def bus_of_wait_def session_end_def transitionTo_def running_in_def)

lemma await_point_ok:
  "running_in (state_at pt) (phases_at pt) nd \<Longrightarrow> awaited_at pt w \<Longrightarrow>
   (\<forall>t. w \<noteq> W_Message t) \<Longrightarrow> (\<forall>r. w \<noteq> W_Done r) \<Longrightarrow> session_ok (await_point w pt nd)"
  by (auto simp: session_ok_def bus_of_wait_def await_point_def running_in_def split: session_wait.split)

lemma control_send_ok:
  "running_in (state_at pt) (phases_at pt) nd \<Longrightarrow> awaited_at pt (W_Send (sendControlPacket t payload)) \<Longrightarrow>
   session_ok (control_send t payload pt nd)"
  unfolding control_send_def by (rule await_point_ok) auto

lemma control_wait_ok:
  assumes "running_in (state_at pt) (phases_at pt) nd" "awaited_at pt (W_Message t)" "t \<noteq> DATA_PACKET"
    and "\<And>m nd. running_in (state_at pt) (phases_at pt) nd \<Longrightarrow> session_ok (k m nd)"
  shows "session_ok (control_wait t tmo pt k nd)"
proof -
  obtain f where f: "nd_bus nd = idle_bus f" using assms(1) by (auto simp: running_in_def)
  show ?thesis
  proof (cases "f t")
    case Nil
    show ?thesis
      unfolding control_wait_suspends [OF f Nil]
      using assms(1-3) by (auto simp: session_ok_def bus_of_wait_def await_point_def running_in_def)
  next
    case (Cons m ms)
    show ?thesis
      unfolding control_wait_buffered [OF f Cons]
      by (rule assms(4)) (use assms(1) in \<open>auto simp: running_in_def\<close>)
  qed
qed

lemma generate_ok:
  assumes "running_in (state_at pt) (phases_at pt) nd"
    and "\<And>p. awaited_at pt (W_Send p)" "\<And>d. awaited_at pt (W_Delay d)"
    and "\<And>nd. running_in (state_at pt) (phases_at pt) nd \<Longrightarrow> session_ok (k nd)"
  shows "session_ok (generate pt k wg nd)"
proof -
  obtain w g where wg: "wg = (w, g)" by (cases wg)
  have "running_in (state_at pt) (phases_at pt) (nd\<lparr>nd_generator := g\<rparr>)"
    using assms(1) by (auto simp: running_in_def)
  then show ?thesis
    using assms(2-4) by (cases w) (auto simp: generate_def wg intro!: await_point_ok)
qed

lemma store_stats_ok:
  assumes "running_in st ph nd" "prefix ph [1, 2]"
    and "\<And>s. running_in st ph (store s nd)" "\<And>nd. running_in st ph nd \<Longrightarrow> session_ok (k nd)"
  shows "session_ok (store_stats r store k nd)"
  using assms by (auto simp: store_stats_def intro: session_throw_ok split: sum.split)

lemmas running_simps = running_in_def transitionTo_def notifyPhaseComplete_def start_receiver_def

lemmas point_rules = control_send_ok control_wait_ok generate_ok store_stats_ok session_end_ok session_fail_ok
  session_throw_ok

text \<open>The client, from its last point back.\<close>

lemma client_points_ok:
  "running_in EXCHANGING_SERVER_STATS [1, 2] nd \<Longrightarrow> session_ok (client_shutdown_sent nd)"
  "running_in EXCHANGING_SERVER_STATS [1] nd \<Longrightarrow> session_ok (client_got_ack2 parse m nd)"
  "running_in WAITING_FOR_SERVER_FIN [1] nd \<Longrightarrow> session_ok (client_got_fin2 dump m nd)"
  "running_in EXCHANGING_STATS [] nd \<Longrightarrow> session_ok (client_got_ack1 parse m nd)"
  "running_in EXCHANGING_STATS [] nd \<Longrightarrow> session_ok (client_got_fin1 dump m nd)"
  "running_in RUNNING_TEST [] nd \<Longrightarrow> session_ok (client_generated nd)"
  unfolding client_shutdown_sent_def client_got_ack2_def client_got_fin2_def client_got_ack1_def
    client_got_fin1_def client_generated_def Let_def
  by (auto intro!: point_rules simp: running_simps)

lemma client_waits_ok:
  "running_in EXCHANGING_SERVER_STATS [1] nd \<Longrightarrow> session_ok (client_stats2_sent parse nd)"
  "running_in EXCHANGING_STATS [1] nd \<Longrightarrow> session_ok (client_ready_sent dump now nd)"
  "running_in EXCHANGING_STATS [] nd \<Longrightarrow> session_ok (client_stats1_sent parse nd)"
  "running_in FINISHING [] nd \<Longrightarrow> session_ok (client_fin1_sent dump nd)"
  "running_in WAITING_FOR_ACK [] nd \<Longrightarrow> session_ok (client_got_config_ack now m nd)"
  unfolding client_stats2_sent_def client_ready_sent_def client_stats1_sent_def client_fin1_sent_def
    client_got_config_ack_def Let_def
  by (auto intro!: point_rules client_points_ok simp: running_simps)

lemma client_starts_ok:
  "running_in SENDING_CONFIG [] nd \<Longrightarrow> session_ok (client_config_sent now nd)"
  "running_in CONNECTING [] nd \<Longrightarrow> session_ok (client_connected dump now success nd)"
  "running_in st [] nd \<Longrightarrow> session_ok (client_run initialized nd)"
  unfolding client_config_sent_def client_connected_def client_run_def Let_def
  by (auto intro!: point_rules await_point_ok client_waits_ok simp: running_simps split: prod.split)

text \<open>The server.\<close>

lemma server_points_ok:
  "running_in WAITING_FOR_SHUTDOWN_ACK [1, 2] nd \<Longrightarrow> session_ok (server_got_shutdown m nd)"
  "running_in SERVER_TEST_FINISHING [1] nd \<Longrightarrow> session_ok (server_got_stats2 parse dump m nd)"
  "running_in RUNNING_SERVER_TEST [1] nd \<Longrightarrow> session_ok (server_generated nd)"
  "running_in FINISHING [] nd \<Longrightarrow> session_ok (server_got_stats1 parse dump m nd)"
  "running_in RUNNING_TEST [] nd \<Longrightarrow> session_ok (server_got_fin1 m nd)"
  "running_in WAITING_FOR_CONFIG [] nd \<Longrightarrow> session_ok (server_got_config parse m nd)"
  unfolding server_got_shutdown_def server_got_stats2_def server_generated_def server_got_stats1_def
    server_got_fin1_def server_got_config_def Let_def
  by (auto intro!: point_rules simp: running_simps split: sum.split)

lemma server_waits_ok:
  "running_in WAITING_FOR_SHUTDOWN_ACK [1, 2] nd \<Longrightarrow> session_ok (server_ack2_sent nd)"
  "running_in SERVER_TEST_FINISHING [1] nd \<Longrightarrow> session_ok (server_fin2_sent parse dump nd)"
  "running_in WAITING_FOR_CLIENT_READY [1] nd \<Longrightarrow> session_ok (server_got_ready now m nd)"
  "running_in FINISHING [] nd \<Longrightarrow> session_ok (server_fin1_sent parse dump nd)"
  "running_in WAITING_FOR_CONFIG [] nd \<Longrightarrow> session_ok (server_config_ack_sent now nd)"
  unfolding server_ack2_sent_def server_fin2_sent_def server_got_ready_def server_fin1_sent_def
    server_config_ack_sent_def Let_def
  by (auto intro!: point_rules server_points_ok simp: running_simps)

lemma server_starts_ok:
  "running_in WAITING_FOR_CLIENT_READY [1] nd \<Longrightarrow> session_ok (server_ack1_sent now nd)"
  "running_in ACCEPTING [] nd \<Longrightarrow> session_ok (server_accepted parse now success nd)"
  "running_in st [] nd \<Longrightarrow> session_ok (server_run prepared nd)"
  unfolding server_ack1_sent_def server_accepted_def server_run_def Let_def
  by (auto intro!: point_rules await_point_ok server_points_ok server_waits_ok simp: running_simps
      split: prod.split)

subsection \<open>What resumes a session\<close>

lemma session_message_ok:
  assumes "running_in (state_at (nd_point nd)) (phases_at (nd_point nd)) nd"
    and "awaited_at (nd_point nd) (W_Message t)"
  shows "session_ok (session_message parse dump now m nd)"
  using assms
  by (cases "nd_point nd")
    (simp_all add: session_message_def client_points_ok client_waits_ok client_starts_ok server_points_ok
      server_waits_ok server_starts_ok)

lemma session_sent_ok:
  assumes "running_in (state_at (nd_point nd)) (phases_at (nd_point nd)) nd" and "awaited_at (nd_point nd) (W_Send p)"
  shows "session_ok (session_sent parse dump now n nd)"
  using assms
  by (cases "nd_point nd")
    (auto simp: session_sent_def client_points_ok client_waits_ok client_starts_ok server_points_ok
      server_waits_ok server_starts_ok intro!: generate_ok)

lemma session_delayed_ok:
  assumes "running_in (state_at (nd_point nd)) (phases_at (nd_point nd)) nd" and "awaited_at (nd_point nd) (W_Delay d)"
  shows "session_ok (session_delayed now nd)"
  using assms
  by (cases "nd_point nd") (auto simp: session_delayed_def client_points_ok server_points_ok intro!: generate_ok)

text \<open>Only the bus of a session that is not waiting for a message may change without resuming it.\<close>

lemma idle_bus_ok:
  "session_ok nd \<Longrightarrow> nd_bus nd = idle_bus f \<Longrightarrow> session_ok (nd\<lparr>nd_bus := idle_bus g\<rparr>)"
  by (auto simp: session_ok_def bus_of_wait_def waiting_bus_def idle_bus_def split: session_wait.splits option.splits)

lemma session_ok_bus:
  assumes "session_ok nd"
  obtains f where "nd_bus nd = idle_bus f"
  | t tmo f where "nd_wait nd = W_Message t" "t \<noteq> DATA_PACKET" "nd_bus nd = waiting_bus (nd_awaiter nd) t tmo f"
      "awaited_at (nd_point nd) (W_Message t)" "nd_state nd = state_at (nd_point nd)"
      "nd_phases nd = phases_at (nd_point nd)"
  using assms by (auto simp: session_ok_def bus_of_wait_def split: session_wait.splits)

lemma prefix_phases_at: "prefix (phases_at pt) [1, 2]"
  by (cases pt) auto

lemma node_deliver_data: "messageType h = DATA_PACKET \<Longrightarrow> node_deliver parse dump now h d nd = nd"
  by (cases nd) (simp add: node_deliver_def bus_ops)

lemma node_deliver_ok:
  assumes "session_ok nd"
  shows "session_ok (node_deliver parse dump now h d nd)"
proof (cases "messageType h = DATA_PACKET")
  case False
  from assms show ?thesis
  proof (cases rule: session_ok_bus)
    case (1 f)
    then show ?thesis using idle_bus_ok [OF assms 1] by (simp add: node_deliver_idle [OF 1 False])
  next
    case (2 t tmo f)
    show ?thesis
    proof (cases "messageType h = t")
      case True
      show ?thesis
        unfolding node_deliver_awaited [OF 2(3) 2(2) True]
        by (rule session_message_ok [where t = t]) (use 2 in \<open>auto simp: running_in_def\<close>)
    next
      case other: False
      show ?thesis
        unfolding node_deliver_other [OF 2(3) False other]
        using 2 assms by (auto simp: session_ok_def bus_of_wait_def)
    qed
  qed
qed (use assms in \<open>simp add: node_deliver_data\<close>)

lemma node_timer_ok:
  assumes "session_ok nd"
  shows "session_ok (node_timer parse dump now elapsed nd)"
  using assms
proof (cases rule: session_ok_bus)
  case (1 f)
  then show ?thesis using assms by (simp add: node_timer_idle)
next
  case (2 t tmo f)
  show ?thesis
  proof (cases "tmo > 0 \<and> elapsed \<ge> tmo")
    case True
    then show ?thesis
      unfolding node_timer_awaited [OF 2(3) conjunct1 [OF True] conjunct2 [OF True]]
      by (intro session_throw_ok [of "nd_state nd" "phases_at (nd_point nd)"] prefix_phases_at)
        (use 2 in \<open>auto simp: running_in_def\<close>)
  next
    case False
    then have "node_timer parse dump now elapsed nd = nd"
      using 2(3) by (cases nd) (auto simp: node_timer_def bus_ops waiting_bus_def waiting_awaiter_def Let_def)
    with assms show ?thesis by simp
  qed
qed

lemma canonical_in_all_types:
  assumes "canonical_type t"
  shows "t \<in> set all_types"
proof -
  have "unat (byte_of_type t) \<in> set [0..<256]" using unsigned_less [of "byte_of_type t"] by simp
  moreover have "t = type_of_byte (word_of_nat (unat (byte_of_type t)))" using assms by (simp add: canonical_type_def)
  ultimately show ?thesis unfolding all_types_def set_map by (metis imageI)
qed

lemma pending_awaiters_forms:
  "pending_awaiters (idle_bus f) = []"
  "pending_awaiters (waiting_bus i t tmo f) = (if t \<in> set all_types then [i] else [])"
proof -
  show "pending_awaiters (idle_bus f) = []" by (simp add: pending_awaiters_def idle_bus_def map_filter_def)
  have "List.map_filter [t \<mapsto> i] ts = (if t \<in> set ts then [i] else [])" if "distinct ts" for ts
    using that by (induction ts) (auto simp: map_filter_simps split: option.split)
  then show "pending_awaiters (waiting_bus i t tmo f) = (if t \<in> set all_types then [i] else [])"
    using distinct_all_types by (simp add: pending_awaiters_def waiting_bus_def)
qed

lemma node_cancel_ok:
  assumes "session_ok nd"
  shows "session_ok (node_cancel parse dump now nd)"
  using assms
proof (cases rule: session_ok_bus)
  case (1 f)
  have "node_cancel parse dump now nd = nd\<lparr>nd_bus := idle_bus (\<lambda>_. [])\<rparr>"
    by (simp add: node_cancel_def 1 cancelAll_def pending_awaiters_forms map_filter_def)
      (simp add: bus_clear_def idle_bus_def)
  then show ?thesis using idle_bus_ok [OF assms 1] by simp
next
  case (2 t tmo f)
  have "t \<in> set all_types"
    using 2(4) by (cases "nd_point nd") (auto intro!: canonical_in_all_types)
  then have "node_cancel parse dump now nd = session_throw (Runtime_error ''Operation cancelled.'')
      (nd\<lparr>nd_bus := idle_bus (\<lambda>_. [])\<rparr>)"
    by (simp add: node_cancel_def 2(3) cancelAll_def pending_awaiters_forms map_filter_def)
      (simp add: waiting_bus_def waiting_awaiter_def cancel_awaiter_def set_awaiter_def bus_clear_def
        session_resume_def destroy_awaiter_def await_resume_def idle_bus_def)
  then show ?thesis
    using 2 prefix_phases_at by (auto intro!: session_throw_ok simp: running_in_def)
qed

lemma session_ok_receiver: "session_ok (nd\<lparr>nd_receiver := r\<rparr>) \<longleftrightarrow> session_ok nd"
  "session_ok (nd\<lparr>nd_receiving := b\<rparr>) \<longleftrightarrow> session_ok nd"
  by (simp_all add: session_ok_def bus_of_wait_def split: session_wait.split option.split)

lemma node_receive_ok:
  assumes "session_ok nd"
  shows "session_ok (node_receive parse dump now data n nd)"
proof -
  have "session_ok (fold (dispatch_one upd_receiver (node_deliver parse dump now) now) ps nd)"
    if "session_ok nd" for ps nd
    using that
    by (induction ps arbitrary: nd)
      (auto simp: dispatch_one_def upd_receiver_def session_ok_receiver node_deliver_ok)
  then show ?thesis
    using assms
    by (auto simp: node_receive_def receiver_round_def dispatch_def upd_receiver_def session_ok_receiver Let_def
        split: prod.split)
qed

lemma session_ok_running:
  assumes "session_ok nd" "\<forall>t. nd_wait nd \<noteq> W_Message t" "\<forall>r. nd_wait nd \<noteq> W_Done r"
  shows "running_in (state_at (nd_point nd)) (phases_at (nd_point nd)) nd \<and> awaited_at (nd_point nd) (nd_wait nd)"
  using assms by (auto simp: session_ok_def bus_of_wait_def running_in_def split: session_wait.splits)

lemma session_event_ok:
  assumes "session_event parse dump nd nd'" and "session_ok nd"
  shows "session_ok nd'"
  using assms(1)
proof cases
  case (connected ip p now success)
  with session_ok_running [OF assms(2)] have "running_in CONNECTING [] nd" by (cases "nd_point nd") auto
  then show ?thesis unfolding connected by (rule client_starts_ok)
next
  case (accepted now success)
  with session_ok_running [OF assms(2)] have "running_in ACCEPTING [] nd" by (cases "nd_point nd") auto
  then show ?thesis unfolding accepted by (rule server_starts_ok)
next
  case (sent p now n)
  with session_ok_running [OF assms(2)] session_sent_ok show ?thesis by auto
next
  case (delayed d now)
  with session_ok_running [OF assms(2)] session_delayed_ok show ?thesis by auto
qed (use assms(2) in \<open>simp_all add: node_receive_ok node_timer_ok node_cancel_ok\<close>)

lemma session_reachable_ok: "session_reachable parse dump nd \<Longrightarrow> session_ok nd"
proof (induction rule: session_reachable.induct)
  case (client success cfg now)
  have "running_in (nd_state (new_Node cfg now)) [] (new_Node cfg now)"
    by (auto simp: running_in_def new_Node_def new_MessageBus_def idle_bus_def)
  then show ?case by (rule client_starts_ok)
next
  case (server success cfg now)
  have "running_in (nd_state (new_Node cfg now)) [] (new_Node cfg now)"
    by (auto simp: running_in_def new_Node_def new_MessageBus_def idle_bus_def)
  then show ?case by (rule server_starts_ok)
qed (rule session_event_ok)

text \<open>
  C5: Whatever reaches a session (any bytes from the peer, cut in any way, sends cut short, timers,
  cancellation, failures to connect or accept), its state is at each suspension the one of that point; it
  is FINISHED exactly when the session has ended without an exception, and then phase 1 and phase 2 were
  reported, each once and in this order; it is ERRORED exactly when an exception has ended it; and no
  phase is ever reported twice or out of order.
\<close>

theorem session_states:
  assumes "session_reachable parse dump nd"
  shows "(nd_state nd = FINISHED \<longleftrightarrow> nd_wait nd = W_Done None) \<and>
    (nd_state nd = ERRORED \<longleftrightarrow> (\<exists>e. nd_wait nd = W_Done (Some e))) \<and>
    (nd_state nd = FINISHED \<longrightarrow> nd_phases nd = [1, 2]) \<and> prefix (nd_phases nd) [1, 2] \<and>
    ((\<forall>r. nd_wait nd \<noteq> W_Done r) \<longrightarrow> nd_state nd = state_at (nd_point nd) \<and>
       nd_phases nd = phases_at (nd_point nd) \<and> awaited_at (nd_point nd) (nd_wait nd))"
proof -
  have never: "state_at pt \<noteq> FINISHED" "state_at pt \<noteq> ERRORED" for pt by (cases pt; simp)+
  show ?thesis
    using session_reachable_ok [OF assms] never [of "nd_point nd"] prefix_phases_at [of "nd_point nd"]
    by (auto simp: session_ok_def split: session_wait.splits option.splits)
qed

subsection \<open>Witness\<close>

text \<open>A server whose client connects and then keeps silent.\<close>

definition silent_client :: "time_point \<Rightarrow> Node" where
  "silent_client now = server_accepted (\<lambda>_. Inl (Json_parse_error [])) now True
     (server_run True (new_Node default_Config 0))"

lemma silent_client_reachable:
  "session_reachable (\<lambda>_. Inl (Json_parse_error [])) dump (silent_client now)"
proof -
  let ?parse = "\<lambda>_. Inl (Json_parse_error [])" and ?nd = "server_run True (new_Node default_Config 0)"
  have "session_reachable ?parse dump ?nd" by (rule session_reachable.server)
  moreover have "session_event ?parse dump ?nd (silent_client now)"
    unfolding silent_client_def by (rule session_event.accepted) (simp add: server_run_def await_point_def)
  ultimately show ?thesis by (rule session_reachable.event)
qed

lemma silent_client_wait:
  "nd_wait (silent_client now) = W_Message CONFIG_HANDSHAKE \<and> nd_point (silent_client now) = S_GotConfig \<and>
   nd_bus (silent_client now) = waiting_bus (nd_awaiter (silent_client now)) CONFIG_HANDSHAKE 5000 (\<lambda>_. [])"
proof -
  let ?nd = "transitionTo WAITING_FOR_CONFIG (start_receiver now (server_run True (new_Node default_Config 0)))"
  have bus: "nd_bus ?nd = idle_bus (\<lambda>_. [])"
    by (simp add: transitionTo_def start_receiver_def server_run_def await_point_def new_Node_def split: prod.split)
  show ?thesis
    unfolding silent_client_def server_accepted_def
    by (simp add: control_wait_suspends [OF bus] DEFAULT_TIMEOUT_def) (simp add: await_point_def)
qed

theorem session_states_witness:
  "nd_state (silent_client 1) = WAITING_FOR_CONFIG \<and> nd_phases (silent_client 1) = [] \<and>
   nd_state (node_timer (\<lambda>_. Inl (Json_parse_error [])) (\<lambda>_. []) 2 5000 (silent_client 1)) = ERRORED"
proof -
  let ?parse = "\<lambda>_. Inl (Json_parse_error [])" and ?dump = "\<lambda>_. [] :: string" and ?nd = "silent_client 1"
  note w = silent_client_wait [of 1]
  have "session_reachable ?parse ?dump (node_timer ?parse ?dump 2 5000 ?nd)"
    by (rule session_reachable.event [OF silent_client_reachable session_event.timer])
  moreover have "\<exists>e. nd_wait (node_timer ?parse ?dump 2 5000 ?nd) = W_Done (Some e)"
    using node_timer_awaited [of ?nd CONFIG_HANDSHAKE 5000] w by (simp add: session_throw_def)
  ultimately show ?thesis
    using session_states [OF silent_client_reachable [where now = 1 and dump = ?dump]] w
      session_states [where nd = "node_timer ?parse ?dump 2 5000 ?nd"]
    by auto
qed

end
