(* ===== verification/Verdict.thy ===== *)
theory Verdict
  imports Controller
begin

section \<open>What the verdict on a phase says of the packets received\<close>

text \<open>
  \<open>PacketReceiveStats\<close> counts packet by packet and \<open>TestController::validateReceiverStats\<close> judges the
  counters at the end. This theory joins the two: which sequences of packets and checksum failures the
  verdict accepts (\<open>verdict_sound_complete\<close>).
\<close>

text \<open>The packets (\<open>Some\<close>) and checksum failures (\<open>None\<close>) of a phase, in the order they were handled.\<close>

type_synonym arrivals = "(time_point \<times> ParsedPacket) option list"

definition on_arrival :: "ReceiveStats \<Rightarrow> (time_point \<times> ParsedPacket) option \<Rightarrow> ReceiveStats" where
  "on_arrival s e = (case e of None \<Rightarrow> onChecksumFailure s | Some (t, p) \<Rightarrow> onDataPacket t p s)"

definition on_arrivals :: "arrivals \<Rightarrow> ReceiveStats \<Rightarrow> ReceiveStats" where
  "on_arrivals es s = foldl on_arrival s es"

definition arrived_packets :: "arrivals \<Rightarrow> (time_point \<times> ParsedPacket) list" where
  "arrived_packets es = map the (filter (\<lambda>e. e \<noteq> None) es)"

lemma on_arrivals_simps [simp]:
  "on_arrivals [] s = s" "on_arrivals (None # es) s = on_arrivals es (onChecksumFailure s)"
  "on_arrivals (Some (t, p) # es) s = on_arrivals es (onDataPacket t p s)"
  "arrived_packets [] = []" "arrived_packets (None # es) = arrived_packets es"
  "arrived_packets (Some e # es) = e # arrived_packets es"
  by (simp_all add: on_arrivals_def on_arrival_def arrived_packets_def)

text \<open>A checksum failure touches its own counter only.\<close>

lemma failure_commutes: "onDataPacket t p (onChecksumFailure s) = onChecksumFailure (onDataPacket t p s)"
  by (simp add: onDataPacket_def onChecksumFailure_def Let_def)

lemma on_packets_failure: "on_packets ps (onChecksumFailure s) = onChecksumFailure (on_packets ps s)"
  by (induction ps arbitrary: s) (auto simp: failure_commutes)

lemma on_arrivals_packets:
  "on_arrivals es s = (onChecksumFailure ^^ count_list es None) (on_packets (arrived_packets es) s)"
proof (induction es arbitrary: s)
  case (Cons e es)
  then show ?case
    by (cases e) (auto simp: on_packets_failure funpow_swap1)
qed simp

lemma failures_fields:
  "rs_failedChecksumCount ((onChecksumFailure ^^ n) s) = rs_failedChecksumCount s + int n"
  "rs_totalPacketsReceived ((onChecksumFailure ^^ n) s) = rs_totalPacketsReceived s"
  "rs_totalBytesReceived ((onChecksumFailure ^^ n) s) = rs_totalBytesReceived s"
  "rs_sequenceErrorCount ((onChecksumFailure ^^ n) s) = rs_sequenceErrorCount s"
  "rs_contentMismatchCount ((onChecksumFailure ^^ n) s) = rs_contentMismatchCount s"
  by (induction n) (simp_all add: onChecksumFailure_def)

lemma rs_snapshot_counts:
  "totalPacketsReceived (rs_snapshot s) = rs_totalPacketsReceived s"
  "totalBytesReceived (rs_snapshot s) = rs_totalBytesReceived s"
  "failedChecksumCount (rs_snapshot s) = rs_failedChecksumCount s"
  "sequenceErrorCount (rs_snapshot s) = rs_sequenceErrorCount s"
  "contentMismatchCount (rs_snapshot s) = rs_contentMismatchCount s"
  by (simp_all add: rs_snapshot_def Let_def)

text \<open>What the sender should have sent: the packets numbered from 0, each with the payload of its number.\<close>

definition as_sent :: "(time_point \<times> ParsedPacket) list \<Rightarrow> bool" where
  "as_sent ps \<longleftrightarrow> (\<forall>i < length ps. packetCounter (pkt_header (snd (ps ! i))) = word_of_nat i \<and>
     pkt_payload (snd (ps ! i)) = buildExpectedPayload (word_of_nat i) (length (pkt_payload (snd (ps ! i)))))"

lemma counters_from_0:
  "counters ps = map word_of_nat [0..<length ps] \<longleftrightarrow>
    (\<forall>i < length ps. packetCounter (pkt_header (snd (ps ! i))) = word_of_nat i)"
  by (simp add: counters_def list_eq_iff_nth_eq [of "map _ _"] case_prod_unfold)

lemma content_mismatch_parsed:
  assumes "length (pkt_payload p) = unat (payloadSize (pkt_header p))"
  shows "content_mismatch p \<longleftrightarrow>
    pkt_payload p \<noteq> buildExpectedPayload (packetCounter (pkt_header p)) (length (pkt_payload p))"
  using assms by (simp add: content_mismatch_def)

text \<open>
  C6: Whatever packets and checksum failures arrive in a phase, and in whatever order, the verdict on
  the phase is empty exactly when no checksum failed, the packets are as many as configured, they are
  those numbered 0, 1, 2, ... in order, each with the payload of its number, and their sizes add up to
  the bytes configured. (The parser gives each packet as many payload bytes as its header says.)
\<close>

theorem verdict_sound_complete:
  assumes "0 < numPackets cfg" and "0 < packetSize cfg"
    and "\<forall>e \<in> set (arrived_packets es).
      length (pkt_payload (snd e)) = unat (payloadSize (pkt_header (snd e)))"
  shows "validateReceiverStats (rs_snapshot (on_arrivals es (rs_reset t))) cfg = [] \<longleftrightarrow>
    None \<notin> set es \<and> int (length es) = numPackets cfg \<and> as_sent (map the es) \<and>
    int (\<Sum>e \<leftarrow> map the es. pkt_totalPacketSize (snd e)) = packetSize cfg * numPackets cfg"
proof -
  let ?ps = "arrived_packets es"
  let ?s = "on_packets ?ps (rs_reset t)"
  have all: "?ps = map the es" if "None \<notin> set es"
  proof -
    have "filter (\<lambda>e. e \<noteq> None) es = es" using that by (intro filter_True ballI) metis
    then show ?thesis by (simp add: arrived_packets_def)
  qed
  have mismatch: "rs_contentMismatchCount ?s = int (length (filter (\<lambda>(t, p). content_mismatch p) ?ps))"
    "filter (\<lambda>(t, p). content_mismatch p) ?ps = [] \<longleftrightarrow> (\<forall>i < length ?ps. \<not> content_mismatch (snd (?ps ! i)))"
    by (simp add: on_packets_mismatches)
      (simp add: filter_empty_conv case_prod_unfold all_set_conv_all_nth del: not_None_eq)
  have parsed: "content_mismatch (snd (?ps ! i)) \<longleftrightarrow> pkt_payload (snd (?ps ! i)) \<noteq>
      buildExpectedPayload (packetCounter (pkt_header (snd (?ps ! i)))) (length (pkt_payload (snd (?ps ! i))))"
    if "i < length ?ps" for i
    using assms(3) that by (intro content_mismatch_parsed) (metis nth_mem)
  have order: "rs_sequenceErrorCount ?s = 0 \<longleftrightarrow>
      (\<forall>i < length ?ps. packetCounter (pkt_header (snd (?ps ! i))) = word_of_nat i)"
    using no_sequence_errors_iff [of ?ps t] unfolding counters_from_0 rs_snapshot_counts .
  have "rs_sequenceErrorCount ?s \<le> 0 \<and> rs_contentMismatchCount ?s \<le> 0 \<longleftrightarrow> as_sent ?ps"
  proof -
    have "rs_sequenceErrorCount ?s \<ge> 0" by (simp add: on_packets_sequence)
    then have "rs_sequenceErrorCount ?s \<le> 0 \<longleftrightarrow> rs_sequenceErrorCount ?s = 0" by linarith
    moreover have "rs_contentMismatchCount ?s \<le> 0 \<longleftrightarrow> filter (\<lambda>(t, p). content_mismatch p) ?ps = []"
      unfolding mismatch(1) by simp
    ultimately show ?thesis
      unfolding as_sent_def order mismatch(2) using parsed by metis
  qed
  moreover have "validateReceiverStats (rs_snapshot (on_arrivals es (rs_reset t))) cfg = [] \<longleftrightarrow>
      rs_totalPacketsReceived ?s = numPackets cfg \<and> rs_totalBytesReceived ?s = packetSize cfg * numPackets cfg \<and>
      None \<notin> set es \<and> rs_sequenceErrorCount ?s \<le> 0 \<and> rs_contentMismatchCount ?s \<le> 0"
    using assms(1) unfolding validate_ok_lemma [OF assms(2)] counts_ok_def rs_snapshot_counts on_arrivals_packets
      failures_fields
    by (simp add: count_list_0_iff)
  moreover have "rs_totalPacketsReceived ?s = int (length ?ps)"
    "rs_totalBytesReceived ?s = int (\<Sum>e \<leftarrow> ?ps. pkt_totalPacketSize (snd e))"
    by (simp_all add: on_packets_packets on_packets_bytes case_prod_unfold)
  ultimately show ?thesis using all by (metis length_map)
qed

subsection \<open>Witness\<close>

text \<open>Two packets of 20 bytes in order, and the first one repeated.\<close>

definition vw_packet :: "32 word \<Rightarrow> ParsedPacket" where
  "vw_packet k = \<lparr>pkt_header = \<lparr>startCode = PROTOCOL_START_CODE, senderId = 0, receiverId = 0,
     messageType = DATA_PACKET, packetCounter = k, payloadSize = 3, checksum = 0\<rparr>,
     pkt_payload = buildExpectedPayload k 3, pkt_totalPacketSize = 20\<rparr>"

definition vw_config :: Config where
  "vw_config = default_Config\<lparr>numPackets := 2, packetSize := 20\<rparr>"

theorem verdict_sound_complete_witness:
  "validateReceiverStats (rs_snapshot (on_arrivals [Some (5, vw_packet 0), Some (6, vw_packet 1)] (rs_reset 4)))
     vw_config = [] \<and>
   validateReceiverStats (rs_snapshot (on_arrivals [Some (5, vw_packet 0), Some (6, vw_packet 0)] (rs_reset 4)))
     vw_config \<noteq> []"
proof -
  have cfg: "0 < numPackets vw_config" "0 < packetSize vw_config" by (simp_all add: vw_config_def)
  have good: "as_sent [(5, vw_packet 0), (6, vw_packet 1)]"
    by (auto simp: as_sent_def vw_packet_def less_Suc_eq)
  have bad: "\<not> as_sent [(5, vw_packet 0), (6, vw_packet 0)]"
    by (auto simp: as_sent_def vw_packet_def)
  show ?thesis
    by (subst verdict_sound_complete [OF cfg], simp add: vw_packet_def,
        subst verdict_sound_complete [OF cfg], simp add: vw_packet_def)
      (use good bad in \<open>simp add: vw_config_def, simp add: vw_packet_def\<close>)
qed

end
