(* ===== verification/Coroutine.thy ===== *)
theory Coroutine
  imports Prelude "HOL-Library.While_Combinator"
begin

section \<open>Tasks\<close>

text \<open>
  \<open>MyIperf/include/myiperf/CoroutineSupport.h\<close>: the coroutine type \<open>Task\<close>, on a machine of coroutine
  frames. The body of a coroutine is what the programs write: it returns, throws, waits for something
  outside (an awaiter of the network, the bus or a delay, resumed later with an answer), or awaits another
  task and goes on with the exception that task has left, if any. Frames are numbered; \<open>co_fault\<close> is set
  when a frame that does not exist, or has finished, is resumed. The main fact: nested tasks behave as if
  each awaited body were written in the place of its \<open>co_await\<close> (\<open>tasks_run_nested\<close>). This is how the models
  of the sessions treat their sub-tasks.
\<close>

datatype ('w, 'r) body =
    Co_return
  | Co_throw exn
  | Co_external 'w "'r \<Rightarrow> ('w, 'r) body"
  | Co_task "('w, 'r) body" "exn option \<Rightarrow> ('w, 'r) body"

text \<open>Where a frame is suspended: at the beginning or in its body, or at one of the two kinds of \<open>co_await\<close>.\<close>

datatype ('w, 'r) frame_point =
    At_body "('w, 'r) body"
  | In_external "'r \<Rightarrow> ('w, 'r) body"
  | In_task nat "exn option \<Rightarrow> ('w, 'r) body"

record promise =
  pr_continuation :: "nat option"
  pr_exception :: "exn option"

record ('w, 'r) frame =
  fr_promise :: promise
  fr_point :: "('w, 'r) frame_point"
  fr_done :: bool

record ('w, 'r) machine =
  co_frames :: "nat \<Rightarrow> ('w, 'r) frame option"
  co_next :: nat
  co_waiting :: "('w \<times> nat) option"
  co_fault :: bool

definition new_machine :: "('w, 'r) machine" where
  "new_machine = \<lparr>co_frames = (\<lambda>h. None), co_next = 0, co_waiting = None, co_fault = False\<rparr>"

definition set_frame :: "nat \<Rightarrow> ('w, 'r) frame \<Rightarrow> ('w, 'r) machine \<Rightarrow> ('w, 'r) machine" where
  "set_frame h f M = M\<lparr>co_frames := (co_frames M)(h := Some f)\<rparr>"

text \<open>Calling a coroutine: \<open>get_return_object\<close>, then \<open>initial_suspend\<close>. The handle is the old \<open>co_next\<close>.\<close>

definition call_coroutine :: "nat option \<Rightarrow> ('w, 'r) body \<Rightarrow> ('w, 'r) machine \<Rightarrow> ('w, 'r) machine" where
  "call_coroutine parent b M =
     (set_frame (co_next M) \<lparr>fr_promise = \<lparr>pr_continuation = parent, pr_exception = None\<rparr>, fr_point = At_body b,
        fr_done = False\<rparr> M)\<lparr>co_next := Suc (co_next M)\<rparr>"

text \<open>The destructor of \<open>Task\<close>.\<close>

definition destroy_task :: "nat \<Rightarrow> ('w, 'r) machine \<Rightarrow> ('w, 'r) machine" where
  "destroy_task h M = M\<lparr>co_frames := (co_frames M)(h := None)\<rparr>"

datatype control = Running nat | Stopped

text \<open>\<open>final_suspend\<close>: the frame is done, and the continuation runs next if there is one.\<close>

definition final_suspend :: "nat \<Rightarrow> exn option \<Rightarrow> ('w, 'r) frame \<Rightarrow> ('w, 'r) machine \<Rightarrow> control \<times> ('w, 'r) machine" where
  "final_suspend h e f M =
     (case pr_continuation (fr_promise f) of None \<Rightarrow> Stopped | Some p \<Rightarrow> Running p,
      set_frame h (f\<lparr>fr_done := True, fr_promise := (fr_promise f)\<lparr>pr_exception := e\<rparr>\<rparr>) M)"

text \<open>One step of the coroutine that runs; in the end, none does.\<close>

fun co_step :: "control \<times> ('w, 'r) machine \<Rightarrow> control \<times> ('w, 'r) machine" where
  "co_step (Stopped, M) = (Stopped, M)"
| "co_step (Running h, M) =
     (case co_frames M h of
        None \<Rightarrow> (Stopped, M\<lparr>co_fault := True\<rparr>)
      | Some f \<Rightarrow>
          if fr_done f then (Stopped, M\<lparr>co_fault := True\<rparr>)
          else (case fr_point f of
              At_body Co_return \<Rightarrow> final_suspend h None f M
            | At_body (Co_throw e) \<Rightarrow> final_suspend h (Some e) f M
            | At_body (Co_external w k) \<Rightarrow>
                (Stopped, (set_frame h (f\<lparr>fr_point := In_external k\<rparr>) M)\<lparr>co_waiting := Some (w, h)\<rparr>)
            | At_body (Co_task b k) \<Rightarrow>
                (Running (co_next M),
                 call_coroutine (Some h) b (set_frame h (f\<lparr>fr_point := In_task (co_next M) k\<rparr>) M))
            | In_external k \<Rightarrow> (Stopped, M\<lparr>co_fault := True\<rparr>)
            | In_task c k \<Rightarrow>
                (case co_frames M c of
                   None \<Rightarrow> (Stopped, M\<lparr>co_fault := True\<rparr>)
                 | Some cf \<Rightarrow>
                     (Running h, destroy_task c
                        (set_frame h (f\<lparr>fr_point := At_body (k (pr_exception (fr_promise cf)))\<rparr>) M)))))"

text \<open>\<open>coroutine_handle::resume\<close> returns when no coroutine runs any more; \<open>None\<close> if that never happens.\<close>

definition resume :: "nat \<Rightarrow> ('w, 'r) machine \<Rightarrow> ('w, 'r) machine option" where
  "resume h M = map_option snd (while_option (\<lambda>(c, M). c \<noteq> Stopped) co_step (Running h, M))"

text \<open>\<open>Task::start\<close> of a root task.\<close>

definition start_task :: "nat \<Rightarrow> ('w, 'r) machine \<Rightarrow> ('w, 'r) machine option" where
  "start_task h M =
     (case co_frames M h of
        None \<Rightarrow> Some M
      | Some f \<Rightarrow> if fr_done f then Some M else resume h M)"

text \<open>The answer to what is waited for arrives: the callback stores it and resumes the coroutine.\<close>

definition answer :: "'r \<Rightarrow> ('w, 'r) machine \<Rightarrow> ('w, 'r) machine option" where
  "answer r M =
     (case co_waiting M of
        None \<Rightarrow> Some M
      | Some (w, h) \<Rightarrow>
          (case co_frames M h of
             None \<Rightarrow> Some (M\<lparr>co_waiting := None, co_fault := True\<rparr>)
           | Some f \<Rightarrow>
               (case fr_point f of
                  In_external k \<Rightarrow> resume h ((set_frame h (f\<lparr>fr_point := At_body (k r)\<rparr>) M)\<lparr>co_waiting := None\<rparr>)
                | _ \<Rightarrow> Some (M\<lparr>co_waiting := None, co_fault := True\<rparr>))))"

fun drive :: "'r list \<Rightarrow> ('w, 'r) machine \<Rightarrow> ('w, 'r) machine option" where
  "drive [] M = Some M"
| "drive (r # rs) M = Option.bind (answer r M) (drive rs)"

subsection \<open>The same program without tasks\<close>

datatype ('w, 'r) flat =
    Flat_done "exn option"
  | Flat_external 'w "'r \<Rightarrow> ('w, 'r) flat"

text \<open>The body in the place where it is awaited, \<open>c\<close> being what follows.\<close>

primrec inline :: "('w, 'r) body \<Rightarrow> (exn option \<Rightarrow> ('w, 'r) flat) \<Rightarrow> ('w, 'r) flat" where
  "inline Co_return c = c None"
| "inline (Co_throw e) c = c (Some e)"
| "inline (Co_external w k) c = Flat_external w (\<lambda>r. inline (k r) c)"
| "inline (Co_task b k) c = inline b (\<lambda>e. inline (k e) c)"

fun flat_after :: "'r list \<Rightarrow> ('w, 'r) flat \<Rightarrow> ('w, 'r) flat" where
  "flat_after (r # rs) (Flat_external w k) = flat_after rs (k r)"
| "flat_after _ p = p"

subsection \<open>The frames behind a running coroutine\<close>

text \<open>The coroutines that await the running one, innermost first, with what each does afterwards.\<close>

type_synonym ('w, 'r) ancestors = "(nat \<times> (exn option \<Rightarrow> ('w, 'r) body)) list"

definition continuation_of :: "('w, 'r) ancestors \<Rightarrow> nat option" where
  "continuation_of A = (case A of [] \<Rightarrow> None | (p, k) # _ \<Rightarrow> Some p)"

fun after_all :: "('w, 'r) ancestors \<Rightarrow> exn option \<Rightarrow> ('w, 'r) flat" where
  "after_all [] e = Flat_done e"
| "after_all ((p, k) # A) e = inline (k e) (after_all A)"

definition live_frame :: "('w, 'r) machine \<Rightarrow> nat \<Rightarrow> ('w, 'r) ancestors \<Rightarrow> ('w, 'r) frame_point \<Rightarrow> bool" where
  "live_frame M h A pt \<longleftrightarrow> co_frames M h =
     Some \<lparr>fr_promise = \<lparr>pr_continuation = continuation_of A, pr_exception = None\<rparr>, fr_point = pt, fr_done = False\<rparr>"

fun ancestors_ok :: "('w, 'r) machine \<Rightarrow> nat \<Rightarrow> ('w, 'r) ancestors \<Rightarrow> bool" where
  "ancestors_ok M h [] \<longleftrightarrow> True"
| "ancestors_ok M h ((p, k) # A) \<longleftrightarrow> live_frame M p A (In_task h k) \<and> ancestors_ok M p A"

text \<open>The machine holds these frames and no other, and \<open>base\<close> is the outermost.\<close>

definition stack_ok :: "nat \<Rightarrow> ('w, 'r) machine \<Rightarrow> nat \<Rightarrow> ('w, 'r) ancestors \<Rightarrow> bool" where
  "stack_ok base M h A \<longleftrightarrow> ancestors_ok M h A \<and> distinct (h # map fst A) \<and> last (h # map fst A) = base \<and>
     dom (co_frames M) = set (h # map fst A) \<and> (\<forall>x \<in> set (h # map fst A). x < co_next M) \<and> \<not> co_fault M"

text \<open>What a stopped machine shows of the program without tasks.\<close>

definition observes :: "nat \<Rightarrow> ('w, 'r) flat \<Rightarrow> ('w, 'r) machine \<Rightarrow> bool" where
  "observes base p M \<longleftrightarrow>
     (case p of
        Flat_done e \<Rightarrow> co_waiting M = None \<and> \<not> co_fault M \<and> dom (co_frames M) = {base} \<and>
          (\<exists>f. co_frames M base = Some f \<and> fr_done f \<and> pr_exception (fr_promise f) = e)
      | Flat_external w k \<Rightarrow> (\<exists>h A j. co_waiting M = Some (w, h) \<and> stack_ok base M h A \<and>
          live_frame M h A (In_external j) \<and> k = (\<lambda>r. inline (j r) (after_all A))))"

definition reaches :: "control \<times> ('w, 'r) machine \<Rightarrow> ('w, 'r) machine \<Rightarrow> bool" where
  "reaches s M \<longleftrightarrow> (\<exists>n. (co_step ^^ n) s = (Stopped, M))"

lemma reaches_step: "co_step s = s' \<Longrightarrow> reaches s' M \<Longrightarrow> reaches s M"
  unfolding reaches_def by (metis comp_apply funpow_Suc_right)

lemma reaches_stopped: "reaches (Stopped, M) M"
  unfolding reaches_def by (rule exI [of _ 0]) simp

lemma stopped_stays: "(co_step ^^ n) (Stopped, M) = (Stopped, M)"
  by (induction n) auto

text \<open>Reaching a stop is what \<open>resume\<close> computes.\<close>

lemma steps_while:
  "(co_step ^^ n) s = (Stopped, M') \<Longrightarrow> while_option (\<lambda>(c, M). c \<noteq> Stopped) co_step s = Some (Stopped, M')"
proof (induction n arbitrary: s)
  case 0
  then show ?case by (simp add: while_option_unfold)
next
  case (Suc n)
  show ?case
  proof (cases "fst s = Stopped")
    case True
    then have "s = (Stopped, M')" using Suc.prems stopped_stays [of "Suc n" "snd s"] by (cases s) auto
    then show ?thesis by (simp add: while_option_unfold)
  next
    case False
    have "(co_step ^^ n) (co_step s) = (Stopped, M')" using Suc.prems by (simp add: funpow_swap1)
    from Suc.IH [OF this] False show ?thesis by (subst while_option_unfold) (simp add: case_prod_unfold)
  qed
qed

lemma reaches_resume: "reaches (Running h, M) M' \<Longrightarrow> resume h M = Some M'"
  using steps_while by (fastforce simp: resume_def reaches_def)

lemma ancestors_ok_cong:
  "(\<And>p. p \<in> fst ` set A \<Longrightarrow> co_frames M p = co_frames M' p) \<Longrightarrow> ancestors_ok M h A = ancestors_ok M' h A"
  by (induction A arbitrary: h) (auto simp: live_frame_def)

lemma set_frame_fields [simp]:
  "co_frames (set_frame h f M) = (co_frames M)(h := Some f)" "co_next (set_frame h f M) = co_next M"
  "co_waiting (set_frame h f M) = co_waiting M" "co_fault (set_frame h f M) = co_fault M"
  by (simp_all add: set_frame_def)

subsection \<open>Running to the next stop\<close>

definition runs_to :: "nat \<Rightarrow> ('w, 'r) body \<Rightarrow> ('w, 'r) ancestors \<Rightarrow> bool" where
  "runs_to base b A \<longleftrightarrow> (\<forall>M h. stack_ok base M h A \<longrightarrow> live_frame M h A (At_body b) \<longrightarrow> co_waiting M = None \<longrightarrow>
     (\<exists>M'. reaches (Running h, M) M' \<and> observes base (inline b (after_all A)) M'))"

text \<open>A coroutine that has finished hands over to the one that awaits it.\<close>

definition hands_over :: "nat \<Rightarrow> ('w, 'r) ancestors \<Rightarrow> bool" where
  "hands_over base A \<longleftrightarrow> (\<forall>M h f e. stack_ok base M h A \<longrightarrow> co_frames M h = Some f \<longrightarrow> fr_done f \<longrightarrow>
     pr_exception (fr_promise f) = e \<longrightarrow> co_waiting M = None \<longrightarrow>
     (\<exists>M'. reaches (case continuation_of A of None \<Rightarrow> Stopped | Some p \<Rightarrow> Running p, M) M' \<and>
        observes base (after_all A e) M'))"

lemma hands_over_Nil: "hands_over base ([] :: ('w, 'r) ancestors)"
  unfolding hands_over_def
proof (intro allI impI)
  fix M h f e
  assume a: "stack_ok base M h ([] :: ('w, 'r) ancestors)" "co_frames M h = Some f" "fr_done f"
    "pr_exception (fr_promise f) = e" "co_waiting M = None"
  then have "observes base (after_all [] e) M" by (auto simp: observes_def stack_ok_def)
  then show "\<exists>M'. reaches (case continuation_of ([] :: ('w, 'r) ancestors) of None \<Rightarrow> Stopped | Some p \<Rightarrow> Running p, M) M' \<and>
      observes base (after_all [] e) M'"
    using reaches_stopped by (auto simp: continuation_of_def)
qed

lemma hands_over_Cons:
  assumes "\<And>e. runs_to base (k e) A"
  shows "hands_over base ((p, k) # A)"
  unfolding hands_over_def
proof (intro allI impI)
  fix M :: "('a, 'b) machine" and h f e
  assume a: "stack_ok base M h ((p, k) # A)" "co_frames M h = Some f" "fr_done f"
    "pr_exception (fr_promise f) = e" "co_waiting M = None"
  let ?pf = "\<lparr>fr_promise = \<lparr>pr_continuation = continuation_of A, pr_exception = None\<rparr>, fr_point = In_task h k,
    fr_done = False\<rparr>"
  let ?M = "destroy_task h (set_frame p (?pf\<lparr>fr_point := At_body (k e)\<rparr>) M)"
  have p: "co_frames M p = Some ?pf" "p \<noteq> h" "h \<notin> fst ` set A" "p \<notin> fst ` set A" "ancestors_ok M p A"
    using a(1) by (auto simp: stack_ok_def live_frame_def)
  have step: "co_step (Running p, M) = (Running p, ?M)"
    using p(1,2) a(2,4) by simp
  have "ancestors_ok ?M p A = ancestors_ok M p A"
    by (rule ancestors_ok_cong) (use p(3,4) in \<open>auto simp: destroy_task_def\<close>)
  then have "stack_ok base ?M p A"
    using a(1) p by (auto simp: stack_ok_def destroy_task_def split: if_splits)
  moreover have "live_frame ?M p A (At_body (k e))"
    using p(2) by (simp add: live_frame_def destroy_task_def)
  moreover have "co_waiting ?M = None" using a(5) by (simp add: destroy_task_def)
  ultimately obtain M' where "reaches (Running p, ?M) M'" "observes base (inline (k e) (after_all A)) M'"
    using assms [of e] unfolding runs_to_def by blast
  with reaches_step [OF step]
  show "\<exists>M'. reaches (case continuation_of ((p, k) # A) of None \<Rightarrow> Stopped | Some p \<Rightarrow> Running p, M) M' \<and>
      observes base (after_all ((p, k) # A) e) M'"
    by (auto simp: continuation_of_def)
qed

lemma finish_hands_over:
  assumes "hands_over base A" and "stack_ok base M h A" and "co_waiting M = None"
    and "live_frame M h A (At_body b)" and "co_step (Running h, M) = final_suspend h e
      \<lparr>fr_promise = \<lparr>pr_continuation = continuation_of A, pr_exception = None\<rparr>, fr_point = At_body b, fr_done = False\<rparr> M"
  shows "\<exists>M'. reaches (Running h, M) M' \<and> observes base (after_all A e) M'"
proof -
  let ?f = "\<lparr>fr_promise = \<lparr>pr_continuation = continuation_of A, pr_exception = e\<rparr>, fr_point = At_body b, fr_done = True\<rparr>"
  let ?M = "set_frame h ?f M"
  have step: "co_step (Running h, M) =
      (case continuation_of A of None \<Rightarrow> Stopped | Some p \<Rightarrow> Running p, ?M)"
    unfolding assms(5) by (simp add: final_suspend_def)
  have "ancestors_ok ?M h A = ancestors_ok M h A"
    by (rule ancestors_ok_cong) (use assms(2) in \<open>auto simp: stack_ok_def\<close>)
  then have "stack_ok base ?M h A" using assms(2) by (auto simp: stack_ok_def)
  then have "\<exists>M'. reaches (case continuation_of A of None \<Rightarrow> Stopped | Some p \<Rightarrow> Running p, ?M) M' \<and>
      observes base (after_all A e) M'"
    using assms(1,3) unfolding hands_over_def by (elim allE [of _ ?M] allE [of _ h] allE [of _ ?f]) simp
  then show ?thesis using reaches_step [OF step] by blast
qed

lemma runs_body: "hands_over base A \<Longrightarrow> runs_to base b A"
proof (induction b arbitrary: A)
  case Co_return
  then show ?case
    unfolding runs_to_def
    by (auto simp: live_frame_def intro!: finish_hands_over [where b = Co_return])
next
  case (Co_throw e)
  then show ?case
    unfolding runs_to_def
    by (auto simp: live_frame_def intro!: finish_hands_over [where b = "Co_throw e"])
next
  case (Co_external w k)
  show ?case
    unfolding runs_to_def
  proof (intro allI impI)
    fix M :: "('a, 'b) machine" and h
    assume a: "stack_ok base M h A" "live_frame M h A (At_body (Co_external w k))" "co_waiting M = None"
    let ?f = "\<lparr>fr_promise = \<lparr>pr_continuation = continuation_of A, pr_exception = None\<rparr>, fr_point = In_external k,
      fr_done = False\<rparr>"
    let ?M = "(set_frame h ?f M)\<lparr>co_waiting := Some (w, h)\<rparr>"
    have step: "co_step (Running h, M) = (Stopped, ?M)" using a(2) by (simp add: live_frame_def)
    have "ancestors_ok ?M h A = ancestors_ok M h A"
      by (rule ancestors_ok_cong) (use a(1) in \<open>auto simp: stack_ok_def\<close>)
    then have "stack_ok base ?M h A" using a(1) by (auto simp: stack_ok_def)
    moreover have "live_frame ?M h A (In_external k)" by (simp add: live_frame_def)
    ultimately have "observes base (inline (Co_external w k) (after_all A)) ?M" by (auto simp: observes_def)
    then show "\<exists>M'. reaches (Running h, M) M' \<and> observes base (inline (Co_external w k) (after_all A)) M'"
      using reaches_step [OF step reaches_stopped] by blast
  qed
next
  case (Co_task b k)
  have over: "hands_over base ((h, k) # A)" for h
    by (rule hands_over_Cons) (use Co_task in auto)
  show ?case
    unfolding runs_to_def
  proof (intro allI impI)
    fix M :: "('a, 'b) machine" and h
    assume a: "stack_ok base M h A" "live_frame M h A (At_body (Co_task b k))" "co_waiting M = None"
    let ?c = "co_next M"
    let ?f = "\<lparr>fr_promise = \<lparr>pr_continuation = continuation_of A, pr_exception = None\<rparr>, fr_point = In_task ?c k,
      fr_done = False\<rparr>"
    let ?M = "call_coroutine (Some h) b (set_frame h ?f M)"
    have step: "co_step (Running h, M) = (Running ?c, ?M)" using a(2) by (simp add: live_frame_def)
    have new: "?c \<noteq> h" "?c \<notin> fst ` set A" using a(1) by (auto simp: stack_ok_def)
    have "ancestors_ok ?M h A = ancestors_ok M h A"
      by (rule ancestors_ok_cong) (use a(1) new in \<open>auto simp: stack_ok_def call_coroutine_def\<close>)
    then have "stack_ok base ?M ?c ((h, k) # A)"
      using a(1) new by (auto simp: stack_ok_def live_frame_def call_coroutine_def less_SucI)
    moreover have "live_frame ?M ?c ((h, k) # A) (At_body b)"
      by (simp add: live_frame_def call_coroutine_def continuation_of_def)
    moreover have "co_waiting ?M = None" using a(3) by (simp add: call_coroutine_def)
    ultimately obtain M' where "reaches (Running ?c, ?M) M'" "observes base (inline b (after_all ((h, k) # A))) M'"
      using Co_task.IH(1) [OF over] unfolding runs_to_def by blast
    moreover have "after_all ((h, k) # A) = (\<lambda>e. inline (k e) (after_all A))" by (rule ext) simp
    ultimately show "\<exists>M'. reaches (Running h, M) M' \<and> observes base (inline (Co_task b k) (after_all A)) M'"
      using reaches_step [OF step] by auto
  qed
qed

lemma every_body_runs: "runs_to base b A"
proof -
  have "hands_over base A"
  proof (induction A)
    case (Cons a A)
    then show ?case by (cases a) (simp add: hands_over_Cons runs_body)
  qed (rule hands_over_Nil)
  then show ?thesis by (rule runs_body)
qed

lemma start_observes:
  "\<exists>M. start_task 0 (call_coroutine None b new_machine) = Some M \<and> observes 0 (inline b Flat_done) M"
proof -
  let ?M = "call_coroutine None b new_machine"
  have "stack_ok 0 ?M 0 []" "live_frame ?M 0 [] (At_body b)" "co_waiting ?M = None"
    by (simp_all add: stack_ok_def live_frame_def call_coroutine_def new_machine_def continuation_of_def)
  then obtain M where "reaches (Running 0, ?M) M" "observes 0 (inline b (after_all [])) M"
    using every_body_runs [of 0 b "[]"] unfolding runs_to_def by blast
  moreover have "after_all ([] :: ('a, 'b) ancestors) = Flat_done" by (rule ext) simp
  moreover have "start_task 0 ?M = resume 0 ?M"
    by (simp add: start_task_def call_coroutine_def new_machine_def)
  ultimately show ?thesis using reaches_resume by auto
qed

lemma answer_observes:
  assumes "observes base p M"
  shows "\<exists>M'. answer r M = Some M' \<and> observes base (flat_after [r] p) M'"
proof (cases p)
  case (Flat_done e)
  with assms show ?thesis by (auto simp: observes_def answer_def)
next
  case (Flat_external w k)
  with assms obtain h A j where o: "co_waiting M = Some (w, h)" "stack_ok base M h A"
    "live_frame M h A (In_external j)" "k = (\<lambda>r. inline (j r) (after_all A))" by (auto simp: observes_def)
  let ?f = "\<lparr>fr_promise = \<lparr>pr_continuation = continuation_of A, pr_exception = None\<rparr>, fr_point = At_body (j r),
    fr_done = False\<rparr>"
  let ?M = "(set_frame h ?f M)\<lparr>co_waiting := None\<rparr>"
  have "ancestors_ok ?M h A = ancestors_ok M h A"
    by (rule ancestors_ok_cong) (use o(2) in \<open>auto simp: stack_ok_def\<close>)
  then have "stack_ok base ?M h A" using o(2) by (auto simp: stack_ok_def)
  moreover have "live_frame ?M h A (At_body (j r))" "co_waiting ?M = None" by (simp_all add: live_frame_def)
  ultimately obtain M' where "reaches (Running h, ?M) M'" "observes base (inline (j r) (after_all A)) M'"
    using every_body_runs [of base "j r" A] unfolding runs_to_def by blast
  moreover have "answer r M = resume h ?M" using o(1,3) by (simp add: answer_def live_frame_def)
  ultimately show ?thesis using reaches_resume o(4) Flat_external by auto
qed

lemma flat_after_Cons: "flat_after (r # rs) p = flat_after rs (flat_after [r] p)"
  by (cases p; cases rs) auto

lemma drive_observes: "observes base p M \<Longrightarrow> \<exists>M'. drive rs M = Some M' \<and> observes base (flat_after rs p) M'"
proof (induction rs arbitrary: p M)
  case (Cons r rs)
  from answer_observes [OF Cons.prems, of r] obtain M' where
    M': "answer r M = Some M'" "observes base (flat_after [r] p) M'" by blast
  from Cons.IH [OF M'(2)] M'(1) show ?case by (simp only: drive.simps flat_after_Cons [of r rs]) simp
qed simp

text \<open>
  C38: A root task started on any body, with any nesting of awaited tasks and any answers from outside,
  always comes to a stop again. It then waits for what the program waits for that has each awaited body in
  the place of its \<open>co_await\<close>, an exception of a task being thrown where the task is awaited; when that
  program has ended, the root task is done, with its exception, and every other frame has been destroyed.
  No coroutine is ever resumed that is destroyed, finished or not suspended.
\<close>

theorem tasks_run_nested:
  "\<exists>M. Option.bind (start_task 0 (call_coroutine None b new_machine)) (drive rs) = Some M \<and> \<not> co_fault M \<and>
    (case flat_after rs (inline b Flat_done) of
       Flat_external w k \<Rightarrow> \<exists>h. co_waiting M = Some (w, h)
     | Flat_done e \<Rightarrow> co_waiting M = None \<and> dom (co_frames M) = {0} \<and>
         (\<exists>f. co_frames M 0 = Some f \<and> fr_done f \<and> pr_exception (fr_promise f) = e))"
proof -
  obtain M0 where M0: "start_task 0 (call_coroutine None b new_machine) = Some M0" "observes 0 (inline b Flat_done) M0"
    using start_observes by blast
  from drive_observes [OF M0(2), of rs] obtain M where
    M: "drive rs M0 = Some M" "observes 0 (flat_after rs (inline b Flat_done)) M" by blast
  with M0(1) show ?thesis by (auto simp: observes_def stack_ok_def split: flat.splits)
qed

subsection \<open>Delays\<close>

text \<open>\<open>delay(ms)\<close> at time \<open>now\<close>, both in the same unit; \<open>None\<close> when the coroutine goes on at once.\<close>

definition delay_await :: "int \<Rightarrow> int \<Rightarrow> int \<Rightarrow> int option" where
  "delay_await created_at duration now =
     (let endTime = created_at + duration in if now \<ge> endTime then None else Some endTime)"

text \<open>What the detached thread does with the handle at the end of its sleep.\<close>

definition delay_fires :: "nat \<Rightarrow> 'r \<Rightarrow> ('w, 'r) machine \<Rightarrow> ('w, 'r) machine option" where
  "delay_fires h r M =
     (case co_frames M h of
        None \<Rightarrow> Some (M\<lparr>co_fault := True\<rparr>)
      | Some f \<Rightarrow> if fr_done f then Some M else answer r M)"

text \<open>
  The thread is not told when the task that waits is destroyed: it then tests and resumes a handle that no
  longer exists.
\<close>

lemma delay_after_destroy:
  "delay_fires h r (destroy_task h M) = Some ((destroy_task h M)\<lparr>co_fault := True\<rparr>)"
  by (simp add: delay_fires_def destroy_task_def)

lemma delay_while_waiting:
  assumes "co_waiting M = Some (w, h)" and "observes base p M"
  shows "delay_fires h r M = answer r M"
  using assms by (auto simp: delay_fires_def observes_def live_frame_def split: flat.splits)

subsection \<open>Example\<close>

text \<open>A task that awaits two others: the first waits once, the second throws, and the exception is caught.\<close>

definition demo_body :: "(string, nat) body" where
  "demo_body = Co_task (Co_external ''send'' (\<lambda>n. Co_return)) (\<lambda>e.
     Co_task (Co_throw (Runtime_error ''closed'')) (\<lambda>e. case e of None \<Rightarrow> Co_return | Some x \<Rightarrow> Co_external ''log'' (\<lambda>n. Co_throw x)))"

lemma demo_flat:
  "flat_after [1, 2] (inline demo_body Flat_done) = Flat_done (Some (Runtime_error ''closed''))"
  by (simp add: demo_body_def)

end
