(* ===== verification/WinPipe.thy ===== *)
theory WinPipe
  imports PipeVerifier
begin

section \<open>The result pipe on Windows\<close>

text \<open>
  The two ends of the named pipe: \<open>ResultEventSink.cpp\<close> (\<open>ensurePipeConnected\<close>, \<open>writeLine\<close>, \<open>closePipe\<close>)
  in ipeftc and \<open>PipeReader::run\<close> of \<open>ResultPipeVerifier/src/main.cpp\<close>, with the pipe between them. The
  threads interleave: a program that publishes and stops the sink, the sink's worker, the reader, and the
  verifier that stops the reader. \<open>WriteFile\<close> in wait mode puts the whole line into the pipe or fails, and
  \<open>FlushFileBuffers\<close> returns when the reader has read all or has closed its end. The main fact: unlike on
  POSIX, the reader cannot miss an event when it is asked to stop after the process has ended
  (\<open>windows_events_delivered\<close>).
\<close>

definition backslash :: char where "backslash = CHR 0x5C"

definition pipe_prefix :: string where
  "pipe_prefix = [backslash, backslash, CHR ''.'', backslash] @ ''pipe'' @ [backslash]"

definition normalizePipeName :: "string \<Rightarrow> string" where
  "normalizePipeName name = (if prefix pipe_prefix name then name else pipe_prefix @ name)"

text \<open>The client's end of the pipe instance, and where the reader is in \<open>run\<close>.\<close>

datatype client_end = No_client | Client_open | Client_gone

datatype reader_point = Opening | Testing | In_ReadFile | Reader_done

text \<open>
  \<open>np_events\<close>, \<open>np_written\<close>, \<open>np_dropped\<close>, \<open>np_early\<close> and \<open>rd_got\<close> only record: the events published, the
  lines for which \<open>writeLine\<close> returned true, those given up, whether the reader was asked to stop before the
  sink had closed the pipe, and the bytes read. \<open>np_flushing\<close>: the worker is in \<open>FlushFileBuffers\<close>.
\<close>

record win_pipe =
  np_sink :: ResultEventSink
  np_events :: "json list"
  np_written :: "string list"
  np_dropped :: "string list"
  np_handle :: bool
  np_connected :: bool
  np_flushing :: bool
  np_closed :: bool
  np_client :: client_end
  np_transit :: bytes
  rd_point :: reader_point
  rd_stop :: bool
  rd_pending :: string
  rd_reader :: PipeReader
  rd_got :: bytes
  np_early :: bool

definition pipe_start :: "string \<Rightarrow> win_pipe" where
  "pipe_start name = \<lparr>np_sink = new_sink\<lparr>sink_pipeName := normalizePipeName name, sink_running := True\<rparr>, np_events = [],
     np_written = [], np_dropped = [], np_handle = False, np_connected = False, np_flushing = False, np_closed = False,
     np_client = No_client, np_transit = [], rd_point = Opening, rd_stop = False, rd_pending = [],
     rd_reader = new_PipeReader, rd_got = [], np_early = False\<rparr>"

subsection \<open>The sink's end\<close>

definition win_closePipe :: "win_pipe \<Rightarrow> win_pipe" where
  "win_closePipe s =
     (if np_handle s then s\<lparr>np_handle := False, np_connected := False, np_client := No_client, np_transit := []\<rparr>
      else s\<lparr>np_connected := False\<rparr>)"

text \<open>
  Whether \<open>CreateNamedPipeA\<close> succeeds, an unexpected error of \<open>ConnectNamedPipe\<close>, and whether \<open>WriteFile\<close>
  succeeds when the reader is there. Else \<open>ConnectNamedPipe\<close> answers by the client's end:
  \<open>ERROR_PIPE_CONNECTED\<close>, \<open>ERROR_PIPE_LISTENING\<close>, or \<open>ERROR_NO_DATA\<close> when a client has come and gone.
\<close>

record sink_answers =
  sa_create :: bool
  sa_connect_fails :: bool
  sa_write :: bool

definition ensurePipeConnected :: "sink_answers \<Rightarrow> win_pipe \<Rightarrow> bool \<times> win_pipe" where
  "ensurePipeConnected a s =
     (if np_connected s then (True, s)
      else if \<not> np_handle s \<and> \<not> sa_create a then (False, s)
      else let s = s\<lparr>np_handle := True\<rparr>
        in if sa_connect_fails a then (False, win_closePipe s)
           else if np_client s = Client_open then (True, s\<lparr>np_connected := True\<rparr>)
           else (False, s))"

text \<open>\<open>writeLine\<close> up to \<open>FlushFileBuffers\<close>; false when it has returned false before.\<close>

definition win_writeLine :: "sink_answers \<Rightarrow> string \<Rightarrow> win_pipe \<Rightarrow> bool \<times> win_pipe" where
  "win_writeLine a line s =
     (case ensurePipeConnected a s of
        (False, s) \<Rightarrow> (False, s)
      | (True, s) \<Rightarrow>
          if np_client s = Client_open \<and> sa_write a
          then (True, s\<lparr>np_transit := np_transit s @ line, np_flushing := True\<rparr>)
          else (False, win_closePipe s))"

definition write_failed :: "string \<Rightarrow> win_pipe \<Rightarrow> win_pipe" where
  "write_failed line s =
     s\<lparr>np_sink := worker_wrote False (np_sink s),
       np_dropped := np_dropped s @ (if sink_running (np_sink s) then [] else [line])\<rparr>"

definition write_ended :: "string \<Rightarrow> win_pipe \<Rightarrow> win_pipe" where
  "write_ended line s =
     s\<lparr>np_sink := worker_wrote True (np_sink s), np_written := np_written s @ [line], np_flushing := False\<rparr>"

subsection \<open>The reader's end\<close>

definition reader_close :: "win_pipe \<Rightarrow> win_pipe" where
  "reader_close s =
     (let s = s\<lparr>rd_reader := flushPending (rd_pending s) (rd_reader s), rd_pending := [], rd_point := Reader_done\<rparr>
      in if np_client s = Client_open then s\<lparr>np_client := Client_gone, np_transit := []\<rparr> else s)"

text \<open>One attempt of \<open>CreateFileA\<close>: it succeeds when the instance has no client yet.\<close>

definition reader_open :: "win_pipe \<Rightarrow> win_pipe" where
  "reader_open s =
     (if rd_point s = Opening \<and> \<not> rd_stop s \<and> np_handle s \<and> np_client s = No_client
      then s\<lparr>np_client := Client_open, rd_point := Testing\<rparr> else s)"

text \<open>The loop of attempts ends: a stop was requested, or the time is up.\<close>

definition reader_gives_up :: "string \<Rightarrow> win_pipe \<Rightarrow> win_pipe" where
  "reader_gives_up nm s =
     (if rd_point s \<noteq> Opening then s
      else s\<lparr>rd_point := Reader_done,
        rd_reader := (if \<not> rd_stop s
          then setError (nm @ '' pipe connection timeout: '' @ sink_pipeName (np_sink s)) (rd_reader s) else rd_reader s)\<rparr>)"

definition reader_test :: "win_pipe \<Rightarrow> win_pipe" where
  "reader_test s =
     (if rd_point s \<noteq> Testing then s else if rd_stop s then reader_close s else s\<lparr>rd_point := In_ReadFile\<rparr>)"

text \<open>
  \<open>ReadFile\<close> gets at most \<open>n\<close> bytes, or blocks while there are none; without the sink's end it fails with
  \<open>ERROR_BROKEN_PIPE\<close> or \<open>ERROR_PIPE_NOT_CONNECTED\<close>.
\<close>

definition reader_read :: "nat \<Rightarrow> win_pipe \<Rightarrow> win_pipe" where
  "reader_read n s =
     (if rd_point s \<noteq> In_ReadFile then s
      else if np_client s \<noteq> Client_open then reader_close s
      else if np_transit s = [] \<or> n = 0 then s
      else let data = take (min n 4096) (np_transit s); (pending, r) = consumeChunk (rd_pending s) data (rd_reader s)
        in s\<lparr>np_transit := drop (min n 4096) (np_transit s), rd_got := rd_got s @ data, rd_pending := pending,
             rd_reader := r, rd_point := Testing\<rparr>)"

definition reader_fails :: "string \<Rightarrow> nat \<Rightarrow> win_pipe \<Rightarrow> win_pipe" where
  "reader_fails nm e s =
     (if rd_point s \<noteq> In_ReadFile then s
      else reader_close (s\<lparr>rd_reader := setError (nm @ '' pipe read failed: '' @ show_nat e) (rd_reader s)\<rparr>))"

subsection \<open>All threads\<close>

datatype pipe_choice =
    Publish json
  | Stop_sink
  | Worker_take
  | Worker_write sink_answers
  | Worker_flushed
  | Worker_ends
  | Reader_open
  | Reader_gives_up
  | Reader_test
  | Reader_read nat
  | Reader_fails nat
  | Stop_reader

fun pipe_step :: "json_printer \<Rightarrow> string \<Rightarrow> pipe_choice \<Rightarrow> win_pipe \<Rightarrow> win_pipe" where
  "pipe_step dump nm (Publish event) s =
     (if sink_running (np_sink s)
      then s\<lparr>np_sink := sink_publish dump event (np_sink s), np_events := np_events s @ [event]\<rparr> else s)"
| "pipe_step dump nm Stop_sink s = s\<lparr>np_sink := (np_sink s)\<lparr>sink_running := False\<rparr>\<rparr>"
| "pipe_step dump nm Worker_take s =
     (if np_closed s \<or> sink_line (np_sink s) \<noteq> None then s else s\<lparr>np_sink := snd (worker_take (np_sink s))\<rparr>)"
| "pipe_step dump nm (Worker_write a) s =
     (case sink_line (np_sink s) of
        None \<Rightarrow> s
      | Some line \<Rightarrow>
          if np_flushing s then s
          else (case win_writeLine a line s of (ok, s) \<Rightarrow> if ok then s else write_failed line s))"
| "pipe_step dump nm Worker_flushed s =
     (case sink_line (np_sink s) of
        None \<Rightarrow> s
      | Some line \<Rightarrow>
          if np_flushing s \<and> (np_transit s = [] \<or> np_client s \<noteq> Client_open) then write_ended line s else s)"
| "pipe_step dump nm Worker_ends s =
     (if \<not> np_closed s \<and> sink_line (np_sink s) = None \<and> fst (worker_take (np_sink s)) = WorkerExit
      then (win_closePipe s)\<lparr>np_closed := True\<rparr> else s)"
| "pipe_step dump nm Reader_open s = reader_open s"
| "pipe_step dump nm Reader_gives_up s = reader_gives_up nm s"
| "pipe_step dump nm Reader_test s = reader_test s"
| "pipe_step dump nm (Reader_read n) s = reader_read n s"
| "pipe_step dump nm (Reader_fails e) s = reader_fails nm e s"
| "pipe_step dump nm Stop_reader s = s\<lparr>rd_stop := True, np_early := np_early s \<or> \<not> np_closed s\<rparr>"

definition pipe_run :: "json_printer \<Rightarrow> string \<Rightarrow> string \<Rightarrow> pipe_choice list \<Rightarrow> win_pipe" where
  "pipe_run dump nm name cs = fold (pipe_step dump nm) cs (pipe_start name)"

subsection \<open>Invariants\<close>

text \<open>Who holds which end.\<close>

definition ends_ok :: "win_pipe \<Rightarrow> bool" where
  "ends_ok s \<longleftrightarrow>
     (np_client s = Client_open \<longrightarrow> np_handle s \<and> rd_point s \<in> {Testing, In_ReadFile}) \<and>
     (np_connected s \<longrightarrow> np_client s \<noteq> No_client) \<and>
     (np_flushing s \<longrightarrow> sink_line (np_sink s) \<noteq> None) \<and>
     (np_closed s \<longrightarrow> sink_line (np_sink s) = None \<and> \<not> np_handle s) \<and>
     (rd_stop s \<and> \<not> np_early s \<longrightarrow> np_closed s) \<and>
     (rd_point s \<noteq> Reader_done \<longrightarrow> pr_error (rd_reader s) = []) \<and>
     (rd_point s = Opening \<longrightarrow> rd_got s = [] \<and> np_written s = [] \<and> \<not> np_flushing s) \<and>
     (np_client s \<noteq> Client_open \<longrightarrow> np_transit s = [])"

text \<open>The bytes: what the reader has, what is on the way, and the lines written.\<close>

definition bytes_ok :: "win_pipe \<Rightarrow> bool" where
  "bytes_ok s \<longleftrightarrow>
     (if np_client s = Client_open
      then rd_got s @ np_transit s =
          concat (np_written s) @ (if np_flushing s then the (sink_line (np_sink s)) else []) \<and>
        (\<not> np_flushing s \<longrightarrow> np_transit s = [])
      else \<not> np_early s \<longrightarrow> pr_error (rd_reader s) = [] \<longrightarrow> rd_got s = concat (np_written s) \<and> \<not> np_flushing s)"

text \<open>The lines of the bytes read.\<close>

definition text_ok :: "win_pipe \<Rightarrow> bool" where
  "text_ok s \<longleftrightarrow>
     (if rd_point s = Reader_done then pr_lines (rd_reader s) = lines_of (rd_got s)
      else rd_pending s = last (split_lf (rd_got s)) \<and>
        pr_lines (rd_reader s) = clean (butlast (split_lf (rd_got s))))"

text \<open>The events published are those written, then those that still wait, unless one was given up.\<close>

definition events_ok :: "json_printer \<Rightarrow> win_pipe \<Rightarrow> bool" where
  "events_ok dump s \<longleftrightarrow> (np_dropped s = [] \<longrightarrow>
     map (event_line dump) (np_events s) = np_written s @ unwritten (np_sink s)) \<and>
     (np_closed s \<longrightarrow> unwritten (np_sink s) = [] \<and> \<not> sink_running (np_sink s))"

lemmas pipe_defs = win_writeLine_def ensurePipeConnected_def win_closePipe_def write_failed_def write_ended_def
  reader_open_def reader_gives_up_def reader_test_def reader_read_def reader_fails_def reader_close_def

lemma sink_steps [simp]:
  "sink_line (sink_publish dump e k) = sink_line k" "sink_line (worker_wrote ok k) = None"
  "sink_running (sink_publish dump e k) = sink_running k" "sink_running (worker_wrote ok k) = sink_running k"
  by (auto simp: sink_publish_def sink_push_def worker_wrote_def Let_def split: option.split)

lemma reader_fields [simp]:
  "pr_error (flushPending p r) = pr_error r" "pr_error (snd (consumeChunk p d r)) = pr_error r"
  "pr_lines (setError msg r) = pr_lines r"
  by (auto simp: flushPending_def addLine_def consumeChunk_lines setError_def)

lemma setError_set [simp]: "msg \<noteq> [] \<Longrightarrow> pr_error (setError msg r) \<noteq> []"
  by (simp add: setError_def)

lemma ends_write:
  assumes "ends_ok s" and "sink_line (np_sink s) = Some line" and "\<not> np_flushing s"
  shows "ends_ok (pipe_step dump nm (Worker_write a) s)"
  using assms
  by (cases "np_connected s"; cases "np_handle s"; cases "np_client s")
    (auto simp: ends_ok_def win_writeLine_def ensurePipeConnected_def win_closePipe_def write_failed_def Let_def)

lemma worker_take_fields:
  "sink_line k = None \<Longrightarrow> worker_take k = (WorkerWrite line, k') \<Longrightarrow> sink_line k' = Some line"
  by (auto simp: worker_take_def sink_pop_def split: option.splits list.splits if_splits)

lemma ends_take: "ends_ok s \<Longrightarrow> ends_ok (pipe_step dump nm Worker_take s)"
  by (auto simp: ends_ok_def)

lemma ends_flushed: "ends_ok s \<Longrightarrow> ends_ok (pipe_step dump nm Worker_flushed s)"
  by (auto simp: ends_ok_def write_ended_def split: option.split)

lemma ends_ends: "ends_ok s \<Longrightarrow> ends_ok (pipe_step dump nm Worker_ends s)"
  by (auto simp: ends_ok_def win_closePipe_def)

lemma ends_close: "ends_ok s \<Longrightarrow> rd_point s \<noteq> Opening \<Longrightarrow> ends_ok (reader_close s)"
  by (auto simp: ends_ok_def reader_close_def Let_def)

lemma ends_read: "ends_ok s \<Longrightarrow> ends_ok (reader_read n s)"
  using ends_close [of s] by (auto simp: ends_ok_def reader_read_def Let_def case_prod_unfold)

lemma ends_fails: "ends_ok s \<Longrightarrow> ends_ok (reader_fails nm e s)"
  by (auto simp: ends_ok_def reader_fails_def reader_close_def Let_def)

lemma ends_step: "ends_ok s \<Longrightarrow> ends_ok (pipe_step dump nm c s)"
proof (cases c)
  case (Worker_write a)
  assume "ends_ok s"
  then show ?thesis
    using ends_write [of s _ dump nm a] Worker_write by (cases "sink_line (np_sink s)"; cases "np_flushing s") auto
next
  case Reader_test
  assume "ends_ok s"
  then show ?thesis using ends_close [of s] Reader_test by (auto simp: reader_test_def) (auto simp: ends_ok_def)
next
  case Reader_gives_up
  assume "ends_ok s"
  then show ?thesis using Reader_gives_up by (auto simp: ends_ok_def reader_gives_up_def)
next
  case Reader_open
  assume "ends_ok s"
  then show ?thesis using Reader_open by (auto simp: ends_ok_def reader_open_def)
qed (simp_all add: ends_take ends_flushed ends_ends ends_read ends_fails del: pipe_step.simps(3,5,6), auto simp: ends_ok_def)

lemma bytes_write:
  assumes "ends_ok s" and "bytes_ok s" and "sink_line (np_sink s) = Some line" and "\<not> np_flushing s"
  shows "bytes_ok (pipe_step dump nm (Worker_write a) s)"
  using assms
  by (cases "np_connected s"; cases "np_handle s"; cases "np_client s")
    (auto simp: ends_ok_def bytes_ok_def win_writeLine_def ensurePipeConnected_def win_closePipe_def write_failed_def Let_def)

lemma bytes_flushed: "ends_ok s \<Longrightarrow> bytes_ok s \<Longrightarrow> bytes_ok (pipe_step dump nm Worker_flushed s)"
  by (auto simp: ends_ok_def bytes_ok_def write_ended_def split: option.split)

lemma bytes_ends: "ends_ok s \<Longrightarrow> bytes_ok s \<Longrightarrow> bytes_ok (pipe_step dump nm Worker_ends s)"
  by (cases "np_client s = Client_open") (auto simp: ends_ok_def bytes_ok_def win_closePipe_def)

lemma bytes_close:
  assumes "ends_ok s" and "bytes_ok s" and "np_client s = Client_open \<longrightarrow> np_early s \<or> pr_error (rd_reader s) \<noteq> []"
  shows "bytes_ok (reader_close s)"
  using assms by (auto simp: ends_ok_def bytes_ok_def reader_close_def Let_def)

lemma bytes_read: "ends_ok s \<Longrightarrow> bytes_ok s \<Longrightarrow> bytes_ok (reader_read n s)"
  using bytes_close [of s]
  by (auto simp: bytes_ok_def reader_read_def Let_def case_prod_unfold append_take_drop_id)

lemma bytes_fails: "ends_ok s \<Longrightarrow> bytes_ok s \<Longrightarrow> bytes_ok (reader_fails nm e s)"
  by (cases "np_client s = Client_open") (auto simp: ends_ok_def bytes_ok_def reader_fails_def reader_close_def Let_def)

lemma stopped_while_open: "ends_ok s \<Longrightarrow> np_client s = Client_open \<Longrightarrow> rd_stop s \<Longrightarrow> np_early s"
  by (auto simp: ends_ok_def)

lemma bytes_test: "ends_ok s \<Longrightarrow> bytes_ok s \<Longrightarrow> bytes_ok (reader_test s)"
  using bytes_close [of s] stopped_while_open [of s] by (cases "rd_stop s") (simp_all add: bytes_ok_def reader_test_def)

lemma bytes_open: "ends_ok s \<Longrightarrow> bytes_ok s \<Longrightarrow> bytes_ok (reader_open s)"
  by (auto simp: ends_ok_def bytes_ok_def reader_open_def)

lemma bytes_gives_up: "ends_ok s \<Longrightarrow> bytes_ok s \<Longrightarrow> bytes_ok (reader_gives_up nm s)"
  by (auto simp: ends_ok_def bytes_ok_def reader_gives_up_def)

lemma bytes_take: "ends_ok s \<Longrightarrow> bytes_ok s \<Longrightarrow> bytes_ok (pipe_step dump nm Worker_take s)"
  by (auto simp: ends_ok_def bytes_ok_def)

lemma bytes_step: "ends_ok s \<Longrightarrow> bytes_ok s \<Longrightarrow> bytes_ok (pipe_step dump nm c s)"
proof (cases c)
  case (Worker_write a)
  assume "ends_ok s" "bytes_ok s"
  then show ?thesis
    using bytes_write [of s _ dump nm a] Worker_write by (cases "sink_line (np_sink s)"; cases "np_flushing s") auto
qed (simp_all add: bytes_take bytes_flushed bytes_ends bytes_read bytes_fails bytes_test bytes_open bytes_gives_up
    del: pipe_step.simps(3,5,6), auto simp: bytes_ok_def)

lemma text_close: "text_ok s \<Longrightarrow> rd_point s \<noteq> Reader_done \<Longrightarrow> text_ok (reader_close s)"
  using clean_append(1) [of "butlast (split_lf (rd_got s))" "[last (split_lf (rd_got s))]"]
  by (auto simp: text_ok_def reader_close_def flushPending_lines lines_of_def Let_def last_split_lf split_lf_one
      simp del: clean_append(1))

lemma text_read: "text_ok s \<Longrightarrow> text_ok (reader_read n s)"
  using text_close [of s]
  by (auto simp: text_ok_def reader_read_def consumeChunk_lines Let_def split_lf_append [of "rd_got s" "take _ _"]
      butlast_append)

lemma text_step: "ends_ok s \<Longrightarrow> text_ok s \<Longrightarrow> text_ok (pipe_step dump nm c s)"
proof (cases c)
  case (Worker_write a)
  assume "text_ok s"
  then show ?thesis using Worker_write
    by (auto simp: text_ok_def pipe_defs Let_def split: option.split)
next
  case Reader_gives_up
  assume "ends_ok s" "text_ok s"
  then show ?thesis using Reader_gives_up
    by (auto simp: ends_ok_def text_ok_def reader_gives_up_def lines_of_def clean_def strip_cr_def)
next
  case Reader_test
  assume "text_ok s"
  then show ?thesis using Reader_test text_close [of s] by (auto simp: reader_test_def) (auto simp: text_ok_def)
next
  case (Reader_fails e)
  assume a: "text_ok s"
  let ?s = "s\<lparr>rd_reader := setError (nm @ '' pipe read failed: '' @ show_nat e) (rd_reader s)\<rparr>"
  have "text_ok ?s" using a by (simp add: text_ok_def)
  then show ?thesis using a Reader_fails text_close [of ?s] by (auto simp: reader_fails_def)
qed (simp_all add: text_read del: pipe_step.simps(3,5,6),
    auto simp: text_ok_def reader_open_def write_ended_def win_closePipe_def split: option.split)

lemma unwritten_steps:
  "sink_line k = Some line \<Longrightarrow> unwritten k = line # unwritten (worker_wrote True k)"
  "sink_line k = Some line \<Longrightarrow> sink_running k \<Longrightarrow> unwritten (worker_wrote False k) = unwritten k"
  "sink_line k = None \<Longrightarrow> unwritten (snd (worker_take k)) = unwritten k"
  "sink_running k \<Longrightarrow> unwritten (sink_publish dump e k) = unwritten k @ [event_line dump e]"
  "sink_running (snd (worker_take k)) = sink_running k"
  by (auto simp: unwritten_def worker_wrote_def worker_take_def sink_pop_def sink_publish_def sink_push_def Let_def
      split: list.splits)

lemma write_line_events:
  assumes "win_writeLine a line s = (ok, s')"
  shows "np_sink s' = np_sink s" "np_events s' = np_events s" "np_written s' = np_written s"
    "np_dropped s' = np_dropped s" "np_closed s' = np_closed s"
  using assms
  by (auto simp: win_writeLine_def ensurePipeConnected_def win_closePipe_def Let_def split: if_splits prod.splits)

lemma events_write:
  assumes "events_ok dump s" and "sink_line (np_sink s) = Some line" and "\<not> np_flushing s"
  shows "events_ok dump (pipe_step dump nm (Worker_write a) s)"
proof -
  obtain ok s' where w: "win_writeLine a line s = (ok, s')" by fastforce
  have "\<not> np_closed s" using assms(1,2) by (auto simp: events_ok_def unwritten_def)
  then show ?thesis
    using assms w write_line_events [OF w] unwritten_steps(2) [OF assms(2)]
    by (auto simp: events_ok_def write_failed_def)
qed

lemma events_step: "ends_ok s \<Longrightarrow> events_ok dump s \<Longrightarrow> events_ok dump (pipe_step dump nm c s)"
proof (cases c)
  case (Worker_write a)
  assume "events_ok dump s"
  then show ?thesis
    using events_write [of dump s _ nm a] Worker_write by (cases "sink_line (np_sink s)"; cases "np_flushing s") auto
next
  case Worker_flushed
  assume e: "events_ok dump s"
  show ?thesis
  proof (cases "sink_line (np_sink s)")
    case (Some line)
    then have "\<not> np_closed s" using e by (auto simp: events_ok_def unwritten_def)
    then show ?thesis using e Worker_flushed Some unwritten_steps(1) [OF Some] by (auto simp: events_ok_def write_ended_def)
  qed (use e Worker_flushed in simp)
next
  case Worker_ends
  assume "events_ok dump s"
  then show ?thesis using Worker_ends
    by (auto simp: events_ok_def win_closePipe_def unwritten_def worker_take_def sink_pop_def
        split: list.splits if_splits)
next
  case (Publish j)
  assume "events_ok dump s"
  then show ?thesis using Publish unwritten_steps(4) by (auto simp: events_ok_def)
next
  case Stop_sink
  assume "events_ok dump s"
  then show ?thesis using Stop_sink by (auto simp: events_ok_def unwritten_def)
next
  case Worker_take
  assume "events_ok dump s"
  then show ?thesis using Worker_take unwritten_steps(3,5) by (auto simp: events_ok_def)
qed (auto simp: events_ok_def reader_open_def reader_gives_up_def reader_test_def reader_read_def reader_fails_def
    reader_close_def Let_def case_prod_unfold)

text \<open>The four together, for every run.\<close>

lemma pipe_invariant:
  "ends_ok (pipe_run dump nm name cs) \<and> bytes_ok (pipe_run dump nm name cs) \<and> text_ok (pipe_run dump nm name cs) \<and>
     events_ok dump (pipe_run dump nm name cs)"
proof (induction cs rule: rev_induct)
  case Nil
  show ?case
    by (simp add: pipe_run_def pipe_start_def ends_ok_def bytes_ok_def text_ok_def events_ok_def new_PipeReader_def
        unwritten_def new_sink_def clean_def)
next
  case (snoc c cs)
  then show ?case using ends_step bytes_step text_step events_step by (simp add: pipe_run_def)
qed

text \<open>
  C40: However the sink's worker, the publishing program, the reader and the verifier interleave, and in
  whatever pieces the reader gets the bytes: when the reader has ended without an error, and was not asked
  to stop before ipeftc's sink had closed the pipe, the lines it has are the events published, in order and
  each once, provided the sink gave up none of them.
\<close>

theorem windows_events_delivered:
  assumes "s = pipe_run dump nm name cs"
    and "rd_point s = Reader_done" "pr_error (rd_reader s) = []" "\<not> np_early s"
    and "np_closed s" "np_dropped s = []"
    and "\<forall>j \<in> set (np_events s). event_ok parse dump j"
  shows "pr_lines (rd_reader s) = map dump (np_events s) \<and> np_written s = map (event_line dump) (np_events s)"
proof -
  have inv: "ends_ok s" "bytes_ok s" "text_ok s" "events_ok dump s" using pipe_invariant assms(1) by auto
  have "np_client s \<noteq> Client_open" using inv(1) assms(2) by (auto simp: ends_ok_def)
  then have "rd_got s = concat (np_written s)" using inv(2) assms(3,4) by (simp add: bytes_ok_def)
  moreover have w: "np_written s = map (event_line dump) (np_events s)"
    using inv(4) assms(5,6) by (simp add: events_ok_def)
  ultimately show ?thesis
    using inv(3) assms(2) lines_of_events [OF assms(7)] by (simp add: text_ok_def)
qed

subsection \<open>Example\<close>

definition pipe_ready :: sink_answers where
  "pipe_ready = \<lparr>sa_create = True, sa_connect_fails = False, sa_write = True\<rparr>"

definition pipe_script :: "pipe_choice list" where
  "pipe_script = [Publish JNull, Worker_take, Worker_write pipe_ready, Reader_open, Reader_test, Worker_take,
     Worker_write pipe_ready, Reader_read 1, Reader_test, Stop_sink, Reader_read 4096, Worker_flushed, Worker_ends,
     Reader_test, Stop_reader, Reader_read 4096]"

definition pipe_example :: win_pipe where
  "pipe_example = pipe_run (\<lambda>j. ''ev'') ''client'' ''p'' pipe_script"

theorem windows_events_delivered_witness:
  "pr_lines (rd_reader pipe_example) = map (\<lambda>j. ''ev'') (np_events pipe_example) \<and>
   np_written pipe_example = map (event_line (\<lambda>j. ''ev'')) (np_events pipe_example) \<and> np_events pipe_example = [JNull]"
proof -
  have run: "rd_point pipe_example = Reader_done" "pr_error (rd_reader pipe_example) = []" "\<not> np_early pipe_example"
    "np_closed pipe_example" "np_dropped pipe_example = []" "np_events pipe_example = [JNull]"
    unfolding pipe_example_def pipe_script_def pipe_ready_def by code_simp+
  have "\<forall>j \<in> set (np_events pipe_example). event_ok (\<lambda>s. Inr JNull) (\<lambda>j. ''ev'') j"
    by (simp add: run(6) event_ok_def)
  from windows_events_delivered [OF pipe_example_def run(1-5) this] run(6) show ?thesis by simp
qed

text \<open>
  A client that opens the pipe and closes it again before the worker looks leaves the instance in a state
  that \<open>ensurePipeConnected\<close> never leaves: no later reader can connect, and no event is written.
\<close>

lemma gone_client_blocks:
  assumes "np_handle s" "\<not> np_connected s" "np_client s = Client_gone" "\<not> sa_connect_fails a"
  shows "win_writeLine a line s = (False, s) \<and> reader_open s = s"
  using assms by (cases s) (simp add: win_writeLine_def ensurePipeConnected_def reader_open_def)

end
