(* ===== verification/WinProcess.thy ===== *)
theory WinProcess
  imports ProcessManager
begin

section \<open>Running ipeftc from the test runner on Windows\<close>

text \<open>
  The Windows branch of \<open>TestRunner/ProcessManager.cpp\<close>. The kernel gives out handles; \<open>wk_faults\<close> collects
  those that are used or closed while they are not open. \<open>NULL\<close> is \<open>None\<close>. What the system calls return is an
  argument. The main fact: in the way the control server uses a process, every handle is closed once and
  none is used after (\<open>windows_handles_accounted\<close>), and the server counts as ready with the same text as
  in the POSIX branch (\<open>win_ready_as_posix\<close>).
\<close>

record win_kernel =
  wk_next :: nat
  wk_open :: "nat list"
  wk_faults :: "nat list"
  wk_spawned :: "(nat \<times> string option \<times> string) list"
  wk_killed :: "nat list"
  wk_waited :: "nat list"

definition new_handle :: "win_kernel \<Rightarrow> win_kernel" where
  "new_handle K = K\<lparr>wk_next := Suc (wk_next K), wk_open := wk_next K # wk_open K\<rparr>"

definition use_handle :: "nat option \<Rightarrow> win_kernel \<Rightarrow> win_kernel" where
  "use_handle h K =
     (case h of None \<Rightarrow> K
      | Some n \<Rightarrow> if n \<in> set (wk_open K) then K else K\<lparr>wk_faults := wk_faults K @ [n]\<rparr>)"

definition CloseHandle :: "nat option \<Rightarrow> win_kernel \<Rightarrow> win_kernel" where
  "CloseHandle h K =
     (case h of None \<Rightarrow> K
      | Some n \<Rightarrow> (use_handle h K)\<lparr>wk_open := removeAll n (wk_open K)\<rparr>)"

text \<open>\<open>WaitForSingleObject\<close> and \<open>::TerminateProcess\<close> on a process handle.\<close>

definition wait_process :: "nat option \<Rightarrow> win_kernel \<Rightarrow> win_kernel" where
  "wait_process h K = (case h of None \<Rightarrow> K | Some n \<Rightarrow> (use_handle h K)\<lparr>wk_waited := wk_waited K @ [n]\<rparr>)"

definition kill_process :: "nat option \<Rightarrow> win_kernel \<Rightarrow> win_kernel" where
  "kill_process h K = (case h of None \<Rightarrow> K | Some n \<Rightarrow> (use_handle h K)\<lparr>wk_killed := wk_killed K @ [n]\<rparr>)"

record WinHandles =
  wh_hProcess :: "nat option"
  wh_hThread :: "nat option"
  wh_stdOutRead :: "nat option"
  wh_stdOutWrite :: "nat option"
  wh_startupOutput :: string

definition new_WinHandles :: WinHandles where
  "new_WinHandles = \<lparr>wh_hProcess = None, wh_hThread = None, wh_stdOutRead = None, wh_stdOutWrite = None,
     wh_startupOutput = []\<rparr>"

text \<open>Whether \<open>CreatePipe\<close>, \<open>SetHandleInformation\<close> and \<open>CreateProcessA\<close> succeed, and \<open>SearchPathA\<close>.\<close>

record win_env =
  we_pipe :: bool
  we_inherit :: bool
  we_create :: bool
  we_search :: "string \<Rightarrow> bool"

definition win_IsAvailableOnPath :: "win_env \<Rightarrow> string \<Rightarrow> bool" where
  "win_IsAvailableOnPath env name = we_search env name"

definition win_ValidateIpeftcPath :: "file_system \<Rightarrow> win_env \<Rightarrow> string \<Rightarrow> bool" where
  "win_ValidateIpeftcPath fs env path =
     (if path = [] then False else FileExists fs path \<or> win_IsAvailableOnPath env path)"

subsection \<open>Launching\<close>

definition CreatePipes :: "win_env \<Rightarrow> WinHandles \<Rightarrow> win_kernel \<Rightarrow> bool \<times> WinHandles \<times> win_kernel" where
  "CreatePipes env hs K =
     (if \<not> we_pipe env then (False, hs, K)
      else let hs = hs\<lparr>wh_stdOutRead := Some (wk_next K), wh_stdOutWrite := Some (Suc (wk_next K))\<rparr>;
             K = new_handle (new_handle K)
        in if \<not> we_inherit env then (False, hs, K) else (True, hs, K))"

definition CreateProcessWithStdoutHandle ::
  "file_system \<Rightarrow> win_env \<Rightarrow> string \<Rightarrow> string \<Rightarrow> nat option \<Rightarrow> WinHandles \<Rightarrow> win_kernel \<Rightarrow>
   bool \<times> WinHandles \<times> win_kernel" where
  "CreateProcessWithStdoutHandle fs env path cmdLine stdOut hs K =
     (let applicationName = (if FileExists fs path then Some path else None); K = use_handle stdOut K
      in if \<not> we_create env then (False, hs, K)
         else (True, hs\<lparr>wh_hProcess := Some (wk_next K), wh_hThread := Some (Suc (wk_next K))\<rparr>,
           (new_handle (new_handle K))\<lparr>wk_spawned := wk_spawned K @ [(wk_next K, applicationName, cmdLine)]\<rparr>))"

definition win_launch ::
  "file_system \<Rightarrow> win_env \<Rightarrow> string \<Rightarrow> string list \<Rightarrow> WinHandles \<Rightarrow> win_kernel \<Rightarrow> bool \<times> WinHandles \<times> win_kernel" where
  "win_launch fs env path args hs K =
     (if \<not> win_ValidateIpeftcPath fs env path then (False, hs, K)
      else let cmdLine = BuildCommandLine path args
        in case CreatePipes env hs K of
             (False, hs, K) \<Rightarrow> (False, hs, K)
           | (True, hs, K) \<Rightarrow>
               (case CreateProcessWithStdoutHandle fs env path cmdLine (wh_stdOutWrite hs) hs K of
                  (False, hs, K) \<Rightarrow> (False, hs, CloseHandle (wh_stdOutWrite hs) (CloseHandle (wh_stdOutRead hs) K))
                | (True, hs, K) \<Rightarrow> (True, hs\<lparr>wh_stdOutWrite := None\<rparr>, CloseHandle (wh_stdOutWrite hs) K)))"

definition win_LaunchIPEFTCServer ::
  "file_system \<Rightarrow> win_env \<Rightarrow> string \<Rightarrow> TestConfig \<Rightarrow> WinHandles \<Rightarrow> win_kernel \<Rightarrow> bool \<times> WinHandles \<times> win_kernel" where
  "win_LaunchIPEFTCServer fs env path c hs K = win_launch fs env path (BuildServerArgs c) hs K"

definition win_LaunchIPEFTCClient ::
  "file_system \<Rightarrow> win_env \<Rightarrow> string \<Rightarrow> TestConfig \<Rightarrow> WinHandles \<Rightarrow> win_kernel \<Rightarrow> bool \<times> WinHandles \<times> win_kernel" where
  "win_LaunchIPEFTCClient fs env path c hs K = win_launch fs env path (BuildClientArgs c) hs K"

subsection \<open>Terminating, capturing, waiting for readiness\<close>

definition close_pipes :: "WinHandles \<times> win_kernel \<Rightarrow> WinHandles \<times> win_kernel" where
  "close_pipes s = (case s of (hs, K) \<Rightarrow>
     (hs\<lparr>wh_stdOutRead := None, wh_stdOutWrite := None\<rparr>,
      CloseHandle (wh_stdOutWrite hs) (CloseHandle (wh_stdOutRead hs) K)))"

definition win_TerminateProcess :: "WinHandles \<Rightarrow> win_kernel \<Rightarrow> WinHandles \<times> win_kernel" where
  "win_TerminateProcess hs K =
     close_pipes
      (case wh_hProcess hs of
         None \<Rightarrow> (hs, K)
       | Some p \<Rightarrow> (hs\<lparr>wh_hProcess := None\<rparr>,
           CloseHandle (wh_hThread hs) (CloseHandle (Some p) (wait_process (Some p) (kill_process (Some p) K)))))"

text \<open>\<open>reads\<close> as in the POSIX branch: an empty one, or the end of the list, is a failed \<open>ReadFile\<close> or no bytes.\<close>

definition win_WaitForProcessAndCaptureOutput ::
  "bytes list \<Rightarrow> WinHandles \<Rightarrow> win_kernel \<Rightarrow> string \<times> WinHandles \<times> win_kernel" where
  "win_WaitForProcessAndCaptureOutput reads hs K =
     (let K = CloseHandle (wh_stdOutWrite hs) K;
          output = wh_startupOutput hs @ concat (map c_str (takeWhile (\<lambda>r. r \<noteq> []) reads));
          K = wait_process (wh_hProcess hs) (use_handle (wh_stdOutRead hs) K);
          K = CloseHandle (wh_stdOutRead hs) K;
          K = CloseHandle (wh_hProcess hs) K;
          K = CloseHandle (wh_hThread hs) K
      in (output, new_WinHandles, K))"

text \<open>One turn: the time since the start, the bytes peeked and read, the exit code if it can be had.\<close>

record win_poll =
  wp_elapsed :: int
  wp_read :: bytes
  wp_exitCode :: "32 word option"

definition STILL_ACTIVE :: "32 word" where
  "STILL_ACTIVE = 259"

definition exited_with :: "win_poll \<Rightarrow> 32 word option" where
  "exited_with p = (case wp_exitCode p of None \<Rightarrow> None | Some e \<Rightarrow> if e \<noteq> STILL_ACTIVE then Some e else None)"

fun win_WaitForServerReady :: "win_poll list \<Rightarrow> int \<Rightarrow> WinHandles \<Rightarrow> win_kernel \<Rightarrow> bool \<times> WinHandles \<times> win_kernel" where
  "win_WaitForServerReady [] timeoutMs hs K =
     (False, hs\<lparr>wh_startupOutput := wh_startupOutput hs @
        newline @ ''[ProcessManager] Timeout waiting for server readiness.'' @ newline\<rparr>, K)"
| "win_WaitForServerReady (p # ps) timeoutMs hs K =
     (if wp_elapsed p \<ge> timeoutMs then win_WaitForServerReady [] timeoutMs hs K
      else let K = use_handle (wh_stdOutRead hs) K;
             hs = (if wp_read p \<noteq> [] then hs\<lparr>wh_startupOutput := wh_startupOutput hs @ wp_read p\<rparr> else hs)
        in if wp_read p \<noteq> [] \<and> HasServerReadyMarker (wh_startupOutput hs) then (True, hs, K)
           else let K = use_handle (wh_hProcess hs) K
             in (case exited_with p of
                   Some e \<Rightarrow> (False, hs\<lparr>wh_startupOutput := wh_startupOutput hs @ newline @
                     ''[ProcessManager] Server process exited early during startup (exitCode='' @
                     show_nat (unat e) @ '').'' @ newline\<rparr>, K)
                 | None \<Rightarrow> win_WaitForServerReady ps timeoutMs hs K))"

text \<open>
  \<open>CaptureCommandOutput\<close>: the output is read only after the process has ended or was killed. Its own failures
  of \<open>SetHandleInformation\<close> and \<open>CreateProcessA\<close> close the pipe.
\<close>

definition win_CaptureCommandOutput ::
  "file_system \<Rightarrow> win_env \<Rightarrow> bool \<Rightarrow> bytes list \<Rightarrow> string \<Rightarrow> string list \<Rightarrow> win_kernel \<Rightarrow> string \<times> win_kernel" where
  "win_CaptureCommandOutput fs env timed_out reads exe args K =
     (if \<not> we_pipe env then ([], K)
      else let r = Some (wk_next K); w = Some (Suc (wk_next K)); K = new_handle (new_handle K)
        in if \<not> we_inherit env then ([], CloseHandle w (CloseHandle r K))
           else case CreateProcessWithStdoutHandle fs env exe (BuildCommandLine exe args) w new_WinHandles K of
               (False, hs, K) \<Rightarrow> ([], CloseHandle w (CloseHandle r K))
             | (True, hs, K) \<Rightarrow>
                 let K = wait_process (wh_hProcess hs) (CloseHandle w K);
                     K = (if timed_out then wait_process (wh_hProcess hs) (kill_process (wh_hProcess hs) K) else K);
                     output = concat (takeWhile (\<lambda>x. x \<noteq> []) reads);
                     K = CloseHandle r (use_handle r K)
                 in (TrimCopy output, CloseHandle (wh_hThread hs) (CloseHandle (wh_hProcess hs) K)))"

subsection \<open>The same text as on POSIX\<close>

definition posix_poll :: "win_poll \<Rightarrow> poll" where
  "posix_poll p = \<lparr>po_elapsed = wp_elapsed p, po_read = wp_read p, po_exited = (exited_with p \<noteq> None)\<rparr>"

lemma win_ready_as_posix:
  assumes "wh_startupOutput hs = ph_startupOutput h"
    and "win_WaitForServerReady polls t hs K = (ok, hs', K')"
    and "WaitForServerReady (map posix_poll polls) t h = (ok1, h')"
  shows "ok = ok1 \<and> (ok \<longrightarrow> wh_startupOutput hs' = ph_startupOutput h')"
  using assms
proof (induction polls t hs K arbitrary: h rule: win_WaitForServerReady.induct)
  case (2 p ps t hs K)
  let ?hs = "if wp_read p \<noteq> [] then hs\<lparr>wh_startupOutput := wh_startupOutput hs @ wp_read p\<rparr> else hs"
  let ?h = "if wp_read p \<noteq> [] then h\<lparr>ph_startupOutput := ph_startupOutput h @ wp_read p\<rparr> else h"
  have same: "wh_startupOutput ?hs = ph_startupOutput ?h" using "2.prems"(1) by simp
  show ?case
  proof (cases "wp_elapsed p \<ge> t \<or> (wp_read p \<noteq> [] \<and> HasServerReadyMarker (wh_startupOutput ?hs)) \<or> exited_with p \<noteq> None")
    case True
    with "2.prems" same show ?thesis
      by (auto simp: posix_poll_def Let_def split: if_splits option.splits)
  next
    case False
    with "2.prems" same show ?thesis
      by (intro "2.IH"(2) [OF _ refl refl _ refl, where h = ?h]) (auto simp: posix_poll_def Let_def split: if_splits)
  qed
qed auto

subsection \<open>The processes of a connection\<close>

text \<open>
  How \<open>ControlServer::HandleClient\<close> uses the process manager: a configuration launches a process and waits
  for its readiness, a request for results captures its output, and the end of the connection terminates a
  process that still runs. \<open>wc_leaks\<close> counts the launches in which \<open>SetHandleInformation\<close> failed.
\<close>

datatype win_use =
    Use_config win_env string TestConfig "win_poll list"
  | Use_results "bytes list"
  | Use_end

record win_conn =
  wc_running :: bool
  wc_handles :: WinHandles
  wc_kernel :: win_kernel
  wc_leaks :: nat
  wc_outputs :: "string list"

definition new_win_conn :: win_conn where
  "new_win_conn = \<lparr>wc_running = False, wc_handles = new_WinHandles,
     wc_kernel = \<lparr>wk_next = 0, wk_open = [], wk_faults = [], wk_spawned = [], wk_killed = [], wk_waited = []\<rparr>,
     wc_leaks = 0, wc_outputs = []\<rparr>"

definition pipe_leaks :: "file_system \<Rightarrow> win_env \<Rightarrow> string \<Rightarrow> bool" where
  "pipe_leaks fs env path \<longleftrightarrow> win_ValidateIpeftcPath fs env path \<and> we_pipe env \<and> \<not> we_inherit env"

definition use_config :: "file_system \<Rightarrow> int \<Rightarrow> win_env \<Rightarrow> string \<Rightarrow> TestConfig \<Rightarrow> win_poll list \<Rightarrow> win_conn \<Rightarrow> win_conn" where
  "use_config fs timeoutMs env path cfg polls c =
     (case win_LaunchIPEFTCServer fs env path cfg (wc_handles c) (wc_kernel c) of
        (False, hs, K) \<Rightarrow> c\<lparr>wc_handles := hs, wc_kernel := K,
          wc_leaks := wc_leaks c + (if pipe_leaks fs env path then 1 else 0)\<rparr>
      | (True, hs, K) \<Rightarrow>
          (case win_WaitForServerReady polls timeoutMs hs K of
             (True, hs, K) \<Rightarrow> c\<lparr>wc_running := True, wc_handles := hs, wc_kernel := K\<rparr>
           | (False, hs, K) \<Rightarrow>
               let (hs, K) = win_TerminateProcess hs K
               in c\<lparr>wc_running := False, wc_handles := hs, wc_kernel := K\<rparr>))"

fun use_step :: "file_system \<Rightarrow> int \<Rightarrow> win_use \<Rightarrow> win_conn \<Rightarrow> win_conn" where
  "use_step fs timeoutMs (Use_config env path cfg polls) c = use_config fs timeoutMs env path cfg polls c"
| "use_step fs timeoutMs (Use_results reads) c =
     (if wc_running c
      then let (output, hs, K) = win_WaitForProcessAndCaptureOutput reads (wc_handles c) (wc_kernel c)
        in c\<lparr>wc_running := False, wc_handles := hs, wc_kernel := K, wc_outputs := wc_outputs c @ [output]\<rparr>
      else c)"
| "use_step fs timeoutMs Use_end c =
     (if wc_running c
      then let (hs, K) = win_TerminateProcess (wc_handles c) (wc_kernel c)
        in c\<lparr>wc_running := False, wc_handles := hs, wc_kernel := K\<rparr>
      else c)"

text \<open>No configuration comes while a process runs.\<close>

fun orderly :: "file_system \<Rightarrow> int \<Rightarrow> win_use list \<Rightarrow> win_conn \<Rightarrow> bool" where
  "orderly fs t [] c = True"
| "orderly fs t (u # us) c =
     ((case u of Use_config env path cfg polls \<Rightarrow> \<not> wc_running c | _ \<Rightarrow> True) \<and> orderly fs t us (use_step fs t u c))"

definition after_uses :: "file_system \<Rightarrow> int \<Rightarrow> win_use list \<Rightarrow> win_conn" where
  "after_uses fs t us = fold (use_step fs t) us new_win_conn"

definition kernel_ok :: "win_kernel \<Rightarrow> bool" where
  "kernel_ok K \<longleftrightarrow> wk_faults K = [] \<and> distinct (wk_open K) \<and> (\<forall>h \<in> set (wk_open K). h < wk_next K)"

definition owns :: "WinHandles \<Rightarrow> win_kernel \<Rightarrow> nat \<Rightarrow> nat \<Rightarrow> nat \<Rightarrow> bool" where
  "owns hs K p t r \<longleftrightarrow> wh_hProcess hs = Some p \<and> wh_hThread hs = Some t \<and> wh_stdOutRead hs = Some r \<and>
     wh_stdOutWrite hs = None \<and> distinct [p, t, r] \<and> {p, t, r} \<subseteq> set (wk_open K)"

text \<open>\<open>K'\<close> has let go of the three handles of a process and has waited for it.\<close>

definition released :: "nat \<Rightarrow> nat \<Rightarrow> nat \<Rightarrow> win_kernel \<Rightarrow> win_kernel \<Rightarrow> bool" where
  "released p t r K K' \<longleftrightarrow> wk_faults K' = wk_faults K \<and> wk_next K' = wk_next K \<and> wk_spawned K' = wk_spawned K \<and>
     wk_waited K' = wk_waited K @ [p] \<and> wk_open K' = filter (\<lambda>h. h \<notin> {p, t, r}) (wk_open K)"

lemmas handle_defs = CloseHandle_def use_handle_def wait_process_def kill_process_def new_handle_def

lemma capture_releases:
  assumes "owns hs K p t r" and "win_WaitForProcessAndCaptureOutput reads hs K = (output, hs', K')"
  shows "released p t r K K'"
  using assms
  by (auto simp: owns_def released_def win_WaitForProcessAndCaptureOutput_def handle_defs Let_def removeAll_filter_not_eq
      intro!: filter_cong)

lemma terminate_releases:
  assumes "owns hs K p t r" and "win_TerminateProcess hs K = (hs', K')"
  shows "released p t r K K'"
  using assms
  by (auto simp: owns_def released_def win_TerminateProcess_def close_pipes_def handle_defs Let_def removeAll_filter_not_eq
      intro!: filter_cong)

lemma ready_keeps:
  assumes "owns hs K p t r" and "win_WaitForServerReady polls timeoutMs hs K = (ok, hs', K')"
  shows "owns hs' K p t r \<and> K' = K"
  using assms
proof (induction polls timeoutMs hs K rule: win_WaitForServerReady.induct)
  case (1 timeoutMs hs K)
  then show ?case by (auto simp: owns_def)
next
  case (2 q ps timeoutMs hs K)
  let ?hs = "if wp_read q \<noteq> [] then hs\<lparr>wh_startupOutput := wh_startupOutput hs @ wp_read q\<rparr> else hs"
  have K: "use_handle (wh_stdOutRead hs) K = K" "use_handle (wh_hProcess ?hs) K = K" and hs: "owns ?hs K p t r"
    using "2.prems"(1) by (auto simp: owns_def use_handle_def)
  show ?case
    using "2.prems" "2.IH"(1) K hs "2.IH"(2) [OF _ refl refl _ refl]
    by (auto simp: Let_def owns_def split: if_splits option.splits)
qed

text \<open>The three ways a launch can end.\<close>

lemma launch_cases:
  assumes "kernel_ok K" and "win_launch fs env path args hs K = (ok, hs', K')"
  shows "kernel_ok K' \<and> wk_waited K' = wk_waited K \<and>
    (if ok then \<exists>p t r. owns hs' K' p t r \<and> map fst (wk_spawned K') = map fst (wk_spawned K) @ [p] \<and>
        length (wk_open K') = length (wk_open K) + 3
     else wk_spawned K' = wk_spawned K \<and>
        length (wk_open K') = length (wk_open K) + (if pipe_leaks fs env path then 2 else 0))"
proof -
  have fresh: "wk_next K \<notin> set (wk_open K)" "Suc (wk_next K) \<notin> set (wk_open K)"
    "Suc (Suc (wk_next K)) \<notin> set (wk_open K)" "Suc (Suc (Suc (wk_next K))) \<notin> set (wk_open K)"
    using assms(1) by (fastforce simp: kernel_ok_def)+
  have lt: "h \<in> set (wk_open K) \<Longrightarrow> h < Suc (Suc (wk_next K)) \<and> h < Suc (Suc (Suc (Suc (wk_next K))))" for h
    using assms(1) by (fastforce simp: kernel_ok_def)
  show ?thesis
    using assms fresh lt
    by (auto simp: win_launch_def CreatePipes_def CreateProcessWithStdoutHandle_def Let_def handle_defs kernel_ok_def
        owns_def pipe_leaks_def less_Suc_eq split: if_splits)
qed

text \<open>
  What holds between the uses: no handle misused, the handles open are the three of the running process and
  those leaked, and every other process was waited for.
\<close>

definition accounted :: "win_conn \<Rightarrow> bool" where
  "accounted c \<longleftrightarrow> kernel_ok (wc_kernel c) \<and>
     (if wc_running c
      then \<exists>p t r. owns (wc_handles c) (wc_kernel c) p t r \<and>
        map fst (wk_spawned (wc_kernel c)) = wk_waited (wc_kernel c) @ [p] \<and>
        length (wk_open (wc_kernel c)) = 2 * wc_leaks c + 3
      else map fst (wk_spawned (wc_kernel c)) = wk_waited (wc_kernel c) \<and>
        length (wk_open (wc_kernel c)) = 2 * wc_leaks c)"

lemma length_without_three:
  assumes "distinct xs" "distinct [p, t, r]" "{p, t, r} \<subseteq> set xs"
  shows "length (filter (\<lambda>h. h \<notin> {p, t, r}) xs) + 3 = length xs"
proof -
  have "set (filter (\<lambda>h. h \<notin> {p, t, r}) xs) = set xs - {p, t, r}" by auto
  then have "length (filter (\<lambda>h. h \<notin> {p, t, r}) xs) = card (set xs - {p, t, r})"
    using assms(1) by (metis distinct_card distinct_filter)
  moreover have "card {p, t, r} = 3" using assms(2) by simp
  moreover have "card (set xs - {p, t, r}) + card {p, t, r} = card (set xs)"
    using card_Diff_subset [OF _ assms(3)] card_mono [OF _ assms(3)] by simp
  ultimately show ?thesis using assms(1) by (simp add: distinct_card)
qed

lemma released_facts:
  assumes "released p t r K K'" and "owns hs K p t r" and "kernel_ok K"
  shows "kernel_ok K'" "wk_waited K' = wk_waited K @ [p]" "wk_spawned K' = wk_spawned K"
    "length (wk_open K') + 3 = length (wk_open K)"
  using assms length_without_three [of "wk_open K" p t r] by (auto simp: released_def owns_def kernel_ok_def)

lemma use_config_accounted:
  assumes "accounted c" and "\<not> wc_running c"
  shows "accounted (use_config fs timeoutMs env path cfg polls c)"
proof -
  obtain ok hs K where l: "win_launch fs env path (BuildServerArgs cfg) (wc_handles c) (wc_kernel c) = (ok, hs, K)"
    by (metis prod_cases3)
  have a: "kernel_ok (wc_kernel c)" "map fst (wk_spawned (wc_kernel c)) = wk_waited (wc_kernel c)"
    "length (wk_open (wc_kernel c)) = 2 * wc_leaks c" using assms by (auto simp: accounted_def)
  note L = launch_cases [OF a(1) l]
  show ?thesis
  proof (cases ok)
    case False
    with L l a assms(2) show ?thesis
      by (simp add: use_config_def win_LaunchIPEFTCServer_def accounted_def)
  next
    case True
    with L obtain p t r where o: "owns hs K p t r" "map fst (wk_spawned K) = wk_waited K @ [p]"
      "length (wk_open K) = 2 * wc_leaks c + 3" "kernel_ok K" using a by auto
    obtain ready hs1 K1 where w: "win_WaitForServerReady polls timeoutMs hs K = (ready, hs1, K1)"
      by (metis prod_cases3)
    obtain hs2 K2 where t: "win_TerminateProcess hs1 K1 = (hs2, K2)" by fastforce
    have o1: "owns hs1 K1 p t r" "K1 = K" using ready_keeps [OF o(1) w] by auto
    show ?thesis
      using released_facts [OF terminate_releases [OF o1(1) t] o1(1)] o o1 l w t True
      by (cases ready) (auto simp: use_config_def win_LaunchIPEFTCServer_def accounted_def)
  qed
qed

lemma use_step_accounted:
  assumes "accounted c" and "case u of Use_config env path cfg polls \<Rightarrow> \<not> wc_running c | _ \<Rightarrow> True"
  shows "accounted (use_step fs timeoutMs u c)"
proof (cases "wc_running c")
  case True
  then obtain p t r where o: "owns (wc_handles c) (wc_kernel c) p t r" "kernel_ok (wc_kernel c)"
    "map fst (wk_spawned (wc_kernel c)) = wk_waited (wc_kernel c) @ [p]"
    "length (wk_open (wc_kernel c)) = 2 * wc_leaks c + 3"
    using assms(1) by (auto simp: accounted_def)
  show ?thesis
  proof (cases u)
    case (Use_results reads)
    obtain out hs K where x: "win_WaitForProcessAndCaptureOutput reads (wc_handles c) (wc_kernel c) = (out, hs, K)"
      by (metis prod_cases3)
    show ?thesis using released_facts [OF capture_releases [OF o(1) x] o(1,2)] o x True Use_results
      by (simp add: accounted_def)
  next
    case Use_end
    obtain hs K where x: "win_TerminateProcess (wc_handles c) (wc_kernel c) = (hs, K)" by fastforce
    show ?thesis using released_facts [OF terminate_releases [OF o(1) x] o(1,2)] o x True Use_end
      by (simp add: accounted_def)
  qed (use assms(2) True in simp)
next
  case False
  with assms use_config_accounted show ?thesis by (cases u) auto
qed

lemma uses_accounted: "orderly fs t us c \<Longrightarrow> accounted c \<Longrightarrow> accounted (fold (use_step fs t) us c)"
  by (induction us arbitrary: c) (auto intro!: use_step_accounted)

text \<open>
  C39: On Windows, whatever the system calls return and however the processes behave, a connection of the
  test runner that starts no process while one runs never uses or closes a handle that is not open; once it
  has ended, every process it started was waited for, and the only handles still open are two for each
  launch in which the pipe was created and \<open>SetHandleInformation\<close> failed.
\<close>

theorem windows_handles_accounted:
  assumes "orderly fs t us new_win_conn"
  shows "let c = use_step fs t Use_end (after_uses fs t us) in
    wk_faults (wc_kernel c) = [] \<and> wk_waited (wc_kernel c) = map fst (wk_spawned (wc_kernel c)) \<and>
    length (wk_open (wc_kernel c)) = 2 * wc_leaks c"
proof -
  have "accounted new_win_conn" by (simp add: accounted_def new_win_conn_def kernel_ok_def)
  then have "accounted (use_step fs t Use_end (after_uses fs t us))"
    using uses_accounted [OF assms] use_step_accounted [of _ Use_end] by (simp add: after_uses_def)
  moreover have "\<not> wc_running (use_step fs t Use_end (after_uses fs t us))" by (simp add: case_prod_unfold Let_def)
  ultimately show ?thesis by (simp add: accounted_def kernel_ok_def Let_def)
qed

subsection \<open>Two ways to close a handle twice\<close>

definition win_fs :: file_system where
  "win_fs = \<lparr>fs_exists = (\<lambda>f. True), fs_is_directory = (\<lambda>f. False), fs_access = (\<lambda>f. True), fs_normal = id,
     fs_cwd = [], fs_exe_dir = [], fs_PATH = None\<rparr>"

definition win_good :: win_env where
  "win_good = \<lparr>we_pipe = True, we_inherit = True, we_create = True, we_search = (\<lambda>f. True)\<rparr>"

definition win_start :: "win_env \<Rightarrow> win_use" where
  "win_start env = Use_config env ''IPEFTC'' default_TestConfig
     [\<lparr>wp_elapsed = 0, wp_read = ''Server is running. Waiting for the test to complete'', wp_exitCode = None\<rparr>]"

lemma win_marker: "HasServerReadyMarker ''Server is running. Waiting for the test to complete''"
  by (simp add: HasServerReadyMarker_def contains_sub_def)

lemmas win_run = use_config_def win_LaunchIPEFTCServer_def win_launch_def CreatePipes_def
  CreateProcessWithStdoutHandle_def win_ValidateIpeftcPath_def win_WaitForProcessAndCaptureOutput_def
  win_TerminateProcess_def close_pipes_def handle_defs new_win_conn_def new_WinHandles_def win_start_def
  win_good_def win_fs_def FileExists_def after_uses_def

theorem windows_handles_accounted_witness:
  "let us = [win_start win_good, Use_results [''done'', []], win_start (win_good\<lparr>we_inherit := False\<rparr>),
       win_start (win_good\<lparr>we_create := False\<rparr>), win_start win_good];
     c = use_step win_fs 20000 Use_end (after_uses win_fs 20000 us) in
   wk_faults (wc_kernel c) = [] \<and> wk_waited (wc_kernel c) = map fst (wk_spawned (wc_kernel c)) \<and>
   length (wk_open (wc_kernel c)) = 2 * wc_leaks c"
  unfolding Let_def
  by (rule windows_handles_accounted [unfolded Let_def]) (simp add: win_run win_marker Let_def)

text \<open>
  A launch that fails keeps the values of the handles it has closed. When an earlier process still runs, the
  request for results then closes the write end again and reads from the closed read end.
\<close>

lemma failed_launch_closes_twice:
  "wk_faults (wc_kernel (after_uses win_fs 20000
     [win_start win_good, win_start (win_good\<lparr>we_create := False\<rparr>), Use_results []])) \<noteq> []"
  by (simp add: win_run win_marker Let_def)

end
