(* ===== verification/WinChild.thy ===== *)
theory WinChild
  imports WinProcess PipeVerifier
begin

section \<open>A child process of the verifier on Windows\<close>

text \<open>
  The Windows branch of \<open>ChildProcess\<close> in \<open>ResultPipeVerifier/src/main.cpp\<close>, with the ledger of handles of
  \<open>WinProcess\<close>. As in the POSIX branch, a turn of a polling loop gives the output that the reading thread
  got since the last turn and the answer about the process, here its exit code if it can be had. The main
  fact: whatever happens to the child, every handle is closed once (\<open>win_child_released\<close>), and what the
  verifier reports of it is what the POSIX branch reports (\<open>win_child_as_posix\<close>).
\<close>

definition quoteArg :: "string \<Rightarrow> string" where
  "quoteArg arg =
     (if arg = [] then [CHR 0x22, CHR 0x22]
      else if set arg \<inter> {CHR '' '', CHR 0x09, CHR 0x22} = {} then arg
      else [CHR 0x22] @
        concat (map (\<lambda>ch. if ch = CHR 0x22 then [CHR 0x5C, CHR 0x22] else [ch]) arg) @ [CHR 0x22])"

definition joinCommandLine :: "string \<Rightarrow> string list \<Rightarrow> string" where
  "joinCommandLine exe args = foldl (\<lambda>cmd arg. cmd @ '' '' @ quoteArg arg) (quoteArg exe) args"

lemma joinCommandLine_runner: "joinCommandLine = BuildCommandLine"
  by (intro ext) (simp add: joinCommandLine_def BuildCommandLine_def quoteArg_def QuoteArgument_def)

record WinChild =
  wc_started :: bool
  wc_exited :: bool
  wc_timedOut :: bool
  wc_exitCode :: int
  wc_output :: string
  wc_processHandle :: "nat option"
  wc_threadHandle :: "nat option"
  wc_stdoutRead :: "nat option"

definition new_WinChild :: WinChild where
  "new_WinChild = \<lparr>wc_started = False, wc_exited = False, wc_timedOut = False, wc_exitCode = -1, wc_output = [],
     wc_processHandle = None, wc_threadHandle = None, wc_stdoutRead = None\<rparr>"

text \<open>\<open>startWindows\<close>; the error names the call that failed with \<open>GetLastError\<close>.\<close>

definition startWindows ::
  "file_system \<Rightarrow> win_env \<Rightarrow> nat \<Rightarrow> string \<Rightarrow> string list \<Rightarrow> WinChild \<Rightarrow> win_kernel \<Rightarrow>
   (string + WinChild) \<times> win_kernel" where
  "startWindows fs env lastError exe args p K =
     (if \<not> we_pipe env then (Inl (''CreatePipe failed: '' @ show_nat lastError), K)
      else let r = Some (wk_next K); w = Some (Suc (wk_next K)); K = new_handle (new_handle K)
        in if \<not> we_inherit env
           then (Inl (''SetHandleInformation failed: '' @ show_nat lastError), CloseHandle w (CloseHandle r K))
           else let commandLine = joinCommandLine exe args;
                  appName = (if FileExists fs exe then Some exe else None);
                  K = use_handle w K
             in if \<not> we_create env
                then (Inl (''CreateProcess failed: '' @ show_nat lastError @ '' command='' @ commandLine),
                  CloseHandle r (CloseHandle w K))
                else (Inr (p\<lparr>wc_processHandle := Some (wk_next K), wc_threadHandle := Some (Suc (wk_next K)),
                    wc_stdoutRead := r, wc_started := True\<rparr>),
                  CloseHandle w ((new_handle (new_handle K))
                    \<lparr>wk_spawned := wk_spawned K @ [(wk_next K, appName, commandLine)]\<rparr>)))"

definition win_append :: "bytes \<Rightarrow> WinChild \<Rightarrow> WinChild" where
  "win_append data p = p\<lparr>wc_output := wc_output p @ data\<rparr>"

text \<open>What \<open>readerLoopWindows\<close> has got; it does not run without a pipe.\<close>

definition win_reader_output :: "bytes \<Rightarrow> WinChild \<Rightarrow> WinChild" where
  "win_reader_output data p = (if wc_stdoutRead p = None then p else win_append data p)"

definition win_pollExited :: "32 word option \<Rightarrow> WinChild \<Rightarrow> WinChild" where
  "win_pollExited answer p =
     (if wc_exited p then p
      else if wc_processHandle p = None then p
      else case answer of
             None \<Rightarrow> p
           | Some code \<Rightarrow> if code \<noteq> STILL_ACTIVE then p\<lparr>wc_exitCode := sint code, wc_exited := True\<rparr> else p)"

definition closeHandles :: "WinChild \<Rightarrow> win_kernel \<Rightarrow> WinChild \<times> win_kernel" where
  "closeHandles p K =
     (p\<lparr>wc_stdoutRead := None, wc_threadHandle := None, wc_processHandle := None\<rparr>,
      CloseHandle (wc_processHandle p) (CloseHandle (wc_threadHandle p) (CloseHandle (wc_stdoutRead p) K)))"

definition win_joinReader :: "bytes list \<Rightarrow> WinChild \<Rightarrow> win_kernel \<Rightarrow> WinChild \<times> win_kernel" where
  "win_joinReader reads p K =
     closeHandles (win_reader_output (concat (takeWhile (\<lambda>r. r \<noteq> []) reads)) p) (use_handle (wc_stdoutRead p) K)"

definition win_terminate :: "WinChild \<Rightarrow> win_kernel \<Rightarrow> win_kernel" where
  "win_terminate p K = (if wc_exited p then K else kill_process (wc_processHandle p) K)"

record win_turn =
  wt_output :: bytes
  wt_exitCode :: "32 word option"

fun win_wait_loop :: "win_turn list \<Rightarrow> WinChild \<Rightarrow> bool \<times> WinChild" where
  "win_wait_loop [] p = (False, p)"
| "win_wait_loop (t # ts) p =
     (let p = win_pollExited (wt_exitCode t) (win_reader_output (wt_output t) p)
      in if wc_exited p then (True, p) else win_wait_loop ts p)"

record win_wait_env =
  ww_turns :: "win_turn list"
  ww_last :: "32 word option"
  ww_reads :: "bytes list"

definition win_waitFor :: "win_wait_env \<Rightarrow> WinChild \<Rightarrow> win_kernel \<Rightarrow> bool \<times> WinChild \<times> win_kernel" where
  "win_waitFor env p K =
     (case win_wait_loop (ww_turns env) p of
        (True, p) \<Rightarrow> (True, win_joinReader (ww_reads env) p K)
      | (False, p) \<Rightarrow>
          let p = p\<lparr>wc_timedOut := True\<rparr>; K = win_terminate p K
          in (False, win_joinReader (ww_reads env) (win_pollExited (ww_last env) p) K))"

fun win_waitForOutput :: "string \<Rightarrow> win_turn list \<Rightarrow> WinChild \<Rightarrow> bool \<times> WinChild" where
  "win_waitForOutput marker [] p = (contains_sub (wc_output p) marker, p)"
| "win_waitForOutput marker (t # ts) p =
     (let p = win_reader_output (wt_output t) p
      in if contains_sub (wc_output p) marker then (True, p)
         else let p = win_pollExited (wt_exitCode t) p
              in if wc_exited p then (contains_sub (wc_output p) marker, p) else win_waitForOutput marker ts p)"

text \<open>The destructor.\<close>

definition win_destroy :: "win_wait_env \<Rightarrow> WinChild \<Rightarrow> win_kernel \<Rightarrow> WinChild \<times> win_kernel" where
  "win_destroy env p K =
     (let K = win_terminate p K;
          (p, K) = win_joinReader (ww_reads env) (win_pollExited (ww_last env) p) K
      in closeHandles p K)"

subsection \<open>Handles\<close>

text \<open>The child's handles are those of three different open objects, or it has none.\<close>

definition child_owns :: "WinChild \<Rightarrow> win_kernel \<Rightarrow> nat list \<Rightarrow> bool" where
  "child_owns p K base \<longleftrightarrow> kernel_ok K \<and>
     (case (wc_stdoutRead p, wc_threadHandle p, wc_processHandle p) of
        (Some r, Some t, Some h) \<Rightarrow> distinct [r, t, h] \<and> {r, t, h} \<inter> set base = {} \<and>
          set (wk_open K) = set base \<union> {r, t, h}
      | (None, None, None) \<Rightarrow> set (wk_open K) = set base
      | _ \<Rightarrow> False)"

lemma win_poll_handles [simp]:
  "wc_stdoutRead (win_pollExited a p) = wc_stdoutRead p" "wc_threadHandle (win_pollExited a p) = wc_threadHandle p"
  "wc_processHandle (win_pollExited a p) = wc_processHandle p"
  "wc_stdoutRead (win_reader_output d p) = wc_stdoutRead p" "wc_threadHandle (win_reader_output d p) = wc_threadHandle p"
  "wc_processHandle (win_reader_output d p) = wc_processHandle p"
  by (auto simp: win_pollExited_def win_reader_output_def win_append_def split: option.split)

lemma wait_loop_handles:
  "win_wait_loop ts p = (ok, p') \<Longrightarrow> wc_stdoutRead p' = wc_stdoutRead p \<and> wc_threadHandle p' = wc_threadHandle p \<and>
     wc_processHandle p' = wc_processHandle p"
  by (induction ts p rule: win_wait_loop.induct) (auto simp: Let_def split: if_splits)

lemma waitForOutput_handles:
  "win_waitForOutput m ts p = (ok, p') \<Longrightarrow> wc_stdoutRead p' = wc_stdoutRead p \<and> wc_threadHandle p' = wc_threadHandle p \<and>
     wc_processHandle p' = wc_processHandle p"
  by (induction m ts p rule: win_waitForOutput.induct) (auto simp: Let_def split: if_splits)

lemma child_owns_cong:
  "wc_stdoutRead p' = wc_stdoutRead p \<Longrightarrow> wc_threadHandle p' = wc_threadHandle p \<Longrightarrow>
     wc_processHandle p' = wc_processHandle p \<Longrightarrow> child_owns p' K base = child_owns p K base"
  by (simp add: child_owns_def)

text \<open>Closing gives everything back, and a second time changes nothing.\<close>

lemma closed_handles:
  assumes "child_owns p K base"
  shows "child_owns (fst (closeHandles p K)) (snd (closeHandles p K)) base"
    and "wc_processHandle (fst (closeHandles p K)) = None"
proof -
  show "child_owns (fst (closeHandles p K)) (snd (closeHandles p K)) base"
    using assms
    by (auto simp: child_owns_def closeHandles_def CloseHandle_def use_handle_def kernel_ok_def distinct_removeAll
        split: option.splits)
qed (simp add: closeHandles_def)

lemma join_handles:
  assumes "child_owns p K base"
  shows "child_owns (fst (win_joinReader reads p K)) (snd (win_joinReader reads p K)) base"
    and "wc_processHandle (fst (win_joinReader reads p K)) = None"
proof -
  let ?p = "win_reader_output (concat (takeWhile (\<lambda>r. r \<noteq> []) reads)) p"
  have "use_handle (wc_stdoutRead p) K = K"
    using assms by (auto simp: child_owns_def use_handle_def split: option.splits)
  moreover have "child_owns ?p K base" using assms child_owns_cong [of ?p p] by simp
  ultimately show "child_owns (fst (win_joinReader reads p K)) (snd (win_joinReader reads p K)) base"
    "wc_processHandle (fst (win_joinReader reads p K)) = None"
    using closed_handles [of ?p K base] by (simp_all add: win_joinReader_def)
qed

lemma terminate_handles: "child_owns p K base \<Longrightarrow> child_owns p (win_terminate p K) base"
  by (auto simp: child_owns_def win_terminate_def kill_process_def use_handle_def kernel_ok_def split: option.splits)

lemma waitFor_handles:
  assumes "child_owns p K base"
  shows "child_owns (fst (snd (win_waitFor env p K))) (snd (snd (win_waitFor env p K))) base"
proof -
  obtain ok p1 where l: "win_wait_loop (ww_turns env) p = (ok, p1)" by fastforce
  have a: "child_owns p1 K base" using assms child_owns_cong [of p1 p] wait_loop_handles [OF l] by simp
  show ?thesis
  proof (cases ok)
    case True
    then show ?thesis using l join_handles(1) [OF a] by (simp add: win_waitFor_def)
  next
    case False
    let ?p = "p1\<lparr>wc_timedOut := True\<rparr>"
    have "child_owns ?p K base" using a by (simp add: child_owns_def)
    then have "child_owns (win_pollExited (ww_last env) ?p) (win_terminate ?p K) base"
      using terminate_handles child_owns_cong [of "win_pollExited (ww_last env) ?p" ?p] by simp
    from join_handles(1) [OF this] show ?thesis using l False by (simp add: win_waitFor_def Let_def)
  qed
qed

lemma destroy_handles:
  assumes "child_owns p K base"
  shows "child_owns (fst (win_destroy env p K)) (snd (win_destroy env p K)) base"
    and "wc_processHandle (fst (win_destroy env p K)) = None"
proof -
  have "child_owns (win_pollExited (ww_last env) p) (win_terminate p K) base"
    using terminate_handles [OF assms] child_owns_cong [of "win_pollExited (ww_last env) p" p] by simp
  from closed_handles [OF join_handles(1) [OF this, of "ww_reads env"]]
  show "child_owns (fst (win_destroy env p K)) (snd (win_destroy env p K)) base"
    "wc_processHandle (fst (win_destroy env p K)) = None"
    by (simp_all add: win_destroy_def case_prod_unfold Let_def)
qed

lemma start_handles:
  assumes "kernel_ok K" and "startWindows fs env e exe args new_WinChild K = (res, K')"
  shows "case res of Inl msg \<Rightarrow> kernel_ok K' \<and> set (wk_open K') = set (wk_open K)
    | Inr p \<Rightarrow> child_owns p K' (wk_open K)"
proof -
  have fresh: "wk_next K \<notin> set (wk_open K)" "Suc (wk_next K) \<notin> set (wk_open K)"
    "Suc (Suc (wk_next K)) \<notin> set (wk_open K)" "Suc (Suc (Suc (wk_next K))) \<notin> set (wk_open K)"
    using assms(1) by (fastforce simp: kernel_ok_def)+
  have lt: "h \<in> set (wk_open K) \<Longrightarrow> h < Suc (Suc (wk_next K)) \<and> h < Suc (Suc (Suc (Suc (wk_next K))))" for h
    using assms(1) by (fastforce simp: kernel_ok_def)
  show ?thesis
    using assms fresh lt
    by (auto simp: startWindows_def Let_def handle_defs kernel_ok_def child_owns_def new_WinChild_def less_Suc_eq
        split: if_splits)
qed

text \<open>
  A child started, waited for in any way and destroyed leaves the handles open that were open before, and no
  handle was used or closed when it was not open.
\<close>

lemma win_child_released:
  assumes "kernel_ok K" and "startWindows fs env e exe args new_WinChild K = (Inr p, K1)"
    and "win_waitForOutput marker turns p = (ready, p1)"
    and "win_waitFor w1 p1 K1 = (in_time, p2, K2)" and "win_destroy w2 p2 K2 = (p3, K3)"
  shows "wk_faults K3 = [] \<and> set (wk_open K3) = set (wk_open K)"
proof -
  have "child_owns p K1 (wk_open K)" using start_handles [OF assms(1,2)] by simp
  then have "child_owns p1 K1 (wk_open K)"
    using child_owns_cong [of p1 p] waitForOutput_handles [OF assms(3)] by simp
  then have "child_owns p2 K2 (wk_open K)" using waitFor_handles [of p1 K1 "wk_open K" w1] assms(4) by simp
  from destroy_handles [OF this, of w2] assms(5) show ?thesis
    by (auto simp: child_owns_def kernel_ok_def split: option.splits)
qed

subsection \<open>The same child on POSIX\<close>

definition posix_wait :: "32 word option \<Rightarrow> wait_status option" where
  "posix_wait a = (case a of None \<Rightarrow> None | Some c \<Rightarrow> if c \<noteq> STILL_ACTIVE then Some (WExited (nat (sint c))) else None)"

definition posix_turn :: "win_turn \<Rightarrow> child_turn" where
  "posix_turn t = \<lparr>tn_output = wt_output t, tn_wait = posix_wait (wt_exitCode t)\<rparr>"

definition posix_env :: "win_wait_env \<Rightarrow> wait_env" where
  "posix_env w = \<lparr>we_turns = map posix_turn (ww_turns w), we_term = None, we_last = posix_wait (ww_last w),
     we_reads = ww_reads w\<rparr>"

text \<open>Exit codes that fit the non-negative range of both systems.\<close>

definition code_ok :: "32 word option \<Rightarrow> bool" where
  "code_ok a \<longleftrightarrow> (case a of None \<Rightarrow> True | Some c \<Rightarrow> 0 \<le> sint c)"

definition same_child :: "WinChild \<Rightarrow> ChildProcess \<Rightarrow> bool" where
  "same_child p q \<longleftrightarrow> wc_started p = cp_started q \<and> wc_exited p = cp_exited q \<and> wc_timedOut p = cp_timedOut q \<and>
     wc_exitCode p = cp_exitCode q \<and> wc_output p = cp_output q \<and> (wc_stdoutRead p = None \<longleftrightarrow> cp_stdoutFd q = -1) \<and>
     (\<not> wc_exited p \<longrightarrow> (wc_processHandle p = None \<longleftrightarrow> cp_pid q \<le> 0))"

lemma same_poll: "same_child p q \<Longrightarrow> code_ok a \<Longrightarrow> same_child (win_pollExited a p) (pollExited (posix_wait a) q)"
  by (auto simp: same_child_def win_pollExited_def pollExited_def posix_wait_def code_ok_def split: option.split)

lemma same_output: "same_child p q \<Longrightarrow> same_child (win_reader_output d p) (reader_output d q)"
  by (auto simp: same_child_def win_reader_output_def reader_output_def win_append_def appendOutput_def)

lemma same_loop:
  assumes "same_child p q" and "\<forall>t \<in> set ts. code_ok (wt_exitCode t)"
    and "win_wait_loop ts p = (ok, p')" and "wait_loop (map posix_turn ts) q = (ok', q')"
  shows "ok = ok' \<and> same_child p' q'"
  using assms
proof (induction ts p arbitrary: q rule: win_wait_loop.induct)
  case (2 t ts p)
  let ?p = "win_pollExited (wt_exitCode t) (win_reader_output (wt_output t) p)"
  let ?q = "pollExited (posix_wait (wt_exitCode t)) (reader_output (wt_output t) q)"
  have s: "same_child ?p ?q" using 2 same_output same_poll by simp
  then have "wc_exited ?p = cp_exited ?q" by (simp add: same_child_def)
  with 2 s show ?case by (cases "wc_exited ?p") (auto simp: posix_turn_def Let_def)
qed simp

lemma same_wait_output:
  assumes "same_child p q" and "\<forall>t \<in> set ts. code_ok (wt_exitCode t)"
    and "win_waitForOutput m ts p = (ok, p')" and "waitForOutput m (map posix_turn ts) q = (ok', q')"
  shows "ok = ok' \<and> same_child p' q'"
  using assms
proof (induction m ts p arbitrary: q rule: win_waitForOutput.induct)
  case (1 m p)
  then show ?case by (auto simp: outputContains_def same_child_def)
next
  case (2 m t ts p)
  let ?p = "win_reader_output (wt_output t) p" and ?q = "reader_output (wt_output t) q"
  have s: "same_child ?p ?q" "same_child (win_pollExited (wt_exitCode t) ?p) (pollExited (posix_wait (wt_exitCode t)) ?q)"
    using 2 same_output same_poll by simp_all
  then have "wc_output ?p = cp_output ?q"
    "wc_exited (win_pollExited (wt_exitCode t) ?p) = cp_exited (pollExited (posix_wait (wt_exitCode t)) ?q)"
    "wc_output (win_pollExited (wt_exitCode t) ?p) = cp_output (pollExited (posix_wait (wt_exitCode t)) ?q)"
    by (simp_all add: same_child_def)
  with 2 s show ?case
    by (cases "contains_sub (wc_output ?p) m"; cases "wc_exited (win_pollExited (wt_exitCode t) ?p)")
      (auto simp: posix_turn_def outputContains_def Let_def)
qed

text \<open>What \<open>result\<close> gives of the child.\<close>

definition same_result :: "WinChild \<Rightarrow> ChildProcess \<Rightarrow> bool" where
  "same_result p q \<longleftrightarrow> wc_started p = cp_started q \<and> wc_timedOut p = cp_timedOut q \<and>
     wc_exitCode p = cp_exitCode q \<and> wc_output p = cp_output q"

lemma same_result_join: "same_child p q \<Longrightarrow> same_result (fst (win_joinReader reads p K)) (joinReader reads q)"
  using same_output [of p q "concat (takeWhile (\<lambda>r. r \<noteq> []) reads)"]
  by (auto simp: same_child_def same_result_def win_joinReader_def joinReader_def closeHandles_def win_reader_output_def
      reader_output_def win_append_def appendOutput_def)

lemma win_child_as_posix:
  assumes "same_child p q" and "\<forall>t \<in> set (ww_turns w). code_ok (wt_exitCode t)" and "code_ok (ww_last w)"
    and "win_waitFor w p K = (ok, p', K')" and "child_waitFor (posix_env w) q = (ok', q')"
  shows "ok = ok' \<and> same_result p' q'"
proof -
  obtain b p1 where l: "win_wait_loop (ww_turns w) p = (b, p1)" by fastforce
  obtain b' q1 where l': "wait_loop (map posix_turn (ww_turns w)) q = (b', q1)" by fastforce
  from same_loop [OF assms(1,2) l l'] have s: "b = b'" "same_child p1 q1" by auto
  show ?thesis
  proof (cases b)
    case True
    then show ?thesis
      using assms(4,5) l l' s same_result_join [OF s(2), of "ww_reads w" K]
      by (auto simp: win_waitFor_def child_waitFor_def posix_env_def)
  next
    case False
    let ?p = "p1\<lparr>wc_timedOut := True\<rparr>" and ?q = "child_terminate None (q1\<lparr>cp_timedOut := True\<rparr>)"
    have "same_child ?p ?q"
      using s(2) by (auto simp: same_child_def child_terminate_def pollExited_def Let_def)
    note J = same_result_join [OF same_poll [OF this assms(3)], of "ww_reads w" "win_terminate ?p K"]
    show ?thesis
      using assms(4,5) l l' s(1) False J
      by (auto simp: win_waitFor_def child_waitFor_def posix_env_def Let_def)
  qed
qed

end
