(* ===== verification/WinCommandLine.thy ===== *)
theory WinCommandLine
  imports WinProcess
begin

section \<open>Command lines on Windows\<close>

text \<open>
  On Windows a process gets one string, which the C runtime of the program started splits into \<open>argv\<close>:
  white space separates arguments outside of double quotes; \<open>2n\<close> backslashes before a quote stand for \<open>n\<close>
  and the quote delimits, \<open>2n+1\<close> stand for \<open>n\<close> and a literal quote; other backslashes are literal; two quotes
  in a quoted part are one; in the program name backslashes are literal. The main fact: what the test runner
  builds with \<open>QuoteArgument\<close> and \<open>BuildCommandLine\<close> comes out as it went in, unless an argument that needs
  quotes has a backslash before a quote or at its end (\<open>command_line_read_back\<close>,
  \<open>trailing_backslash_breaks\<close>); so ipeftc runs with the configuration the test runner was given on both
  systems (\<open>launch_reaches_ipeftc\<close>).
\<close>

definition bslash :: char where "bslash = CHR 0x5C"
definition dquote :: char where "dquote = CHR 0x22"

fun crt_program :: "bool \<Rightarrow> string \<Rightarrow> string \<times> string" where
  "crt_program inq [] = ([], [])"
| "crt_program inq (c # cs) =
     (if c = dquote then crt_program (\<not> inq) cs
      else if \<not> inq \<and> c \<in> {CHR '' '', CHR 0x09} then ([], cs)
      else case crt_program inq cs of (p, rest) \<Rightarrow> (c # p, rest))"

text \<open>
  \<open>n\<close> backslashes have been read but not yet decided, and \<open>cur\<close> is the argument begun, if one has begun.
\<close>

fun crt_loop :: "nat \<Rightarrow> bool \<Rightarrow> string option \<Rightarrow> string \<Rightarrow> string list" where
  "crt_loop n inq cur [] = (case cur of None \<Rightarrow> [] | Some a \<Rightarrow> [a @ replicate n bslash])"
| "crt_loop n inq cur (c # cs) =
     (let a = (case cur of None \<Rightarrow> [] | Some a \<Rightarrow> a)
      in if c = bslash then crt_loop (Suc n) inq (Some a) cs
         else if c = dquote then
           (let a = a @ replicate (n div 2) bslash
            in if odd n then crt_loop 0 inq (Some (a @ [dquote])) cs
               else if inq \<and> cs \<noteq> [] \<and> hd cs = dquote then crt_loop 0 inq (Some (a @ [dquote])) (tl cs)
               else crt_loop 0 (\<not> inq) (Some a) cs)
         else if \<not> inq \<and> c \<in> {CHR '' '', CHR 0x09} then
           (case cur of
              None \<Rightarrow> crt_loop 0 inq None cs
            | Some a \<Rightarrow> (a @ replicate n bslash) # crt_loop 0 inq None cs)
         else crt_loop 0 inq (Some (a @ replicate n bslash @ [c])) cs)"

definition crt_argv :: "string \<Rightarrow> string list" where
  "crt_argv line = (case crt_program False line of (p, rest) \<Rightarrow> p # crt_loop 0 False None rest)"

subsection \<open>Quoting is read back\<close>

text \<open>No backslash stands before a quote or at the end.\<close>

fun backslash_safe :: "string \<Rightarrow> bool" where
  "backslash_safe [] = True"
| "backslash_safe (c # cs) = ((c = bslash \<longrightarrow> cs \<noteq> [] \<and> hd cs \<noteq> dquote) \<and> backslash_safe cs)"

definition plain_arg :: "string \<Rightarrow> bool" where
  "plain_arg a \<longleftrightarrow> set a \<inter> {CHR '' '', CHR 0x09, dquote} = {}"

definition arg_ok :: "string \<Rightarrow> bool" where
  "arg_ok a \<longleftrightarrow> plain_arg a \<or> backslash_safe a"

definition escape :: "string \<Rightarrow> string" where
  "escape a = concat (map (\<lambda>ch. if ch = dquote then [bslash, dquote] else [ch]) a)"

lemma escape_simps [simp]:
  "escape [] = []" "escape (c # cs) = (if c = dquote then [bslash, dquote] else [c]) @ escape cs"
  by (simp_all add: escape_def)

lemma char_facts [simp]: "bslash \<noteq> dquote" "dquote \<noteq> bslash" "bslash \<noteq> CHR '' ''" "bslash \<noteq> CHR 0x09"
  "dquote \<noteq> CHR '' ''" "dquote \<noteq> CHR 0x09" "CHR '' '' \<noteq> dquote" "CHR '' '' \<noteq> bslash"
  by (simp_all add: bslash_def dquote_def)

lemma QuoteArgument_cases:
  "QuoteArgument a = (if a = [] then [dquote, dquote] else if plain_arg a then a
     else [dquote] @ escape a @ [dquote])"
  unfolding QuoteArgument_def plain_arg_def escape_def dquote_def bslash_def by simp

definition next_arg :: "string \<Rightarrow> bool" where
  "next_arg rest \<longleftrightarrow> rest = [] \<or> hd rest = CHR '' ''"

lemma loop_end:
  "next_arg rest \<Longrightarrow> crt_loop n False (Some p) rest = (p @ replicate n bslash) # crt_loop 0 False None rest"
  by (cases rest) (auto simp: next_arg_def)

lemma loop_plain:
  "plain_arg a \<Longrightarrow> next_arg rest \<Longrightarrow>
     crt_loop n False (Some p) (a @ rest) = (p @ replicate n bslash @ a) # crt_loop 0 False None rest"
proof (induction a arbitrary: n p)
  case Nil
  then show ?case by (simp add: loop_end)
next
  case (Cons c a)
  then have c: "c \<noteq> dquote" "c \<noteq> CHR '' ''" "c \<noteq> CHR 0x09" "plain_arg a" by (auto simp: plain_arg_def)
  show ?case
  proof (cases "c = bslash")
    case True
    have "replicate (Suc n) bslash @ a = replicate n bslash @ bslash # a" by (simp add: replicate_app_Cons_same)
    with Cons.IH [OF c(4) Cons.prems(2), of "Suc n" p] True show ?thesis by simp
  next
    case False
    with Cons.IH [OF c(4) Cons.prems(2), of 0] c show ?thesis by simp
  qed
qed

lemma loop_begin: "a \<noteq> [] \<Longrightarrow> plain_arg a \<Longrightarrow> crt_loop 0 False None (a @ rest) = crt_loop 0 False (Some []) (a @ rest)"
  by (cases a) (auto simp: plain_arg_def Let_def)

lemma loop_escaped:
  assumes "backslash_safe a" and "0 < n \<longrightarrow> a \<noteq> [] \<and> hd a \<noteq> dquote" and "next_arg rest"
  shows "crt_loop n True (Some p) (escape a @ dquote # rest) =
    (p @ replicate n bslash @ a) # crt_loop 0 False None rest"
  using assms
proof (induction a arbitrary: n p)
  case Nil
  then have "\<not> (rest \<noteq> [] \<and> hd rest = dquote)" by (auto simp: next_arg_def)
  then show ?case using Nil loop_end [of rest 0 p] by (auto simp: Let_def)
next
  case (Cons c a)
  consider "c = bslash" | "c = dquote" | "c \<noteq> bslash" "c \<noteq> dquote" by blast
  then show ?case
  proof cases
    case 1
    have "replicate (Suc n) bslash @ a = replicate n bslash @ bslash # a" by (simp add: replicate_app_Cons_same)
    with Cons.IH [of "Suc n" p] Cons.prems 1 show ?thesis by simp
  next
    case 2
    with Cons.prems(2) have "n = 0" by auto
    with Cons.IH [of 0 "p @ [dquote]"] Cons.prems 2 show ?thesis by simp
  next
    case 3
    with Cons.IH [of 0 "p @ replicate n bslash @ [c]"] Cons.prems show ?thesis by simp
  qed
qed

lemma loop_argument:
  assumes "arg_ok a" "next_arg rest"
  shows "crt_loop 0 False None (QuoteArgument a @ rest) = a # crt_loop 0 False None rest"
proof -
  consider "a = []" | "a \<noteq> []" "plain_arg a" | "a \<noteq> []" "\<not> plain_arg a" "backslash_safe a"
    using assms(1) by (auto simp: arg_ok_def)
  then show ?thesis
  proof cases
    case 1
    then show ?thesis using loop_escaped [of "[]" 0 rest "[]"] assms(2) by (simp add: QuoteArgument_cases)
  next
    case 2
    then show ?thesis using loop_begin [of a rest] loop_plain [of a rest 0 "[]"] assms(2) by (simp add: QuoteArgument_cases)
  next
    case 3
    have "crt_loop 0 False None (dquote # s) = crt_loop 0 True (Some []) s" for s by simp
    with 3 loop_escaped [of a 0 rest "[]"] assms(2) show ?thesis by (simp add: QuoteArgument_cases)
  qed
qed

definition arg_tail :: "string list \<Rightarrow> string" where
  "arg_tail args = concat (map (\<lambda>a. CHR '' '' # QuoteArgument a) args)"

lemma BuildCommandLine_tail: "BuildCommandLine exe args = QuoteArgument exe @ arg_tail args"
proof -
  have "foldl (\<lambda>line arg. line @ '' '' @ QuoteArgument arg) s args = s @ arg_tail args" for s
    by (induction args arbitrary: s) (simp_all add: arg_tail_def)
  then show ?thesis by (simp add: BuildCommandLine_def)
qed

lemma loop_arguments: "\<forall>a \<in> set args. arg_ok a \<Longrightarrow> crt_loop 0 False None (arg_tail args) = args"
proof (induction args)
  case (Cons a args)
  have "next_arg (arg_tail args)" by (cases args) (auto simp: next_arg_def arg_tail_def)
  with Cons show ?case using loop_argument [of a "arg_tail args"] by (simp add: arg_tail_def)
qed (simp add: arg_tail_def)

lemma program_chars:
  assumes "dquote \<notin> set p" and "inq \<or> set p \<inter> {CHR '' '', CHR 0x09} = {}"
  shows "crt_program inq (p @ rest) = (case crt_program inq rest of (q, r) \<Rightarrow> (p @ q, r))"
  using assms by (induction p) (auto split: prod.split)

text \<open>
  The program name ends at the first space of the tail, which it consumes; the rest begins with the first
  argument itself.
\<close>

lemma program_tail:
  "crt_program False (arg_tail args) = ([], drop (Suc 0) (arg_tail args))"
  by (cases args) (auto simp: arg_tail_def)

lemma loop_space: "crt_loop 0 False None (drop (Suc 0) (arg_tail args)) = crt_loop 0 False None (arg_tail args)"
  by (cases args) (auto simp: arg_tail_def)

lemma command_line_read_back:
  assumes "exe \<noteq> []" "dquote \<notin> set exe" and "\<forall>a \<in> set args. arg_ok a"
  shows "crt_argv (BuildCommandLine exe args) = exe # args"
proof -
  have "crt_program False (QuoteArgument exe @ arg_tail args) = (exe, drop 1 (arg_tail args))"
  proof (cases "plain_arg exe")
    case True
    then have "set exe \<inter> {CHR '' '', CHR 0x09} = {}" by (auto simp: plain_arg_def)
    then show ?thesis using assms(1,2) True by (simp add: QuoteArgument_cases program_chars program_tail)
  next
    case False
    have e: "escape exe = exe" using assms(2) by (induction exe) auto
    have "crt_program False (dquote # exe @ dquote # s) = (case crt_program False s of (q, r) \<Rightarrow> (exe @ q, r))" for s
      using assms(2) by (simp add: program_chars)
    then show ?thesis using False assms(1) e by (simp add: QuoteArgument_cases program_tail)
  qed
  then show ?thesis
    using loop_arguments [OF assms(3)] by (simp add: crt_argv_def BuildCommandLine_tail loop_space)
qed

text \<open>A directory with a space and a backslash at its end swallows what follows.\<close>

lemma trailing_backslash_breaks:
  "crt_argv (BuildCommandLine ''IPEFTC'' [''--result-dir'', ''C:'' @ [bslash] @ ''My Results'' @ [bslash], ''--port'']) =
     [''IPEFTC'', ''--result-dir'', ''C:'' @ [bslash] @ ''My Results'' @ [dquote] @ '' --port'']"
  unfolding bslash_def dquote_def by code_simp

subsection \<open>The configuration reaches ipeftc\<close>

definition config_args_ok :: "TestConfig \<Rightarrow> bool" where
  "config_args_ok c \<longleftrightarrow> arg_ok (tc_targetIP c) \<and> arg_ok (tc_serverBindIP c) \<and> arg_ok (tc_runId c) \<and>
     arg_ok (tc_resultDir c)"

lemma show_int_ok: "arg_ok (show_int i)"
proof -
  have "c \<in> set (show_int i) \<Longrightarrow> is_digit c \<or> c = CHR ''-''" for c
    using show_nat_digits by (auto simp: show_int_def split: if_splits)
  then show ?thesis by (fastforce simp: arg_ok_def plain_arg_def is_digit_def dquote_def)
qed

lemma config_args:
  assumes "config_args_ok c"
  shows "\<forall>a \<in> set (BuildClientArgs c). arg_ok a" "\<forall>a \<in> set (BuildServerArgs c). arg_ok a"
proof -
  have fixed: "arg_ok ''--mode'' \<and> arg_ok ''client'' \<and> arg_ok ''server'' \<and> arg_ok ''--target'' \<and> arg_ok ''--port'' \<and>
      arg_ok ''--packet-size'' \<and> arg_ok ''--num-packets'' \<and> arg_ok ''--save-logs'' \<and> arg_ok ''true'' \<and> arg_ok ''false'' \<and>
      arg_ok ''--interval-ms'' \<and> arg_ok ''--run-id'' \<and> arg_ok ''--result-dir'' \<and> arg_ok ''0.0.0.0''"
    by (simp add: arg_ok_def plain_arg_def dquote_def)
  show "\<forall>a \<in> set (BuildClientArgs c). arg_ok a" "\<forall>a \<in> set (BuildServerArgs c). arg_ok a"
    using assms fixed show_int_ok
    by (auto simp: BuildClientArgs_def BuildServerArgs_def opt_args_def config_args_ok_def)
qed

lemma launch_spawns:
  "win_launch fs env path args hs K = (True, hs', K') \<Longrightarrow>
     path \<noteq> [] \<and> (\<exists>h app. wk_spawned K' = wk_spawned K @ [(h, app, BuildCommandLine path args)])"
  by (auto simp: win_launch_def CreatePipes_def CreateProcessWithStdoutHandle_def win_ValidateIpeftcPath_def handle_defs
      Let_def split: if_splits option.splits prod.splits)

text \<open>
  C19: The processes that the test runner launches on Windows get a command line whose \<open>argv\<close> begins with the
  path, and whose arguments ipeftc parses into the configuration the test runner was given, for the client
  and for the server; provided that no value of the configuration that needs quotes has a backslash before a
  quote or at its end, and none reads \<open>--config\<close> or exceeds ipeftc's integers.
\<close>

theorem launch_reaches_ipeftc:
  assumes "runnable c" and "config_args_ok c" and "dquote \<notin> set path"
    and "win_LaunchIPEFTCServer fs env path c hs K = (True, hs1, K1)"
    and "win_LaunchIPEFTCClient fs env path c hs K = (True, hs2, K2)"
  shows "(\<exists>h app line p. wk_spawned K1 = wk_spawned K @ [(h, app, line)] \<and> crt_argv line = path # BuildServerArgs c \<and>
      parseArgs parse file (tl (crt_argv line)) = Inr p \<and> cl_config p = server_config c \<and> cl_options p = result_options c) \<and>
    (\<exists>h app line p. wk_spawned K2 = wk_spawned K @ [(h, app, line)] \<and> crt_argv line = path # BuildClientArgs c \<and>
      parseArgs parse file (tl (crt_argv line)) = Inr p \<and> cl_config p = client_config c \<and> cl_options p = result_options c)"
proof -
  note s = launch_spawns [OF assms(4) [unfolded win_LaunchIPEFTCServer_def]]
    launch_spawns [OF assms(5) [unfolded win_LaunchIPEFTCClient_def]]
  have "crt_argv (BuildCommandLine path (BuildServerArgs c)) = path # BuildServerArgs c"
    "crt_argv (BuildCommandLine path (BuildClientArgs c)) = path # BuildClientArgs c"
    using s(1) command_line_read_back assms(3) config_args [OF assms(2)] by auto
  with s launched_config [OF assms(1), of parse "file"] show ?thesis by fastforce
qed

theorem launch_reaches_ipeftc_witness:
  "let c = default_TestConfig\<lparr>tc_targetIP := ''10.0.0.2'', tc_runId := ''r 1'', tc_resultDir := ''C:'' @ [bslash] @ ''Results''\<rparr>;
     path = ''C:'' @ [bslash] @ ''My Iperf'' @ [bslash] @ ''IPEFTC.exe'';
     K = wc_kernel new_win_conn;
     K1 = snd (snd (win_LaunchIPEFTCServer win_fs win_good path c new_WinHandles K));
     K2 = snd (snd (win_LaunchIPEFTCClient win_fs win_good path c new_WinHandles K)) in
   (\<exists>h app line p. wk_spawned K1 = wk_spawned K @ [(h, app, line)] \<and> crt_argv line = path # BuildServerArgs c \<and>
      parseArgs (\<lambda>s. Inr JNull) (\<lambda>f. None) (tl (crt_argv line)) = Inr p \<and> cl_config p = server_config c \<and>
      cl_options p = result_options c) \<and>
   (\<exists>h app line p. wk_spawned K2 = wk_spawned K @ [(h, app, line)] \<and> crt_argv line = path # BuildClientArgs c \<and>
      parseArgs (\<lambda>s. Inr JNull) (\<lambda>f. None) (tl (crt_argv line)) = Inr p \<and> cl_config p = client_config c \<and>
      cl_options p = result_options c)"
  unfolding Let_def
proof (rule launch_reaches_ipeftc)
  let ?c = "default_TestConfig\<lparr>tc_targetIP := ''10.0.0.2'', tc_runId := ''r 1'', tc_resultDir := ''C:'' @ [bslash] @ ''Results''\<rparr>"
  let ?path = "''C:'' @ [bslash] @ ''My Iperf'' @ [bslash] @ ''IPEFTC.exe''"
  show "runnable ?c" by (simp add: runnable_def default_TestConfig_def DEFAULT_TEST_PORT_def INT_MAX_def bslash_def)
  show "config_args_ok ?c"
    by (simp add: config_args_ok_def default_TestConfig_def arg_ok_def plain_arg_def bslash_def dquote_def)
  show "dquote \<notin> set ?path" by (simp add: dquote_def bslash_def)
  show "win_LaunchIPEFTCServer win_fs win_good ?path ?c new_WinHandles (wc_kernel new_win_conn) =
      (True, fst (snd (win_LaunchIPEFTCServer win_fs win_good ?path ?c new_WinHandles (wc_kernel new_win_conn))),
       snd (snd (win_LaunchIPEFTCServer win_fs win_good ?path ?c new_WinHandles (wc_kernel new_win_conn))))"
    "win_LaunchIPEFTCClient win_fs win_good ?path ?c new_WinHandles (wc_kernel new_win_conn) =
      (True, fst (snd (win_LaunchIPEFTCClient win_fs win_good ?path ?c new_WinHandles (wc_kernel new_win_conn))),
       snd (snd (win_LaunchIPEFTCClient win_fs win_good ?path ?c new_WinHandles (wc_kernel new_win_conn))))"
    by (simp_all add: win_LaunchIPEFTCServer_def win_LaunchIPEFTCClient_def win_run Let_def)
qed

end
