(* ===== verification/Logger.thy ===== *)
theory Logger
  imports Config ControlProtocol Fifo "HOL-Library.Char_ord" "HOL-Library.List_Lexorder" "HOL-Library.Multiset"
begin

section \<open>The logger\<close>

text \<open>
  \<open>MyIperf/src/myiperf/Logger.cpp\<close>, POSIX build. Threads put messages into a queue; the worker
  thread swaps the whole queue out and writes its messages one by one (\<open>lg_writing\<close>) to the console,
  the log file and the named pipe. The log directory is part of the state: its entries with whether
  each is a regular file, or \<open>None\<close> when there is none. The clock and the answers of the system are
  arguments; \<open>lg_lines\<close> counts the lines written, so that line \<open>n\<close> gets the time stamp \<open>clock n\<close>,
  and \<open>lg_file\<close> the lines written to the log file since it was opened.
\<close>

record Logger =
  lg_started :: bool
  lg_running :: bool
  lg_worker :: bool
  lg_queue :: "string list"
  lg_writing :: "string list"
  lg_streamOpen :: bool
  lg_saveToFile :: bool
  lg_consoleOutput :: bool
  lg_pipeName :: string
  lg_pipeConnected :: bool
  lg_dir :: "(string \<times> bool) list option"
  lg_console :: "string list"
  lg_file :: "string list"
  lg_pipe :: bytes
  lg_lines :: nat

definition new_Logger :: Logger where
  "new_Logger = \<lparr>lg_started = False, lg_running = False, lg_worker = False, lg_queue = [], lg_writing = [],
     lg_streamOpen = False, lg_saveToFile = False, lg_consoleOutput = True, lg_pipeName = [],
     lg_pipeConnected = False, lg_dir = None, lg_console = [], lg_file = [], lg_pipe = [], lg_lines = 0\<rparr>"

definition logDirectory :: string where
  "logDirectory = ''Log''"

text \<open>The default build; the CMake option \<open>MYIPERF_ENABLE_DEBUG_LOGS\<close> turns it on.\<close>

definition kDebugLogsEnabled :: bool where
  "kDebugLogsEnabled = False"

subsection \<open>Lines\<close>

definition isDebugLine :: "string \<Rightarrow> bool" where
  "isDebugLine message \<longleftrightarrow> take 6 message = ''Debug:''"

definition buildTimestampedLine :: "string \<Rightarrow> string \<Rightarrow> string" where
  "buildTimestampedLine now message = ''['' @ now @ ''] '' @ message"

definition escape_code :: "string \<Rightarrow> string" where
  "escape_code code = [CHR 0x1B] @ ''['' @ code @ ''m''"

definition starts_with :: "string \<Rightarrow> string \<Rightarrow> bool" where
  "starts_with pat message \<longleftrightarrow> take (length pat) message = pat"

definition colorizeLine :: "string \<Rightarrow> string \<Rightarrow> string" where
  "colorizeLine message formatted =
     (if starts_with ''Error:'' message then escape_code ''31'' @ formatted @ escape_code ''0''
      else if starts_with ''Warning:'' message then escape_code ''33'' @ formatted @ escape_code ''0''
      else if starts_with ''Info:'' message then escape_code ''32'' @ formatted @ escape_code ''0''
      else if starts_with ''Debug:'' message then escape_code ''36'' @ formatted @ escape_code ''0''
      else if starts_with ''CONTROL:'' message then escape_code ''95'' @ formatted @ escape_code ''0''
      else if starts_with ''HANDSHAKE:'' message then escape_code ''95'' @ formatted @ escape_code ''0''
      else formatted)"

text \<open>\<open>info\<close> is what \<open>myiperf::buildInfoString\<close> gives.\<close>

definition buildInfoOneLine :: "string \<Rightarrow> string" where
  "buildInfoOneLine info = concat (map (\<lambda>c. if c = CHR 0x0A then '' | '' else [c]) info)"

subsection \<open>Rotation\<close>

text \<open>\<open>path::extension\<close> of a file name: from its last dot, unless that is its first character.\<close>

definition path_extension :: "string \<Rightarrow> string" where
  "path_extension name =
     (let ext = takeWhile (\<lambda>c. c \<noteq> CHR ''.'') (rev name)
      in if length ext + 1 < length name then CHR ''.'' # rev ext else [])"

definition is_log_of :: "string \<Rightarrow> string \<times> bool \<Rightarrow> bool" where
  "is_log_of mode_name entry \<longleftrightarrow> snd entry \<and> path_extension (fst entry) = ''.log'' \<and>
     contains_sub (logDirectory @ ''/'' @ fst entry) (''_'' @ mode_name @ ''_'')"

definition maxFiles :: nat where
  "maxFiles = 100"

definition manageLogRotation :: "string \<Rightarrow> (string \<times> bool) list option \<Rightarrow> (string \<times> bool) list option" where
  "manageLogRotation mode_name dir =
     (case dir of
        None \<Rightarrow> None
      | Some entries \<Rightarrow>
          let logFiles = map fst (filter (is_log_of mode_name) entries)
          in if length logFiles \<ge> maxFiles
             then let filesToDelete = length logFiles - (maxFiles - 1);
                      doomed = take filesToDelete (sort logFiles)
                  in Some (filter (\<lambda>entry. fst entry \<notin> set doomed) entries)
             else Some entries)"

subsection \<open>Logging\<close>

definition log_push :: "string \<Rightarrow> Logger \<Rightarrow> Logger" where
  "log_push message L = L\<lparr>lg_queue := lg_queue L @ [message]\<rparr>"

definition write_console :: "string \<Rightarrow> string \<Rightarrow> Logger \<Rightarrow> Logger" where
  "write_console message formatted L =
     (if lg_consoleOutput L then L\<lparr>lg_console := lg_console L @ [colorizeLine message formatted]\<rparr> else L)"

text \<open>Before the logger is started a message goes straight to the console.\<close>

definition log_message :: "(nat \<Rightarrow> string) \<Rightarrow> string \<Rightarrow> Logger \<Rightarrow> Logger" where
  "log_message clock message L =
     (if \<not> kDebugLogsEnabled \<and> isDebugLine message then L
      else if \<not> lg_started L
      then write_console message (buildTimestampedLine (clock (lg_lines L)) message)
             (L\<lparr>lg_lines := Suc (lg_lines L)\<rparr>)
      else log_push message L)"

definition setConsoleOutput :: "bool \<Rightarrow> Logger \<Rightarrow> Logger" where
  "setConsoleOutput enabled L = L\<lparr>lg_consoleOutput := enabled\<rparr>"

subsection \<open>The worker\<close>

datatype log_worker_action = LogWait | LogExit | LogWrite

definition logWorker_take :: "Logger \<Rightarrow> log_worker_action \<times> Logger" where
  "logWorker_take L =
     (if lg_queue L = [] \<and> lg_running L then (LogWait, L)
      else if \<not> lg_running L \<and> lg_queue L = [] then (LogExit, L\<lparr>lg_worker := False\<rparr>)
      else (LogWrite, L\<lparr>lg_writing := lg_queue L, lg_queue := []\<rparr>))"

text \<open>
  One message. \<open>pipe n\<close> is \<open>None\<close> when line \<open>n\<close> cannot open the pipe, else how many bytes the write
  took.
\<close>

definition write_file :: "string \<Rightarrow> Logger \<Rightarrow> Logger" where
  "write_file formatted L =
     (if lg_saveToFile L \<and> lg_streamOpen L then L\<lparr>lg_file := lg_file L @ [formatted]\<rparr> else L)"

definition write_pipe :: "nat option \<Rightarrow> string \<Rightarrow> Logger \<Rightarrow> Logger" where
  "write_pipe taken formatted L =
     (if lg_pipeConnected L then
        (case taken of
           None \<Rightarrow> L
         | Some n \<Rightarrow> L\<lparr>lg_pipe := lg_pipe L @ take n (formatted @ newline)\<rparr>)
      else L)"

definition logWorker_write :: "(nat \<Rightarrow> string) \<Rightarrow> (nat \<Rightarrow> nat option) \<Rightarrow> Logger \<Rightarrow> Logger" where
  "logWorker_write clock pipe L =
     (case lg_writing L of
        [] \<Rightarrow> L
      | msg # msgs \<Rightarrow>
          let n = lg_lines L; formatted = buildTimestampedLine (clock n) msg
          in write_pipe (pipe n) formatted (write_file formatted (write_console msg formatted
               (L\<lparr>lg_writing := msgs, lg_lines := Suc n\<rparr>))))"

text \<open>The worker until it exits, once \<open>running\<close> is false and no other thread logs.\<close>

lemma write_fields [simp]:
  "lg_queue (write_pipe k f L) = lg_queue L" "lg_queue (write_file f L) = lg_queue L"
  "lg_queue (write_console m f L) = lg_queue L" "lg_writing (write_pipe k f L) = lg_writing L"
  "lg_writing (write_file f L) = lg_writing L" "lg_writing (write_console m f L) = lg_writing L"
  "lg_running (write_pipe k f L) = lg_running L" "lg_running (write_file f L) = lg_running L"
  "lg_running (write_console m f L) = lg_running L"
  by (simp_all add: write_pipe_def write_file_def write_console_def split: option.splits)

lemma logWorker_write_queue [simp]:
  "lg_queue (logWorker_write clock pipe L) = lg_queue L" "lg_running (logWorker_write clock pipe L) = lg_running L"
  "lg_writing (logWorker_write clock pipe L) = tl (lg_writing L)"
  by (simp_all add: logWorker_write_def Let_def split: list.splits)

function logWorker_finish :: "(nat \<Rightarrow> string) \<Rightarrow> (nat \<Rightarrow> nat option) \<Rightarrow> Logger \<Rightarrow> Logger" where
  "logWorker_finish clock pipe L =
     (if lg_running L \<or> \<not> lg_worker L then L
      else if lg_writing L \<noteq> [] then logWorker_finish clock pipe (logWorker_write clock pipe L)
      else if lg_queue L = [] then snd (logWorker_take L)
      else logWorker_finish clock pipe (snd (logWorker_take L)))"
  by pat_completeness auto
termination
  by (relation "measure (\<lambda>(clock, pipe, L). 2 * length (lg_queue L) + length (lg_writing L))")
    (auto simp: logWorker_take_def)

declare logWorker_finish.simps [simp del]

subsection \<open>Starting and stopping\<close>

text \<open>
  What the system says at a start: the two forms of the time, the process id, whether the log file
  can be opened, and the error of \<open>mkfifo\<close>, if any.
\<close>

record log_env =
  le_stamp :: string
  le_clock :: "nat \<Rightarrow> string"
  le_pid :: int
  le_openOk :: bool
  le_mkfifo :: "nat option"
  le_buildInfo :: string

definition log_file_name :: "string \<Rightarrow> log_env \<Rightarrow> string" where
  "log_file_name mode_name env =
     ''ipeftc_'' @ mode_name @ ''_'' @ le_stamp env @ ''_'' @ show_int (le_pid env) @ ''.log''"

definition open_log_file :: "string \<Rightarrow> log_env \<Rightarrow> Logger \<Rightarrow> Logger \<times> string \<times> string" where
  "open_log_file mode_name env L =
     (let dir = (case lg_dir L of None \<Rightarrow> Some [] | Some d \<Rightarrow> Some d);
          entries = the (manageLogRotation mode_name dir);
          name = log_file_name mode_name env
      in if le_openOk env
         then (L\<lparr>lg_dir := Some (if name \<in> fst ` set entries then entries else entries @ [(name, True)]),
                 lg_streamOpen := True, lg_saveToFile := True, lg_file := []\<rparr>, le_stamp env, [])
         else (L\<lparr>lg_dir := Some entries, lg_saveToFile := False\<rparr>, [],
               ''Error: Failed to open log file: '' @ logDirectory @ ''/'' @ name))"

text \<open>
  The first steps of the pipe thread, taken right after \<open>start\<close> has created it; \<open>EEXIST\<close> is error
  17. Removing the pipe at the end has no effect on this state.
\<close>

definition pipeWorker_start :: "log_env \<Rightarrow> Logger \<Rightarrow> Logger" where
  "pipeWorker_start env L =
     (if le_mkfifo env \<noteq> None \<and> le_mkfifo env \<noteq> Some 17
      then log_message (le_clock env) (''Error: Failed to create named pipe: '' @ lg_pipeName L) L
      else L\<lparr>lg_pipeConnected := True\<rparr>)"

definition options_line :: "string \<Rightarrow> Config \<Rightarrow> Logger \<Rightarrow> string" where
  "options_line mode_name cfg L =
     '' --mode '' @ mode_name @ '' --target '' @ targetIP cfg @ '' --port '' @ show_int (port cfg) @
     '' --packet-size '' @ show_int (packetSize cfg) @ '' --num-packets '' @ show_int (numPackets cfg) @
     '' --interval-ms '' @ show_int (sendIntervalMs cfg) @
     '' --save-logs '' @ (if saveLogs cfg then ''true'' else ''false'') @
     '' --handshake-timeout-ms '' @ show_int (handshakeTimeoutMs cfg) @
     '' --quiet '' @ (if lg_consoleOutput L then ''true'' else ''false'')"

definition logger_start :: "log_env \<Rightarrow> Config \<Rightarrow> Logger \<Rightarrow> Logger" where
  "logger_start env cfg L =
     (let mode_name = (if mode cfg = CLIENT then ''CLIENT'' else ''SERVER'')
      in if lg_started L
         then log_message (le_clock env)
                ''Warning: Logger::start() called while logger already running. Ignoring.'' L
         else
           let L = L\<lparr>lg_queue := [], lg_streamOpen := False, lg_saveToFile := False\<rparr>;
               (L, stamp, openError) = (if saveLogs cfg then open_log_file mode_name env L else (L, [], []));
               L = L\<lparr>lg_pipeName := ''/tmp/myiperflog_'' @ mode_name @ ''_'' @ targetIP cfg @ ''_'' @ show_int (port cfg),
                     lg_pipeConnected := False, lg_running := True, lg_started := True, lg_worker := True\<rparr>;
               L = pipeWorker_start env L;
               L = (if openError \<noteq> [] then log_message (le_clock env) openError L else L);
               L = log_message (le_clock env)
                     (if stamp \<noteq> [] then ''Info: Logger started '' @ stamp else ''Info: Logger started.'') L;
               L = log_message (le_clock env) (''Info: IPEFTC version: '' @ buildInfoOneLine (le_buildInfo env)) L
           in log_message (le_clock env) (''Info: Options =>'' @ options_line mode_name cfg L) L)"

text \<open>\<open>stop\<close> up to the wait for the worker, and from there to its end.\<close>

definition stop_begin :: "Logger \<Rightarrow> Logger" where
  "stop_begin L = (if \<not> lg_started L then L else L\<lparr>lg_running := False\<rparr>)"

definition stop_end :: "Logger \<Rightarrow> Logger" where
  "stop_end L = L\<lparr>lg_streamOpen := (if lg_saveToFile L then False else lg_streamOpen L),
     lg_saveToFile := False, lg_queue := [], lg_started := False\<rparr>"

definition logger_stop :: "(nat \<Rightarrow> string) \<Rightarrow> (nat \<Rightarrow> nat option) \<Rightarrow> Logger \<Rightarrow> Logger" where
  "logger_stop clock pipe L =
     (if \<not> lg_started L then L
      else stop_end (logWorker_finish clock pipe (stop_begin L)))"

subsection \<open>Rotation keeps the newest logs\<close>

definition logs_of :: "string \<Rightarrow> (string \<times> bool) list option \<Rightarrow> string list" where
  "logs_of mode_name dir =
     (case dir of None \<Rightarrow> [] | Some entries \<Rightarrow> map fst (filter (is_log_of mode_name) entries))"

lemma rotation_Some:
  assumes "manageLogRotation mode_name (Some entries) = Some entries'"
    and "length (logs_of mode_name (Some entries)) \<ge> maxFiles"
  shows "entries' = filter (\<lambda>e. fst e \<notin> set (take (length (logs_of mode_name (Some entries)) - (maxFiles - 1))
    (sort (logs_of mode_name (Some entries))))) entries"
  using assms by (simp add: manageLogRotation_def logs_of_def Let_def)

lemma filter_take_drop:
  assumes "distinct xs"
  shows "filter (\<lambda>x. x \<notin> set (take n xs)) xs = drop n xs"
proof -
  have "filter (\<lambda>x. x \<notin> set (take n xs)) (take n xs) = []" by (simp add: filter_empty_conv)
  moreover have "filter (\<lambda>x. x \<notin> set (take n xs)) (drop n xs) = drop n xs"
    using set_take_disj_set_drop_if_distinct [OF assms, of n n] by (auto simp: filter_id_conv)
  ultimately show ?thesis by (metis append_Nil append_take_drop_id filter_append)
qed

text \<open>
  C27: after a rotation, at most 99 logs of the mode are left, so that the one to be opened makes at
  most 100; each log removed has a smaller name, and so an older time stamp, than each log kept; and
  nothing else in the directory is touched.
\<close>

theorem rotation_bounds:
  assumes "distinct (map fst entries)" and "manageLogRotation mode_name (Some entries) = Some entries'"
  shows "length (filter (is_log_of mode_name) entries') \<le> 99 \<and>
    (\<forall>e \<in> set entries - set entries'. is_log_of mode_name e \<and>
       (\<forall>e' \<in> set entries'. is_log_of mode_name e' \<longrightarrow> fst e \<le> fst e'))"
proof (cases "length (logs_of mode_name (Some entries)) \<ge> maxFiles")
  case False
  then have "entries' = entries"
    using assms(2) by (simp add: manageLogRotation_def logs_of_def Let_def)
  then show ?thesis using False by (simp add: logs_of_def maxFiles_def)
next
  case True
  let ?logs = "logs_of mode_name (Some entries)"
  let ?k = "length ?logs - (maxFiles - 1)"
  let ?doomed = "set (take ?k (sort ?logs))"
  have e': "entries' = filter (\<lambda>e. fst e \<notin> ?doomed) entries"
    using rotation_Some [OF assms(2) True] .
  have dist: "distinct ?logs"
    using assms(1) by (auto simp: logs_of_def distinct_map intro: inj_on_subset)
  have "map fst (filter (is_log_of mode_name) entries') = filter (\<lambda>x. x \<notin> ?doomed) ?logs"
    unfolding e' logs_of_def by (simp add: filter_map comp_def conj_commute)
  then have "length (filter (is_log_of mode_name) entries') = length (filter (\<lambda>x. x \<notin> ?doomed) ?logs)"
    using length_map [of fst "filter (is_log_of mode_name) entries'"] by simp
  moreover have "mset (filter (\<lambda>x. x \<notin> ?doomed) ?logs) = mset (filter (\<lambda>x. x \<notin> ?doomed) (sort ?logs))"
    by simp
  moreover have "filter (\<lambda>x. x \<notin> ?doomed) (sort ?logs) = drop ?k (sort ?logs)"
    using dist by (intro filter_take_drop) simp
  ultimately have "length (filter (is_log_of mode_name) entries') = length (drop ?k (sort ?logs))"
    using mset_eq_length by fastforce
  then have len: "length (filter (is_log_of mode_name) entries') \<le> 99"
    using True by (simp add: maxFiles_def)
  have old: "is_log_of mode_name e \<and> (\<forall>e' \<in> set entries'. is_log_of mode_name e' \<longrightarrow> fst e \<le> fst e')"
    if "e \<in> set entries" "e \<notin> set entries'" for e
  proof -
    have d: "fst e \<in> ?doomed" using that e' by auto
    then have "fst e \<in> set ?logs" using in_set_takeD [of "fst e" ?k "sort ?logs"] by simp
    then obtain e2 where "e2 \<in> set entries" "is_log_of mode_name e2" "fst e2 = fst e"
      by (auto simp: logs_of_def)
    then have log: "is_log_of mode_name e"
      using inj_onD [of fst "set entries" e2 e] assms(1) that(1) by (simp add: distinct_map)
    have "fst e \<le> fst e'" if "e' \<in> set entries'" "is_log_of mode_name e'" for e'
    proof -
      have "fst e' \<in> set ?logs" "fst e' \<notin> ?doomed" using that e' by (auto simp: logs_of_def)
      then have "fst e' \<in> set (drop ?k (sort ?logs))"
        using set_append [of "take ?k (sort ?logs)" "drop ?k (sort ?logs)"] by simp
      with d show ?thesis
        using sorted_append [of "take ?k (sort ?logs)" "drop ?k (sort ?logs)"] by simp
    qed
    with log show ?thesis by blast
  qed
  show ?thesis using len old by blast
qed

subsection \<open>Every message reaches the log file\<close>

text \<open>The message the worker writes next, for the queue interface.\<close>

definition log_next :: "Logger \<Rightarrow> (string \<times> Logger) option" where
  "log_next L =
     (let L = (if lg_writing L = [] then L\<lparr>lg_writing := lg_queue L, lg_queue := []\<rparr> else L)
      in case lg_writing L of [] \<Rightarrow> None | m # ms \<Rightarrow> Some (m, L\<lparr>lg_writing := ms\<rparr>))"

definition pending_messages :: "Logger \<Rightarrow> string list" where
  "pending_messages L = lg_writing L @ lg_queue L"

interpretation log_queue: fifo log_push log_next pending_messages
  by unfold_locales
    (auto simp: log_push_def log_next_def pending_messages_def Let_def split: list.splits if_splits)

inductive log_run ::
  "(nat \<Rightarrow> string) \<Rightarrow> (nat \<Rightarrow> nat option) \<Rightarrow> Logger \<Rightarrow> string list \<Rightarrow> Logger \<Rightarrow> bool"
  for clock :: "nat \<Rightarrow> string" and pipe :: "nat \<Rightarrow> nat option" and L0 :: Logger where
  lr_start: "log_run clock pipe L0 [] L0"
| lr_log: "log_run clock pipe L0 ms L \<Longrightarrow> log_run clock pipe L0 (ms @ [m]) (log_message clock m L)"
| lr_take: "log_run clock pipe L0 ms L \<Longrightarrow> lg_writing L = [] \<Longrightarrow> logWorker_take L = (LogWrite, L') \<Longrightarrow>
    log_run clock pipe L0 ms L'"
| lr_write: "log_run clock pipe L0 ms L \<Longrightarrow> lg_writing L \<noteq> [] \<Longrightarrow>
    log_run clock pipe L0 ms (logWorker_write clock pipe L)"

definition log_lines :: "(nat \<Rightarrow> string) \<Rightarrow> nat \<Rightarrow> string list \<Rightarrow> string list" where
  "log_lines clock k ms = map2 (\<lambda>n m. buildTimestampedLine (clock n) m) [k..<k + length ms] ms"

lemma log_lines_snoc: "log_lines clock k (ms @ [m]) = log_lines clock k ms @ [buildTimestampedLine (clock (k + length ms)) m]"
  by (simp add: log_lines_def)

text \<open>A logger that writes to its file has written \<open>done\<close> of all the messages \<open>ms\<close>.\<close>

definition saving :: "(nat \<Rightarrow> string) \<Rightarrow> nat \<Rightarrow> string list \<Rightarrow> Logger \<Rightarrow> bool" where
  "saving clock k ms L \<longleftrightarrow> lg_saveToFile L \<and> lg_streamOpen L \<and> lg_started L \<and> lg_worker L \<and>
     (\<exists>written. ms = written @ pending_messages L \<and> lg_file L = log_lines clock k written \<and>
        lg_lines L = k + length written)"

lemma saving_push: "saving clock k ms L \<Longrightarrow> saving clock k (ms @ [m]) (log_push m L)"
  using log_queue.contents_push [of m L] by (auto simp: saving_def log_push_def)

lemma saving_log:
  "saving clock k ms L \<Longrightarrow> saving clock k (ms @ filter (\<lambda>m. \<not> isDebugLine m) [m]) (log_message clock m L)"
  using saving_push [of clock k ms L m]
  by (auto simp: log_message_def kDebugLogsEnabled_def saving_def)

lemma saving_take:
  assumes "saving clock k ms L" and "lg_writing L = []" and "logWorker_take L = (LogWrite, L')"
  shows "saving clock k ms L'"
  using assms by (auto simp: logWorker_take_def saving_def pending_messages_def split: if_splits)

lemma saving_write:
  assumes "saving clock k ms L" and "lg_writing L \<noteq> []"
  shows "saving clock k ms (logWorker_write clock pipe L)"
proof -
  from assms(1) obtain written where w: "ms = written @ pending_messages L"
    "lg_file L = log_lines clock k written" "lg_lines L = k + length written"
    and s: "lg_saveToFile L" "lg_streamOpen L" "lg_started L" "lg_worker L"
    by (auto simp: saving_def)
  obtain m msgs where m: "lg_writing L = m # msgs" using assms(2) by (cases "lg_writing L") auto
  let ?L = "logWorker_write clock pipe L"
  have "lg_saveToFile ?L" "lg_streamOpen ?L" "lg_started ?L" "lg_worker ?L"
    "lg_file ?L = lg_file L @ [buildTimestampedLine (clock (lg_lines L)) m]"
    "lg_lines ?L = Suc (lg_lines L)" "pending_messages L = m # pending_messages ?L"
    using s m
    by (simp_all add: logWorker_write_def write_pipe_def write_file_def write_console_def pending_messages_def
        Let_def split: option.splits)
  then show ?thesis
    using w by (auto simp: saving_def log_lines_snoc intro!: exI [of _ "written @ [m]"])
qed

lemma saving_run:
  "log_run clock pipe L0 ms L \<Longrightarrow> saving clock k ms0 L0 \<Longrightarrow>
     saving clock k (ms0 @ filter (\<lambda>m. \<not> isDebugLine m) ms) L"
proof (induction rule: log_run.induct)
  case (lr_log ms L m)
  then show ?case using saving_log [of clock k _ L m] by (simp flip: append_assoc)
qed (auto intro: saving_take saving_write)

lemma saving_finish:
  "saving clock k ms L \<Longrightarrow> \<not> lg_running L \<Longrightarrow>
     lg_file (logWorker_finish clock pipe L) = log_lines clock k ms"
proof (induction clock pipe L rule: logWorker_finish.induct)
  case (1 clock pipe L)
  have w: "lg_worker L" using "1.prems"(1) by (simp add: saving_def)
  show ?case
  proof (cases "lg_writing L = []")
    case True
    obtain a L' where t: "logWorker_take L = (a, L')" by force
    show ?thesis
    proof (cases "lg_queue L = []")
      case empty: True
      then have "lg_file L' = lg_file L" using t "1.prems"(2) by (auto simp: logWorker_take_def)
      moreover have "lg_file L = log_lines clock k ms"
        using "1.prems"(1) True empty by (auto simp: saving_def pending_messages_def)
      ultimately show ?thesis
        using True empty w "1.prems"(2) t by (subst logWorker_finish.simps) simp
    next
      case False
      then have "a = LogWrite" "\<not> lg_running L'"
        using t "1.prems"(2) by (auto simp: logWorker_take_def)
      moreover have "lg_file (logWorker_finish clock pipe (snd (logWorker_take L))) = log_lines clock k ms"
        using "1.IH"(2) saving_take [OF "1.prems"(1) True] t calculation True False w "1.prems"(2) by simp
      ultimately show ?thesis
        using True False w "1.prems"(2) t by (subst logWorker_finish.simps) simp
    qed
  next
    case False
    have "lg_file (logWorker_finish clock pipe (logWorker_write clock pipe L)) = log_lines clock k ms"
      using "1.IH"(1) saving_write [OF "1.prems"(1) False] False w "1.prems"(2) by simp
    then show ?thesis using False w "1.prems"(2) by (subst logWorker_finish.simps) simp
  qed
qed

text \<open>Nothing is written yet.\<close>

definition fresh_saving :: "(nat \<Rightarrow> string) \<Rightarrow> nat \<Rightarrow> Logger \<Rightarrow> bool" where
  "fresh_saving clock k L \<longleftrightarrow> saving clock k (lg_queue L) L \<and> lg_writing L = []"

lemma fresh_log: "fresh_saving clock k L \<Longrightarrow> fresh_saving clock k (log_message c m L)"
  by (auto simp: fresh_saving_def saving_def log_message_def log_push_def pending_messages_def)

lemma fresh_pipe: "fresh_saving clock k L \<Longrightarrow> fresh_saving clock k (pipeWorker_start env L)"
  using fresh_log by (auto simp: pipeWorker_start_def fresh_saving_def saving_def pending_messages_def)

lemma saving_start:
  assumes "\<not> lg_started L" and "saveLogs cfg" and "le_openOk env" and "lg_writing L = []"
  shows "saving clock (lg_lines L) (lg_queue (logger_start env cfg L)) (logger_start env cfg L)"
proof -
  let ?mode = "if mode cfg = CLIENT then ''CLIENT'' else ''SERVER''"
  obtain L1 stamp err where L1: "open_log_file ?mode env (L\<lparr>lg_queue := [], lg_streamOpen := False,
      lg_saveToFile := False\<rparr>) = (L1, stamp, err)" by (metis prod_cases3)
  then have f: "err = []" "lg_queue L1 = []" "lg_writing L1 = []" "lg_saveToFile L1" "lg_streamOpen L1" "lg_file L1 = []"
    "lg_lines L1 = lg_lines L"
    using assms(3,4) by (auto simp: open_log_file_def Let_def)
  define L2 where "L2 = L1\<lparr>lg_pipeName := ''/tmp/myiperflog_'' @ ?mode @ ''_'' @ targetIP cfg @ ''_'' @ show_int (port cfg),
    lg_pipeConnected := False, lg_running := True, lg_started := True, lg_worker := True\<rparr>"
  obtain c m1 m2 m3 where start: "logger_start env cfg L =
      log_message c m3 (log_message c m2 (log_message c m1 (pipeWorker_start env L2)))"
    unfolding logger_start_def Let_def using assms(1,2) L1 f(1) that by (simp add: L2_def)
  have "fresh_saving clock (lg_lines L) L2"
    using f by (simp add: fresh_saving_def saving_def pending_messages_def log_lines_def L2_def)
  then have "fresh_saving clock (lg_lines L) (logger_start env cfg L)"
    unfolding start by (intro fresh_log fresh_pipe)
  then show ?thesis by (simp add: fresh_saving_def)
qed

text \<open>
  C29: once a logger that saves its log is stopped, the log file holds the lines of its start and every
  message logged since, except debug messages, each once and in the order in which they were
  logged, however the worker's steps fell between the calls of \<open>log\<close>.
\<close>

theorem log_file_complete:
  assumes "\<not> lg_started L" and "lg_writing L = []" and "saveLogs cfg" and "le_openOk env"
    and "L0 = logger_start env cfg L" and "log_run clock pipe L0 ms L1"
  shows "lg_file (logger_stop clock pipe L1) =
    log_lines clock (lg_lines L) (lg_queue L0 @ filter (\<lambda>m. \<not> isDebugLine m) ms)"
proof -
  have "saving clock (lg_lines L) (lg_queue L0 @ filter (\<lambda>m. \<not> isDebugLine m) ms) L1"
    using saving_run [OF assms(6) saving_start [OF assms(1,3,4,2), folded assms(5)]] .
  moreover from this have "saving clock (lg_lines L) (lg_queue L0 @ filter (\<lambda>m. \<not> isDebugLine m) ms) (stop_begin L1)"
    "lg_started L1" "\<not> lg_running (stop_begin L1)"
    by (auto simp: saving_def stop_begin_def pending_messages_def)
  ultimately show ?thesis
    using saving_finish by (simp add: logger_stop_def stop_end_def)
qed

subsection \<open>Examples\<close>

definition demo_logs :: "(string \<times> bool) list" where
  "demo_logs = map (\<lambda>n. (''ipeftc_CLIENT_'' @ replicate n (CHR ''1'') @ ''.log'', True)) [0..<150]"

definition demo_rotated :: "(string \<times> bool) list" where
  "demo_rotated = the (manageLogRotation ''CLIENT'' (Some demo_logs))"

theorem rotation_bounds_witness:
  "length (filter (is_log_of ''CLIENT'') demo_rotated) \<le> 99"
proof (rule rotation_bounds [THEN conjunct1])
  have "inj_on (\<lambda>n. ''ipeftc_CLIENT_'' @ replicate n (CHR ''1'') @ ''.log'') {0..<150}"
  proof (rule inj_onI)
    fix m n :: nat
    assume "''ipeftc_CLIENT_'' @ replicate m (CHR ''1'') @ ''.log'' =
      ''ipeftc_CLIENT_'' @ replicate n (CHR ''1'') @ ''.log''"
    from arg_cong [OF this, of length] show "m = n" by simp
  qed
  then show "distinct (map fst demo_logs)"
    by (simp add: demo_logs_def comp_def distinct_map)
  show "manageLogRotation ''CLIENT'' (Some demo_logs) = Some demo_rotated"
    by (simp add: demo_rotated_def manageLogRotation_def Let_def)
qed

definition demo_log_env :: log_env where
  "demo_log_env = \<lparr>le_stamp = ''20250101_120000'', le_clock = (\<lambda>n. ''2025-01-01 12:00:00''), le_pid = 7,
     le_openOk = True, le_mkfifo = None, le_buildInfo = ''IPEFTC''\<rparr>"

theorem log_file_complete_witness:
  "let clock = le_clock demo_log_env; L0 = logger_start demo_log_env (default_Config\<lparr>saveLogs := True\<rparr>) new_Logger in
   lg_file (logger_stop clock (\<lambda>n. None) (log_message clock ''hello'' (log_message clock ''Debug: x'' L0))) =
   log_lines clock (lg_lines new_Logger) (lg_queue L0 @ [''hello''])"
  unfolding Let_def
proof -
  let ?clock = "le_clock demo_log_env"
  let ?L0 = "logger_start demo_log_env (default_Config\<lparr>saveLogs := True\<rparr>) new_Logger"
  have "log_run ?clock (\<lambda>n. None) ?L0 (([] @ [''Debug: x'']) @ [''hello''])
      (log_message ?clock ''hello'' (log_message ?clock ''Debug: x'' ?L0))"
    by (intro log_run.intros)
  from log_file_complete [OF _ _ _ _ refl this]
  show "lg_file (logger_stop ?clock (\<lambda>n. None) (log_message ?clock ''hello'' (log_message ?clock ''Debug: x'' ?L0))) =
      log_lines ?clock (lg_lines new_Logger) (lg_queue ?L0 @ [''hello''])"
    by (simp add: new_Logger_def demo_log_env_def isDebugLine_def)
qed

end
