(* ===== verification/LogPipe.thy ===== *)
theory LogPipe
  imports Logger WinProcess
begin

section \<open>The final report and the logger's pipe on Windows\<close>

text \<open>
  The parts of \<open>MyIperf/src/myiperf/Logger.cpp\<close> beside the queue and the file: \<open>writeFinalReport\<close>, and on
  Windows the thread that serves the named pipe (\<open>pipeWorker\<close>) with the end of \<open>stop\<close>. That thread and
  \<open>stop\<close> share \<open>hPipe\<close> without a lock; each access is a step here. Where the worker is when \<open>stop\<close> comes
  decides: waiting for a client or serving one it ends (\<open>logger_pipe_stops\<close>), but between two rounds it may
  wait for ever (\<open>stop_may_hang\<close>), and a handle may be closed twice (\<open>stop_may_close_twice\<close>).
\<close>

subsection \<open>The final report\<close>

definition report_lines :: "string \<Rightarrow> (string \<times> string) list \<Rightarrow> TestStats \<Rightarrow> string list" where
  "report_lines title notes st =
     title # map2 (\<lambda>(label, note) v. ''   '' @ label @ v @ note) notes
       [show_int (totalBytesSent st), show_int (totalPacketsSent st), show_int (totalBytesReceived st),
        show_int (totalPacketsReceived st), show_int (failedChecksumCount st), show_int (sequenceErrorCount st),
        show_fixed 6 (duration st), show_fixed 6 (throughputMbps st)]"

definition final_report :: "string \<Rightarrow> TestStats \<Rightarrow> TestStats \<Rightarrow> string list" where
  "final_report role_name localStats remoteStats =
     [''==== Final Report ('' @ role_name @ '') ====''] @
     report_lines ''--- Local Stats (This machine's perspective) ---''
       [(''Total Bytes Sent    : '', '' (Total bytes this machine attempted to send)''),
        (''Total Packets Sent  : '', '' (Total packets this machine attempted to send)''),
        (''Total Bytes Recv    : '', '' (Total bytes this machine received, including headers)''),
        (''Total Packets Recv  : '', '' (Total data packets this machine received)''),
        (''Checksum Errors     : '', '' (Packets received by this machine with an invalid checksum)''),
        (''Sequence Errors     : '', '' (Data packets received by this machine out of order)''),
        (''Duration (s)        : '', '' (The duration of the data transfer phase in seconds)''),
        (''Throughput (Mbps)   : '', '' (Calculated as: [Total Bytes * 8] / [Duration * 1,000,000])'')] localStats @
     (if role_name = ''CLIENT'' \<or> role_name = ''SERVER'' then
       report_lines ''--- Remote Stats (Remote machine's perspective) ---''
         [(''Total Bytes Sent    : '', '' (Total bytes the remote machine sent)''),
          (''Total Packets Sent  : '', '' (Total packets the remote machine sent)''),
          (''Total Bytes Recv    : '', '' (Total bytes the remote machine received)''),
          (''Total Packets Recv  : '', '' (Total data packets the remote machine received)''),
          (''Checksum Errors     : '', '' (Packets received by the remote machine with an invalid checksum)''),
          (''Sequence Errors     : '', '' (Data packets received by the remote machine out of order)''),
          (''Duration (s)        : '', '' (The remote machine's measurement of the test duration)''),
          (''Throughput (Mbps)   : '', '' (The remote machine's calculated throughput)'')] remoteStats
      else []) @
     [''================================'']"

definition writeFinalReport ::
  "(nat \<Rightarrow> string) \<Rightarrow> string \<Rightarrow> TestStats \<Rightarrow> TestStats \<Rightarrow> Logger \<Rightarrow> Logger" where
  "writeFinalReport clock role_name localStats remoteStats L =
     (if \<not> lg_running L then L else fold (log_message clock) (final_report role_name localStats remoteStats) L)"

lemma report_line_head: "m \<in> set (final_report rl st1 st2) \<Longrightarrow> \<not> isDebugLine m"
  by (auto simp: final_report_def report_lines_def isDebugLine_def split: if_splits)

lemma fold_log_queue:
  "lg_started L \<Longrightarrow> \<forall>m \<in> set ms. \<not> isDebugLine m \<Longrightarrow>
     fold (log_message clock) ms L = L\<lparr>lg_queue := lg_queue L @ ms\<rparr>"
  by (induction ms arbitrary: L) (auto simp: log_message_def log_push_def)

text \<open>A running logger gets the whole report, in one piece unless another thread logs in between.\<close>

lemma final_report_queued:
  assumes "lg_running L" "lg_started L"
  shows "writeFinalReport clock rl st1 st2 L = L\<lparr>lg_queue := lg_queue L @ final_report rl st1 st2\<rparr>"
  using assms fold_log_queue [of L "final_report rl st1 st2" clock] report_line_head
  by (auto simp: writeFinalReport_def)

subsection \<open>The pipe thread on Windows\<close>

text \<open>
  Where the thread is: at the test of its loop, about to look at \<open>hPipe\<close>, about to call
  \<open>ConnectNamedPipe\<close>, inside it on a handle, serving a client, after a failed call, at its last test, ended.
  Where \<open>stop\<close> is: not called, after \<open>running\<close> was cleared and the log worker joined, after \<open>CancelIoEx\<close>,
  between closing the handle and resetting \<open>hPipe\<close>, in \<open>join\<close>, returned.
\<close>

datatype pipe_point =
    P_test | P_look | P_connect | P_waiting nat | P_serving | P_failed | P_last | P_reset | P_ended

datatype stop_point = Not_stopped | Before_cancel | Before_close | Before_reset | Joining | Stop_returned

record log_pipe =
  lp_running :: bool
  lp_connected :: bool
  lp_hPipe :: "nat option"
  lp_point :: pipe_point
  lp_stop :: stop_point
  lp_kernel :: win_kernel

definition new_log_pipe :: log_pipe where
  "new_log_pipe = \<lparr>lp_running = True, lp_connected = False, lp_hPipe = None, lp_point = P_test, lp_stop = Not_stopped,
     lp_kernel = \<lparr>wk_next = 0, wk_open = [], wk_faults = [], wk_spawned = [], wk_killed = [], wk_waited = []\<rparr>\<rparr>"

text \<open>
  One step of the thread; \<open>ok\<close>: the call it makes succeeds (\<open>CreateNamedPipeA\<close>; a client was already there
  for \<open>ConnectNamedPipe\<close>). Inside \<open>ConnectNamedPipe\<close> it does not move by itself, unless its handle is closed
  and the system lets the call fail then.
\<close>

definition pipe_thread :: "bool \<Rightarrow> log_pipe \<Rightarrow> log_pipe" where
  "pipe_thread ok s =
     (case lp_point s of
        P_test \<Rightarrow> s\<lparr>lp_point := if lp_running s then P_look else P_last\<rparr>
      | P_look \<Rightarrow>
          if lp_hPipe s \<noteq> None then s\<lparr>lp_point := P_connect\<rparr>
          else if ok then s\<lparr>lp_hPipe := Some (wk_next (lp_kernel s)), lp_kernel := new_handle (lp_kernel s),
            lp_point := P_connect\<rparr>
          else s\<lparr>lp_point := P_test\<rparr>
      | P_connect \<Rightarrow>
          (case lp_hPipe s of
             None \<Rightarrow> s\<lparr>lp_point := P_failed\<rparr>
           | Some h \<Rightarrow>
               if h \<notin> set (wk_open (lp_kernel s))
               then s\<lparr>lp_kernel := use_handle (Some h) (lp_kernel s), lp_point := P_failed\<rparr>
               else if ok then s\<lparr>lp_connected := True, lp_point := P_serving\<rparr>
               else s\<lparr>lp_point := P_waiting h\<rparr>)
      | P_waiting h \<Rightarrow> if h \<notin> set (wk_open (lp_kernel s)) \<and> ok then s\<lparr>lp_point := P_failed\<rparr> else s
      | P_serving \<Rightarrow>
          if lp_running s \<and> lp_connected s then s
          else if \<not> lp_running s then s\<lparr>lp_point := P_last\<rparr>
          else s\<lparr>lp_kernel := use_handle (lp_hPipe s) (lp_kernel s), lp_point := P_test\<rparr>
      | P_failed \<Rightarrow> s\<lparr>lp_kernel := CloseHandle (lp_hPipe s) (lp_kernel s), lp_hPipe := None, lp_point := P_test\<rparr>
      | P_last \<Rightarrow>
          if lp_hPipe s \<noteq> None
          then s\<lparr>lp_kernel := CloseHandle (lp_hPipe s) (lp_kernel s), lp_point := P_reset\<rparr> else s\<lparr>lp_point := P_ended\<rparr>
      | P_reset \<Rightarrow> s\<lparr>lp_hPipe := None, lp_point := P_ended\<rparr>
      | P_ended \<Rightarrow> s)"

text \<open>One step of the thread that calls \<open>Logger::stop\<close>. \<open>CancelIoEx\<close> makes a waiting call fail.\<close>

definition stop_thread :: "log_pipe \<Rightarrow> log_pipe" where
  "stop_thread s =
     (case lp_stop s of
        Not_stopped \<Rightarrow> s\<lparr>lp_running := False, lp_stop := Before_cancel\<rparr>
      | Before_cancel \<Rightarrow>
          (case lp_point s of
             P_waiting h \<Rightarrow> s\<lparr>lp_point := if lp_hPipe s = Some h then P_failed else P_waiting h, lp_stop := Before_close\<rparr>
           | _ \<Rightarrow> s\<lparr>lp_stop := Before_close\<rparr>)
      | Before_close \<Rightarrow>
          if lp_hPipe s \<noteq> None
          then s\<lparr>lp_kernel := CloseHandle (lp_hPipe s) (lp_kernel s), lp_stop := Before_reset\<rparr>
          else s\<lparr>lp_stop := Joining\<rparr>
      | Before_reset \<Rightarrow> s\<lparr>lp_hPipe := None, lp_stop := Joining\<rparr>
      | Joining \<Rightarrow> if lp_point s = P_ended then s\<lparr>lp_stop := Stop_returned\<rparr> else s
      | Stop_returned \<Rightarrow> s)"

text \<open>A client connects, or the log worker's \<open>WriteFile\<close> fails.\<close>

definition client_comes :: "log_pipe \<Rightarrow> log_pipe" where
  "client_comes s = (case lp_point s of P_waiting h \<Rightarrow> s\<lparr>lp_connected := True, lp_point := P_serving\<rparr> | _ \<Rightarrow> s)"

definition write_fails :: "log_pipe \<Rightarrow> log_pipe" where
  "write_fails s = s\<lparr>lp_connected := False\<rparr>"

datatype log_pipe_choice = Thread bool | Stopper | Client | Write_fails

fun log_pipe_step :: "log_pipe_choice \<Rightarrow> log_pipe \<Rightarrow> log_pipe" where
  "log_pipe_step (Thread ok) s = pipe_thread ok s"
| "log_pipe_step Stopper s = stop_thread s"
| "log_pipe_step Client s = client_comes s"
| "log_pipe_step Write_fails s = write_fails s"

lemmas log_pipe_defs = pipe_thread_def stop_thread_def client_comes_def write_fails_def handle_defs

subsection \<open>When the thread ends\<close>

definition stop_safe :: "log_pipe \<Rightarrow> bool" where
  "stop_safe s \<longleftrightarrow> \<not> lp_running s \<and> lp_stop s \<noteq> Not_stopped \<and>
     (case lp_point s of
        P_look \<Rightarrow> False | P_connect \<Rightarrow> False
      | P_waiting h \<Rightarrow> lp_hPipe s = Some h \<and> lp_stop s = Before_cancel
      | _ \<Rightarrow> True)"

lemma stop_safe_step: "stop_safe s \<Longrightarrow> stop_safe (log_pipe_step c s)"
  by (cases c; cases "lp_point s"; cases "lp_stop s") (auto simp: stop_safe_def log_pipe_defs split: option.split)

lemma stop_safe_run: "stop_safe s \<Longrightarrow> stop_safe (fold log_pipe_step cs s)"
  by (induction cs arbitrary: s) (auto intro: stop_safe_step)

definition stop_round :: "log_pipe \<Rightarrow> log_pipe" where
  "stop_round s = pipe_thread False (stop_thread s)"

text \<open>Steps of the two threads still needed.\<close>

fun point_rank :: "pipe_point \<Rightarrow> nat" where
  "point_rank P_ended = 0" | "point_rank P_reset = 1" | "point_rank P_last = 2" | "point_rank P_test = 3"
| "point_rank P_failed = 4" | "point_rank P_serving = 4" | "point_rank _ = 5"

fun stop_rank :: "stop_point \<Rightarrow> nat" where
  "stop_rank Stop_returned = 0" | "stop_rank Joining = 1" | "stop_rank Before_reset = 2" | "stop_rank Before_close = 3"
| "stop_rank Before_cancel = 4" | "stop_rank Not_stopped = 5"

definition pipe_rank :: "log_pipe \<Rightarrow> nat" where
  "pipe_rank s = point_rank (lp_point s) + stop_rank (lp_stop s)"

lemma stop_safe_round:
  assumes "stop_safe s" "lp_stop s \<noteq> Stop_returned"
  shows "stop_safe (stop_round s) \<and> pipe_rank (stop_round s) < pipe_rank s"
proof -
  have "stop_safe (stop_round s)"
    using stop_safe_step [of "stop_thread s" "Thread False"] stop_safe_step [of s Stopper] assms(1)
    by (simp add: stop_round_def)
  moreover have "pipe_rank (stop_round s) < pipe_rank s"
    using assms
    by (cases "lp_point s"; cases "lp_stop s")
      (auto simp: stop_safe_def stop_round_def pipe_rank_def log_pipe_defs split: option.split)
  ultimately show ?thesis ..
qed

lemma stop_round_returned: "lp_stop s = Stop_returned \<Longrightarrow> lp_stop (stop_round s) = Stop_returned"
  by (auto simp: stop_round_def log_pipe_defs split: pipe_point.split option.split)

lemma stop_rounds: "stop_safe s \<Longrightarrow> pipe_rank s \<le> n \<Longrightarrow> lp_stop ((stop_round ^^ n) s) = Stop_returned"
proof (induction n arbitrary: s)
  case 0
  then show ?case by (cases "lp_stop s") (auto simp: pipe_rank_def)
next
  case (Suc n)
  show ?case
  proof (cases "lp_stop s = Stop_returned")
    case True
    then have "lp_stop ((stop_round ^^ k) s) = Stop_returned" for k
      by (induction k) (auto intro: stop_round_returned)
    then show ?thesis by blast
  next
    case False
    from stop_safe_round [OF Suc.prems(1) this] Suc.prems(2) show ?thesis
      by (simp only: funpow_Suc_right comp_apply) (rule Suc.IH; simp)
  qed
qed

text \<open>
  A call of \<open>stop\<close> that finds the pipe thread waiting for a client on \<open>hPipe\<close>, or serving one, returns:
  whatever steps of clients, of the log worker and of the two threads come first, nine rounds are enough.
\<close>

lemma logger_pipe_stops:
  assumes "lp_point s = P_serving \<or> (\<exists>h. lp_point s = P_waiting h \<and> lp_hPipe s = Some h)" and "lp_stop s = Not_stopped"
  shows "lp_stop ((stop_round ^^ 9) (fold log_pipe_step cs (stop_thread s))) = Stop_returned"
proof (rule stop_rounds)
  have "stop_safe (stop_thread s)" using assms by (auto simp: stop_safe_def stop_thread_def)
  then show *: "stop_safe (fold log_pipe_step cs (stop_thread s))" by (rule stop_safe_run)
  then show "pipe_rank (fold log_pipe_step cs (stop_thread s)) \<le> 9"
    by (cases "lp_point (fold log_pipe_step cs (stop_thread s))"; cases "lp_stop (fold log_pipe_step cs (stop_thread s))")
      (auto simp: stop_safe_def pipe_rank_def)
qed

text \<open>
  If \<open>stop\<close> comes when the thread has tested \<open>running\<close> but not yet created the pipe, the thread creates one
  afterwards and waits on it, and \<open>join\<close> does not return until some client connects.
\<close>

definition hung_pipe :: log_pipe where
  "hung_pipe = fold log_pipe_step [Thread True, Stopper, Stopper, Stopper, Thread True, Thread False] new_log_pipe"

lemma stop_may_hang: "c \<noteq> Client \<Longrightarrow> lp_stop (log_pipe_step c hung_pipe) = Joining \<and>
    lp_point (log_pipe_step c hung_pipe) = P_waiting 0 \<and> wk_open (lp_kernel (log_pipe_step c hung_pipe)) = [0]"
  by (cases c) (auto simp: hung_pipe_def new_log_pipe_def log_pipe_defs)

text \<open>
  In the ordinary case, \<open>CancelIoEx\<close> wakes the thread, and it closes the handle that \<open>stop\<close> closes as well.
\<close>

lemma stop_may_close_twice:
  "wk_faults (lp_kernel (fold log_pipe_step
     [Thread True, Thread True, Thread False, Stopper, Stopper, Stopper, Thread True] new_log_pipe)) = [0]"
  by (simp add: new_log_pipe_def log_pipe_defs)

end
