(* ===== verification/JsonLexer.thy ===== *)
theory JsonLexer
  imports Json
begin

section \<open>The lexical analyser of the JSON library\<close>

text \<open>
  \<open>nlohmann::detail::lexer\<close> of the vendored \<open>json.hpp\<close>, reading from a string or a stream of
  bytes: the input management (\<open>get\<close>, \<open>unget\<close>, \<open>add\<close>, the position and the text of the token
  read so far), the scanning of strings, numbers and literals, and \<open>scan\<close>. The record holds the
  members of the class; \<open>char_traits::eof()\<close> is \<open>None\<close>. \<open>strtod\<close> is a parameter (rounding is not
  modelled); it gives \<open>None\<close> where the C function returns an infinity. Comments in the text are
  never asked for by the program (\<open>ignore_comments\<close> is false), and the decimal point is that
  of the C locale, which no part of the program changes.
\<close>

subsection \<open>Tokens\<close>

datatype token_type =
    TT_uninitialized
  | TT_literal_true
  | TT_literal_false
  | TT_literal_null
  | TT_value_string
  | TT_value_unsigned
  | TT_value_integer
  | TT_value_float
  | TT_begin_array
  | TT_begin_object
  | TT_end_array
  | TT_end_object
  | TT_name_separator
  | TT_value_separator
  | TT_parse_error
  | TT_end_of_input
  | TT_literal_or_value

definition sq :: "char \<Rightarrow> string" where
  "sq c = [CHR 0x27, c, CHR 0x27]"

fun token_type_name :: "token_type \<Rightarrow> string" where
  "token_type_name TT_uninitialized = ''<uninitialized>''"
| "token_type_name TT_literal_true = ''true literal''"
| "token_type_name TT_literal_false = ''false literal''"
| "token_type_name TT_literal_null = ''null literal''"
| "token_type_name TT_value_string = ''string literal''"
| "token_type_name TT_value_unsigned = ''number literal''"
| "token_type_name TT_value_integer = ''number literal''"
| "token_type_name TT_value_float = ''number literal''"
| "token_type_name TT_begin_array = sq (CHR ''['')"
| "token_type_name TT_begin_object = sq (CHR ''{'')"
| "token_type_name TT_end_array = sq (CHR '']'')"
| "token_type_name TT_end_object = sq (CHR ''}'')"
| "token_type_name TT_name_separator = sq (CHR '':'')"
| "token_type_name TT_value_separator = sq (CHR '','')"
| "token_type_name TT_parse_error = ''<parse error>''"
| "token_type_name TT_end_of_input = ''end of input''"
| "token_type_name TT_literal_or_value = sq (CHR ''['') @ '', '' @ sq (CHR ''{'') @ '', or a literal''"

subsection \<open>Input management\<close>

record lexer =
  lx_input :: string
  lx_current :: "char option"
  lx_next_unget :: bool
  lx_chars_read_total :: nat
  lx_chars_read_current_line :: nat
  lx_lines_read :: nat
  lx_token_string :: string
  lx_token_buffer :: string
  lx_error_message :: string
  lx_value_unsigned :: nat
  lx_value_integer :: int
  lx_value_float :: "double option"

definition lexer_init :: "string \<Rightarrow> lexer" where
  "lexer_init s =
     \<lparr>lx_input = s, lx_current = None, lx_next_unget = False, lx_chars_read_total = 0,
      lx_chars_read_current_line = 0, lx_lines_read = 0, lx_token_string = [],
      lx_token_buffer = [], lx_error_message = [], lx_value_unsigned = 0,
      lx_value_integer = 0, lx_value_float = Some 0\<rparr>"

definition lx_reset :: "lexer \<Rightarrow> lexer" where
  "lx_reset l =
     l\<lparr>lx_token_buffer := [],
       lx_token_string := (case lx_current l of None \<Rightarrow> [CHR 0xFF] | Some c \<Rightarrow> [c])\<rparr>"

definition lx_get :: "lexer \<Rightarrow> lexer" where
  "lx_get l =
     (let l = l\<lparr>lx_chars_read_total := Suc (lx_chars_read_total l),
                lx_chars_read_current_line := Suc (lx_chars_read_current_line l)\<rparr>;
          l = (if lx_next_unget l then l\<lparr>lx_next_unget := False\<rparr>
               else (case lx_input l of
                       [] \<Rightarrow> l\<lparr>lx_current := None\<rparr>
                     | c # cs \<Rightarrow> l\<lparr>lx_current := Some c, lx_input := cs\<rparr>));
          l = (case lx_current l of
                 None \<Rightarrow> l
               | Some c \<Rightarrow> l\<lparr>lx_token_string := lx_token_string l @ [c]\<rparr>)
      in if lx_current l = Some (CHR 0x0A)
         then l\<lparr>lx_lines_read := Suc (lx_lines_read l), lx_chars_read_current_line := 0\<rparr>
         else l)"

definition lx_unget :: "lexer \<Rightarrow> lexer" where
  "lx_unget l =
     (let l = l\<lparr>lx_next_unget := True, lx_chars_read_total := lx_chars_read_total l - 1\<rparr>;
          l = (if lx_chars_read_current_line l = 0
               then (if lx_lines_read l > 0 then l\<lparr>lx_lines_read := lx_lines_read l - 1\<rparr> else l)
               else l\<lparr>lx_chars_read_current_line := lx_chars_read_current_line l - 1\<rparr>)
      in if lx_current l \<noteq> None then l\<lparr>lx_token_string := butlast (lx_token_string l)\<rparr> else l)"

definition lx_add :: "char \<Rightarrow> lexer \<Rightarrow> lexer" where
  "lx_add c l = l\<lparr>lx_token_buffer := lx_token_buffer l @ [c]\<rparr>"

definition lx_add_current :: "lexer \<Rightarrow> lexer" where
  "lx_add_current l = (case lx_current l of None \<Rightarrow> l | Some c \<Rightarrow> lx_add c l)"

text \<open>Setting \<open>error_message\<close> and returning \<open>parse_error\<close>, or \<open>false\<close>.\<close>

definition lx_error :: "string \<Rightarrow> lexer \<Rightarrow> token_type \<times> lexer" where
  "lx_error m l = (TT_parse_error, l\<lparr>lx_error_message := m\<rparr>)"

definition lx_false :: "string \<Rightarrow> lexer \<Rightarrow> bool \<times> lexer" where
  "lx_false m l = (False, l\<lparr>lx_error_message := m\<rparr>)"

definition hex_upper :: "nat \<Rightarrow> char" where
  "hex_upper d = (if d < 10 then char_of (48 + d) else char_of (55 + d))"

text \<open>The last token read, with control characters as \<open><U+%.4X>\<close>.\<close>

definition token_char :: "char \<Rightarrow> string" where
  "token_char c =
     (let n = (of_char c :: nat)
      in if n \<le> 0x1F then ''<U+00'' @ [hex_upper (n div 16), hex_upper (n mod 16)] @ ''>'' else [c])"

definition get_token_string :: "lexer \<Rightarrow> string" where
  "get_token_string l = concat (map token_char (lx_token_string l))"

subsection \<open>Termination: what each read leaves of the input\<close>

definition lx_size :: "lexer \<Rightarrow> nat" where
  "lx_size l = length (lx_input l) + (if lx_next_unget l \<and> lx_current l \<noteq> None then 1 else 0)"

lemma lx_get_size_le: "lx_size (lx_get l) \<le> lx_size l"
  by (auto simp: lx_size_def lx_get_def Let_def split: list.splits option.splits)

lemma lx_get_size_less: "lx_current (lx_get l) \<noteq> None \<Longrightarrow> lx_size (lx_get l) < lx_size l"
  by (auto simp: lx_size_def lx_get_def Let_def split: list.splits option.splits if_splits)

lemma lx_get_not_unget [simp]: "\<not> lx_next_unget (lx_get l)"
  by (auto simp: lx_get_def Let_def split: list.splits option.splits)

lemma lx_size_add [simp]: "lx_size (lx_add c l) = lx_size l"
  by (simp add: lx_size_def lx_add_def)

lemma lx_size_add_current [simp]: "lx_size (lx_add_current l) = lx_size l"
  by (simp add: lx_add_current_def split: option.splits)

lemma lx_size_reset [simp]: "lx_size (lx_reset l) = lx_size l"
  by (simp add: lx_size_def lx_reset_def)

lemma lx_size_error [simp]: "lx_size (l\<lparr>lx_error_message := m\<rparr>) = lx_size l"
  by (simp add: lx_size_def)

lemma lx_size_unget:
  "lx_size (lx_unget l) = length (lx_input l) + (if lx_current l \<noteq> None then 1 else 0)"
  by (simp add: lx_size_def lx_unget_def Let_def)

lemma lx_size_no_unget: "\<not> lx_next_unget l \<Longrightarrow> lx_size l = length (lx_input l)"
  by (simp add: lx_size_def)

subsection \<open>White space and literals\<close>

definition is_json_ws :: "char \<Rightarrow> bool" where
  "is_json_ws c \<longleftrightarrow> c = CHR '' '' \<or> c = CHR 0x09 \<or> c = CHR 0x0A \<or> c = CHR 0x0D"

function skip_whitespace :: "lexer \<Rightarrow> lexer" where
  "skip_whitespace l =
     (let l' = lx_get l
      in case lx_current l' of
           None \<Rightarrow> l'
         | Some c \<Rightarrow> if is_json_ws c then skip_whitespace l' else l')"
  by pat_completeness auto
termination
  by (relation "measure lx_size") (auto intro: lx_get_size_less)

declare skip_whitespace.simps [simp del]

text \<open>\<open>true\<close> unless the input starts with a broken byte order mark.\<close>

definition skip_bom :: "lexer \<Rightarrow> bool \<times> lexer" where
  "skip_bom l =
     (let l1 = lx_get l
      in if lx_current l1 = Some (CHR 0xEF)
         then (let l2 = lx_get l1
               in if lx_current l2 = Some (CHR 0xBB)
                  then (let l3 = lx_get l2 in (lx_current l3 = Some (CHR 0xBF), l3))
                  else (False, l2))
         else (True, lx_unget l1))"

text \<open>The characters of the literal after its first.\<close>

fun scan_literal :: "string \<Rightarrow> token_type \<Rightarrow> lexer \<Rightarrow> token_type \<times> lexer" where
  "scan_literal [] t l = (t, l)"
| "scan_literal (c # cs) t l =
     (let l' = lx_get l
      in if lx_current l' \<noteq> Some c then lx_error ''invalid literal'' l' else scan_literal cs t l')"

subsection \<open>Strings\<close>

text \<open>The four hexadecimal digits after \<open>\u\<close>; \<open>None\<close> stands for \<open>-1\<close>.\<close>

definition hex_digit_value :: "char \<Rightarrow> nat option" where
  "hex_digit_value c =
     (let n = (of_char c :: nat)
      in if 0x30 \<le> n \<and> n \<le> 0x39 then Some (n - 0x30)
         else if 0x41 \<le> n \<and> n \<le> 0x46 then Some (n - 0x37)
         else if 0x61 \<le> n \<and> n \<le> 0x66 then Some (n - 0x57)
         else None)"

fun get_codepoint_from :: "nat list \<Rightarrow> nat \<Rightarrow> lexer \<Rightarrow> nat option \<times> lexer" where
  "get_codepoint_from [] cp l = (Some cp, l)"
| "get_codepoint_from (f # fs) cp l =
     (let l' = lx_get l
      in case Option.bind (lx_current l') hex_digit_value of
           None \<Rightarrow> (None, l')
         | Some d \<Rightarrow> get_codepoint_from fs (cp + d * 2 ^ f) l')"

definition get_codepoint :: "lexer \<Rightarrow> nat option \<times> lexer" where
  "get_codepoint = get_codepoint_from [12, 8, 4, 0] 0"

text \<open>The bytes added for a code point.\<close>

definition utf8_bytes :: "nat \<Rightarrow> string" where
  "utf8_bytes cp =
     (if cp < 0x80 then [char_of cp]
      else if cp \<le> 0x7FF then [char_of (0xC0 + cp div 64), char_of (0x80 + cp mod 64)]
      else if cp \<le> 0xFFFF
      then [char_of (0xE0 + cp div 4096), char_of (0x80 + cp div 64 mod 64), char_of (0x80 + cp mod 64)]
      else [char_of (0xF0 + cp div 262144), char_of (0x80 + cp div 4096 mod 64),
            char_of (0x80 + cp div 64 mod 64), char_of (0x80 + cp mod 64)])"

definition add_codepoint :: "nat \<Rightarrow> lexer \<Rightarrow> lexer" where
  "add_codepoint cp l = l\<lparr>lx_token_buffer := lx_token_buffer l @ utf8_bytes cp\<rparr>"

definition err_hex_digits :: string where
  "err_hex_digits =
     ''invalid string: '' @ [CHR 0x27, CHR 0x5C] @ ''u'' @ [CHR 0x27] @ '' must be followed by 4 hex digits''"

definition err_high_surrogate :: string where
  "err_high_surrogate = ''invalid string: surrogate U+D800..U+DBFF must be followed by U+DC00..U+DFFF''"

definition err_low_surrogate :: string where
  "err_low_surrogate = ''invalid string: surrogate U+DC00..U+DFFF must follow U+D800..U+DBFF''"

text \<open>A unicode escape, from after its \<open>u\<close> on; a high surrogate needs a second escape.\<close>

definition scan_low_surrogate :: "nat \<Rightarrow> lexer \<Rightarrow> bool \<times> lexer" where
  "scan_low_surrogate codepoint1 l =
     (let l1 = lx_get l
      in if lx_current l1 \<noteq> Some (CHR 0x5C) then lx_false err_high_surrogate l1
         else (let l2 = lx_get l1
               in if lx_current l2 \<noteq> Some (CHR ''u'') then lx_false err_high_surrogate l2
                  else (case get_codepoint l2 of
                          (None, l3) \<Rightarrow> lx_false err_hex_digits l3
                        | (Some codepoint2, l3) \<Rightarrow>
                            if 0xDC00 \<le> codepoint2 \<and> codepoint2 \<le> 0xDFFF
                            then (True, add_codepoint (codepoint1 * 1024 + codepoint2 - 0x35FDC00) l3)
                            else lx_false err_high_surrogate l3)))"

definition scan_unicode :: "lexer \<Rightarrow> bool \<times> lexer" where
  "scan_unicode l =
     (case get_codepoint l of
        (None, l1) \<Rightarrow> lx_false err_hex_digits l1
      | (Some codepoint1, l1) \<Rightarrow>
          if 0xD800 \<le> codepoint1 \<and> codepoint1 \<le> 0xDBFF then scan_low_surrogate codepoint1 l1
          else if 0xDC00 \<le> codepoint1 \<and> codepoint1 \<le> 0xDFFF then lx_false err_low_surrogate l1
          else (True, add_codepoint codepoint1 l1))"

text \<open>What follows a backslash.\<close>

definition scan_escape :: "lexer \<Rightarrow> bool \<times> lexer" where
  "scan_escape l =
     (let l = lx_get l
      in case lx_current l of
           None \<Rightarrow> lx_false ''invalid string: forbidden character after backslash'' l
         | Some c \<Rightarrow>
             if c = CHR 0x22 then (True, lx_add (CHR 0x22) l)
             else if c = CHR 0x5C then (True, lx_add (CHR 0x5C) l)
             else if c = CHR ''/'' then (True, lx_add (CHR ''/'') l)
             else if c = CHR ''b'' then (True, lx_add (CHR 0x08) l)
             else if c = CHR ''f'' then (True, lx_add (CHR 0x0C) l)
             else if c = CHR ''n'' then (True, lx_add (CHR 0x0A) l)
             else if c = CHR ''r'' then (True, lx_add (CHR 0x0D) l)
             else if c = CHR ''t'' then (True, lx_add (CHR 0x09) l)
             else if c = CHR ''u'' then scan_unicode l
             else lx_false ''invalid string: forbidden character after backslash'' l)"

text \<open>The message for each control character, which may not appear unescaped.\<close>

definition control_names :: "string list" where
  "control_names =
     [''NUL'', ''SOH'', ''STX'', ''ETX'', ''EOT'', ''ENQ'', ''ACK'', ''BEL'',
      ''BS'', ''HT'', ''LF'', ''VT'', ''FF'', ''CR'', ''SO'', ''SI'',
      ''DLE'', ''DC1'', ''DC2'', ''DC3'', ''DC4'', ''NAK'', ''SYN'', ''ETB'',
      ''CAN'', ''EM'', ''SUB'', ''ESC'', ''FS'', ''GS'', ''RS'', ''US'']"

definition control_message :: "nat \<Rightarrow> string" where
  "control_message n =
     (let hex = ''00'' @ [hex_upper (n div 16), hex_upper (n mod 16)];
          short = (\<lambda>c. '' or '' @ [CHR 0x5C, c])
      in ''invalid string: control character U+'' @ hex @ '' ('' @ control_names ! n @
         '') must be escaped to '' @ [CHR 0x5C, CHR ''u''] @ hex @
         (if n = 8 then short (CHR ''b'') else if n = 9 then short (CHR ''t'')
          else if n = 10 then short (CHR ''n'') else if n = 12 then short (CHR ''f'')
          else if n = 13 then short (CHR ''r'') else []))"

text \<open>
  The bytes a multi-byte character of UTF-8 continues with, by its first byte; \<open>None\<close> for a
  byte that cannot start one.
\<close>

definition lead_ranges :: "nat \<Rightarrow> (nat \<times> nat) list option" where
  "lead_ranges n =
     (if 0xC2 \<le> n \<and> n \<le> 0xDF then Some [(0x80, 0xBF)]
      else if n = 0xE0 then Some [(0xA0, 0xBF), (0x80, 0xBF)]
      else if (0xE1 \<le> n \<and> n \<le> 0xEC) \<or> n = 0xEE \<or> n = 0xEF then Some [(0x80, 0xBF), (0x80, 0xBF)]
      else if n = 0xED then Some [(0x80, 0x9F), (0x80, 0xBF)]
      else if n = 0xF0 then Some [(0x90, 0xBF), (0x80, 0xBF), (0x80, 0xBF)]
      else if 0xF1 \<le> n \<and> n \<le> 0xF3 then Some [(0x80, 0xBF), (0x80, 0xBF), (0x80, 0xBF)]
      else if n = 0xF4 then Some [(0x80, 0x8F), (0x80, 0xBF), (0x80, 0xBF)]
      else None)"

definition err_utf8 :: string where
  "err_utf8 = ''invalid string: ill-formed UTF-8 byte''"

fun next_bytes :: "(nat \<times> nat) list \<Rightarrow> lexer \<Rightarrow> bool \<times> lexer" where
  "next_bytes [] l = (True, l)"
| "next_bytes ((lo, hi) # ranges) l =
     (let l' = lx_get l
      in case lx_current l' of
           None \<Rightarrow> lx_false err_utf8 l'
         | Some c \<Rightarrow>
             if lo \<le> (of_char c :: nat) \<and> (of_char c :: nat) \<le> hi
             then next_bytes ranges (lx_add c l')
             else lx_false err_utf8 l')"

definition next_byte_in_range :: "(nat \<times> nat) list \<Rightarrow> lexer \<Rightarrow> bool \<times> lexer" where
  "next_byte_in_range ranges l = next_bytes ranges (lx_add_current l)"

lemma size_lx_false [simp]: "lx_size (snd (lx_false m l)) = lx_size l"
  by (simp add: lx_false_def)

lemma size_add_codepoint [simp]: "lx_size (add_codepoint cp l) = lx_size l"
  by (simp add: add_codepoint_def lx_size_def)

lemma size_get_codepoint_from: "lx_size (snd (get_codepoint_from fs cp l)) \<le> lx_size l"
proof (induction fs arbitrary: cp l)
  case Nil
  then show ?case by simp
next
  case (Cons f fs)
  show ?case
    using Cons [of _ "lx_get l"] lx_get_size_le [of l]
    by (auto simp: Let_def split: option.split intro: order_trans)
qed

lemma size_get_codepoint: "get_codepoint l = (r, l') \<Longrightarrow> lx_size l' \<le> lx_size l"
  using size_get_codepoint_from [of "[12, 8, 4, 0]" 0 l] by (simp add: get_codepoint_def)

lemma size_scan_low_surrogate: "lx_size (snd (scan_low_surrogate cp l)) \<le> lx_size l"
proof -
  have 1: "lx_size (lx_get (lx_get l)) \<le> lx_size l"
    using lx_get_size_le [of l] lx_get_size_le [of "lx_get l"] by simp
  show ?thesis
    using 1 lx_get_size_le [of l]
    by (auto simp: scan_low_surrogate_def Let_def split: prod.split option.split
        dest: size_get_codepoint)
qed

lemma size_scan_unicode: "lx_size (snd (scan_unicode l)) \<le> lx_size l"
  by (auto simp: scan_unicode_def split: prod.split option.split dest: size_get_codepoint
      intro: order_trans [OF size_scan_low_surrogate])

lemma size_scan_escape: "lx_size (snd (scan_escape l)) \<le> lx_size l"
  using lx_get_size_le [of l] order_trans [OF size_scan_unicode lx_get_size_le, of l]
  by (auto simp: scan_escape_def Let_def split: option.split)

lemma size_next_bytes: "lx_size (snd (next_bytes rs l)) \<le> lx_size l"
proof (induction rs l rule: next_bytes.induct)
  case (1 l)
  then show ?case by simp
next
  case (2 lo hi ranges l)
  then show ?case
    using lx_get_size_le [of l] by (auto simp: Let_def split: option.split intro: order_trans)
qed

lemma size_next_byte_in_range: "lx_size (snd (next_byte_in_range rs l)) \<le> lx_size l"
  using size_next_bytes [of rs "lx_add_current l"] by (simp add: next_byte_in_range_def)

lemma size_scan_escapeD: "scan_escape l = (b, l') \<Longrightarrow> lx_size l' \<le> lx_size l"
  using size_scan_escape [of l] by simp

lemma size_next_byte_in_rangeD: "next_byte_in_range rs l = (b, l') \<Longrightarrow> lx_size l' \<le> lx_size l"
  using size_next_byte_in_range [of rs l] by simp

lemmas lx_size_le = size_scan_escapeD size_next_byte_in_rangeD

text \<open>\<open>scan_string\<close>: the loop over the characters after the opening quote.\<close>

function scan_string_loop :: "lexer \<Rightarrow> token_type \<times> lexer" where
  "scan_string_loop l =
     (let l' = lx_get l
      in case lx_current l' of
           None \<Rightarrow> lx_error ''invalid string: missing closing quote'' l'
         | Some c \<Rightarrow>
             let n = (of_char c :: nat)
             in if c = CHR 0x22 then (TT_value_string, l')
                else if c = CHR 0x5C
                then (case scan_escape l' of
                        (ok, l'') \<Rightarrow> if ok then scan_string_loop l'' else (TT_parse_error, l''))
                else if n \<le> 0x1F then lx_error (control_message n) l'
                else if n \<le> 0x7F then scan_string_loop (lx_add c l')
                else (case lead_ranges n of
                        None \<Rightarrow> lx_error err_utf8 l'
                      | Some ranges \<Rightarrow>
                          (case next_byte_in_range ranges l' of
                             (ok, l'') \<Rightarrow> if ok then scan_string_loop l'' else (TT_parse_error, l''))))"
  by pat_completeness auto
termination
proof (relation "measure lx_size", goal_cases)
  case 1
  then show ?case by simp
next
  case (2 l l' c n)
  then show ?case
    using lx_get_size_less [of l] by (auto dest!: sym [of _ "scan_escape _"] lx_size_le)
next
  case (3 l l' c n)
  then show ?case using lx_get_size_less [of l] by auto
next
  case (4 l l' c n ranges)
  then show ?case
    using lx_get_size_less [of l] by (auto dest!: sym [of _ "next_byte_in_range _ _"] lx_size_le)
qed

declare scan_string_loop.simps [simp del]

definition scan_string :: "lexer \<Rightarrow> token_type \<times> lexer" where
  "scan_string l = scan_string_loop (lx_reset l)"

lemma size_lx_error [simp]: "lx_size (snd (lx_error m l)) = lx_size l"
  by (simp add: lx_error_def)

lemma size_scan_string_loop: "lx_size (snd (scan_string_loop l)) \<le> lx_size l"
proof (induction l rule: scan_string_loop.induct)
  case (1 l)
  define l' where "l' = lx_get l"
  have le: "lx_size l' \<le> lx_size l" by (simp add: l'_def lx_get_size_le)
  note IH = 1 [OF l'_def]
  show ?case
  proof (cases "lx_current l'")
    case None
    with le show ?thesis by (subst scan_string_loop.simps) (simp add: l'_def)
  next
    case (Some c)
    define n where "n = (of_char c :: nat)"
    obtain b e where e: "scan_escape l' = (b, e)" by (cases "scan_escape l'")
    have "lx_size e \<le> lx_size l" using le lx_size_le(1) [OF e] by simp
    note esc = this
    show ?thesis
    proof (cases "lead_ranges n")
      case None
      then show ?thesis
        using IH(1,2) [OF Some n_def] le esc e Some
        by (subst scan_string_loop.simps)
           (cases b; auto simp: l'_def [symmetric] n_def [symmetric] Let_def intro: order_trans)
    next
      case (Some rs)
      obtain a r where r: "next_byte_in_range rs l' = (a, r)" by (cases "next_byte_in_range rs l'")
      have rle: "lx_size r \<le> lx_size l" using le lx_size_le(2) [OF r] by simp
      have "c \<noteq> CHR 0x22 \<Longrightarrow> c \<noteq> CHR 0x5C \<Longrightarrow> \<not> n \<le> 0x1F \<Longrightarrow> \<not> n \<le> 0x7F \<Longrightarrow> a \<Longrightarrow>
          lx_size (snd (scan_string_loop r)) \<le> lx_size r"
        by (rule IH(3) [OF \<open>lx_current l' = Some c\<close> n_def _ _ _ _ Some r [symmetric]])
      with Some rle show ?thesis
        using IH(1,2) [OF \<open>lx_current l' = Some c\<close> n_def] le esc e r \<open>lx_current l' = Some c\<close>
        by (subst scan_string_loop.simps)
           (cases b; cases a; auto simp: l'_def [symmetric] n_def [symmetric] Let_def intro: order_trans)
    qed
  qed
qed

subsection \<open>Numbers\<close>

text \<open>
  The labels of \<open>scan_number\<close> are states; \<open>number_type_at\<close> is the assignment to \<open>number_type\<close>
  at a label, and a step says where the character read next leads: on to a label (the character
  is added), to \<open>scan_number_done\<close>, or to an error.
\<close>

datatype number_state =
    NS_minus | NS_zero | NS_any1 | NS_decimal1 | NS_decimal2 | NS_exponent | NS_sign | NS_any2

datatype number_step = NS_goto number_state | NS_done | NS_fail string

fun number_type_at :: "number_state \<Rightarrow> token_type \<Rightarrow> token_type" where
  "number_type_at NS_minus t = TT_value_integer"
| "number_type_at NS_decimal1 t = TT_value_float"
| "number_type_at NS_exponent t = TT_value_float"
| "number_type_at _ t = t"

definition is_e :: "char \<Rightarrow> bool" where
  "is_e c \<longleftrightarrow> c = CHR ''e'' \<or> c = CHR ''E''"

fun integer_part_step :: "number_state \<Rightarrow> char \<Rightarrow> number_step" where
  "integer_part_step NS_minus c =
     (if c = CHR ''0'' then NS_goto NS_zero
      else if is_digit c then NS_goto NS_any1
      else NS_fail (''invalid number; expected digit after '' @ sq (CHR ''-'')))"
| "integer_part_step NS_zero c =
     (if c = CHR ''.'' then NS_goto NS_decimal1
      else if is_e c then NS_goto NS_exponent
      else NS_done)"
| "integer_part_step _ c =
     (if is_digit c then NS_goto NS_any1
      else if c = CHR ''.'' then NS_goto NS_decimal1
      else if is_e c then NS_goto NS_exponent
      else NS_done)"

fun fraction_step :: "number_state \<Rightarrow> char \<Rightarrow> number_step" where
  "fraction_step NS_decimal1 c =
     (if is_digit c then NS_goto NS_decimal2
      else NS_fail (''invalid number; expected digit after '' @ sq (CHR ''.'')))"
| "fraction_step NS_decimal2 c =
     (if is_digit c then NS_goto NS_decimal2
      else if is_e c then NS_goto NS_exponent
      else NS_done)"
| "fraction_step NS_exponent c =
     (if c = CHR ''+'' \<or> c = CHR ''-'' then NS_goto NS_sign
      else if is_digit c then NS_goto NS_any2
      else NS_fail (''invalid number; expected '' @ sq (CHR ''+'') @ '', '' @ sq (CHR ''-'') @
                    '', or digit after exponent''))"
| "fraction_step NS_sign c =
     (if is_digit c then NS_goto NS_any2
      else NS_fail ''invalid number; expected digit after exponent sign'')"
| "fraction_step _ c = (if is_digit c then NS_goto NS_any2 else NS_done)"

definition is_integer_part :: "number_state \<Rightarrow> bool" where
  "is_integer_part st \<longleftrightarrow> st = NS_minus \<or> st = NS_zero \<or> st = NS_any1"

text \<open>The end of the input takes the \<open>default\<close> branch of each label, as a blank would.\<close>

definition number_step_at :: "number_state \<Rightarrow> char option \<Rightarrow> number_step" where
  "number_step_at st c =
     (let c' = (case c of None \<Rightarrow> CHR '' '' | Some x \<Rightarrow> x)
      in if is_integer_part st then integer_part_step st c' else fraction_step st c')"

lemma number_step_eof: "number_step_at st None \<noteq> NS_goto st'"
  by (cases st) (simp_all add: number_step_at_def Let_def is_integer_part_def is_digit_def is_e_def)

function scan_number_from :: "number_state \<Rightarrow> token_type \<Rightarrow> lexer \<Rightarrow> token_type \<times> lexer" where
  "scan_number_from st t l =
     (let l' = lx_get l
      in case number_step_at st (lx_current l') of
           NS_goto st' \<Rightarrow> scan_number_from st' (number_type_at st t) (lx_add_current l')
         | NS_done \<Rightarrow> (number_type_at st t, l')
         | NS_fail m \<Rightarrow> lx_error m l')"
  by pat_completeness auto
termination
proof (relation "measure (\<lambda>(st, t, l). lx_size l)", goal_cases)
  case 1
  then show ?case by simp
next
  case (2 st t l l' st')
  then have "lx_current (lx_get l) \<noteq> None" by (metis number_step_eof)
  with 2 lx_get_size_less [of l] show ?case by simp
qed

declare scan_number_from.simps [simp del]

definition ULLONG_MAX :: int where "ULLONG_MAX = 2 ^ 64 - 1"

text \<open>\<open>strtoull\<close> and \<open>strtoll\<close> on a text the states have checked; outside the type's range
  \<open>errno\<close> is \<open>ERANGE\<close> and the number is read as a \<open>double\<close>.\<close>

definition number_text_value :: "string \<Rightarrow> int" where
  "number_text_value s = (case scan_int s of None \<Rightarrow> 0 | Some (v, n) \<Rightarrow> v)"

definition scan_number_done ::
  "(string \<Rightarrow> double option) \<Rightarrow> token_type \<Rightarrow> lexer \<Rightarrow> token_type \<times> lexer" where
  "scan_number_done strtod t l =
     (let l = lx_unget l;
          x = number_text_value (lx_token_buffer l)
      in if t = TT_value_unsigned \<and> x \<le> ULLONG_MAX
         then (TT_value_unsigned, l\<lparr>lx_value_unsigned := nat x\<rparr>)
         else if t = TT_value_integer \<and> LLONG_MIN \<le> x \<and> x \<le> LLONG_MAX
         then (TT_value_integer, l\<lparr>lx_value_integer := x\<rparr>)
         else (TT_value_float, l\<lparr>lx_value_float := strtod (lx_token_buffer l)\<rparr>))"

definition number_start :: "char option \<Rightarrow> number_state" where
  "number_start c =
     (if c = Some (CHR ''-'') then NS_minus
      else if c = Some (CHR ''0'') then NS_zero
      else NS_any1)"

definition scan_number :: "(string \<Rightarrow> double option) \<Rightarrow> lexer \<Rightarrow> token_type \<times> lexer" where
  "scan_number strtod l =
     (let l = lx_reset l;
          (t, l) = scan_number_from (number_start (lx_current l)) TT_value_unsigned (lx_add_current l)
      in if t = TT_parse_error then (t, l) else scan_number_done strtod t l)"

subsection \<open>The next token\<close>

definition scan_token :: "(string \<Rightarrow> double option) \<Rightarrow> lexer \<Rightarrow> token_type \<times> lexer" where
  "scan_token strtod l =
     (case lx_current l of
        None \<Rightarrow> (TT_end_of_input, l)
      | Some c \<Rightarrow>
          if c = CHR ''['' then (TT_begin_array, l)
          else if c = CHR '']'' then (TT_end_array, l)
          else if c = CHR ''{'' then (TT_begin_object, l)
          else if c = CHR ''}'' then (TT_end_object, l)
          else if c = CHR '':'' then (TT_name_separator, l)
          else if c = CHR '','' then (TT_value_separator, l)
          else if c = CHR ''t'' then scan_literal ''rue'' TT_literal_true l
          else if c = CHR ''f'' then scan_literal ''alse'' TT_literal_false l
          else if c = CHR ''n'' then scan_literal ''ull'' TT_literal_null l
          else if c = CHR 0x22 then scan_string l
          else if c = CHR ''-'' \<or> is_digit c then scan_number strtod l
          else if c = CHR 0x00 then (TT_end_of_input, l)
          else lx_error ''invalid literal'' l)"

definition scan :: "(string \<Rightarrow> double option) \<Rightarrow> lexer \<Rightarrow> token_type \<times> lexer" where
  "scan strtod l =
     (let (ok, l) = (if lx_chars_read_total l = 0 then skip_bom l else (True, l))
      in if \<not> ok
         then lx_error ''invalid BOM; must be 0xEF 0xBB 0xBF if given'' l
         else scan_token strtod (skip_whitespace l))"


subsection \<open>Every token but the last consumes input\<close>

lemma size_scan_literal: "lx_size (snd (scan_literal cs t l)) \<le> lx_size l"
proof (induction cs t l rule: scan_literal.induct)
  case (1 t l)
  then show ?case by simp
next
  case (2 c cs t l)
  then show ?case using lx_get_size_le [of l] by (auto simp: Let_def intro: order_trans)
qed

lemma size_skip_whitespace: "lx_size (skip_whitespace l) \<le> lx_size l"
proof (induction l rule: skip_whitespace.induct)
  case (1 l)
  then show ?case
    using lx_get_size_le [of l]
    by (subst skip_whitespace.simps) (auto simp: Let_def split: option.split intro: order_trans)
qed

lemma skip_whitespace_size_less:
  "lx_current (skip_whitespace l) \<noteq> None \<Longrightarrow> lx_size (skip_whitespace l) < lx_size l"
proof (induction l rule: skip_whitespace.induct)
  case (1 l)
  define l' where "l' = lx_get l"
  show ?case
  proof (cases "lx_current l'")
    case None
    with 1(2) show ?thesis by (simp add: skip_whitespace.simps [of l] l'_def)
  next
    case (Some c)
    then have less: "lx_size l' < lx_size l" using lx_get_size_less [of l] by (simp add: l'_def)
    have "skip_whitespace l = (if is_json_ws c then skip_whitespace l' else l')"
      using Some by (subst skip_whitespace.simps) (simp add: l'_def)
    with less size_skip_whitespace [of l'] show ?thesis by auto
  qed
qed

lemma skip_whitespace_not_unget [simp]: "\<not> lx_next_unget (skip_whitespace l)"
proof (induction l rule: skip_whitespace.induct)
  case (1 l)
  then show ?case
    by (subst skip_whitespace.simps) (auto simp: Let_def split: option.split)
qed

text \<open>The last character read is given back, so it counts while a number is read.\<close>

lemma add_current_fields [simp]:
  "lx_input (lx_add_current l) = lx_input l" "lx_current (lx_add_current l) = lx_current l"
  "lx_next_unget (lx_add_current l) = lx_next_unget l"
  by (simp_all add: lx_add_current_def lx_add_def split: option.split)

lemma lx_error_fields [simp]:
  "fst (lx_error m l) = TT_parse_error" "lx_next_unget (snd (lx_error m l)) = lx_next_unget l"
  by (simp_all add: lx_error_def)

lemma size_unget_get: "lx_size (lx_unget (lx_get l)) \<le> lx_size l"
  using lx_get_size_le [of l] lx_get_size_less [of l] lx_size_no_unget [of "lx_get l"]
  by (auto simp: lx_size_unget)

lemma size_scan_number_from:
  "lx_size (snd (scan_number_from st t l)) \<le> lx_size l \<and>
   (fst (scan_number_from st t l) \<noteq> TT_parse_error \<longrightarrow>
      lx_size (lx_unget (snd (scan_number_from st t l))) \<le> lx_size l)"
proof (induction st t l rule: scan_number_from.induct)
  case (1 st t l)
  define l' where "l' = lx_get l"
  have le: "lx_size l' \<le> lx_size l" by (simp add: l'_def lx_get_size_le)
  show ?case
  proof (cases "number_step_at st (lx_current l')")
    case (NS_goto st')
    then have "scan_number_from st t l = scan_number_from st' (number_type_at st t) (lx_add_current l')"
      by (simp add: scan_number_from.simps [of st] l'_def)
    with 1 [OF l'_def NS_goto] le show ?thesis by auto
  qed (use le size_unget_get [of l] in \<open>simp_all add: scan_number_from.simps [of st] l'_def\<close>)
qed

lemma size_lx_value [simp]:
  "lx_size (l\<lparr>lx_value_unsigned := x\<rparr>) = lx_size l"
  "lx_size (l\<lparr>lx_value_integer := y\<rparr>) = lx_size l"
  "lx_size (l\<lparr>lx_value_float := z\<rparr>) = lx_size l"
  by (simp_all add: lx_size_def)

lemma size_scan_number: "lx_size (snd (scan_number strtod l)) \<le> lx_size l"
proof -
  define st where "st = number_start (lx_current (lx_reset l))"
  define l1 where "l1 = lx_add_current (lx_reset l)"
  obtain t l2 where r: "scan_number_from st TT_value_unsigned l1 = (t, l2)"
    by (cases "scan_number_from st TT_value_unsigned l1")
  have "scan_number strtod l = (if t = TT_parse_error then (t, l2) else scan_number_done strtod t l2)"
    using r by (simp add: scan_number_def Let_def st_def l1_def)
  moreover have "lx_size l1 = lx_size l" by (simp add: l1_def)
  ultimately show ?thesis
    using size_scan_number_from [of st TT_value_unsigned l1] r
    by (auto simp: scan_number_done_def Let_def)
qed

lemma size_scan_string: "lx_size (snd (scan_string l)) \<le> lx_size l"
  using size_scan_string_loop [of "lx_reset l"] by (simp add: scan_string_def)

lemma size_scan_token: "lx_size (snd (scan_token strtod l)) \<le> lx_size l"
  by (simp add: scan_token_def size_scan_literal size_scan_string size_scan_number
      del: scan_literal.simps split: option.split)

lemma scan_token_eof: "lx_current l = None \<Longrightarrow> scan_token strtod l = (TT_end_of_input, l)"
  by (simp add: scan_token_def)

lemma size_skip_bom:
  "lx_size (snd (skip_bom l)) \<le> lx_size l \<and>
   (\<not> fst (skip_bom l) \<longrightarrow> lx_size (snd (skip_bom l)) < lx_size l)"
  using size_unget_get [of l] lx_get_size_less [of l] lx_get_size_le [of "lx_get l"]
    lx_get_size_le [of "lx_get (lx_get l)"]
  by (auto simp: skip_bom_def Let_def)

theorem size_scan:
  assumes "scan strtod l = (t, l')"
  shows "lx_size l' \<le> lx_size l \<and> (t \<noteq> TT_end_of_input \<longrightarrow> lx_size l' < lx_size l)"
proof -
  obtain ok l1 where b: "(if lx_chars_read_total l = 0 then skip_bom l else (True, l)) = (ok, l1)"
    by (metis surj_pair)
  have le: "lx_size l1 \<le> lx_size l \<and> (\<not> ok \<longrightarrow> lx_size l1 < lx_size l)"
    using b size_skip_bom [of l] by (auto split: if_splits)
  define l2 where "l2 = skip_whitespace l1"
  have s: "(t, l') = (if \<not> ok then lx_error ''invalid BOM; must be 0xEF 0xBB 0xBF if given'' l1
                      else scan_token strtod l2)"
    using assms b by (cases ok) (simp_all add: scan_def l2_def)
  have "lx_size l2 \<le> lx_size l1" "lx_current l2 \<noteq> None \<Longrightarrow> lx_size l2 < lx_size l1"
    by (simp_all add: l2_def size_skip_whitespace skip_whitespace_size_less)
  moreover have "lx_size (snd (scan_token strtod l2)) \<le> lx_size l2"
    by (rule size_scan_token)
  ultimately show ?thesis
    using s le scan_token_eof [of l2 strtod]
    by (cases "lx_current l2") (auto simp: lx_error_def split: if_splits dest: arg_cong [of _ _ snd])
qed

end
