(* ===== verification/JsonParser.thy ===== *)
theory JsonParser
  imports JsonLexer
begin

section \<open>The parser of the JSON library\<close>

text \<open>
  \<open>nlohmann::detail::parser\<close> and the \<open>json_sax_dom_parser\<close> it drives: \<open>sax_parse_internal\<close> with its
  vector of states (\<open>true\<close> for an array) and its last token, and the value under construction.
  The library keeps the open arrays and objects in \<open>ref_stack\<close> as pointers into the value; here
  each open container holds what it has received so far, the innermost first, and is put in its
  parent when it closes. The exceptions carry the library's messages, with line, column and the
  text last read.
\<close>

subsection \<open>Building the value\<close>

text \<open>An open object remembers the key its next value goes to (\<open>object_element\<close>).\<close>

datatype open_value =
    Open_array "json list"
  | Open_object "(string \<times> json) list" "string option"

record dom_parser =
  dp_root :: json
  dp_ref_stack :: "open_value list"

definition dom_init :: dom_parser where
  "dom_init = \<lparr>dp_root = JNull, dp_ref_stack = []\<rparr>"

definition handle_value :: "json \<Rightarrow> dom_parser \<Rightarrow> dom_parser" where
  "handle_value v d =
     (case dp_ref_stack d of
        [] \<Rightarrow> d\<lparr>dp_root := v\<rparr>
      | Open_array xs # st \<Rightarrow> d\<lparr>dp_ref_stack := Open_array (xs @ [v]) # st\<rparr>
      | Open_object m (Some k) # st \<Rightarrow> d\<lparr>dp_ref_stack := Open_object (map_put k v m) (Some k) # st\<rparr>
      | Open_object m None # st \<Rightarrow> d)"

definition start_object :: "dom_parser \<Rightarrow> dom_parser" where
  "start_object d = d\<lparr>dp_ref_stack := Open_object [] None # dp_ref_stack d\<rparr>"

definition start_array :: "dom_parser \<Rightarrow> dom_parser" where
  "start_array d = d\<lparr>dp_ref_stack := Open_array [] # dp_ref_stack d\<rparr>"

text \<open>\<open>operator[](key)\<close> adds the key with a null value when it is new.\<close>

definition object_key :: "string \<Rightarrow> dom_parser \<Rightarrow> dom_parser" where
  "object_key k d =
     (case dp_ref_stack d of
        Open_object m e # st \<Rightarrow> d\<lparr>dp_ref_stack := Open_object (map_emplace k JNull m) (Some k) # st\<rparr>
      | _ \<Rightarrow> d)"

definition end_container :: "dom_parser \<Rightarrow> dom_parser" where
  "end_container d =
     (case dp_ref_stack d of
        [] \<Rightarrow> d
      | Open_array xs # st \<Rightarrow> handle_value (JArray xs) (d\<lparr>dp_ref_stack := st\<rparr>)
      | Open_object m e # st \<Rightarrow> handle_value (JObject m) (d\<lparr>dp_ref_stack := st\<rparr>))"

subsection \<open>Errors\<close>

record parser =
  ps_lexer :: lexer
  ps_last_token :: token_type
  ps_states :: "bool list"
  ps_dom :: dom_parser

definition get_token :: "(string \<Rightarrow> double option) \<Rightarrow> parser \<Rightarrow> parser" where
  "get_token strtod p =
     (case scan strtod (ps_lexer p) of (t, l) \<Rightarrow> p\<lparr>ps_lexer := l, ps_last_token := t\<rparr>)"

definition parser_init :: "(string \<Rightarrow> double option) \<Rightarrow> string \<Rightarrow> parser" where
  "parser_init strtod s =
     get_token strtod
       \<lparr>ps_lexer = lexer_init s, ps_last_token = TT_uninitialized, ps_states = [], ps_dom = dom_init\<rparr>"

definition exception_message :: "token_type \<Rightarrow> string \<Rightarrow> parser \<Rightarrow> string" where
  "exception_message expected ctxt p =
     ''syntax error '' @
     (if ctxt \<noteq> [] then ''while parsing '' @ ctxt @ '' '' else []) @
     ''- '' @
     (if ps_last_token p = TT_parse_error
      then lx_error_message (ps_lexer p) @ ''; last read: '' @ quoted (get_token_string (ps_lexer p))
      else ''unexpected '' @ token_type_name (ps_last_token p)) @
     (if expected \<noteq> TT_uninitialized then ''; expected '' @ token_type_name expected else [])"

definition position_string :: "lexer \<Rightarrow> string" where
  "position_string l =
     '' at line '' @ show_nat (lx_lines_read l + 1) @ '', column '' @ show_nat (lx_chars_read_current_line l)"

definition parse_error_create :: "lexer \<Rightarrow> string \<Rightarrow> exn" where
  "parse_error_create l what =
     Json_parse_error
       (json_err ''parse_error'' 101 @ ''parse error'' @ position_string l @ '': '' @ what)"

definition parse_error :: "token_type \<Rightarrow> string \<Rightarrow> parser \<Rightarrow> exn" where
  "parse_error expected ctxt p = parse_error_create (ps_lexer p) (exception_message expected ctxt p)"

subsection \<open>\<open>sax_parse_internal\<close>\<close>

text \<open>
  One pass through the \<open>switch\<close> over the last token: \<open>True\<close> means \<open>continue\<close> (the next value's
  token has been read), \<open>False\<close> that a value is complete.
\<close>

definition dom_do :: "(dom_parser \<Rightarrow> dom_parser) \<Rightarrow> parser \<Rightarrow> parser" where
  "dom_do f p = p\<lparr>ps_dom := f (ps_dom p)\<rparr>"

definition put_value :: "json \<Rightarrow> parser \<Rightarrow> exn + bool \<times> parser" where
  "put_value v p = Inr (False, dom_do (handle_value v) p)"

text \<open>A key, its separator and the first token of its value.\<close>

definition parse_key :: "(string \<Rightarrow> double option) \<Rightarrow> parser \<Rightarrow> exn + parser" where
  "parse_key strtod p =
     (if ps_last_token p \<noteq> TT_value_string
      then Inl (parse_error TT_value_string ''object key'' p)
      else let p = dom_do (object_key (lx_token_buffer (ps_lexer p))) p;
               p = get_token strtod p
           in if ps_last_token p \<noteq> TT_name_separator
              then Inl (parse_error TT_name_separator ''object separator'' p)
              else Inr p)"

definition begin_object :: "(string \<Rightarrow> double option) \<Rightarrow> parser \<Rightarrow> exn + bool \<times> parser" where
  "begin_object strtod p =
     (let p = get_token strtod (dom_do start_object p)
      in if ps_last_token p = TT_end_object then Inr (False, dom_do end_container p)
         else res_bind (parse_key strtod p)
                (\<lambda>p. Inr (True, get_token strtod (p\<lparr>ps_states := False # ps_states p\<rparr>))))"

definition begin_array :: "(string \<Rightarrow> double option) \<Rightarrow> parser \<Rightarrow> exn + bool \<times> parser" where
  "begin_array strtod p =
     (let p = get_token strtod (dom_do start_array p)
      in if ps_last_token p = TT_end_array then Inr (False, dom_do end_container p)
         else Inr (True, p\<lparr>ps_states := True # ps_states p\<rparr>))"

definition number_overflow :: "lexer \<Rightarrow> exn" where
  "number_overflow l =
     Json_out_of_range
       (json_err ''out_of_range'' 406 @ ''number overflow parsing '' @ quoted (get_token_string l))"

definition err_empty_input :: string where
  "err_empty_input =
     ''attempting to parse an empty input; check that your input string or stream contains the expected JSON''"

definition parse_value :: "(string \<Rightarrow> double option) \<Rightarrow> parser \<Rightarrow> exn + bool \<times> parser" where
  "parse_value strtod p =
     (case ps_last_token p of
        TT_begin_object \<Rightarrow> begin_object strtod p
      | TT_begin_array \<Rightarrow> begin_array strtod p
      | TT_value_float \<Rightarrow>
          (case lx_value_float (ps_lexer p) of
             None \<Rightarrow> Inl (number_overflow (ps_lexer p))
           | Some x \<Rightarrow> put_value (JFloat x) p)
      | TT_literal_false \<Rightarrow> put_value (JBool False) p
      | TT_literal_null \<Rightarrow> put_value JNull p
      | TT_literal_true \<Rightarrow> put_value (JBool True) p
      | TT_value_integer \<Rightarrow> put_value (JInt (lx_value_integer (ps_lexer p))) p
      | TT_value_string \<Rightarrow> put_value (JString (lx_token_buffer (ps_lexer p))) p
      | TT_value_unsigned \<Rightarrow> put_value (JInt (int (lx_value_unsigned (ps_lexer p)))) p
      | TT_parse_error \<Rightarrow> Inl (parse_error TT_uninitialized ''value'' p)
      | TT_end_of_input \<Rightarrow>
          if lx_chars_read_total (ps_lexer p) = 1
          then Inl (parse_error_create (ps_lexer p) err_empty_input)
          else Inl (parse_error TT_literal_or_value ''value'' p)
      | _ \<Rightarrow> Inl (parse_error TT_literal_or_value ''value'' p))"

text \<open>
  What follows a complete value: \<open>True\<close> means another value starts, \<open>False\<close> that a container has
  closed and is itself complete (\<open>skip_to_state_evaluation\<close>).
\<close>

definition close_container :: "parser \<Rightarrow> exn + bool \<times> parser" where
  "close_container p = Inr (False, (dom_do end_container p)\<lparr>ps_states := tl (ps_states p)\<rparr>)"

definition after_value :: "(string \<Rightarrow> double option) \<Rightarrow> parser \<Rightarrow> exn + bool \<times> parser" where
  "after_value strtod p =
     (if hd (ps_states p)
      then (let p = get_token strtod p
            in if ps_last_token p = TT_value_separator then Inr (True, get_token strtod p)
               else if ps_last_token p = TT_end_array then close_container p
               else Inl (parse_error TT_end_array ''array'' p))
      else (let p = get_token strtod p
            in if ps_last_token p = TT_value_separator
               then res_bind (parse_key strtod (get_token strtod p))
                      (\<lambda>p. Inr (True, get_token strtod p))
               else if ps_last_token p = TT_end_object then close_container p
               else Inl (parse_error TT_end_object ''object'' p)))"

text \<open>Each pass of the loop but the first consumes a token, which bounds them.\<close>

definition ps_size :: "bool \<Rightarrow> parser \<Rightarrow> nat" where
  "ps_size start p =
     2 * lx_size (ps_lexer p) +
     (if start \<and> ps_last_token p \<in> {TT_begin_array, TT_begin_object} then 1 else 0)"

abbreviation in_size :: "parser \<Rightarrow> nat" where
  "in_size p \<equiv> lx_size (ps_lexer p)"

lemma get_token_size_le: "in_size (get_token strtod p) \<le> in_size p"
  using size_scan [of strtod "ps_lexer p"] by (auto simp: get_token_def split: prod.split)

lemma get_token_size_less:
  "ps_last_token (get_token strtod p) \<noteq> TT_end_of_input \<Longrightarrow> in_size (get_token strtod p) < in_size p"
  using size_scan [of strtod "ps_lexer p"] by (auto simp: get_token_def split: prod.splits)

lemma get_token_dom [simp]:
  "ps_dom (get_token strtod p) = ps_dom p" "ps_states (get_token strtod p) = ps_states p"
  by (auto simp: get_token_def split: prod.split)

lemma dom_do_fields [simp]:
  "ps_lexer (dom_do f p) = ps_lexer p" "ps_last_token (dom_do f p) = ps_last_token p"
  "ps_states (dom_do f p) = ps_states p" "ps_dom (dom_do f p) = f (ps_dom p)"
  by (simp_all add: dom_do_def)

lemma parse_key_size:
  "parse_key strtod p = Inr p' \<Longrightarrow> in_size p' < in_size p"
  using get_token_size_less [of strtod "dom_do (object_key (lx_token_buffer (ps_lexer p))) p"]
  by (auto simp: parse_key_def Let_def split: if_splits)

lemma begin_object_size:
  assumes "begin_object strtod p = Inr (c, p')"
  shows "in_size p' < in_size p"
proof -
  let ?q = "get_token strtod (dom_do start_object p)"
  have le: "in_size ?q \<le> in_size p" using get_token_size_le [of strtod "dom_do start_object p"] by simp
  show ?thesis
  proof (cases "ps_last_token ?q = TT_end_object")
    case True
    with assms get_token_size_less [of strtod "dom_do start_object p"] show ?thesis
      by (auto simp: begin_object_def Let_def)
  next
    case False
    with assms obtain r where r: "parse_key strtod ?q = Inr r"
      and p': "p' = get_token strtod (r\<lparr>ps_states := False # ps_states r\<rparr>)"
      by (auto simp: begin_object_def Let_def res_bind_eq_Inr)
    have "in_size p' \<le> in_size r"
      using get_token_size_le [of strtod "r\<lparr>ps_states := False # ps_states r\<rparr>"] by (simp add: p')
    with parse_key_size [OF r] le show ?thesis by simp
  qed
qed

lemma begin_array_size:
  assumes "begin_array strtod p = Inr (c, p')"
  shows "in_size p' \<le> in_size p \<and> (in_size p' < in_size p \<or> ps_last_token p' = TT_end_of_input)"
  using assms get_token_size_le [of strtod "dom_do start_array p"]
    get_token_size_less [of strtod "dom_do start_array p"]
  by (auto simp: begin_array_def Let_def split: if_splits)

lemma put_value_size: "put_value v p = Inr (c, p') \<Longrightarrow> \<not> c \<and> in_size p' = in_size p"
  by (auto simp: put_value_def)

lemma parse_value_size:
  assumes "parse_value strtod p = Inr (c, p')"
  shows "in_size p' \<le> in_size p \<and> (c \<longrightarrow> ps_size True p' < ps_size True p)"
proof (cases "ps_last_token p")
  case TT_begin_array
  with assms begin_array_size [of strtod p c p'] show ?thesis
    by (auto simp: parse_value_def ps_size_def)
next
  case TT_begin_object
  with assms begin_object_size [of strtod p c p'] show ?thesis
    by (auto simp: parse_value_def ps_size_def)
qed (use assms in \<open>auto simp: parse_value_def put_value_def split: option.splits if_splits\<close>)

lemma close_container_size: "close_container p = Inr (c, p') \<Longrightarrow> \<not> c \<and> in_size p' = in_size p"
  by (auto simp: close_container_def)

lemma after_value_size:
  assumes "after_value strtod p = Inr (c, p')"
  shows "in_size p' < in_size p"
proof -
  let ?q = "get_token strtod p"
  have q: "ps_last_token ?q \<noteq> TT_end_of_input \<Longrightarrow> in_size ?q < in_size p"
    by (rule get_token_size_less)
  have "in_size p' \<le> in_size ?q \<and> ps_last_token ?q \<noteq> TT_end_of_input"
    using assms get_token_size_le [of strtod ?q] get_token_size_le [of strtod]
    by (auto simp: after_value_def Let_def res_bind_eq_Inr split: if_splits
        dest!: close_container_size parse_key_size)
      (meson dual_order.trans less_imp_le)+
  with q show ?thesis by simp
qed

function sax_loop :: "(string \<Rightarrow> double option) \<Rightarrow> bool \<Rightarrow> parser \<Rightarrow> exn + parser" where
  "sax_loop strtod start p =
     (case (if start then parse_value strtod p else Inr (False, p)) of
        Inl e \<Rightarrow> Inl e
      | Inr (again, p) \<Rightarrow>
          if again then sax_loop strtod True p
          else if ps_states p = [] then Inr p
          else (case after_value strtod p of
                  Inl e \<Rightarrow> Inl e
                | Inr (next_value, p) \<Rightarrow> sax_loop strtod next_value p))"
  by pat_completeness auto
termination
proof (relation "measure (\<lambda>(strtod, start, p). ps_size start p)", goal_cases)
  case 1
  then show ?case by simp
next
  case (2 strtod start p x again p1)
  then show ?case by (auto dest!: parse_value_size split: if_splits)
next
  case (3 strtod start p x again p1 y next_value p2)
  then have "in_size p1 \<le> in_size p" by (auto dest: parse_value_size split: if_splits)
  with 3 show ?case by (auto simp: ps_size_def dest!: after_value_size)
qed

declare sax_loop.simps [simp del]

text \<open>\<open>json::parse\<close>: one value, then the end of the input.\<close>

definition json_parse :: "(string \<Rightarrow> double option) \<Rightarrow> string \<Rightarrow> json res" where
  "json_parse strtod s =
     res_bind (sax_loop strtod True (parser_init strtod s))
       (\<lambda>p. let p = get_token strtod p
            in if ps_last_token p \<noteq> TT_end_of_input
               then Inl (parse_error TT_end_of_input ''value'' p)
               else Inr (dp_root (ps_dom p)))"

end
