(* ===== verification/JsonDump.thy ===== *)
theory JsonDump
  imports Json
begin

section \<open>The serializer of the JSON library\<close>

text \<open>
  \<open>nlohmann::detail::serializer\<close> of the vendored \<open>json.hpp\<close>: \<open>dump\<close>, compact and indented, the
  escaping of strings with its UTF-8 automaton, and the printing of integers and of
  floating-point numbers. What \<open>o\<close> and \<open>string_buffer\<close> collect is one list of characters. The
  program uses the default \<open>error_handler_t::strict\<close>, the indentation character is a blank, and
  binary and discarded values do not occur; \<open>indent_string\<close> is taken to be long enough (the library
  doubles its 512 blanks once). Grisu2, which finds the shortest digits of a
  \<open>double\<close> and their exponent, is a parameter: rounding is not modelled.
\<close>

subsection \<open>The UTF-8 automaton\<close>

text \<open>\<open>decode\<close>: the classes of the 256 bytes, then the next state for each state and class.\<close>

definition utf8d :: "nat list" where
  "utf8d =
    [0, 0, 0, 0, 0, 0, 0, 0, 0, 0, 0, 0, 0, 0, 0, 0, 0, 0, 0, 0,
     0, 0, 0, 0, 0, 0, 0, 0, 0, 0, 0, 0, 0, 0, 0, 0, 0, 0, 0, 0,
     0, 0, 0, 0, 0, 0, 0, 0, 0, 0, 0, 0, 0, 0, 0, 0, 0, 0, 0, 0,
     0, 0, 0, 0, 0, 0, 0, 0, 0, 0, 0, 0, 0, 0, 0, 0, 0, 0, 0, 0,
     0, 0, 0, 0, 0, 0, 0, 0, 0, 0, 0, 0, 0, 0, 0, 0, 0, 0, 0, 0,
     0, 0, 0, 0, 0, 0, 0, 0, 0, 0, 0, 0, 0, 0, 0, 0, 0, 0, 0, 0,
     0, 0, 0, 0, 0, 0, 0, 0, 1, 1, 1, 1, 1, 1, 1, 1, 1, 1, 1, 1,
     1, 1, 1, 1, 9, 9, 9, 9, 9, 9, 9, 9, 9, 9, 9, 9, 9, 9, 9, 9,
     7, 7, 7, 7, 7, 7, 7, 7, 7, 7, 7, 7, 7, 7, 7, 7, 7, 7, 7, 7,
     7, 7, 7, 7, 7, 7, 7, 7, 7, 7, 7, 7, 8, 8, 2, 2, 2, 2, 2, 2,
     2, 2, 2, 2, 2, 2, 2, 2, 2, 2, 2, 2, 2, 2, 2, 2, 2, 2, 2, 2,
     2, 2, 2, 2, 10, 3, 3, 3, 3, 3, 3, 3, 3, 3, 3, 3, 3, 4, 3, 3,
     11, 6, 6, 6, 5, 8, 8, 8, 8, 8, 8, 8, 8, 8, 8, 8, 0, 1, 2, 3,
     5, 8, 7, 1, 1, 1, 4, 6, 1, 1, 1, 1, 1, 1, 1, 1, 1, 1, 1, 1,
     1, 1, 1, 1, 1, 1, 1, 1, 1, 0, 1, 1, 1, 1, 1, 0, 1, 0, 1, 1,
     1, 1, 1, 1, 1, 2, 1, 1, 1, 1, 1, 2, 1, 2, 1, 1, 1, 1, 1, 1,
     1, 1, 1, 1, 1, 1, 1, 2, 1, 1, 1, 1, 1, 1, 1, 1, 1, 2, 1, 1,
     1, 1, 1, 1, 1, 2, 1, 1, 1, 1, 1, 1, 1, 1, 1, 1, 1, 1, 1, 3,
     1, 3, 1, 1, 1, 1, 1, 1, 1, 3, 1, 1, 1, 1, 1, 3, 1, 3, 1, 1,
     1, 1, 1, 1, 1, 3, 1, 1, 1, 1, 1, 1, 1, 1, 1, 1, 1, 1, 1, 1]"

definition utf8_next :: "nat \<Rightarrow> nat \<Rightarrow> nat" where
  "utf8_next st byte = utf8d ! (256 + st * 16 + utf8d ! byte)"

text \<open>
  \<open>(byte & 0x3f) | (codep << 6)\<close> inside a sequence and \<open>(0xFF >> type) & byte\<close> at its start; in a
  sequence the automaton accepts, a code point has at most 21 bits.
\<close>

definition utf8_codep :: "nat \<Rightarrow> nat \<Rightarrow> nat \<Rightarrow> nat" where
  "utf8_codep st codep byte =
     (if st \<noteq> 0 then byte mod 64 + codep * 64
      else byte mod 2 ^ (8 - utf8d ! byte))"

subsection \<open>Strings\<close>

definition UTF8_ACCEPT :: nat where "UTF8_ACCEPT = 0"
definition UTF8_REJECT :: nat where "UTF8_REJECT = 1"

definition hex_digit_upper :: "nat \<Rightarrow> char" where
  "hex_digit_upper d = ''0123456789ABCDEF'' ! d"

definition hex_digit_lower :: "nat \<Rightarrow> char" where
  "hex_digit_lower d = ''0123456789abcdef'' ! d"

definition hex_bytes :: "char \<Rightarrow> string" where
  "hex_bytes c =
     [hex_digit_upper ((of_char c :: nat) div 16), hex_digit_upper ((of_char c :: nat) mod 16)]"

text \<open>The conversion \<open>%04x\<close> of a 16-bit value after a backslash and a \<open>u\<close>.\<close>

definition escape_u :: "nat \<Rightarrow> string" where
  "escape_u n =
     [CHR 0x5C, CHR ''u'', hex_digit_lower (n div 4096 mod 16), hex_digit_lower (n div 256 mod 16),
      hex_digit_lower (n div 16 mod 16), hex_digit_lower (n mod 16)]"

text \<open>What is written for a code point just completed by the byte \<open>c\<close>.\<close>

definition escape_codepoint :: "bool \<Rightarrow> nat \<Rightarrow> char \<Rightarrow> string" where
  "escape_codepoint ensure_ascii codepoint c =
     (if codepoint = 0x08 then [CHR 0x5C, CHR ''b'']
      else if codepoint = 0x09 then [CHR 0x5C, CHR ''t'']
      else if codepoint = 0x0A then [CHR 0x5C, CHR ''n'']
      else if codepoint = 0x0C then [CHR 0x5C, CHR ''f'']
      else if codepoint = 0x0D then [CHR 0x5C, CHR ''r'']
      else if codepoint = 0x22 then [CHR 0x5C, CHR 0x22]
      else if codepoint = 0x5C then [CHR 0x5C, CHR 0x5C]
      else if codepoint \<le> 0x1F \<or> (ensure_ascii \<and> codepoint \<ge> 0x7F)
      then (if codepoint \<le> 0xFFFF then escape_u codepoint
            else escape_u (0xD7C0 + codepoint div 1024) @ escape_u (0xDC00 + codepoint mod 1024))
      else [c])"

text \<open>The loop from byte \<open>i\<close> of \<open>s\<close> on; the last argument is the bytes left, \<open>out\<close> what is written.\<close>

fun dump_escaped_from ::
  "bool \<Rightarrow> string \<Rightarrow> nat \<Rightarrow> nat \<Rightarrow> nat \<Rightarrow> string \<Rightarrow> string \<Rightarrow> string res" where
  "dump_escaped_from ensure_ascii s i st codep out [] =
     (if st = UTF8_ACCEPT then Inr out
      else Inl (Json_type_error
             (json_err ''type_error'' 316 @ ''incomplete UTF-8 string; last byte: 0x'' @ hex_bytes (last s))))"
| "dump_escaped_from ensure_ascii s i st codep out (c # cs) =
     (let byte = (of_char c :: nat);
          codep' = utf8_codep st codep byte;
          st' = utf8_next st byte
      in if st' = UTF8_ACCEPT
         then dump_escaped_from ensure_ascii s (Suc i) st' codep'
                (out @ escape_codepoint ensure_ascii codep' c) cs
         else if st' = UTF8_REJECT
         then Inl (Json_type_error
                (json_err ''type_error'' 316 @ ''invalid UTF-8 byte at index '' @ show_nat i @ '': 0x'' @ hex_bytes c))
         else dump_escaped_from ensure_ascii s (Suc i) st' codep'
                (if ensure_ascii then out else out @ [c]) cs)"

definition dump_escaped :: "bool \<Rightarrow> string \<Rightarrow> string res" where
  "dump_escaped ensure_ascii s = dump_escaped_from ensure_ascii s 0 UTF8_ACCEPT 0 [] s"

subsection \<open>Integers\<close>

function count_digits_from :: "nat \<Rightarrow> nat \<Rightarrow> nat" where
  "count_digits_from n_digits x =
     (if x < 10 then n_digits
      else if x < 100 then n_digits + 1
      else if x < 1000 then n_digits + 2
      else if x < 10000 then n_digits + 3
      else count_digits_from (n_digits + 4) (x div 10000))"
  by pat_completeness auto
termination by (relation "measure snd") auto

declare count_digits_from.simps [simp del]

definition count_digits :: "nat \<Rightarrow> nat" where
  "count_digits x = count_digits_from 1 x"

text \<open>Entry \<open>d\<close> of \<open>digits_to_99\<close>.\<close>

definition digits_to_99 :: "nat \<Rightarrow> string" where
  "digits_to_99 d = [digit_char (d div 10), digit_char (d mod 10)]"

text \<open>The digits, written backward from the end of the buffer, two at a time.\<close>

function put_digits :: "nat \<Rightarrow> string \<Rightarrow> string" where
  "put_digits abs_value buf =
     (if abs_value \<ge> 100 then put_digits (abs_value div 100) (digits_to_99 (abs_value mod 100) @ buf)
      else if abs_value \<ge> 10 then digits_to_99 abs_value @ buf
      else digit_char abs_value # buf)"
  by pat_completeness auto
termination by (relation "measure fst") auto

declare put_digits.simps [simp del]

definition dump_integer :: "int \<Rightarrow> string" where
  "dump_integer x =
     (if x = 0 then ''0''
      else if x < 0 then CHR ''-'' # put_digits (nat (- x)) []
      else put_digits (nat x) [])"

subsection \<open>Floating-point numbers\<close>

definition append_exponent :: "int \<Rightarrow> string" where
  "append_exponent e =
     (let k = nat \<bar>e\<bar>
      in (if e < 0 then ''-'' else ''+'') @
         (if k < 10 then [CHR ''0'', digit_char k]
          else if k < 100 then [digit_char (k div 10), digit_char (k mod 10)]
          else [digit_char (k div 100), digit_char (k mod 100 div 10), digit_char (k mod 100 mod 10)]))"

definition format_buffer :: "string \<Rightarrow> int \<Rightarrow> int \<Rightarrow> int \<Rightarrow> string" where
  "format_buffer buf decimal_exponent min_exp max_exp =
     (let k = int (length buf);
          n = k + decimal_exponent
      in if k \<le> n \<and> n \<le> max_exp then buf @ replicate (nat (n - k)) (CHR ''0'') @ ''.0''
         else if 0 < n \<and> n \<le> max_exp then take (nat n) buf @ ''.'' @ drop (nat n) buf
         else if min_exp < n \<and> n \<le> 0 then ''0.'' @ replicate (nat (- n)) (CHR ''0'') @ buf
         else (if k = 1 then buf else take 1 buf @ ''.'' @ drop 1 buf) @
              ''e'' @ append_exponent (n - 1))"

text \<open>\<open>to_chars\<close>; \<open>grisu2\<close> gives the digits and the decimal exponent of a positive number.\<close>

definition to_chars :: "(double \<Rightarrow> string \<times> int) \<Rightarrow> double \<Rightarrow> string" where
  "to_chars grisu2 x =
     (let sgn = (if x < 0 then ''-'' else '''');
          y = (if x < 0 then - x else x)
      in if y = 0 then sgn @ ''0.0''
         else (case grisu2 y of (buf, decimal_exponent) \<Rightarrow>
                 sgn @ format_buffer buf decimal_exponent (- 4) 15))"

subsection \<open>Values\<close>

definition json_indent :: "nat \<Rightarrow> string" where
  "json_indent n = replicate n (CHR '' '')"

text \<open>
  The elements of a container are written in order, with a separator after each but the last;
  an exception leaves the rest unwritten. The texts of the values come from the recursive calls.
\<close>

fun dump_members :: "bool \<Rightarrow> bool \<Rightarrow> nat \<Rightarrow> (string \<times> string res) list \<Rightarrow> string res" where
  "dump_members ascii pretty new_indent [] = Inr []"
| "dump_members ascii pretty new_indent ((k, v) # m) =
     res_bind (dump_escaped ascii k) (\<lambda>key. res_bind v (\<lambda>txt.
       res_bind (dump_members ascii pretty new_indent m) (\<lambda>more.
         Inr ((if pretty then json_indent new_indent else []) @ [CHR 0x22] @ key @ [CHR 0x22] @
              (if pretty then '': '' else '':'') @ txt @
              (if m = [] then [] else if pretty then [CHR '','', CHR 0x0A] else '','') @ more))))"

fun dump_elements :: "bool \<Rightarrow> nat \<Rightarrow> string res list \<Rightarrow> string res" where
  "dump_elements pretty new_indent [] = Inr []"
| "dump_elements pretty new_indent (v # vs) =
     res_bind v (\<lambda>txt. res_bind (dump_elements pretty new_indent vs) (\<lambda>more.
       Inr ((if pretty then json_indent new_indent else []) @ txt @
            (if vs = [] then [] else if pretty then [CHR '','', CHR 0x0A] else '','') @ more)))"

definition bracket :: "char \<Rightarrow> char \<Rightarrow> bool \<Rightarrow> nat \<Rightarrow> string \<Rightarrow> string" where
  "bracket opening closing pretty current_indent body =
     (if pretty then [opening, CHR 0x0A] @ body @ [CHR 0x0A] @ json_indent current_indent @ [closing]
      else [opening] @ body @ [closing])"

fun serializer_dump ::
  "(double \<Rightarrow> string \<times> int) \<Rightarrow> bool \<Rightarrow> bool \<Rightarrow> nat \<Rightarrow> nat \<Rightarrow> json \<Rightarrow> string res" where
  "serializer_dump grisu2 pretty ascii step cur (JObject m) =
     (if m = [] then Inr ''{}''
      else res_bind (dump_members ascii pretty (cur + step)
                      (map (\<lambda>(k, v). (k, serializer_dump grisu2 pretty ascii step
                                            (if pretty then cur + step else cur) v)) m))
             (\<lambda>body. Inr (bracket (CHR ''{'') (CHR ''}'') pretty cur body)))"
| "serializer_dump grisu2 pretty ascii step cur (JArray xs) =
     (if xs = [] then Inr ''[]''
      else res_bind (dump_elements pretty (cur + step)
                      (map (serializer_dump grisu2 pretty ascii step
                              (if pretty then cur + step else cur)) xs))
             (\<lambda>body. Inr (bracket (CHR ''['') (CHR '']'') pretty cur body)))"
| "serializer_dump grisu2 pretty ascii step cur (JString s) =
     res_bind (dump_escaped ascii s) (\<lambda>txt. Inr ([CHR 0x22] @ txt @ [CHR 0x22]))"
| "serializer_dump grisu2 pretty ascii step cur (JBool b) = Inr (if b then ''true'' else ''false'')"
| "serializer_dump grisu2 pretty ascii step cur (JInt i) = Inr (dump_integer i)"
| "serializer_dump grisu2 pretty ascii step cur (JFloat x) = Inr (to_chars grisu2 x)"
| "serializer_dump grisu2 pretty ascii step cur JNull = Inr ''null''"

text \<open>\<open>basic_json::dump\<close>: a negative indent asks for the compact form.\<close>

definition json_dump :: "(double \<Rightarrow> string \<times> int) \<Rightarrow> int \<Rightarrow> json \<Rightarrow> string res" where
  "json_dump grisu2 indent j =
     (if indent \<ge> 0 then serializer_dump grisu2 True False (nat indent) 0 j
      else serializer_dump grisu2 False False 0 0 j)"

end
