(* ===== verification/JsonUtf8.thy ===== *)
theory JsonUtf8
  imports JsonLexer JsonDump
begin

section \<open>The two UTF-8 checks of the JSON library\<close>

text \<open>
  The lexer checks the bytes of a string with lists of ranges (\<open>lead_ranges\<close>), the serializer with
  an automaton (\<open>utf8_next\<close>). The states of the automaton are described by the ranges they still
  expect, and the two agree byte by byte.
\<close>

definition utf8_class :: "nat \<Rightarrow> nat" where
  "utf8_class b =
     (if b < 0x80 then 0 else if b < 0x90 then 1 else if b < 0xA0 then 9 else if b < 0xC0 then 7
      else if b < 0xC2 then 8 else if b < 0xE0 then 2 else if b = 0xE0 then 10
      else if b = 0xED then 4 else if b < 0xF0 then 3 else if b = 0xF0 then 11
      else if b < 0xF4 then 6 else if b = 0xF4 then 5 else 8)"

lemma utf8d_classes: "take 256 utf8d = map utf8_class [0..<256]"
  by (simp add: utf8d_def utf8_class_def upt_rec)

definition utf8_trans :: "nat list" where
  "utf8_trans =
  [0, 1, 2, 3, 5, 8, 7, 1, 1, 1, 4, 6, 1, 1, 1, 1,
   1, 1, 1, 1, 1, 1, 1, 1, 1, 1, 1, 1, 1, 1, 1, 1,
   1, 0, 1, 1, 1, 1, 1, 0, 1, 0, 1, 1, 1, 1, 1, 1,
   1, 2, 1, 1, 1, 1, 1, 2, 1, 2, 1, 1, 1, 1, 1, 1,
   1, 1, 1, 1, 1, 1, 1, 2, 1, 1, 1, 1, 1, 1, 1, 1,
   1, 2, 1, 1, 1, 1, 1, 1, 1, 2, 1, 1, 1, 1, 1, 1,
   1, 1, 1, 1, 1, 1, 1, 3, 1, 3, 1, 1, 1, 1, 1, 1,
   1, 3, 1, 1, 1, 1, 1, 3, 1, 3, 1, 1, 1, 1, 1, 1,
   1, 3, 1, 1, 1, 1, 1, 1, 1, 1, 1, 1, 1, 1, 1, 1]"

lemma utf8d_transitions: "drop 256 utf8d = utf8_trans"
  by (simp add: utf8d_def utf8_trans_def)

lemma length_utf8d: "length utf8d = 400"
  by (simp add: utf8d_def)

lemma utf8d_class: "b < 256 \<Longrightarrow> utf8d ! b = utf8_class b"
proof -
  assume b: "b < 256"
  have "utf8d ! b = take 256 utf8d ! b" using b by simp
  with b show ?thesis unfolding utf8d_classes by simp
qed

lemma utf8_next_class:
  "b < 256 \<Longrightarrow> utf8_next st b = drop 256 utf8d ! (st * 16 + utf8_class b)"
  by (simp add: utf8_next_def utf8d_class length_utf8d add.assoc)

lemma of_char_lt: "(of_char c :: nat) < 256"
  by simp

text \<open>The rows of the table that are reached.\<close>

lemma utf8_rows:
  "take 12 (drop 0 utf8_trans) = [0, 1, 2, 3, 5, 8, 7, 1, 1, 1, 4, 6]"
  "take 12 (drop 32 utf8_trans) = [1, 0, 1, 1, 1, 1, 1, 0, 1, 0, 1, 1]"
  "take 12 (drop 48 utf8_trans) = [1, 2, 1, 1, 1, 1, 1, 2, 1, 2, 1, 1]"
  "take 12 (drop 64 utf8_trans) = [1, 1, 1, 1, 1, 1, 1, 2, 1, 1, 1, 1]"
  "take 12 (drop 80 utf8_trans) = [1, 2, 1, 1, 1, 1, 1, 1, 1, 2, 1, 1]"
  "take 12 (drop 96 utf8_trans) = [1, 1, 1, 1, 1, 1, 1, 3, 1, 3, 1, 1]"
  "take 12 (drop 112 utf8_trans) = [1, 3, 1, 1, 1, 1, 1, 3, 1, 3, 1, 1]"
  "take 12 (drop 128 utf8_trans) = [1, 3, 1, 1, 1, 1, 1, 1, 1, 1, 1, 1]"
  by (simp_all add: utf8_trans_def)

lemma length_utf8_trans: "length utf8_trans = 144"
  by (simp add: utf8_trans_def)

lemma utf8_next_row:
  assumes "b < 256" and "st \<le> 8"
  shows "utf8_next st b = take 12 (drop (st * 16) utf8_trans) ! utf8_class b"
proof -
  have "utf8_class b < 12" by (simp add: utf8_class_def)
  moreover have "st * 16 + utf8_class b \<le> length utf8_trans"
    using assms(2) \<open>utf8_class b < 12\<close> by (simp add: length_utf8_trans)
  ultimately show ?thesis
    using utf8_next_class [OF assms(1), of st] assms(2)
    by (simp add: utf8d_transitions length_utf8_trans)
qed

lemma nth_if: "xs ! (if c then m else n) = (if c then xs ! m else xs ! n)"
  by simp

text \<open>A first byte, in the accepting state.\<close>

lemma utf8_first:
  assumes "b < 256"
  shows "utf8_next 0 b =
     (if b < 0x80 then 0
      else if 0xC2 \<le> b \<and> b \<le> 0xDF then 2
      else if b = 0xE0 then 4
      else if (0xE1 \<le> b \<and> b \<le> 0xEC) \<or> b = 0xEE \<or> b = 0xEF then 3
      else if b = 0xED then 5
      else if b = 0xF0 then 6
      else if 0xF1 \<le> b \<and> b \<le> 0xF3 then 7
      else if b = 0xF4 then 8
      else 1)"
proof -
  have row: "utf8_next 0 b = [0, 1, 2, 3, 5, 8, 7, 1, 1, 1, 4, 6] ! utf8_class b"
    using utf8_next_row [OF assms, of 0] utf8_rows(1) by simp
  show ?thesis
    unfolding row using assms by (auto simp: utf8_class_def nth_if)
qed

text \<open>A byte inside a sequence.\<close>

lemma utf8_later:
  assumes "b < 256"
  shows "utf8_next 2 b = (if 0x80 \<le> b \<and> b \<le> 0xBF then 0 else 1)"
    "utf8_next 3 b = (if 0x80 \<le> b \<and> b \<le> 0xBF then 2 else 1)"
    "utf8_next 4 b = (if 0xA0 \<le> b \<and> b \<le> 0xBF then 2 else 1)"
    "utf8_next 5 b = (if 0x80 \<le> b \<and> b \<le> 0x9F then 2 else 1)"
    "utf8_next 6 b = (if 0x90 \<le> b \<and> b \<le> 0xBF then 3 else 1)"
    "utf8_next 7 b = (if 0x80 \<le> b \<and> b \<le> 0xBF then 3 else 1)"
    "utf8_next 8 b = (if 0x80 \<le> b \<and> b \<le> 0x8F then 3 else 1)"
  using assms by (auto simp: utf8_next_row utf8_rows utf8_class_def nth_if)

subsection \<open>States as pending ranges\<close>

definition utf8_pending :: "nat \<Rightarrow> (nat \<times> nat) list" where
  "utf8_pending st =
     (if st = 2 then [(0x80, 0xBF)]
      else if st = 3 then [(0x80, 0xBF), (0x80, 0xBF)]
      else if st = 4 then [(0xA0, 0xBF), (0x80, 0xBF)]
      else if st = 5 then [(0x80, 0x9F), (0x80, 0xBF)]
      else if st = 6 then [(0x90, 0xBF), (0x80, 0xBF), (0x80, 0xBF)]
      else if st = 7 then [(0x80, 0xBF), (0x80, 0xBF), (0x80, 0xBF)]
      else if st = 8 then [(0x80, 0x8F), (0x80, 0xBF), (0x80, 0xBF)]
      else [])"

text \<open>The states met while a string is read: accepting, or inside a sequence.\<close>

definition utf8_state :: "nat \<Rightarrow> bool" where
  "utf8_state st \<longleftrightarrow> st \<in> {0, 2, 3, 4, 5, 6, 7, 8}"

lemma utf8_lead:
  assumes "b < 256"
  shows "case lead_ranges b of
           None \<Rightarrow> utf8_next 0 b = (if b < 0x80 then 0 else 1)
         | Some rs \<Rightarrow> 0x80 \<le> b \<and> utf8_pending (utf8_next 0 b) = rs \<and> rs \<noteq> [] \<and> utf8_state (utf8_next 0 b)"
  unfolding utf8_first [OF assms] lead_ranges_def by (auto simp: utf8_pending_def utf8_state_def)

lemma utf8_pending_empty: "utf8_state st \<Longrightarrow> utf8_pending st = [] \<longleftrightarrow> st = 0"
  by (auto simp: utf8_state_def utf8_pending_def)

lemma utf8_cont:
  assumes "b < 256" and "utf8_state st" and "utf8_pending st = (lo, hi) # rs"
  shows "if lo \<le> b \<and> b \<le> hi
         then utf8_pending (utf8_next st b) = rs \<and> utf8_state (utf8_next st b)
         else utf8_next st b = 1"
  using assms(2,3) utf8_later [OF assms(1)]
  by (auto simp: utf8_state_def utf8_pending_def split: if_splits)

lemma utf8_next_state:
  assumes "b < 256" and "utf8_state st"
  shows "utf8_next st b = 1 \<or> utf8_state (utf8_next st b)"
  using assms(2) utf8_later [OF assms(1)] utf8_first [OF assms(1)]
  by (auto simp: utf8_state_def split: if_splits)

subsection \<open>What the serializer writes for a string\<close>

fun utf8_run :: "nat \<Rightarrow> string \<Rightarrow> bool" where
  "utf8_run st [] = (st = 0)"
| "utf8_run st (c # cs) = (utf8_next st (of_char c) \<noteq> 1 \<and> utf8_run (utf8_next st (of_char c)) cs)"

definition utf8_ok :: "string \<Rightarrow> bool" where
  "utf8_ok s \<longleftrightarrow> utf8_run 0 s"

definition escape_char :: "char \<Rightarrow> string" where
  "escape_char c = escape_codepoint False (of_char c) c"

text \<open>Inside a sequence the code point is already too large to be an ASCII character.\<close>

definition codep_ok :: "nat \<Rightarrow> nat \<Rightarrow> bool" where
  "codep_ok st codep \<longleftrightarrow> (st = 2 \<longrightarrow> 2 \<le> codep) \<and> (st \<in> {3, 5, 7, 8} \<longrightarrow> 1 \<le> codep)"

lemma escape_large: "0x80 \<le> cp \<Longrightarrow> escape_codepoint False cp c = [c]"
  by (simp add: escape_codepoint_def)

lemma mod_block: "k * m \<le> b \<Longrightarrow> b < k * m + m \<Longrightarrow> b mod m = b - k * m" for b :: nat
proof -
  assume "k * m \<le> b" and "b < k * m + m"
  then obtain r where "b = k * m + r" and "r < m" by (metis add_less_cancel_left le_iff_add)
  then show ?thesis by simp
qed

lemma byte_mods:
  fixes b :: nat
  shows "0xC2 \<le> b \<Longrightarrow> b \<le> 0xDF \<Longrightarrow> 2 \<le> b mod 64"
    "0xE1 \<le> b \<Longrightarrow> b \<le> 0xEF \<Longrightarrow> 1 \<le> b mod 32"
    "0xF1 \<le> b \<Longrightarrow> b \<le> 0xF3 \<Longrightarrow> 1 \<le> b mod 4"
    "0xA0 \<le> b \<Longrightarrow> b \<le> 0xBF \<Longrightarrow> 2 \<le> b mod 64"
    "0x90 \<le> b \<Longrightarrow> b \<le> 0xBF \<Longrightarrow> 1 \<le> b mod 64"
  using mod_block [of 3 64 b] mod_block [of 7 32 b] mod_block [of 60 4 b] mod_block [of 2 64 b]
  by simp_all

lemma codep_first:
  assumes "b < 256" and "utf8_next 0 b \<noteq> 1"
  shows "codep_ok (utf8_next 0 b) (utf8_codep 0 cp b) \<and> (utf8_next 0 b = 0 \<longrightarrow> utf8_codep 0 cp b = b)"
proof -
  have c: "utf8_codep 0 cp b = b mod 2 ^ (8 - utf8_class b)"
    using assms(1) by (simp add: utf8_codep_def utf8d_class)
  consider "b < 0x80" | "0xC2 \<le> b \<and> b \<le> 0xDF" | "b = 0xE0" | "0xE1 \<le> b \<and> b \<le> 0xEF \<and> b \<noteq> 0xED"
    | "b = 0xED" | "b = 0xF0" | "0xF1 \<le> b \<and> b \<le> 0xF3" | "b = 0xF4"
    using assms(2) unfolding utf8_first [OF assms(1)] by (auto split: if_splits)
  then show ?thesis
  proof cases
    case 2
    then show ?thesis
      using byte_mods(1) [of b] by (simp add: c codep_ok_def utf8_first [OF assms(1)] utf8_class_def)
  next
    case 4
    then show ?thesis
      using byte_mods(2) [of b] by (simp add: c codep_ok_def utf8_first [OF assms(1)] utf8_class_def)
  next
    case 7
    then show ?thesis
      using byte_mods(3) [of b] by (simp add: c codep_ok_def utf8_first [OF assms(1)] utf8_class_def)
  qed (unfold c codep_ok_def utf8_first [OF assms(1)], simp_all add: utf8_class_def)
qed

lemma codep_later:
  assumes "b < 256" and "utf8_state st" and "st \<noteq> 0" and "utf8_next st b \<noteq> 1" and "codep_ok st cp"
  shows "codep_ok (utf8_next st b) (utf8_codep st cp b) \<and> (utf8_next st b = 0 \<longrightarrow> 0x80 \<le> utf8_codep st cp b)"
proof -
  have c: "s \<noteq> 0 \<Longrightarrow> utf8_codep s cp b = b mod 64 + cp * 64" for s by (simp add: utf8_codep_def)
  from assms(2,3) consider "st = 2" | "st = 3" | "st = 4" | "st = 5" | "st = 6" | "st = 7" | "st = 8"
    by (auto simp: utf8_state_def)
  then show ?thesis
  proof cases
    case 3
    with assms(4) have "0xA0 \<le> b" "b \<le> 0xBF" and n: "utf8_next st b = 2"
      using utf8_later(3) [OF assms(1)] by (simp_all split: if_splits)
    then have "2 \<le> b mod 64" by (intro byte_mods(4))
    then show ?thesis unfolding c [OF assms(3)] n codep_ok_def by simp
  next
    case 5
    with assms(4) have "0x90 \<le> b" "b \<le> 0xBF" and n: "utf8_next st b = 3"
      using utf8_later(5) [OF assms(1)] by (simp_all split: if_splits)
    then have "1 \<le> b mod 64" by (intro byte_mods(5))
    then show ?thesis unfolding c [OF assms(3)] n codep_ok_def by simp
  qed (use assms(4,5) utf8_later [OF assms(1)] in \<open>simp_all add: c codep_ok_def split: if_splits\<close>)
qed

lemma dump_escaped_from_valid:
  assumes "utf8_state st" and "codep_ok st cp"
  shows "if utf8_run st bs
         then dump_escaped_from False s i st cp out bs = Inr (out @ concat (map escape_char bs))
         else \<exists>e. dump_escaped_from False s i st cp out bs = Inl e"
  using assms
proof (induction bs arbitrary: st cp i out)
  case Nil
  then show ?case by (simp add: UTF8_ACCEPT_def)
next
  case (Cons c bs)
  define b where "b = (of_char c :: nat)"
  have b: "b < 256" by (simp add: b_def)
  define st' where "st' = utf8_next st b"
  define cp' where "cp' = utf8_codep st cp b"
  show ?case
  proof (cases "st' = 1")
    case True
    then show ?thesis
      by (simp add: b_def [symmetric] st'_def [symmetric] UTF8_ACCEPT_def UTF8_REJECT_def Let_def)
  next
    case False
    have st': "utf8_state st'"
      using utf8_next_state [OF b Cons.prems(1)] False by (simp add: st'_def)
    have cp': "codep_ok st' cp'"
      using codep_first [OF b] codep_later [OF b Cons.prems(1)] Cons.prems(2) False
      by (cases "st = 0") (auto simp: st'_def cp'_def)
    have lead: "st' \<noteq> 0 \<Longrightarrow> st = 0 \<Longrightarrow> 0x80 \<le> b"
      using utf8_first [OF b] by (auto simp: st'_def split: if_splits)
    have inside: "st \<noteq> 0 \<Longrightarrow> 0x80 \<le> b"
      using Cons.prems(1) False utf8_later [OF b]
      by (auto simp: utf8_state_def st'_def split: if_splits)
    have acc: "escape_codepoint False cp' c = escape_char c" if "st' = 0"
    proof (cases "st = 0")
      case True
      with codep_first [OF b, of cp] that False have "cp' = b" by (simp add: st'_def cp'_def)
      then show ?thesis by (simp add: escape_char_def b_def)
    next
      case False
      with codep_later [OF b Cons.prems(1)] Cons.prems(2) that \<open>st' \<noteq> 1\<close> have "0x80 \<le> cp'"
        by (simp add: st'_def cp'_def)
      with inside [OF False] show ?thesis by (simp add: escape_char_def escape_large b_def)
    qed
    have inc: "escape_char c = [c]" if "st' \<noteq> 0"
      using that lead inside by (cases "st = 0") (simp_all add: escape_char_def escape_large b_def)
    have "dump_escaped_from False s i st cp out (c # bs) =
            dump_escaped_from False s (Suc i) st' cp' (out @ escape_char c) bs"
      using False acc inc
      by (simp add: b_def [symmetric] st'_def [symmetric] cp'_def [symmetric] UTF8_ACCEPT_def
          UTF8_REJECT_def Let_def)
    with Cons.IH [OF st' cp', of "Suc i" "out @ escape_char c"] False show ?thesis
      by (simp add: b_def [symmetric] st'_def [symmetric])
  qed
qed

text \<open>A string is written exactly when it is UTF-8, byte for byte but for the escapes.\<close>

theorem dump_escaped_valid:
  "if utf8_ok s then dump_escaped False s = Inr (concat (map escape_char s))
   else \<exists>e. dump_escaped False s = Inl e"
  using dump_escaped_from_valid [of 0 0 s s 0 "[]"]
  by (simp add: dump_escaped_def utf8_ok_def UTF8_ACCEPT_def utf8_state_def codep_ok_def)

end
