(* ===== verification/JsonStrings.thy ===== *)
theory JsonStrings
  imports JsonParser JsonUtf8
begin

section \<open>Reading back literals and strings\<close>

text \<open>
  Where a lexer stands in its input, and the tokens of literals and strings: the text the
  serializer writes for a string is read back as that string. Each text is followed by an
  arbitrary rest, so that the facts compose.
\<close>

subsection \<open>Where a lexer stands\<close>

text \<open>\<open>lx_at l s\<close>: the next characters \<open>get\<close> will give are those of \<open>s\<close>.\<close>

definition lx_at :: "lexer \<Rightarrow> string \<Rightarrow> bool" where
  "lx_at l s \<longleftrightarrow>
     (if lx_next_unget l
      then (case lx_current l of None \<Rightarrow> lx_input l = [] \<and> s = [] | Some c \<Rightarrow> s = c # lx_input l)
      else s = lx_input l)"

definition lx_on :: "lexer \<Rightarrow> char \<Rightarrow> string \<Rightarrow> bool" where
  "lx_on l c s \<longleftrightarrow> lx_current l = Some c \<and> lx_input l = s \<and> \<not> lx_next_unget l \<and> 0 < lx_chars_read_total l"

definition lx_ready :: "lexer \<Rightarrow> string \<Rightarrow> bool" where
  "lx_ready l s \<longleftrightarrow> lx_at l s \<and> 0 < lx_chars_read_total l"

lemma lx_get_on:
  assumes "lx_at l (c # s)"
  shows "lx_on (lx_get l) c s \<and> lx_token_buffer (lx_get l) = lx_token_buffer l \<and>
    lx_chars_read_total (lx_get l) = Suc (lx_chars_read_total l)"
  using assms
  by (auto simp: lx_at_def lx_on_def lx_get_def Let_def split: if_splits option.splits list.splits)

lemma lx_get_eof:
  assumes "lx_at l []"
  shows "lx_current (lx_get l) = None \<and> lx_input (lx_get l) = [] \<and>
    lx_token_buffer (lx_get l) = lx_token_buffer l \<and>
    lx_chars_read_total (lx_get l) = Suc (lx_chars_read_total l)"
  using assms
  by (auto simp: lx_at_def lx_get_def Let_def split: if_splits option.splits list.splits)

lemma lx_on_ready: "lx_on l c s \<Longrightarrow> lx_ready l s"
  by (simp add: lx_on_def lx_ready_def lx_at_def)

lemma lx_unget_on: "lx_on l c s \<Longrightarrow> lx_at (lx_unget l) (c # s)"
  by (simp add: lx_on_def lx_at_def lx_unget_def Let_def)

lemma lx_unget_eof: "lx_current l = None \<Longrightarrow> lx_input l = [] \<Longrightarrow> lx_at (lx_unget l) []"
  by (simp add: lx_at_def lx_unget_def Let_def)

lemma lx_unget_fields [simp]:
  "lx_token_buffer (lx_unget l) = lx_token_buffer l"
  "lx_chars_read_total (lx_unget l) = lx_chars_read_total l - 1"
  by (simp_all add: lx_unget_def Let_def)

lemma lx_add_at [simp]:
  "lx_at (lx_add c l) s = lx_at l s" "lx_ready (lx_add c l) s = lx_ready l s"
  "lx_on (lx_add c l) d s = lx_on l d s" "lx_token_buffer (lx_add c l) = lx_token_buffer l @ [c]"
  "lx_chars_read_total (lx_add c l) = lx_chars_read_total l"
  by (simp_all add: lx_at_def lx_ready_def lx_on_def lx_add_def split: option.split)

lemma lx_reset_at [simp]:
  "lx_on (lx_reset l) d s = lx_on l d s" "lx_ready (lx_reset l) s = lx_ready l s"
  "lx_token_buffer (lx_reset l) = []"
  by (simp_all add: lx_at_def lx_on_def lx_ready_def lx_reset_def split: option.split)

lemma lx_add_current_on [simp]: "lx_on l c s \<Longrightarrow> lx_add_current l = lx_add c l"
  by (simp add: lx_on_def lx_add_current_def)

lemma lx_get_ready: "lx_ready l (c # s) \<Longrightarrow> lx_on (lx_get l) c s \<and> lx_token_buffer (lx_get l) = lx_token_buffer l"
  using lx_get_on [of l c s] by (simp add: lx_ready_def)

subsection \<open>White space, then a token\<close>

lemma skip_whitespace_on:
  assumes "\<forall>x \<in> set w. is_json_ws x" and "\<not> is_json_ws c" and "lx_at l (w @ c # s)"
  shows "lx_on (skip_whitespace l) c s"
  using assms
proof (induction w arbitrary: l)
  case Nil
  then have "lx_on (lx_get l) c s" using lx_get_on [of l c s] by simp
  with Nil(2) show ?case by (subst skip_whitespace.simps) (auto simp: lx_on_def)
next
  case (Cons x w)
  then have g: "lx_on (lx_get l) x (w @ c # s)" using lx_get_on [of l x] by simp
  then have "skip_whitespace l = skip_whitespace (lx_get l)"
    using Cons.prems(1) by (subst skip_whitespace.simps) (simp add: lx_on_def)
  with Cons.IH [of "lx_get l"] Cons.prems g show ?case by (simp add: lx_on_def lx_at_def)
qed

text \<open>At the very start the first character must not be that of a byte order mark.\<close>

lemma scan_on:
  assumes "\<forall>x \<in> set w. is_json_ws x" and "\<not> is_json_ws c" and "lx_at l (w @ c # s)"
    and "0 < lx_chars_read_total l \<or> c \<noteq> CHR 0xEF"
  shows "\<exists>l'. scan strtod l = scan_token strtod l' \<and> lx_on l' c s"
proof (cases "lx_chars_read_total l = 0")
  case False
  with skip_whitespace_on [OF assms(1-3)] show ?thesis by (auto simp: scan_def)
next
  case True
  obtain d t where d: "w @ c # s = d # t" by (cases w) auto
  have "d \<noteq> CHR 0xEF" using d assms(1,4) True by (cases w) (auto simp: is_json_ws_def)
  moreover have on: "lx_on (lx_get l) d t" using assms(3) d lx_get_on [of l d t] by simp
  ultimately have "skip_bom l = (True, lx_unget (lx_get l))" by (simp add: skip_bom_def lx_on_def)
  moreover have "lx_at (lx_unget (lx_get l)) (w @ c # s)" using lx_unget_on [OF on] d by simp
  ultimately show ?thesis
    using skip_whitespace_on [OF assms(1,2)] True by (auto simp: scan_def)
qed

lemma scan_eof:
  assumes "\<forall>x \<in> set w. is_json_ws x" and "lx_ready l w"
  shows "\<exists>l'. scan strtod l = (TT_end_of_input, l')"
proof -
  have "lx_current (skip_whitespace l) = None"
    using assms
  proof (induction w arbitrary: l)
    case Nil
    then show ?case
      using lx_get_eof [of l] by (subst skip_whitespace.simps) (simp add: lx_ready_def Let_def)
  next
    case (Cons x w)
    then have g: "lx_on (lx_get l) x w" using lx_get_ready [of l x] by simp
    then have "skip_whitespace l = skip_whitespace (lx_get l)"
      using Cons.prems(1) by (subst skip_whitespace.simps) (simp add: lx_on_def)
    with Cons.IH [of "lx_get l"] Cons.prems g lx_on_ready [OF g] show ?case by simp
  qed
  with assms(2) show ?thesis by (auto simp: scan_def lx_ready_def scan_token_eof)
qed

subsection \<open>Literals\<close>

lemma scan_literal_at:
  "lx_ready l (cs @ s) \<Longrightarrow> \<exists>l'. scan_literal cs t l = (t, l') \<and> lx_ready l' s"
proof (induction cs arbitrary: l)
  case Nil
  then show ?case by simp
next
  case (Cons c cs)
  then have g: "lx_on (lx_get l) c (cs @ s)" using lx_get_ready [of l c] by simp
  with Cons.IH [OF lx_on_ready [OF g]] show ?case by (simp add: lx_on_def)
qed

subsection \<open>Strings\<close>

text \<open>
  A string part way through a multi-byte character: the rest of that character, then the loop.
\<close>

definition scan_string_in :: "nat \<Rightarrow> lexer \<Rightarrow> token_type \<times> lexer" where
  "scan_string_in st l =
     (case next_bytes (utf8_pending st) l of
        (ok, l') \<Rightarrow> if ok then scan_string_loop l' else (TT_parse_error, l'))"

lemma scan_string_in_0 [simp]: "scan_string_in 0 l = scan_string_loop l"
  by (simp add: scan_string_in_def utf8_pending_def)

lemma hex_digit_lower_value: "d < 16 \<Longrightarrow> hex_digit_value (hex_digit_lower d) = Some d"
proof -
  have "list_all (\<lambda>d. hex_digit_value (hex_digit_lower d) = Some d) [0..<16]"
    by (simp add: hex_digit_value_def hex_digit_lower_def upt_rec)
  then show "d < 16 \<Longrightarrow> ?thesis" by (simp add: list_all_iff)
qed

lemma get_codepoint_at:
  assumes "lx_ready l ([hex_digit_lower a, hex_digit_lower b, hex_digit_lower c, hex_digit_lower d] @ s)"
    and "a < 16" "b < 16" "c < 16" "d < 16"
  shows "\<exists>l'. get_codepoint l = (Some (a * 4096 + b * 256 + c * 16 + d), l') \<and>
     lx_ready l' s \<and> lx_token_buffer l' = lx_token_buffer l"
proof -
  define l1 l2 l3 l4 where "l1 = lx_get l" and "l2 = lx_get l1" and "l3 = lx_get l2" and "l4 = lx_get l3"
  have 1: "lx_on l1 (hex_digit_lower a) ([hex_digit_lower b, hex_digit_lower c, hex_digit_lower d] @ s)"
    "lx_token_buffer l1 = lx_token_buffer l"
    using assms(1) lx_get_ready [of l] by (simp_all add: l1_def)
  have 2: "lx_on l2 (hex_digit_lower b) ([hex_digit_lower c, hex_digit_lower d] @ s)"
    "lx_token_buffer l2 = lx_token_buffer l"
    using 1 lx_get_ready [OF lx_on_ready, of l1] by (simp_all add: l2_def)
  have 3: "lx_on l3 (hex_digit_lower c) ([hex_digit_lower d] @ s)" "lx_token_buffer l3 = lx_token_buffer l"
    using 2 lx_get_ready [OF lx_on_ready, of l2] by (simp_all add: l3_def)
  have 4: "lx_on l4 (hex_digit_lower d) s" "lx_token_buffer l4 = lx_token_buffer l"
    using 3 lx_get_ready [OF lx_on_ready, of l3] by (simp_all add: l4_def)
  have "get_codepoint l = (Some (a * 4096 + b * 256 + c * 16 + d), l4)"
    using 1 2 3 4 assms(2-)
    by (simp add: get_codepoint_def Let_def lx_on_def hex_digit_lower_value
        l1_def [symmetric] l2_def [symmetric] l3_def [symmetric] l4_def [symmetric])
  with 4 lx_on_ready show ?thesis by blast
qed

text \<open>One character of the text, by the branch the loop takes for it.\<close>

lemma loop_quote:
  assumes "lx_ready l (CHR 0x22 # s)"
  shows "\<exists>l'. scan_string_loop l = (TT_value_string, l') \<and> lx_ready l' s \<and> lx_token_buffer l' = lx_token_buffer l"
  using lx_get_ready [OF assms] lx_on_ready [of "lx_get l"]
  by (subst scan_string_loop.simps) (auto simp: lx_on_def Let_def)

lemma string_loop_plain:
  assumes "lx_on (lx_get l) c s" and "c \<noteq> CHR 0x22" "c \<noteq> CHR 0x5C"
    and "0x1F < (of_char c :: nat)" "(of_char c :: nat) \<le> 0x7F"
  shows "scan_string_loop l = scan_string_loop (lx_add c (lx_get l))"
  using assms by (subst scan_string_loop.simps) (auto simp: lx_on_def Let_def)

lemma loop_lead:
  assumes "lx_on (lx_get l) c s" and "lead_ranges (of_char c) = Some rs" and "0x80 \<le> (of_char c :: nat)"
    and "utf8_pending st = rs"
  shows "scan_string_loop l = scan_string_in st (lx_add c (lx_get l))"
proof -
  have "c \<noteq> CHR 0x22" "c \<noteq> CHR 0x5C" using assms(3) by auto
  then show ?thesis
    using assms by (subst scan_string_loop.simps)
      (auto simp: lx_on_def Let_def next_byte_in_range_def lx_add_current_def scan_string_in_def)
qed

lemma loop_escape:
  assumes "lx_on (lx_get l) (CHR 0x5C) s" and "scan_escape (lx_get l) = (True, l'')"
  shows "scan_string_loop l = scan_string_loop l''"
  using assms by (subst scan_string_loop.simps) (auto simp: lx_on_def Let_def)

lemma scan_short_escape:
  assumes "lx_ready l (e # s)"
    and "(e, c) \<in> {(CHR 0x22, CHR 0x22), (CHR 0x5C, CHR 0x5C), (CHR ''b'', CHR 0x08), (CHR ''f'', CHR 0x0C),
      (CHR ''n'', CHR 0x0A), (CHR ''r'', CHR 0x0D), (CHR ''t'', CHR 0x09)}"
  shows "\<exists>l'. scan_escape l = (True, l') \<and> lx_ready l' s \<and> lx_token_buffer l' = lx_token_buffer l @ [c]"
proof -
  have g: "lx_on (lx_get l) e s" "lx_token_buffer (lx_get l) = lx_token_buffer l"
    using lx_get_ready [OF assms(1)] by simp_all
  then have "scan_escape l = (True, lx_add c (lx_get l))"
    using assms(2) by (auto simp: scan_escape_def lx_on_def Let_def)
  with g lx_on_ready [OF g(1)] show ?thesis by simp
qed

lemma lx_add_codepoint_ready: "lx_ready (add_codepoint n l) s = lx_ready l s"
  by (cases "lx_current l") (simp_all add: add_codepoint_def lx_ready_def lx_at_def)

lemma scan_control_escape:
  assumes "lx_ready l (tl (escape_u n) @ s)" and "n < 0x80"
  shows "\<exists>l'. scan_escape l = (True, l') \<and> lx_ready l' s \<and> lx_token_buffer l' = lx_token_buffer l @ [char_of n]"
proof -
  have g: "lx_on (lx_get l) (CHR ''u'') (drop 2 (escape_u n) @ s)" "lx_token_buffer (lx_get l) = lx_token_buffer l"
    using lx_get_ready [of l "CHR ''u''"] assms(1) by (simp_all add: escape_u_def)
  have d: "drop 2 (escape_u n) = [hex_digit_lower 0, hex_digit_lower 0, hex_digit_lower (n div 16), hex_digit_lower (n mod 16)]"
    using assms(2) by (simp add: escape_u_def)
  have v: "n div 16 * 16 + n mod 16 = n" "n div 16 < 16" using assms(2) by (simp, linarith)
  obtain l' where l': "get_codepoint (lx_get l) = (Some n, l')" "lx_ready l' s"
      "lx_token_buffer l' = lx_token_buffer (lx_get l)"
    using get_codepoint_at [of "lx_get l" 0 0 "n div 16" "n mod 16" s] lx_on_ready [OF g(1)] assms(2)
    unfolding d v by (auto simp: v)
  have "scan_escape l = (True, add_codepoint n l')"
    using g l'(1) assms(2) by (simp add: scan_escape_def lx_on_def Let_def scan_unicode_def)
  moreover have "lx_ready (add_codepoint n l') s"
    using l'(2) by (simp add: lx_add_codepoint_ready)
  ultimately show ?thesis using l'(3) g assms(2) by (simp add: add_codepoint_def utf8_bytes_def)
qed

text \<open>The three shapes of an escaped ASCII character.\<close>

lemma escape_char_cases:
  assumes "(of_char c :: nat) < 0x80"
  obtains "escape_char c = [c]" "c \<noteq> CHR 0x22" "c \<noteq> CHR 0x5C" "0x1F < (of_char c :: nat)"
  | e where "escape_char c = [CHR 0x5C, e]"
      "(e, c) \<in> {(CHR 0x22, CHR 0x22), (CHR 0x5C, CHR 0x5C), (CHR ''b'', CHR 0x08), (CHR ''f'', CHR 0x0C),
        (CHR ''n'', CHR 0x0A), (CHR ''r'', CHR 0x0D), (CHR ''t'', CHR 0x09)}"
  | "escape_char c = escape_u (of_char c)"
proof -
  define n where "n = (of_char c :: nat)"
  have c: "c = char_of n" by (simp add: n_def)
  consider "n \<in> {8, 9, 10, 12, 13, 0x22, 0x5C}" | "n \<notin> {8, 9, 10, 12, 13, 0x22, 0x5C}" by blast
  then show ?thesis
  proof cases
    case 1
    then show ?thesis
      using that(2) by (auto simp: escape_char_def escape_codepoint_def n_def [symmetric] c char_of_def bit_0)
  next
    case 2
    have q: "c \<noteq> CHR 0x22" "c \<noteq> CHR 0x5C" using 2 by (auto simp: n_def)
    show ?thesis
    proof (cases "n \<le> 0x1F")
      case True
      with 2 that(3) show ?thesis by (simp add: escape_char_def escape_codepoint_def n_def)
    next
      case False
      with 2 q that(1) show ?thesis by (simp add: escape_char_def escape_codepoint_def n_def)
    qed
  qed
qed

lemma escape_char_multi: "0x80 \<le> (of_char c :: nat) \<Longrightarrow> escape_char c = [c]"
  by (simp add: escape_char_def escape_large)

text \<open>A character that starts where no sequence is open.\<close>

lemma scan_string_first:
  assumes "lx_ready l (escape_char c @ s)" and "utf8_next 0 (of_char c) \<noteq> 1"
  shows "\<exists>l'. scan_string_loop l = scan_string_in (utf8_next 0 (of_char c)) l' \<and> lx_ready l' s \<and>
    lx_token_buffer l' = lx_token_buffer l @ [c]"
proof (cases "(of_char c :: nat) < 0x80")
  case True
  then have 0: "utf8_next 0 (of_char c) = 0" using utf8_first [of "of_char c"] by simp
  from True show ?thesis
  proof (cases rule: escape_char_cases)
    case 1
    then have g: "lx_on (lx_get l) c s \<and> lx_token_buffer (lx_get l) = lx_token_buffer l"
      using lx_get_ready [of l c s] assms(1) by simp
    with string_loop_plain [of l c s] 1 True 0 lx_on_ready [of "lx_get l"] show ?thesis by auto
  next
    case (2 e)
    then have g: "lx_on (lx_get l) (CHR 0x5C) (e # s)" "lx_token_buffer (lx_get l) = lx_token_buffer l"
      using lx_get_ready [of l "CHR 0x5C"] assms(1) by simp_all
    with scan_short_escape [OF lx_on_ready 2(2), OF g(1)] loop_escape [OF g(1)] 0 show ?thesis by auto
  next
    case 3
    then have g: "lx_on (lx_get l) (CHR 0x5C) (tl (escape_u (of_char c)) @ s)"
        "lx_token_buffer (lx_get l) = lx_token_buffer l"
      using lx_get_ready [of l "CHR 0x5C"] assms(1) by (simp_all add: escape_u_def)
    with scan_control_escape [OF lx_on_ready True, OF g(1)] loop_escape [OF g(1)] 0 show ?thesis by auto
  qed
next
  case False
  then have b: "0x80 \<le> (of_char c :: nat)" by simp
  then obtain rs where rs: "lead_ranges (of_char c) = Some rs" "utf8_pending (utf8_next 0 (of_char c)) = rs"
    using utf8_lead [of "of_char c"] assms(2) by (auto split: option.splits)
  have g: "lx_on (lx_get l) c s \<and> lx_token_buffer (lx_get l) = lx_token_buffer l"
    using lx_get_ready [of l c s] assms(1) escape_char_multi [OF b] by simp
  with loop_lead [of l c s rs] rs b lx_on_ready [of "lx_get l"] show ?thesis by auto
qed

lemma scan_string_escaped:
  assumes "utf8_state st" and "utf8_run st bs"
    and "lx_ready l (concat (map escape_char bs) @ CHR 0x22 # s)"
  shows "\<exists>l'. scan_string_in st l = (TT_value_string, l') \<and> lx_ready l' s \<and>
    lx_token_buffer l' = lx_token_buffer l @ bs"
  using assms
proof (induction bs arbitrary: st l)
  case Nil
  with loop_quote [of l s] show ?case by simp
next
  case (Cons c bs)
  define b where "b = (of_char c :: nat)"
  have b: "b < 256" by (simp add: b_def)
  define st' where "st' = utf8_next st b"
  have run: "utf8_run st' bs" "st' \<noteq> 1"
    using Cons.prems(2) by (simp_all add: st'_def b_def)
  have st': "utf8_state st'"
    using utf8_next_state [OF b Cons.prems(1)] run(2) by (simp add: st'_def)
  let ?t = "concat (map escape_char bs) @ CHR 0x22 # s"
  have "\<exists>l1. scan_string_in st l = scan_string_in st' l1 \<and> lx_ready l1 ?t \<and>
      lx_token_buffer l1 = lx_token_buffer l @ [c]"
  proof (cases "st = 0")
    case True
    with scan_string_first [of l c ?t] Cons.prems(3) run(2) show ?thesis
      by (simp add: st'_def b_def)
  next
    case False
    then obtain lo hi rs where p: "utf8_pending st = (lo, hi) # rs"
      using utf8_pending_empty [OF Cons.prems(1)] by (cases "utf8_pending st") auto
    have r: "lo \<le> b" "b \<le> hi" "utf8_pending st' = rs"
      using utf8_cont [OF b Cons.prems(1) p] run(2) by (auto simp: st'_def split: if_splits)
    have "0x80 \<le> lo" using p Cons.prems(1) by (auto simp: utf8_pending_def split: if_splits)
    then have "escape_char c = [c]" using r(1) escape_char_multi [of c] by (simp add: b_def)
    then have g: "lx_on (lx_get l) c ?t \<and> lx_token_buffer (lx_get l) = lx_token_buffer l"
      using lx_get_ready [of l c] Cons.prems(3) by simp
    then have "scan_string_in st l = scan_string_in st' (lx_add c (lx_get l))"
      using r by (simp add: scan_string_in_def p lx_on_def Let_def b_def)
    with g lx_on_ready [of "lx_get l"] show ?thesis by auto
  qed
  then obtain l1 where l1: "scan_string_in st l = scan_string_in st' l1" "lx_ready l1 ?t"
      "lx_token_buffer l1 = lx_token_buffer l @ [c]" by blast
  from Cons.IH [OF st' run(1) l1(2)] l1 show ?case by simp
qed

end
