(* ===== verification/JsonNumbers.thy ===== *)
theory JsonNumbers
  imports JsonStrings
begin

section \<open>Reading back numbers\<close>

text \<open>
  The integers the serializer prints two digits at a time are those of \<open>show_int\<close>, the count
  of digits is exact, and the text of every number drives \<open>scan_number\<close> through its states to
  the token it should be.
\<close>

subsection \<open>Printing integers\<close>

lemma show_nat_two: "10 \<le> n \<Longrightarrow> show_nat n = show_nat (n div 10) @ [digit_char (n mod 10)]"
  by (subst show_nat.simps) simp

lemma show_nat_one: "n < 10 \<Longrightarrow> show_nat n = [digit_char n]"
  by (subst show_nat.simps) simp

lemma put_digits_show: "put_digits n buf = show_nat n @ buf"
proof (induction n buf rule: put_digits.induct)
  case (1 n buf)
  consider "n \<ge> 100" | "10 \<le> n \<and> n < 100" | "n < 10" by linarith
  then show ?case
  proof cases
    case 1
    have "n mod 100 = 10 * (n div 10 mod 10) + n mod 10" using mod_mult2_eq [of n 10 10] by simp
    then have d: "n div 10 \<ge> 10" "n mod 100 div 10 = n div 10 mod 10" "n mod 100 mod 10 = n mod 10"
      using 1 by simp_all
    have "n div 10 div 10 = n div 100" by (simp add: div_mult2_eq [symmetric])
    then show ?thesis
      using 1 "1.IH" d by (subst put_digits.simps)
        (simp add: digits_to_99_def show_nat_two [of n] show_nat_two [of "n div 10"])
  next
    case 2
    then have "n div 10 < 10" by (simp add: less_mult_imp_div_less)
    with 2 show ?thesis
      by (subst put_digits.simps) (simp add: digits_to_99_def show_nat_two show_nat_one)
  next
    case 3
    then show ?thesis by (subst put_digits.simps) (simp add: show_nat_one)
  qed
qed

theorem dump_integer_show: "dump_integer i = show_int i"
  by (simp add: dump_integer_def show_int_def put_digits_show show_nat_one digit_char_def char_of_def bit_0)

lemma length_show_nat_div: "10 \<le> n \<Longrightarrow> length (show_nat n) = Suc (length (show_nat (n div 10)))"
  by (simp add: show_nat_two)

lemma length_show_nat_small:
  "n < 10 \<Longrightarrow> length (show_nat n) = 1"
  "10 \<le> n \<Longrightarrow> n < 100 \<Longrightarrow> length (show_nat n) = 2"
  "100 \<le> n \<Longrightarrow> n < 1000 \<Longrightarrow> length (show_nat n) = 3"
  "1000 \<le> n \<Longrightarrow> n < 10000 \<Longrightarrow> length (show_nat n) = 4"
proof -
  have 1: "length (show_nat m) = 1" if "m < 10" for m using that by (simp add: show_nat_one)
  have 2: "length (show_nat m) = 2" if "10 \<le> m" "m < 100" for m
    using that 1 [of "m div 10"] by (simp add: length_show_nat_div)
  have 3: "length (show_nat m) = 3" if "100 \<le> m" "m < 1000" for m
    using that 2 [of "m div 10"] by (simp add: length_show_nat_div)
  have 4: "length (show_nat m) = 4" if "1000 \<le> m" "m < 10000" for m
    using that 3 [of "m div 10"] by (simp add: length_show_nat_div)
  show "n < 10 \<Longrightarrow> length (show_nat n) = 1" by (rule 1)
  show "10 \<le> n \<Longrightarrow> n < 100 \<Longrightarrow> length (show_nat n) = 2" by (rule 2)
  show "100 \<le> n \<Longrightarrow> n < 1000 \<Longrightarrow> length (show_nat n) = 3" by (rule 3)
  show "1000 \<le> n \<Longrightarrow> n < 10000 \<Longrightarrow> length (show_nat n) = 4" by (rule 4)
qed

lemma length_show_nat_4: "10000 \<le> n \<Longrightarrow> length (show_nat n) = length (show_nat (n div 10000)) + 4"
proof -
  assume n: "10000 \<le> n"
  have "n div 10 div 10 div 10 div 10 = n div 10000" by (simp add: div_mult2_eq [symmetric])
  then show ?thesis
    using n length_show_nat_div [of n] length_show_nat_div [of "n div 10"]
      length_show_nat_div [of "n div 10 div 10"] length_show_nat_div [of "n div 10 div 10 div 10"]
    by (simp add: div_mult2_eq [symmetric])
qed

lemma count_digits_from_length: "count_digits_from k n = k + length (show_nat n) - 1"
proof (induction k n rule: count_digits_from.induct)
  case (1 k n)
  have pos: "0 < length (show_nat m)" for m by simp
  consider "n < 10" | "10 \<le> n \<and> n < 100" | "100 \<le> n \<and> n < 1000" | "1000 \<le> n \<and> n < 10000" | "10000 \<le> n"
    by linarith
  then show ?case
  proof cases
    case 5
    with 1 pos [of "n div 10000"] show ?thesis
      by (subst count_digits_from.simps) (simp add: length_show_nat_4)
  qed (subst count_digits_from.simps; simp add: length_show_nat_small)+
qed

text \<open>The buffer is advanced by exactly the number of digits that are written.\<close>

theorem count_digits_length: "count_digits n = length (put_digits n [])"
  by (simp add: count_digits_def count_digits_from_length put_digits_show)

lemma hd_show_nat_pos: "0 < n \<Longrightarrow> hd (show_nat n) \<noteq> CHR ''0''"
proof (induction n rule: show_nat.induct)
  case (1 n)
  show ?case
  proof (cases "n < 10")
    case True
    then have "(of_char (digit_char n) :: nat) \<noteq> of_char (CHR ''0'')"
      using 1(2) by (simp add: of_char_digit_char)
    with True show ?thesis by (auto simp: show_nat_one)
  next
    case False
    with 1(1) show ?thesis by (simp add: show_nat_two)
  qed
qed

subsection \<open>Running the states over a text\<close>

fun num_run :: "number_state \<Rightarrow> token_type \<Rightarrow> string \<Rightarrow> (number_state \<times> token_type) option" where
  "num_run st t [] = Some (st, t)"
| "num_run st t (c # cs) =
     (case number_step_at st (Some c) of
        NS_goto st' \<Rightarrow> num_run st' (number_type_at st t) cs
      | _ \<Rightarrow> None)"

lemma num_run_append: "num_run st t (cs @ ds) =
  (case num_run st t cs of None \<Rightarrow> None | Some (st', t') \<Rightarrow> num_run st' t' ds)"
  by (induction st t cs rule: num_run.induct) (auto split: number_step.split)

definition num_final :: "number_state \<Rightarrow> bool" where
  "num_final st \<longleftrightarrow> st \<in> {NS_zero, NS_any1, NS_decimal2, NS_any2}"

text \<open>What may follow a number: the end, or a character no state goes on with.\<close>

definition num_stop :: "string \<Rightarrow> bool" where
  "num_stop s \<longleftrightarrow> (case s of [] \<Rightarrow> True | c # cs \<Rightarrow> \<not> is_digit c \<and> c \<noteq> CHR ''.'' \<and> \<not> is_e c)"

lemma num_final_step:
  assumes "num_final st" and "\<not> is_digit c" "c \<noteq> CHR ''.''" "\<not> is_e c"
  shows "number_step_at st (Some c) = NS_done"
proof -
  from assms(1) consider "st = NS_zero" | "st = NS_any1" | "st = NS_decimal2" | "st = NS_any2"
    by (auto simp: num_final_def)
  then show ?thesis
    using assms(2-) by cases (simp_all add: number_step_at_def is_integer_part_def)
qed

lemma num_final_stop:
  assumes "num_final st" and "num_stop s"
  shows "number_step_at st (case s of [] \<Rightarrow> None | c # cs \<Rightarrow> Some c) = NS_done"
proof (cases s)
  case Nil
  have "number_step_at st (Some (CHR '' '')) = NS_done"
    by (rule num_final_step [OF assms(1)]) (simp_all add: is_digit_def is_e_def)
  with Nil show ?thesis by (simp add: number_step_at_def)
next
  case (Cons c cs)
  with assms num_final_step show ?thesis by (simp add: num_stop_def)
qed

lemma scan_number_from_run:
  assumes "num_run st t ds = Some (st', t')" and "lx_ready l (ds @ s)"
  shows "\<exists>l'. scan_number_from st t l = scan_number_from st' t' l' \<and> lx_ready l' s \<and>
    lx_token_buffer l' = lx_token_buffer l @ ds"
  using assms
proof (induction ds arbitrary: st t l)
  case Nil
  then show ?case by auto
next
  case (Cons c ds)
  then obtain st1 where st1: "number_step_at st (Some c) = NS_goto st1"
      "num_run st1 (number_type_at st t) ds = Some (st', t')"
    by (auto split: number_step.splits)
  have g: "lx_on (lx_get l) c (ds @ s)" "lx_token_buffer (lx_get l) = lx_token_buffer l"
    using lx_get_ready [of l c] Cons.prems(2) by simp_all
  then have "scan_number_from st t l = scan_number_from st1 (number_type_at st t) (lx_add c (lx_get l))"
    using st1(1) by (subst scan_number_from.simps) (simp add: lx_on_def Let_def lx_add_current_def)
  with Cons.IH [OF st1(2), of "lx_add c (lx_get l)"] g lx_on_ready [OF g(1)] show ?case by simp
qed

lemma scan_number_from_final:
  assumes "num_final st" and "num_stop s" and "lx_ready l s"
  shows "\<exists>l'. scan_number_from st t l = (number_type_at st t, l') \<and> lx_ready (lx_unget l') s \<and>
    lx_token_buffer l' = lx_token_buffer l"
proof (cases s)
  case Nil
  have g: "lx_current (lx_get l) = None" "lx_input (lx_get l) = []"
    "lx_token_buffer (lx_get l) = lx_token_buffer l" "1 < lx_chars_read_total (lx_get l)"
    using lx_get_eof [of l] assms(3) Nil by (simp_all add: lx_ready_def)
  have "scan_number_from st t l = (number_type_at st t, lx_get l)"
    using num_final_stop [OF assms(1,2)] Nil g(1) by (subst scan_number_from.simps) simp
  with g lx_unget_eof [OF g(1,2)] Nil show ?thesis by (simp add: lx_ready_def)
next
  case (Cons c cs)
  have g: "lx_on (lx_get l) c cs" "lx_token_buffer (lx_get l) = lx_token_buffer l"
    "1 < lx_chars_read_total (lx_get l)"
    using lx_get_on [of l c cs] assms(3) Cons by (simp_all add: lx_ready_def)
  have "scan_number_from st t l = (number_type_at st t, lx_get l)"
    using num_final_stop [OF assms(1,2)] Cons g(1) by (subst scan_number_from.simps) (simp add: lx_on_def)
  with g lx_unget_on [OF g(1)] Cons show ?thesis by (simp add: lx_ready_def)
qed

text \<open>A text that is one number of type \<open>t\<close>.\<close>

definition number_text :: "token_type \<Rightarrow> string \<Rightarrow> bool" where
  "number_text t s \<longleftrightarrow>
     (case s of
        [] \<Rightarrow> False
      | c # cs \<Rightarrow> (c = CHR ''-'' \<or> is_digit c) \<and>
          (case num_run (number_start (Some c)) TT_value_unsigned cs of
             None \<Rightarrow> False
           | Some (st, t') \<Rightarrow> num_final st \<and> number_type_at st t' = t))"

lemma scan_number_text:
  assumes "number_text t (c # cs)" and "t \<noteq> TT_parse_error" and "lx_on l c (cs @ s)" and "num_stop s"
  shows "\<exists>l'. scan_number strtod l = scan_number_done strtod t l' \<and> lx_ready (lx_unget l') s \<and>
    lx_token_buffer l' = c # cs"
proof -
  obtain st t' where run: "num_run (number_start (Some c)) TT_value_unsigned cs = Some (st, t')"
      and fin: "num_final st" "number_type_at st t' = t"
    using assms(1) by (auto simp: number_text_def split: option.splits)
  define l1 where "l1 = lx_add c (lx_reset l)"
  have on: "lx_on (lx_reset l) c (cs @ s)" using assms(3) by simp
  have "lx_ready l1 (cs @ s)" "lx_token_buffer l1 = [c]" using lx_on_ready [OF on] by (simp_all add: l1_def)
  then obtain l2 where l2: "scan_number_from (number_start (Some c)) TT_value_unsigned l1 = scan_number_from st t' l2"
      "lx_ready l2 s" "lx_token_buffer l2 = c # cs"
    using scan_number_from_run [OF run, of l1 s] by auto
  obtain l3 where l3: "scan_number_from st t' l2 = (t, l3)" "lx_ready (lx_unget l3) s" "lx_token_buffer l3 = c # cs"
    using scan_number_from_final [OF fin(1) assms(4) l2(2), of t'] fin(2) l2(3) by auto
  have "lx_current (lx_reset l) = Some c" using on by (simp add: lx_on_def)
  with l2(1) l3(1) assms(2) have "scan_number strtod l = scan_number_done strtod t l3"
    using lx_add_current_on [OF on] by (simp add: scan_number_def Let_def l1_def)
  with l3 show ?thesis by blast
qed

subsection \<open>Integers\<close>

lemma digit_not_special: "is_digit c \<Longrightarrow> c \<noteq> CHR ''.'' \<and> \<not> is_e c \<and> c \<noteq> CHR ''-'' \<and> c \<noteq> CHR ''+''"
  by (auto simp: is_digit_def is_e_def)

lemma num_run_digits:
  assumes "\<forall>c \<in> set ds. is_digit c"
  shows "num_run NS_any1 t ds = Some (NS_any1, t)"
    "num_run NS_decimal2 t ds = Some (NS_decimal2, t)"
    "num_run NS_any2 t ds = Some (NS_any2, t)"
  using assms by (induction ds) (simp_all add: number_step_at_def is_integer_part_def)

lemma number_start_digit:
  "is_digit c \<Longrightarrow> number_start (Some c) = (if c = CHR ''0'' then NS_zero else NS_any1)"
  using digit_not_special [of c] by (simp add: number_start_def)

lemma show_nat_Cons:
  obtains c cs where "show_nat n = c # cs" "is_digit c" "\<forall>d \<in> set cs. is_digit d" "c = CHR ''0'' \<longleftrightarrow> n = 0"
proof (cases "show_nat n")
  case Nil
  then show ?thesis by simp
next
  case (Cons c cs)
  have d: "\<forall>d \<in> set (c # cs). is_digit d" using show_nat_digits [of _ n] Cons by metis
  moreover have "c = CHR ''0'' \<longleftrightarrow> n = 0"
  proof (cases "n = 0")
    case True
    then show ?thesis using Cons by (simp add: show_nat_one digit_char_def char_of_def bit_0)
  next
    case False
    then show ?thesis using hd_show_nat_pos [of n] Cons by simp
  qed
  ultimately show ?thesis using that Cons by simp
qed

lemma num_run_show_nat:
  assumes "show_nat n = c # cs"
  shows "\<exists>st. num_run (number_start (Some c)) t cs = Some (st, t) \<and> num_final st \<and> number_type_at st t = t"
proof -
  obtain c' cs' where s: "show_nat n = c' # cs'" "is_digit c'" "\<forall>d \<in> set cs'. is_digit d" "c' = CHR ''0'' \<longleftrightarrow> n = 0"
    by (rule show_nat_Cons)
  show ?thesis
  proof (cases "n = 0")
    case True
    then have "c = CHR ''0''" "cs = []" using assms s by (simp_all add: show_nat_one)
    then show ?thesis by (simp add: number_start_def num_final_def)
  next
    case False
    with s assms show ?thesis
      by (simp add: number_start_digit num_run_digits num_final_def)
  qed
qed

theorem number_text_int: "number_text (if i < 0 then TT_value_integer else TT_value_unsigned) (show_int i)"
proof (cases "i < 0")
  case False
  obtain c cs where s: "show_nat (nat i) = c # cs" "is_digit c" by (rule show_nat_Cons)
  with False num_run_show_nat [OF s(1), of TT_value_unsigned] show ?thesis
    by (auto simp: show_int_def number_text_def)
next
  case True
  obtain c cs where s: "show_nat (nat (- i)) = c # cs" "is_digit c" "c = CHR ''0'' \<longleftrightarrow> nat (- i) = 0"
    by (rule show_nat_Cons)
  then have "number_step_at NS_minus (Some c) = NS_goto (number_start (Some c))"
    by (simp add: number_step_at_def is_integer_part_def number_start_digit)
  with True s num_run_show_nat [OF s(1), of TT_value_integer] show ?thesis
    by (auto simp: show_int_def number_text_def number_start_def)
qed

subsection \<open>Floating-point numbers\<close>

text \<open>A text that takes a number part way (before its point or exponent) to a complete float.\<close>

definition to_float :: "number_state \<Rightarrow> string \<Rightarrow> bool" where
  "to_float st s \<longleftrightarrow>
     (\<forall>t. \<exists>st' t'. num_run st t s = Some (st', t') \<and> num_final st' \<and> number_type_at st' t' = TT_value_float)"

lemma digit_char_digits: "\<forall>c \<in> set (replicate n (CHR ''0'')). is_digit c"
  by (simp add: is_digit_def)

lemma num_run_fraction:
  assumes "st = NS_zero \<or> st = NS_any1" and "ds \<noteq> []" and "\<forall>c \<in> set ds. is_digit c"
  shows "num_run st t (CHR ''.'' # ds) = Some (NS_decimal2, TT_value_float)"
proof -
  obtain c cs where ds: "ds = c # cs" using assms(2) by (cases ds) auto
  have "\<not> is_digit (CHR ''.'')" by (simp add: is_digit_def)
  with assms(1,3) show ?thesis
    by (auto simp: ds number_step_at_def is_integer_part_def num_run_digits)
qed

lemma num_run_exponent:
  assumes "st = NS_zero \<or> st = NS_any1 \<or> st = NS_decimal2" and "\<bar>e\<bar> < 1000"
  shows "num_run st t (CHR ''e'' # append_exponent e) = Some (NS_any2, TT_value_float)"
proof -
  define k where "k = nat \<bar>e\<bar>"
  define ds where "ds = (if k < 10 then [CHR ''0'', digit_char k]
     else if k < 100 then [digit_char (k div 10), digit_char (k mod 10)]
     else [digit_char (k div 100), digit_char (k mod 100 div 10), digit_char (k mod 100 mod 10)])"
  have k: "k < 1000" using assms(2) by (simp add: k_def)
  then have "k div 100 < 10" "k mod 100 div 10 < 10" "k < 100 \<Longrightarrow> k div 10 < 10"
    by (simp_all add: less_mult_imp_div_less)
  then have dig: "\<forall>c \<in> set ds. is_digit c" by (auto simp: ds_def) (simp add: is_digit_def)
  obtain c cs where ds: "ds = c # cs" by (cases ds) (auto simp: ds_def split: if_splits)
  define sg where "sg = (if e < 0 then CHR ''-'' else CHR ''+'')"
  have a: "append_exponent e = sg # c # cs"
    using ds by (simp add: append_exponent_def k_def [symmetric] ds_def sg_def Let_def)
  have "is_e (CHR ''e'')" "\<not> is_digit (CHR ''e'')" by (simp_all add: is_e_def is_digit_def)
  moreover have "sg = CHR ''+'' \<or> sg = CHR ''-''" by (simp add: sg_def)
  ultimately show ?thesis
    using assms(1) dig unfolding a ds
    by (auto simp: number_step_at_def is_integer_part_def num_run_digits)
qed

definition digits_ok :: "string \<Rightarrow> bool" where
  "digits_ok buf \<longleftrightarrow> buf \<noteq> [] \<and> length buf \<le> 17 \<and> (\<forall>c \<in> set buf. is_digit c) \<and> hd buf \<noteq> CHR ''0''"

text \<open>\<open>format_buffer\<close> on the digits of a positive number.\<close>

lemma format_buffer_float:
  assumes "digits_ok buf" and "\<bar>int (length buf) + e - 1\<bar> < 1000"
  shows "\<exists>c cs. format_buffer buf e (- 4) 15 = c # cs \<and> is_digit c \<and> to_float (number_start (Some c)) cs"
proof -
  define n where "n = int (length buf) + e"
  obtain c cs where buf: "buf = c # cs" and c: "is_digit c" "c \<noteq> CHR ''0''" and cs: "\<forall>d \<in> set cs. is_digit d"
    using assms(1) by (cases buf) (auto simp: digits_ok_def)
  have start: "number_start (Some c) = NS_any1" "number_start (Some (CHR ''0'')) = NS_zero"
    using c digit_not_special [of c] by (simp_all add: number_start_def)
  have zero: "is_digit (CHR ''0'')" by (simp add: is_digit_def)
  have fb: "format_buffer buf e (- 4) 15 =
     (if int (length buf) \<le> n \<and> n \<le> 15 then buf @ replicate (nat (n - int (length buf))) (CHR ''0'') @ ''.0''
      else if 0 < n \<and> n \<le> 15 then take (nat n) buf @ ''.'' @ drop (nat n) buf
      else if - 4 < n \<and> n \<le> 0 then ''0.'' @ replicate (nat (- n)) (CHR ''0'') @ buf
      else (if int (length buf) = 1 then buf else take 1 buf @ ''.'' @ drop 1 buf) @
           ''e'' @ append_exponent (n - 1))"
    unfolding format_buffer_def Let_def n_def by (rule refl)
  consider (fixed) "int (length buf) \<le> n \<and> n \<le> 15"
    | (point) "\<not> int (length buf) \<le> n" "0 < n \<and> n \<le> 15"
    | (small) "\<not> int (length buf) \<le> n" "- 4 < n \<and> n \<le> 0"
    | (exponent) "\<not> (int (length buf) \<le> n \<and> n \<le> 15)" "\<not> (0 < n \<and> n \<le> 15)" "\<not> (- 4 < n \<and> n \<le> 0)"
    by linarith
  then show ?thesis
  proof cases
    case fixed
    define zs where "zs = replicate (nat (n - int (length buf))) (CHR ''0'')"
    have "format_buffer buf e (- 4) 15 = c # cs @ zs @ CHR ''.'' # ''0''"
      using fixed unfolding fb by (simp add: zs_def buf)
    moreover have "to_float NS_any1 (cs @ zs @ CHR ''.'' # ''0'')"
      using cs digit_char_digits zero
      by (simp add: to_float_def num_run_append num_run_digits num_run_fraction zs_def num_final_def
          del: num_run.simps)
    ultimately show ?thesis using c start by auto
  next
    case point
    have m: "nat n = Suc (nat n - 1)" "nat n - 1 < length cs" using point by (auto simp: buf)
    have "format_buffer buf e (- 4) 15 = take (nat n) buf @ ''.'' @ drop (nat n) buf"
      using point unfolding fb by simp
    then have "format_buffer buf e (- 4) 15 = c # take (nat n - 1) cs @ CHR ''.'' # drop (nat n - 1) cs"
      using point(2) by (simp add: buf take_Cons' drop_Cons')
    moreover have "to_float NS_any1 (take (nat n - 1) cs @ CHR ''.'' # drop (nat n - 1) cs)"
    proof -
      have "\<forall>d \<in> set (take (nat n - 1) cs). is_digit d" "\<forall>d \<in> set (drop (nat n - 1) cs). is_digit d"
        using cs by (blast dest: in_set_takeD in_set_dropD)+
      moreover have "drop (nat n - 1) cs \<noteq> []" using m(2) by simp
      ultimately show ?thesis
        by (simp add: to_float_def num_run_append num_run_digits num_run_fraction num_final_def
            del: num_run.simps)
    qed
    ultimately show ?thesis using c start by auto
  next
    case small
    define zs where "zs = replicate (nat (- n)) (CHR ''0'')"
    have "format_buffer buf e (- 4) 15 = CHR ''0'' # CHR ''.'' # zs @ buf"
      using small unfolding fb by (simp add: zs_def)
    moreover have "to_float NS_zero (CHR ''.'' # zs @ buf)"
    proof -
      have "\<forall>d \<in> set (zs @ buf). is_digit d" using cs c zero by (auto simp: zs_def buf)
      moreover have "zs @ buf \<noteq> []" by (simp add: buf)
      ultimately show ?thesis
        by (simp add: to_float_def num_run_fraction num_final_def del: num_run.simps)
    qed
    ultimately show ?thesis using zero start by auto
  next
    case exponent
    have x: "\<bar>n - 1\<bar> < 1000" using assms(2) by (simp add: n_def)
    show ?thesis
    proof (cases "cs = []")
      case True
      have "format_buffer buf e (- 4) 15 = c # CHR ''e'' # append_exponent (n - 1)"
        using exponent True unfolding fb by (auto simp: buf)
      moreover have "to_float NS_any1 (CHR ''e'' # append_exponent (n - 1))"
        using num_run_exponent [OF _ x] by (auto simp: to_float_def num_final_def)
      ultimately show ?thesis using c start by auto
    next
      case False
      then have "format_buffer buf e (- 4) 15 = c # (CHR ''.'' # cs) @ CHR ''e'' # append_exponent (n - 1)"
        using exponent unfolding fb by (auto simp: buf)
      moreover have "to_float NS_any1 ((CHR ''.'' # cs) @ CHR ''e'' # append_exponent (n - 1))"
        using num_run_exponent [OF _ x] num_run_fraction [of NS_any1 cs] False cs
        by (auto simp: to_float_def num_run_append num_final_def simp del: num_run.simps(2) append_Cons)
      ultimately show ?thesis using c start by auto
    qed
  qed
qed

text \<open>
  What the program relies on of Grisu2 and \<open>strtod\<close>, for one number: at most 17 digits without a leading
  zero, an exponent of at most three digits, and the text reading back as the number.
\<close>

definition float_ok :: "(double \<Rightarrow> string \<times> int) \<Rightarrow> (string \<Rightarrow> double option) \<Rightarrow> double \<Rightarrow> bool" where
  "float_ok grisu2 strtod x \<longleftrightarrow>
     (x \<noteq> 0 \<longrightarrow> (case grisu2 \<bar>x\<bar> of (buf, e) \<Rightarrow> digits_ok buf \<and> \<bar>int (length buf) + e - 1\<bar> < 1000)) \<and>
     strtod (to_chars grisu2 x) = Some x"

theorem number_text_float:
  assumes "float_ok grisu2 strtod x"
  shows "number_text TT_value_float (to_chars grisu2 x)"
proof -
  have zero: "to_float NS_zero (CHR ''.'' # ''0'')"
    using num_run_fraction [of NS_zero "''0''"]
    by (simp add: to_float_def num_final_def is_digit_def del: num_run.simps)
  obtain c cs where b: "(if x = 0 then ''0.0'' else case grisu2 \<bar>x\<bar> of (buf, e) \<Rightarrow> format_buffer buf e (- 4) 15) = c # cs"
      and c: "is_digit c" "to_float (number_start (Some c)) cs"
  proof (cases "x = 0")
    case True
    have "is_digit (CHR ''0'')" "number_start (Some (CHR ''0'')) = NS_zero"
      by (simp_all add: is_digit_def number_start_def)
    with True zero that show ?thesis by simp
  next
    case False
    obtain buf e where g: "grisu2 \<bar>x\<bar> = (buf, e)" by (cases "grisu2 \<bar>x\<bar>")
    then obtain c cs where "format_buffer buf e (- 4) 15 = c # cs" "is_digit c"
        "to_float (number_start (Some c)) cs"
      using assms False format_buffer_float [of buf e] by (auto simp: float_ok_def)
    with False g that show ?thesis by simp
  qed
  show ?thesis
  proof (cases "x < 0")
    case True
    then have t: "to_chars grisu2 x = CHR ''-'' # c # cs"
      using b by (auto simp: to_chars_def Let_def abs_if split: prod.splits)
    have "number_step_at NS_minus (Some c) = NS_goto (number_start (Some c))"
      using c(1) by (simp add: number_step_at_def is_integer_part_def number_start_digit)
    moreover obtain st t' where "num_run (number_start (Some c)) TT_value_integer cs = Some (st, t')"
        "num_final st" "number_type_at st t' = TT_value_float"
      using c(2) unfolding to_float_def by blast
    ultimately show ?thesis
      unfolding t number_text_def by (simp add: number_start_def [of "Some (CHR ''-'')"])
  next
    case False
    then have "to_chars grisu2 x = c # cs"
      using b by (auto simp: to_chars_def Let_def abs_if split: prod.splits)
    moreover obtain st t' where "num_run (number_start (Some c)) TT_value_unsigned cs = Some (st, t')"
        "num_final st" "number_type_at st t' = TT_value_float"
      using c(2) unfolding to_float_def by blast
    ultimately show ?thesis using c(1) by (simp add: number_text_def)
  qed
qed

end
