(* ===== verification/JsonText.thy ===== *)
theory JsonText
  imports JsonNumbers
begin

section \<open>The round trip of the JSON library\<close>

text \<open>
  What \<open>dump\<close> writes, compact or indented, \<open>parse\<close> reads back as the same value, for the values
  the library can hold: integers of 64 bits, keys in order, strings in UTF-8, and numbers for
  which \<open>float_ok\<close> states the documented agreement of Grisu2 and \<open>strtod\<close>.
\<close>

subsection \<open>Tokens\<close>

lemma scan_string_text:
  assumes "\<forall>x \<in> set w. is_json_ws x" and "utf8_ok s"
    and "lx_at l (w @ [CHR 0x22] @ concat (map escape_char s) @ CHR 0x22 # rest)"
  shows "\<exists>l'. scan strtod l = (TT_value_string, l') \<and> lx_ready l' rest \<and> lx_token_buffer l' = s"
proof -
  obtain l1 where l1: "scan strtod l = scan_token strtod l1"
      "lx_on l1 (CHR 0x22) (concat (map escape_char s) @ CHR 0x22 # rest)"
    using scan_on [OF assms(1), of "CHR 0x22" l] assms(3) by (auto simp: is_json_ws_def)
  have "scan_token strtod l1 = scan_string_loop (lx_reset l1)"
    using l1(2) by (simp add: lx_on_def scan_token_def scan_string_def)
  moreover have "lx_ready (lx_reset l1) (concat (map escape_char s) @ CHR 0x22 # rest)"
    using lx_on_ready [OF l1(2)] by simp
  ultimately show ?thesis
    using scan_string_escaped [of 0 s "lx_reset l1" rest] assms(2) l1(1)
    by (auto simp: utf8_ok_def utf8_state_def)
qed

lemma number_text_Cons: "number_text t s \<Longrightarrow> \<exists>c cs. s = c # cs \<and> (c = CHR ''-'' \<or> is_digit c)"
  by (auto simp: number_text_def split: list.splits)

lemma scan_number_at:
  assumes "\<forall>x \<in> set w. is_json_ws x" and "number_text t s" and "t \<noteq> TT_parse_error"
    and "num_stop rest" and "lx_at l (w @ s @ rest)"
  shows "\<exists>l'. scan strtod l = scan_number_done strtod t l' \<and> lx_ready (lx_unget l') rest \<and>
    lx_token_buffer l' = s"
proof -
  obtain c cs where s: "s = c # cs" and c: "c = CHR ''-'' \<or> is_digit c"
    using number_text_Cons [OF assms(2)] by blast
  have nw: "\<not> is_json_ws c" "c \<noteq> CHR 0xEF" using c by (auto simp: is_json_ws_def is_digit_def)
  obtain l1 where l1: "scan strtod l = scan_token strtod l1" "lx_on l1 c (cs @ rest)"
    using scan_on [OF assms(1) nw(1), of l "cs @ rest" strtod] nw(2) assms(5) s by auto
  have "c \<notin> set ''[]{}:,tfn'' \<and> c \<noteq> CHR 0x22" using c by (auto simp: is_digit_def)
  then have "scan_token strtod l1 = scan_number strtod l1"
    using l1(2) c by (simp add: lx_on_def scan_token_def)
  with scan_number_text [OF assms(2) [unfolded s] assms(3) l1(2) assms(4)] l1(1) s show ?thesis by auto
qed

lemma lx_ready_value [simp]:
  "lx_ready (l\<lparr>lx_value_unsigned := x\<rparr>) s = lx_ready l s"
  "lx_ready (l\<lparr>lx_value_integer := y\<rparr>) s = lx_ready l s"
  "lx_ready (l\<lparr>lx_value_float := z\<rparr>) s = lx_ready l s"
  by (cases "lx_current l"; simp add: lx_ready_def lx_at_def)+

lemma scan_int_text:
  assumes "\<forall>x \<in> set w. is_json_ws x" and "LLONG_MIN \<le> i" "i \<le> ULLONG_MAX"
    and "num_stop rest" and "lx_at l (w @ dump_integer i @ rest)"
  shows "\<exists>l'. lx_ready l' rest \<and>
    (if i < 0 then scan strtod l = (TT_value_integer, l') \<and> lx_value_integer l' = i
     else scan strtod l = (TT_value_unsigned, l') \<and> int (lx_value_unsigned l') = i)"
proof -
  let ?t = "if i < 0 then TT_value_integer else TT_value_unsigned"
  obtain l' where l': "scan strtod l = scan_number_done strtod ?t l'" "lx_ready (lx_unget l') rest"
      "lx_token_buffer l' = show_int i"
    using scan_number_at [OF assms(1) number_text_int _ assms(4), of i l strtod] assms(5)
    by (cases "i < 0") (auto simp: dump_integer_show)
  have v: "number_text_value (show_int i) = i" by (simp add: number_text_value_def scan_int_show_int_whole)
  show ?thesis
    using l' v assms(2,3) by (cases "i < 0") (auto simp: scan_number_done_def Let_def LLONG_MAX_def)
qed

lemma scan_float_text:
  assumes "\<forall>x \<in> set w. is_json_ws x" and "float_ok grisu2 strtod x"
    and "num_stop rest" and "lx_at l (w @ to_chars grisu2 x @ rest)"
  shows "\<exists>l'. lx_ready l' rest \<and> scan strtod l = (TT_value_float, l') \<and> lx_value_float l' = Some x"
proof -
  obtain l' where l': "scan strtod l = scan_number_done strtod TT_value_float l'" "lx_ready (lx_unget l') rest"
      "lx_token_buffer l' = to_chars grisu2 x"
    using scan_number_at [OF assms(1) number_text_float [OF assms(2)] _ assms(3,4)] by auto
  with assms(2) show ?thesis by (auto simp: scan_number_done_def Let_def float_ok_def)
qed

lemma scan_token_char:
  "lx_current l = Some (CHR ''['') \<Longrightarrow> scan_token strtod l = (TT_begin_array, l)"
  "lx_current l = Some (CHR '']'') \<Longrightarrow> scan_token strtod l = (TT_end_array, l)"
  "lx_current l = Some (CHR ''{'') \<Longrightarrow> scan_token strtod l = (TT_begin_object, l)"
  "lx_current l = Some (CHR ''}'') \<Longrightarrow> scan_token strtod l = (TT_end_object, l)"
  "lx_current l = Some (CHR '':'') \<Longrightarrow> scan_token strtod l = (TT_name_separator, l)"
  "lx_current l = Some (CHR '','') \<Longrightarrow> scan_token strtod l = (TT_value_separator, l)"
  "lx_current l = Some (CHR ''t'') \<Longrightarrow> scan_token strtod l = scan_literal ''rue'' TT_literal_true l"
  "lx_current l = Some (CHR ''f'') \<Longrightarrow> scan_token strtod l = scan_literal ''alse'' TT_literal_false l"
  "lx_current l = Some (CHR ''n'') \<Longrightarrow> scan_token strtod l = scan_literal ''ull'' TT_literal_null l"
  by (simp_all add: scan_token_def del: scan_literal.simps)

lemma scan_char_token:
  assumes "\<forall>x \<in> set w. is_json_ws x" and "lx_at l (w @ c # rest)"
    and "(c, t) \<in> {(CHR ''['', TT_begin_array), (CHR '']'', TT_end_array), (CHR ''{'', TT_begin_object),
      (CHR ''}'', TT_end_object), (CHR '':'', TT_name_separator), (CHR '','', TT_value_separator)}"
  shows "\<exists>l'. scan strtod l = (t, l') \<and> lx_ready l' rest"
proof -
  have nw: "\<not> is_json_ws c" "c \<noteq> CHR 0xEF" using assms(3) by (auto simp: is_json_ws_def)
  obtain l1 where l1: "scan strtod l = scan_token strtod l1" "lx_on l1 c rest"
    using scan_on [OF assms(1) nw(1) assms(2)] nw(2) by blast
  have "lx_current l1 = Some c" using l1(2) by (simp add: lx_on_def)
  then have "scan_token strtod l1 = (t, l1)" using assms(3) scan_token_char(1-6) by auto
  with l1 lx_on_ready show ?thesis by auto
qed

lemma scan_literal_token:
  assumes "\<forall>x \<in> set w. is_json_ws x" and "lx_at l (w @ s @ rest)"
    and "(s, t) \<in> {(''true'', TT_literal_true), (''false'', TT_literal_false), (''null'', TT_literal_null)}"
  shows "\<exists>l'. scan strtod l = (t, l') \<and> lx_ready l' rest"
proof -
  obtain c cs where s: "s = c # cs" and c: "\<not> is_json_ws c" "c \<noteq> CHR 0xEF"
    using assms(3) by (auto simp: is_json_ws_def)
  obtain l1 where l1: "scan strtod l = scan_token strtod l1" "lx_on l1 c (cs @ rest)"
    using scan_on [OF assms(1) c(1), of l "cs @ rest" strtod] c(2) assms(2) s by auto
  have "lx_current l1 = Some c" using l1(2) by (simp add: lx_on_def)
  then have "scan_token strtod l1 = scan_literal cs t l1"
    using assms(3) s scan_token_char(7-9) by (auto simp del: scan_literal.simps)
  with l1 scan_literal_at [OF lx_on_ready [OF l1(2)]] show ?thesis by auto
qed

subsection \<open>The parser's loop\<close>

lemma sax_loop_value: "parse_value strtod p = Inr (again, q) \<Longrightarrow> sax_loop strtod True p = sax_loop strtod again q"
  by (cases again) (simp_all add: sax_loop.simps [of strtod True p] sax_loop.simps [of strtod False q])

lemma sax_loop_after:
  "ps_states p \<noteq> [] \<Longrightarrow> after_value strtod p = Inr (b, q) \<Longrightarrow> sax_loop strtod False p = sax_loop strtod b q"
  by (simp add: sax_loop.simps [of strtod False p])

lemma get_token_scan:
  "scan strtod (ps_lexer p) = (t, l) \<Longrightarrow>
   ps_lexer (get_token strtod p) = l \<and> ps_last_token (get_token strtod p) = t"
  by (simp add: get_token_def)

lemma get_token_states [simp]:
  "get_token strtod (p\<lparr>ps_states := ss\<rparr>) = (get_token strtod p)\<lparr>ps_states := ss\<rparr>"
  by (simp add: get_token_def split: prod.split)

text \<open>The loop, from the first token of a value, comes to its end with the value handled.\<close>

definition reads_value ::
  "(string \<Rightarrow> double option) \<Rightarrow> parser \<Rightarrow> json \<Rightarrow> string \<Rightarrow> bool" where
  "reads_value strtod p j rest \<longleftrightarrow>
     ps_last_token (get_token strtod p) \<notin> {TT_end_array, TT_end_object} \<and>
     (\<exists>p'. sax_loop strtod True (get_token strtod p) = sax_loop strtod False p' \<and>
        lx_ready (ps_lexer p') rest \<and> ps_dom p' = handle_value j (ps_dom p) \<and> ps_states p' = ps_states p)"

lemma reads_scalar:
  assumes "scan strtod (ps_lexer p) = (t, l)" and "lx_ready l rest"
    and "t \<notin> {TT_end_array, TT_end_object}"
    and "\<And>q. ps_lexer q = l \<Longrightarrow> ps_last_token q = t \<Longrightarrow> parse_value strtod q = put_value j q"
  shows "reads_value strtod p j rest"
proof -
  let ?q = "get_token strtod p"
  have q: "ps_lexer ?q = l" "ps_last_token ?q = t" using get_token_scan [OF assms(1)] by simp_all
  then have "parse_value strtod ?q = Inr (False, dom_do (handle_value j) ?q)"
    using assms(4) by (simp add: put_value_def)
  from sax_loop_value [OF this] q assms(2,3) show ?thesis by (auto simp: reads_value_def)
qed

subsection \<open>Arrays\<close>

lemma num_stop_ws:
  assumes "\<forall>x \<in> set w. is_json_ws x" and "c \<in> set '',]}''"
  shows "num_stop (w @ c # s)"
proof -
  have "\<forall>x \<in> set [CHR '' '', CHR 0x09, CHR 0x0A, CHR 0x0D, CHR '','', CHR '']'', CHR ''}''].
      \<not> is_digit x \<and> x \<noteq> CHR ''.'' \<and> \<not> is_e x"
    by (simp add: is_digit_def is_e_def)
  moreover have "hd (w @ c # s) \<in> set [CHR '' '', CHR 0x09, CHR 0x0A, CHR 0x0D, CHR '','', CHR '']'', CHR ''}'']"
    using assms by (cases w) (auto simp: is_json_ws_def)
  ultimately have "\<not> is_digit (hd (w @ c # s)) \<and> hd (w @ c # s) \<noteq> CHR ''.'' \<and> \<not> is_e (hd (w @ c # s))"
    by (rule bspec)
  then show ?thesis by (cases w) (simp_all add: num_stop_def)
qed

lemma ws_simps: "is_json_ws (CHR '' '')" "is_json_ws (CHR 0x0A)"
  by (simp_all add: is_json_ws_def)

lemma ws_indent: "\<forall>x \<in> set (json_indent n). is_json_ws x"
  by (simp add: json_indent_def ws_simps)

lemma token_char:
  assumes "\<forall>x \<in> set w. is_json_ws x" and "lx_at (ps_lexer p) (w @ c # rest)"
    and "(c, t) \<in> {(CHR ''['', TT_begin_array), (CHR '']'', TT_end_array), (CHR ''{'', TT_begin_object),
      (CHR ''}'', TT_end_object), (CHR '':'', TT_name_separator), (CHR '','', TT_value_separator)}"
  shows "ps_last_token (get_token strtod p) = t \<and> lx_ready (ps_lexer (get_token strtod p)) rest"
  using scan_char_token [OF assms(1,2,3), of strtod] get_token_scan [of strtod p] by auto

lemma lx_ready_at: "lx_ready l s \<Longrightarrow> lx_at l s"
  by (simp add: lx_ready_def)

text \<open>What is known of the values inside a container.\<close>

definition all_read ::
  "(string \<Rightarrow> double option) \<Rightarrow> (json \<Rightarrow> string res) \<Rightarrow> json set \<Rightarrow> bool" where
  "all_read strtod f vs \<longleftrightarrow>
     (\<forall>v tx w p rest. v \<in> vs \<longrightarrow> f v = Inr tx \<longrightarrow> (\<forall>x \<in> set w. is_json_ws x) \<longrightarrow> num_stop rest \<longrightarrow>
        lx_at (ps_lexer p) (w @ tx @ rest) \<longrightarrow> reads_value strtod p v rest)"

lemma all_readD:
  "all_read strtod f vs \<Longrightarrow> v \<in> vs \<Longrightarrow> f v = Inr tx \<Longrightarrow> \<forall>x \<in> set w. is_json_ws x \<Longrightarrow> num_stop rest \<Longrightarrow>
   lx_at (ps_lexer p) (w @ tx @ rest) \<Longrightarrow> reads_value strtod p v rest"
  unfolding all_read_def by blast

lemma all_read_mono: "all_read strtod f vs \<Longrightarrow> us \<subseteq> vs \<Longrightarrow> all_read strtod f us"
  unfolding all_read_def by blast

lemma reads_elements:
  assumes "dump_elements pretty ind (map f vs) = Inr body" and "vs \<noteq> []" and "all_read strtod f (set vs)"
    and "\<forall>x \<in> set w. is_json_ws x" and cw: "\<forall>x \<in> set cw. is_json_ws x"
    and "lx_at (ps_lexer p) (w @ body @ cw @ CHR '']'' # rest)"
    and "dp_ref_stack (ps_dom p) = Open_array acc # st" and "ps_states p = True # ss"
  shows "ps_last_token (get_token strtod p) \<noteq> TT_end_array \<and>
    (\<exists>p'. sax_loop strtod True (get_token strtod p) = sax_loop strtod False p' \<and>
       lx_ready (ps_lexer p') rest \<and> ps_states p' = ss \<and>
       ps_dom p' = handle_value (JArray (acc @ vs)) ((ps_dom p)\<lparr>dp_ref_stack := st\<rparr>))"
  using assms(1-4,6-)
proof (induction vs arbitrary: body w p acc)
  case Nil
  then show ?case by simp
next
  case (Cons v vs)
  obtain tx more where vt: "f v = Inr tx" and more: "dump_elements pretty ind (map f vs) = Inr more"
    and body: "body = (if pretty then json_indent ind else []) @ tx @
      (if vs = [] then [] else if pretty then [CHR '','', CHR 0x0A] else '','') @ more"
    using Cons.prems(1) by (auto simp: res_bind_eq_Inr)
  define w1 where "w1 = w @ (if pretty then json_indent ind else [])"
  define more1 where "more1 = (if vs = [] then [] else if pretty then [CHR '','', CHR 0x0A] else '','') @ more @
    cw @ CHR '']'' # rest"
  have w1: "\<forall>x \<in> set w1. is_json_ws x" using Cons.prems(4) ws_indent by (auto simp: w1_def)
  have stop: "num_stop more1"
  proof (cases "vs = []")
    case True
    with more have "more1 = cw @ CHR '']'' # rest" by (simp add: more1_def)
    then show ?thesis using num_stop_ws [OF cw] by simp
  next
    case False
    then obtain s where "more1 = CHR '','' # s" by (cases pretty) (simp_all add: more1_def)
    then show ?thesis using num_stop_ws [of "[]" "CHR '',''"] by simp
  qed
  have "lx_at (ps_lexer p) (w1 @ tx @ more1)" using Cons.prems(5) by (simp add: body w1_def more1_def)
  with all_readD [OF Cons.prems(3) _ vt w1 stop] have "reads_value strtod p v more1" by simp
  then obtain p1 where t: "ps_last_token (get_token strtod p) \<noteq> TT_end_array"
    and p1: "sax_loop strtod True (get_token strtod p) = sax_loop strtod False p1" "lx_ready (ps_lexer p1) more1"
      "ps_dom p1 = handle_value v (ps_dom p)" "ps_states p1 = True # ss"
    using Cons.prems(7) by (auto simp: reads_value_def)
  have d1: "ps_dom p1 = (ps_dom p)\<lparr>dp_ref_stack := Open_array (acc @ [v]) # st\<rparr>"
    using p1(3) Cons.prems(6) by (simp add: handle_value_def)
  let ?q = "get_token strtod p1"
  show ?case
  proof (cases "vs = []")
    case True
    have "ps_last_token ?q = TT_end_array \<and> lx_ready (ps_lexer ?q) rest"
      using token_char [OF cw, of p1 "CHR '']''" rest] lx_ready_at [OF p1(2)] True more by (simp add: more1_def)
    moreover from this have "after_value strtod p1 = close_container ?q"
      using p1(4) by (simp add: after_value_def)
    moreover define e where "e = (dom_do end_container ?q)\<lparr>ps_states := ss\<rparr>"
    ultimately have "after_value strtod p1 = Inr (False, e)" and e: "lx_ready (ps_lexer e) rest"
      "ps_states e = ss" "ps_dom e = handle_value (JArray (acc @ [v])) ((ps_dom p)\<lparr>dp_ref_stack := st\<rparr>)"
      using p1(4) d1 by (simp_all add: close_container_def end_container_def)
    then have "sax_loop strtod False p1 = sax_loop strtod False e"
      using p1(4) by (intro sax_loop_after) simp_all
    with e t p1(1) True show ?thesis by auto
  next
    case False
    define w2 where "w2 = (if pretty then [CHR 0x0A] else [])"
    have more2: "more1 = CHR '','' # w2 @ more @ cw @ CHR '']'' # rest" using False by (simp add: more1_def w2_def)
    have q: "ps_last_token ?q = TT_value_separator" "lx_ready (ps_lexer ?q) (w2 @ more @ cw @ CHR '']'' # rest)"
      using token_char [of "[]" p1 "CHR '',''"] lx_ready_at [OF p1(2)] by (simp_all add: more2)
    then have "sax_loop strtod False p1 = sax_loop strtod True (get_token strtod ?q)"
      using p1(4) by (intro sax_loop_after) (simp_all add: after_value_def)
    moreover have "\<forall>x \<in> set w2. is_json_ws x" by (simp add: w2_def ws_simps)
    moreover have "all_read strtod f (set vs)" using Cons.prems(3) by (rule all_read_mono) auto
    ultimately show ?thesis
      using Cons.IH [OF more False _ _ lx_ready_at [OF q(2)], of "acc @ [v]"] d1 p1(1,4) t by simp
  qed
qed

lemma reads_array:
  assumes "serializer_dump grisu2 pretty False step cur (JArray xs) = Inr tx"
    and "all_read strtod (serializer_dump grisu2 pretty False step (if pretty then cur + step else cur)) (set xs)"
    and "\<forall>x \<in> set w. is_json_ws x" and "lx_at (ps_lexer p) (w @ tx @ rest)"
  shows "reads_value strtod p (JArray xs) rest"
proof -
  let ?q = "get_token strtod p"
  let ?r = "get_token strtod (dom_do start_array ?q)"
  show ?thesis
  proof (cases "xs = []")
    case True
    then have "tx = ''[]''" using assms(1) by auto
    then have q: "ps_last_token ?q = TT_begin_array" "lx_ready (ps_lexer ?q) (CHR '']'' # rest)"
      using token_char [OF assms(3), of p "CHR ''[''" "CHR '']'' # rest"] assms(4) by simp_all
    then have r: "ps_last_token ?r = TT_end_array" "lx_ready (ps_lexer ?r) rest"
      using token_char [of "[]" "dom_do start_array ?q" "CHR '']''" rest TT_end_array strtod]
        lx_ready_at [OF q(2)] by simp_all
    have "parse_value strtod ?q = Inr (False, dom_do end_container ?r)"
      using q(1) r(1) by (simp add: parse_value_def begin_array_def)
    from sax_loop_value [OF this] q(1) r True show ?thesis
      by (auto simp: reads_value_def end_container_def start_array_def)
  next
    case False
    then obtain body where body: "dump_elements pretty (cur + step)
        (map (serializer_dump grisu2 pretty False step (if pretty then cur + step else cur)) xs) = Inr body"
      and br: "tx = bracket (CHR ''['') (CHR '']'') pretty cur body"
      using assms(1) by (auto simp: res_bind_eq_Inr)
    define w1 cw where "w1 = (if pretty then [CHR 0x0A] else [])"
      and "cw = (if pretty then CHR 0x0A # json_indent cur else [])"
    have ws: "\<forall>x \<in> set w1. is_json_ws x" "\<forall>x \<in> set cw. is_json_ws x"
      using ws_indent by (auto simp: w1_def cw_def ws_simps)
    have "tx = CHR ''['' # w1 @ body @ cw @ '']''" by (simp add: br bracket_def w1_def cw_def)
    then have q: "ps_last_token ?q = TT_begin_array"
        "lx_ready (ps_lexer ?q) (w1 @ body @ cw @ CHR '']'' # rest)"
      using token_char [OF assms(3), of p "CHR ''[''" "w1 @ body @ cw @ CHR '']'' # rest"] assms(4) by simp_all
    define s where "s = (dom_do start_array ?q)\<lparr>ps_states := True # ps_states p\<rparr>"
    have el: "ps_last_token (get_token strtod s) \<noteq> TT_end_array"
      "\<exists>p'. sax_loop strtod True (get_token strtod s) = sax_loop strtod False p' \<and> lx_ready (ps_lexer p') rest \<and>
         ps_states p' = ps_states p \<and> ps_dom p' = handle_value (JArray xs) (ps_dom p)"
      using reads_elements [OF body False assms(2) ws, of s rest "[]" "dp_ref_stack (ps_dom p)"]
        lx_ready_at [OF q(2)] by (simp_all add: s_def start_array_def)
    have "parse_value strtod ?q = Inr (True, get_token strtod s)"
      using q(1) el(1) by (simp add: parse_value_def begin_array_def s_def)
    from sax_loop_value [OF this] q(1) el(2) show ?thesis by (auto simp: reads_value_def)
  qed
qed

subsection \<open>Objects\<close>

lemma parse_key_text:
  assumes "\<forall>x \<in> set w. is_json_ws x" and "dump_escaped False k = Inr key"
    and "lx_at (ps_lexer p) (w @ [CHR 0x22] @ key @ [CHR 0x22] @ CHR '':'' # rest)"
  shows "ps_last_token (get_token strtod p) \<noteq> TT_end_object \<and>
    (\<exists>q. parse_key strtod (get_token strtod p) = Inr q \<and> lx_ready (ps_lexer q) rest \<and>
       ps_dom q = object_key k (ps_dom p) \<and> ps_states q = ps_states p)"
proof -
  have k: "utf8_ok k" "key = concat (map escape_char k)"
    using dump_escaped_valid [of k] assms(2) by (auto split: if_splits)
  obtain l where l: "scan strtod (ps_lexer p) = (TT_value_string, l)" "lx_ready l (CHR '':'' # rest)"
      "lx_token_buffer l = k"
    using scan_string_text [OF assms(1) k(1), of "ps_lexer p" "CHR '':'' # rest" strtod] assms(3) k(2) by auto
  let ?p = "get_token strtod p"
  let ?d = "dom_do (object_key k) ?p"
  have p: "ps_lexer ?p = l" "ps_last_token ?p = TT_value_string" using get_token_scan [OF l(1)] by simp_all
  have q: "ps_last_token (get_token strtod ?d) = TT_name_separator" "lx_ready (ps_lexer (get_token strtod ?d)) rest"
    using token_char [of "[]" ?d "CHR '':''" rest TT_name_separator strtod] lx_ready_at [OF l(2)] p(1) by simp_all
  have "parse_key strtod ?p = Inr (get_token strtod ?d)"
    using p q(1) l(3) by (simp add: parse_key_def)
  with p(2) q(2) show ?thesis by simp
qed

lemma key_then_value:
  assumes "\<forall>k'\<in>fst ` set acc. k' < k" and "dp_ref_stack d = Open_object acc e # st"
  shows "handle_value v (object_key k d) = d\<lparr>dp_ref_stack := Open_object (acc @ [(k, v)]) (Some k) # st\<rparr>"
proof -
  have "map_of acc k = None" using assms(1) by (auto simp: map_of_eq_None_iff)
  then have "map_emplace k JNull acc = acc @ [(k, JNull)]"
    using assms(1) by (simp add: map_emplace_def map_put_last)
  moreover have "map_put k v (acc @ [(k, JNull)]) = acc @ [(k, v)]"
    using assms(1) by (induction acc) auto
  ultimately show ?thesis using assms(2) by (simp add: object_key_def handle_value_def)
qed

lemma reads_members:
  assumes "dump_members False pretty ind (map (\<lambda>(k, v). (k, f v)) ms) = Inr body" and "ms \<noteq> []"
    and "all_read strtod f (snd ` set ms)" and "sorted_keys (acc @ ms)"
    and "\<forall>x \<in> set w. is_json_ws x" and cw: "\<forall>x \<in> set cw. is_json_ws x"
    and "lx_at (ps_lexer p) (w @ body @ cw @ CHR ''}'' # rest)"
    and "dp_ref_stack (ps_dom p) = Open_object acc e # st"
  shows "ps_last_token (get_token strtod p) \<noteq> TT_end_object \<and>
    (\<exists>q. parse_key strtod (get_token strtod p) = Inr q \<and> ps_states q = ps_states p \<and>
       (\<exists>p'. sax_loop strtod True (get_token strtod (q\<lparr>ps_states := False # ss\<rparr>)) = sax_loop strtod False p' \<and>
          lx_ready (ps_lexer p') rest \<and> ps_states p' = ss \<and>
          ps_dom p' = handle_value (JObject (acc @ ms)) ((ps_dom p)\<lparr>dp_ref_stack := st\<rparr>)))"
  using assms(1-5,7-)
proof (induction ms arbitrary: body w p acc e)
  case Nil
  then show ?case by simp
next
  case (Cons m ms)
  obtain k v where m: "m = (k, v)" by (cases m)
  obtain key tx more where key: "dump_escaped False k = Inr key" and vt: "f v = Inr tx"
    and more: "dump_members False pretty ind (map (\<lambda>(k, v). (k, f v)) ms) = Inr more"
    and body: "body = (if pretty then json_indent ind else []) @ [CHR 0x22] @ key @ [CHR 0x22] @
      (if pretty then '': '' else '':'') @ tx @
      (if ms = [] then [] else if pretty then [CHR '','', CHR 0x0A] else '','') @ more"
    using Cons.prems(1) by (auto simp: res_bind_eq_Inr m)
  define w1 where "w1 = w @ (if pretty then json_indent ind else [])"
  define w2 where "w2 = (if pretty then '' '' else [])"
  define more1 where "more1 = (if ms = [] then [] else if pretty then [CHR '','', CHR 0x0A] else '','') @ more @
    cw @ CHR ''}'' # rest"
  have w1: "\<forall>x \<in> set w1. is_json_ws x" using Cons.prems(5) ws_indent by (auto simp: w1_def)
  have w2: "\<forall>x \<in> set w2. is_json_ws x" by (simp add: w2_def ws_simps)
  have stop: "num_stop more1"
  proof (cases "ms = []")
    case True
    with more have "more1 = cw @ CHR ''}'' # rest" by (simp add: more1_def)
    then show ?thesis using num_stop_ws [OF cw] by simp
  next
    case False
    then obtain s where "more1 = CHR '','' # s" by (cases pretty) (simp_all add: more1_def)
    then show ?thesis using num_stop_ws [of "[]" "CHR '',''"] by simp
  qed
  have "lx_at (ps_lexer p) (w1 @ [CHR 0x22] @ key @ [CHR 0x22] @ CHR '':'' # w2 @ tx @ more1)"
    using Cons.prems(6) by (cases pretty) (simp_all add: body w1_def w2_def more1_def)
  from parse_key_text [OF w1 key this, of strtod]
  obtain q where t: "ps_last_token (get_token strtod p) \<noteq> TT_end_object"
    and q: "parse_key strtod (get_token strtod p) = Inr q" "lx_ready (ps_lexer q) (w2 @ tx @ more1)"
      "ps_dom q = object_key k (ps_dom p)" "ps_states q = ps_states p" by blast
  define s where "s = q\<lparr>ps_states := False # ss\<rparr>"
  have "lx_at (ps_lexer s) (w2 @ tx @ more1)" using lx_ready_at [OF q(2)] by (simp add: s_def)
  then have "reads_value strtod s v more1"
    using all_readD [OF Cons.prems(3) _ vt w2 stop, of s] by (simp add: m)
  then obtain p1 where p1: "sax_loop strtod True (get_token strtod s) = sax_loop strtod False p1"
      "lx_ready (ps_lexer p1) more1" "ps_dom p1 = handle_value v (ps_dom q)" "ps_states p1 = False # ss"
    unfolding reads_value_def by (auto simp: s_def)
  have "\<forall>k'\<in>fst ` set acc. k' < k"
    using Cons.prems(4) by (auto simp: m sorted_keys_def sorted_wrt_append)
  then have d1: "ps_dom p1 = (ps_dom p)\<lparr>dp_ref_stack := Open_object (acc @ [(k, v)]) (Some k) # st\<rparr>"
    using p1(3) q(3) key_then_value [OF _ Cons.prems(7)] by simp
  let ?n = "get_token strtod p1"
  have "\<exists>p'. sax_loop strtod False p1 = sax_loop strtod False p' \<and> lx_ready (ps_lexer p') rest \<and>
      ps_states p' = ss \<and>
      ps_dom p' = handle_value (JObject (acc @ m # ms)) ((ps_dom p)\<lparr>dp_ref_stack := st\<rparr>)"
  proof (cases "ms = []")
    case True
    have "ps_last_token ?n = TT_end_object \<and> lx_ready (ps_lexer ?n) rest"
      using token_char [OF cw, of p1 "CHR ''}''" rest] lx_ready_at [OF p1(2)] True more by (simp add: more1_def)
    moreover from this have "after_value strtod p1 = close_container ?n"
      using p1(4) by (simp add: after_value_def)
    moreover define c where "c = (dom_do end_container ?n)\<lparr>ps_states := ss\<rparr>"
    ultimately have "after_value strtod p1 = Inr (False, c)" and c: "lx_ready (ps_lexer c) rest"
      "ps_states c = ss" "ps_dom c = handle_value (JObject (acc @ [(k, v)])) ((ps_dom p)\<lparr>dp_ref_stack := st\<rparr>)"
      using p1(4) d1 by (simp_all add: close_container_def end_container_def)
    then have "sax_loop strtod False p1 = sax_loop strtod False c"
      using p1(4) by (intro sax_loop_after) simp_all
    with c True show ?thesis by (auto simp: m)
  next
    case False
    define w3 where "w3 = (if pretty then [CHR 0x0A] else [])"
    have w3: "\<forall>x \<in> set w3. is_json_ws x" by (simp add: w3_def ws_simps)
    have more2: "more1 = CHR '','' # w3 @ more @ cw @ CHR ''}'' # rest" using False by (simp add: more1_def w3_def)
    have n: "ps_last_token ?n = TT_value_separator" "lx_ready (ps_lexer ?n) (w3 @ more @ cw @ CHR ''}'' # rest)"
      using token_char [of "[]" p1 "CHR '',''"] lx_ready_at [OF p1(2)] by (simp_all add: more2)
    have rd: "all_read strtod f (snd ` set ms)" using Cons.prems(3) by (rule all_read_mono) auto
    have st: "dp_ref_stack (ps_dom ?n) = Open_object (acc @ [m]) (Some k) # st" by (simp add: d1 m)
    have srt: "sorted_keys ((acc @ [m]) @ ms)" using Cons.prems(4) by simp
    obtain r p' where r: "parse_key strtod (get_token strtod ?n) = Inr r" "ps_states r = ps_states ?n"
      and p': "sax_loop strtod True (get_token strtod (r\<lparr>ps_states := False # ss\<rparr>)) = sax_loop strtod False p'"
        "lx_ready (ps_lexer p') rest" "ps_states p' = ss"
        "ps_dom p' = handle_value (JObject ((acc @ [m]) @ ms)) ((ps_dom ?n)\<lparr>dp_ref_stack := st\<rparr>)"
      using Cons.IH [OF more False rd srt w3 lx_ready_at [OF n(2)] st] by blast
    have "r\<lparr>ps_states := False # ss\<rparr> = r" using r(2) p1(4) by simp
    moreover have "sax_loop strtod False p1 = sax_loop strtod True (get_token strtod r)"
      using p1(4) n(1) r(1) by (intro sax_loop_after) (simp_all add: after_value_def)
    ultimately show ?thesis using p' d1 by auto
  qed
  with t q(1,4) p1(1) show ?case by (auto simp: s_def)
qed

lemma reads_object:
  assumes "serializer_dump grisu2 pretty False step cur (JObject m) = Inr tx" and "sorted_keys m"
    and "all_read strtod (serializer_dump grisu2 pretty False step (if pretty then cur + step else cur)) (snd ` set m)"
    and "\<forall>x \<in> set w. is_json_ws x" and "lx_at (ps_lexer p) (w @ tx @ rest)"
  shows "reads_value strtod p (JObject m) rest"
proof -
  let ?q = "get_token strtod p"
  let ?s = "dom_do start_object ?q"
  let ?r = "get_token strtod ?s"
  show ?thesis
  proof (cases "m = []")
    case True
    then have "tx = ''{}''" using assms(1) by auto
    then have q: "ps_last_token ?q = TT_begin_object" "lx_ready (ps_lexer ?q) (CHR ''}'' # rest)"
      using token_char [OF assms(4), of p "CHR ''{''" "CHR ''}'' # rest"] assms(5) by simp_all
    then have r: "ps_last_token ?r = TT_end_object" "lx_ready (ps_lexer ?r) rest"
      using token_char [of "[]" ?s "CHR ''}''" rest TT_end_object strtod] lx_ready_at [OF q(2)] by simp_all
    have "parse_value strtod ?q = Inr (False, dom_do end_container ?r)"
      using q(1) r(1) by (simp add: parse_value_def begin_object_def)
    from sax_loop_value [OF this] q(1) r True show ?thesis
      by (auto simp: reads_value_def end_container_def start_object_def)
  next
    case False
    then obtain body where body: "dump_members False pretty (cur + step)
        (map (\<lambda>(k, v). (k, serializer_dump grisu2 pretty False step (if pretty then cur + step else cur) v)) m) = Inr body"
      and br: "tx = bracket (CHR ''{'') (CHR ''}'') pretty cur body"
      using assms(1) by (auto simp: res_bind_eq_Inr)
    define w1 cw where "w1 = (if pretty then [CHR 0x0A] else [])"
      and "cw = (if pretty then CHR 0x0A # json_indent cur else [])"
    have ws: "\<forall>x \<in> set w1. is_json_ws x" "\<forall>x \<in> set cw. is_json_ws x"
      using ws_indent by (auto simp: w1_def cw_def ws_simps)
    have "tx = CHR ''{'' # w1 @ body @ cw @ ''}''" by (simp add: br bracket_def w1_def cw_def)
    then have q: "ps_last_token ?q = TT_begin_object"
        "lx_ready (ps_lexer ?q) (w1 @ body @ cw @ CHR ''}'' # rest)"
      using token_char [OF assms(4), of p "CHR ''{''" "w1 @ body @ cw @ CHR ''}'' # rest"] assms(5) by simp_all
    have "lx_at (ps_lexer ?s) (w1 @ body @ cw @ CHR ''}'' # rest)" using lx_ready_at [OF q(2)] by simp
    moreover have "dp_ref_stack (ps_dom ?s) = Open_object [] None # dp_ref_stack (ps_dom p)"
      by (simp add: start_object_def)
    ultimately obtain r p' where r: "ps_last_token ?r \<noteq> TT_end_object" "parse_key strtod ?r = Inr r"
        "ps_states r = ps_states ?s"
      and p': "sax_loop strtod True (get_token strtod (r\<lparr>ps_states := False # ps_states p\<rparr>)) = sax_loop strtod False p'"
        "lx_ready (ps_lexer p') rest" "ps_states p' = ps_states p"
        "ps_dom p' = handle_value (JObject ([] @ m)) ((ps_dom ?s)\<lparr>dp_ref_stack := dp_ref_stack (ps_dom p)\<rparr>)"
      using reads_members [OF body False assms(3) _ ws, of "[]" ?s rest None "dp_ref_stack (ps_dom p)" "ps_states p"]
        assms(2) by auto
    have "(ps_dom ?s)\<lparr>dp_ref_stack := dp_ref_stack (ps_dom p)\<rparr> = ps_dom p" by (simp add: start_object_def)
    moreover have "parse_value strtod ?q = Inr (True, get_token strtod (r\<lparr>ps_states := False # ps_states p\<rparr>))"
      using q(1) r by (simp add: parse_value_def begin_object_def)
    ultimately show ?thesis
      using sax_loop_value [of strtod ?q] q(1) p' by (auto simp: reads_value_def)
  qed
qed

subsection \<open>Values\<close>

text \<open>The values the library can hold and write.\<close>

fun json_ok :: "(double \<Rightarrow> string \<times> int) \<Rightarrow> (string \<Rightarrow> double option) \<Rightarrow> json \<Rightarrow> bool" where
  "json_ok grisu2 strtod (JInt i) \<longleftrightarrow> LLONG_MIN \<le> i \<and> i \<le> ULLONG_MAX"
| "json_ok grisu2 strtod (JFloat x) \<longleftrightarrow> float_ok grisu2 strtod x"
| "json_ok grisu2 strtod (JString s) \<longleftrightarrow> utf8_ok s"
| "json_ok grisu2 strtod (JArray xs) \<longleftrightarrow> list_all (json_ok grisu2 strtod) xs"
| "json_ok grisu2 strtod (JObject m) \<longleftrightarrow>
     sorted_keys m \<and> list_all (\<lambda>(k, v). utf8_ok k \<and> json_ok grisu2 strtod v) m"
| "json_ok grisu2 strtod (JBool b) \<longleftrightarrow> True"
| "json_ok grisu2 strtod JNull \<longleftrightarrow> True"

lemma value_reads:
  assumes "json_ok grisu2 strtod j" and "serializer_dump grisu2 pretty False step cur j = Inr tx"
    and "\<forall>x \<in> set w. is_json_ws x" and "num_stop rest" and "lx_at (ps_lexer p) (w @ tx @ rest)"
  shows "reads_value strtod p j rest"
  using assms
proof (induction j arbitrary: cur tx w p rest)
  case JNull
  then obtain l where "scan strtod (ps_lexer p) = (TT_literal_null, l)" "lx_ready l rest"
    using scan_literal_token [of w "ps_lexer p" tx rest TT_literal_null strtod] by auto
  then show ?case by (rule reads_scalar) (simp_all add: parse_value_def)
next
  case (JBool b)
  let ?t = "if b then TT_literal_true else TT_literal_false"
  obtain l where "scan strtod (ps_lexer p) = (?t, l)" "lx_ready l rest"
    using scan_literal_token [of w "ps_lexer p" tx rest ?t strtod] JBool by (cases b) auto
  then show ?case by (rule reads_scalar) (auto simp: parse_value_def split: if_splits)
next
  case (JInt i)
  then obtain l where l: "lx_ready l rest"
      "if i < 0 then scan strtod (ps_lexer p) = (TT_value_integer, l) \<and> lx_value_integer l = i
       else scan strtod (ps_lexer p) = (TT_value_unsigned, l) \<and> int (lx_value_unsigned l) = i"
    using scan_int_text [of w i rest "ps_lexer p" strtod] by auto
  show ?case
  proof (cases "i < 0")
    case True
    with l show ?thesis by (auto intro!: reads_scalar [of strtod p TT_value_integer l] simp: parse_value_def)
  next
    case False
    with l show ?thesis by (auto intro!: reads_scalar [of strtod p TT_value_unsigned l] simp: parse_value_def)
  qed
next
  case (JFloat x)
  then obtain l where l: "scan strtod (ps_lexer p) = (TT_value_float, l)" "lx_ready l rest" "lx_value_float l = Some x"
    using scan_float_text [of w grisu2 strtod x rest "ps_lexer p"] by auto
  from l(1,2) show ?case by (rule reads_scalar) (simp_all add: parse_value_def l(3))
next
  case (JString s)
  then obtain key where key: "dump_escaped False s = Inr key" and tx: "tx = [CHR 0x22] @ key @ [CHR 0x22]"
    by (auto simp: res_bind_eq_Inr)
  have "key = concat (map escape_char s)" "utf8_ok s"
    using key dump_escaped_valid [of s] by (auto split: if_splits)
  then obtain l where l: "scan strtod (ps_lexer p) = (TT_value_string, l)" "lx_ready l rest" "lx_token_buffer l = s"
    using scan_string_text [of w s "ps_lexer p" rest strtod] JString.prems(3,5) tx by auto
  from l(1,2) show ?case by (rule reads_scalar) (simp_all add: parse_value_def l(3))
next
  case (JArray xs)
  have "all_read strtod (serializer_dump grisu2 pretty False step (if pretty then cur + step else cur)) (set xs)"
    unfolding all_read_def using JArray.IH JArray.prems(1) by (auto simp: list_all_iff)
  then show ?case by (rule reads_array [OF JArray.prems(2) _ JArray.prems(3,5)])
next
  case (JObject m)
  have "all_read strtod (serializer_dump grisu2 pretty False step (if pretty then cur + step else cur)) (snd ` set m)"
    unfolding all_read_def using JObject.IH JObject.prems(1) by (fastforce simp: list_all_iff)
  moreover have "sorted_keys m" using JObject.prems(1) by simp
  ultimately show ?case by (intro reads_object [OF JObject.prems(2) _ _ JObject.prems(3,5)])
qed

lemma dump_elements_ok:
  "\<forall>v \<in> set vs. \<exists>tx. f v = Inr tx \<Longrightarrow> \<exists>body. dump_elements pretty ind (map f vs) = Inr body"
  by (induction vs) (auto simp: res_bind_eq_Inr)

lemma dump_members_ok:
  "\<forall>(k, v) \<in> set ms. utf8_ok k \<and> (\<exists>tx. f v = Inr tx) \<Longrightarrow>
   \<exists>body. dump_members False pretty ind (map (\<lambda>(k, v). (k, f v)) ms) = Inr body"
proof (induction ms)
  case Nil
  then show ?case by simp
next
  case (Cons m ms)
  obtain k v where m: "m = (k, v)" by (cases m)
  obtain key where "dump_escaped False k = Inr key"
    using Cons.prems dump_escaped_valid [of k] by (auto simp: m)
  with Cons show ?case by (auto simp: m)
qed

lemma serializer_total: "json_ok grisu2 strtod j \<Longrightarrow> \<exists>tx. serializer_dump grisu2 pretty False step cur j = Inr tx"
proof (induction j arbitrary: cur)
  case (JString s)
  then show ?case using dump_escaped_valid [of s] by auto
next
  case (JArray xs)
  then have "\<forall>v \<in> set xs. \<exists>tx. serializer_dump grisu2 pretty False step (if pretty then cur + step else cur) v = Inr tx"
    by (auto simp: list_all_iff)
  from dump_elements_ok [OF this, of pretty "cur + step"] show ?case by auto
next
  case (JObject m)
  then have "\<forall>(k, v) \<in> set m. utf8_ok k \<and>
      (\<exists>tx. serializer_dump grisu2 pretty False step (if pretty then cur + step else cur) v = Inr tx)"
    by (fastforce simp: list_all_iff)
  from dump_members_ok [OF this, of pretty "cur + step"] show ?case by auto
qed simp_all

text \<open>The end of the input may be preceded by white space, as the line feed after a result file.\<close>

theorem json_parse_dump:
  assumes "json_ok grisu2 strtod j" and "\<forall>x \<in> set w. is_json_ws x"
  shows "\<exists>tx. json_dump grisu2 indent j = Inr tx \<and> json_parse strtod (tx @ w) = Inr j"
proof -
  define pretty where "pretty \<longleftrightarrow> 0 \<le> indent"
  obtain tx where tx: "serializer_dump grisu2 pretty False (if pretty then nat indent else 0) 0 j = Inr tx"
    using serializer_total [OF assms(1)] by blast
  define p where "p = \<lparr>ps_lexer = lexer_init (tx @ w), ps_last_token = TT_uninitialized, ps_states = [],
    ps_dom = dom_init\<rparr>"
  have "lx_at (ps_lexer p) ([] @ tx @ w)" by (simp add: p_def lx_at_def lexer_init_def)
  moreover have "num_stop w"
  proof (cases w)
    case Nil
    then show ?thesis by (simp add: num_stop_def)
  next
    case (Cons c s)
    then have "num_stop ([c] @ CHR '','' # s)" using num_stop_ws [of "[c]" "CHR '',''"] assms(2) by simp
    with Cons show ?thesis by (simp add: num_stop_def)
  qed
  ultimately have "reads_value strtod p j w"
    using value_reads [OF assms(1) tx, of "[]"] by simp
  then obtain p' where p': "sax_loop strtod True (get_token strtod p) = sax_loop strtod False p'"
      "lx_ready (ps_lexer p') w" "ps_dom p' = handle_value j (ps_dom p)" "ps_states p' = ps_states p"
    unfolding reads_value_def by blast
  have "sax_loop strtod False p' = Inr p'" using p'(4) by (simp add: sax_loop.simps [of strtod False] p_def)
  moreover have "ps_last_token (get_token strtod p') = TT_end_of_input"
    using scan_eof [OF assms(2) p'(2), of strtod] get_token_scan [of strtod p'] by auto
  ultimately have "json_parse strtod (tx @ w) = Inr j"
    using p'(1,3) by (simp add: json_parse_def parser_init_def p_def [symmetric])
      (simp add: p_def dom_init_def handle_value_def)
  moreover have "json_dump grisu2 indent j = Inr tx" using tx by (cases "0 \<le> indent") (simp_all add: json_dump_def pretty_def)
  ultimately show ?thesis by blast
qed

end
