(* ===== verification/JsonUnicode.thy ===== *)
theory JsonUnicode
  imports JsonUtf8
begin

section \<open>The strings of the JSON library are Unicode\<close>

text \<open>
  The strings both checks of UTF-8 accept are the encodings of sequences of Unicode scalar
  values, by the encoding \<open>utf8_bytes\<close> the lexer itself uses for its escapes.
\<close>

lemma utf8_run_append: "utf8_run st s \<Longrightarrow> utf8_run 0 t \<Longrightarrow> utf8_run st (s @ t)"
  by (induction st s rule: utf8_run.induct) auto

lemma utf8_ok_append: "utf8_ok s \<Longrightarrow> utf8_ok t \<Longrightarrow> utf8_ok (s @ t)"
  by (simp add: utf8_ok_def utf8_run_append)

lemma utf8_ok_Nil [simp]: "utf8_ok []"
  by (simp add: utf8_ok_def)

lemma utf8_ok_ascii: "(of_char c :: nat) < 0x80 \<Longrightarrow> utf8_ok [c]"
  using utf8_first [of "of_char c"] by (simp add: utf8_ok_def)

lemma utf8_ok_ascii_string: "\<forall>c \<in> set s. (of_char c :: nat) < 0x80 \<Longrightarrow> utf8_ok s"
proof (induction s)
  case (Cons c s)
  then show ?case using utf8_ok_append [OF utf8_ok_ascii, of c s] by simp
qed simp

text \<open>A Unicode scalar value.\<close>

definition scalar :: "nat \<Rightarrow> bool" where
  "scalar cp \<longleftrightarrow> cp \<le> 0x10FFFF \<and> \<not> (0xD800 \<le> cp \<and> cp \<le> 0xDFFF)"

lemma of_char_char_of: "n < 256 \<Longrightarrow> (of_char (char_of n :: char) :: nat) = n"
  by (simp add: of_char_of)

lemma utf8_bytes_ok:
  assumes "scalar cp"
  shows "utf8_ok (utf8_bytes cp)"
proof -
  have m: "cp mod 64 < 64" "cp div 64 mod 64 < 64" "cp div 4096 mod 64 < 64" by simp_all
  consider "cp < 0x80" | "0x80 \<le> cp \<and> cp \<le> 0x7FF" | "0x7FF < cp \<and> cp \<le> 0xFFFF"
    | "0xFFFF < cp \<and> cp \<le> 0x10FFFF"
    using assms unfolding scalar_def by linarith
  then show ?thesis
  proof cases
    case 1
    then show ?thesis by (simp add: utf8_bytes_def utf8_ok_ascii of_char_char_of)
  next
    case 2
    then have "2 \<le> cp div 64" "cp div 64 < 32" by (auto simp: less_mult_imp_div_less)
    with 2 m show ?thesis
      by (simp add: utf8_bytes_def utf8_ok_def of_char_char_of utf8_first utf8_later)
  next
    case 3
    define a where "a = cp div 4096"
    define b where "b = cp div 64 mod 64"
    have ab: "a < 16" "cp div 64 = a * 64 + b" "b < 64"
      using 3 by (auto simp: a_def b_def less_mult_imp_div_less div_mult2_eq [of cp 64 64, simplified])
    have "0x20 \<le> cp div 64" using 3 by auto
    then have a0: "a = 0 \<Longrightarrow> 0x20 \<le> b" using ab(2) by simp
    have ad: "b < 0x20" if "a = 13"
    proof (rule ccontr)
      assume "\<not> b < 0x20"
      moreover have "cp = cp div 64 * 64 + cp mod 64" by simp
      ultimately have "0xD800 \<le> cp" "cp \<le> 0xDFFF" using that ab m(1) by simp_all
      with assms show False by (simp add: scalar_def)
    qed
    have "utf8_bytes cp = [char_of (0xE0 + a), char_of (0x80 + b), char_of (0x80 + cp mod 64)]"
      using 3 by (simp add: utf8_bytes_def a_def b_def)
    then show ?thesis
      using ab(1,3) a0 ad m(1)
      by (cases "a = 0"; cases "a = 13")
         (auto simp: utf8_ok_def of_char_char_of utf8_first utf8_later)
  next
    case 4
    define a where "a = cp div 262144"
    define b where "b = cp div 4096 mod 64"
    have ab: "a < 5" "cp div 4096 = a * 64 + b" "b < 64"
      using 4 by (auto simp: a_def b_def less_mult_imp_div_less div_mult2_eq [of cp 4096 64, simplified])
    have "0x10 \<le> cp div 4096" "cp div 4096 < 0x110" using 4 by (auto simp: less_mult_imp_div_less)
    then have a0: "a = 0 \<Longrightarrow> 0x10 \<le> b" and a4: "a = 4 \<Longrightarrow> b < 0x10" using ab(2) by simp_all
    have "utf8_bytes cp = [char_of (0xF0 + a), char_of (0x80 + b), char_of (0x80 + cp div 64 mod 64), char_of (0x80 + cp mod 64)]"
      using 4 by (simp add: utf8_bytes_def a_def b_def)
    then show ?thesis
      using ab(1,3) a0 a4 m
      by (cases "a = 0"; cases "a = 4")
         (auto simp: utf8_ok_def of_char_char_of utf8_first utf8_later)
  qed
qed

lemma base64_digits:
  fixes x y z u :: nat
  assumes "y < 64" "z < 64" "u < 64"
  shows "(x * 64 + y) div 64 = x" "(x * 64 + y) mod 64 = y"
    "((x * 64 + y) * 64 + z) div 4096 = x" "((x * 64 + y) * 64 + z) div 64 mod 64 = y"
    "(((x * 64 + y) * 64 + z) * 64 + u) div 262144 = x"
    "(((x * 64 + y) * 64 + z) * 64 + u) div 4096 mod 64 = y"
    "(((x * 64 + y) * 64 + z) * 64 + u) div 64 mod 64 = z"
proof -
  have d: "(a * 64 + c) div 64 = a" "(a * 64 + c) mod 64 = c" if "c < 64" for a c :: nat
    using that by simp_all
  have e: "n div 4096 = n div 64 div 64" "n div 262144 = n div 64 div 64 div 64" for n :: nat
    by (simp_all add: div_mult2_eq [symmetric])
  show "(x * 64 + y) div 64 = x" "(x * 64 + y) mod 64 = y"
    "((x * 64 + y) * 64 + z) div 4096 = x" "((x * 64 + y) * 64 + z) div 64 mod 64 = y"
    "(((x * 64 + y) * 64 + z) * 64 + u) div 262144 = x"
    "(((x * 64 + y) * 64 + z) * 64 + u) div 4096 mod 64 = y"
    "(((x * 64 + y) * 64 + z) * 64 + u) div 64 mod 64 = z"
    unfolding e by (simp_all only: d assms)
qed

text \<open>A byte in a range is the range's start plus six bits.\<close>

lemma cont_byte:
  assumes "utf8_run st (c # cs)" and "utf8_state st" and "utf8_pending st = (lo, hi) # rs"
  obtains "lo \<le> (of_char c :: nat)" "(of_char c :: nat) \<le> hi"
    "utf8_run (utf8_next st (of_char c)) cs" "utf8_state (utf8_next st (of_char c))"
    "utf8_pending (utf8_next st (of_char c)) = rs"
  using assms utf8_cont [of "of_char c" st lo hi rs] by (auto split: if_splits)

lemma pending_run_Nil: "utf8_state st \<Longrightarrow> utf8_pending st = r # rs \<Longrightarrow> \<not> utf8_run st []"
  by (auto simp: utf8_pending_def split: if_splits)

lemma char_of_of_char: "n = (of_char c :: nat) \<Longrightarrow> char_of n = c"
  by simp

lemma utf8_split:
  assumes "utf8_run 0 (c # cs)"
  shows "\<exists>cp rest. scalar cp \<and> c # cs = utf8_bytes cp @ rest \<and> utf8_run 0 rest"
proof -
  define b where "b = (of_char c :: nat)"
  have b: "b < 256" "char_of b = c" by (simp_all add: b_def)
  define st where "st = utf8_next 0 b"
  have st: "st \<noteq> 1" "utf8_run st cs" using assms by (simp_all add: st_def b_def)
  have first: "st = (if b < 0x80 then 0 else if 0xC2 \<le> b \<and> b \<le> 0xDF then 2 else if b = 0xE0 then 4
      else if (0xE1 \<le> b \<and> b \<le> 0xEC) \<or> b = 0xEE \<or> b = 0xEF then 3 else if b = 0xED then 5
      else if b = 0xF0 then 6 else if 0xF1 \<le> b \<and> b \<le> 0xF3 then 7 else if b = 0xF4 then 8 else 1)"
    unfolding st_def by (rule utf8_first [OF b(1)])
  have state: "utf8_state st" using utf8_next_state [OF b(1), of 0] st(1) by (simp add: st_def utf8_state_def)
  have end0: "utf8_state t \<Longrightarrow> utf8_pending t = [] \<Longrightarrow> t = 0" for t using utf8_pending_empty by blast
  consider (one) "b < 0x80" | (two) "st = 2" | (three) r where "st \<in> {3, 4, 5}" "utf8_pending st = [r, (0x80, 0xBF)]"
    | (four) r where "st \<in> {6, 7, 8}" "utf8_pending st = [r, (0x80, 0xBF), (0x80, 0xBF)]"
  proof -
    from state consider "st = 0" | "st = 2" | "st \<in> {3, 4, 5}" | "st \<in> {6, 7, 8}"
      by (auto simp: utf8_state_def)
    then show thesis
    proof cases
      case 1
      then have "b < 0x80" using first by (simp split: if_splits)
      then show thesis by (rule one)
    next
      case 3
      then show thesis using three [of "hd (utf8_pending st)"] by (auto simp: utf8_pending_def)
    next
      case 4
      then show thesis using four [of "hd (utf8_pending st)"] by (auto simp: utf8_pending_def)
    qed (rule two)
  qed
  then show ?thesis
  proof cases
    case one
    with first st(2) have "utf8_run 0 cs" by simp
    moreover have "utf8_bytes b = [c]" "scalar b" using one b(2) by (simp_all add: utf8_bytes_def scalar_def)
    ultimately show ?thesis by (intro exI [of _ b] exI [of _ cs]) simp
  next
    case two
    have p: "utf8_pending st = (0x80, 0xBF) # []" using two by (simp add: utf8_pending_def)
    obtain d ds where cs: "cs = d # ds" using pending_run_Nil [OF state p] st(2) by (cases cs) auto
    define y where "y = (of_char d :: nat)"
    obtain y: "0x80 \<le> y" "y \<le> 0xBF" and run: "utf8_run 0 ds"
      using cont_byte [OF st(2) [unfolded cs] state p] end0 by (metis y_def)
    have bb: "0xC2 \<le> b" "b \<le> 0xDF" using first two by (auto split: if_splits)
    define cp where "cp = (b - 0xC0) * 64 + (y - 0x80)"
    have dig: "cp div 64 = b - 0xC0" "cp mod 64 = y - 0x80" using base64_digits(1,2) [of "y - 0x80" 0 0] y
      by (simp_all add: cp_def)
    have "2 \<le> b - 0xC0" "b - 0xC0 \<le> 31" using bb by auto
    then have "128 \<le> cp" "cp \<le> 0x7FF" using y by (simp_all add: cp_def)
    moreover have "utf8_bytes cp = [c, d]"
      using calculation dig bb y b(2) by (simp add: utf8_bytes_def y_def)
    ultimately show ?thesis using run cs by (intro exI [of _ cp] exI [of _ ds]) (simp add: scalar_def)
  next
    case (three r)
    obtain lo hi where r: "r = (lo, hi)" by (cases r)
    obtain d ds where cs: "cs = d # ds" using pending_run_Nil [OF state three(2)] st(2) by (cases cs) auto
    define y where "y = (of_char d :: nat)"
    define t where "t = utf8_next st y"
    have y: "lo \<le> y" "y \<le> hi" and t: "utf8_run t ds" "utf8_state t" "utf8_pending t = (0x80, 0xBF) # []"
      using cont_byte [OF st(2) [unfolded cs] state three(2) [unfolded r]] by (metis y_def t_def)+
    obtain e es where ds: "ds = e # es" using pending_run_Nil [OF t(2,3)] t(1) by (cases ds) auto
    define z where "z = (of_char e :: nat)"
    obtain z: "0x80 \<le> z" "z \<le> 0xBF" and run: "utf8_run 0 es"
      using cont_byte [OF t(1) [unfolded ds] t(2,3)] end0 by (metis z_def)
    have yb: "0x80 \<le> y" "y \<le> 0xBF" "0xE0 \<le> b" "b \<le> 0xEF" "b = 0xE0 \<Longrightarrow> 0xA0 \<le> y" "b = 0xED \<Longrightarrow> y \<le> 0x9F"
      using three first y by (auto simp: r utf8_pending_def split: if_splits)
    define cp where "cp = ((b - 0xE0) * 64 + (y - 0x80)) * 64 + (z - 0x80)"
    have dig: "cp div 4096 = b - 0xE0" "cp div 64 mod 64 = y - 0x80" "cp mod 64 = z - 0x80"
      using base64_digits(3,4) [of "y - 0x80" "z - 0x80" 0] base64_digits(2) [of "z - 0x80" 0 0] yb z by (simp_all add: cp_def)
    have hi: "0x800 \<le> cp"
    proof (cases "b = 0xE0")
      case True
      then show ?thesis using yb(5) by (simp add: cp_def)
    next
      case False
      then have "1 \<le> b - 0xE0" using yb(3) by simp
      then show ?thesis by (simp add: cp_def)
    qed
    have up: "cp \<le> 0xFFFF" using yb z by (simp add: cp_def)
    have "\<not> (0xD800 \<le> cp \<and> cp \<le> 0xDFFF)"
    proof
      assume a: "0xD800 \<le> cp \<and> cp \<le> 0xDFFF"
      have d13: "b - 0xE0 = 13" using dig(1) a by auto
      then have "b = 0xED" by simp
      then have "y \<le> 0x9F" by (rule yb(6))
      then show False using a d13 yb(1) z by (simp add: cp_def)
    qed
    then have "scalar cp" using up by (simp add: scalar_def)
    moreover have "utf8_bytes cp = [c, d, e]"
    proof -
      have "0xE0 + (b - 0xE0) = b" "0x80 + (y - 0x80) = y" "0x80 + (z - 0x80) = z"
        using yb(1,3) z(1) by simp_all
      then show ?thesis using hi up b(2) by (simp add: utf8_bytes_def dig) (simp add: y_def z_def)
    qed
    ultimately show ?thesis using run cs ds by (intro exI [of _ cp] exI [of _ es]) simp
  next
    case (four r)
    obtain lo hi where r: "r = (lo, hi)" by (cases r)
    obtain d ds where cs: "cs = d # ds" using pending_run_Nil [OF state four(2)] st(2) by (cases cs) auto
    define y where "y = (of_char d :: nat)"
    define t where "t = utf8_next st y"
    have y: "lo \<le> y" "y \<le> hi" and t: "utf8_run t ds" "utf8_state t" "utf8_pending t = (0x80, 0xBF) # [(0x80, 0xBF)]"
      using cont_byte [OF st(2) [unfolded cs] state four(2) [unfolded r]] by (metis y_def t_def)+
    obtain e es where ds: "ds = e # es" using pending_run_Nil [OF t(2,3)] t(1) by (cases ds) auto
    define z where "z = (of_char e :: nat)"
    define v where "v = utf8_next t z"
    have z: "0x80 \<le> z" "z \<le> 0xBF" and v: "utf8_run v es" "utf8_state v" "utf8_pending v = (0x80, 0xBF) # []"
      using cont_byte [OF t(1) [unfolded ds] t(2,3)] by (metis z_def v_def)+
    obtain f fs where es: "es = f # fs" using pending_run_Nil [OF v(2,3)] v(1) by (cases es) auto
    define u where "u = (of_char f :: nat)"
    obtain u: "0x80 \<le> u" "u \<le> 0xBF" and run: "utf8_run 0 fs"
      using cont_byte [OF v(1) [unfolded es] v(2,3)] end0 by (metis u_def)
    have yb: "0x80 \<le> y" "y \<le> 0xBF" "0xF0 \<le> b" "b \<le> 0xF4" "b = 0xF0 \<Longrightarrow> 0x90 \<le> y" "b = 0xF4 \<Longrightarrow> y \<le> 0x8F"
      using four first y by (auto simp: r utf8_pending_def split: if_splits)
    define cp where "cp = (((b - 0xF0) * 64 + (y - 0x80)) * 64 + (z - 0x80)) * 64 + (u - 0x80)"
    have dig: "cp div 262144 = b - 0xF0" "cp div 4096 mod 64 = y - 0x80" "cp div 64 mod 64 = z - 0x80"
        "cp mod 64 = u - 0x80"
      using base64_digits(5-7) [of "y - 0x80" "z - 0x80" "u - 0x80"] base64_digits(2) [of "u - 0x80" 0 0] yb z u by (simp_all add: cp_def)
    have hi: "0x10000 \<le> cp"
    proof (cases "b = 0xF0")
      case True
      then show ?thesis using yb(5) by (simp add: cp_def)
    next
      case False
      then have "1 \<le> b - 0xF0" using yb(3) by simp
      then show ?thesis by (simp add: cp_def)
    qed
    have up: "cp \<le> 0x10FFFF"
    proof (cases "b = 0xF4")
      case True
      then show ?thesis using yb(6) z u by (simp add: cp_def)
    next
      case False
      then have "b - 0xF0 \<le> 3" using yb(4) by simp
      then show ?thesis using yb(2) z u by (simp add: cp_def)
    qed
    have "scalar cp" using hi up by (simp add: scalar_def)
    moreover have "utf8_bytes cp = [c, d, e, f]"
    proof -
      have "0xF0 + (b - 0xF0) = b" "0x80 + (y - 0x80) = y" "0x80 + (z - 0x80) = z" "0x80 + (u - 0x80) = u"
        using yb(1,3) z(1) u(1) by simp_all
      then show ?thesis using hi b(2) by (simp add: utf8_bytes_def dig) (simp add: y_def z_def u_def)
    qed
    ultimately show ?thesis using run cs ds es by (intro exI [of _ cp] exI [of _ fs]) simp
  qed
qed

text \<open>What both checks accept: the encodings of sequences of Unicode scalar values.\<close>

theorem utf8_ok_scalars: "utf8_ok s \<longleftrightarrow> (\<exists>cps. list_all scalar cps \<and> s = concat (map utf8_bytes cps))"
proof
  assume "utf8_ok s"
  then show "\<exists>cps. list_all scalar cps \<and> s = concat (map utf8_bytes cps)"
  proof (induction s rule: length_induct)
    case (1 s)
    show ?case
    proof (cases s)
      case Nil
      then show ?thesis by (intro exI [of _ "[]"]) simp
    next
      case (Cons c cs)
      with 1(2) obtain cp t where t: "scalar cp" "s = utf8_bytes cp @ t" "utf8_run 0 t"
        using utf8_split [of c cs] by (auto simp: utf8_ok_def)
      then have "length t < length s" by (simp add: utf8_bytes_def)
      with 1(1) t(3) obtain cps where "list_all scalar cps" "t = concat (map utf8_bytes cps)"
        by (auto simp: utf8_ok_def)
      with t(1,2) show ?thesis by (intro exI [of _ "cp # cps"]) simp
    qed
  qed
next
  assume "\<exists>cps. list_all scalar cps \<and> s = concat (map utf8_bytes cps)"
  then obtain cps where "list_all scalar cps" "s = concat (map utf8_bytes cps)" by blast
  then show "utf8_ok s"
  proof (induction cps arbitrary: s)
    case (Cons cp cps)
    then show ?case by (simp add: utf8_ok_append utf8_bytes_ok)
  qed simp
qed

end
