(* ===== verification/JsonSound.thy ===== *)
theory JsonSound
  imports JsonText JsonUnicode
begin

section \<open>What the parser accepts\<close>

text \<open>
  Whatever text \<open>parse\<close> accepts, the value it returns is one the library can write again: its
  strings are UTF-8 (escapes, surrogate pairs included, are turned into well-formed sequences),
  its integers have 64 bits, and the keys of its objects are in order and distinct.
\<close>

subsection \<open>Strings\<close>

lemma lx_get_buffer [simp]: "lx_token_buffer (lx_get l) = lx_token_buffer l"
  by (auto simp: lx_get_def Let_def split: option.splits list.splits)

text \<open>\<open>adds u\<close>: the buffer has grown by \<open>u\<close>.\<close>

definition adds :: "lexer \<Rightarrow> lexer \<Rightarrow> string \<Rightarrow> bool" where
  "adds l l' u \<longleftrightarrow> lx_token_buffer l' = lx_token_buffer l @ u"

lemma hex_digit_value_less: "hex_digit_value c = Some d \<Longrightarrow> d < 16"
  by (auto simp: hex_digit_value_def Let_def split: if_splits)

lemma get_codepoint_sound:
  assumes "get_codepoint l = (Some cp, l')"
  shows "cp < 0x10000 \<and> lx_token_buffer l' = lx_token_buffer l"
  using assms
  by (auto simp: get_codepoint_def Let_def bind_eq_Some_conv split: option.splits
      dest!: hex_digit_value_less)

lemma add_codepoint_sound: "scalar cp \<Longrightarrow> \<exists>u. adds l (add_codepoint cp l) u \<and> utf8_ok u"
  by (auto simp: adds_def add_codepoint_def utf8_bytes_ok)

lemma scan_low_surrogate_sound:
  assumes "scan_low_surrogate cp l = (True, l')" and "0xD800 \<le> cp" "cp \<le> 0xDBFF"
  shows "\<exists>u. adds l l' u \<and> utf8_ok u"
proof -
  obtain cp2 l2 where g: "get_codepoint (lx_get (lx_get l)) = (Some cp2, l2)" "0xDC00 \<le> cp2" "cp2 \<le> 0xDFFF"
    and l': "l' = add_codepoint (cp * 1024 + cp2 - 0x35FDC00) l2"
    using assms(1) by (auto simp: scan_low_surrogate_def lx_false_def Let_def split: if_splits prod.splits option.splits)
  have "0x10000 \<le> cp * 1024 + cp2 - 0x35FDC00" "cp * 1024 + cp2 - 0x35FDC00 \<le> 0x10FFFF"
    using assms(2,3) g(2,3) by simp_all
  then have "scalar (cp * 1024 + cp2 - 0x35FDC00)" by (simp add: scalar_def)
  with get_codepoint_sound [OF g(1)] add_codepoint_sound [of _ l2] l' show ?thesis
    by (auto simp: adds_def)
qed

lemma scan_unicode_sound:
  assumes "scan_unicode l = (True, l')"
  shows "\<exists>u. adds l l' u \<and> utf8_ok u"
proof -
  obtain cp l1 where g: "get_codepoint l = (Some cp, l1)"
    and c: "if 0xD800 \<le> cp \<and> cp \<le> 0xDBFF then scan_low_surrogate cp l1 = (True, l')
      else \<not> (0xDC00 \<le> cp \<and> cp \<le> 0xDFFF) \<and> l' = add_codepoint cp l1"
    using assms by (auto simp: scan_unicode_def lx_false_def split: if_splits prod.splits option.splits)
  note b = get_codepoint_sound [OF g]
  show ?thesis
  proof (cases "0xD800 \<le> cp \<and> cp \<le> 0xDBFF")
    case True
    with c b scan_low_surrogate_sound [of cp l1 l'] show ?thesis by (simp add: adds_def)
  next
    case False
    with c b have "scalar cp" "l' = add_codepoint cp l1" by (auto simp: scalar_def)
    with b add_codepoint_sound [of cp l1] show ?thesis by (simp add: adds_def)
  qed
qed

lemma scan_escape_sound:
  assumes "scan_escape l = (True, l')"
  shows "\<exists>u. adds l l' u \<and> utf8_ok u"
proof -
  consider c where "l' = lx_add c (lx_get l)" "(of_char c :: nat) < 0x80" | "scan_unicode (lx_get l) = (True, l')"
    using assms by (auto simp: scan_escape_def Let_def lx_false_def split: if_splits option.splits)
  then show ?thesis
  proof cases
    case 1
    then show ?thesis by (intro exI [of _ "[c]"]) (simp add: adds_def lx_add_def utf8_ok_ascii)
  next
    case 2
    from scan_unicode_sound [OF this] show ?thesis by (simp add: adds_def)
  qed
qed

lemma next_bytes_sound:
  assumes "next_bytes rs l = (True, l')" and "utf8_state st" and "utf8_pending st = rs"
  shows "\<exists>u. adds l l' u \<and> utf8_run st u"
  using assms
proof (induction rs l arbitrary: st rule: next_bytes.induct)
  case (1 l)
  then have "st = 0" using utf8_pending_empty [of st] by simp
  with 1 show ?case by (auto simp: adds_def)
next
  case (2 lo hi ranges l)
  obtain c where c: "lx_current (lx_get l) = Some c" "lo \<le> (of_char c :: nat)" "(of_char c :: nat) \<le> hi"
    and n: "next_bytes ranges (lx_add c (lx_get l)) = (True, l')"
    using 2(2) by (auto simp: Let_def lx_false_def split: option.splits if_splits)
  define st' where "st' = utf8_next st (of_char c)"
  have s: "utf8_pending st' = ranges" "utf8_state st'"
    using utf8_cont [of "of_char c" st lo hi ranges] 2(3,4) c by (auto simp: st'_def)
  obtain u where "adds (lx_add c (lx_get l)) l' u" "utf8_run st' u"
    using 2(1) [OF refl c(1)] c n s by auto
  moreover have "st' \<noteq> 1" using s(2) by (auto simp: utf8_state_def)
  ultimately show ?case
    by (intro exI [of _ "c # u"]) (simp add: adds_def lx_add_def st'_def)
qed

lemma scan_string_loop_sound:
  "scan_string_loop l = (TT_value_string, l') \<Longrightarrow> utf8_ok (lx_token_buffer l) \<Longrightarrow> utf8_ok (lx_token_buffer l')"
proof (induction l rule: scan_string_loop.induct)
  case (1 l)
  define l1 where "l1 = lx_get l"
  have b: "lx_token_buffer l1 = lx_token_buffer l" by (simp add: l1_def)
  note IH = "1.IH" [OF l1_def]
  have grow: "utf8_ok (lx_token_buffer m)" if "adds l1 m u" "utf8_ok u" for m u
    using that 1(5) b by (simp add: adds_def utf8_ok_append)
  obtain c where c: "lx_current l1 = Some c"
    using "1.prems"(1) by (subst (asm) scan_string_loop.simps)
      (auto simp: l1_def [symmetric] Let_def lx_error_def split: option.splits)
  define n where "n = (of_char c :: nat)"
  note loop = scan_string_loop.simps [of l, unfolded l1_def [symmetric] Let_def, unfolded c option.case]
  consider "c = CHR 0x22" "l' = l1"
    | m where "c \<noteq> CHR 0x22" "c = CHR 0x5C" "scan_escape l1 = (True, m)" "scan_string_loop m = (TT_value_string, l')"
    | "c \<noteq> CHR 0x22" "c \<noteq> CHR 0x5C" "\<not> n \<le> 0x1F" "n \<le> 0x7F" "scan_string_loop (lx_add c l1) = (TT_value_string, l')"
    | rs m where "c \<noteq> CHR 0x22" "c \<noteq> CHR 0x5C" "\<not> n \<le> 0x1F" "\<not> n \<le> 0x7F" "lead_ranges n = Some rs"
        "next_byte_in_range rs l1 = (True, m)" "scan_string_loop m = (TT_value_string, l')"
    using "1.prems"(1) unfolding loop n_def
    by (auto simp: lx_error_def split: if_splits option.splits prod.splits)
  then show ?case
  proof cases
    case 1
    with "1.prems"(2) b show ?thesis by simp
  next
    case (2 m)
    with scan_escape_sound [OF 2(3)] grow show ?thesis
      using IH(1) [OF c n_def 2(1,2) 2(3) [symmetric]] by auto
  next
    case 3
    then have "utf8_ok (lx_token_buffer (lx_add c l1))"
      using grow [of "lx_add c l1" "[c]"] utf8_ok_ascii [of c] by (simp add: adds_def lx_add_def n_def)
    with IH(2) [OF c n_def 3(1-4)] 3(5) show ?thesis by simp
  next
    case (4 rs m)
    have lead: "utf8_pending (utf8_next 0 n) = rs" "utf8_state (utf8_next 0 n)"
      using utf8_lead [of n] 4(5) by (auto simp: n_def)
    obtain u where "adds (lx_add c l1) m u" "utf8_run (utf8_next 0 n) u"
      using next_bytes_sound [OF _ lead(2,1)] 4(6) by (auto simp: next_byte_in_range_def lx_add_current_def c)
    moreover have "utf8_next 0 n \<noteq> 1" using lead(2) by (auto simp: utf8_state_def)
    ultimately have "adds l1 m (c # u)" "utf8_ok (c # u)"
      by (simp_all add: adds_def lx_add_def utf8_ok_def n_def)
    then have "utf8_ok (lx_token_buffer m)" by (rule grow)
    with IH(3) [OF c n_def 4(1-5) 4(6) [symmetric]] 4(7) show ?thesis by simp
  qed
qed

subsection \<open>Tokens\<close>

text \<open>What a token carries.\<close>

definition token_ok :: "(string \<Rightarrow> double option) \<Rightarrow> token_type \<Rightarrow> lexer \<Rightarrow> bool" where
  "token_ok strtod t l \<longleftrightarrow>
     (t = TT_value_string \<longrightarrow> utf8_ok (lx_token_buffer l)) \<and>
     (t = TT_value_unsigned \<longrightarrow> int (lx_value_unsigned l) \<le> ULLONG_MAX) \<and>
     (t = TT_value_integer \<longrightarrow> LLONG_MIN \<le> lx_value_integer l \<and> lx_value_integer l \<le> LLONG_MAX) \<and>
     (t = TT_value_float \<longrightarrow> (\<exists>s. lx_value_float l = strtod s))"

lemma scan_string_sound: "scan_string l = (t, l') \<Longrightarrow> token_ok strtod t l' \<or> t \<noteq> TT_value_string"
  using scan_string_loop_sound [of "lx_reset l" l']
  by (auto simp: scan_string_def token_ok_def lx_reset_def)

lemma scan_string_loop_type: "fst (scan_string_loop l) \<in> {TT_value_string, TT_parse_error}"
proof (induction l rule: scan_string_loop.induct)
  case (1 l)
  define l1 where "l1 = lx_get l"
  note IH = "1.IH" [OF l1_def]
  show ?case
  proof (cases "lx_current l1")
    case None
    then show ?thesis by (subst scan_string_loop.simps) (simp add: l1_def)
  next
    case (Some c)
    define n where "n = (of_char c :: nat)"
    note loop = scan_string_loop.simps [of l, unfolded l1_def [symmetric] Let_def, unfolded Some option.case]
    obtain a m where a: "scan_escape l1 = (a, m)" by (cases "scan_escape l1")
    show ?thesis
    proof (cases "lead_ranges n")
      case None
      then show ?thesis
        using IH(1,2) [OF Some n_def] a unfolding loop n_def [symmetric] by (auto simp: lx_error_def)
    next
      case (Some rs)
      obtain b m' where b: "next_byte_in_range rs l1 = (b, m')" by (cases "next_byte_in_range rs l1")
      have "c \<noteq> CHR 0x22 \<Longrightarrow> c \<noteq> CHR 0x5C \<Longrightarrow> \<not> n \<le> 0x1F \<Longrightarrow> \<not> n \<le> 0x7F \<Longrightarrow> b \<Longrightarrow>
          fst (scan_string_loop m') \<in> {TT_value_string, TT_parse_error}"
        by (rule IH(3) [OF \<open>lx_current l1 = Some c\<close> n_def _ _ _ _ Some b [symmetric]])
      then show ?thesis
        using IH(1,2) [OF \<open>lx_current l1 = Some c\<close> n_def] a b Some unfolding loop n_def [symmetric]
        by (auto simp: lx_error_def)
    qed
  qed
qed

lemma number_types: "fst (scan_number strtod l) \<in> {TT_parse_error, TT_value_unsigned, TT_value_integer, TT_value_float}"
  by (auto simp: scan_number_def scan_number_done_def Let_def split: prod.split)

lemma scan_number_sound:
  assumes "scan_number strtod l = (t, l')"
  shows "token_ok strtod t l'"
proof -
  define l1 where "l1 = lx_reset l"
  obtain t0 l0 where r: "scan_number_from (number_start (lx_current l1)) TT_value_unsigned (lx_add_current l1) = (t0, l0)"
    by (cases "scan_number_from (number_start (lx_current l1)) TT_value_unsigned (lx_add_current l1)")
  show ?thesis
  proof (cases "t0 = TT_parse_error")
    case True
    with assms r show ?thesis by (auto simp: scan_number_def l1_def [symmetric] token_ok_def)
  next
    case False
    define x where "x = number_text_value (lx_token_buffer (lx_unget l0))"
    have "0 \<le> ULLONG_MAX" by (simp add: ULLONG_MAX_def)
    moreover have "scan_number_done strtod t0 l0 = (t, l')"
      using assms r False by (simp add: scan_number_def l1_def [symmetric])
    ultimately show ?thesis
      by (cases "0 \<le> x") (auto simp: scan_number_done_def Let_def x_def [symmetric] token_ok_def split: if_splits)
  qed
qed

lemma scan_literal_type: "fst (scan_literal cs t l) \<in> {t, TT_parse_error}"
  by (induction cs t l rule: scan_literal.induct) (auto simp: Let_def lx_error_def)

lemma token_ok_other:
  "t \<notin> {TT_value_string, TT_value_unsigned, TT_value_integer, TT_value_float} \<Longrightarrow> token_ok strtod t l"
  by (simp add: token_ok_def)

lemma scan_token_sound: "token_ok strtod (fst (scan_token strtod l)) (snd (scan_token strtod l))"
proof -
  have lit: "token_ok strtod (fst (scan_literal cs t l)) (snd (scan_literal cs t l))"
    if "t \<in> {TT_literal_true, TT_literal_false, TT_literal_null}" for cs t
    using that scan_literal_type [of cs t l] by (intro token_ok_other) auto
  have str: "token_ok strtod (fst (scan_string l)) (snd (scan_string l))"
    using scan_string_sound [of l "fst (scan_string l)" "snd (scan_string l)" strtod]
      scan_string_loop_type [of "lx_reset l"] token_ok_other [of "fst (scan_string l)" strtod]
    by (auto simp: scan_string_def)
  have num: "token_ok strtod (fst (scan_number strtod l)) (snd (scan_number strtod l))"
    by (rule scan_number_sound) simp
  show ?thesis
  proof (cases "lx_current l")
    case None
    then show ?thesis by (simp add: scan_token_def token_ok_other)
  next
    case (Some c)
    show ?thesis
      unfolding scan_token_def Some option.case
      by (simp add: lit str num token_ok_other del: scan_literal.simps)
  qed
qed

lemma scan_sound: "scan strtod l = (t, l') \<Longrightarrow> token_ok strtod t l'"
  using scan_token_sound [of strtod "skip_whitespace _"] token_ok_other [of TT_parse_error]
  by (auto simp: scan_def lx_error_def split: prod.splits if_splits) (metis fst_conv snd_conv)+

subsection \<open>Values\<close>

definition frame_ok :: "(double \<Rightarrow> string \<times> int) \<Rightarrow> (string \<Rightarrow> double option) \<Rightarrow> open_value \<Rightarrow> bool" where
  "frame_ok grisu2 strtod fr \<longleftrightarrow>
     (case fr of
        Open_array xs \<Rightarrow> json_ok grisu2 strtod (JArray xs)
      | Open_object m e \<Rightarrow> json_ok grisu2 strtod (JObject m) \<and> (\<forall>k. e = Some k \<longrightarrow> utf8_ok k))"

definition dom_ok :: "(double \<Rightarrow> string \<times> int) \<Rightarrow> (string \<Rightarrow> double option) \<Rightarrow> dom_parser \<Rightarrow> bool" where
  "dom_ok grisu2 strtod d \<longleftrightarrow>
     json_ok grisu2 strtod (dp_root d) \<and> list_all (frame_ok grisu2 strtod) (dp_ref_stack d)"

lemma json_ok_put:
  assumes "json_ok grisu2 strtod (JObject m)" and "utf8_ok k" and "json_ok grisu2 strtod v"
  shows "json_ok grisu2 strtod (JObject (map_put k v m))"
proof -
  have "set (map_put k v m) \<subseteq> insert (k, v) (set m)"
    by (induction m) (auto split: if_splits)
  with assms show ?thesis by (auto simp: sorted_keys_put list_all_iff)
qed

lemma json_ok_emplace:
  "json_ok grisu2 strtod (JObject m) \<Longrightarrow> utf8_ok k \<Longrightarrow> json_ok grisu2 strtod v \<Longrightarrow>
   json_ok grisu2 strtod (JObject (map_emplace k v m))"
  using json_ok_put [of grisu2 strtod m k v] by (simp add: map_emplace_def)

lemma handle_value_ok:
  "dom_ok grisu2 strtod d \<Longrightarrow> json_ok grisu2 strtod v \<Longrightarrow> dom_ok grisu2 strtod (handle_value v d)"
  using json_ok_put [of grisu2 strtod _ _ v]
  by (auto simp: handle_value_def dom_ok_def frame_ok_def split: list.split open_value.split option.split
      simp del: json_ok.simps(5))

lemma containers_ok:
  assumes "dom_ok grisu2 strtod d"
  shows "dom_ok grisu2 strtod (start_object d)" "dom_ok grisu2 strtod (start_array d)"
    "utf8_ok k \<Longrightarrow> dom_ok grisu2 strtod (object_key k d)" "dom_ok grisu2 strtod (end_container d)"
proof -
  show "dom_ok grisu2 strtod (start_object d)" "dom_ok grisu2 strtod (start_array d)"
    using assms by (auto simp: dom_ok_def start_object_def start_array_def frame_ok_def sorted_keys_def)
  show "dom_ok grisu2 strtod (object_key k d)" if "utf8_ok k"
    using assms that json_ok_emplace [of grisu2 strtod _ k JNull]
    by (auto simp: object_key_def dom_ok_def frame_ok_def split: list.split open_value.split
        simp del: json_ok.simps(5))
  show "dom_ok grisu2 strtod (end_container d)"
  proof (cases "dp_ref_stack d")
    case Nil
    with assms show ?thesis by (simp add: end_container_def)
  next
    case (Cons fr st)
    then have "dom_ok grisu2 strtod (d\<lparr>dp_ref_stack := st\<rparr>)" "frame_ok grisu2 strtod fr"
      using assms by (simp_all add: dom_ok_def)
    then show ?thesis
      using Cons handle_value_ok [of grisu2 strtod "d\<lparr>dp_ref_stack := st\<rparr>"]
      by (cases fr) (simp_all add: end_container_def frame_ok_def del: json_ok.simps)
  qed
qed

text \<open>The invariant of the parser: the token read and everything built so far.\<close>

definition parser_ok :: "(double \<Rightarrow> string \<times> int) \<Rightarrow> (string \<Rightarrow> double option) \<Rightarrow> parser \<Rightarrow> bool" where
  "parser_ok grisu2 strtod p \<longleftrightarrow>
     token_ok strtod (ps_last_token p) (ps_lexer p) \<and> dom_ok grisu2 strtod (ps_dom p)"

lemma parser_ok_get_token: "dom_ok grisu2 strtod (ps_dom p) \<Longrightarrow> parser_ok grisu2 strtod (get_token strtod p)"
  by (auto simp: parser_ok_def get_token_def split: prod.split dest: scan_sound)

lemma parser_ok_states [simp]: "parser_ok grisu2 strtod (p\<lparr>ps_states := ss\<rparr>) = parser_ok grisu2 strtod p"
  by (simp add: parser_ok_def)

lemma parser_ok_dom_do:
  "parser_ok grisu2 strtod p \<Longrightarrow> dom_ok grisu2 strtod (f (ps_dom p)) \<Longrightarrow> parser_ok grisu2 strtod (dom_do f p)"
  by (simp add: parser_ok_def)

lemma parser_okD: "parser_ok grisu2 strtod p \<Longrightarrow> dom_ok grisu2 strtod (ps_dom p)"
  by (simp add: parser_ok_def)

lemma parse_key_ok:
  assumes "parser_ok grisu2 strtod p" and "parse_key strtod p = Inr q"
  shows "parser_ok grisu2 strtod q"
proof -
  have "utf8_ok (lx_token_buffer (ps_lexer p))"
    using assms by (auto simp: parse_key_def parser_ok_def token_ok_def split: if_splits)
  with assms containers_ok(3) [OF parser_okD [OF assms(1)]] show ?thesis
    by (auto simp: parse_key_def Let_def split: if_splits intro: parser_ok_get_token)
qed

lemma begin_object_ok:
  assumes "parser_ok grisu2 strtod p" and "begin_object strtod p = Inr (c, q)"
  shows "parser_ok grisu2 strtod q"
proof -
  let ?r = "get_token strtod (dom_do start_object p)"
  have r: "parser_ok grisu2 strtod ?r"
    using containers_ok(1) [OF parser_okD [OF assms(1)]] by (intro parser_ok_get_token) simp
  show ?thesis
  proof (cases "ps_last_token ?r = TT_end_object")
    case True
    with assms(2) have "q = dom_do end_container ?r" by (simp add: begin_object_def)
    with parser_ok_dom_do [OF r] containers_ok(4) [OF parser_okD [OF r]] show ?thesis by simp
  next
    case False
    then obtain s where s: "parse_key strtod ?r = Inr s"
      and q: "q = get_token strtod (s\<lparr>ps_states := False # ps_states s\<rparr>)"
      using assms(2) by (auto simp: begin_object_def res_bind_eq_Inr)
    from parser_okD [OF parse_key_ok [OF r s]] show ?thesis unfolding q by (intro parser_ok_get_token) simp
  qed
qed

lemma begin_array_ok:
  assumes "parser_ok grisu2 strtod p" and "begin_array strtod p = Inr (c, q)"
  shows "parser_ok grisu2 strtod q"
proof -
  let ?r = "get_token strtod (dom_do start_array p)"
  have r: "parser_ok grisu2 strtod ?r"
    using containers_ok(2) [OF parser_okD [OF assms(1)]] by (intro parser_ok_get_token) simp
  with assms(2) parser_ok_dom_do [OF r] containers_ok(4) [OF parser_okD [OF r]] show ?thesis
    by (auto simp: begin_array_def Let_def split: if_splits)
qed

lemma put_value_ok:
  "parser_ok grisu2 strtod p \<Longrightarrow> json_ok grisu2 strtod v \<Longrightarrow> put_value v p = Inr (c, q) \<Longrightarrow> parser_ok grisu2 strtod q"
  by (auto simp: put_value_def intro: parser_ok_dom_do handle_value_ok parser_okD)

lemma parse_value_ok:
  assumes floats: "\<And>s x. strtod s = Some x \<Longrightarrow> float_ok grisu2 strtod x"
    and "parser_ok grisu2 strtod p" and "parse_value strtod p = Inr (c, q)"
  shows "parser_ok grisu2 strtod q"
proof (cases "ps_last_token p")
  case TT_begin_object
  with assms(2,3) begin_object_ok show ?thesis by (simp add: parse_value_def)
next
  case TT_begin_array
  with assms(2,3) begin_array_ok show ?thesis by (simp add: parse_value_def)
next
  case TT_value_float
  then obtain s x where "lx_value_float (ps_lexer p) = Some x" "strtod s = Some x"
    using assms(2,3) by (auto simp: parse_value_def parser_ok_def token_ok_def split: option.splits)
  with assms(2,3) TT_value_float floats put_value_ok [OF assms(2), of "JFloat x"] show ?thesis
    by (simp add: parse_value_def)
next
  case TT_value_integer
  then have "json_ok grisu2 strtod (JInt (lx_value_integer (ps_lexer p)))"
    using assms(2) by (simp add: parser_ok_def token_ok_def LLONG_MAX_def ULLONG_MAX_def)
  from put_value_ok [OF assms(2) this] assms(3) TT_value_integer show ?thesis by (simp add: parse_value_def)
next
  case TT_value_unsigned
  then have "json_ok grisu2 strtod (JInt (int (lx_value_unsigned (ps_lexer p))))"
    using assms(2) by (simp add: parser_ok_def token_ok_def LLONG_MIN_def)
  from put_value_ok [OF assms(2) this] assms(3) TT_value_unsigned show ?thesis by (simp add: parse_value_def)
next
  case TT_value_string
  then have "json_ok grisu2 strtod (JString (lx_token_buffer (ps_lexer p)))"
    using assms(2) by (simp add: parser_ok_def token_ok_def)
  from put_value_ok [OF assms(2) this] assms(3) TT_value_string show ?thesis by (simp add: parse_value_def)
next
  case TT_literal_true
  with assms(3) put_value_ok [OF assms(2), of "JBool True"] show ?thesis by (simp add: parse_value_def)
next
  case TT_literal_false
  with assms(3) put_value_ok [OF assms(2), of "JBool False"] show ?thesis by (simp add: parse_value_def)
next
  case TT_literal_null
  with assms(3) put_value_ok [OF assms(2), of JNull] show ?thesis by (simp add: parse_value_def)
qed (use assms(3) in \<open>simp_all add: parse_value_def split: if_splits\<close>)

lemma after_value_ok:
  assumes "parser_ok grisu2 strtod p" and "after_value strtod p = Inr (c, q)"
  shows "parser_ok grisu2 strtod q"
proof -
  let ?r = "get_token strtod p"
  have r: "parser_ok grisu2 strtod ?r" by (rule parser_ok_get_token [OF parser_okD [OF assms(1)]])
  have close: "parser_ok grisu2 strtod q" if "close_container ?r = Inr (c, q)"
    using that parser_ok_dom_do [OF r, of end_container] containers_ok(4) [OF parser_okD [OF r]]
    by (auto simp: close_container_def)
  have key: "parser_ok grisu2 strtod (get_token strtod s)" if "parse_key strtod (get_token strtod ?r) = Inr s" for s
    by (rule parser_ok_get_token [OF parser_okD [OF parse_key_ok [OF parser_ok_get_token [OF parser_okD [OF r]] that]]])
  show ?thesis
    using assms(2) close key parser_ok_get_token [OF parser_okD [OF r]]
    by (auto simp: after_value_def Let_def res_bind_eq_Inr split: if_splits)
qed

lemma sax_loop_ok:
  "sax_loop strtod start p = Inr q \<Longrightarrow> parser_ok grisu2 strtod p \<Longrightarrow>
   (\<And>s x. strtod s = Some x \<Longrightarrow> float_ok grisu2 strtod x) \<Longrightarrow> parser_ok grisu2 strtod q"
proof (induction strtod start p rule: sax_loop.induct)
  case (1 strtod start p)
  obtain c p1 where p1: "(if start then parse_value strtod p else Inr (False, p)) = Inr (c, p1)"
    using "1.prems"(1) by (auto simp: sax_loop.simps [of strtod start p] split: sum.splits)
  have ok1: "parser_ok grisu2 strtod p1"
    using p1 "1.prems"(2,3) parse_value_ok [of strtod grisu2 p c p1] by (auto split: if_splits)
  have step: "sax_loop strtod start p =
      (if c then sax_loop strtod True p1 else if ps_states p1 = [] then Inr p1
       else case after_value strtod p1 of Inl e \<Rightarrow> Inl e | Inr (n, p2) \<Rightarrow> sax_loop strtod n p2)"
    using p1 by (simp add: sax_loop.simps [of strtod start p])
  show ?case
  proof (cases c)
    case True
    with "1.IH"(1) [OF p1 refl] "1.prems" ok1 step show ?thesis by auto
  next
    case False
    show ?thesis
    proof (cases "ps_states p1 = []")
      case True
      with False step "1.prems"(1) ok1 show ?thesis by simp
    next
      case ns: False
      then obtain n p2 where p2: "after_value strtod p1 = Inr (n, p2)" "sax_loop strtod n p2 = Inr q"
        using False step "1.prems"(1) by (auto split: sum.splits)
      from "1.IH"(2) [OF p1 refl False ns p2(1) refl p2(2) after_value_ok [OF ok1 p2(1)]] "1.prems"(3)
      show ?thesis by blast
    qed
  qed
qed

theorem json_parse_ok:
  assumes "json_parse strtod s = Inr j" and "\<And>t x. strtod t = Some x \<Longrightarrow> float_ok grisu2 strtod x"
  shows "json_ok grisu2 strtod j"
proof -
  obtain q where q: "sax_loop strtod True (parser_init strtod s) = Inr q" "j = dp_root (ps_dom q)"
    using assms(1) by (auto simp: json_parse_def res_bind_eq_Inr Let_def split: if_splits)
  have "parser_ok grisu2 strtod (parser_init strtod s)"
    unfolding parser_init_def by (intro parser_ok_get_token) (simp add: dom_ok_def dom_init_def)
  from sax_loop_ok [OF q(1) this assms(2)] show ?thesis by (simp add: parser_ok_def dom_ok_def q(2))
qed

end
