(* ===== verification/JsonCodec.thy ===== *)
theory JsonCodec
  imports JsonSound
begin

section \<open>The JSON library as the programs meet it\<close>

text \<open>
  The interface between the programs and the library is a parser, a printer and the values that
  survive them (locale \<open>json_library\<close>); one that prints a value on one line (\<open>json_lines\<close>) carries
  events. Both are interpreted on the model of the library: \<open>dump(2)\<close> writes the result files,
  \<open>dump()\<close> everything that is sent. Then the errors of \<open>dump\<close> and the length of its text.
\<close>

text \<open>\<open>j.dump(indent)\<close> where it does not throw.\<close>

definition dump_text :: "(double \<Rightarrow> string \<times> int) \<Rightarrow> int \<Rightarrow> json_printer" where
  "dump_text grisu2 indent j = (case json_dump grisu2 indent j of Inr t \<Rightarrow> t | Inl e \<Rightarrow> [])"

locale json_library =
  fixes parse :: json_parser and dump :: json_printer and ok :: "json \<Rightarrow> bool"
  assumes reads_back: "ok j \<Longrightarrow> \<forall>x \<in> set w. is_json_ws x \<Longrightarrow> parse (dump j @ w) = Inr j"
begin

lemma reads_back_exactly: "ok j \<Longrightarrow> parse (dump j) = Inr j"
  using reads_back [of j "[]"] by simp

lemma dump_inject: "ok i \<Longrightarrow> ok j \<Longrightarrow> dump i = dump j \<Longrightarrow> i = j"
  by (metis reads_back_exactly sum.inject(2))

text \<open>A value of the program, written by its \<open>to_json\<close> and read by its \<open>from_json\<close>.\<close>

lemma decode_dump:
  assumes "json_codec enc dec valid" and "valid x" and "ok (enc x)" and "\<forall>x \<in> set w. is_json_ws x"
  shows "decode_with parse dec (dump (enc x) @ w) = Inr x"
  using assms reads_back by (simp add: decode_with_def json_codec.dec_enc)

end

locale json_lines = json_library +
  assumes one_line: "ok j \<Longrightarrow> dump j \<noteq> [] \<and> (\<forall>c \<in> set (dump j). 0x20 \<le> (of_char c :: nat))"
begin

lemma line_of_value:
  assumes "ok j"
  shows "parse (dump j) = Inr j \<and> dump j \<noteq> [] \<and> CHR 0x0A \<notin> set (dump j) \<and> last (dump j) \<noteq> CHR 0x0D"
proof -
  have "\<forall>c \<in> set (dump j). 0x20 \<le> (of_char c :: nat)" and ne: "dump j \<noteq> []"
    using one_line [OF assms] by auto
  then have "c \<in> set (dump j) \<Longrightarrow> c \<noteq> CHR 0x0A \<and> c \<noteq> CHR 0x0D" for c by fastforce
  with ne show ?thesis using reads_back_exactly [OF assms] last_in_set [OF ne] by blast
qed

end

subsection \<open>One line\<close>

definition printable :: "string \<Rightarrow> bool" where
  "printable s \<longleftrightarrow> (\<forall>c \<in> set s. 0x20 \<le> (of_char c :: nat))"

lemma printable_simps [simp]:
  "printable []"
  "printable (c # s) \<longleftrightarrow> 0x20 \<le> (of_char c :: nat) \<and> printable s"
  "printable (s @ t) \<longleftrightarrow> printable s \<and> printable t"
  by (auto simp: printable_def)

lemma printable_digit: "is_digit c \<Longrightarrow> 0x20 \<le> (of_char c :: nat)"
  by (simp add: is_digit_def)

lemma num_run_printable: "num_run st t s = Some r \<Longrightarrow> printable s"
proof (induction st t s rule: num_run.induct)
  case (2 st t c cs)
  then obtain st' where "number_step_at st (Some c) = NS_goto st'" by (auto split: number_step.splits)
  then have "is_digit c \<or> c = CHR ''.'' \<or> is_e c \<or> c = CHR ''-'' \<or> c = CHR ''+''"
    by (cases st) (auto simp: number_step_at_def is_integer_part_def is_digit_def split: if_splits)
  with 2 show ?case by (auto simp: is_e_def printable_digit split: number_step.splits)
qed simp

lemma number_text_printable: "number_text t s \<Longrightarrow> s \<noteq> [] \<and> printable s"
  by (auto simp: number_text_def printable_digit num_run_printable split: list.splits option.splits)

lemma hex_digit_printable: "d < 16 \<Longrightarrow> 0x20 \<le> (of_char (hex_digit_lower d) :: nat)"
proof -
  assume "d < 16"
  then have "hex_digit_lower d \<in> set ''0123456789abcdef''"
    unfolding hex_digit_lower_def by (intro nth_mem) simp
  then show ?thesis by auto
qed

lemma escape_char_printable: "printable (escape_char c)"
  by (simp add: escape_char_def escape_codepoint_def escape_u_def hex_digit_printable)

lemma escaped_printable: "dump_escaped False s = Inr t \<Longrightarrow> printable t"
proof -
  assume "dump_escaped False s = Inr t"
  then have "t = concat (map escape_char s)" using dump_escaped_valid [of s] by (auto split: if_splits)
  then show ?thesis by (induction s arbitrary: t) (simp_all add: escape_char_printable)
qed

lemma compact_members:
  assumes "dump_members False False n (map (\<lambda>(k, v). (k, f v)) ms) = Inr body"
    and "\<And>v t. v \<in> snd ` set ms \<Longrightarrow> f v = Inr t \<Longrightarrow> printable t"
  shows "printable body"
  using assms
proof (induction ms arbitrary: body)
  case (Cons m ms)
  obtain k v where "m = (k, v)" by (cases m)
  with Cons show ?case by (fastforce simp: res_bind_eq_Inr dest: escaped_printable)
qed simp

lemma compact_elements:
  assumes "dump_elements False n (map f vs) = Inr body"
    and "\<And>v t. v \<in> set vs \<Longrightarrow> f v = Inr t \<Longrightarrow> printable t"
  shows "printable body"
  using assms
proof (induction vs arbitrary: body)
  case (Cons v vs)
  then show ?case by (fastforce simp: res_bind_eq_Inr)
qed simp

lemma compact_printable:
  "json_ok grisu2 strtod j \<Longrightarrow> serializer_dump grisu2 False ascii step cur j = Inr t \<Longrightarrow> \<not> ascii \<Longrightarrow>
   t \<noteq> [] \<and> printable t"
proof (induction j arbitrary: cur t)
  case (JInt i)
  then show ?case
    using number_text_printable [OF number_text_int [of i]] by (auto simp: dump_integer_show)
next
  case (JFloat x)
  then show ?case using number_text_printable [OF number_text_float [of grisu2 strtod x]] by auto
next
  case (JString s)
  then show ?case using escaped_printable by (auto simp: res_bind_eq_Inr)
next
  case (JArray xs)
  then have "v \<in> set xs \<Longrightarrow> serializer_dump grisu2 False False step cur v = Inr u \<Longrightarrow> printable u" for v u
    by (auto simp: list_all_iff)
  with JArray.prems show ?case
    using compact_elements [of "cur + step" "serializer_dump grisu2 False False step cur" xs]
    by (auto simp: res_bind_eq_Inr bracket_def split: if_splits)
next
  case (JObject m)
  then have "v \<in> snd ` set m \<Longrightarrow> serializer_dump grisu2 False False step cur v = Inr u \<Longrightarrow> printable u" for v u
    by (fastforce simp: list_all_iff)
  with JObject.prems show ?case
    using compact_members [of "cur + step" "serializer_dump grisu2 False False step cur" m]
    by (auto simp: res_bind_eq_Inr bracket_def split: if_splits)
qed (auto split: if_splits)

lemma dump_text_ok:
  assumes "json_ok grisu2 strtod j" and "\<forall>x \<in> set w. is_json_ws x"
  shows "json_parse strtod (dump_text grisu2 indent j @ w) = Inr j"
  using json_parse_dump [OF assms, of indent] by (auto simp: dump_text_def)

interpretation library: json_library "json_parse strtod" "dump_text grisu2 indent" "json_ok grisu2 strtod"
  by unfold_locales (rule dump_text_ok)

interpretation lines: json_lines "json_parse strtod" "dump_text grisu2 (- 1)" "json_ok grisu2 strtod"
proof unfold_locales
  fix j assume j: "json_ok grisu2 strtod j"
  obtain t where t: "serializer_dump grisu2 False False 0 0 j = Inr t" using serializer_total [OF j] by blast
  with compact_printable [OF j t] show "dump_text grisu2 (- 1) j \<noteq> [] \<and>
      (\<forall>c \<in> set (dump_text grisu2 (- 1) j). 0x20 \<le> (of_char c :: nat))"
    by (simp add: dump_text_def json_dump_def printable_def)
qed

subsection \<open>When dump throws\<close>

text \<open>The strings of a value, keys included.\<close>

fun json_texts :: "json \<Rightarrow> string list" where
  "json_texts (JString s) = [s]"
| "json_texts (JArray xs) = concat (map json_texts xs)"
| "json_texts (JObject m) = concat (map (\<lambda>(k, v). k # json_texts v) m)"
| "json_texts j = []"

lemma dump_escaped_Inr: "(\<exists>t. dump_escaped False s = Inr t) \<longleftrightarrow> utf8_ok s"
  using dump_escaped_valid [of s] by (auto split: if_splits)

lemma dump_elements_Inr:
  "(\<exists>t. dump_elements pretty n vs = Inr t) \<longleftrightarrow> (\<forall>v \<in> set vs. \<exists>t. v = Inr t)"
  by (induction vs) (auto simp: res_bind_eq_Inr)

lemma dump_members_Inr:
  "(\<exists>t. dump_members False pretty n m = Inr t) \<longleftrightarrow> (\<forall>(k, v) \<in> set m. utf8_ok k \<and> (\<exists>t. v = Inr t))"
proof (induction m)
  case (Cons p m)
  obtain k v where p: "p = (k, v)" by (cases p)
  have "(\<exists>t. dump_members False pretty n (p # m) = Inr t) \<longleftrightarrow>
      (\<exists>t. dump_escaped False k = Inr t) \<and> (\<exists>t. v = Inr t) \<and> (\<exists>t. dump_members False pretty n m = Inr t)"
    by (auto simp: p res_bind_eq_Inr)
  then show ?case by (simp add: Cons.IH dump_escaped_Inr p)
qed simp

lemma serializer_Inr:
  "(\<exists>t. serializer_dump grisu2 pretty False step cur j = Inr t) \<longleftrightarrow> list_all utf8_ok (json_texts j)"
proof (induction j arbitrary: cur)
  case (JString s)
  then show ?case using dump_escaped_Inr [of s] by (auto simp: res_bind_eq_Inr)
next
  case (JArray xs)
  have "(\<exists>t. serializer_dump grisu2 pretty False step cur (JArray xs) = Inr t) \<longleftrightarrow>
      (\<exists>t. dump_elements pretty (cur + step) (map (serializer_dump grisu2 pretty False step
              (if pretty then cur + step else cur)) xs) = Inr t)"
    by (auto simp: res_bind_eq_Inr)
  then show ?case using JArray by (auto simp: dump_elements_Inr list_all_iff)
next
  case (JObject m)
  have "(\<exists>t. serializer_dump grisu2 pretty False step cur (JObject m) = Inr t) \<longleftrightarrow>
      (\<exists>t. dump_members False pretty (cur + step) (map (\<lambda>(k, v). (k, serializer_dump grisu2 pretty False step
              (if pretty then cur + step else cur) v)) m) = Inr t)"
    by (auto simp: res_bind_eq_Inr)
  also have "\<dots> \<longleftrightarrow> (\<forall>(k, v) \<in> set m. utf8_ok k \<and>
      (\<exists>t. serializer_dump grisu2 pretty False step (if pretty then cur + step else cur) v = Inr t))"
    by (auto simp: dump_members_Inr)
  also have "\<dots> \<longleftrightarrow> (\<forall>(k, v) \<in> set m. utf8_ok k \<and> list_all utf8_ok (json_texts v))"
    using JObject by fastforce
  finally show ?case by (auto simp: list_all_iff)
qed simp_all

lemma json_dump_Inr: "(\<exists>t. json_dump grisu2 indent j = Inr t) \<longleftrightarrow> list_all utf8_ok (json_texts j)"
  by (simp add: json_dump_def serializer_Inr)

text \<open>What it throws.\<close>

definition utf8_error :: "exn \<Rightarrow> bool" where
  "utf8_error e \<longleftrightarrow> (\<exists>m. e = Json_type_error (json_err ''type_error'' 316 @ m))"

lemma dump_escaped_error: "dump_escaped False s = Inl e \<Longrightarrow> utf8_error e"
proof -
  have "dump_escaped_from a s i st cp out bs = Inl e \<Longrightarrow> utf8_error e" for a i st cp out bs
    by (induction a s i st cp out bs rule: dump_escaped_from.induct)
      (auto simp: utf8_error_def Let_def split: if_splits)
  then show "dump_escaped False s = Inl e \<Longrightarrow> utf8_error e" by (simp add: dump_escaped_def)
qed

lemma dump_elements_error: "dump_elements pretty n vs = Inl e \<Longrightarrow> Inl e \<in> set vs"
  by (induction vs) (auto simp: res_bind_eq_Inl)

lemma dump_members_error:
  "dump_members False pretty n m = Inl e \<Longrightarrow> utf8_error e \<or> Inl e \<in> snd ` set m"
proof (induction m)
  case (Cons p m)
  then show ?case by (cases p) (auto simp: res_bind_eq_Inl dest: dump_escaped_error)
qed simp

lemma serializer_error: "serializer_dump grisu2 pretty False step cur j = Inl e \<Longrightarrow> utf8_error e"
proof (induction j arbitrary: cur)
  case (JString s)
  then show ?case by (auto simp: res_bind_eq_Inl dest: dump_escaped_error)
next
  case (JArray xs)
  then show ?case by (fastforce simp: res_bind_eq_Inl dest: dump_elements_error split: if_splits)
next
  case (JObject m)
  then show ?case by (fastforce simp: res_bind_eq_Inl dest!: dump_members_error split: if_splits)
qed simp_all

text \<open>
  C11: \<open>dump\<close> throws exactly on a value with a string or key that is not the UTF-8 encoding of Unicode
  scalar values, and then \<open>type_error.316\<close>.
\<close>

theorem dump_throws_iff:
  "case json_dump grisu2 indent j of
     Inr t \<Rightarrow> list_all (\<lambda>s. \<exists>cps. list_all scalar cps \<and> s = concat (map utf8_bytes cps)) (json_texts j)
   | Inl e \<Rightarrow> \<not> list_all (\<lambda>s. \<exists>cps. list_all scalar cps \<and> s = concat (map utf8_bytes cps)) (json_texts j) \<and>
       (\<exists>m. e = Json_type_error (json_err ''type_error'' 316 @ m))"
proof (cases "json_dump grisu2 indent j")
  case (Inl e)
  then have "utf8_error e" using serializer_error by (auto simp: json_dump_def split: if_splits)
  moreover have "\<not> list_all utf8_ok (json_texts j)" using Inl json_dump_Inr [of grisu2 indent j] by simp
  ultimately show ?thesis using Inl by (simp add: utf8_error_def utf8_ok_scalars [symmetric])
next
  case (Inr t)
  then show ?thesis using json_dump_Inr [of grisu2 indent j] by (simp add: utf8_ok_scalars [symmetric])
qed

subsection \<open>The length of a text\<close>

lemma length_show_nat_power: "n < 10 ^ Suc k \<Longrightarrow> length (show_nat n) \<le> Suc k"
proof (induction k arbitrary: n)
  case 0
  then show ?case by (simp add: show_nat_one)
next
  case (Suc k)
  show ?case
  proof (cases "n < 10")
    case False
    have "n div 10 < 10 ^ Suc k" using Suc.prems by (simp add: less_mult_imp_div_less)
    with Suc.IH False show ?thesis by (simp add: show_nat_two)
  qed (simp add: show_nat_one)
qed

lemma length_show_int:
  assumes "LLONG_MIN \<le> i" "i \<le> ULLONG_MAX"
  shows "length (show_int i) \<le> 20"
proof -
  have "nat \<bar>i\<bar> < 10 ^ Suc 19"
    using assms by (simp add: LLONG_MIN_def ULLONG_MAX_def)
  moreover have "i < 0 \<Longrightarrow> nat \<bar>i\<bar> < 10 ^ Suc 18"
    using assms by (simp add: LLONG_MIN_def)
  ultimately show ?thesis
    using length_show_nat_power [of "nat \<bar>i\<bar>" 19] length_show_nat_power [of "nat \<bar>i\<bar>" 18]
    by (auto simp: show_int_def)
qed

lemma length_append_exponent: "length (append_exponent e) \<le> 4"
  by (simp add: append_exponent_def Let_def)

lemma length_format_buffer:
  "length buf \<le> 17 \<Longrightarrow> length (format_buffer buf e (- 4) 15) \<le> 23"
  using length_append_exponent [of "int (length buf) + e - 1"]
  by (auto simp: format_buffer_def Let_def)

lemma length_to_chars:
  assumes "float_ok grisu2 strtod x"
  shows "length (to_chars grisu2 x) \<le> 24"
proof (cases "x = 0")
  case False
  obtain buf e where g: "grisu2 \<bar>x\<bar> = (buf, e)" by (cases "grisu2 \<bar>x\<bar>")
  with assms False have "length buf \<le> 17" by (simp add: float_ok_def digits_ok_def)
  from length_format_buffer [OF this, of e] g False show ?thesis
    by (cases "x < 0") (simp_all add: to_chars_def Let_def abs_if)
qed (simp add: to_chars_def)

fun text_bound :: "json \<Rightarrow> nat" where
  "text_bound (JInt i) = 20"
| "text_bound (JFloat x) = 24"
| "text_bound (JString s) = 2 + 6 * length s"
| "text_bound (JArray xs) = 2 + sum_list (map (\<lambda>v. Suc (text_bound v)) xs)"
| "text_bound (JObject m) = 2 + sum_list (map (\<lambda>(k, v). 4 + 6 * length k + text_bound v) m)"
| "text_bound j = 5"

lemma length_escaped: "dump_escaped False s = Inr t \<Longrightarrow> length t \<le> 6 * length s"
proof -
  assume "dump_escaped False s = Inr t"
  then have "t = concat (map escape_char s)" using dump_escaped_valid [of s] by (auto split: if_splits)
  moreover have "length (escape_char c) \<le> 6" for c
    using of_char_lt [of c] by (auto simp: escape_char_def escape_codepoint_def escape_u_def)
  then have "length (concat (map escape_char s)) \<le> 6 * length s"
    by (induction s) (simp_all add: add_mono)
  ultimately show ?thesis by simp
qed

lemma compact_length:
  "json_ok grisu2 strtod j \<Longrightarrow> serializer_dump grisu2 False False step cur j = Inr t \<Longrightarrow> length t \<le> text_bound j"
proof (induction j arbitrary: cur t)
  case (JInt i)
  then show ?case using length_show_int by (auto simp: dump_integer_show)
next
  case (JFloat x)
  then show ?case using length_to_chars by auto
next
  case (JString s)
  then show ?case using length_escaped by (auto simp: res_bind_eq_Inr)
next
  case (JArray xs)
  have *: "dump_elements False n (map (serializer_dump grisu2 False False step cur) vs) = Inr body \<Longrightarrow>
      set vs \<subseteq> set xs \<Longrightarrow> length body \<le> sum_list (map (\<lambda>v. Suc (text_bound v)) vs)" for n vs body
  proof (induction vs arbitrary: body)
    case (Cons v vs)
    then show ?case using JArray.IH [of v cur] JArray.prems(1) by (fastforce simp: res_bind_eq_Inr list_all_iff)
  qed simp
  show ?case using JArray.prems * [of "cur + step" xs]
    by (auto simp: res_bind_eq_Inr bracket_def split: if_splits)
next
  case (JObject m)
  have *: "dump_members False False n (map (\<lambda>(k, v). (k, serializer_dump grisu2 False False step cur v)) ms) = Inr body \<Longrightarrow>
      set ms \<subseteq> set m \<Longrightarrow> length body \<le> sum_list (map (\<lambda>(k, v). 4 + 6 * length k + text_bound v) ms)" for n ms body
  proof (induction ms arbitrary: body)
    case (Cons p ms)
    obtain k v where p: "p = (k, v)" by (cases p)
    then have m: "p \<in> set m" and v: "json_ok grisu2 strtod v"
      using Cons.prems JObject.prems(1) by (auto simp: list_all_iff)
    from Cons.prems(1) obtain key tx more where "dump_escaped False k = Inr key"
      "serializer_dump grisu2 False False step cur v = Inr tx"
      "dump_members False False n (map (\<lambda>(k, v). (k, serializer_dump grisu2 False False step cur v)) ms) = Inr more"
      and body: "body = [CHR 0x22] @ key @ [CHR 0x22] @ '':'' @ tx @ (if ms = [] then [] else '','') @ more"
      by (auto simp: p res_bind_eq_Inr)
    then have "length key \<le> 6 * length k" "length tx \<le> text_bound v"
      "length more \<le> sum_list (map (\<lambda>(k, v). 4 + 6 * length k + text_bound v) ms)"
      using Cons.IH Cons.prems(2) length_escaped JObject.IH [OF m, of v cur] v by (simp_all add: p)
    then show ?case by (cases "ms = []") (simp_all add: p body)
  qed simp
  show ?case using JObject.prems * [of "cur + step" m]
    by (auto simp: res_bind_eq_Inr bracket_def split: if_splits)
qed (auto split: if_splits)

lemma dump_text_length: "json_ok grisu2 strtod j \<Longrightarrow> length (dump_text grisu2 (- 1) j) \<le> text_bound j"
  using serializer_total [of grisu2 strtod j False 0 0] compact_length [of grisu2 strtod j 0 0]
  by (auto simp: dump_text_def json_dump_def)

lemma text_bound_put: "text_bound (JObject (map_put k v m)) \<le> 4 + 6 * length k + text_bound v + text_bound (JObject m)"
  by (induction m) auto

lemma text_bound_emplace_all:
  "text_bound (JObject (foldl (\<lambda>m (k, v). map_emplace k v m) m ps)) \<le>
     text_bound (JObject m) + sum_list (map (\<lambda>(k, v). 4 + 6 * length k + text_bound v) ps)"
proof (induction ps arbitrary: m)
  case (Cons p ps)
  obtain k v where p: "p = (k, v)" by (cases p)
  have "text_bound (JObject (map_emplace k v m)) \<le> 4 + 6 * length k + text_bound v + text_bound (JObject m)"
    using text_bound_put [of k v m] by (simp add: map_emplace_def)
  with Cons.IH [of "map_emplace k v m"] show ?case by (simp add: p)
qed simp

lemma text_bound_object: "text_bound (json_object ps) \<le> text_bound (JObject ps)"
  using text_bound_emplace_all [of "[]" ps] by (simp add: json_object_def)

subsection \<open>What the library promises\<close>

text \<open>
  C9: a value that the library can hold is written without an exception, compact or indented, and
  its text, with white space after it, is parsed into the same value.
\<close>

theorem json_text_roundtrip:
  assumes "json_ok grisu2 strtod j" and "\<forall>x \<in> set w. is_json_ws x"
  shows "\<exists>t. json_dump grisu2 indent j = Inr t \<and> json_parse strtod (t @ w) = Inr j"
  using assms by (rule json_parse_dump)

definition sample_json :: json where
  "sample_json = json_object
     [(''n'', JInt (- 7)), (''s'', JString [CHR 0xC3, CHR 0xA9, CHR 0x22, CHR 0x01]), (''x'', JFloat (3 / 2)),
      (''a'', JArray [JNull, JBool True, JObject []])]"

definition sample_grisu2 :: "double \<Rightarrow> string \<times> int" where
  "sample_grisu2 x = (''15'', - 1)"

definition sample_strtod :: "string \<Rightarrow> double option" where
  "sample_strtod t = Some (if t = ''1.5'' then 3 / 2 else 0)"

lemma sample_float_ok: "float_ok sample_grisu2 sample_strtod 0" "float_ok sample_grisu2 sample_strtod (3 / 2)"
  by (simp_all add: float_ok_def sample_grisu2_def sample_strtod_def to_chars_def format_buffer_def
      digits_ok_def is_digit_def)

lemma sample_json_ok: "json_ok sample_grisu2 sample_strtod sample_json"
proof -
  have "utf8_next 0 0xC3 = 2" "utf8_next 2 0xA9 = 0" "utf8_next 0 0x22 = 0" "utf8_next 0 1 = 0"
    by (simp_all add: utf8_next_def utf8d_def)
  moreover have "utf8_next 0 0x6E = 0" "utf8_next 0 0x73 = 0" "utf8_next 0 0x78 = 0" "utf8_next 0 0x61 = 0"
    by (simp_all add: utf8_next_def utf8d_def)
  ultimately show ?thesis
    using sample_float_ok
    by (simp add: sample_json_def json_object_def map_emplace_def sorted_keys_def utf8_ok_def LLONG_MIN_def ULLONG_MAX_def)
qed

theorem json_text_roundtrip_witness:
  "\<exists>t. json_dump sample_grisu2 2 sample_json = Inr t \<and> json_parse sample_strtod (t @ [CHR 0x0A]) = Inr sample_json"
  by (rule json_text_roundtrip [OF sample_json_ok]) (simp add: is_json_ws_def)

text \<open>
  C10: whatever text is accepted gives a value that the library can hold, with its keys in order and
  its strings in UTF-8, so what was parsed can always be written, and reads back as it was.
\<close>

theorem json_accepted_reads_back:
  assumes "json_parse strtod s = Inr j" and "\<And>t x. strtod t = Some x \<Longrightarrow> float_ok grisu2 strtod x"
  shows "json_ok grisu2 strtod j \<and> (\<exists>t. json_dump grisu2 indent j = Inr t \<and> json_parse strtod t = Inr j)"
proof -
  have "json_ok grisu2 strtod j" using assms by (rule json_parse_ok)
  with json_parse_dump [OF this, of "[]" indent] show ?thesis by simp
qed

theorem json_accepted_reads_back_witness:
  "json_ok sample_grisu2 sample_strtod (JArray [JInt 1, JBool True]) \<and>
   (\<exists>t. json_dump sample_grisu2 (- 1) (JArray [JInt 1, JBool True]) = Inr t \<and>
      json_parse sample_strtod t = Inr (JArray [JInt 1, JBool True]))"
proof (rule json_accepted_reads_back)
  show "json_parse sample_strtod ''[1, true]'' = Inr (JArray [JInt 1, JBool True])" by code_simp
  show "\<And>t x. sample_strtod t = Some x \<Longrightarrow> float_ok sample_grisu2 sample_strtod x"
    using sample_float_ok by (auto simp: sample_strtod_def [of t for t] split: if_splits)
qed

text \<open>
  C28: the digits that \<open>dump_integer\<close> writes two at a time are the decimal form of the integer, as many
  as \<open>count_digits\<close> has counted, so it writes to the whole of the buffer's part and no further.
\<close>

theorem dump_integer_exact:
  assumes "LLONG_MIN \<le> i" and "i \<le> ULLONG_MAX"
  shows "dump_integer i = show_int i \<and>
    length (dump_integer i) = (if i < 0 then 1 else 0) + count_digits (nat \<bar>i\<bar>) \<and> length (dump_integer i) \<le> 20"
proof -
  have "length (show_int i) = (if i < 0 then 1 else 0) + count_digits (nat \<bar>i\<bar>)"
    by (simp add: show_int_def count_digits_length put_digits_show abs_if)
  with length_show_int [OF assms] show ?thesis by (simp add: dump_integer_show)
qed

theorem dump_integer_exact_witness:
  "dump_integer (- 120034) = show_int (- 120034) \<and>
   length (dump_integer (- 120034)) = (if (- 120034) < (0::int) then 1 else 0) + count_digits (nat \<bar>- 120034\<bar>) \<and>
   length (dump_integer (- 120034)) \<le> 20"
  by (rule dump_integer_exact) (simp_all add: LLONG_MIN_def ULLONG_MAX_def)

end
