(* ===== verification/JsonPrograms.thy ===== *)
theory JsonPrograms
  imports JsonCodec RunnerMessages PipeVerifier System
begin

section \<open>The values of the programs and the JSON library\<close>

text \<open>
  Other theories take from the JSON library that it reads back what it wrote, for the values at
  hand. Here this is proved of the library's model, for every value the programs write: what is
  left to assume is that their strings are UTF-8 and that their numbers survive Grisu2 and
  \<open>strtod\<close> (\<open>float_ok\<close>).
\<close>

subsection \<open>Objects\<close>

named_theorems json_values

lemma json_ok_object [json_values]:
  "list_all (\<lambda>(k, v). utf8_ok k \<and> json_ok grisu2 strtod v) ps \<Longrightarrow> json_ok grisu2 strtod (json_object ps)"
proof -
  have "json_ok grisu2 strtod (JObject m) \<Longrightarrow> list_all (\<lambda>(k, v). utf8_ok k \<and> json_ok grisu2 strtod v) ps \<Longrightarrow>
      json_ok grisu2 strtod (JObject (foldl (\<lambda>m (k, v). map_emplace k v m) m ps))" for m
  proof (induction ps arbitrary: m)
    case (Cons p ps)
    obtain k v where p: "p = (k, v)" by (cases p)
    with Cons.prems have "json_ok grisu2 strtod (JObject (map_emplace k v m))" by (intro json_ok_emplace) simp_all
    with Cons.IH Cons.prems(2) show ?case by (simp add: p)
  qed (simp only: foldl_Nil)
  from this [of "[]"] show "list_all (\<lambda>(k, v). utf8_ok k \<and> json_ok grisu2 strtod v) ps \<Longrightarrow>
      json_ok grisu2 strtod (json_object ps)"
    by (simp add: json_object_def sorted_keys_def)
qed

lemma json_ok_set [json_values]:
  "json_ok grisu2 strtod j \<Longrightarrow> utf8_ok k \<Longrightarrow> json_ok grisu2 strtod v \<Longrightarrow> json_ok grisu2 strtod (json_set k v j)"
  using json_ok_put [of grisu2 strtod _ k v] by (cases j) (simp_all add: sorted_keys_def)

lemma utf8_ok_literal [json_values]: "list_all (\<lambda>c. (of_char c :: nat) < 0x80) s \<Longrightarrow> utf8_ok s"
  by (rule utf8_ok_ascii_string) (simp add: list_all_iff)

lemma json_ok_llong [json_values]: "llong_range i \<Longrightarrow> json_ok grisu2 strtod (JInt i)"
  by (simp add: llong_range_def LLONG_MAX_def ULLONG_MAX_def)

lemma json_ok_int: "int_range i \<Longrightarrow> json_ok grisu2 strtod (JInt i)"
  by (intro json_ok_llong int_imp_llong_range)

subsection \<open>Statistics, configurations and results\<close>

text \<open>The numbers and the strings of a value that its type does not already make printable.\<close>

definition stats_doubles :: "TestStats \<Rightarrow> double list" where
  "stats_doubles s = [duration s, throughputMbps s]"

definition phase_doubles :: "TestPhaseResult \<Rightarrow> double list" where
  "phase_doubles p = stats_doubles (senderStats p) @ stats_doubles (receiverStats p)"

definition phase_texts :: "TestPhaseResult \<Rightarrow> string list" where
  "phase_texts p = [phaseName p, senderRole p, receiverRole p, ph_failureReason p]"

definition result_doubles :: "TestRunResult \<Rightarrow> double list" where
  "result_doubles r = phase_doubles (phase1 r) @ phase_doubles (phase2 r)"

definition result_texts :: "TestRunResult \<Rightarrow> string list" where
  "result_texts r = [schemaVersion r, runId r, role r, startedAt r, finishedAt r, finalState r,
     failureReason r, resultExportWarning r, targetIP (config r)] @ phase_texts (phase1 r) @ phase_texts (phase2 r)"

lemma stats_json_ok:
  assumes "stats_in_range s" and "list_all (float_ok grisu2 strtod) (stats_doubles s)"
  shows "json_ok grisu2 strtod (TestStats_to_json s)"
  unfolding TestStats_to_json_def
  using assms by (intro json_ok_object) (simp add: json_ok_llong stats_in_range_def stats_doubles_def
      utf8_ok_literal del: json_ok.simps(1))

lemma config_json_ok:
  assumes "config_valid c" and "utf8_ok (targetIP c)"
  shows "json_ok grisu2 strtod (Config_toJson c)"
proof -
  have "\<forall>i \<in> {packetSize c, numPackets c, sendIntervalMs c, port c, handshakeTimeoutMs c}. LLONG_MIN \<le> i \<and> i \<le> ULLONG_MAX"
    using assms(1) by (simp add: config_valid_def LLONG_MIN_def ULLONG_MAX_def INT_MAX_def)
  moreover have "utf8_ok (protocol c)" "utf8_ok (mode_string (mode c))"
    using assms(1) by (simp_all add: config_valid_def mode_string_def utf8_ok_literal)
  ultimately show ?thesis
    unfolding Config_toJson_def using assms(2)
    by (intro json_ok_object) (simp add: utf8_ok_literal)
qed

lemma phase_json_ok:
  assumes "phase_in_range p" and "list_all (float_ok grisu2 strtod) (phase_doubles p)"
    and "list_all utf8_ok (phase_texts p)"
  shows "json_ok grisu2 strtod (TestPhaseResult_to_json p)"
  unfolding TestPhaseResult_to_json_def
  using assms by (intro json_ok_object) (simp add: phase_in_range_def phase_doubles_def phase_texts_def
      stats_json_ok utf8_ok_literal)

lemma result_json_ok:
  assumes "result_in_range r" and "list_all (float_ok grisu2 strtod) (result_doubles r)"
    and "list_all utf8_ok (result_texts r)"
  shows "json_ok grisu2 strtod (TestRunResult_to_json r)"
  unfolding TestRunResult_to_json_def
  using assms by (intro json_ok_object) (simp add: result_in_range_def result_doubles_def result_texts_def
      phase_json_ok config_json_ok utf8_ok_literal)

subsection \<open>What a run relies on\<close>

lemma stats_in_run:
  assumes "config_valid cfg" "sender_stats cfg s \<or> receiver_stats cfg s"
  shows "stats_in_range s"
proof -
  have "0 \<le> numPackets cfg" "numPackets cfg \<le> INT_MAX" "0 < packetSize cfg" "packetSize cfg \<le> INT_MAX"
    using assms(1) by (simp_all add: config_valid_def)
  then have "numPackets cfg * packetSize cfg \<le> INT_MAX * INT_MAX" "0 \<le> numPackets cfg * packetSize cfg"
    by (simp_all add: mult_mono)
  then have "llong_range (numPackets cfg * packetSize cfg)"
    by (auto simp: llong_range_def LLONG_MIN_def LLONG_MAX_def INT_MAX_def intro: order_trans)
  moreover have "llong_range (numPackets cfg)" "llong_range 0"
    using assms(1) by (simp_all add: config_valid_def llong_range_def LLONG_MIN_def LLONG_MAX_def INT_MAX_def)
  ultimately show ?thesis
    using assms(2) by (auto simp: stats_in_range_def sender_stats_def receiver_stats_def)
qed

lemma bound_at_most: "json_ok grisu2 strtod j \<Longrightarrow> text_bound j \<le> n \<Longrightarrow> length (dump_text grisu2 (- 1) j) \<le> n"
  by (rule order_trans [OF dump_text_length])

lemma stats_bound: "text_bound (TestStats_to_json s) \<le> 2000"
  unfolding TestStats_to_json_def by (rule order_trans [OF text_bound_object]) simp

lemma config_bound:
  assumes "config_valid c"
  shows "text_bound (Config_toJson c) \<le> 2000 + 6 * length (targetIP c)"
  unfolding Config_toJson_def
  using assms by (intro order_trans [OF text_bound_object]) (simp add: config_valid_def mode_string_def)



subsection \<open>Messages of the test runner\<close>

definition test_result_doubles :: "TestResult \<Rightarrow> double list" where
  "test_result_doubles r = [tr_duration r, tr_throughput r]"

fun message_doubles :: "RunnerMessage \<Rightarrow> double list" where
  "message_doubles (ResultsRequestMessage p r) = test_result_doubles r"
| "message_doubles (ResultsResponseMessage r) = test_result_doubles r"
| "message_doubles m = []"

definition test_config_texts :: "TestConfig \<Rightarrow> string list" where
  "test_config_texts c = [tc_mode c, tc_configPath c, tc_targetIP c, tc_serverBindIP c, tc_protocol c,
     tc_runId c, tc_resultDir c]"

fun message_texts :: "RunnerMessage \<Rightarrow> string list" where
  "message_texts (BaseMessage t e) = [e]"
| "message_texts (ConfigRequestMessage c) = test_config_texts c"
| "message_texts (ServerReadyMessage p ip) = [ip]"
| "message_texts (TestCompleteMessage p ok) = []"
| "message_texts (ResultsRequestMessage p r) = [tr_role r, tr_failureReason r]"
| "message_texts (ResultsResponseMessage r) = [tr_role r, tr_failureReason r]"
| "message_texts (ErrorMessage e) = [e]"
| "message_texts ServerShutdownMessage = []"

lemma test_config_json_ok:
  assumes "TestConfig_in_range c" and "list_all utf8_ok (test_config_texts c)"
  shows "json_ok grisu2 strtod (TestConfig_to_json c)"
  unfolding TestConfig_to_json_def
  using assms by (intro json_ok_object) (simp add: TestConfig_in_range_def test_config_texts_def
      json_ok_int json_ok_llong utf8_ok_literal del: json_ok.simps(1))

lemma test_result_json_ok:
  assumes "TestResult_in_range r" and "list_all (float_ok grisu2 strtod) (test_result_doubles r)"
    and "utf8_ok (tr_role r)" "utf8_ok (tr_failureReason r)"
  shows "json_ok grisu2 strtod (TestResult_to_json r)"
  unfolding TestResult_to_json_def
  using assms by (intro json_ok_object) (simp add: TestResult_in_range_def test_result_doubles_def
      json_ok_int json_ok_llong utf8_ok_literal del: json_ok.simps(1))

lemma json_ok_set_all:
  "list_all (\<lambda>(k, v). utf8_ok k \<and> json_ok grisu2 strtod v) ps \<Longrightarrow> json_ok grisu2 strtod j \<Longrightarrow>
   json_ok grisu2 strtod (foldl (\<lambda>j (k, v). json_set k v j) j ps)"
  by (induction ps arbitrary: j) (auto intro: json_ok_set)

lemma message_type_ascii: "utf8_ok (MessageTypeToString t)"
  by (cases t) (simp_all add: utf8_ok_literal)

lemma message_json_ok:
  assumes "message_ok m" and "list_all utf8_ok (message_texts m)"
    and "list_all (float_ok grisu2 strtod) (message_doubles m)"
  shows "json_ok grisu2 strtod (message_json m)"
proof -
  have "list_all (\<lambda>(k, v). utf8_ok k \<and> json_ok grisu2 strtod v) (message_fields m)"
    using assms by (cases m) (simp_all add: json_ok_int test_config_json_ok test_result_json_ok utf8_ok_literal
        del: json_ok.simps(1))
  then show ?thesis
    unfolding message_json_def by (intro json_ok_set_all) (simp_all add: message_type_ascii utf8_ok_literal)
qed

text \<open>
  C17: every message of the test runner is read back as it was written, its type first, by the
  library's own parser.
\<close>

theorem messages_through_library:
  assumes "message_ok m" and "list_all utf8_ok (message_texts m)"
    and "list_all (float_ok grisu2 strtod) (message_doubles m)"
  shows "let t = SerializeMessage (dump_text grisu2 (- 1)) m in
    GetMessageType (json_parse strtod) t = Inr (message_type m) \<and> read_message (json_parse strtod) t = Inr m"
  unfolding Let_def
  using assms by (intro message_roundtrip) (simp_all add: SerializeMessage_def library.reads_back_exactly message_json_ok)

definition sample_result :: TestResult where
  "sample_result = empty_TestResult\<lparr>tr_role := ''client'', tr_port := 5201, tr_duration := 3 / 2,
     tr_totalBytes := 1024, tr_totalPackets := 1\<rparr>"

theorem messages_through_library_witness:
  "let t = SerializeMessage (dump_text sample_grisu2 (- 1)) (ResultsRequestMessage 5201 sample_result) in
   GetMessageType (json_parse sample_strtod) t = Inr (message_type (ResultsRequestMessage 5201 sample_result)) \<and>
   read_message (json_parse sample_strtod) t = Inr (ResultsRequestMessage 5201 sample_result)"
  by (rule messages_through_library)
    (simp_all add: sample_result_def empty_TestResult_def TestResult_in_range_def test_result_doubles_def
      int_range_def llong_range_def INT_MIN_def INT_MAX_def LLONG_MIN_def LLONG_MAX_def sample_float_ok utf8_ok_literal)

subsection \<open>Events and result files\<close>

definition ascii :: "string \<Rightarrow> bool" where
  "ascii s \<longleftrightarrow> list_all (\<lambda>c. (of_char c :: nat) < 0x80) s"

lemma ascii_simps [simp]:
  "ascii []" "ascii (c # s) \<longleftrightarrow> (of_char c :: nat) < 0x80 \<and> ascii s" "ascii (s @ t) \<longleftrightarrow> ascii s \<and> ascii t"
  by (auto simp: ascii_def)

lemma utf8_ok_ascii_append: "ascii s \<Longrightarrow> utf8_ok t \<Longrightarrow> utf8_ok (s @ t)"
  by (auto simp: ascii_def intro: utf8_ok_append utf8_ok_literal)

lemma ascii_show_int [simp]: "ascii (show_int i)"
proof -
  have "ascii (show_nat n)" for n
  proof (induction n rule: show_nat.induct)
    case (1 n)
    have "n mod 10 < 10" by simp
    then have "n mod 10 < 80" by linarith
    with 1 show ?case by (subst show_nat.simps) (simp add: of_char_digit_char)
  qed
  then show ?thesis by (simp add: show_int_def)
qed

lemma ascii_add_reason [simp]: "ascii msg \<Longrightarrow> ascii reason \<Longrightarrow> ascii (add_reason b msg reason)"
  by (simp add: add_reason_def combineReasons_def)

lemma ascii_verdict [simp]: "ascii (validateReceiverStats s c)"
  unfolding validateReceiverStats_def Let_def by (intro ascii_add_reason) simp_all

lemma utf8_add_reason: "ascii msg \<Longrightarrow> utf8_ok reason \<Longrightarrow> utf8_ok (add_reason b msg reason)"
  using utf8_ok_append [of reason] utf8_ok_ascii_append [of "''; ''" msg] utf8_ok_literal [of msg]
  by (simp add: add_reason_def combineReasons_def ascii_def)

lemma ascii_names [simp]: "ascii (stateToString st)" "ascii (roleString m)"
  by (simp_all add: stateToString_def roleString_def split: CtlState.split)

text \<open>What a controller puts into its result beside its own texts and its counters.\<close>

definition controller_texts :: "Controller \<Rightarrow> string list" where
  "controller_texts ct = [opt_runId (ct_runOptions ct), ct_startedAt ct, ct_resultExportWarning ct,
     targetIP (nd_config (ct_node ct))]"

definition controller_stats :: "Controller \<Rightarrow> TestStats list" where
  "controller_stats ct = [nd_clientStatsPhase1 (ct_node ct), nd_serverStatsPhase1 (ct_node ct),
     nd_clientStatsPhase2 (ct_node ct), nd_serverStatsPhase2 (ct_node ct)]"

definition controller_ok :: "(double \<Rightarrow> string \<times> int) \<Rightarrow> (string \<Rightarrow> double option) \<Rightarrow> Controller \<Rightarrow> bool" where
  "controller_ok grisu2 strtod ct \<longleftrightarrow> config_valid (nd_config (ct_node ct)) \<and>
     list_all utf8_ok (controller_texts ct) \<and>
     list_all (\<lambda>s. stats_in_range s \<and> list_all (float_ok grisu2 strtod) (stats_doubles s)) (controller_stats ct)"

lemma utf8_ascii: "ascii s \<Longrightarrow> utf8_ok s"
  by (simp add: ascii_def utf8_ok_literal)

lemma built_result:
  assumes "controller_ok grisu2 strtod ct" and "utf8_ok now" "utf8_ok reason" "utf8_ok w"
  defines "r \<equiv> buildCurrentResult now reason ct\<lparr>resultExportWarning := w\<rparr>"
  shows "result_in_range r" "list_all (float_ok grisu2 strtod) (result_doubles r)" "list_all utf8_ok (result_texts r)"
proof -
  show "result_in_range r" "list_all (float_ok grisu2 strtod) (result_doubles r)"
    using assms(1)
    by (simp_all add: r_def controller_ok_def controller_stats_def buildCurrentResult_def build_phase_def Let_def
        result_in_range_def phase_in_range_def result_doubles_def phase_doubles_def)
  show "list_all utf8_ok (result_texts r)"
    using assms(1-4)
    by (simp add: r_def controller_ok_def controller_texts_def buildCurrentResult_def build_phase_def Let_def
        result_texts_def phase_texts_def utf8_ascii utf8_add_reason)
qed

lemma json_ok_phase_event:
  assumes "result_in_range r" "list_all (float_ok grisu2 strtod) (result_doubles r)" "list_all utf8_ok (result_texts r)"
    and "k \<le> 2"
  shows "json_ok grisu2 strtod (phase_event k r)"
  using assms unfolding phase_event_def
  by (intro json_ok_set phase_json_ok)
    (simp_all add: result_in_range_def result_doubles_def result_texts_def utf8_ok_literal LLONG_MIN_def ULLONG_MAX_def)

text \<open>
  C35: what a controller publishes and writes passes through the library. Each event is one line that
  is read back as the event, and the result file, with the line feed at its end, is read back as the
  result.
\<close>

theorem published_through_library:
  assumes "controller_ok grisu2 strtod ct" and "utf8_ok now" "utf8_ok reason" "utf8_ok warning" and "k \<le> 2"
  shows "let parse = json_parse strtod; dump = dump_text grisu2 (- 1);
      r = buildCurrentResult now reason ct\<lparr>resultExportWarning := warning\<rparr> in
    event_ok parse dump (run_started_event ct) \<and> event_ok parse dump (phase_event k r) \<and>
    event_ok parse dump (final_event r) \<and>
    decode_with parse TestRunResult_from_json (dump_text grisu2 2 (TestRunResult_to_json r) @ [CHR 0x0A]) = Inr r"
proof -
  define r where "r = buildCurrentResult now reason ct\<lparr>resultExportWarning := warning\<rparr>"
  note r = built_result [OF assms(1-4), folded r_def]
  have line: "event_ok (json_parse strtod) (dump_text grisu2 (- 1)) j" if "json_ok grisu2 strtod j" for j
    using lines.line_of_value [OF that] by (simp add: event_ok_def)
  have "json_ok grisu2 strtod (run_started_event ct)"
    using assms(1) unfolding run_started_event_def
    by (intro json_ok_set config_json_ok) (simp_all add: controller_ok_def controller_texts_def utf8_ascii utf8_ok_literal)
  moreover have "json_ok grisu2 strtod (final_event r)"
    using result_json_ok [OF r] r(3) unfolding final_event_def
    by (intro json_ok_set) (simp_all add: result_texts_def utf8_ok_literal)
  moreover have "decode_with (json_parse strtod) TestRunResult_from_json
      (dump_text grisu2 2 (TestRunResult_to_json r) @ [CHR 0x0A]) = Inr r"
    using r(1) result_json_ok [OF r] by (intro library.decode_dump [OF result_codec.json_codec_axioms])
      (simp_all add: is_json_ws_def)
  ultimately show ?thesis
    using line json_ok_phase_event [OF r assms(5)] by (simp add: r_def [symmetric])
qed

theorem published_through_library_witness:
  "let parse = json_parse sample_strtod; dump = dump_text sample_grisu2 (- 1);
     ct = (new_Controller 0)\<lparr>ct_startedAt := ''2025-01-01''\<rparr>;
     r = buildCurrentResult ''2025-01-02'' ''stopped'' ct\<lparr>resultExportWarning := ''w''\<rparr> in
   event_ok parse dump (run_started_event ct) \<and> event_ok parse dump (phase_event 1 r) \<and>
   event_ok parse dump (final_event r) \<and>
   decode_with parse TestRunResult_from_json (dump_text sample_grisu2 2 (TestRunResult_to_json r) @ [CHR 0x0A]) = Inr r"
proof -
  have "controller_ok sample_grisu2 sample_strtod ((new_Controller 0)\<lparr>ct_startedAt := ''2025-01-01''\<rparr>)"
    by (simp add: controller_ok_def controller_texts_def controller_stats_def new_Controller_def new_Node_def
        default_RunOptions_def default_Config_def config_valid_def stats_in_range_def stats_doubles_def zeroStats_def
        llong_range_def INT_MAX_def LLONG_MIN_def LLONG_MAX_def sample_float_ok utf8_ok_literal)
  from published_through_library [OF this, of "''2025-01-02''" "''stopped''" "''w''" 1]
  show ?thesis by (simp add: utf8_ok_literal Let_def)
qed

end
